(* ===== verification/Prelude.thy ===== *)
theory Prelude
  imports
    Main
    "HOL-Library.AList"
    "HOL-Library.List_Lexorder"
    "HOL-Library.Char_ord"
begin

text \<open>
  What the components share: the two ways the code refuses (a typed problem with its HTTP status,
  a thrown error), sequencing of fallible steps, tables as lists of rows with the three SQL shapes
  the services use (a filtered sum, a conditional update, a first match), and the generic lemmas
  about them. Tables keep their rows in insertion order. \<open>JavaScript Map\<close> values are association
  lists: \<open>AList.update\<close> keeps the position of a known key and appends a new one, as
  \<open>Map.prototype.set\<close> does.
\<close>

section \<open>Names and failures\<close>

type_synonym uuid = string
type_synonym millis = int

text \<open>
  \<open>Problem code status\<close> is a \<open>ProblemException\<close> (the machine-readable code clients branch on and
  its HTTP status; titles and prose are left out). \<open>Thrown tag\<close> is a plain \<open>Error\<close>.
\<close>

datatype failure = Problem string nat | Thrown string

type_synonym 'a result = "failure + 'a"

section \<open>Sequencing\<close>

definition and_then :: "'e + 'a \<Rightarrow> ('a \<Rightarrow> 'e + 'b) \<Rightarrow> 'e + 'b" where
  "and_then x k = (case x of Inl e \<Rightarrow> Inl e | Inr v \<Rightarrow> k v)"

definition require :: "bool \<Rightarrow> 'e \<Rightarrow> 'e + unit" where
  "require b e = (if b then Inr () else Inl e)"

fun foldM :: "('s \<Rightarrow> 'a \<Rightarrow> 'e + 's) \<Rightarrow> 's \<Rightarrow> 'a list \<Rightarrow> 'e + 's" where
  "foldM f s [] = Inr s"
| "foldM f s (x # xs) = and_then (f s x) (\<lambda>s'. foldM f s' xs)"

lemma and_then_simps [simp]:
  "and_then (Inl e) k = Inl e"
  "and_then (Inr v) k = k v"
  by (simp_all add: and_then_def)

lemma and_then_Inr [simp]:
  "(and_then x k = Inr y) = (\<exists>v. x = Inr v \<and> k v = Inr y)"
  by (cases x) auto

lemma require_simps [simp]:
  "(require b e = Inr u) = b"
  "(require b e = Inl e') = (\<not> b \<and> e' = e)"
  "require True e = Inr ()"
  "require False e = Inl e"
  by (auto simp: require_def)

lemma foldM_append:
  "foldM f s (xs @ ys) = and_then (foldM f s xs) (\<lambda>s'. foldM f s' ys)"
proof (induction xs arbitrary: s)
  case Nil
  then show ?case by simp
next
  case (Cons x xs)
  then show ?case by (cases "f s x") auto
qed

lemma foldM_invariant:
  assumes "foldM f s xs = Inr t" and "I s"
    and "\<And>s x s'. x \<in> set xs \<Longrightarrow> I s \<Longrightarrow> f s x = Inr s' \<Longrightarrow> I s'"
  shows "I t"
  using assms
proof (induction xs arbitrary: s)
  case Nil
  then show ?case by simp
next
  case (Cons x xs)
  from Cons.prems(1) obtain s' where s': "f s x = Inr s'" "foldM f s' xs = Inr t" by auto
  have "I s'" using Cons.prems(2,3) s'(1) by auto
  then show ?case using Cons.IH [OF s'(2)] Cons.prems(3) by auto
qed

section \<open>Text\<close>

text \<open>\<open>String.prototype.trim\<close> on the whitespace of Latin-1.\<close>

definition js_space :: "char \<Rightarrow> bool" where
  "js_space c = (of_char c \<in> set [9, 10, 11, 12, 13, 32, 160 :: nat])"

definition js_trim :: "string \<Rightarrow> string" where
  "js_trim s = rev (dropWhile js_space (rev (dropWhile js_space s)))"

section \<open>Tables\<close>

named_theorems table_simps
  "how the filtered sum sees insertions, conditional updates and deletions"

definition sum_where :: "('r \<Rightarrow> bool) \<Rightarrow> ('r \<Rightarrow> int) \<Rightarrow> 'r list \<Rightarrow> int" where
  "sum_where P f rows = sum_list (map f (filter P rows))"

definition update_where :: "('r \<Rightarrow> bool) \<Rightarrow> ('r \<Rightarrow> 'r) \<Rightarrow> 'r list \<Rightarrow> 'r list" where
  "update_where P g rows = map (\<lambda>r. if P r then g r else r) rows"

definition delete_where :: "('r \<Rightarrow> bool) \<Rightarrow> 'r list \<Rightarrow> 'r list" where
  "delete_where P rows = filter (\<lambda>r. \<not> P r) rows"

lemma sum_where_Nil [simp]: "sum_where P f [] = 0"
  by (simp add: sum_where_def)

lemma sum_where_Cons [simp]:
  "sum_where P f (r # rows) = (if P r then f r else 0) + sum_where P f rows"
  by (simp add: sum_where_def)

lemma sum_where_append [simp]:
  "sum_where P f (xs @ ys) = sum_where P f xs + sum_where P f ys"
  by (induction xs) auto

lemma update_where_simps [simp]:
  "update_where P g [] = []"
  "update_where P g (r # rows) = (if P r then g r else r) # update_where P g rows"
  by (simp_all add: update_where_def)

lemma delete_where_simps [simp]:
  "delete_where P [] = []"
  "delete_where P (r # rows) = (if P r then delete_where P rows else r # delete_where P rows)"
  by (simp_all add: delete_where_def)

lemma set_update_where: "set (update_where P g rows) = (\<lambda>r. if P r then g r else r) ` set rows"
  by (simp add: update_where_def)

lemma set_delete_where [simp]: "set (delete_where P rows) = {r \<in> set rows. \<not> P r}"
  by (auto simp: delete_where_def)

lemma length_update_where [simp]: "length (update_where P g rows) = length rows"
  by (simp add: update_where_def)

lemma sum_where_cong:
  assumes "\<And>r. r \<in> set rows \<Longrightarrow> P r = Q r" and "\<And>r. r \<in> set rows \<Longrightarrow> Q r \<Longrightarrow> f r = g r"
  shows "sum_where P f rows = sum_where Q g rows"
  using assms by (induction rows) auto

lemma sum_where_none: "(\<And>r. r \<in> set rows \<Longrightarrow> \<not> P r) \<Longrightarrow> sum_where P f rows = 0"
  by (induction rows) auto

lemma sum_where_nonneg: "(\<And>r. r \<in> set rows \<Longrightarrow> P r \<Longrightarrow> 0 \<le> f r) \<Longrightarrow> 0 \<le> sum_where P f rows"
  by (induction rows) auto

lemma sum_where_mono:
  "(\<And>r. r \<in> set rows \<Longrightarrow> (if P r then f r else 0) \<le> (if Q r then g r else 0)) \<Longrightarrow>
   sum_where P f rows \<le> sum_where Q g rows"
proof (induction rows)
  case Nil
  then show ?case by simp
next
  case (Cons x rows)
  have "(if P x then f x else 0) \<le> (if Q x then g x else 0)" using Cons.prems by simp
  moreover have "sum_where P f rows \<le> sum_where Q g rows" using Cons by simp
  ultimately show ?case by simp
qed

lemma sum_where_member_le:
  assumes "r \<in> set rows" and "P r" and "\<And>r. r \<in> set rows \<Longrightarrow> P r \<Longrightarrow> 0 \<le> f r"
  shows "f r \<le> sum_where P f rows"
  using assms
proof (induction rows)
  case Nil
  then show ?case by simp
next
  case (Cons x rows)
  have "0 \<le> sum_where P f rows" by (rule sum_where_nonneg) (use Cons.prems in auto)
  moreover have "0 \<le> (if P x then f x else 0)" using Cons.prems by auto
  moreover have "r \<in> set rows \<Longrightarrow> f r \<le> sum_where P f rows" using Cons by auto
  ultimately show ?case using Cons.prems by (cases "r = x") auto
qed

lemma sum_where_update_where:
  "sum_where P f (update_where Q g rows) =
   sum_where (\<lambda>r. \<not> Q r \<and> P r) f rows + sum_where (\<lambda>r. Q r \<and> P (g r)) (\<lambda>r. f (g r)) rows"
  by (induction rows) auto

lemma sum_where_delete_where [table_simps]:
  "sum_where P f (delete_where Q rows) = sum_where (\<lambda>r. P r \<and> \<not> Q r) f rows"
  by (induction rows) auto

lemma sum_where_split:
  "sum_where P f rows = sum_where (\<lambda>r. P r \<and> Q r) f rows + sum_where (\<lambda>r. P r \<and> \<not> Q r) f rows"
  by (induction rows) auto

lemma sum_where_distinct_key:
  assumes "distinct (map k rows)" and "r \<in> set rows"
  shows "sum_where (\<lambda>x. k x = k r) f rows = f r"
  using assms
proof (induction rows)
  case Nil
  then show ?case by simp
next
  case (Cons x rows)
  show ?case
  proof (cases "x = r")
    case True
    have "sum_where (\<lambda>y. k y = k r) f rows = 0"
      by (rule sum_where_none) (use Cons.prems True in \<open>auto simp: image_iff\<close>)
    with True show ?thesis by simp
  next
    case False
    then have "r \<in> set rows" using Cons.prems by simp
    moreover from this have "k x \<noteq> k r" using Cons.prems by (auto simp: image_iff)
    ultimately show ?thesis using Cons by simp
  qed
qed

lemma find_Some_iff_unique:
  assumes "distinct (map k rows)"
  shows "(find (\<lambda>r. k r = q) rows = Some r) = (r \<in> set rows \<and> k r = q)"
  using assms
proof (induction rows)
  case Nil
  then show ?case by simp
next
  case (Cons x rows)
  then show ?case by (auto simp: image_iff)
qed

lemma find_SomeD: "find P xs = Some y \<Longrightarrow> P y \<and> y \<in> set xs"
  by (induction xs) (auto split: if_splits)

lemma find_None_map: "(find (\<lambda>r. k r = q) rows = None) = (q \<notin> k ` set rows)"
  by (induction rows) auto

lemma map_key_update_where:
  assumes "\<And>r. r \<in> set rows \<Longrightarrow> P r \<Longrightarrow> k (g r) = k r"
  shows "map k (update_where P g rows) = map k rows"
  using assms by (induction rows) auto

text \<open>\<open>order by f desc limit 1\<close> as a fold: on rows whose keys ascend it is the last row.\<close>

lemma fold_best_last:
  fixes f :: "'r \<Rightarrow> 'k :: linorder"
  assumes "sorted_wrt (<) (map f (e # es))"
  shows "fold (\<lambda>e best. case best of None \<Rightarrow> Some e
      | Some b \<Rightarrow> if f b < f e then Some e else Some b) es (Some e) = Some (last (e # es))"
  using assms by (induction es arbitrary: e) auto

section \<open>Quantity projections\<close>

text \<open>
  The services keep several tables that project a stream of signed postings onto a key: the stock
  and batch rows of the ledger, the running maps of a replay. \<open>posted\<close> is what such a table promises;
  the locale states the two laws of one posting and derives the promise for a sequence of guarded
  postings once.
\<close>

definition posted :: "('k \<times> int) list \<Rightarrow> 'k \<Rightarrow> int option" where
  "posted ps k = (if k \<in> fst ` set ps then Some (sum_where (\<lambda>p. fst p = k) snd ps) else None)"

definition quantity_or_0 :: "int option \<Rightarrow> int" where
  "quantity_or_0 q = (case q of None \<Rightarrow> 0 | Some n \<Rightarrow> n)"

definition guarded_post :: "(int \<Rightarrow> bool) \<Rightarrow> ('k \<Rightarrow> 'r \<Rightarrow> int option) \<Rightarrow> ('k \<Rightarrow> int \<Rightarrow> 'r \<Rightarrow> 'r) \<Rightarrow> 'e
    \<Rightarrow> 'r \<Rightarrow> 'k \<times> int \<Rightarrow> 'e + 'r" where
  "guarded_post ok at post refusal rows p =
     (if ok (quantity_or_0 (at (fst p) rows) + snd p) then Inr (post (fst p) (snd p) rows)
      else Inl refusal)"

definition projects :: "(int \<Rightarrow> bool) \<Rightarrow> ('k \<Rightarrow> 'r \<Rightarrow> int option) \<Rightarrow> 'r \<Rightarrow> ('k \<times> int) list \<Rightarrow> bool" where
  "projects ok at rows ps = (\<forall>k. at k rows = posted ps k \<and> (\<forall>q. at k rows = Some q \<longrightarrow> ok q))"

lemma quantity_or_0_simps [simp]: "quantity_or_0 None = 0" "quantity_or_0 (Some n) = n"
  by (simp_all add: quantity_or_0_def)

lemma posted_Nil [simp]: "posted [] k = None"
  by (simp add: posted_def)

lemma posted_snoc:
  "posted (ps @ [(k, d)]) k' =
   (if k' = k then Some (quantity_or_0 (posted ps k) + d) else posted ps k')"
proof -
  have "k \<notin> fst ` set ps \<Longrightarrow> sum_where (\<lambda>p. fst p = k) snd ps = 0"
    by (rule sum_where_none) auto
  then show ?thesis by (auto simp: posted_def)
qed

locale projection =
  fixes lookup :: "'k \<Rightarrow> 'r \<Rightarrow> int option"
    and upsert :: "'k \<Rightarrow> int \<Rightarrow> 'r \<Rightarrow> 'r"
    and ok :: "int \<Rightarrow> bool"
  assumes lookup_same: "ok (quantity_or_0 (lookup k rows) + d) \<Longrightarrow>
      lookup k (upsert k d rows) = Some (quantity_or_0 (lookup k rows) + d)"
    and lookup_other: "k' \<noteq> k \<Longrightarrow> lookup k' (upsert k d rows) = lookup k' rows"
begin

lemma projects_lookup: "projects ok lookup rows ps \<Longrightarrow> lookup k rows = posted ps k"
  by (simp add: projects_def)

lemma projects_ok: "projects ok lookup rows ps \<Longrightarrow> lookup k rows = Some q \<Longrightarrow> ok q"
  by (simp add: projects_def)

lemma projects_step:
  assumes "projects ok lookup rows ps" and "guarded_post ok lookup upsert refusal rows p = Inr rows'"
  shows "projects ok lookup rows' (ps @ [p])"
proof -
  obtain k d where p: "p = (k, d)" by (cases p)
  have ok: "ok (quantity_or_0 (lookup k rows) + d)" and rows': "rows' = upsert k d rows"
    using assms(2) by (auto simp: guarded_post_def p split: if_splits)
  have same: "lookup k rows' = Some (quantity_or_0 (lookup k rows) + d)"
    using lookup_same [OF ok] by (simp add: rows')
  have "lookup k' rows' = posted (ps @ [p]) k'" for k'
    using assms(1) same lookup_other [of k' k d rows]
    by (cases "k' = k") (auto simp: p posted_snoc rows' projects_def)
  moreover have "ok q" if "lookup k' rows' = Some q" for k' q
    using that assms(1) same ok lookup_other [of k' k d rows]
    by (cases "k' = k") (auto simp: rows' projects_def)
  ultimately show ?thesis by (simp add: projects_def)
qed

lemma projects_posts:
  assumes "projects ok lookup rows ps" and "foldM (guarded_post ok lookup upsert refusal) rows qs = Inr rows'"
  shows "projects ok lookup rows' (ps @ qs)"
  using assms
proof (induction qs arbitrary: rows ps)
  case Nil
  then show ?case by simp
next
  case (Cons q qs)
  then obtain r where r: "guarded_post ok lookup upsert refusal rows q = Inr r"
    "foldM (guarded_post ok lookup upsert refusal) r qs = Inr rows'" by auto
  show ?case using Cons.IH [OF projects_step [OF Cons.prems(1) r(1)] r(2)] by simp
qed

end

section \<open>Strings that separate\<close>

text \<open>
  The services build composite keys by joining ids with a separator and later split them. Both are
  sound because no id holds the separator; \<open>append_sep_inject\<close> is the fact every such key rests on.
\<close>

lemma append_sep_inject:
  assumes "c \<notin> set a" and "c \<notin> set b"
  shows "(a @ c # x = b @ c # y) = (a = b \<and> x = y)"
proof
  assume eq: "a @ c # x = b @ c # y"
  have "takeWhile (\<lambda>d. d \<noteq> c) (a @ c # x) = a" using assms(1) by (induction a) auto
  moreover have "takeWhile (\<lambda>d. d \<noteq> c) (b @ c # y) = b" using assms(2) by (induction b) auto
  ultimately have "a = b" using eq by metis
  with eq show "a = b \<and> x = y" by simp
qed simp

text \<open>\<open>String.prototype.split\<close> with a one-character separator.\<close>

fun split_on :: "char \<Rightarrow> string \<Rightarrow> string list" where
  "split_on c [] = [[]]"
| "split_on c (d # s) =
     (if d = c then [] # split_on c s
      else (case split_on c s of [] \<Rightarrow> [[d]] | p # ps \<Rightarrow> (d # p) # ps))"

lemma split_on_no_sep: "c \<notin> set a \<Longrightarrow> split_on c a = [a]"
  by (induction a) auto

lemma split_on_append: "c \<notin> set a \<Longrightarrow> split_on c (a @ c # s) = a # split_on c s"
  by (induction a) auto

end
