(* ===== verification/Json.thy ===== *)
theory Json
  imports Prelude
begin

text \<open>
  What the ledger uses of \<open>JSON.stringify\<close>: the text of a value, with the string escapes of the
  ECMAScript \<open>QuoteJSONString\<close>, and the key-sorting replacer of \<open>canonicalReferenceBytes\<close>
  (\<open>modules/inventory/ledger.service.ts\<close>). A number is carried as the text \<open>String(n)\<close> gives for it.
  A property whose value is \<open>undefined\<close> is absent from the object, as in the text. Strings are their
  UTF-8 bytes. The theory ends with the fact the hash chain rests on: the text determines the value.
\<close>

datatype json =
    JNull
  | JBool bool
  | JNum string
  | JStr string
  | JArr "json list"
  | JObj "(string \<times> json) list"

section \<open>Text of a value\<close>

definition hex_digit :: "nat \<Rightarrow> char" where
  "hex_digit n = ''0123456789abcdef'' ! (n mod 16)"

definition quote_char :: "char \<Rightarrow> string" where
  "quote_char c =
     (if c = CHR 0x22 then [CHR 0x5C, CHR 0x22]
      else if c = CHR 0x5C then [CHR 0x5C, CHR 0x5C]
      else if c = CHR 0x08 then [CHR 0x5C, CHR ''b'']
      else if c = CHR 0x09 then [CHR 0x5C, CHR ''t'']
      else if c = CHR 0x0A then [CHR 0x5C, CHR ''n'']
      else if c = CHR 0x0C then [CHR 0x5C, CHR ''f'']
      else if c = CHR 0x0D then [CHR 0x5C, CHR ''r'']
      else if (of_char c :: nat) < 32
        then [CHR 0x5C, CHR ''u'', CHR ''0'', CHR ''0'', hex_digit (of_char c div 16), hex_digit (of_char c)]
      else [c])"

definition quote_string :: "string \<Rightarrow> string" where
  "quote_string s = CHR 0x22 # concat (map quote_char s) @ [CHR 0x22]"

fun join_with :: "char \<Rightarrow> string list \<Rightarrow> string" where
  "join_with c [] = []"
| "join_with c [x] = x"
| "join_with c (x # y # xs) = x @ c # join_with c (y # xs)"

primrec json_text :: "json \<Rightarrow> string" where
  "json_text JNull = ''null''"
| "json_text (JBool b) = (if b then ''true'' else ''false'')"
| "json_text (JNum n) = n"
| "json_text (JStr s) = quote_string s"
| "json_text (JArr xs) = CHR ''['' # join_with (CHR '','') (map json_text xs) @ '']''"
| "json_text (JObj kvs) =
     CHR ''{'' # join_with (CHR '','')
       (map (\<lambda>(k, t). quote_string k @ CHR '':'' # t) (map (map_prod id json_text) kvs)) @ ''}''"

text \<open>The replacer: every object's entries in the order of their keys, arrays as they are.\<close>

primrec canonical_reference :: "json \<Rightarrow> json" where
  "canonical_reference JNull = JNull"
| "canonical_reference (JBool b) = JBool b"
| "canonical_reference (JNum n) = JNum n"
| "canonical_reference (JStr s) = JStr s"
| "canonical_reference (JArr xs) = JArr (map canonical_reference xs)"
| "canonical_reference (JObj kvs) = JObj (sort_key fst (map (map_prod id canonical_reference) kvs))"

definition json_field :: "string \<Rightarrow> json \<Rightarrow> json option" where
  "json_field k v = (case v of JObj kvs \<Rightarrow> map_of kvs k | _ \<Rightarrow> None)"

section \<open>The text determines the value\<close>

text \<open>Characters of a number's text; what may follow a number in a text is none of them.\<close>

definition number_char :: "char \<Rightarrow> bool" where
  "number_char c = (c \<in> set ''0123456789+-.e'')"

definition number_text :: "string \<Rightarrow> bool" where
  "number_text s = (s \<noteq> [] \<and> list_all number_char s)"

primrec json_ok :: "json \<Rightarrow> bool" where
  "json_ok JNull = True"
| "json_ok (JBool b) = True"
| "json_ok (JNum n) = number_text n"
| "json_ok (JStr s) = True"
| "json_ok (JArr xs) = list_all id (map json_ok xs)"
| "json_ok (JObj kvs) = list_all snd (map (map_prod id json_ok) kvs)"

definition tail_ok :: "string \<Rightarrow> bool" where
  "tail_ok r = (case r of [] \<Rightarrow> True | c # _ \<Rightarrow> \<not> number_char c)"

lemma number_prefix:
  assumes "list_all number_char a" and "list_all number_char b" and "tail_ok r" and "tail_ok s"
    and "a @ r = b @ s"
  shows "a = b \<and> r = s"
proof -
  have "takeWhile number_char (a @ r) = a"
    using assms(1,3) by (induction a) (auto simp: tail_ok_def split: list.splits)
  moreover have "takeWhile number_char (b @ s) = b"
    using assms(2,4) by (induction b) (auto simp: tail_ok_def split: list.splits)
  ultimately show ?thesis using assms(5) by (metis same_append_eq)
qed

lemma hex_digit_inject:
  assumes "hex_digit m = hex_digit n" and "m < 16" and "n < 16"
  shows "m = n"
proof -
  have "distinct ''0123456789abcdef''" by simp
  then show ?thesis
    using assms nth_eq_iff_index_eq [of "''0123456789abcdef''" m n]
    by (simp add: hex_digit_def)
qed

lemma hex_pair_inject:
  assumes "hex_digit (m div 16) = hex_digit (n div 16)" and "hex_digit m = hex_digit n"
    and "m < 256" and "n < (256 :: nat)"
  shows "m = n"
proof -
  have mod_eq: "hex_digit k = hex_digit (k mod 16)" for k by (simp add: hex_digit_def)
  have "m div 16 = n div 16" using assms hex_digit_inject by auto
  moreover have "m mod 16 = n mod 16"
    using assms(2) hex_digit_inject [of "m mod 16" "n mod 16"] by (simp add: mod_eq [symmetric])
  ultimately show ?thesis by (metis div_mult_mod_eq)
qed

lemma quote_char_prefix:
  assumes "quote_char c @ x = quote_char d @ y"
  shows "c = d \<and> x = y"
proof -
  have "hex_digit (of_char c div 16) = hex_digit (of_char d div 16) \<Longrightarrow>
        hex_digit (of_char c) = hex_digit (of_char d) \<Longrightarrow> c = d"
    using hex_pair_inject [of "of_char c" "of_char d"] by (simp add: of_char_eq_iff)
  then show ?thesis
    using assms by (auto simp: quote_char_def split: if_splits)
qed

lemma quote_char_not_quote: "quote_char c @ x \<noteq> CHR 0x22 # y"
  by (auto simp: quote_char_def)

lemma quote_string_prefix:
  assumes "quote_string a @ r = quote_string b @ s"
  shows "a = b \<and> r = s"
proof -
  have "concat (map quote_char a) @ CHR 0x22 # r = concat (map quote_char b) @ CHR 0x22 # s"
    using assms by (simp add: quote_string_def)
  then show ?thesis
  proof (induction a arbitrary: b)
    case Nil
    then show ?case by (cases b) (auto simp: quote_char_not_quote [symmetric])
  next
    case (Cons c a)
    then show ?case
    proof (cases b)
      case Nil
      then show ?thesis using Cons.prems quote_char_not_quote by simp
    next
      case (Cons d b')
      then have "c = d \<and> concat (map quote_char a) @ CHR 0x22 # r = concat (map quote_char b') @ CHR 0x22 # s"
        using Cons.prems quote_char_prefix by simp
      then show ?thesis using Cons.IH Cons by blast
    qed
  qed
qed

text \<open>A list of parts joined by a comma and closed by a bracket splits in one way only.\<close>

lemma join_with_Cons: "join_with c (x # xs) = x @ (if xs = [] then [] else c # join_with c xs)"
  by (cases xs) auto

lemma join_prefix:
  fixes pr :: "'a \<Rightarrow> string"
  assumes "join_with (CHR '','') (map pr xs) @ close # r = join_with (CHR '','') (map pr ys) @ close # s"
    and close: "close \<noteq> CHR '',''" "\<not> number_char close"
    and elems: "\<And>x y t t'. x \<in> set xs \<Longrightarrow> y \<in> set ys \<Longrightarrow> tail_ok t \<Longrightarrow> tail_ok t' \<Longrightarrow>
      pr x @ t = pr y @ t' \<Longrightarrow> x = y \<and> t = t'"
    and starts: "\<And>x t v. x \<in> set xs \<union> set ys \<Longrightarrow> pr x @ t \<noteq> close # v"
  shows "xs = ys \<and> r = s"
  using assms(1) elems starts
proof (induction xs arbitrary: ys)
  case Nil
  show ?case
  proof (cases ys)
    case Nil': Nil
    then show ?thesis using Nil.prems(1) by simp
  next
    case (Cons y zs)
    then have "pr y @ (if zs = [] then [] else CHR '','' # join_with (CHR '','') (map pr zs)) @ close # s = close # r"
      using Nil.prems(1) by (simp add: join_with_Cons)
    then show ?thesis using Nil.prems(3) [of y] Cons by simp
  qed
next
  case (Cons x xs)
  show ?case
  proof (cases ys)
    case Nil
    then have "pr x @ (if xs = [] then [] else CHR '','' # join_with (CHR '','') (map pr xs)) @ close # r = close # s"
      using Cons.prems(1) by (simp add: join_with_Cons)
    then show ?thesis using Cons.prems(3) [of x] by simp
  next
    case ys: (Cons y zs)
    let ?t = "(if xs = [] then [] else CHR '','' # join_with (CHR '','') (map pr xs)) @ close # r"
    let ?t' = "(if zs = [] then [] else CHR '','' # join_with (CHR '','') (map pr zs)) @ close # s"
    have ok: "tail_ok ?t" "tail_ok ?t'"
      using close(2) by (auto simp: tail_ok_def number_char_def)
    have eq: "pr x @ ?t = pr y @ ?t'" using Cons.prems(1) ys by (simp add: join_with_Cons)
    have mem: "x \<in> set (x # xs)" "y \<in> set ys" using ys by simp_all
    from Cons.prems(2) [OF mem ok eq] have xy: "x = y" and tt: "?t = ?t'" by blast+
    show ?thesis
    proof (cases "xs = []")
      case True
      then show ?thesis using tt xy ys close(1) by (auto split: if_splits)
    next
      case False
      then have "zs \<noteq> []" using tt close(1) by (auto split: if_splits)
      with False tt have rest:
        "join_with (CHR '','') (map pr xs) @ close # r = join_with (CHR '','') (map pr zs) @ close # s"
        by simp
      have "xs = zs \<and> r = s"
      proof (rule Cons.IH [OF rest])
        fix a b t t'
        assume "a \<in> set xs" "b \<in> set zs" "tail_ok t" "tail_ok t'" "pr a @ t = pr b @ t'"
        then show "a = b \<and> t = t'" using Cons.prems(2) [of a b t t'] ys by simp
      next
        fix a t v
        assume "a \<in> set xs \<union> set zs"
        then show "pr a @ t \<noteq> close # v" using Cons.prems(3) [of a] ys by simp
      qed
      then show ?thesis using xy ys by simp
    qed
  qed
qed

definition entry_text :: "string \<times> json \<Rightarrow> string" where
  "entry_text kv = quote_string (fst kv) @ CHR '':'' # json_text (snd kv)"

lemma json_text_object:
  "json_text (JObj kvs) = CHR ''{'' # join_with (CHR '','') (map entry_text kvs) @ ''}''"
  by (simp add: comp_def split_beta flip: entry_text_def)

text \<open>The first character of a value's text tells its kind.\<close>

definition starts_as :: "json \<Rightarrow> char \<Rightarrow> bool" where
  "starts_as v c = (case v of JNull \<Rightarrow> c = CHR ''n'' | JBool b \<Rightarrow> c = (if b then CHR ''t'' else CHR ''f'')
      | JNum _ \<Rightarrow> number_char c | JStr _ \<Rightarrow> c = CHR 0x22 | JArr _ \<Rightarrow> c = CHR ''['' | JObj _ \<Rightarrow> c = CHR ''{'')"

lemma json_text_start:
  assumes "json_ok v"
  obtains c t where "json_text v = c # t" and "starts_as v c"
proof (cases v)
  case (JNum n)
  then show ?thesis using assms that by (cases n) (auto simp: number_text_def starts_as_def)
next
  case (JBool b)
  then show ?thesis using that by (cases b) (auto simp: starts_as_def)
qed (use that in \<open>auto simp: starts_as_def quote_string_def split: if_splits\<close>)

lemma starts_as_not_close: "starts_as v c \<Longrightarrow> c \<noteq> CHR '']'' \<and> c \<noteq> CHR ''}''"
  by (auto simp: starts_as_def number_char_def split: json.splits if_splits)

lemma json_text_not_close:
  assumes "json_ok v" and "c = CHR '']'' \<or> c = CHR ''}''"
  shows "json_text v @ t \<noteq> c # u"
proof -
  obtain d w where "json_text v = d # w" "starts_as v d" by (rule json_text_start [OF assms(1)])
  then show ?thesis using assms(2) starts_as_not_close [of v d] by auto
qed

lemma starts_as_kind:
  assumes "starts_as v c" and "starts_as w c"
  shows "case v of JNull \<Rightarrow> w = JNull | JBool b \<Rightarrow> w = JBool b | JNum _ \<Rightarrow> (\<exists>n. w = JNum n)
    | JStr _ \<Rightarrow> (\<exists>n. w = JStr n) | JArr _ \<Rightarrow> (\<exists>n. w = JArr n) | JObj _ \<Rightarrow> (\<exists>n. w = JObj n)"
  using assms
  by (cases v; cases w) (simp_all add: starts_as_def number_char_def split: if_splits)

lemma json_kind:
  assumes "json_ok v" and "json_ok w" and "json_text v @ r = json_text w @ s"
  shows "case v of JNull \<Rightarrow> w = JNull | JBool b \<Rightarrow> w = JBool b | JNum _ \<Rightarrow> (\<exists>n. w = JNum n)
    | JStr _ \<Rightarrow> (\<exists>n. w = JStr n) | JArr _ \<Rightarrow> (\<exists>n. w = JArr n) | JObj _ \<Rightarrow> (\<exists>n. w = JObj n)"
proof -
  obtain c t where v: "json_text v = c # t" "starts_as v c" by (rule json_text_start [OF assms(1)])
  obtain d u where w: "json_text w = d # u" "starts_as w d" by (rule json_text_start [OF assms(2)])
  from v(1) w(1) assms(3) have "c = d" by simp
  then show ?thesis using starts_as_kind v(2) w(2) by blast
qed

lemma json_prefix:
  assumes "json_ok v" and "json_ok w" and "tail_ok r" and "tail_ok s"
    and "json_text v @ r = json_text w @ s"
  shows "v = w \<and> r = s"
  using assms
proof (induction v arbitrary: w r s)
  case JNull
  then show ?case using json_kind [OF JNull.prems(1,2,5)] by auto
next
  case (JBool b)
  then show ?case using json_kind [OF JBool.prems(1,2,5)] by auto
next
  case (JNum n)
  then obtain m where "w = JNum m" using json_kind [OF JNum.prems(1,2,5)] by auto
  then show ?case using JNum.prems number_prefix [of n m r s] by (auto simp: number_text_def)
next
  case (JStr a)
  then obtain b where "w = JStr b" using json_kind [OF JStr.prems(1,2,5)] by auto
  then show ?case using JStr.prems quote_string_prefix [of a r b s] by auto
next
  case (JArr xs)
  then obtain ys where w: "w = JArr ys" using json_kind [OF JArr.prems(1,2,5)] by auto
  have ok: "x \<in> set xs \<union> set ys \<Longrightarrow> json_ok x" for x
    using JArr.prems(1,2) w by (auto simp: list_all_iff)
  have "join_with (CHR '','') (map json_text xs) @ CHR '']'' # r =
        join_with (CHR '','') (map json_text ys) @ CHR '']'' # s"
    using JArr.prems(5) w by simp
  then have "xs = ys \<and> r = s"
  proof (rule join_prefix)
    fix x y t t'
    assume "x \<in> set xs" "y \<in> set ys" "tail_ok t" "tail_ok t'" "json_text x @ t = json_text y @ t'"
    then show "x = y \<and> t = t'" using JArr.IH [of x y t t'] ok by blast
  next
    fix x t v
    assume "x \<in> set xs \<union> set ys"
    then show "json_text x @ t \<noteq> CHR '']'' # v" using json_text_not_close ok by blast
  qed (simp_all add: number_char_def)
  then show ?case using w by simp
next
  case (JObj xs)
  then obtain ys where w: "w = JObj ys" using json_kind [OF JObj.prems(1,2,5)] by auto
  have ok: "x \<in> set xs \<union> set ys \<Longrightarrow> json_ok (snd x)" for x
    using JObj.prems(1,2) w by (auto simp: list_all_iff)
  have "join_with (CHR '','') (map entry_text xs) @ CHR ''}'' # r =
        join_with (CHR '','') (map entry_text ys) @ CHR ''}'' # s"
    using JObj.prems(5) w by (simp add: json_text_object del: json_text.simps)
  then have "xs = ys \<and> r = s"
  proof (rule join_prefix)
    fix x y t t'
    assume xy: "x \<in> set xs" "y \<in> set ys" and t: "tail_ok t" "tail_ok t'"
      and eq: "entry_text x @ t = entry_text y @ t'"
    from eq have "fst x = fst y \<and> json_text (snd x) @ t = json_text (snd y) @ t'"
      using quote_string_prefix [of "fst x" _ "fst y"] by (simp add: entry_text_def) blast
    moreover from this have "snd x = snd y \<and> t = t'"
      using JObj.IH [of x "snd x" "snd y" t t'] xy ok [of x] ok [of y] t by (simp add: snds.simps)
    ultimately show "x = y \<and> t = t'" by (simp add: prod_eq_iff)
  qed (auto simp: number_char_def entry_text_def quote_string_def)
  then show ?case using w by simp
qed

lemma json_text_inject:
  assumes "json_ok v" and "json_ok w" and "json_text v = json_text w"
  shows "v = w"
  using json_prefix [of v w "[]" "[]"] assms by (simp add: tail_ok_def)

end
