(* ===== verification/Time.thy ===== *)
theory Time
  imports Prelude
begin

text \<open>
  \<open>shared/primitives/time.ts\<close>: the IST calendar. An instant is its epoch milliseconds; a stored
  timestamp text is modelled by what \<open>Date.parse\<close> reads from it (\<open>None\<close> for \<open>NaN\<close>). The calendar is
  the proleptic Gregorian one of the ECMAScript specification (\<open>DayFromYear\<close>, \<open>YearFromTime\<close>). An ISO
  date text \<open>YYYY-MM-DD\<close> is its three numbers, ordered as the texts are (years 0 to 9999, where text
  order and date order agree).
\<close>

section \<open>Decimal text\<close>

definition digit_char :: "nat \<Rightarrow> char" where
  "digit_char n = ''0123456789'' ! (n mod 10)"

fun dec_text :: "nat \<Rightarrow> string" where
  "dec_text n = (if n < 10 then [digit_char n] else dec_text (n div 10) @ [digit_char n])"

declare dec_text.simps [simp del]

definition int_text :: "int \<Rightarrow> string" where
  "int_text i = (if i < 0 then CHR ''-'' # dec_text (nat (- i)) else dec_text (nat i))"

fun pad_text :: "nat \<Rightarrow> nat \<Rightarrow> string" where
  "pad_text 0 n = []"
| "pad_text (Suc k) n = pad_text k (n div 10) @ [digit_char n]"

lemma digit_char_inject: "digit_char m = digit_char n \<Longrightarrow> m mod 10 = n mod 10"
proof -
  assume "digit_char m = digit_char n"
  moreover have "distinct ''0123456789''" by simp
  ultimately show ?thesis
    using nth_eq_iff_index_eq [of "''0123456789''" "m mod 10" "n mod 10"]
    by (simp add: digit_char_def)
qed

lemma dec_text_not_Nil [simp]: "dec_text n \<noteq> []"
  by (subst dec_text.simps) simp

lemma dec_text_inject: "dec_text m = dec_text n \<Longrightarrow> m = n"
proof (induction m arbitrary: n rule: dec_text.induct)
  case (1 m)
  show ?case
  proof (cases "m < 10")
    case True
    then have m: "dec_text m = [digit_char m]" by (subst dec_text.simps) simp
    have n: "n < 10"
    proof (rule ccontr)
      assume "\<not> n < 10"
      then have "dec_text n = dec_text (n div 10) @ [digit_char n]" by (subst dec_text.simps) simp
      with m "1.prems" show False by (simp add: append_eq_Cons_conv)
    qed
    then have "dec_text n = [digit_char n]" by (subst dec_text.simps) simp
    with m "1.prems" have "m mod 10 = n mod 10" using digit_char_inject [of m n] by simp
    with True n show ?thesis by simp
  next
    case False
    then have m: "dec_text m = dec_text (m div 10) @ [digit_char m]" by (subst dec_text.simps) simp
    have n: "\<not> n < 10"
    proof
      assume "n < 10"
      then have "dec_text n = [digit_char n]" by (subst dec_text.simps) simp
      with m "1.prems" show False using dec_text_not_Nil [of "m div 10"] by (cases "dec_text (m div 10)") simp_all
    qed
    then have "dec_text n = dec_text (n div 10) @ [digit_char n]" by (subst dec_text.simps) simp
    with m "1.prems" have "dec_text (m div 10) = dec_text (n div 10)" and "m mod 10 = n mod 10"
      using digit_char_inject [of m n] by auto
    then have "m div 10 = n div 10" using "1.IH" False by blast
    with \<open>m mod 10 = n mod 10\<close> show ?thesis by (metis div_mult_mod_eq)
  qed
qed

lemma dec_text_digits: "set (dec_text n) \<subseteq> set ''0123456789''"
proof (induction n rule: dec_text.induct)
  case (1 n)
  have "digit_char n \<in> set ''0123456789''"
    unfolding digit_char_def by (rule nth_mem) simp
  with 1 show ?case by (subst dec_text.simps) auto
qed

lemma int_text_inject: "int_text a = int_text b \<Longrightarrow> a = b"
proof -
  assume eq: "int_text a = int_text b"
  have "CHR ''-'' \<notin> set (dec_text n)" for n using dec_text_digits [of n] by auto
  then have no: "dec_text n \<noteq> CHR ''-'' # t" "CHR ''-'' # t \<noteq> dec_text n" for n t
    by (metis list.set_intros(1))+
  from eq have "(a < 0) = (b < 0)" by (simp add: int_text_def no split: if_splits)
  with eq show "a = b"
    by (cases "a < 0") (auto simp: int_text_def dest!: dec_text_inject)
qed

lemma pad_text_length [simp]: "length (pad_text k n) = k"
  by (induction k arbitrary: n) auto

lemma pad_text_inject:
  "pad_text k m = pad_text k n \<Longrightarrow> m < 10 ^ k \<Longrightarrow> n < 10 ^ k \<Longrightarrow> m = n"
proof (induction k arbitrary: m n)
  case 0
  then show ?case by simp
next
  case (Suc k)
  have "m div 10 < 10 ^ k" "n div 10 < 10 ^ k"
    using Suc.prems(2,3) by (simp_all add: less_mult_imp_div_less mult.commute)
  moreover have "pad_text k (m div 10) = pad_text k (n div 10)" using Suc.prems(1) by simp
  ultimately have "m div 10 = n div 10" using Suc.IH by blast
  moreover have "m mod 10 = n mod 10" using Suc.prems(1) digit_char_inject [of m n] by simp
  ultimately show ?case by (metis div_mult_mod_eq)
qed

section \<open>The Gregorian calendar\<close>

definition ms_per_day :: int where
  "ms_per_day = 86400000"

definition leap_year :: "int \<Rightarrow> bool" where
  "leap_year y = (y mod 4 = 0 \<and> (y mod 100 \<noteq> 0 \<or> y mod 400 = 0))"

definition day_from_year :: "int \<Rightarrow> int" where
  "day_from_year y = 365 * (y - 1970) + (y - 1969) div 4 - (y - 1901) div 100 + (y - 1601) div 400"

definition year_length :: "int \<Rightarrow> int" where
  "year_length y = (if leap_year y then 366 else 365)"

lemma div_succ:
  assumes "1 < (k :: int)"
  shows "(a + 1) div k = a div k + (if (a + 1) mod k = 0 then 1 else 0)"
proof -
  have "(a + 1) div k = a div k + (a mod k + 1) div k"
    using assms div_add1_eq [of a 1 k] by simp
  moreover have m: "(a + 1) mod k = (a mod k + 1) mod k" by (simp add: mod_simps)
  moreover have "(a mod k + 1) div k = (if (a mod k + 1) mod k = 0 then 1 else 0)"
  proof (cases "a mod k + 1 = k")
    case True
    with assms show ?thesis by simp
  next
    case False
    then have "a mod k + 1 < k" and "0 \<le> a mod k"
      using assms pos_mod_bound [of k a] pos_mod_sign [of k a] by linarith+
    then have "(a mod k + 1) div k = 0" and "(a mod k + 1) mod k = a mod k + 1" by simp_all
    with \<open>0 \<le> a mod k\<close> show ?thesis by simp
  qed
  ultimately show ?thesis by simp
qed

lemma day_from_year_Suc: "day_from_year (y + 1) = day_from_year y + year_length y"
proof -
  have 4: "(y + 1 - 1969) div 4 = (y - 1969) div 4 + (if y mod 4 = 0 then 1 else 0)"
    using div_succ [of 4 "y - 1969"] mod_mult_self1 [of y "-492" 4] by (simp add: algebra_simps)
  have 100: "(y + 1 - 1901) div 100 = (y - 1901) div 100 + (if y mod 100 = 0 then 1 else 0)"
    using div_succ [of 100 "y - 1901"] mod_mult_self1 [of y "-19" 100] by (simp add: algebra_simps)
  have 400: "(y + 1 - 1601) div 400 = (y - 1601) div 400 + (if y mod 400 = 0 then 1 else 0)"
    using div_succ [of 400 "y - 1601"] mod_mult_self1 [of y "-4" 400] by (simp add: algebra_simps)
  have "y mod 400 = 0 \<longrightarrow> y mod 100 = 0" "y mod 100 = 0 \<longrightarrow> y mod 4 = 0"
    using mod_mod_cancel [of 100 400 y] mod_mod_cancel [of 4 100 y] by auto
  then have leap: "(if y mod 4 = 0 then 1 else 0) - (if y mod 100 = 0 then 1 else 0) +
      (if y mod 400 = 0 then 1 else 0) = year_length y - 365"
    unfolding year_length_def leap_year_def
    by (cases "y mod 4 = 0"; cases "y mod 100 = 0"; cases "y mod 400 = 0") simp_all
  have shift: "a - b + c = l - 365 \<Longrightarrow>
    365 * (y + 1 - 1970) + (p + a) - (q + b) + (r + c) = 365 * (y - 1970) + p - q + r + l" for a b c l p q r :: int
    by (simp add: algebra_simps)
  show ?thesis
    unfolding day_from_year_def 4 100 400 by (rule shift [OF leap])
qed

lemma year_length_bounds: "365 \<le> year_length y" "year_length y \<le> 366"
  by (simp_all add: year_length_def)

lemma day_from_year_pred: "day_from_year (y - 1) = day_from_year y - year_length (y - 1)"
  using day_from_year_Suc [of "y - 1"] by simp

text \<open>The greatest year whose first day is not after the day, reached from any starting year.\<close>

function year_search :: "int \<Rightarrow> int \<Rightarrow> int" where
  "year_search y n =
     (if n < day_from_year y then year_search (y - 1) n
      else if day_from_year (y + 1) \<le> n then year_search (y + 1) n
      else y)"
  by pat_completeness auto
termination
proof (relation "measure (\<lambda>(y, n). if day_from_year y \<le> n \<and> n < day_from_year (y + 1) then 0
    else Suc (nat \<bar>day_from_year y - n\<bar>))")
  fix y n
  assume "n < day_from_year y"
  then show "((y - 1, n), (y, n)) \<in> measure (\<lambda>(y, n).
    if day_from_year y \<le> n \<and> n < day_from_year (y + 1) then 0 else Suc (nat \<bar>day_from_year y - n\<bar>))"
    using day_from_year_pred [of y] year_length_bounds [of "y - 1"] by auto
next
  fix y n
  assume "\<not> n < day_from_year y" "day_from_year (y + 1) \<le> n"
  then show "((y + 1, n), (y, n)) \<in> measure (\<lambda>(y, n).
    if day_from_year y \<le> n \<and> n < day_from_year (y + 1) then 0 else Suc (nat \<bar>day_from_year y - n\<bar>))"
    using day_from_year_Suc [of y] year_length_bounds [of y] by auto
qed simp

declare year_search.simps [simp del]

lemma year_search_bounds:
  "day_from_year (year_search y n) \<le> n \<and> n < day_from_year (year_search y n + 1)"
proof (induction y n rule: year_search.induct)
  case (1 y n)
  then show ?case by (subst (1 2) year_search.simps) (auto simp: not_less)
qed

definition year_from_day :: "int \<Rightarrow> int" where
  "year_from_day n = year_search (1970 + n div 365) n"

lemma day_from_year_mono_step: "day_from_year y + 365 * int k \<le> day_from_year (y + int k)"
proof (induction k)
  case 0
  then show ?case by simp
next
  case (Suc k)
  have "day_from_year (y + int k + 1) = day_from_year (y + int k) + year_length (y + int k)"
    by (rule day_from_year_Suc)
  with Suc year_length_bounds(1) [of "y + int k"] show ?case by (simp add: algebra_simps)
qed

lemma day_from_year_less: "y < z \<Longrightarrow> day_from_year (y + 1) \<le> day_from_year z"
  using day_from_year_mono_step [of "y + 1" "nat (z - (y + 1))"] by simp

lemma year_from_day_unique:
  assumes "day_from_year y \<le> n" and "n < day_from_year (y + 1)"
  shows "year_from_day n = y"
proof -
  let ?y = "year_from_day n"
  have b: "day_from_year ?y \<le> n" "n < day_from_year (?y + 1)"
    using year_search_bounds unfolding year_from_day_def by auto
  show ?thesis
  proof (rule linorder_cases [of ?y y])
    assume "?y < y"
    then show ?thesis using day_from_year_less [of ?y y] assms(1) b(2) by linarith
  next
    assume "y < ?y"
    then show ?thesis using day_from_year_less [of y ?y] assms(2) b(1) by linarith
  qed
qed

text \<open>Days of the year before a month (1 to 12), and the month of a day of the year.\<close>

definition month_start :: "bool \<Rightarrow> int \<Rightarrow> int" where
  "month_start leap m =
     (if m \<le> 1 then 0 else if m = 2 then 31
      else (if leap then 1 else 0) +
        (if m = 3 then 59 else if m = 4 then 90 else if m = 5 then 120 else if m = 6 then 151
         else if m = 7 then 181 else if m = 8 then 212 else if m = 9 then 243
         else if m = 10 then 273 else if m = 11 then 304 else if m = 12 then 334 else 365))"

definition month_from_day :: "bool \<Rightarrow> int \<Rightarrow> int" where
  "month_from_day leap d =
     (if d < month_start leap 2 then 1 else if d < month_start leap 3 then 2
      else if d < month_start leap 4 then 3 else if d < month_start leap 5 then 4
      else if d < month_start leap 6 then 5 else if d < month_start leap 7 then 6
      else if d < month_start leap 8 then 7 else if d < month_start leap 9 then 8
      else if d < month_start leap 10 then 9 else if d < month_start leap 11 then 10
      else if d < month_start leap 12 then 11 else 12)"

lemma month_from_day_bounds:
  assumes "0 \<le> d" and "d < (if leap then 366 else 365)"
  shows "1 \<le> month_from_day leap d \<and> month_from_day leap d \<le> 12 \<and>
    month_start leap (month_from_day leap d) \<le> d \<and> d < month_start leap (month_from_day leap d + 1)"
  using assms by (simp add: month_from_day_def month_start_def split: if_splits)

lemma month_from_day_unique:
  assumes "1 \<le> m" and "m \<le> 12" and "month_start leap m \<le> d" and "d < month_start leap (m + 1)"
  shows "month_from_day leap d = m"
proof -
  have "m = 1 \<or> m = 2 \<or> m = 3 \<or> m = 4 \<or> m = 5 \<or> m = 6 \<or> m = 7 \<or> m = 8 \<or> m = 9 \<or> m = 10 \<or> m = 11 \<or> m = 12"
    using assms(1,2) by presburger
  then show ?thesis
    using assms(3,4) by (elim disjE; cases leap) (simp_all add: month_from_day_def month_start_def)
qed

section \<open>ISO dates\<close>

datatype iso_date = IsoDate (iso_year: int) (iso_month: int) (iso_day: int)

instantiation iso_date :: linorder
begin

definition less_eq_iso_date :: "iso_date \<Rightarrow> iso_date \<Rightarrow> bool" where
  "less_eq_iso_date a b = (iso_year a < iso_year b \<or> iso_year a = iso_year b \<and>
     (iso_month a < iso_month b \<or> iso_month a = iso_month b \<and> iso_day a \<le> iso_day b))"

definition less_iso_date :: "iso_date \<Rightarrow> iso_date \<Rightarrow> bool" where
  "less_iso_date a b = (a \<le> b \<and> \<not> b \<le> (a :: iso_date))"

instance
proof
  fix a b c :: iso_date
  show "(a < b) = (a \<le> b \<and> \<not> b \<le> a)" by (simp add: less_iso_date_def)
  show "a \<le> a" by (simp add: less_eq_iso_date_def)
  show "a \<le> b \<Longrightarrow> b \<le> c \<Longrightarrow> a \<le> c" by (auto simp: less_eq_iso_date_def)
  show "a \<le> b \<Longrightarrow> b \<le> a \<Longrightarrow> a = b" by (cases a; cases b) (auto simp: less_eq_iso_date_def)
  show "a \<le> b \<or> b \<le> a" by (auto simp: less_eq_iso_date_def)
qed

end

definition date_of_day :: "int \<Rightarrow> iso_date" where
  "date_of_day n =
     (let y = year_from_day n; leap = leap_year y; d = n - day_from_year y; m = month_from_day leap d
      in IsoDate y m (d - month_start leap m + 1))"

definition day_of_date :: "iso_date \<Rightarrow> int" where
  "day_of_date a = day_from_year (iso_year a) + month_start (leap_year (iso_year a)) (iso_month a) + iso_day a - 1"

definition valid_date :: "iso_date \<Rightarrow> bool" where
  "valid_date a = (1 \<le> iso_month a \<and> iso_month a \<le> 12 \<and> 1 \<le> iso_day a \<and>
     iso_day a \<le> month_start (leap_year (iso_year a)) (iso_month a + 1) -
       month_start (leap_year (iso_year a)) (iso_month a))"

lemma day_of_date_of_day [simp]: "day_of_date (date_of_day n) = n"
  by (simp add: date_of_day_def day_of_date_def Let_def)

lemma day_in_year:
  "0 \<le> n - day_from_year (year_from_day n) \<and>
   n - day_from_year (year_from_day n) < (if leap_year (year_from_day n) then 366 else 365)"
  using year_search_bounds [of "1970 + n div 365" n] day_from_year_Suc [of "year_from_day n"]
  by (auto simp: year_from_day_def year_length_def)

lemma valid_date_of_day [simp]: "valid_date (date_of_day n)"
  using month_from_day_bounds [OF day_in_year [THEN conjunct1] day_in_year [THEN conjunct2], of n]
  by (simp add: date_of_day_def valid_date_def Let_def)

lemma month_start_step: "month_start leap m \<le> month_start leap (m + 1)"
  by (cases leap) (simp_all add: month_start_def)

lemma month_start_mono: "a \<le> b \<Longrightarrow> month_start leap a \<le> month_start leap b"
proof (induction b rule: int_ge_induct)
  case base
  show ?case by simp
next
  case (step b)
  then show ?case using month_start_step [of leap b] by linarith
qed

lemma month_start_13: "month_start leap 13 = (if leap then 366 else 365)"
  by (simp add: month_start_def)

lemma month_start_nonneg: "0 \<le> month_start leap m"
  by (simp add: month_start_def)

lemma valid_date_in_year:
  assumes "valid_date a"
  shows "day_from_year (iso_year a) \<le> day_of_date a \<and> day_of_date a < day_from_year (iso_year a + 1)"
proof -
  let ?l = "leap_year (iso_year a)"
  have "month_start ?l (iso_month a + 1) \<le> month_start ?l 13"
    using assms month_start_mono [of "iso_month a + 1" 13 ?l] by (simp add: valid_date_def)
  then show ?thesis
    using assms day_from_year_Suc [of "iso_year a"] month_start_nonneg [of ?l "iso_month a"]
    by (auto simp: valid_date_def day_of_date_def year_length_def month_start_13 split: if_splits)
qed

lemma date_of_day_of_date [simp]:
  assumes "valid_date a"
  shows "date_of_day (day_of_date a) = a"
proof -
  let ?l = "leap_year (iso_year a)"
  let ?d = "day_of_date a - day_from_year (iso_year a)"
  have y: "year_from_day (day_of_date a) = iso_year a"
    using valid_date_in_year [OF assms] year_from_day_unique by blast
  have "month_from_day ?l ?d = iso_month a"
    by (rule month_from_day_unique) (use assms in \<open>auto simp: valid_date_def day_of_date_def\<close>)
  with y show ?thesis
    by (cases a) (simp add: date_of_day_def Let_def day_of_date_def)
qed

lemma day_of_date_strict:
  assumes "valid_date a" and "valid_date b" and "a < b"
  shows "day_of_date a < day_of_date b"
proof -
  let ?l = "leap_year (iso_year a)"
  consider (year) "iso_year a < iso_year b"
    | (month) "iso_year a = iso_year b" "iso_month a < iso_month b"
    | (day) "iso_year a = iso_year b" "iso_month a = iso_month b" "iso_day a < iso_day b"
    using assms(3) by (auto simp: less_iso_date_def less_eq_iso_date_def)
  then show ?thesis
  proof cases
    case year
    then show ?thesis
      using valid_date_in_year [OF assms(1)] valid_date_in_year [OF assms(2)] day_from_year_less by fastforce
  next
    case month
    have "month_start ?l (iso_month a + 1) \<le> month_start ?l (iso_month b)"
      using month assms by (intro month_start_mono) (auto simp: valid_date_def)
    with month assms show ?thesis by (auto simp: valid_date_def day_of_date_def)
  next
    case day
    then show ?thesis by (simp add: day_of_date_def)
  qed
qed

lemma day_of_date_le_iff:
  assumes "valid_date a" and "valid_date b"
  shows "(day_of_date a \<le> day_of_date b) = (a \<le> b)"
  using day_of_date_strict [OF assms] day_of_date_strict [OF assms(2,1)]
  by (metis linorder_neqE not_less order_le_less)

lemma date_of_day_le_iff [simp]: "(date_of_day m \<le> date_of_day n) = (m \<le> n)"
  using day_of_date_le_iff [of "date_of_day m" "date_of_day n"] by simp

section \<open>The functions of time.ts\<close>

definition ist_offset_ms :: int where
  "ist_offset_ms = 19800000"

definition istDateOf :: "millis option \<Rightarrow> iso_date result" where
  "istDateOf instant =
     (case instant of None \<Rightarrow> Inl (Thrown ''RangeError'')
      | Some ms \<Rightarrow> Inr (date_of_day ((ms + ist_offset_ms) div ms_per_day)))"

definition istMidnightOf :: "iso_date \<Rightarrow> millis" where
  "istMidnightOf date = day_of_date date * ms_per_day - ist_offset_ms"

definition istMinuteOfDay :: "millis option \<Rightarrow> int result" where
  "istMinuteOfDay instant =
     (case instant of None \<Rightarrow> Inl (Thrown ''RangeError'')
      | Some ms \<Rightarrow>
         (let t = (ms + ist_offset_ms) mod ms_per_day
          in Inr (t div 3600000 * 60 + t div 60000 mod 60)))"

definition istWeekdayOf :: "iso_date \<Rightarrow> int" where
  "istWeekdayOf date = (let day = (day_of_date date + 4) mod 7 in if day = 0 then 7 else day)"

definition addIsoDays :: "iso_date \<Rightarrow> int \<Rightarrow> iso_date" where
  "addIsoDays date days = date_of_day (day_of_date date + days)"

text \<open>Both arguments are whole days apart, so \<open>Math.round\<close> of the quotient is the quotient.\<close>

definition istDaysBetween :: "iso_date \<Rightarrow> iso_date \<Rightarrow> int" where
  "istDaysBetween a b = (day_of_date b * ms_per_day - day_of_date a * ms_per_day) div ms_per_day"

definition year_text :: "int \<Rightarrow> string" where
  "year_text y = (if 0 \<le> y \<and> y \<le> 9999 then pad_text 4 (nat y)
     else (if y < 0 then CHR ''-'' else CHR ''+'') # pad_text 6 (nat \<bar>y\<bar>))"

definition iso_date_text :: "iso_date \<Rightarrow> string" where
  "iso_date_text a = year_text (iso_year a) @ CHR ''-'' # pad_text 2 (nat (iso_month a)) @
     CHR ''-'' # pad_text 2 (nat (iso_day a))"

text \<open>\<open>Date.prototype.toISOString\<close>.\<close>

definition iso_string :: "millis \<Rightarrow> string" where
  "iso_string ms =
     (let t = ms mod ms_per_day
      in iso_date_text (date_of_day (ms div ms_per_day)) @ CHR ''T'' # pad_text 2 (nat (t div 3600000)) @
         CHR '':'' # pad_text 2 (nat (t div 60000 mod 60)) @ CHR '':'' # pad_text 2 (nat (t div 1000 mod 60)) @
         CHR ''.'' # pad_text 3 (nat (t mod 1000)) @ ''Z'')"

definition canonicalInstant :: "millis option \<Rightarrow> string result" where
  "canonicalInstant value = (case value of None \<Rightarrow> Inl (Thrown ''RangeError'') | Some ms \<Rightarrow> Inr (iso_string ms))"

lemma istDaysBetween_days [simp]: "istDaysBetween a b = day_of_date b - day_of_date a"
proof -
  have "day_of_date b * ms_per_day - day_of_date a * ms_per_day = (day_of_date b - day_of_date a) * ms_per_day"
    by (rule left_diff_distrib [symmetric])
  moreover have "ms_per_day \<noteq> 0" by (simp add: ms_per_day_def)
  ultimately show ?thesis unfolding istDaysBetween_def by simp
qed

lemma addIsoDays_day [simp]: "day_of_date (addIsoDays a n) = day_of_date a + n"
  by (simp add: addIsoDays_def)

lemma floor_less_iff_mult:
  assumes "0 < (b :: int)"
  shows "(a div b < n) = (a < n * b)"
proof
  assume "a div b < n"
  then have "b * (a div b + 1) \<le> b * n" using assms by (intro mult_left_mono) auto
  moreover have "a < b * (a div b + 1)"
    using assms pos_mod_bound [of b a] mult_div_mod_eq [of b a] unfolding distrib_left by linarith
  ultimately show "a < n * b" by (simp add: mult.commute)
next
  assume "a < n * b"
  show "a div b < n"
  proof (rule ccontr)
    assume "\<not> a div b < n"
    then have "n * b \<le> (a div b) * b" using assms by (intro mult_right_mono) auto
    with \<open>a < n * b\<close> assms pos_mod_sign [of b a] div_mult_mod_eq [of a b] show False by linarith
  qed
qed

lemma istMidnightOf_le_iff: "(t < istMidnightOf (date_of_day n)) = ((t + ist_offset_ms) div ms_per_day < n)"
  using floor_less_iff_mult [of ms_per_day "t + ist_offset_ms" n]
  by (simp add: istMidnightOf_def ms_per_day_def algebra_simps)

text \<open>The IST day arithmetic is exact: a date moved by \<open>n\<close> days is \<open>n\<close> days away, moves compose,
  and every instant lies in the 24 hours that start at the IST midnight of its own IST date.\<close>

theorem ist_day_arithmetic:
  "istDaysBetween date (addIsoDays date n) = n \<and>
   addIsoDays (addIsoDays date m) n = addIsoDays date (m + n) \<and>
   (\<exists>d. istDateOf (Some t) = Inr d \<and> valid_date d \<and>
        istMidnightOf d \<le> t \<and> t < istMidnightOf (addIsoDays d 1))"
proof -
  have "istMidnightOf (date_of_day ((t + ist_offset_ms) div ms_per_day)) \<le> t"
    using istMidnightOf_le_iff [of t "(t + ist_offset_ms) div ms_per_day"] by linarith
  then show ?thesis
    using istMidnightOf_le_iff [of t "(t + ist_offset_ms) div ms_per_day + 1"]
    by (simp add: istDateOf_def addIsoDays_def add.assoc)
qed

end
