(* ===== verification/LedgerEvent.thy ===== *)
theory LedgerEvent
  imports Json Time
begin

text \<open>
  The ledger's event rows and their canonical bytes (\<open>modules/inventory/ledger.service.ts\<close>):
  \<open>canonicalEventBytes\<close>, \<open>eventHashOf\<close>, \<open>legacyEventHashOf\<close>, \<open>canonicalEventOf\<close> and
  \<open>digestOverRange\<close>. SHA-256 (\<open>node:crypto\<close>) is the parameter \<open>sha\<close>. A stored timestamp is what
  \<open>Date.parse\<close> reads from it. The last lemma says that the bytes determine every field of the event
  up to the canonical form of its reference document.
\<close>

section \<open>Event rows\<close>

record canonical_event =
  ev_id :: uuid
  ev_tenant :: uuid
  ev_wh :: uuid
  ev_seq :: int
  ev_type :: string
  ev_version :: int
  ev_sku :: uuid
  ev_delta :: int
  ev_from :: "uuid option"
  ev_to :: "uuid option"
  ev_batch :: "string option"
  ev_serial :: "string option"
  ev_actor :: uuid
  ev_occurred :: "millis option"
  ev_recorded :: "millis option"
  ev_ref :: json
  ev_prev :: string

record ledger_event = canonical_event +
  ev_client :: uuid
  ev_hash :: string

definition canonicalEventOf :: "ledger_event \<Rightarrow> canonical_event" where
  "canonicalEventOf row = canonical_event.truncate row"

definition GENESIS_PREV_HASH :: string where
  "GENESIS_PREV_HASH = replicate 64 (CHR ''0'')"

section \<open>Canonical bytes and hashes\<close>

definition nullable :: "string option \<Rightarrow> json" where
  "nullable v = (case v of None \<Rightarrow> JNull | Some s \<Rightarrow> JStr s)"

definition event_json :: "canonical_event \<Rightarrow> string \<Rightarrow> string \<Rightarrow> json" where
  "event_json e occurred recorded = JObj [
     (''id'', JStr (ev_id e)),
     (''tenantId'', JStr (ev_tenant e)),
     (''warehouseId'', JStr (ev_wh e)),
     (''seq'', JNum (int_text (ev_seq e))),
     (''type'', JStr (ev_type e)),
     (''schemaVersion'', JNum (int_text (ev_version e))),
     (''skuId'', JStr (ev_sku e)),
     (''quantityDelta'', JNum (int_text (ev_delta e))),
     (''fromBinId'', nullable (ev_from e)),
     (''toBinId'', nullable (ev_to e)),
     (''batchRef'', nullable (ev_batch e)),
     (''serialRef'', nullable (ev_serial e)),
     (''actorUserId'', JStr (ev_actor e)),
     (''occurredAt'', JStr occurred),
     (''recordedAt'', JStr recorded),
     (''referenceDoc'', canonical_reference (ev_ref e)),
     (''prevHash'', JStr (ev_prev e))]"

definition canonicalEventBytes :: "canonical_event \<Rightarrow> string result" where
  "canonicalEventBytes e =
     and_then (canonicalInstant (ev_occurred e)) (\<lambda>occurred.
     and_then (canonicalInstant (ev_recorded e)) (\<lambda>recorded.
     Inr (json_text (event_json e occurred recorded))))"

definition eventHashOf :: "(string \<Rightarrow> string) \<Rightarrow> canonical_event \<Rightarrow> string result" where
  "eventHashOf sha e = and_then (canonicalEventBytes e) (\<lambda>bytes. Inr (sha bytes))"

text \<open>Events hashed before quantities were scaled: the hash of a thousandth, or none.\<close>

definition legacyEventHashOf :: "(string \<Rightarrow> string) \<Rightarrow> canonical_event \<Rightarrow> string option result" where
  "legacyEventHashOf sha e =
     (if ev_delta e mod 1000 \<noteq> 0 then Inr None
      else and_then (eventHashOf sha (e\<lparr>ev_delta := ev_delta e div 1000\<rparr>)) (\<lambda>h. Inr (Some h)))"

definition digestOverRange :: "(string \<Rightarrow> string) \<Rightarrow> ledger_event list \<Rightarrow> string" where
  "digestOverRange sha evs =
     sha (join_with (CHR 0x0A) (map (\<lambda>e. int_text (ev_seq e) @ CHR '':'' # ev_hash e) evs))"

lemma canonicalEventOf_simps [simp]:
  "ev_id (canonicalEventOf r) = ev_id r" "ev_tenant (canonicalEventOf r) = ev_tenant r"
  "ev_wh (canonicalEventOf r) = ev_wh r" "ev_seq (canonicalEventOf r) = ev_seq r"
  "ev_type (canonicalEventOf r) = ev_type r" "ev_version (canonicalEventOf r) = ev_version r"
  "ev_sku (canonicalEventOf r) = ev_sku r" "ev_delta (canonicalEventOf r) = ev_delta r"
  "ev_from (canonicalEventOf r) = ev_from r" "ev_to (canonicalEventOf r) = ev_to r"
  "ev_batch (canonicalEventOf r) = ev_batch r" "ev_serial (canonicalEventOf r) = ev_serial r"
  "ev_actor (canonicalEventOf r) = ev_actor r" "ev_occurred (canonicalEventOf r) = ev_occurred r"
  "ev_recorded (canonicalEventOf r) = ev_recorded r" "ev_ref (canonicalEventOf r) = ev_ref r"
  "ev_prev (canonicalEventOf r) = ev_prev r"
  by (simp_all add: canonicalEventOf_def canonical_event.truncate_def)

section \<open>The bytes determine the event\<close>

lemma number_text_int [simp]: "number_text (int_text i)"
proof -
  have digits: "c \<in> set (dec_text n) \<Longrightarrow> number_char c" for c n
    using dec_text_digits [of n] unfolding number_char_def by fastforce
  have "number_char (CHR ''-'')" by (simp add: number_char_def)
  then have "c \<in> set (int_text i) \<Longrightarrow> number_char c" for c
    using digits by (cases "i < 0") (auto simp: int_text_def)
  moreover have "int_text i \<noteq> []" by (simp add: int_text_def)
  ultimately show ?thesis by (simp add: number_text_def list_all_iff)
qed

lemma nullable_inject [simp]: "(nullable a = nullable b) = (a = b)"
  by (auto simp: nullable_def split: option.splits)

lemma json_ok_nullable [simp]: "json_ok (nullable a)"
  by (auto simp: nullable_def split: option.splits)

lemma json_ok_canonical_reference: "json_ok d \<Longrightarrow> json_ok (canonical_reference d)"
proof (induction d)
  case (JArr xs)
  then show ?case by (auto simp: list_all_iff)
next
  case (JObj kvs)
  then show ?case by (fastforce simp: list_all_iff snds.simps)
qed simp_all

definition same_event :: "canonical_event \<Rightarrow> canonical_event \<Rightarrow> bool" where
  "same_event a b =
     (ev_id a = ev_id b \<and> ev_tenant a = ev_tenant b \<and> ev_wh a = ev_wh b \<and> ev_seq a = ev_seq b \<and>
      ev_type a = ev_type b \<and> ev_version a = ev_version b \<and> ev_sku a = ev_sku b \<and>
      ev_delta a = ev_delta b \<and> ev_from a = ev_from b \<and> ev_to a = ev_to b \<and>
      ev_batch a = ev_batch b \<and> ev_serial a = ev_serial b \<and> ev_actor a = ev_actor b \<and>
      canonicalInstant (ev_occurred a) = canonicalInstant (ev_occurred b) \<and>
      canonicalInstant (ev_recorded a) = canonicalInstant (ev_recorded b) \<and>
      canonical_reference (ev_ref a) = canonical_reference (ev_ref b) \<and> ev_prev a = ev_prev b)"

lemma event_json_ok: "json_ok (ev_ref e) \<Longrightarrow> json_ok (event_json e o' r')"
  by (simp add: event_json_def json_ok_canonical_reference)

lemma canonical_bytes_determine:
  assumes "json_ok (ev_ref a)" and "json_ok (ev_ref b)"
    and "canonicalEventBytes a = Inr x" and "canonicalEventBytes b = Inr x"
  shows "same_event a b"
proof -
  obtain oa ra where a: "canonicalInstant (ev_occurred a) = Inr oa" "canonicalInstant (ev_recorded a) = Inr ra"
    "x = json_text (event_json a oa ra)"
    using assms(3) by (auto simp: canonicalEventBytes_def)
  obtain ob rb where b: "canonicalInstant (ev_occurred b) = Inr ob" "canonicalInstant (ev_recorded b) = Inr rb"
    "x = json_text (event_json b ob rb)"
    using assms(4) by (auto simp: canonicalEventBytes_def)
  have "event_json a oa ra = event_json b ob rb"
    using json_text_inject event_json_ok assms(1,2) a(3) b(3) by metis
  then show ?thesis
    using a(1,2) b(1,2) int_text_inject [of "ev_seq a" "ev_seq b"]
      int_text_inject [of "ev_version a" "ev_version b"] int_text_inject [of "ev_delta a" "ev_delta b"]
    by (simp add: event_json_def same_event_def)
qed

end
