(* ===== verification/LedgerRegistry.thy ===== *)
theory LedgerRegistry
  imports Prelude
begin

text \<open>
  \<open>modules/inventory/ledger-registry.ts\<close>: the grammar of ledger events. The registry is filled by the
  module's calls of \<open>registerLedgerEventType\<close> in the order of the source, and a second registration of
  a type throws; \<open>registry_after_load\<close> is what those calls leave.
\<close>

definition LEDGER_GRAMMAR_VERSION :: int where
  "LEDGER_GRAMMAR_VERSION = 1"

record event_type =
  et_type :: string
  et_since :: int
  et_kinds :: "string list"
  et_batch_arm :: bool
  et_serial_arm :: bool

definition register_event_type :: "(string \<times> event_type) list \<Rightarrow> event_type \<Rightarrow> (string \<times> event_type) list result" where
  "register_event_type registry d =
     (if map_of registry (et_type d) \<noteq> None then Inl (Thrown ''already-registered'')
      else Inr (AList.update (et_type d) d registry))"

definition ledger_event_types :: "event_type list" where
  "ledger_event_types = [
     \<lparr>et_type = ''stock.adjusted'', et_since = 1, et_kinds = [''manual-adjustment''], et_batch_arm = True, et_serial_arm = True\<rparr>,
     \<lparr>et_type = ''grn.received'', et_since = 1, et_kinds = [''grn-receipt''], et_batch_arm = True, et_serial_arm = True\<rparr>,
     \<lparr>et_type = ''qc.held'', et_since = 1, et_kinds = [''qc-hold''], et_batch_arm = True, et_serial_arm = False\<rparr>,
     \<lparr>et_type = ''qc.released'', et_since = 1, et_kinds = [''qc-hold''], et_batch_arm = True, et_serial_arm = False\<rparr>,
     \<lparr>et_type = ''putaway.placed'', et_since = 1, et_kinds = [''putaway''], et_batch_arm = True, et_serial_arm = True\<rparr>,
     \<lparr>et_type = ''bin.merged'', et_since = 1, et_kinds = [''bin-merge''], et_batch_arm = True, et_serial_arm = True\<rparr>,
     \<lparr>et_type = ''pick.picked'', et_since = 1, et_kinds = [''pick''], et_batch_arm = True, et_serial_arm = True\<rparr>,
     \<lparr>et_type = ''pick.restocked'', et_since = 1, et_kinds = [''restock''], et_batch_arm = True, et_serial_arm = True\<rparr>,
     \<lparr>et_type = ''pack.packed'', et_since = 1, et_kinds = [''pack''], et_batch_arm = False, et_serial_arm = False\<rparr>,
     \<lparr>et_type = ''dispatch.dispatched'', et_since = 1, et_kinds = [''dispatch''], et_batch_arm = False, et_serial_arm = False\<rparr>,
     \<lparr>et_type = ''excursion.recorded'', et_since = 1, et_kinds = [''excursion''], et_batch_arm = False, et_serial_arm = False\<rparr>,
     \<lparr>et_type = ''transfer.outbound'', et_since = 1, et_kinds = [''transfer''], et_batch_arm = True, et_serial_arm = True\<rparr>,
     \<lparr>et_type = ''transfer.inbound'', et_since = 1, et_kinds = [''transfer''], et_batch_arm = True, et_serial_arm = True\<rparr>,
     \<lparr>et_type = ''return.received'', et_since = 1, et_kinds = [''return-receipt''], et_batch_arm = True, et_serial_arm = True\<rparr>,
     \<lparr>et_type = ''grn.damaged'', et_since = 1, et_kinds = [''grn-receipt''], et_batch_arm = True, et_serial_arm = False\<rparr>,
     \<lparr>et_type = ''qc.failed'', et_since = 1, et_kinds = [''qc-hold''], et_batch_arm = True, et_serial_arm = False\<rparr>,
     \<lparr>et_type = ''stock.moved'', et_since = 1, et_kinds = [''bin-move''], et_batch_arm = True, et_serial_arm = True\<rparr>,
     \<lparr>et_type = ''return.restocked'', et_since = 1, et_kinds = [''return-disposition''], et_batch_arm = True, et_serial_arm = True\<rparr>,
     \<lparr>et_type = ''return.scrapped'', et_since = 1, et_kinds = [''return-disposition''], et_batch_arm = True, et_serial_arm = True\<rparr>,
     \<lparr>et_type = ''return.reversed'', et_since = 1, et_kinds = [''return-reversal''], et_batch_arm = True, et_serial_arm = True\<rparr>,
     \<lparr>et_type = ''rtv.dispatched'', et_since = 1, et_kinds = [''vendor-return''], et_batch_arm = True, et_serial_arm = False\<rparr>,
     \<lparr>et_type = ''rtc.dispatched'', et_since = 1, et_kinds = [''client-return''], et_batch_arm = True, et_serial_arm = True\<rparr>]"

definition registry_after_load :: "(string \<times> event_type) list result" where
  "registry_after_load = foldM register_event_type [] ledger_event_types"

definition getLedgerEventType :: "string \<Rightarrow> event_type option" where
  "getLedgerEventType t = (case registry_after_load of Inl _ \<Rightarrow> None | Inr r \<Rightarrow> map_of r t)"

definition registeredLedgerEventTypes :: "string list" where
  "registeredLedgerEventTypes = (case registry_after_load of Inl _ \<Rightarrow> [] | Inr r \<Rightarrow> map fst r)"

lemma update_nonconv_append: "k \<notin> fst ` set r \<Longrightarrow> AList.update k v r = r @ [(k, v)]"
  by (induction r) auto

lemma foldM_register:
  assumes "distinct (map et_type ds)" and "set (map et_type ds) \<inter> fst ` set r = {}"
  shows "foldM register_event_type r ds = Inr (r @ map (\<lambda>d. (et_type d, d)) ds)"
  using assms
proof (induction ds arbitrary: r)
  case Nil
  then show ?case by simp
next
  case (Cons d ds)
  have "map_of r (et_type d) = None" using Cons.prems(2) by (auto simp: map_of_eq_None_iff)
  moreover have "AList.update (et_type d) d r = r @ [(et_type d, d)]"
    using Cons.prems(2) by (simp add: update_nonconv_append)
  ultimately have "register_event_type r d = Inr (r @ [(et_type d, d)])"
    by (simp add: register_event_type_def)
  then show ?case using Cons by auto
qed

lemma distinct_event_types: "distinct (map et_type ledger_event_types)"
  by (simp add: ledger_event_types_def)

lemma registry_after_load_eq:
  "registry_after_load = Inr (map (\<lambda>d. (et_type d, d)) ledger_event_types)"
  unfolding registry_after_load_def using foldM_register [OF distinct_event_types, of "[]"] by simp

lemma getLedgerEventType_Some:
  "(getLedgerEventType t = Some d) = (d \<in> set ledger_event_types \<and> et_type d = t)"
proof -
  have "getLedgerEventType t = map_of (map (\<lambda>d. (et_type d, d)) ledger_event_types) t"
    by (simp add: getLedgerEventType_def registry_after_load_eq)
  moreover have "distinct (map fst (map (\<lambda>d. (et_type d, d)) ledger_event_types))"
    using distinct_event_types by (simp add: comp_def)
  ultimately show ?thesis by (auto simp: map_of_eq_Some_iff)
qed

end
