(* ===== verification/Ledger.thy ===== *)
theory Ledger
  imports LedgerEvent LedgerRegistry
begin

text \<open>
  \<open>LedgerService.appendMovement\<close> (\<open>modules/inventory/ledger.service.ts\<close>) over the tables it reads and
  writes: \<open>ledger_events\<close>, \<open>stock_on_hand\<close>, \<open>batch_on_hand\<close>, \<open>bin_state_epochs\<close>, \<open>stock_freeze_bins\<close>
  and \<open>skus\<close>. One append runs in the caller's transaction under the warehouse (and serial) advisory
  lock, so it is one function from tables to tables; an \<open>Inl\<close> aborts the transaction and leaves the
  tables as they were. \<open>uuidv7()\<close> is the parameter \<open>newId\<close>, SHA-256 is \<open>sha\<close>.
\<close>

section \<open>Tables\<close>

record stock_row =
  so_tenant :: uuid
  so_wh :: uuid
  so_sku :: uuid
  so_bin :: uuid
  so_qty :: int

record batch_row =
  ba_tenant :: uuid
  ba_wh :: uuid
  ba_sku :: uuid
  ba_bin :: uuid
  ba_batch :: uuid
  ba_qty :: int

record epoch_row =
  ep_tenant :: uuid
  ep_wh :: uuid
  ep_bin :: uuid
  ep_epoch :: int

record freeze_row =
  fr_tenant :: uuid
  fr_bin :: uuid
  fr_code :: string
  fr_take :: uuid
  fr_at :: "millis option"
  fr_device_writes :: int

record sku_row =
  sk_tenant :: uuid
  sk_id :: uuid
  sk_client :: uuid

record ledger_db =
  db_events :: "ledger_event list"
  db_stock :: "stock_row list"
  db_batches :: "batch_row list"
  db_epochs :: "epoch_row list"
  db_freezes :: "freeze_row list"
  db_skus :: "sku_row list"

type_synonym scope_key = "uuid \<times> uuid \<times> uuid \<times> uuid"

text \<open>The keys of the unique indexes.\<close>

definition so_key :: "stock_row \<Rightarrow> scope_key" where
  "so_key r = (so_tenant r, so_wh r, so_sku r, so_bin r)"

definition ba_key :: "batch_row \<Rightarrow> uuid \<times> uuid \<times> uuid \<times> uuid \<times> uuid" where
  "ba_key r = (ba_tenant r, ba_wh r, ba_sku r, ba_bin r, ba_batch r)"

definition ep_key :: "epoch_row \<Rightarrow> uuid \<times> uuid \<times> uuid" where
  "ep_key r = (ep_tenant r, ep_wh r, ep_bin r)"

record movement =
  m_tenant :: uuid
  m_wh :: uuid
  m_type :: string
  m_sku :: uuid
  m_delta :: int
  m_from :: "uuid option"
  m_to :: "uuid option"
  m_batch :: "string option"
  m_serial :: "string option"
  m_actor :: uuid
  m_occurred :: "millis option"
  m_recorded :: "millis option"
  m_ref :: json
  m_device :: bool

record appended =
  ap_id :: uuid
  ap_seq :: int
  ap_hash :: string
  ap_prev :: string
  ap_touched :: "(uuid \<times> int) list"

section \<open>Refusals\<close>

definition bin_frozen :: failure where "bin_frozen = Problem ''bin-frozen'' 409"
definition insufficient_on_hand :: failure where "insufficient_on_hand = Problem ''insufficient-on-hand'' 422"
definition duplicate_serial :: failure where "duplicate_serial = Problem ''duplicate-serial'' 409"
definition serial_elsewhere :: failure where "serial_elsewhere = Problem ''serial-elsewhere'' 409"
definition serial_unknown :: failure where "serial_unknown = Problem ''serial-unknown'' 404"

section \<open>The serial guards\<close>

text \<open>\<open>order by id desc limit 1\<close>; event ids are unique, so the order of the fold is immaterial.\<close>

definition latest_event :: "ledger_event list \<Rightarrow> ledger_event option" where
  "latest_event evs = fold (\<lambda>e best. case best of None \<Rightarrow> Some e
      | Some b \<Rightarrow> if ev_id b < ev_id e then Some e else Some b) evs None"

definition serialLatestEventInTx :: "ledger_db \<Rightarrow> uuid \<Rightarrow> string \<Rightarrow> (uuid option \<times> uuid option) option" where
  "serialLatestEventInTx db tenant serial =
     map_option (\<lambda>e. (ev_from e, ev_to e))
       (latest_event (filter (\<lambda>e. ev_tenant e = tenant \<and> ev_serial e = Some serial) (db_events db)))"

definition assertSerialArmLegal :: "ledger_db \<Rightarrow> movement \<Rightarrow> unit result" where
  "assertSerialArmLegal db m =
     (case m_serial m of None \<Rightarrow> Inr ()
      | Some serial \<Rightarrow>
         (let latest = serialLatestEventInTx db (m_tenant m) serial in
          if m_delta m > 0 \<and> m_from m = None then
            (case latest of Some (_, Some _) \<Rightarrow> Inl duplicate_serial | _ \<Rightarrow> Inr ())
          else if m_delta m > 0 then
            (case latest of None \<Rightarrow> Inl serial_unknown
             | Some (_, to_bin) \<Rightarrow> require (to_bin = m_from m) serial_elsewhere)
          else
            (case latest of None \<Rightarrow> Inl serial_unknown
             | Some (_, Some to_bin) \<Rightarrow> require (Some to_bin = m_from m) serial_elsewhere
             | Some (_, None) \<Rightarrow> Inl serial_elsewhere)))"

section \<open>The freeze probe\<close>

definition movement_arms :: "movement \<Rightarrow> uuid list" where
  "movement_arms m = List.map_filter id [m_from m, m_to m]"

definition assertNotFrozen :: "ledger_db \<Rightarrow> movement \<Rightarrow> ledger_db result" where
  "assertNotFrozen db m =
     (let arms = movement_arms m;
          hit = (\<lambda>r. fr_tenant r = m_tenant m \<and> fr_bin r \<in> set arms)
      in if m_type m = ''qc.held'' then Inr db
         else if arms = [] then Inr db
         else if m_device m then
           Inr (db\<lparr>db_freezes := update_where hit (\<lambda>r. r\<lparr>fr_device_writes := fr_device_writes r + 1\<rparr>) (db_freezes db)\<rparr>)
         else (case find hit (db_freezes db) of None \<Rightarrow> Inr db
              | Some r \<Rightarrow> and_then (canonicalInstant (fr_at r)) (\<lambda>_. Inl bin_frozen)))"

section \<open>The projections\<close>

definition bumpBinEpochInTx :: "ledger_db \<Rightarrow> uuid \<Rightarrow> uuid \<Rightarrow> uuid \<Rightarrow> ledger_db" where
  "bumpBinEpochInTx db tenant wh bin =
     (let hit = (\<lambda>r. ep_key r = (tenant, wh, bin))
      in db\<lparr>db_epochs :=
           (if find hit (db_epochs db) \<noteq> None
            then update_where hit (\<lambda>r. r\<lparr>ep_epoch := ep_epoch r + 1\<rparr>) (db_epochs db)
            else db_epochs db @ [\<lparr>ep_tenant = tenant, ep_wh = wh, ep_bin = bin, ep_epoch = 1\<rparr>])\<rparr>)"

definition readBinStateEpochsInTx :: "ledger_db \<Rightarrow> uuid \<Rightarrow> uuid \<Rightarrow> uuid list \<Rightarrow> (uuid \<times> int) list" where
  "readBinStateEpochsInTx db tenant wh binIds =
     map (\<lambda>r. (ep_bin r, ep_epoch r))
       (filter (\<lambda>r. ep_tenant r = tenant \<and> ep_wh r = wh \<and> ep_bin r \<in> set binIds) (db_epochs db))"

definition stock_at :: "scope_key \<Rightarrow> stock_row list \<Rightarrow> int option" where
  "stock_at k rows = map_option so_qty (find (\<lambda>r. so_key r = k) rows)"

text \<open>\<open>insert \<dots> on conflict do update set quantity = quantity + delta\<close>, the inserted tuple clamped at 0.\<close>

definition upsert_stock :: "scope_key \<Rightarrow> int \<Rightarrow> stock_row list \<Rightarrow> stock_row list" where
  "upsert_stock k delta rows =
     (if stock_at k rows \<noteq> None
      then update_where (\<lambda>r. so_key r = k) (\<lambda>r. r\<lparr>so_qty := so_qty r + delta\<rparr>) rows
      else (case k of (t, w, s, b) \<Rightarrow>
        rows @ [\<lparr>so_tenant = t, so_wh = w, so_sku = s, so_bin = b, so_qty = max delta 0\<rparr>]))"

definition addToOnHand :: "ledger_db \<Rightarrow> uuid \<Rightarrow> uuid \<Rightarrow> uuid \<Rightarrow> uuid \<Rightarrow> int \<Rightarrow> (ledger_db \<times> uuid \<times> int) result" where
  "addToOnHand db tenant wh sku bin delta =
     (let k = (tenant, wh, sku, bin);
          current = quantity_or_0 (stock_at k (db_stock db));
          rows = upsert_stock k delta (db_stock db);
          written = quantity_or_0 (stock_at k rows)
      in if current + delta < 0 then Inl insufficient_on_hand
         else Inr (bumpBinEpochInTx (db\<lparr>db_stock := rows\<rparr>) tenant wh bin, bin, written))"

type_synonym batch_key = "uuid \<times> uuid \<times> uuid \<times> uuid \<times> uuid"

definition batch_at :: "batch_key \<Rightarrow> batch_row list \<Rightarrow> int option" where
  "batch_at k rows = map_option ba_qty (find (\<lambda>r. ba_key r = k) rows)"

definition upsert_batch :: "batch_key \<Rightarrow> int \<Rightarrow> batch_row list \<Rightarrow> batch_row list" where
  "upsert_batch k delta rows =
     (if batch_at k rows \<noteq> None
      then update_where (\<lambda>r. ba_key r = k) (\<lambda>r. r\<lparr>ba_qty := ba_qty r + delta\<rparr>) rows
      else (case k of (t, w, s, b, l) \<Rightarrow>
        rows @ [\<lparr>ba_tenant = t, ba_wh = w, ba_sku = s, ba_bin = b, ba_batch = l, ba_qty = max delta 0\<rparr>]))"

definition addToBatchOnHand :: "ledger_db \<Rightarrow> uuid \<Rightarrow> uuid \<Rightarrow> uuid \<Rightarrow> uuid \<Rightarrow> uuid \<Rightarrow> int \<Rightarrow> ledger_db result" where
  "addToBatchOnHand db tenant wh sku bin batch delta =
     (let k = (tenant, wh, sku, bin, batch);
          current = quantity_or_0 (batch_at k (db_batches db))
      in if current + delta < 0 then Inl insufficient_on_hand
         else Inr (bumpBinEpochInTx (db\<lparr>db_batches := upsert_batch k delta (db_batches db)\<rparr>) tenant wh bin))"

section \<open>Appending a movement\<close>

definition reference_kind :: "json \<Rightarrow> string option" where
  "reference_kind doc = (case json_field ''kind'' doc of Some (JStr k) \<Rightarrow> Some k | _ \<Rightarrow> None)"

definition check_grammar :: "movement \<Rightarrow> unit result" where
  "check_grammar m =
     (case getLedgerEventType (m_type m) of
        None \<Rightarrow> Inl (Thrown ''type-not-registered'')
      | Some d \<Rightarrow>
          and_then (require (\<exists>k \<in> set (et_kinds d). reference_kind (m_ref m) = Some k) (Thrown ''reference-kind'')) (\<lambda>_.
          and_then (require (m_batch m = None \<or> et_batch_arm d) (Thrown ''no-batch-arm'')) (\<lambda>_.
          require (m_serial m = None \<or> et_serial_arm d) (Thrown ''no-serial-arm''))))"

text \<open>The warehouse's events, and the head: \<open>order by seq desc limit 1\<close>.\<close>

definition wh_events :: "ledger_db \<Rightarrow> uuid \<Rightarrow> uuid \<Rightarrow> ledger_event list" where
  "wh_events db tenant wh = filter (\<lambda>e. ev_tenant e = tenant \<and> ev_wh e = wh) (db_events db)"

definition ledger_head :: "ledger_db \<Rightarrow> uuid \<Rightarrow> uuid \<Rightarrow> ledger_event option" where
  "ledger_head db tenant wh = fold (\<lambda>e best. case best of None \<Rightarrow> Some e
      | Some b \<Rightarrow> if ev_seq b < ev_seq e then Some e else Some b) (wh_events db tenant wh) None"

definition movement_event :: "uuid \<Rightarrow> int \<Rightarrow> string \<Rightarrow> movement \<Rightarrow> canonical_event" where
  "movement_event newId seq prev m =
     \<lparr>ev_id = newId, ev_tenant = m_tenant m, ev_wh = m_wh m, ev_seq = seq, ev_type = m_type m,
      ev_version = LEDGER_GRAMMAR_VERSION, ev_sku = m_sku m, ev_delta = m_delta m, ev_from = m_from m,
      ev_to = m_to m, ev_batch = m_batch m, ev_serial = m_serial m, ev_actor = m_actor m,
      ev_occurred = m_occurred m, ev_recorded = m_recorded m, ev_ref = m_ref m, ev_prev = prev\<rparr>"

text \<open>The fold of one event into the projections: the \<open>to\<close> arm, then the \<open>from\<close> arm, then the batch arms.\<close>

definition stock_arm :: "movement \<Rightarrow> uuid option \<Rightarrow> int \<Rightarrow> ledger_db \<times> (uuid \<times> int) list
    \<Rightarrow> (ledger_db \<times> (uuid \<times> int) list) result" where
  "stock_arm m arm delta st =
     (case arm of None \<Rightarrow> Inr st
      | Some bin \<Rightarrow> and_then (addToOnHand (fst st) (m_tenant m) (m_wh m) (m_sku m) bin delta)
          (\<lambda>(db, b, q). Inr (db, snd st @ [(b, q)])))"

definition batch_arm :: "movement \<Rightarrow> uuid option \<Rightarrow> int \<Rightarrow> ledger_db \<Rightarrow> ledger_db result" where
  "batch_arm m arm delta db =
     (case (m_batch m, arm) of
        (Some batch, Some bin) \<Rightarrow> addToBatchOnHand db (m_tenant m) (m_wh m) (m_sku m) bin batch delta
      | _ \<Rightarrow> Inr db)"

definition project_movement :: "movement \<Rightarrow> ledger_db \<Rightarrow> (ledger_db \<times> (uuid \<times> int) list) result" where
  "project_movement m db =
     and_then (stock_arm m (m_to m) \<bar>m_delta m\<bar> (db, [])) (\<lambda>st.
     and_then (stock_arm m (m_from m) (- \<bar>m_delta m\<bar>) st) (\<lambda>st.
     and_then (batch_arm m (m_to m) \<bar>m_delta m\<bar> (fst st)) (\<lambda>db.
     and_then (batch_arm m (m_from m) (- \<bar>m_delta m\<bar>) db) (\<lambda>db.
     Inr (db, snd st)))))"

definition appendMovement :: "(string \<Rightarrow> string) \<Rightarrow> uuid \<Rightarrow> ledger_db \<Rightarrow> movement \<Rightarrow> (ledger_db \<times> appended) result" where
  "appendMovement sha newId db m =
     and_then (check_grammar m) (\<lambda>_.
     and_then (assertNotFrozen db m) (\<lambda>db.
     and_then (assertSerialArmLegal db m) (\<lambda>_.
     (case find (\<lambda>r. sk_tenant r = m_tenant m \<and> sk_id r = m_sku m) (db_skus db) of
        None \<Rightarrow> Inl (Thrown ''unknown-sku'')
      | Some sku \<Rightarrow>
          (let head = ledger_head db (m_tenant m) (m_wh m);
               seq = (case head of None \<Rightarrow> 0 | Some h \<Rightarrow> ev_seq h) + 1;
               prev = (case head of None \<Rightarrow> GENESIS_PREV_HASH | Some h \<Rightarrow> ev_hash h);
               ce = movement_event newId seq prev m
           in and_then (eventHashOf sha ce) (\<lambda>hash.
              and_then (project_movement m
                 (db\<lparr>db_events := db_events db @ [canonical_event.extend ce \<lparr>ev_client = sk_client sku, ev_hash = hash\<rparr>]\<rparr>))
                (\<lambda>(db, touched).
                  Inr (db, \<lparr>ap_id = newId, ap_seq = seq, ap_hash = hash, ap_prev = prev, ap_touched = touched\<rparr>))))))))"

section \<open>The projections keep their laws\<close>

text \<open>What one event posts to the two projections, in the order of the code.\<close>

definition arm_posts :: "(uuid \<Rightarrow> 'k) \<Rightarrow> uuid option \<Rightarrow> uuid option \<Rightarrow> int \<Rightarrow> ('k \<times> int) list" where
  "arm_posts key from_bin to_bin delta =
     (case to_bin of None \<Rightarrow> [] | Some b \<Rightarrow> [(key b, \<bar>delta\<bar>)]) @
     (case from_bin of None \<Rightarrow> [] | Some b \<Rightarrow> [(key b, - \<bar>delta\<bar>)])"

definition stock_posts :: "ledger_event \<Rightarrow> (scope_key \<times> int) list" where
  "stock_posts e = arm_posts (\<lambda>b. (ev_tenant e, ev_wh e, ev_sku e, b)) (ev_from e) (ev_to e) (ev_delta e)"

definition batch_posts :: "ledger_event \<Rightarrow> (batch_key \<times> int) list" where
  "batch_posts e = (case ev_batch e of None \<Rightarrow> []
     | Some l \<Rightarrow> arm_posts (\<lambda>b. (ev_tenant e, ev_wh e, ev_sku e, b, l)) (ev_from e) (ev_to e) (ev_delta e))"

interpretation stock: projection stock_at upsert_stock "\<lambda>q. 0 \<le> q"
proof
  fix k :: scope_key and d rows
  have ex: "stock_at k (update_where (\<lambda>r. so_key r = k) (\<lambda>r. r\<lparr>so_qty := so_qty r + d\<rparr>) rows) =
      map_option (\<lambda>q. q + d) (stock_at k rows)" for rows
    by (induction rows) (auto simp: stock_at_def so_key_def)
  have "find (\<lambda>r. so_key r = k) rows = None \<Longrightarrow>
      find (\<lambda>r. so_key r = k) (rows @ [r]) = (if so_key r = k then Some r else None)" for r
    by (induction rows) (auto split: if_splits)
  then show "stock_at k (upsert_stock k d rows) = Some (quantity_or_0 (stock_at k rows) + d)"
    if "0 \<le> quantity_or_0 (stock_at k rows) + d"
    using that ex [of rows]
    by (cases "stock_at k rows") (auto simp: upsert_stock_def stock_at_def so_key_def split: prod.splits)
next
  fix k' k :: scope_key and d rows
  assume ne: "k' \<noteq> k"
  have "stock_at k' (update_where (\<lambda>r. so_key r = k) (\<lambda>r. r\<lparr>so_qty := so_qty r + d\<rparr>) rows) = stock_at k' rows" for rows
    using ne by (induction rows) (auto simp: stock_at_def so_key_def)
  moreover have "so_key r \<noteq> k' \<Longrightarrow> stock_at k' (rows @ [r]) = stock_at k' rows" for rows r
    by (induction rows) (auto simp: stock_at_def)
  ultimately show "stock_at k' (upsert_stock k d rows) = stock_at k' rows"
    using ne by (auto simp: upsert_stock_def so_key_def split: prod.splits)
qed

interpretation batch: projection batch_at upsert_batch "\<lambda>q. 0 \<le> q"
proof
  fix k :: batch_key and d rows
  have ex: "batch_at k (update_where (\<lambda>r. ba_key r = k) (\<lambda>r. r\<lparr>ba_qty := ba_qty r + d\<rparr>) rows) =
      map_option (\<lambda>q. q + d) (batch_at k rows)" for rows
    by (induction rows) (auto simp: batch_at_def ba_key_def)
  have "find (\<lambda>r. ba_key r = k) rows = None \<Longrightarrow>
      find (\<lambda>r. ba_key r = k) (rows @ [r]) = (if ba_key r = k then Some r else None)" for r
    by (induction rows) (auto split: if_splits)
  then show "batch_at k (upsert_batch k d rows) = Some (quantity_or_0 (batch_at k rows) + d)"
    if "0 \<le> quantity_or_0 (batch_at k rows) + d"
    using that ex [of rows]
    by (cases "batch_at k rows") (auto simp: upsert_batch_def batch_at_def ba_key_def split: prod.splits)
next
  fix k' k :: batch_key and d rows
  assume ne: "k' \<noteq> k"
  have "batch_at k' (update_where (\<lambda>r. ba_key r = k) (\<lambda>r. r\<lparr>ba_qty := ba_qty r + d\<rparr>) rows) = batch_at k' rows" for rows
    using ne by (induction rows) (auto simp: batch_at_def ba_key_def)
  moreover have "ba_key r \<noteq> k' \<Longrightarrow> batch_at k' (rows @ [r]) = batch_at k' rows" for rows r
    by (induction rows) (auto simp: batch_at_def)
  ultimately show "batch_at k' (upsert_batch k d rows) = batch_at k' rows"
    using ne by (auto simp: upsert_batch_def ba_key_def split: prod.splits)
qed

end
