(* ===== verification/LedgerInvariant.thy ===== *)
theory LedgerInvariant
  imports Ledger
begin

text \<open>
  What \<open>appendMovement\<close> promises: the two projections are the fold of the events, no quantity is
  negative, the sequence of a warehouse is dense, its hashes are chained, the custody of a serial
  is one unbroken chain of bins, and the bin epochs move exactly with the bins touched.
\<close>

section \<open>The arms of an append\<close>

lemma bumpBinEpochInTx_frame [simp]:
  "db_events (bumpBinEpochInTx db t w b) = db_events db"
  "db_stock (bumpBinEpochInTx db t w b) = db_stock db"
  "db_batches (bumpBinEpochInTx db t w b) = db_batches db"
  "db_freezes (bumpBinEpochInTx db t w b) = db_freezes db"
  "db_skus (bumpBinEpochInTx db t w b) = db_skus db"
  by (simp_all add: bumpBinEpochInTx_def Let_def)

lemma addToOnHand_Inr:
  assumes "addToOnHand db t w s b d = Inr (db', b', q)"
  shows "guarded_post (\<lambda>q. 0 \<le> q) stock_at upsert_stock () (db_stock db) ((t, w, s, b), d) = Inr (db_stock db')"
    and "db_batches db' = db_batches db" and "db_events db' = db_events db"
    and "db_freezes db' = db_freezes db" and "db_skus db' = db_skus db"
    and "b' = b" and "stock_at (t, w, s, b) (db_stock db') = Some q"
    and "db_epochs db' = db_epochs (bumpBinEpochInTx db t w b)"
proof -
  have "0 \<le> quantity_or_0 (stock_at (t, w, s, b) (db_stock db)) + d"
    using assms by (simp add: addToOnHand_def Let_def split: if_splits)
  then have "stock_at (t, w, s, b) (upsert_stock (t, w, s, b) d (db_stock db)) =
      Some (quantity_or_0 (stock_at (t, w, s, b) (db_stock db)) + d)"
    by (rule stock.lookup_same)
  then show "guarded_post (\<lambda>q. 0 \<le> q) stock_at upsert_stock () (db_stock db) ((t, w, s, b), d) = Inr (db_stock db')"
    and "db_batches db' = db_batches db" and "db_events db' = db_events db"
    and "db_freezes db' = db_freezes db" and "db_skus db' = db_skus db"
    and "b' = b" and "stock_at (t, w, s, b) (db_stock db') = Some q"
    and "db_epochs db' = db_epochs (bumpBinEpochInTx db t w b)"
    using assms by (auto simp: addToOnHand_def guarded_post_def Let_def bumpBinEpochInTx_def split: if_splits)
qed

lemma addToBatchOnHand_Inr:
  assumes "addToBatchOnHand db t w s b l d = Inr db'"
  shows "guarded_post (\<lambda>q. 0 \<le> q) batch_at upsert_batch () (db_batches db) ((t, w, s, b, l), d) = Inr (db_batches db')"
    and "db_stock db' = db_stock db" and "db_events db' = db_events db"
    and "db_freezes db' = db_freezes db" and "db_skus db' = db_skus db"
    and "db_epochs db' = db_epochs (bumpBinEpochInTx db t w b)"
  using assms
  by (auto simp: addToBatchOnHand_def guarded_post_def Let_def bumpBinEpochInTx_def split: if_splits)

lemma stock_arm_Inr:
  assumes "stock_arm m arm d (db, touched) = Inr (db', touched')"
  shows "foldM (guarded_post (\<lambda>q. 0 \<le> q) stock_at upsert_stock ()) (db_stock db)
        (case arm of None \<Rightarrow> [] | Some b \<Rightarrow> [((m_tenant m, m_wh m, m_sku m, b), d)]) = Inr (db_stock db')"
    and "db_batches db' = db_batches db" and "db_events db' = db_events db"
    and "db_freezes db' = db_freezes db" and "db_skus db' = db_skus db"
    and "map fst touched' = map fst touched @ (case arm of None \<Rightarrow> [] | Some b \<Rightarrow> [b])"
    and "db_epochs db' = db_epochs (case arm of None \<Rightarrow> db | Some b \<Rightarrow> bumpBinEpochInTx db (m_tenant m) (m_wh m) b)"
  using assms by (auto simp: stock_arm_def split: option.splits dest: addToOnHand_Inr)

lemma batch_arm_Inr:
  assumes "batch_arm m arm d db = Inr db'"
  shows "foldM (guarded_post (\<lambda>q. 0 \<le> q) batch_at upsert_batch ()) (db_batches db)
        (case (m_batch m, arm) of (Some l, Some b) \<Rightarrow> [((m_tenant m, m_wh m, m_sku m, b, l), d)] | _ \<Rightarrow> [])
      = Inr (db_batches db')"
    and "db_stock db' = db_stock db" and "db_events db' = db_events db"
    and "db_freezes db' = db_freezes db" and "db_skus db' = db_skus db"
    and "db_epochs db' = db_epochs (case (m_batch m, arm) of
          (Some l, Some b) \<Rightarrow> bumpBinEpochInTx db (m_tenant m) (m_wh m) b | _ \<Rightarrow> db)"
  using assms by (auto simp: batch_arm_def split: option.splits dest: addToBatchOnHand_Inr)

text \<open>The postings of a movement, read off the event it records.\<close>

definition movement_row :: "movement \<Rightarrow> uuid \<Rightarrow> int \<Rightarrow> string \<Rightarrow> uuid \<Rightarrow> string \<Rightarrow> ledger_event" where
  "movement_row m newId seq prev client hash =
     canonical_event.extend (movement_event newId seq prev m) \<lparr>ev_client = client, ev_hash = hash\<rparr>"

lemma movement_row_simps [simp]:
  "ev_id (movement_row m i n p c h) = i" "ev_tenant (movement_row m i n p c h) = m_tenant m"
  "ev_wh (movement_row m i n p c h) = m_wh m" "ev_seq (movement_row m i n p c h) = n"
  "ev_type (movement_row m i n p c h) = m_type m" "ev_sku (movement_row m i n p c h) = m_sku m"
  "ev_delta (movement_row m i n p c h) = m_delta m" "ev_from (movement_row m i n p c h) = m_from m"
  "ev_to (movement_row m i n p c h) = m_to m" "ev_batch (movement_row m i n p c h) = m_batch m"
  "ev_serial (movement_row m i n p c h) = m_serial m" "ev_prev (movement_row m i n p c h) = p"
  "ev_hash (movement_row m i n p c h) = h" "ev_client (movement_row m i n p c h) = c"
  "ev_ref (movement_row m i n p c h) = m_ref m"
  by (simp_all add: movement_row_def movement_event_def canonical_event.extend_def)

lemma canonical_movement_row [simp]:
  "canonicalEventOf (movement_row m i n p c h) = movement_event i n p m"
  by (simp add: movement_row_def movement_event_def canonicalEventOf_def canonical_event.extend_def
      canonical_event.truncate_def)

lemma project_movement_Inr:
  assumes "project_movement m db = Inr (db', touched)"
    and row_def: "row = movement_row m newId seq prev client hash"
  shows "foldM (guarded_post (\<lambda>q. 0 \<le> q) stock_at upsert_stock ()) (db_stock db) (stock_posts row) = Inr (db_stock db')"
    and "foldM (guarded_post (\<lambda>q. 0 \<le> q) batch_at upsert_batch ()) (db_batches db) (batch_posts row) = Inr (db_batches db')"
    and "db_events db' = db_events db" and "db_freezes db' = db_freezes db" and "db_skus db' = db_skus db"
    and "map fst touched = (case m_to m of None \<Rightarrow> [] | Some b \<Rightarrow> [b]) @ (case m_from m of None \<Rightarrow> [] | Some b \<Rightarrow> [b])"
proof -
  obtain d1 t1 d2 d3 where steps:
    "stock_arm m (m_to m) \<bar>m_delta m\<bar> (db, []) = Inr (d1, t1)"
    "stock_arm m (m_from m) (- \<bar>m_delta m\<bar>) (d1, t1) = Inr (d2, touched)"
    "batch_arm m (m_to m) \<bar>m_delta m\<bar> d2 = Inr d3"
    "batch_arm m (m_from m) (- \<bar>m_delta m\<bar>) d3 = Inr db'"
    using assms(1) by (auto simp: project_movement_def)
  note s = stock_arm_Inr [OF steps(1)] stock_arm_Inr [OF steps(2)]
    batch_arm_Inr [OF steps(3)] batch_arm_Inr [OF steps(4)]
  show "foldM (guarded_post (\<lambda>q. 0 \<le> q) stock_at upsert_stock ()) (db_stock db) (stock_posts row) = Inr (db_stock db')"
    using s by (auto simp: row_def stock_posts_def arm_posts_def foldM_append)
  show "foldM (guarded_post (\<lambda>q. 0 \<le> q) batch_at upsert_batch ()) (db_batches db) (batch_posts row) = Inr (db_batches db')"
    using s by (auto simp: row_def batch_posts_def arm_posts_def foldM_append split: option.splits)
  show "db_events db' = db_events db" "db_freezes db' = db_freezes db" "db_skus db' = db_skus db"
    using s by auto
  show "map fst touched = (case m_to m of None \<Rightarrow> [] | Some b \<Rightarrow> [b]) @ (case m_from m of None \<Rightarrow> [] | Some b \<Rightarrow> [b])"
    using s by simp
qed

lemma assertNotFrozen_frame:
  assumes "assertNotFrozen db m = Inr db'"
  shows "db_events db' = db_events db" "db_stock db' = db_stock db" "db_batches db' = db_batches db"
    "db_epochs db' = db_epochs db" "db_skus db' = db_skus db"
  using assms by (auto simp: assertNotFrozen_def Let_def split: if_splits option.splits)

section \<open>One append\<close>

lemma serial_guard_cong:
  assumes "db_events d = db_events e"
  shows "assertSerialArmLegal d m = assertSerialArmLegal e m"
proof -
  have "serialLatestEventInTx d t s = serialLatestEventInTx e t s" for t s
    using assms by (simp add: serialLatestEventInTx_def)
  then show ?thesis by (cases "m_serial m") (simp_all add: assertSerialArmLegal_def)
qed

lemma appendMovement_Inr:
  assumes "appendMovement sha newId db m = Inr (db', a)"
  obtains client where
    "db_events db' = db_events db @ [movement_row m newId (ap_seq a) (ap_prev a) client (ap_hash a)]"
    "eventHashOf sha (movement_event newId (ap_seq a) (ap_prev a) m) = Inr (ap_hash a)"
    "ap_id a = newId"
    "ap_seq a = (case ledger_head db (m_tenant m) (m_wh m) of None \<Rightarrow> 0 | Some h \<Rightarrow> ev_seq h) + 1"
    "ap_prev a = (case ledger_head db (m_tenant m) (m_wh m) of None \<Rightarrow> GENESIS_PREV_HASH | Some h \<Rightarrow> ev_hash h)"
    "check_grammar m = Inr ()" "assertSerialArmLegal db m = Inr ()"
    "\<exists>mid. assertNotFrozen db m = Inr mid \<and> db_freezes db' = db_freezes mid"
    "foldM (guarded_post (\<lambda>q. 0 \<le> q) stock_at upsert_stock ()) (db_stock db)
      (stock_posts (movement_row m newId (ap_seq a) (ap_prev a) client (ap_hash a))) = Inr (db_stock db')"
    "foldM (guarded_post (\<lambda>q. 0 \<le> q) batch_at upsert_batch ()) (db_batches db)
      (batch_posts (movement_row m newId (ap_seq a) (ap_prev a) client (ap_hash a))) = Inr (db_batches db')"
    "map fst (ap_touched a) = (case m_to m of None \<Rightarrow> [] | Some b \<Rightarrow> [b]) @ (case m_from m of None \<Rightarrow> [] | Some b \<Rightarrow> [b])"
    "db_skus db' = db_skus db"
    "\<exists>sku \<in> set (db_skus db). sk_tenant sku = m_tenant m \<and> sk_id sku = m_sku m \<and> sk_client sku = client"
proof -
  obtain mid where grammar: "check_grammar m = Inr ()" and mid: "assertNotFrozen db m = Inr mid"
    and serial: "assertSerialArmLegal mid m = Inr ()"
    using assms by (auto simp: appendMovement_def)
  note frame = assertNotFrozen_frame [OF mid]
  have serial': "assertSerialArmLegal db m = Inr ()"
    using serial serial_guard_cong [OF frame(1)] by simp
  obtain sku where sku: "find (\<lambda>r. sk_tenant r = m_tenant m \<and> sk_id r = m_sku m) (db_skus db) = Some sku"
    using assms grammar mid serial frame(5) by (auto simp: appendMovement_def split: option.splits)
  have head: "ledger_head mid t w = ledger_head db t w" for t w
    using frame(1) by (simp add: ledger_head_def wh_events_def)
  define seq where "seq = (case ledger_head db (m_tenant m) (m_wh m) of None \<Rightarrow> 0 | Some h \<Rightarrow> ev_seq h) + 1"
  define prev where "prev = (case ledger_head db (m_tenant m) (m_wh m) of None \<Rightarrow> GENESIS_PREV_HASH | Some h \<Rightarrow> ev_hash h)"
  obtain hash touched where hash: "eventHashOf sha (movement_event newId seq prev m) = Inr hash"
    and proj: "project_movement m (mid\<lparr>db_events := db_events mid @ [movement_row m newId seq prev (sk_client sku) hash]\<rparr>)
        = Inr (db', touched)"
    and a: "a = \<lparr>ap_id = newId, ap_seq = seq, ap_hash = hash, ap_prev = prev, ap_touched = touched\<rparr>"
    using assms grammar mid serial sku frame(5)
    by (auto simp: appendMovement_def head seq_def prev_def movement_row_def Let_def)
  note p = project_movement_Inr [OF proj refl]
  show thesis
  proof (rule that [of "sk_client sku"])
    show "\<exists>mid. assertNotFrozen db m = Inr mid \<and> db_freezes db' = db_freezes mid"
      using mid p(4) by auto
    show "\<exists>s \<in> set (db_skus db). sk_tenant s = m_tenant m \<and> sk_id s = m_sku m \<and> sk_client s = sk_client sku"
      using sku by (auto simp: find_Some_iff)
  qed (use a hash grammar serial' p frame in \<open>simp_all add: seq_def prev_def\<close>)
qed

section \<open>The projections are the fold of the events\<close>

definition projections_agree :: "ledger_db \<Rightarrow> bool" where
  "projections_agree db =
     (projects (\<lambda>q. 0 \<le> q) stock_at (db_stock db) (concat (map stock_posts (db_events db))) \<and>
      projects (\<lambda>q. 0 \<le> q) batch_at (db_batches db) (concat (map batch_posts (db_events db))))"

lemma append_projections:
  assumes "projections_agree db" and "appendMovement sha newId db m = Inr (db', a)"
  shows "projections_agree db'"
proof -
  from assms(2) obtain client where r:
    "db_events db' = db_events db @ [movement_row m newId (ap_seq a) (ap_prev a) client (ap_hash a)]"
    "foldM (guarded_post (\<lambda>q. 0 \<le> q) stock_at upsert_stock ()) (db_stock db)
      (stock_posts (movement_row m newId (ap_seq a) (ap_prev a) client (ap_hash a))) = Inr (db_stock db')"
    "foldM (guarded_post (\<lambda>q. 0 \<le> q) batch_at upsert_batch ()) (db_batches db)
      (batch_posts (movement_row m newId (ap_seq a) (ap_prev a) client (ap_hash a))) = Inr (db_batches db')"
    by (rule appendMovement_Inr)
  show ?thesis
    using assms(1) stock.projects_posts [OF _ r(2)] batch.projects_posts [OF _ r(3)]
    by (simp add: projections_agree_def r(1))
qed

section \<open>The chain of a warehouse\<close>

fun chained :: "string \<Rightarrow> ledger_event list \<Rightarrow> bool" where
  "chained prev [] = True"
| "chained prev (e # es) = (ev_prev e = prev \<and> chained (ev_hash e) es)"

definition last_hash :: "ledger_event list \<Rightarrow> string" where
  "last_hash es = (if es = [] then GENESIS_PREV_HASH else ev_hash (last es))"

definition chain_ok :: "(string \<Rightarrow> string) \<Rightarrow> ledger_event list \<Rightarrow> bool" where
  "chain_ok sha es =
     (map ev_seq es = [1..int (length es)] \<and> chained GENESIS_PREV_HASH es \<and>
      (\<forall>e \<in> set es. eventHashOf sha (canonicalEventOf e) = Inr (ev_hash e)))"

lemma chained_snoc:
  "chained prev (es @ [e]) = (chained prev es \<and> ev_prev e = (if es = [] then prev else ev_hash (last es)))"
  by (induction es arbitrary: prev) auto

lemma upto_snoc: "0 \<le> n \<Longrightarrow> [1..n + 1] = [1..n] @ [n + 1 :: int]"
  by (simp add: upto_rec2)

lemma chain_ok_snoc:
  "chain_ok sha (es @ [e]) =
   (chain_ok sha es \<and> ev_seq e = int (length es) + 1 \<and> ev_prev e = last_hash es \<and>
    eventHashOf sha (canonicalEventOf e) = Inr (ev_hash e))"
proof -
  have "[1..int (length (es @ [e]))] = [1..int (length es)] @ [int (length es) + 1]"
    using upto_snoc [of "int (length es)"] by (simp add: add.commute)
  then show ?thesis by (auto simp: chain_ok_def chained_snoc last_hash_def)
qed

lemma sorted_upto: "sorted_wrt (<) [a..b :: int]"
  by (induction a b rule: upto.induct) (subst upto.simps, auto)

lemma ledger_head_chain:
  assumes "chain_ok sha (wh_events db t w)"
  shows "ledger_head db t w = (if wh_events db t w = [] then None else Some (last (wh_events db t w)))"
proof (cases "wh_events db t w")
  case Nil
  then show ?thesis by (simp add: ledger_head_def)
next
  case (Cons e es)
  have "sorted_wrt (<) (map ev_seq (e # es))"
    using assms sorted_upto by (metis Cons chain_ok_def)
  with Cons fold_best_last [of ev_seq e es] show ?thesis by (simp add: ledger_head_def)
qed

lemma chain_ok_last_seq:
  assumes "chain_ok sha es" and "es \<noteq> []"
  shows "ev_seq (last es) = int (length es)"
proof -
  obtain fs e where "es = fs @ [e]" using assms(2) by (cases es rule: rev_cases) auto
  with assms(1) show ?thesis by (simp add: chain_ok_snoc)
qed

lemma append_chain:
  assumes "chain_ok sha (wh_events db (m_tenant m) (m_wh m))"
    and "appendMovement sha newId db m = Inr (db', a)"
  shows "chain_ok sha (wh_events db' (m_tenant m) (m_wh m))"
proof -
  let ?es = "wh_events db (m_tenant m) (m_wh m)"
  from assms(2) obtain client where r:
    "db_events db' = db_events db @ [movement_row m newId (ap_seq a) (ap_prev a) client (ap_hash a)]"
    "eventHashOf sha (movement_event newId (ap_seq a) (ap_prev a) m) = Inr (ap_hash a)"
    "ap_seq a = (case ledger_head db (m_tenant m) (m_wh m) of None \<Rightarrow> 0 | Some h \<Rightarrow> ev_seq h) + 1"
    "ap_prev a = (case ledger_head db (m_tenant m) (m_wh m) of None \<Rightarrow> GENESIS_PREV_HASH | Some h \<Rightarrow> ev_hash h)"
    by (rule appendMovement_Inr)
  have "wh_events db' (m_tenant m) (m_wh m) =
      ?es @ [movement_row m newId (ap_seq a) (ap_prev a) client (ap_hash a)]"
    by (simp add: wh_events_def r(1))
  moreover have "ap_seq a = int (length ?es) + 1"
    using r(3) ledger_head_chain [OF assms(1)] chain_ok_last_seq [OF assms(1)] by (cases "?es = []") auto
  moreover have "ap_prev a = last_hash ?es"
    using r(4) ledger_head_chain [OF assms(1)] by (cases "?es = []") (auto simp: last_hash_def)
  ultimately show ?thesis using assms(1) r(2) by (simp add: chain_ok_snoc)
qed

lemma append_other_warehouse:
  assumes "appendMovement sha newId db m = Inr (db', a)" and "(t, w) \<noteq> (m_tenant m, m_wh m)"
  shows "wh_events db' t w = wh_events db t w"
proof -
  from assms(1) obtain client where
    "db_events db' = db_events db @ [movement_row m newId (ap_seq a) (ap_prev a) client (ap_hash a)]"
    by (rule appendMovement_Inr)
  then show ?thesis using assms(2) by (auto simp: wh_events_def)
qed

section \<open>Custody of a serial\<close>

definition serial_location :: "ledger_db \<Rightarrow> uuid \<Rightarrow> string \<Rightarrow> uuid option" where
  "serial_location db tenant serial =
     (case serialLatestEventInTx db tenant serial of None \<Rightarrow> None | Some (_, to_bin) \<Rightarrow> to_bin)"

definition serial_events :: "ledger_db \<Rightarrow> uuid \<Rightarrow> string \<Rightarrow> ledger_event list" where
  "serial_events db tenant serial = filter (\<lambda>e. ev_tenant e = tenant \<and> ev_serial e = Some serial) (db_events db)"

fun custody_chain :: "uuid option \<Rightarrow> ledger_event list \<Rightarrow> bool" where
  "custody_chain loc [] = True"
| "custody_chain loc (e # es) = (ev_from e = loc \<and> custody_chain (ev_to e) es)"

definition custody_ok :: "ledger_db \<Rightarrow> bool" where
  "custody_ok db = (sorted_wrt (<) (map ev_id (db_events db)) \<and>
     (\<forall>t s. custody_chain None (serial_events db t s)))"

lemma custody_chain_snoc:
  "custody_chain loc (es @ [e]) =
   (custody_chain loc es \<and> ev_from e = (if es = [] then loc else ev_to (last es)))"
  by (induction es arbitrary: loc) auto

lemma serial_location_last:
  assumes "sorted_wrt (<) (map ev_id (db_events db))"
  shows "serial_location db t s =
    (if serial_events db t s = [] then None else ev_to (last (serial_events db t s)))"
proof (cases "serial_events db t s")
  case Nil
  then show ?thesis
    by (simp add: serial_location_def serialLatestEventInTx_def latest_event_def serial_events_def)
next
  case (Cons e es)
  have "sorted_wrt (<) (map ev_id (serial_events db t s))"
    using assms unfolding serial_events_def by (simp add: sorted_wrt_map sorted_wrt_filter)
  with fold_best_last [of ev_id e es]
  have "latest_event (serial_events db t s) = Some (last (serial_events db t s))"
    by (simp add: Cons latest_event_def)
  then show ?thesis
    by (simp add: serial_location_def serialLatestEventInTx_def Cons flip: serial_events_def)
qed

lemma serial_guard_location:
  assumes "assertSerialArmLegal db m = Inr ()" and "m_serial m = Some s"
  shows "serial_location db (m_tenant m) s = m_from m"
  using assms
  by (auto simp: assertSerialArmLegal_def serial_location_def Let_def split: if_splits option.splits)

lemma append_custody:
  assumes "custody_ok db" and "\<forall>e \<in> set (db_events db). ev_id e < newId"
    and "appendMovement sha newId db m = Inr (db', a)"
  shows "custody_ok db'"
    and "m_serial m = Some s \<Longrightarrow>
      serial_location db (m_tenant m) s = m_from m \<and> serial_location db' (m_tenant m) s = m_to m"
    and "(t, Some s) \<noteq> (m_tenant m, m_serial m) \<Longrightarrow> serial_location db' t s = serial_location db t s"
proof -
  from assms(3) obtain client where r:
    "db_events db' = db_events db @ [movement_row m newId (ap_seq a) (ap_prev a) client (ap_hash a)]"
    "assertSerialArmLegal db m = Inr ()"
    by (rule appendMovement_Inr)
  have sorted: "sorted_wrt (<) (map ev_id (db_events db))" using assms(1) by (simp add: custody_ok_def)
  then have sorted': "sorted_wrt (<) (map ev_id (db_events db'))"
    using assms(2) by (simp add: r(1) sorted_wrt_append)
  have evs: "serial_events db' t s = serial_events db t s @
      (if (t, Some s) = (m_tenant m, m_serial m)
       then [movement_row m newId (ap_seq a) (ap_prev a) client (ap_hash a)] else [])" for t s
    by (auto simp: serial_events_def r(1))
  have loc: "m_serial m = Some s \<Longrightarrow> serial_location db (m_tenant m) s = m_from m" for s
    using serial_guard_location [OF r(2)] .
  have chain: "custody_chain None (serial_events db t s)" for t s using assms(1) by (simp add: custody_ok_def)
  have "custody_chain None (serial_events db' t s)" for t s
  proof (cases "(t, Some s) = (m_tenant m, m_serial m)")
    case True
    then have "m_from m = (if serial_events db t s = [] then None else ev_to (last (serial_events db t s)))"
      using loc [of s] serial_location_last [OF sorted, of t s] by auto
    then show ?thesis using evs [of t s] True chain [of t s] by (simp add: custody_chain_snoc)
  next
    case False
    then show ?thesis using evs [of t s] chain [of t s] by auto
  qed
  then show "custody_ok db'" using sorted' by (simp add: custody_ok_def)
  show "serial_location db (m_tenant m) s = m_from m \<and> serial_location db' (m_tenant m) s = m_to m"
    if "m_serial m = Some s"
    using loc [OF that] evs [of "m_tenant m" s] that serial_location_last [OF sorted', of "m_tenant m" s] by simp
  show "serial_location db' t s = serial_location db t s" if "(t, Some s) \<noteq> (m_tenant m, m_serial m)"
    using serial_location_last [OF sorted', of t s] serial_location_last [OF sorted, of t s] evs [of t s] that
    by auto
qed

section \<open>The bin epochs\<close>

definition epoch_at :: "ledger_db \<Rightarrow> uuid \<times> uuid \<times> uuid \<Rightarrow> int" where
  "epoch_at db k = (case find (\<lambda>r. ep_key r = k) (db_epochs db) of None \<Rightarrow> 0 | Some r \<Rightarrow> ep_epoch r)"

lemma epoch_bump: "epoch_at (bumpBinEpochInTx db t w b) k = epoch_at db k + (if k = (t, w, b) then 1 else 0)"
proof -
  have up: "map_option ep_epoch (find (\<lambda>r. ep_key r = k)
        (update_where (\<lambda>r. ep_key r = q) (\<lambda>r. r\<lparr>ep_epoch := ep_epoch r + 1\<rparr>) rows)) =
      map_option (\<lambda>r. ep_epoch r + (if k = q then 1 else 0)) (find (\<lambda>r. ep_key r = k) rows)" for rows k q
    by (induction rows) (auto simp: ep_key_def)
  have app: "find (\<lambda>r. ep_key r = k) (rows @ [r]) =
      (case find (\<lambda>r. ep_key r = k) rows of None \<Rightarrow> if ep_key r = k then Some r else None | Some x \<Rightarrow> Some x)" for rows r
    by (induction rows) auto
  have at: "epoch_at d k = (case map_option ep_epoch (find (\<lambda>r. ep_key r = k) (db_epochs d)) of None \<Rightarrow> 0 | Some n \<Rightarrow> n)" for d
    by (auto simp: epoch_at_def split: option.splits)
  show ?thesis
  proof (cases "find (\<lambda>r. ep_key r = (t, w, b)) (db_epochs db)")
    case None
    let ?r = "\<lparr>ep_tenant = t, ep_wh = w, ep_bin = b, ep_epoch = 1\<rparr>"
    have "db_epochs (bumpBinEpochInTx db t w b) = db_epochs db @ [?r]"
      using None by (simp add: bumpBinEpochInTx_def)
    moreover have "ep_key ?r = (t, w, b)" by (simp add: ep_key_def)
    ultimately show ?thesis using None app [of "db_epochs db" ?r]
      by (cases "find (\<lambda>r. ep_key r = k) (db_epochs db)") (auto simp: epoch_at_def)
  next
    case (Some r)
    have "db_epochs (bumpBinEpochInTx db t w b) =
        update_where (\<lambda>r. ep_key r = (t, w, b)) (\<lambda>r. r\<lparr>ep_epoch := ep_epoch r + 1\<rparr>) (db_epochs db)"
      using Some by (simp add: bumpBinEpochInTx_def)
    then show ?thesis using Some up [of k "(t, w, b)" "db_epochs db"]
      by (auto simp: at split: option.splits)
  qed
qed

definition arm_count :: "movement \<Rightarrow> uuid \<Rightarrow> int" where
  "arm_count m b = (if m_to m = Some b then 1 else 0) + (if m_from m = Some b then 1 else 0)"

lemma epoch_at_cong: "db_epochs d = db_epochs e \<Longrightarrow> epoch_at d k = epoch_at e k"
  by (simp add: epoch_at_def)

lemma project_epochs:
  assumes "project_movement m db = Inr (db', touched)"
  shows "epoch_at db' (t, w, b) = epoch_at db (t, w, b) +
    (if (t, w) = (m_tenant m, m_wh m) then arm_count m b * (if m_batch m = None then 1 else 2) else 0)"
proof -
  obtain d1 t1 d2 d3 where steps:
    "stock_arm m (m_to m) \<bar>m_delta m\<bar> (db, []) = Inr (d1, t1)"
    "stock_arm m (m_from m) (- \<bar>m_delta m\<bar>) (d1, t1) = Inr (d2, touched)"
    "batch_arm m (m_to m) \<bar>m_delta m\<bar> d2 = Inr d3"
    "batch_arm m (m_from m) (- \<bar>m_delta m\<bar>) d3 = Inr db'"
    using assms by (auto simp: project_movement_def)
  let ?k = "(t, w, b)"
  have s1: "epoch_at d1 ?k = epoch_at db ?k + (if (t, w) = (m_tenant m, m_wh m) \<and> m_to m = Some b then 1 else 0)"
    using epoch_at_cong [OF stock_arm_Inr(7) [OF steps(1)], of ?k] by (cases "m_to m") (auto simp: epoch_bump)
  have s2: "epoch_at d2 ?k = epoch_at d1 ?k + (if (t, w) = (m_tenant m, m_wh m) \<and> m_from m = Some b then 1 else 0)"
    using epoch_at_cong [OF stock_arm_Inr(7) [OF steps(2)], of ?k] by (cases "m_from m") (auto simp: epoch_bump)
  have s3: "epoch_at d3 ?k = epoch_at d2 ?k +
      (if (t, w) = (m_tenant m, m_wh m) \<and> m_batch m \<noteq> None \<and> m_to m = Some b then 1 else 0)"
    using epoch_at_cong [OF batch_arm_Inr(6) [OF steps(3)], of ?k]
    by (cases "m_batch m"; cases "m_to m") (auto simp: epoch_bump)
  have s4: "epoch_at db' ?k = epoch_at d3 ?k +
      (if (t, w) = (m_tenant m, m_wh m) \<and> m_batch m \<noteq> None \<and> m_from m = Some b then 1 else 0)"
    using epoch_at_cong [OF batch_arm_Inr(6) [OF steps(4)], of ?k]
    by (cases "m_batch m"; cases "m_from m") (auto simp: epoch_bump)
  show ?thesis using s1 s2 s3 s4 by (auto simp: arm_count_def)
qed

lemma append_epochs:
  assumes "appendMovement sha newId db m = Inr (db', a)"
  shows "epoch_at db' (t, w, b) = epoch_at db (t, w, b) +
    (if (t, w) = (m_tenant m, m_wh m) then arm_count m b * (if m_batch m = None then 1 else 2) else 0)"
proof -
  obtain mid d touched where mid: "assertNotFrozen db m = Inr mid" and proj: "project_movement m d = Inr (db', touched)"
    and eps: "db_epochs d = db_epochs mid"
    using assms by (fastforce simp: appendMovement_def Let_def split: option.splits)
  have "epoch_at d k = epoch_at db k" for k
    using epoch_at_cong [of d db k] eps assertNotFrozen_frame(4) [OF mid] by simp
  then show ?thesis using project_epochs [OF proj, of t w b] by simp
qed

lemma frozen_arms:
  assumes "assertNotFrozen db m = Inr mid" and "m_type m \<noteq> ''qc.held''" and "\<not> m_device m"
    and "r \<in> set (db_freezes db)" and "fr_tenant r = m_tenant m"
  shows "Some (fr_bin r) \<noteq> m_from m \<and> Some (fr_bin r) \<noteq> m_to m"
proof -
  have hit: "set (movement_arms m) = {b. m_from m = Some b \<or> m_to m = Some b}"
    by (cases "m_from m"; cases "m_to m") (auto simp: movement_arms_def List.map_filter_simps)
  show ?thesis
  proof (cases "movement_arms m = []")
    case True
    then show ?thesis using hit by (cases "m_from m"; cases "m_to m") auto
  next
    case False
    then have "find (\<lambda>r. fr_tenant r = m_tenant m \<and> fr_bin r \<in> set (movement_arms m)) (db_freezes db) = None"
      using assms(1-3) by (auto simp: assertNotFrozen_def Let_def split: option.splits)
    then have "fr_bin r \<notin> set (movement_arms m)" using assms(4,5) by (auto simp: find_None_iff)
    then show ?thesis using hit by (cases "m_from m"; cases "m_to m") auto
  qed
qed

section \<open>When an append succeeds\<close>

lemma addToOnHand_outcome:
  "addToOnHand db t w s b d =
   (if quantity_or_0 (stock_at (t, w, s, b) (db_stock db)) + d < 0 then Inl insufficient_on_hand
    else Inr (bumpBinEpochInTx (db\<lparr>db_stock := upsert_stock (t, w, s, b) d (db_stock db)\<rparr>) t w b, b,
      quantity_or_0 (stock_at (t, w, s, b) (db_stock db)) + d))"
  using stock.lookup_same [where k = "(t, w, s, b)" and d = d and rows = "db_stock db"]
  by (auto simp: addToOnHand_def Let_def)

lemma addToBatchOnHand_outcome:
  "addToBatchOnHand db t w s b l d =
   (if quantity_or_0 (batch_at (t, w, s, b, l) (db_batches db)) + d < 0 then Inl insufficient_on_hand
    else Inr (bumpBinEpochInTx (db\<lparr>db_batches := upsert_batch (t, w, s, b, l) d (db_batches db)\<rparr>) t w b))"
  by (simp add: addToBatchOnHand_def Let_def)

definition enough :: "ledger_db \<Rightarrow> movement \<Rightarrow> bool" where
  "enough db m = (case m_from m of None \<Rightarrow> True
     | Some b \<Rightarrow> \<bar>m_delta m\<bar> \<le> quantity_or_0 (stock_at (m_tenant m, m_wh m, m_sku m, b) (db_stock db)) \<and>
         (case m_batch m of None \<Rightarrow> True
          | Some l \<Rightarrow> \<bar>m_delta m\<bar> \<le> quantity_or_0 (batch_at (m_tenant m, m_wh m, m_sku m, b, l) (db_batches db))))"

lemma enough_cong:
  assumes "db_stock d = db_stock e" and "db_batches d = db_batches e"
  shows "enough d m = enough e m"
  using assms by (cases "m_from m"; cases "m_batch m") (simp_all add: enough_def)

lemma project_movement_outcome:
  assumes nonneg: "\<And>k. 0 \<le> quantity_or_0 (stock_at k (db_stock db))" "\<And>k. 0 \<le> quantity_or_0 (batch_at k (db_batches db))"
    and arms: "m_from m \<noteq> m_to m \<or> m_from m = None"
  shows "if enough db m then \<exists>r. project_movement m db = Inr r
    else project_movement m db = Inl insufficient_on_hand"
proof -
  have to_ok: "\<not> quantity_or_0 (stock_at k (db_stock db)) + \<bar>m_delta m\<bar> < 0"
    "\<not> quantity_or_0 (batch_at k' (db_batches db)) + \<bar>m_delta m\<bar> < 0" for k k'
    using nonneg(1) [of k] nonneg(2) [of k'] by auto
  show ?thesis
  proof (cases "m_to m")
    case None
    then show ?thesis
      by (cases "m_from m"; cases "m_batch m")
        (auto simp: project_movement_def stock_arm_def batch_arm_def enough_def addToOnHand_outcome
          addToBatchOnHand_outcome)
  next
    case (Some b)
    have keep: "b' \<noteq> b \<Longrightarrow> stock_at (t, w, s, b') (upsert_stock (t', w', s', b) d rows) = stock_at (t, w, s, b') rows"
      "b' \<noteq> b \<Longrightarrow> batch_at (t, w, s, b', l) (upsert_batch (t', w', s', b, l') d brows) = batch_at (t, w, s, b', l) brows"
      for b' t w s t' w' s' d rows l l' brows
      by (simp_all add: stock.lookup_other batch.lookup_other)
    show ?thesis using Some arms to_ok
      by (cases "m_from m"; cases "m_batch m")
        (auto simp: project_movement_def stock_arm_def batch_arm_def enough_def addToOnHand_outcome
          addToBatchOnHand_outcome keep)
  qed
qed
end
