(* ===== verification/LedgerProperties.thy ===== *)
theory LedgerProperties
  imports LedgerInvariant
begin

text \<open>
  The properties of the append path, over every history of appends: \<open>ledger_history\<close> starts from empty
  event and projection tables, appends with ascending event ids (\<open>uuidv7\<close>) and lets the other modules
  write the tables the ledger only reads.
\<close>

inductive ledger_history :: "(string \<Rightarrow> string) \<Rightarrow> ledger_db \<Rightarrow> bool" for sha :: "string \<Rightarrow> string" where
  start: "db_events db = [] \<Longrightarrow> db_stock db = [] \<Longrightarrow> db_batches db = [] \<Longrightarrow> ledger_history sha db"
| append: "ledger_history sha db \<Longrightarrow> \<forall>e \<in> set (db_events db). ev_id e < newId \<Longrightarrow>
    appendMovement sha newId db m = Inr (db', a) \<Longrightarrow> ledger_history sha db'"
| others: "ledger_history sha db \<Longrightarrow>
    ledger_history sha (db\<lparr>db_freezes := freezes, db_skus := catalogue, db_epochs := epochs\<rparr>)"

lemma history_projections: "ledger_history sha db \<Longrightarrow> projections_agree db"
proof (induction rule: ledger_history.induct)
  case (start db)
  then show ?case by (simp add: projections_agree_def projects_def stock_at_def batch_at_def)
next
  case (append db newId m db' a)
  then show ?case by (blast intro: append_projections)
next
  case (others db freezes catalogue epochs)
  then show ?case by (simp add: projections_agree_def)
qed

lemma history_chain: "ledger_history sha db \<Longrightarrow> chain_ok sha (wh_events db t w)"
proof (induction rule: ledger_history.induct)
  case (start db)
  then show ?case by (simp add: chain_ok_def wh_events_def)
next
  case (append db newId m db' a)
  then show ?case
    using append_chain [of sha db m newId db' a] append_other_warehouse [OF append.hyps(3), of t w]
    by (cases "(t, w) = (m_tenant m, m_wh m)") auto
next
  case (others db freezes catalogue epochs)
  then show ?case by (simp add: wh_events_def)
qed

lemma history_custody: "ledger_history sha db \<Longrightarrow> custody_ok db"
proof (induction rule: ledger_history.induct)
  case (start db)
  then show ?case by (simp add: custody_ok_def serial_events_def)
next
  case (append db newId m db' a)
  then show ?case by (blast intro: append_custody(1))
next
  case (others db freezes catalogue epochs)
  then show ?case by (simp add: custody_ok_def serial_events_def)
qed

lemma history_nonneg:
  assumes "ledger_history sha db"
  shows "0 \<le> quantity_or_0 (stock_at k (db_stock db))" and "0 \<le> quantity_or_0 (batch_at bk (db_batches db))"
proof -
  have p: "projects (\<lambda>q. 0 \<le> q) stock_at (db_stock db) (concat (map stock_posts (db_events db)))"
    "projects (\<lambda>q. 0 \<le> q) batch_at (db_batches db) (concat (map batch_posts (db_events db)))"
    using history_projections [OF assms] by (simp_all add: projections_agree_def)
  show "0 \<le> quantity_or_0 (stock_at k (db_stock db))"
    using stock.projects_ok [OF p(1), of k] by (simp add: quantity_or_0_def split: option.splits)
  show "0 \<le> quantity_or_0 (batch_at bk (db_batches db))"
    using batch.projects_ok [OF p(2), of bk] by (simp add: quantity_or_0_def split: option.splits)
qed

section \<open>A small warehouse to evaluate on\<close>

definition sample_sha :: "string \<Rightarrow> string" where
  "sample_sha s = dec_text (length s)"

definition sample_db :: ledger_db where
  "sample_db = \<lparr>db_events = [], db_stock = [], db_batches = [], db_epochs = [], db_freezes = [],
     db_skus = [\<lparr>sk_tenant = ''t'', sk_id = ''s'', sk_client = ''c''\<rparr>]\<rparr>"

definition sample_in :: movement where
  "sample_in = \<lparr>m_tenant = ''t'', m_wh = ''w'', m_type = ''stock.adjusted'', m_sku = ''s'', m_delta = 1000,
     m_from = None, m_to = Some ''b'', m_batch = Some ''l'', m_serial = Some ''n'', m_actor = ''u'',
     m_occurred = Some 0, m_recorded = Some 0, m_ref = JObj [(''kind'', JStr ''manual-adjustment'')],
     m_device = False\<rparr>"


definition sample_move :: movement where
  "sample_move = sample_in\<lparr>m_type := ''stock.moved'', m_from := Some ''b'', m_to := Some ''d'',
     m_ref := JObj [(''kind'', JStr ''bin-move'')]\<rparr>"

definition sample_event1 :: ledger_event where
  "sample_event1 = movement_row sample_in ''1'' 1 GENESIS_PREV_HASH ''c'' ''408''"

definition sample_event2 :: ledger_event where
  "sample_event2 = movement_row sample_move ''2'' 2 ''408'' ''c'' ''334''"

definition sample_db1 :: ledger_db where
  "sample_db1 = sample_db\<lparr>db_events := [sample_event1],
     db_stock := [\<lparr>so_tenant = ''t'', so_wh = ''w'', so_sku = ''s'', so_bin = ''b'', so_qty = 1000\<rparr>],
     db_batches := [\<lparr>ba_tenant = ''t'', ba_wh = ''w'', ba_sku = ''s'', ba_bin = ''b'', ba_batch = ''l'', ba_qty = 1000\<rparr>],
     db_epochs := [\<lparr>ep_tenant = ''t'', ep_wh = ''w'', ep_bin = ''b'', ep_epoch = 2\<rparr>]\<rparr>"

definition sample_db2 :: ledger_db where
  "sample_db2 = sample_db\<lparr>db_events := [sample_event1, sample_event2],
     db_stock := [\<lparr>so_tenant = ''t'', so_wh = ''w'', so_sku = ''s'', so_bin = ''b'', so_qty = 0\<rparr>,
       \<lparr>so_tenant = ''t'', so_wh = ''w'', so_sku = ''s'', so_bin = ''d'', so_qty = 1000\<rparr>],
     db_batches := [\<lparr>ba_tenant = ''t'', ba_wh = ''w'', ba_sku = ''s'', ba_bin = ''b'', ba_batch = ''l'', ba_qty = 0\<rparr>,
       \<lparr>ba_tenant = ''t'', ba_wh = ''w'', ba_sku = ''s'', ba_bin = ''d'', ba_batch = ''l'', ba_qty = 1000\<rparr>],
     db_epochs := [\<lparr>ep_tenant = ''t'', ep_wh = ''w'', ep_bin = ''b'', ep_epoch = 4\<rparr>,
       \<lparr>ep_tenant = ''t'', ep_wh = ''w'', ep_bin = ''d'', ep_epoch = 2\<rparr>]\<rparr>"

lemma sample_appends:
  "appendMovement sample_sha ''1'' sample_db sample_in =
     Inr (sample_db1, \<lparr>ap_id = ''1'', ap_seq = 1, ap_hash = ''408'', ap_prev = GENESIS_PREV_HASH, ap_touched = [(''b'', 1000)]\<rparr>)"
  "appendMovement sample_sha ''2'' sample_db1 sample_move =
     Inr (sample_db2, \<lparr>ap_id = ''2'', ap_seq = 2, ap_hash = ''334'', ap_prev = ''408'',
       ap_touched = [(''d'', 1000), (''b'', 0)]\<rparr>)"
  by code_simp+

lemma sample_fresh:
  "\<forall>e \<in> set (db_events sample_db). ev_id e < ''1''" "\<forall>e \<in> set (db_events sample_db1). ev_id e < ''2''"
  by code_simp+

lemma sample_history:
  "ledger_history sample_sha sample_db" "ledger_history sample_sha sample_db1" "ledger_history sample_sha sample_db2"
proof -
  show zero: "ledger_history sample_sha sample_db" by (rule ledger_history.start) (simp_all add: sample_db_def)
  show one: "ledger_history sample_sha sample_db1" by (rule ledger_history.append [OF zero sample_fresh(1) sample_appends(1)])
  show "ledger_history sample_sha sample_db2" by (rule ledger_history.append [OF one sample_fresh(2) sample_appends(2)])
qed

section \<open>Properties\<close>

text \<open>
  C1. In every history of appends the stock and batch projections are exactly the fold of the events:
  the row of a scope exists if and only if some event touches it, its quantity is the sum of the
  signed magnitudes posted to it, and it is never negative.
\<close>

theorem ledger_projects_events:
  assumes "ledger_history sha db"
  shows "stock_at k (db_stock db) = posted (concat (map stock_posts (db_events db))) k \<and>
    batch_at bk (db_batches db) = posted (concat (map batch_posts (db_events db))) bk \<and>
    0 \<le> quantity_or_0 (stock_at k (db_stock db)) \<and> 0 \<le> quantity_or_0 (batch_at bk (db_batches db))"
  using history_projections [OF assms] history_nonneg [OF assms]
  by (simp add: projections_agree_def stock.projects_lookup batch.projects_lookup)

theorem ledger_projects_events_witness:
  "stock_at (''t'', ''w'', ''s'', ''b'') (db_stock sample_db2) =
   posted (concat (map stock_posts (db_events sample_db2))) (''t'', ''w'', ''s'', ''b'')"
  using ledger_projects_events [OF sample_history(3)] by blast

text \<open>
  C2. In every history the events of a warehouse carry the sequence numbers 1, 2, \<dots>, n without a gap,
  the first points at the genesis hash, each next one at the hash of its predecessor, and every stored
  hash is the hash of the event's canonical bytes.
\<close>

theorem ledger_chain_dense:
  assumes "ledger_history sha db"
  shows "chain_ok sha (wh_events db t w)"
  by (rule history_chain [OF assms])

theorem ledger_chain_dense_witness:
  "chain_ok sample_sha (wh_events sample_db2 ''t'' ''w'')"
  by (rule ledger_chain_dense [OF sample_history(3)])

text \<open>
  C20. Custody of a serial: in every history the events of a serial form one chain of bins (each
  leaves the bin the previous one reached, the first comes from outside), and an append that carries
  the serial takes it from the bin where it is (or from outside, when it is nowhere) to the bin it
  names, leaving every other serial where it was.
\<close>

theorem serial_custody:
  assumes "ledger_history sha db" and "\<forall>e \<in> set (db_events db). ev_id e < newId"
    and "appendMovement sha newId db m = Inr (db', a)" and "m_serial m = Some s"
  shows "custody_chain None (serial_events db' (m_tenant m) s) \<and>
    serial_location db (m_tenant m) s = m_from m \<and> serial_location db' (m_tenant m) s = m_to m \<and>
    (\<forall>t s'. (t, s') \<noteq> (m_tenant m, s) \<longrightarrow> serial_location db' t s' = serial_location db t s')"
proof -
  note c = append_custody [OF history_custody [OF assms(1)] assms(2,3)]
  have "custody_chain None (serial_events db' (m_tenant m) s)" using c(1) by (simp add: custody_ok_def)
  with c(2) [OF assms(4)] c(3) assms(4) show ?thesis by auto
qed

theorem serial_custody_witness:
  "custody_chain None (serial_events sample_db2 ''t'' ''n'') \<and>
   serial_location sample_db1 ''t'' ''n'' = Some ''b'' \<and> serial_location sample_db2 ''t'' ''n'' = Some ''d''"
  using serial_custody [OF sample_history(2) sample_fresh(2) sample_appends(2), of "''n''"]
  by (simp add: sample_move_def sample_in_def)



text \<open>
  Every successful append writes an event of a registered type, with a reference kind of that type
  and only the arms the type allows; unless the movement is a QC hold or comes from a device, none of
  its bins is frozen; and it moves the epoch of a bin by exactly the number of projection rows of that
  bin it writes.
\<close>

theorem append_respects_guards:
  assumes "appendMovement sha newId db m = Inr (db', a)"
  shows "(\<exists>d \<in> set ledger_event_types. et_type d = m_type m \<and> reference_kind (m_ref m) \<in> Some ` set (et_kinds d) \<and>
      (m_batch m \<noteq> None \<longrightarrow> et_batch_arm d) \<and> (m_serial m \<noteq> None \<longrightarrow> et_serial_arm d)) \<and>
    (m_type m \<noteq> ''qc.held'' \<longrightarrow> \<not> m_device m \<longrightarrow>
      (\<forall>r \<in> set (db_freezes db). fr_tenant r = m_tenant m \<longrightarrow> Some (fr_bin r) \<noteq> m_from m \<and> Some (fr_bin r) \<noteq> m_to m)) \<and>
    (\<forall>t w b. epoch_at db' (t, w, b) = epoch_at db (t, w, b) +
      (if (t, w) = (m_tenant m, m_wh m) then arm_count m b * (if m_batch m = None then 1 else 2) else 0))"
proof -
  from assms obtain mid where grammar: "check_grammar m = Inr ()" and freeze: "assertNotFrozen db m = Inr mid"
    by (auto elim: appendMovement_Inr)
  have "\<exists>d \<in> set ledger_event_types. et_type d = m_type m \<and> reference_kind (m_ref m) \<in> Some ` set (et_kinds d) \<and>
      (m_batch m \<noteq> None \<longrightarrow> et_batch_arm d) \<and> (m_serial m \<noteq> None \<longrightarrow> et_serial_arm d)"
    using grammar by (fastforce simp: check_grammar_def getLedgerEventType_Some split: option.splits)
  moreover have "m_type m \<noteq> ''qc.held'' \<longrightarrow> \<not> m_device m \<longrightarrow>
      (\<forall>r \<in> set (db_freezes db). fr_tenant r = m_tenant m \<longrightarrow> Some (fr_bin r) \<noteq> m_from m \<and> Some (fr_bin r) \<noteq> m_to m)"
    using frozen_arms [OF freeze] by blast
  moreover have "epoch_at db' (t, w, b) = epoch_at db (t, w, b) +
      (if (t, w) = (m_tenant m, m_wh m) then arm_count m b * (if m_batch m = None then 1 else 2) else 0)" for t w b
    by (rule append_epochs [OF assms])
  ultimately show ?thesis by blast
qed

theorem append_respects_guards_witness:
  "epoch_at sample_db1 (''t'', ''w'', ''b'') = 2"
proof -
  from append_respects_guards [OF sample_appends(1)]
  have "epoch_at sample_db1 (''t'', ''w'', ''b'') = epoch_at sample_db (''t'', ''w'', ''b'') + arm_count sample_in ''b'' * 2"
    by (simp add: sample_in_def)
  then show ?thesis by (simp add: sample_db_def sample_in_def epoch_at_def arm_count_def)
qed

end
