(* ===== verification/LedgerReplay.thy ===== *)
theory LedgerReplay
  imports LedgerInvariant
begin

text \<open>
  The replay of the ledger (\<open>foldLedgerInTx\<close>, \<open>replayInTx\<close>, \<open>reconcileScanInTx\<close>,
  \<open>rebuildProjectionsInTx\<close> of \<open>modules/inventory/ledger.service.ts\<close>). The running maps are association
  lists under the source's string keys, so the splitting of a key back into its ids is part of the model,
  and every accumulation is asserted to stay in the exact range of a double.
\<close>

section \<open>The fold\<close>

definition MAX_SAFE_INTEGER :: int where
  "MAX_SAFE_INTEGER = 9007199254740991"

definition exact_quantity :: "int \<Rightarrow> bool" where
  "exact_quantity q = (\<bar>q\<bar> \<le> MAX_SAFE_INTEGER)"

definition inexact :: failure where
  "inexact = Thrown ''quantity-left-the-exact-range''"

definition replayKey :: "uuid \<Rightarrow> uuid \<Rightarrow> string" where
  "replayKey sku bin = sku @ '':'' @ bin"

definition batchReplayKey :: "uuid \<Rightarrow> uuid \<Rightarrow> uuid \<Rightarrow> string" where
  "batchReplayKey sku bin batch = sku @ '':'' @ bin @ '':'' @ batch"

record fold_options =
  fo_sku :: "uuid option"
  fo_bin :: "uuid option"
  fo_to :: "int option"
  fo_window :: "int option"

definition whole_ledger :: fold_options where
  "whole_ledger = \<lparr>fo_sku = None, fo_bin = None, fo_to = None, fo_window = None\<rparr>"

record ledger_fold =
  lf_replayed :: "(string \<times> int) list"
  lf_window :: "(string \<times> (int \<times> int)) list"
  lf_batch :: "(string \<times> int) list"
  lf_batch_window :: "(string \<times> (int \<times> int)) list"
  lf_count :: nat

definition recordWindowScope :: "string \<Rightarrow> int \<Rightarrow> (string \<times> (int \<times> int)) list \<Rightarrow> (string \<times> (int \<times> int)) list" where
  "recordWindowScope key seq scopes =
     AList.update key (case map_of scopes key of None \<Rightarrow> (seq, seq)
       | Some (a, b) \<Rightarrow> (min a seq, max b seq)) scopes"

definition bucket_add :: "string \<Rightarrow> int \<Rightarrow> (string \<times> int) list \<Rightarrow> (string \<times> int) list" where
  "bucket_add key delta bucket = AList.update key (quantity_or_0 (map_of bucket key) + delta) bucket"

definition accumulate :: "(string \<times> int) list \<Rightarrow> string \<Rightarrow> int \<Rightarrow> (string \<times> int) list result" where
  "accumulate bucket key delta =
     (if exact_quantity (quantity_or_0 (map_of bucket key) + delta) then Inr (bucket_add key delta bucket)
      else Inl inexact)"

definition fold_arm :: "bool \<Rightarrow> ledger_event \<Rightarrow> uuid option \<Rightarrow> int \<Rightarrow> ledger_fold \<Rightarrow> ledger_fold result" where
  "fold_arm inWindow row arm delta acc =
     (case arm of None \<Rightarrow> Inr acc
      | Some bin \<Rightarrow>
         (let key = replayKey (ev_sku row) bin in
          and_then (accumulate (lf_replayed acc) key delta) (\<lambda>replayed.
          (let acc = acc\<lparr>lf_replayed := replayed,
                 lf_window := (if inWindow then recordWindowScope key (ev_seq row) (lf_window acc) else lf_window acc)\<rparr> in
           case ev_batch row of None \<Rightarrow> Inr acc
           | Some batch \<Rightarrow>
              (let batchKey = batchReplayKey (ev_sku row) bin batch in
               and_then (accumulate (lf_batch acc) batchKey delta) (\<lambda>replayed.
               Inr (acc\<lparr>lf_batch := replayed,
                 lf_batch_window := (if inWindow then recordWindowScope batchKey (ev_seq row) (lf_batch_window acc)
                   else lf_batch_window acc)\<rparr>)))))))"

definition fold_row :: "int option \<Rightarrow> ledger_fold \<Rightarrow> ledger_event \<Rightarrow> ledger_fold result" where
  "fold_row windowFrom acc row =
     and_then (require (exact_quantity (ev_delta row)) inexact) (\<lambda>_.
     (let magnitude = \<bar>ev_delta row\<bar>;
          inWindow = (case windowFrom of None \<Rightarrow> False | Some w \<Rightarrow> w < ev_seq row)
      in and_then (fold_arm inWindow row (ev_to row) magnitude acc)
           (fold_arm inWindow row (ev_from row) (- magnitude))))"

definition selected :: "fold_options \<Rightarrow> ledger_event \<Rightarrow> bool" where
  "selected fo e =
     ((case fo_sku fo of None \<Rightarrow> True | Some s \<Rightarrow> ev_sku e = s) \<and>
      (case fo_bin fo of None \<Rightarrow> True | Some b \<Rightarrow> ev_to e = Some b \<or> ev_from e = Some b) \<and>
      (case fo_to fo of None \<Rightarrow> True | Some n \<Rightarrow> ev_seq e \<le> n))"

definition foldLedgerInTx :: "ledger_db \<Rightarrow> uuid \<Rightarrow> uuid \<Rightarrow> fold_options \<Rightarrow> ledger_fold result" where
  "foldLedgerInTx db tenant wh fo =
     (let rows = sort_key ev_seq (filter (selected fo) (wh_events db tenant wh))
      in foldM (fold_row (fo_window fo))
           \<lparr>lf_replayed = [], lf_window = [], lf_batch = [], lf_batch_window = [], lf_count = length rows\<rparr> rows)"

section \<open>Replay\<close>

record divergence =
  dv_sku :: uuid
  dv_bin :: uuid
  dv_batch :: "uuid option"
  dv_projected :: "int option"
  dv_replayed :: int
  dv_window :: "(int \<times> int) option"

record replay_report =
  rr_wh :: uuid
  rr_count :: nat
  rr_matches :: bool
  rr_divergences :: "divergence list"

text \<open>\<open>key.split(':')\<close>, read back into ids.\<close>

definition key_divergence :: "string \<Rightarrow> int option \<Rightarrow> int \<Rightarrow> (int \<times> int) option \<Rightarrow> divergence" where
  "key_divergence key projected replayed window =
     (let parts = split_on (CHR '':'') key in
      \<lparr>dv_sku = parts ! 0, dv_bin = parts ! 1, dv_batch = (if 2 < length parts then Some (parts ! 2) else None),
       dv_projected = projected, dv_replayed = replayed, dv_window = window\<rparr>)"

text \<open>The projected rows one by one, each taking its key out of the map, then what is left of the map.\<close>

fun compare_rows :: "('r \<Rightarrow> string) \<Rightarrow> ('r \<Rightarrow> int) \<Rightarrow> 'r list \<Rightarrow> (string \<times> int) list \<Rightarrow> divergence list" where
  "compare_rows key qty [] replayed = map (\<lambda>(k, q). key_divergence k None q None) replayed"
| "compare_rows key qty (r # rows) replayed =
     (let q = quantity_or_0 (map_of replayed (key r)) in
      (if q \<noteq> qty r then [key_divergence (key r) (Some (qty r)) q None] else []) @
      compare_rows key qty rows (AList.delete (key r) replayed))"

definition stock_in_scope :: "ledger_db \<Rightarrow> uuid \<Rightarrow> uuid \<Rightarrow> uuid option \<Rightarrow> uuid option \<Rightarrow> stock_row list" where
  "stock_in_scope db tenant wh sku bin =
     filter (\<lambda>r. so_tenant r = tenant \<and> so_wh r = wh \<and> (case sku of None \<Rightarrow> True | Some s \<Rightarrow> so_sku r = s) \<and>
       (case bin of None \<Rightarrow> True | Some b \<Rightarrow> so_bin r = b)) (db_stock db)"

definition batches_in_scope :: "ledger_db \<Rightarrow> uuid \<Rightarrow> uuid \<Rightarrow> uuid option \<Rightarrow> uuid option \<Rightarrow> batch_row list" where
  "batches_in_scope db tenant wh sku bin =
     filter (\<lambda>r. ba_tenant r = tenant \<and> ba_wh r = wh \<and> (case sku of None \<Rightarrow> True | Some s \<Rightarrow> ba_sku r = s) \<and>
       (case bin of None \<Rightarrow> True | Some b \<Rightarrow> ba_bin r = b)) (db_batches db)"

definition stock_replay_key :: "stock_row \<Rightarrow> string" where
  "stock_replay_key r = replayKey (so_sku r) (so_bin r)"

definition batch_replay_key :: "batch_row \<Rightarrow> string" where
  "batch_replay_key r = batchReplayKey (ba_sku r) (ba_bin r) (ba_batch r)"

definition report_of :: "uuid \<Rightarrow> nat \<Rightarrow> divergence list \<Rightarrow> replay_report" where
  "report_of wh n ds = \<lparr>rr_wh = wh, rr_count = n, rr_matches = (ds = []), rr_divergences = ds\<rparr>"

definition replayInTx :: "ledger_db \<Rightarrow> uuid \<Rightarrow> uuid \<Rightarrow> uuid option \<Rightarrow> uuid option \<Rightarrow> replay_report result" where
  "replayInTx db tenant wh sku bin =
     and_then (foldLedgerInTx db tenant wh (whole_ledger\<lparr>fo_sku := sku, fo_bin := bin\<rparr>)) (\<lambda>lf.
     Inr (report_of wh (lf_count lf)
       (compare_rows stock_replay_key so_qty (stock_in_scope db tenant wh sku bin) (lf_replayed lf) @
        compare_rows batch_replay_key ba_qty (batches_in_scope db tenant wh sku bin) (lf_batch lf))))"

section \<open>The bounded scan\<close>

definition scan_scopes :: "(string \<times> (int \<times> int)) list \<Rightarrow> (string \<times> int) list \<Rightarrow> (string \<times> int) list \<Rightarrow> divergence list" where
  "scan_scopes windowScopes projectedByKey replayed =
     List.map_filter (\<lambda>(key, range).
       (let projected = map_of projectedByKey key;
            q = quantity_or_0 (map_of replayed key)
        in if projected \<noteq> Some q then Some (key_divergence key projected q (Some range)) else None)) windowScopes"

text \<open>\<open>new Map(rows.map(...))\<close>: a later row of the same key wins.\<close>

definition rows_by_key :: "('r \<Rightarrow> string) \<Rightarrow> ('r \<Rightarrow> int) \<Rightarrow> 'r list \<Rightarrow> (string \<times> int) list" where
  "rows_by_key key qty rows = fold (\<lambda>r m. AList.update (key r) (qty r) m) rows []"

definition reconcileScanInTx :: "ledger_db \<Rightarrow> uuid \<Rightarrow> uuid \<Rightarrow> int \<Rightarrow> int \<Rightarrow> replay_report result" where
  "reconcileScanInTx db tenant wh fromSeq toSeq =
     and_then (foldLedgerInTx db tenant wh (whole_ledger\<lparr>fo_to := Some toSeq, fo_window := Some fromSeq\<rparr>)) (\<lambda>lf.
     Inr (report_of wh (lf_count lf)
       (scan_scopes (lf_window lf) (rows_by_key stock_replay_key so_qty (stock_in_scope db tenant wh None None)) (lf_replayed lf) @
        scan_scopes (lf_batch_window lf) (rows_by_key batch_replay_key ba_qty (batches_in_scope db tenant wh None None)) (lf_batch lf))))"

section \<open>The rebuild\<close>

record rebuilt_scope =
  rb_sku :: uuid
  rb_bin :: uuid
  rb_batch :: "uuid option"
  rb_projected :: "int option"
  rb_quantity :: int
  rb_deleted :: bool

definition starts_with :: "string \<Rightarrow> string \<Rightarrow> bool" where
  "starts_with prefix s = (take (length prefix) s = prefix)"

definition scope_buckets :: "uuid \<Rightarrow> uuid \<Rightarrow> (string \<times> int) list \<Rightarrow> (string \<times> int) list" where
  "scope_buckets sku bin batchReplayed =
     (let prefix = sku @ '':'' @ bin @ '':'' in
      fold (\<lambda>(k, q) m. AList.update (drop (length prefix) k) q m)
        (filter (\<lambda>(k, q). starts_with prefix k) batchReplayed) [])"

text \<open>
  \<open>stock_on_hand_quantity_nonnegative\<close> and \<open>batch_on_hand_quantity_nonnegative\<close>: a statement that would
  leave a negative quantity in either table fails, and with it the transaction.
\<close>

definition below_zero :: failure where
  "below_zero = Thrown ''quantity_nonnegative''"

definition nonnegative_check :: "int \<Rightarrow> unit result" where
  "nonnegative_check q = require (0 \<le> q) below_zero"

text \<open>The existing batch rows: delete what the events do not know, correct what differs, take both out of the buckets.\<close>

fun rebuild_batch_rows :: "uuid \<Rightarrow> uuid \<Rightarrow> batch_row list \<Rightarrow> (string \<times> int) list \<Rightarrow> batch_row list
    \<Rightarrow> ((string \<times> int) list \<times> batch_row list \<times> rebuilt_scope list) result" where
  "rebuild_batch_rows sku bin [] buckets table = Inr (buckets, table, [])"
| "rebuild_batch_rows sku bin (row # rows) buckets table =
     (case map_of buckets (ba_batch row) of
        None \<Rightarrow>
          and_then (rebuild_batch_rows sku bin rows buckets (delete_where (\<lambda>r. ba_key r = ba_key row) table)) (\<lambda>(b, t, rep).
          Inr (b, t, \<lparr>rb_sku = sku, rb_bin = bin, rb_batch = Some (ba_batch row), rb_projected = Some (ba_qty row),
                rb_quantity = 0, rb_deleted = True\<rparr> # rep))
      | Some q \<Rightarrow>
          (let buckets = AList.delete (ba_batch row) buckets in
           if ba_qty row = q then rebuild_batch_rows sku bin rows buckets table
           else and_then (nonnegative_check q) (\<lambda>_.
                and_then (rebuild_batch_rows sku bin rows buckets
                       (update_where (\<lambda>r. ba_key r = ba_key row) (\<lambda>r. r\<lparr>ba_qty := q\<rparr>) table)) (\<lambda>(b, t, rep).
                Inr (b, t, \<lparr>rb_sku = sku, rb_bin = bin, rb_batch = Some (ba_batch row), rb_projected = Some (ba_qty row),
                      rb_quantity = q, rb_deleted = False\<rparr> # rep)))))"

text \<open>The rows the table lacks, one insert each.\<close>

fun insert_batch_rows :: "uuid \<Rightarrow> uuid \<Rightarrow> uuid \<Rightarrow> uuid \<Rightarrow> (string \<times> int) list
    \<Rightarrow> (batch_row list \<times> rebuilt_scope list) result" where
  "insert_batch_rows tenant wh sku bin [] = Inr ([], [])"
| "insert_batch_rows tenant wh sku bin ((batch, q) # buckets) =
     and_then (nonnegative_check q) (\<lambda>_.
     and_then (insert_batch_rows tenant wh sku bin buckets) (\<lambda>(rows, rep).
     Inr (\<lparr>ba_tenant = tenant, ba_wh = wh, ba_sku = sku, ba_bin = bin, ba_batch = batch, ba_qty = q\<rparr> # rows,
          \<lparr>rb_sku = sku, rb_bin = bin, rb_batch = Some batch, rb_projected = None,
             rb_quantity = q, rb_deleted = False\<rparr> # rep)))"

definition rebuildBatchArmInTx :: "uuid \<Rightarrow> uuid \<Rightarrow> uuid \<Rightarrow> uuid \<Rightarrow> (string \<times> int) list \<Rightarrow> ledger_db
    \<Rightarrow> (ledger_db \<times> rebuilt_scope list) result" where
  "rebuildBatchArmInTx tenant wh sku bin batchReplayed db =
     and_then (rebuild_batch_rows sku bin (batches_in_scope db tenant wh (Some sku) (Some bin))
             (scope_buckets sku bin batchReplayed) (db_batches db)) (\<lambda>(buckets, table, repaired).
     and_then (insert_batch_rows tenant wh sku bin buckets) (\<lambda>(rows, inserted).
     Inr (db\<lparr>db_batches := table @ rows\<rparr>, repaired @ inserted)))"

definition put_stock :: "scope_key \<Rightarrow> int \<Rightarrow> stock_row list \<Rightarrow> stock_row list" where
  "put_stock k q rows =
     (if stock_at k rows \<noteq> None then update_where (\<lambda>r. so_key r = k) (\<lambda>r. r\<lparr>so_qty := q\<rparr>) rows
      else (case k of (t, w, s, b) \<Rightarrow> rows @ [\<lparr>so_tenant = t, so_wh = w, so_sku = s, so_bin = b, so_qty = q\<rparr>]))"

definition rebuild_stock_scope :: "uuid \<Rightarrow> uuid \<Rightarrow> (string \<times> int) list \<Rightarrow> uuid \<Rightarrow> uuid \<Rightarrow> ledger_db
    \<Rightarrow> (ledger_db \<times> rebuilt_scope list) result" where
  "rebuild_stock_scope tenant wh replayed sku bin db =
     (let k = (tenant, wh, sku, bin);
          existing = stock_at k (db_stock db)
      in case map_of replayed (replayKey sku bin) of
           None \<Rightarrow>
             (case existing of None \<Rightarrow> Inr (db, [])
              | Some q \<Rightarrow> Inr (db\<lparr>db_stock := delete_where (\<lambda>r. so_key r = k) (db_stock db)\<rparr>,
                  [\<lparr>rb_sku = sku, rb_bin = bin, rb_batch = None, rb_projected = Some q, rb_quantity = 0, rb_deleted = True\<rparr>]))
         | Some q \<Rightarrow>
             (if existing = Some q then Inr (db, [])
              else and_then (nonnegative_check q) (\<lambda>_.
                Inr (db\<lparr>db_stock := put_stock k q (db_stock db)\<rparr>,
                [\<lparr>rb_sku = sku, rb_bin = bin, rb_batch = None, rb_projected = existing, rb_quantity = q, rb_deleted = False\<rparr>]))))"

definition rebuild_scope :: "uuid \<Rightarrow> uuid \<Rightarrow> ledger_fold \<Rightarrow> ledger_db \<times> rebuilt_scope list \<Rightarrow> uuid \<times> uuid
    \<Rightarrow> (ledger_db \<times> rebuilt_scope list) result" where
  "rebuild_scope tenant wh lf st scope =
     and_then (rebuild_stock_scope tenant wh (lf_replayed lf) (fst scope) (snd scope) (fst st)) (\<lambda>(db1, rep1).
     and_then (rebuildBatchArmInTx tenant wh (fst scope) (snd scope) (lf_batch lf) db1) (\<lambda>(db2, rep2).
     Inr (db2, snd st @ rep1 @ rep2)))"

definition rebuildProjectionsInTx :: "ledger_db \<Rightarrow> uuid \<Rightarrow> uuid \<Rightarrow> (uuid \<times> uuid) list \<Rightarrow> (ledger_db \<times> rebuilt_scope list) result" where
  "rebuildProjectionsInTx db tenant wh scopes =
     and_then (foldLedgerInTx db tenant wh whole_ledger) (\<lambda>lf.
     and_then (foldM (rebuild_scope tenant wh lf) (db, []) scopes) (\<lambda>(db', repaired).
     Inr (fold (\<lambda>bin d. bumpBinEpochInTx d tenant wh bin) (rev (remdups (rev (map rb_bin repaired)))) db', repaired)))"

section \<open>The running maps keep the projection laws\<close>

interpretation bucket: projection "\<lambda>k b. map_of b k" bucket_add exact_quantity
  by unfold_locales (auto simp: bucket_add_def update_conv')

end
