(* ===== verification/LedgerFold.thy ===== *)
theory LedgerFold
  imports LedgerReplay "HOL-Library.Multiset"
begin

text \<open>
  What the fold of the ledger computes: under any options its running maps hold exactly what the
  selected events post, its window maps name exactly the scopes the window's events touch, and, as no
  id holds a colon, a string key reads back as the scope it was built from.
\<close>

section \<open>The running maps\<close>

lemma accumulate_post:
  "accumulate bucket key delta = guarded_post exact_quantity (\<lambda>k b. map_of b k) bucket_add inexact bucket (key, delta)"
  by (simp add: accumulate_def guarded_post_def)

lemma posted_perm:
  assumes "mset ps = mset qs"
  shows "posted ps k = posted qs k"
proof -
  have "set ps = set qs" using assms by (rule mset_eq_setD)
  moreover have "sum_where (\<lambda>p. fst p = k) snd ps = sum_where (\<lambda>p. fst p = k) snd qs"
  proof -
    have "mset (map snd (filter (\<lambda>p. fst p = k) ps)) = mset (map snd (filter (\<lambda>p. fst p = k) qs))"
      using assms by simp
    then show ?thesis unfolding sum_where_def by (metis sum_mset_sum_list)
  qed
  ultimately show ?thesis by (simp add: posted_def)
qed

lemma posted_map_inj:
  assumes "inj_on f (insert k (fst ` set ps))"
  shows "posted (map (\<lambda>p. (f (fst p), snd p)) ps) (f k) = posted ps k"
proof -
  have eq: "f (fst p) = f k \<longleftrightarrow> fst p = k" if "p \<in> set ps" for p
    using assms that by (auto simp: inj_on_def)
  have "sum_where (\<lambda>p. fst p = f k) snd (map (\<lambda>p. (f (fst p), snd p)) ps) = sum_where (\<lambda>p. fst p = k) snd ps"
    using eq by (induction ps) auto
  moreover have "(f k \<in> fst ` set (map (\<lambda>p. (f (fst p), snd p)) ps)) = (k \<in> fst ` set ps)"
    using eq by (force simp: image_iff)
  ultimately show ?thesis by (simp add: posted_def)
qed

definition stock_key_of :: "scope_key \<Rightarrow> string" where
  "stock_key_of k = (case k of (_, _, s, b) \<Rightarrow> replayKey s b)"

definition batch_key_of :: "batch_key \<Rightarrow> string" where
  "batch_key_of k = (case k of (_, _, s, b, l) \<Rightarrow> batchReplayKey s b l)"

definition key_posts :: "('k \<Rightarrow> string) \<Rightarrow> (ledger_event \<Rightarrow> ('k \<times> int) list) \<Rightarrow> ledger_event \<Rightarrow> (string \<times> int) list" where
  "key_posts f posts e = map (\<lambda>p. (f (fst p), snd p)) (posts e)"

lemma fold_arm_Inr:
  assumes "fold_arm inWindow row arm delta acc = Inr acc'"
  shows "foldM (guarded_post exact_quantity (\<lambda>k b. map_of b k) bucket_add inexact) (lf_replayed acc)
        (case arm of None \<Rightarrow> [] | Some b \<Rightarrow> [(replayKey (ev_sku row) b, delta)]) = Inr (lf_replayed acc')"
    and "foldM (guarded_post exact_quantity (\<lambda>k b. map_of b k) bucket_add inexact) (lf_batch acc)
        (case (arm, ev_batch row) of (Some b, Some l) \<Rightarrow> [(batchReplayKey (ev_sku row) b l, delta)] | _ \<Rightarrow> [])
        = Inr (lf_batch acc')"
    and "lf_count acc' = lf_count acc"
    and "fst ` set (lf_window acc') = fst ` set (lf_window acc) \<union>
        (if inWindow then (case arm of None \<Rightarrow> {} | Some b \<Rightarrow> {replayKey (ev_sku row) b}) else {})"
    and "fst ` set (lf_batch_window acc') = fst ` set (lf_batch_window acc) \<union>
        (if inWindow then (case (arm, ev_batch row) of (Some b, Some l) \<Rightarrow> {batchReplayKey (ev_sku row) b l} | _ \<Rightarrow> {}) else {})"
proof -
  show "foldM (guarded_post exact_quantity (\<lambda>k b. map_of b k) bucket_add inexact) (lf_replayed acc)
        (case arm of None \<Rightarrow> [] | Some b \<Rightarrow> [(replayKey (ev_sku row) b, delta)]) = Inr (lf_replayed acc')"
    using assms by (cases arm; cases "ev_batch row") (auto simp: fold_arm_def Let_def accumulate_post)
  show "foldM (guarded_post exact_quantity (\<lambda>k b. map_of b k) bucket_add inexact) (lf_batch acc)
        (case (arm, ev_batch row) of (Some b, Some l) \<Rightarrow> [(batchReplayKey (ev_sku row) b l, delta)] | _ \<Rightarrow> [])
        = Inr (lf_batch acc')"
    using assms by (cases arm; cases "ev_batch row") (auto simp: fold_arm_def Let_def accumulate_post)
  show "lf_count acc' = lf_count acc"
    using assms by (cases arm; cases "ev_batch row") (auto simp: fold_arm_def Let_def)
  have win: "fst ` set (recordWindowScope k n m) = insert k (fst ` set m)" for k n m
    by (simp add: recordWindowScope_def dom_update)
  show "fst ` set (lf_window acc') = fst ` set (lf_window acc) \<union>
        (if inWindow then (case arm of None \<Rightarrow> {} | Some b \<Rightarrow> {replayKey (ev_sku row) b}) else {})"
    using assms by (cases arm; cases "ev_batch row"; cases inWindow) (clarsimp simp: fold_arm_def Let_def win)+
  show "fst ` set (lf_batch_window acc') = fst ` set (lf_batch_window acc) \<union>
        (if inWindow then (case (arm, ev_batch row) of (Some b, Some l) \<Rightarrow> {batchReplayKey (ev_sku row) b l} | _ \<Rightarrow> {}) else {})"
    using assms by (cases arm; cases "ev_batch row"; cases inWindow) (clarsimp simp: fold_arm_def Let_def win)+
qed

lemma fold_row_Inr:
  assumes "fold_row w acc row = Inr acc'"
  shows "foldM (guarded_post exact_quantity (\<lambda>k b. map_of b k) bucket_add inexact) (lf_replayed acc)
        (key_posts stock_key_of stock_posts row) = Inr (lf_replayed acc')"
    and "foldM (guarded_post exact_quantity (\<lambda>k b. map_of b k) bucket_add inexact) (lf_batch acc)
        (key_posts batch_key_of batch_posts row) = Inr (lf_batch acc')"
    and "lf_count acc' = lf_count acc"
    and "fst ` set (lf_window acc') = fst ` set (lf_window acc) \<union>
        (if \<exists>n. w = Some n \<and> n < ev_seq row then fst ` set (key_posts stock_key_of stock_posts row) else {})"
    and "fst ` set (lf_batch_window acc') = fst ` set (lf_batch_window acc) \<union>
        (if \<exists>n. w = Some n \<and> n < ev_seq row then fst ` set (key_posts batch_key_of batch_posts row) else {})"
proof -
  define inw where "inw = (case w of None \<Rightarrow> False | Some n \<Rightarrow> n < ev_seq row)"
  have inw: "inw = (\<exists>n. w = Some n \<and> n < ev_seq row)" by (auto simp: inw_def split: option.splits)
  obtain mid where s1: "fold_arm inw row (ev_to row) \<bar>ev_delta row\<bar> acc = Inr mid"
    and s2: "fold_arm inw row (ev_from row) (- \<bar>ev_delta row\<bar>) mid = Inr acc'"
    using assms by (auto simp: fold_row_def Let_def inw_def)
  note a = fold_arm_Inr [OF s1] fold_arm_Inr [OF s2]
  show "foldM (guarded_post exact_quantity (\<lambda>k b. map_of b k) bucket_add inexact) (lf_replayed acc)
        (key_posts stock_key_of stock_posts row) = Inr (lf_replayed acc')"
    using a(1,6) by (cases "ev_to row"; cases "ev_from row")
      (auto simp: key_posts_def stock_key_of_def stock_posts_def arm_posts_def)
  show "foldM (guarded_post exact_quantity (\<lambda>k b. map_of b k) bucket_add inexact) (lf_batch acc)
        (key_posts batch_key_of batch_posts row) = Inr (lf_batch acc')"
    using a(2,7) by (cases "ev_to row"; cases "ev_from row"; cases "ev_batch row")
      (auto simp: key_posts_def batch_key_of_def batch_posts_def arm_posts_def)
  show "lf_count acc' = lf_count acc" using a(3,8) by simp
  show "fst ` set (lf_window acc') = fst ` set (lf_window acc) \<union>
        (if \<exists>n. w = Some n \<and> n < ev_seq row then fst ` set (key_posts stock_key_of stock_posts row) else {})"
    using a(4,9) by (cases "ev_to row"; cases "ev_from row")
      (auto simp: key_posts_def stock_key_of_def stock_posts_def arm_posts_def simp flip: inw)
  show "fst ` set (lf_batch_window acc') = fst ` set (lf_batch_window acc) \<union>
        (if \<exists>n. w = Some n \<and> n < ev_seq row then fst ` set (key_posts batch_key_of batch_posts row) else {})"
    using a(5,10) by (cases "ev_to row"; cases "ev_from row"; cases "ev_batch row")
      (auto simp: key_posts_def batch_key_of_def batch_posts_def arm_posts_def simp flip: inw)
qed

definition selected_events :: "ledger_db \<Rightarrow> uuid \<Rightarrow> uuid \<Rightarrow> fold_options \<Rightarrow> ledger_event list" where
  "selected_events db tenant wh fo = filter (selected fo) (wh_events db tenant wh)"

lemma fold_rows_Inr:
  assumes "foldM (fold_row w) acc rows = Inr acc'"
  shows "foldM (guarded_post exact_quantity (\<lambda>k b. map_of b k) bucket_add inexact) (lf_replayed acc)
        (concat (map (key_posts stock_key_of stock_posts) rows)) = Inr (lf_replayed acc')"
    and "foldM (guarded_post exact_quantity (\<lambda>k b. map_of b k) bucket_add inexact) (lf_batch acc)
        (concat (map (key_posts batch_key_of batch_posts) rows)) = Inr (lf_batch acc')"
    and "lf_count acc' = lf_count acc"
    and "fst ` set (lf_window acc') = fst ` set (lf_window acc) \<union>
        (\<Union>row \<in> {r \<in> set rows. \<exists>n. w = Some n \<and> n < ev_seq r}. fst ` set (key_posts stock_key_of stock_posts row))"
    and "fst ` set (lf_batch_window acc') = fst ` set (lf_batch_window acc) \<union>
        (\<Union>row \<in> {r \<in> set rows. \<exists>n. w = Some n \<and> n < ev_seq r}. fst ` set (key_posts batch_key_of batch_posts row))"
  using assms
proof (induction rows arbitrary: acc)
  case Nil
  { case 1 then show ?case by simp next case 2 then show ?case by simp next case 3 then show ?case by simp
  next case 4 then show ?case by simp next case 5 then show ?case by simp }
next
  case (Cons row rows)
  { case 1 then show ?case using Cons.IH(1) by (auto simp: foldM_append dest!: fold_row_Inr(1))
  next case 2 then show ?case using Cons.IH(2) by (auto simp: foldM_append dest!: fold_row_Inr(2))
  next case 3 then show ?case using Cons.IH(3) by (auto dest!: fold_row_Inr(3))
  next case 4
    then obtain mid where "fold_row w acc row = Inr mid" "foldM (fold_row w) mid rows = Inr acc'" by auto
    then show ?case using Cons.IH(4) [of mid] fold_row_Inr(4) [of w acc row mid] by auto
  next case 5
    then obtain mid where "fold_row w acc row = Inr mid" "foldM (fold_row w) mid rows = Inr acc'" by auto
    then show ?case using Cons.IH(5) [of mid] fold_row_Inr(5) [of w acc row mid] by auto }
qed

lemma concat_key_posts:
  "concat (map (key_posts f posts) rows) = map (\<lambda>p. (f (fst p), snd p)) (concat (map posts rows))"
  by (induction rows) (simp_all add: key_posts_def)

lemma distinct_bucket_posts:
  assumes "foldM (guarded_post exact_quantity (\<lambda>k b. map_of b k) bucket_add inexact) m ps = Inr m'"
    and "distinct (map fst m)"
  shows "distinct (map fst m')"
  using assms(1) by (rule foldM_invariant)
    (use assms(2) in \<open>auto simp: guarded_post_def bucket_add_def distinct_update split: if_splits\<close>)

lemma foldLedger_Inr:
  assumes "foldLedgerInTx db t w fo = Inr lf"
  shows "map_of (lf_replayed lf) key =
      posted (map (\<lambda>p. (stock_key_of (fst p), snd p)) (concat (map stock_posts (selected_events db t w fo)))) key"
    and "map_of (lf_batch lf) key =
      posted (map (\<lambda>p. (batch_key_of (fst p), snd p)) (concat (map batch_posts (selected_events db t w fo)))) key"
    and "distinct (map fst (lf_replayed lf))" and "distinct (map fst (lf_batch lf))"
    and "lf_count lf = length (selected_events db t w fo)"
    and "fst ` set (lf_window lf) = (\<Union>row \<in> {r \<in> set (selected_events db t w fo).
        \<exists>n. fo_window fo = Some n \<and> n < ev_seq r}. (\<lambda>p. stock_key_of (fst p)) ` set (stock_posts row))"
    and "fst ` set (lf_batch_window lf) = (\<Union>row \<in> {r \<in> set (selected_events db t w fo).
        \<exists>n. fo_window fo = Some n \<and> n < ev_seq r}. (\<lambda>p. batch_key_of (fst p)) ` set (batch_posts row))"
proof -
  define rows where "rows = sort_key ev_seq (selected_events db t w fo)"
  have run: "foldM (fold_row (fo_window fo)) \<lparr>lf_replayed = [], lf_window = [], lf_batch = [],
      lf_batch_window = [], lf_count = length rows\<rparr> rows = Inr lf"
    using assms by (simp add: foldLedgerInTx_def rows_def selected_events_def)
  note r = fold_rows_Inr [OF run]
  have perm: "mset (concat (map posts rows)) = mset (concat (map posts (selected_events db t w fo)))"
    for posts :: "ledger_event \<Rightarrow> 'k list"
    unfolding rows_def mset_concat by (metis mset_map mset_sort sum_mset_sum_list)
  have start: "projects exact_quantity (\<lambda>k b. map_of b k) [] []"
    by (simp add: projects_def)
  have perm2: "mset (map g (concat (map posts rows))) = mset (map g (concat (map posts (selected_events db t w fo))))"
    for posts :: "ledger_event \<Rightarrow> 'k list" and g :: "'k \<Rightarrow> string \<times> int"
    using perm [of posts] by simp
  show "map_of (lf_replayed lf) key =
      posted (map (\<lambda>p. (stock_key_of (fst p), snd p)) (concat (map stock_posts (selected_events db t w fo)))) key"
    using bucket.projects_lookup [OF bucket.projects_posts [OF start r(1) [simplified]], of key]
      posted_perm [OF perm2] by (simp add: concat_key_posts)
  show "map_of (lf_batch lf) key =
      posted (map (\<lambda>p. (batch_key_of (fst p), snd p)) (concat (map batch_posts (selected_events db t w fo)))) key"
    using bucket.projects_lookup [OF bucket.projects_posts [OF start r(2) [simplified]], of key]
      posted_perm [OF perm2] by (simp add: concat_key_posts)
  show "distinct (map fst (lf_replayed lf))" "distinct (map fst (lf_batch lf))"
    using distinct_bucket_posts [OF r(1)] distinct_bucket_posts [OF r(2)] by simp_all
  show "lf_count lf = length (selected_events db t w fo)" using r(3) by (simp add: rows_def)
  show "fst ` set (lf_window lf) = (\<Union>row \<in> {r \<in> set (selected_events db t w fo).
        \<exists>n. fo_window fo = Some n \<and> n < ev_seq r}. (\<lambda>p. stock_key_of (fst p)) ` set (stock_posts row))"
    using r(4) by (simp add: rows_def key_posts_def image_image)
  show "fst ` set (lf_batch_window lf) = (\<Union>row \<in> {r \<in> set (selected_events db t w fo).
        \<exists>n. fo_window fo = Some n \<and> n < ev_seq r}. (\<lambda>p. batch_key_of (fst p)) ` set (batch_posts row))"
    using r(5) by (simp add: rows_def key_posts_def image_image)
qed

section \<open>Keys without a colon\<close>

definition colon_free :: "string \<Rightarrow> bool" where
  "colon_free s = (CHR '':'' \<notin> set s)"

definition plain_ids :: "ledger_db \<Rightarrow> bool" where
  "plain_ids db =
     ((\<forall>e \<in> set (db_events db). colon_free (ev_sku e) \<and>
        (\<forall>b \<in> set_option (ev_to e) \<union> set_option (ev_from e). colon_free b) \<and>
        (\<forall>l \<in> set_option (ev_batch e). colon_free l)) \<and>
      (\<forall>r \<in> set (db_stock db). colon_free (so_sku r) \<and> colon_free (so_bin r)) \<and>
      (\<forall>r \<in> set (db_batches db). colon_free (ba_sku r) \<and> colon_free (ba_bin r)))"

lemma replayKey_inject:
  "colon_free s \<Longrightarrow> colon_free s' \<Longrightarrow> (replayKey s b = replayKey s' b') = (s = s' \<and> b = b')"
  using append_sep_inject [of "CHR '':''" s s' b b'] by (simp add: replayKey_def colon_free_def)

lemma batchReplayKey_inject:
  "colon_free s \<Longrightarrow> colon_free s' \<Longrightarrow> colon_free b \<Longrightarrow> colon_free b' \<Longrightarrow>
   (batchReplayKey s b l = batchReplayKey s' b' l') = (s = s' \<and> b = b' \<and> l = l')"
  using append_sep_inject [of "CHR '':''" s s' "b @ CHR '':'' # l" "b' @ CHR '':'' # l'"]
    append_sep_inject [of "CHR '':''" b b' l l']
  by (simp add: batchReplayKey_def colon_free_def)

lemma posted_stock_key:
  assumes "colon_free s" and "\<And>e. e \<in> set evs \<Longrightarrow> colon_free (ev_sku e) \<and> ev_tenant e = t \<and> ev_wh e = w"
  shows "posted (map (\<lambda>p. (stock_key_of (fst p), snd p)) (concat (map stock_posts evs))) (replayKey s b) =
    posted (concat (map stock_posts evs)) (t, w, s, b)"
proof -
  have keys: "\<exists>s b. k = (t, w, s, b) \<and> colon_free s" if "k \<in> fst ` set (concat (map stock_posts evs))" for k
    using that assms(2) by (fastforce simp: stock_posts_def arm_posts_def split: option.splits)
  have "inj_on stock_key_of (insert (t, w, s, b) (fst ` set (concat (map stock_posts evs))))"
  proof (rule inj_onI)
    fix x y
    assume "x \<in> insert (t, w, s, b) (fst ` set (concat (map stock_posts evs)))"
      and "y \<in> insert (t, w, s, b) (fst ` set (concat (map stock_posts evs)))"
      and eq: "stock_key_of x = stock_key_of y"
    then obtain s1 b1 s2 b2 where "x = (t, w, s1, b1)" "colon_free s1" "y = (t, w, s2, b2)" "colon_free s2"
      using keys assms(1) by (metis insert_iff)
    then show "x = y" using eq by (simp add: stock_key_of_def replayKey_inject)
  qed
  from posted_map_inj [OF this] show ?thesis by (simp add: stock_key_of_def)
qed

lemma posted_batch_key:
  assumes "colon_free s" and "colon_free b"
    and "\<And>e. e \<in> set evs \<Longrightarrow> colon_free (ev_sku e) \<and> ev_tenant e = t \<and> ev_wh e = w \<and>
      (\<forall>b \<in> set_option (ev_to e) \<union> set_option (ev_from e). colon_free b)"
  shows "posted (map (\<lambda>p. (batch_key_of (fst p), snd p)) (concat (map batch_posts evs))) (batchReplayKey s b l) =
    posted (concat (map batch_posts evs)) (t, w, s, b, l)"
proof -
  have keys: "\<exists>s b l. k = (t, w, s, b, l) \<and> colon_free s \<and> colon_free b"
    if "k \<in> fst ` set (concat (map batch_posts evs))" for k
    using that assms(3) by (fastforce simp: batch_posts_def arm_posts_def split: option.splits)
  have "inj_on batch_key_of (insert (t, w, s, b, l) (fst ` set (concat (map batch_posts evs))))"
  proof (rule inj_onI)
    fix x y
    assume "x \<in> insert (t, w, s, b, l) (fst ` set (concat (map batch_posts evs)))"
      and "y \<in> insert (t, w, s, b, l) (fst ` set (concat (map batch_posts evs)))"
      and eq: "batch_key_of x = batch_key_of y"
    then obtain s1 b1 l1 s2 b2 l2 where "x = (t, w, s1, b1, l1)" "colon_free s1" "colon_free b1"
      "y = (t, w, s2, b2, l2)" "colon_free s2" "colon_free b2"
      using keys assms(1,2) by (metis insert_iff)
    then show "x = y" using eq by (simp add: batch_key_of_def batchReplayKey_inject)
  qed
  from posted_map_inj [OF this] show ?thesis by (simp add: batch_key_of_def)
qed

lemma posted_filter:
  assumes "\<And>e. e \<in> set evs \<Longrightarrow> \<not> P e \<Longrightarrow> k \<notin> fst ` set (posts e)"
  shows "posted (concat (map posts (filter P evs))) k = posted (concat (map posts evs)) k"
proof -
  have "sum_where (\<lambda>p. fst p = k) snd (concat (map posts (filter P evs))) =
      sum_where (\<lambda>p. fst p = k) snd (concat (map posts evs))"
    using assms
  proof (induction evs)
    case Nil
    then show ?case by simp
  next
    case (Cons e evs)
    have "\<not> P e \<Longrightarrow> sum_where (\<lambda>p. fst p = k) snd (posts e) = 0"
      by (rule sum_where_none) (use Cons.prems [of e] in force)
    then show ?case using Cons by simp
  qed
  moreover have "(k \<in> fst ` set (concat (map posts (filter P evs)))) = (k \<in> fst ` set (concat (map posts evs)))"
    using assms by (force simp: image_UN)
  ultimately show ?thesis by (simp add: posted_def)
qed

text \<open>What the whole ledger posts to a scope, and what a fold of the warehouse's events finds there.\<close>

definition ledger_stock :: "ledger_db \<Rightarrow> scope_key \<Rightarrow> int option" where
  "ledger_stock db k = posted (concat (map stock_posts (db_events db))) k"

definition ledger_batch :: "ledger_db \<Rightarrow> batch_key \<Rightarrow> int option" where
  "ledger_batch db k = posted (concat (map batch_posts (db_events db))) k"

lemma fold_finds_stock:
  assumes "foldLedgerInTx db t w (whole_ledger\<lparr>fo_sku := sku\<rparr>) = Inr lf" and "plain_ids db" and "colon_free s"
  shows "map_of (lf_replayed lf) (replayKey s b) =
    (if sku = None \<or> sku = Some s then ledger_stock db (t, w, s, b) else None)"
proof -
  let ?sel = "selected_events db t w (whole_ledger\<lparr>fo_sku := sku\<rparr>)"
  have sel: "?sel = filter (\<lambda>e. ev_tenant e = t \<and> ev_wh e = w \<and> (sku = None \<or> sku = Some (ev_sku e))) (db_events db)"
    by (cases sku) (auto simp: selected_events_def wh_events_def selected_def whole_ledger_def intro!: filter_cong)
  have "map_of (lf_replayed lf) (replayKey s b) = posted (concat (map stock_posts ?sel)) (t, w, s, b)"
    unfolding foldLedger_Inr(1) [OF assms(1)]
    by (rule posted_stock_key) (use assms(2,3) sel in \<open>auto simp: plain_ids_def\<close>)
  moreover have "posted (concat (map stock_posts ?sel)) (t, w, s, b) = ledger_stock db (t, w, s, b)"
    if "sku = None \<or> sku = Some s"
    unfolding sel ledger_stock_def
    by (rule posted_filter) (use that in \<open>auto simp: stock_posts_def arm_posts_def split: option.splits\<close>)
  moreover have "posted (concat (map stock_posts ?sel)) (t, w, s, b) = None" if "sku \<noteq> None" "sku \<noteq> Some s"
    using that unfolding sel posted_def by (auto simp: stock_posts_def arm_posts_def split: option.splits)
  ultimately show ?thesis by auto
qed

lemma fold_finds_batch:
  assumes "foldLedgerInTx db t w (whole_ledger\<lparr>fo_sku := sku\<rparr>) = Inr lf" and "plain_ids db"
    and "colon_free s" and "colon_free b"
  shows "map_of (lf_batch lf) (batchReplayKey s b l) =
    (if sku = None \<or> sku = Some s then ledger_batch db (t, w, s, b, l) else None)"
proof -
  let ?sel = "selected_events db t w (whole_ledger\<lparr>fo_sku := sku\<rparr>)"
  have sel: "?sel = filter (\<lambda>e. ev_tenant e = t \<and> ev_wh e = w \<and> (sku = None \<or> sku = Some (ev_sku e))) (db_events db)"
    by (cases sku) (auto simp: selected_events_def wh_events_def selected_def whole_ledger_def intro!: filter_cong)
  have "map_of (lf_batch lf) (batchReplayKey s b l) = posted (concat (map batch_posts ?sel)) (t, w, s, b, l)"
    unfolding foldLedger_Inr(2) [OF assms(1)]
    by (rule posted_batch_key) (use assms(2,3,4) sel in \<open>auto simp: plain_ids_def\<close>)
  moreover have "posted (concat (map batch_posts ?sel)) (t, w, s, b, l) = ledger_batch db (t, w, s, b, l)"
    if "sku = None \<or> sku = Some s"
    unfolding sel ledger_batch_def
    by (rule posted_filter) (use that in \<open>auto simp: batch_posts_def arm_posts_def split: option.splits\<close>)
  moreover have "posted (concat (map batch_posts ?sel)) (t, w, s, b, l) = None" if "sku \<noteq> None" "sku \<noteq> Some s"
    using that unfolding sel posted_def by (auto simp: batch_posts_def arm_posts_def split: option.splits)
  ultimately show ?thesis by auto
qed

lemma fold_keys:
  assumes "foldLedgerInTx db t w (whole_ledger\<lparr>fo_sku := sku\<rparr>) = Inr lf" and "plain_ids db"
  shows "k \<in> fst ` set (lf_replayed lf) \<Longrightarrow> \<exists>s b. k = replayKey s b \<and> colon_free s \<and> colon_free b"
    and "k \<in> fst ` set (lf_batch lf) \<Longrightarrow>
      \<exists>s b l. k = batchReplayKey s b l \<and> colon_free s \<and> colon_free b \<and> colon_free l"
proof -
  let ?sel = "selected_events db t w (whole_ledger\<lparr>fo_sku := sku\<rparr>)"
  have plain: "colon_free (ev_sku e) \<and> (\<forall>b \<in> set_option (ev_to e) \<union> set_option (ev_from e). colon_free b) \<and>
      (\<forall>l \<in> set_option (ev_batch e). colon_free l)"
    if "e \<in> set ?sel" for e
    using that assms(2) by (auto simp: selected_events_def wh_events_def plain_ids_def)
  show "\<exists>s b. k = replayKey s b \<and> colon_free s \<and> colon_free b" if "k \<in> fst ` set (lf_replayed lf)"
  proof -
    have "map_of (lf_replayed lf) k \<noteq> None" using that by (simp add: map_of_eq_None_iff)
    then have "k \<in> fst ` set (map (\<lambda>p. (stock_key_of (fst p), snd p)) (concat (map stock_posts ?sel)))"
      unfolding foldLedger_Inr(1) [OF assms(1)] by (simp add: posted_def split: if_splits)
    then obtain e p where "e \<in> set ?sel" "p \<in> set (stock_posts e)" "k = stock_key_of (fst p)" by auto
    moreover from this obtain b where "k = replayKey (ev_sku e) b" "ev_to e = Some b \<or> ev_from e = Some b"
      by (auto simp: stock_posts_def arm_posts_def stock_key_of_def split: option.splits)
    ultimately show ?thesis using plain [of e] by (metis UnCI option.set_intros)
  qed
  show "\<exists>s b l. k = batchReplayKey s b l \<and> colon_free s \<and> colon_free b \<and> colon_free l" if "k \<in> fst ` set (lf_batch lf)"
  proof -
    have "map_of (lf_batch lf) k \<noteq> None" using that by (simp add: map_of_eq_None_iff)
    then have "k \<in> fst ` set (map (\<lambda>p. (batch_key_of (fst p), snd p)) (concat (map batch_posts ?sel)))"
      unfolding foldLedger_Inr(2) [OF assms(1)] by (simp add: posted_def split: if_splits)
    then obtain e p where "e \<in> set ?sel" "p \<in> set (batch_posts e)" "k = batch_key_of (fst p)" by auto
    moreover from this obtain b l where "k = batchReplayKey (ev_sku e) b l" "ev_to e = Some b \<or> ev_from e = Some b"
      "ev_batch e = Some l"
      by (auto simp: batch_posts_def arm_posts_def batch_key_of_def split: option.splits)
    ultimately show ?thesis using plain [of e] by (metis UnCI option.set_intros)
  qed
qed
end
