(* ===== verification/LedgerScan.thy ===== *)
theory LedgerScan
  imports LedgerFold LedgerProperties
begin

text \<open>
  Replay, the bounded scan and the rebuild against the fold of the ledger: the comparison is empty
  exactly when the projections agree with the events, the scan finds exactly the window's divergent
  scopes, a rebuild restores the scopes it is given, and every history of appends replays clean.
\<close>

lemma compare_rows_empty:
  assumes "distinct (map key rows)"
  shows "(compare_rows key qty rows m = []) =
    ((\<forall>r \<in> set rows. quantity_or_0 (map_of m (key r)) = qty r) \<and> fst ` set m \<subseteq> key ` set rows)"
  using assms
proof (induction rows arbitrary: m)
  case Nil
  then show ?case by simp
next
  case (Cons r rows)
  have "quantity_or_0 (map_of (AList.delete (key r) m) (key x)) = quantity_or_0 (map_of m (key x))"
    if "x \<in> set rows" for x
    using that Cons.prems by (cases "key x = key r") (auto simp: delete_conv' image_iff)
  moreover have "fst ` set (AList.delete (key r) m) = fst ` set m - {key r}"
    by (auto simp: AList.delete_eq)
  ultimately show ?case using Cons by (auto simp: Let_def)
qed

lemma compare_rows_scopes:
  assumes "distinct (map key rows)"
  shows "r \<in> set rows \<Longrightarrow> quantity_or_0 (map_of m (key r)) \<noteq> qty r \<Longrightarrow>
      key_divergence (key r) (Some (qty r)) (quantity_or_0 (map_of m (key r))) None \<in> set (compare_rows key qty rows m)"
    and "distinct (map fst m) \<Longrightarrow> map_of m k = Some q \<Longrightarrow> k \<notin> key ` set rows \<Longrightarrow>
      key_divergence k None q None \<in> set (compare_rows key qty rows m)"
  using assms
proof (induction rows arbitrary: m)
  case Nil
  { case 1 then show ?case by simp next case 2 then show ?case by (auto dest: map_of_SomeD) }
next
  case (Cons x rows)
  { case 1
    show ?case
    proof (cases "r = x")
      case True
      then show ?thesis using 1 by (simp add: Let_def)
    next
      case False
      then have "r \<in> set rows" and ne: "key r \<noteq> key x" using 1 by (auto simp: image_iff)
      then show ?thesis using 1 Cons.IH(1) [of "AList.delete (key x) m"] by (simp add: Let_def delete_conv')
    qed
  next
    case 2
    then show ?case using Cons.IH(2) [of "AList.delete (key x) m"]
      by (simp add: Let_def delete_conv' distinct_delete) }
qed

definition agrees :: "int option \<Rightarrow> int option \<Rightarrow> bool" where
  "agrees stored ledger = (case ledger of None \<Rightarrow> stored = None \<or> stored = Some 0 | Some q \<Rightarrow> stored = Some q)"

lemma stock_at_unique:
  assumes "distinct (map so_key rows)"
  shows "(stock_at k rows = Some q) = (\<exists>r \<in> set rows. so_key r = k \<and> so_qty r = q)"
  using find_Some_iff_unique [OF assms, of k] by (auto simp: stock_at_def)

lemma batch_at_unique:
  assumes "distinct (map ba_key rows)"
  shows "(batch_at k rows = Some q) = (\<exists>r \<in> set rows. ba_key r = k \<and> ba_qty r = q)"
  using find_Some_iff_unique [OF assms, of k] by (auto simp: batch_at_def)

lemma compare_exact:
  assumes rows: "distinct (map k rows)" "\<And>r. r \<in> set rows \<Longrightarrow> key r = f (k r) \<and> k r \<in> S"
    and inj: "inj_on f S"
    and found: "\<And>x. x \<in> S \<Longrightarrow> map_of m (f x) = ledger x"
    and onto: "\<And>y. y \<in> fst ` set m \<Longrightarrow> \<exists>x \<in> S. y = f x"
    and stored: "\<And>x q. x \<in> S \<Longrightarrow> (stored x = Some q) = (\<exists>r \<in> set rows. k r = x \<and> qty r = q)"
  shows "(compare_rows key qty rows m = []) = (\<forall>x \<in> S. agrees (stored x) (ledger x))"
proof -
  have map_key: "map key rows = map f (map k rows)" using rows(2) by simp
  have "distinct (map f (map k rows))"
    using rows inj by (subst distinct_map) (auto intro: inj_on_subset)
  then have dist: "distinct (map key rows)" by (simp add: map_key)
  have agree_row: "quantity_or_0 (map_of m (key r)) = qty r \<longleftrightarrow> agrees (stored (k r)) (ledger (k r))"
    if "r \<in> set rows" for r
  proof -
    have "stored (k r) = Some (qty r)" using stored rows(2) that by blast
    then show ?thesis using found rows(2) that by (auto simp: agrees_def split: option.splits)
  qed
  have covered: "fst ` set m \<subseteq> key ` set rows \<longleftrightarrow> (\<forall>x \<in> S. ledger x \<noteq> None \<longrightarrow> x \<in> k ` set rows)"
  proof
    assume sub: "fst ` set m \<subseteq> key ` set rows"
    show "\<forall>x \<in> S. ledger x \<noteq> None \<longrightarrow> x \<in> k ` set rows"
    proof (intro ballI impI)
      fix x
      assume x: "x \<in> S" "ledger x \<noteq> None"
      then have "f x \<in> fst ` set m" using found [OF x(1)] by (metis map_of_eq_None_iff)
      then obtain r where "r \<in> set rows" "f x = f (k r)" using sub rows(2) by auto
      then show "x \<in> k ` set rows" using inj x(1) rows(2) by (auto dest: inj_onD)
    qed
  next
    assume all: "\<forall>x \<in> S. ledger x \<noteq> None \<longrightarrow> x \<in> k ` set rows"
    show "fst ` set m \<subseteq> key ` set rows"
    proof
      fix y
      assume y: "y \<in> fst ` set m"
      then obtain x where x: "x \<in> S" "y = f x" using onto by blast
      then have "ledger x \<noteq> None" using y found by (metis map_of_eq_None_iff)
      then show "y \<in> key ` set rows" using all x rows(2) by force
    qed
  qed
  have outside: "x \<notin> k ` set rows \<Longrightarrow> x \<in> S \<Longrightarrow> agrees (stored x) (ledger x) \<longleftrightarrow> ledger x = None" for x
    using stored [of x "the (stored x)"] by (cases "stored x") (auto simp: agrees_def split: option.splits)
  have "(\<forall>x \<in> S. agrees (stored x) (ledger x)) = ((\<forall>x \<in> k ` set rows. agrees (stored x) (ledger x)) \<and>
      (\<forall>x \<in> S. ledger x \<noteq> None \<longrightarrow> x \<in> k ` set rows))" (is "?all = (?in \<and> ?out)")
  proof
    assume all: ?all
    have ?in using all rows(2) by auto
    moreover have ?out
    proof (intro ballI impI)
      fix x
      assume "x \<in> S" "ledger x \<noteq> None"
      then show "x \<in> k ` set rows" using all outside [of x] by (cases "x \<in> k ` set rows") auto
    qed
    ultimately show "?in \<and> ?out" ..
  next
    assume "?in \<and> ?out"
    then have "agrees (stored x) (ledger x)" if "x \<in> S" for x
      using that outside [of x] by (cases "x \<in> k ` set rows") auto
    then show ?all by blast
  qed
  moreover have "(\<forall>r \<in> set rows. quantity_or_0 (map_of m (key r)) = qty r) =
      (\<forall>x \<in> k ` set rows. agrees (stored x) (ledger x))" using agree_row by simp
  ultimately show ?thesis unfolding compare_rows_empty [OF dist] covered by simp
qed

definition scope_ok :: "uuid option \<Rightarrow> uuid \<Rightarrow> bool" where
  "scope_ok sku s = ((sku = None \<or> sku = Some s) \<and> colon_free s)"

lemma stock_side_exact:
  assumes fold: "foldLedgerInTx db t w (whole_ledger\<lparr>fo_sku := sku\<rparr>) = Inr lf" and plain: "plain_ids db"
    and keys: "distinct (map so_key (db_stock db))"
  shows "(compare_rows stock_replay_key so_qty (stock_in_scope db t w sku None) (lf_replayed lf) = []) =
    (\<forall>s b. scope_ok sku s \<longrightarrow> agrees (stock_at (t, w, s, b) (db_stock db)) (ledger_stock db (t, w, s, b)))"
proof -
  let ?S = "{(t, w, s, b) | s b. scope_ok sku s}"
  have row: "r \<in> set (stock_in_scope db t w sku None) \<longleftrightarrow> r \<in> set (db_stock db) \<and> so_key r \<in> ?S" for r
    using plain by (cases sku) (auto simp: stock_in_scope_def so_key_def plain_ids_def scope_ok_def)
  have "(compare_rows stock_replay_key so_qty (stock_in_scope db t w sku None) (lf_replayed lf) = []) =
      (\<forall>x \<in> ?S. agrees (stock_at x (db_stock db)) (ledger_stock db x))"
  proof (rule compare_exact [where k = so_key and f = stock_key_of])
    show "distinct (map so_key (stock_in_scope db t w sku None))"
      unfolding stock_in_scope_def by (rule distinct_map_filter [OF keys])
    show "stock_replay_key r = stock_key_of (so_key r) \<and> so_key r \<in> ?S"
      if "r \<in> set (stock_in_scope db t w sku None)" for r
      using that row by (simp add: stock_replay_key_def stock_key_of_def so_key_def)
    show "inj_on stock_key_of ?S"
      by (rule inj_onI) (auto simp: stock_key_of_def replayKey_inject scope_ok_def)
    show "map_of (lf_replayed lf) (stock_key_of x) = ledger_stock db x" if "x \<in> ?S" for x
      using that fold_finds_stock [OF fold plain] by (auto simp: scope_ok_def stock_key_of_def)
    show "\<exists>x \<in> ?S. y = stock_key_of x" if y: "y \<in> fst ` set (lf_replayed lf)" for y
    proof -
      obtain s b where sb: "y = replayKey s b" "colon_free s" using fold_keys(1) [OF fold plain y] by blast
      then have "scope_ok sku s"
        using fold_finds_stock [OF fold plain sb(2), of b] y by (auto simp: scope_ok_def map_of_eq_None_iff split: if_splits)
      then show ?thesis using sb by (auto simp: stock_key_of_def)
    qed
    show "(stock_at x (db_stock db) = Some q) = (\<exists>r \<in> set (stock_in_scope db t w sku None). so_key r = x \<and> so_qty r = q)"
      if "x \<in> ?S" for x q
      using stock_at_unique [OF keys] row that by blast
  qed
  then show ?thesis by auto
qed

lemma batch_side_exact:
  assumes fold: "foldLedgerInTx db t w (whole_ledger\<lparr>fo_sku := sku\<rparr>) = Inr lf" and plain: "plain_ids db"
    and keys: "distinct (map ba_key (db_batches db))"
  shows "(compare_rows batch_replay_key ba_qty (batches_in_scope db t w sku None) (lf_batch lf) = []) =
    (\<forall>s b l. scope_ok sku s \<and> colon_free b \<longrightarrow>
      agrees (batch_at (t, w, s, b, l) (db_batches db)) (ledger_batch db (t, w, s, b, l)))"
proof -
  let ?S = "{(t, w, s, b, l) | s b l. scope_ok sku s \<and> colon_free b}"
  have row: "r \<in> set (batches_in_scope db t w sku None) \<longleftrightarrow> r \<in> set (db_batches db) \<and> ba_key r \<in> ?S" for r
    using plain by (cases sku) (auto simp: batches_in_scope_def ba_key_def plain_ids_def scope_ok_def)
  have "(compare_rows batch_replay_key ba_qty (batches_in_scope db t w sku None) (lf_batch lf) = []) =
      (\<forall>x \<in> ?S. agrees (batch_at x (db_batches db)) (ledger_batch db x))"
  proof (rule compare_exact [where k = ba_key and f = batch_key_of])
    show "distinct (map ba_key (batches_in_scope db t w sku None))"
      unfolding batches_in_scope_def by (rule distinct_map_filter [OF keys])
    show "batch_replay_key r = batch_key_of (ba_key r) \<and> ba_key r \<in> ?S"
      if "r \<in> set (batches_in_scope db t w sku None)" for r
      using that row by (simp add: batch_replay_key_def batch_key_of_def ba_key_def)
    show "inj_on batch_key_of ?S"
      by (rule inj_onI) (auto simp: batch_key_of_def batchReplayKey_inject scope_ok_def)
    show "map_of (lf_batch lf) (batch_key_of x) = ledger_batch db x" if "x \<in> ?S" for x
      using that fold_finds_batch [OF fold plain] by (auto simp: scope_ok_def batch_key_of_def)
    show "\<exists>x \<in> ?S. y = batch_key_of x" if y: "y \<in> fst ` set (lf_batch lf)" for y
    proof -
      obtain s b l where sb: "y = batchReplayKey s b l" "colon_free s" "colon_free b"
        using fold_keys(2) [OF fold plain y] by blast
      then have "scope_ok sku s"
        using fold_finds_batch [OF fold plain sb(2,3), of l] y
        by (auto simp: scope_ok_def map_of_eq_None_iff split: if_splits)
      then show ?thesis using sb by (auto simp: batch_key_of_def)
    qed
    show "(batch_at x (db_batches db) = Some q) = (\<exists>r \<in> set (batches_in_scope db t w sku None). ba_key r = x \<and> ba_qty r = q)"
      if "x \<in> ?S" for x q
      using batch_at_unique [OF keys] row that by blast
  qed
  then show ?thesis by auto
qed

section \<open>Unique keys\<close>

lemma upsert_stock_keys:
  assumes "distinct (map so_key rows)"
  shows "distinct (map so_key (upsert_stock k d rows))"
proof (cases "stock_at k rows")
  case None
  then have "k \<notin> so_key ` set rows" by (simp add: stock_at_def find_None_map)
  then show ?thesis using assms None
    by (cases k) (auto simp: upsert_stock_def so_key_def)
next
  case (Some q)
  have "map so_key (update_where (\<lambda>r. so_key r = k) (\<lambda>r. r\<lparr>so_qty := so_qty r + d\<rparr>) rows) = map so_key rows"
    by (rule map_key_update_where) (simp add: so_key_def)
  with Some assms show ?thesis by (simp add: upsert_stock_def)
qed

lemma upsert_batch_keys:
  assumes "distinct (map ba_key rows)"
  shows "distinct (map ba_key (upsert_batch k d rows))"
proof (cases "batch_at k rows")
  case None
  then have "k \<notin> ba_key ` set rows" by (simp add: batch_at_def find_None_map)
  then show ?thesis using assms None
    by (cases k) (auto simp: upsert_batch_def ba_key_def)
next
  case (Some q)
  have "map ba_key (update_where (\<lambda>r. ba_key r = k) (\<lambda>r. r\<lparr>ba_qty := ba_qty r + d\<rparr>) rows) = map ba_key rows"
    by (rule map_key_update_where) (simp add: ba_key_def)
  with Some assms show ?thesis by (simp add: upsert_batch_def)
qed

lemma posts_keys:
  assumes "foldM (guarded_post ok at post refusal) rows ps = Inr rows'"
    and "distinct (map key rows)" and "\<And>k d rows. distinct (map key rows) \<Longrightarrow> distinct (map key (post k d rows))"
  shows "distinct (map key rows')"
  using assms(1) by (rule foldM_invariant) (use assms(2,3) in \<open>auto simp: guarded_post_def split: if_splits\<close>)

lemma history_keys:
  "ledger_history sha db \<Longrightarrow> distinct (map so_key (db_stock db)) \<and> distinct (map ba_key (db_batches db))"
proof (induction rule: ledger_history.induct)
  case (start db)
  then show ?case by simp
next
  case (append db newId m db' a)
  from append.hyps(3) obtain client where r:
    "foldM (guarded_post (\<lambda>q. 0 \<le> q) stock_at upsert_stock ()) (db_stock db)
      (stock_posts (movement_row m newId (ap_seq a) (ap_prev a) client (ap_hash a))) = Inr (db_stock db')"
    "foldM (guarded_post (\<lambda>q. 0 \<le> q) batch_at upsert_batch ()) (db_batches db)
      (batch_posts (movement_row m newId (ap_seq a) (ap_prev a) client (ap_hash a))) = Inr (db_batches db')"
    by (rule appendMovement_Inr)
  show ?case
    using posts_keys [OF r(1), of so_key] posts_keys [OF r(2), of ba_key] append.IH
      upsert_stock_keys upsert_batch_keys by blast
next
  case (others db freezes catalogue epochs)
  then show ?case by simp
qed

section \<open>The fold does not leave the exact range\<close>

definition traffic :: "ledger_event list \<Rightarrow> int" where
  "traffic evs = sum_list (map (\<lambda>e. \<bar>ev_delta e\<bar>) evs)"

definition bounded :: "int \<Rightarrow> ledger_fold \<Rightarrow> bool" where
  "bounded n acc = ((\<forall>k q. map_of (lf_replayed acc) k = Some q \<longrightarrow> \<bar>q\<bar> \<le> n) \<and>
     (\<forall>k q. map_of (lf_batch acc) k = Some q \<longrightarrow> \<bar>q\<bar> \<le> n) \<and> 0 \<le> n)"

lemma accumulate_bounded:
  assumes "\<forall>k q. map_of m k = Some q \<longrightarrow> \<bar>q\<bar> \<le> n" and "0 \<le> n" and "n + \<bar>d\<bar> \<le> MAX_SAFE_INTEGER"
  shows "\<exists>m'. accumulate m key d = Inr m' \<and> (\<forall>k q. map_of m' k = Some q \<longrightarrow> \<bar>q\<bar> \<le> n + \<bar>d\<bar>)"
proof -
  have "\<bar>quantity_or_0 (map_of m key)\<bar> \<le> n"
    using assms(1,2) by (cases "map_of m key") auto
  then have b: "\<bar>quantity_or_0 (map_of m key) + d\<bar> \<le> n + \<bar>d\<bar>" by linarith
  then have "accumulate m key d = Inr (bucket_add key d m)"
    using assms(3) by (simp add: accumulate_def exact_quantity_def)
  moreover have "\<bar>q\<bar> \<le> n + \<bar>d\<bar>" if "map_of (bucket_add key d m) k = Some q" for k q
    using that assms(1) b by (cases "k = key") (fastforce simp: bucket_add_def update_conv')+
  ultimately show ?thesis by blast
qed

lemma fold_arm_bounded:
  assumes "bounded n acc" and "n + \<bar>d\<bar> \<le> MAX_SAFE_INTEGER"
  shows "\<exists>acc'. fold_arm inw row arm d acc = Inr acc' \<and> bounded (n + \<bar>d\<bar>) acc'"
proof (cases arm)
  case None
  then show ?thesis using assms(1) by (fastforce simp: fold_arm_def bounded_def)
next
  case (Some bin)
  have b: "\<forall>k q. map_of (lf_replayed acc) k = Some q \<longrightarrow> \<bar>q\<bar> \<le> n" "\<forall>k q. map_of (lf_batch acc) k = Some q \<longrightarrow> \<bar>q\<bar> \<le> n" "0 \<le> n"
    using assms(1) by (simp_all add: bounded_def)
  obtain m1 where m1: "accumulate (lf_replayed acc) (replayKey (ev_sku row) bin) d = Inr m1"
    "\<forall>k q. map_of m1 k = Some q \<longrightarrow> \<bar>q\<bar> \<le> n + \<bar>d\<bar>"
    using accumulate_bounded [OF b(1,3) assms(2)] by blast
  have weak: "\<forall>k q. map_of (lf_batch acc) k = Some q \<longrightarrow> \<bar>q\<bar> \<le> n + \<bar>d\<bar>" using b(2) by fastforce
  show ?thesis
  proof (cases "ev_batch row")
    case None
    then show ?thesis using Some m1 weak b(3) by (simp add: fold_arm_def Let_def bounded_def)
  next
    case (Some l)
    obtain m2 where m2: "accumulate (lf_batch acc) (batchReplayKey (ev_sku row) bin l) d = Inr m2"
      "\<forall>k q. map_of m2 k = Some q \<longrightarrow> \<bar>q\<bar> \<le> n + \<bar>d\<bar>"
      using accumulate_bounded [OF b(2,3) assms(2)] by blast
    then show ?thesis using Some \<open>arm = Some bin\<close> m1 b(3) by (simp add: fold_arm_def Let_def bounded_def)
  qed
qed

lemma fold_rows_bounded:
  assumes "bounded n acc" and "n + 2 * traffic rows \<le> MAX_SAFE_INTEGER"
  shows "\<exists>acc'. foldM (fold_row w) acc rows = Inr acc'"
  using assms
proof (induction rows arbitrary: n acc)
  case Nil
  then show ?case by simp
next
  case (Cons row rows)
  have pos: "0 \<le> traffic rows" "0 \<le> n"
    using Cons.prems(1) by (auto simp: traffic_def bounded_def intro!: sum_list_nonneg)
  have sum: "n + \<bar>ev_delta row\<bar> + \<bar>ev_delta row\<bar> + 2 * traffic rows \<le> MAX_SAFE_INTEGER"
    using Cons.prems(2) by (simp add: traffic_def)
  have le: "n + \<bar>\<bar>ev_delta row\<bar>\<bar> \<le> MAX_SAFE_INTEGER"
    "n + \<bar>ev_delta row\<bar> + \<bar>- \<bar>ev_delta row\<bar>\<bar> \<le> MAX_SAFE_INTEGER"
    using sum pos by simp_all
  define inw where "inw = (case w of None \<Rightarrow> False | Some n \<Rightarrow> n < ev_seq row)"
  obtain a1 where a1: "fold_arm inw row (ev_to row) \<bar>ev_delta row\<bar> acc = Inr a1" "bounded (n + \<bar>ev_delta row\<bar>) a1"
    using fold_arm_bounded [OF Cons.prems(1) le(1), of inw row "ev_to row"] by auto
  obtain a2 where a2: "fold_arm inw row (ev_from row) (- \<bar>ev_delta row\<bar>) a1 = Inr a2"
    "bounded (n + \<bar>ev_delta row\<bar> + \<bar>ev_delta row\<bar>) a2"
    using fold_arm_bounded [OF a1(2) le(2), of inw row "ev_from row"] by auto
  have "exact_quantity (ev_delta row)" unfolding exact_quantity_def using le(1) pos by linarith
  then have "fold_row w acc row = Inr a2"
    unfolding fold_row_def Let_def inw_def [symmetric] by (simp add: a1(1) a2(1))
  then show ?case using Cons.IH [OF a2(2) sum] by simp
qed

lemma traffic_filter: "traffic (filter P evs) \<le> traffic evs"
  by (induction evs) (auto simp: traffic_def)

lemma fold_succeeds:
  assumes "2 * traffic (wh_events db t w) \<le> MAX_SAFE_INTEGER"
  shows "\<exists>lf. foldLedgerInTx db t w fo = Inr lf"
proof -
  let ?rows = "sort_key ev_seq (filter (selected fo) (wh_events db t w))"
  have "mset (map (\<lambda>e. \<bar>ev_delta e\<bar>) ?rows) = mset (map (\<lambda>e. \<bar>ev_delta e\<bar>) (filter (selected fo) (wh_events db t w)))"
    by simp
  then have "traffic ?rows = traffic (filter (selected fo) (wh_events db t w))"
    unfolding traffic_def by (metis sum_mset_sum_list)
  then have "0 + 2 * traffic ?rows \<le> MAX_SAFE_INTEGER"
    using assms traffic_filter [of "selected fo" "wh_events db t w"] by simp
  moreover have "bounded 0 \<lparr>lf_replayed = [], lf_window = [], lf_batch = [], lf_batch_window = [], lf_count = length ?rows\<rparr>"
    by (simp add: bounded_def)
  ultimately show ?thesis unfolding foldLedgerInTx_def Let_def by (rule fold_rows_bounded [rotated])
qed

section \<open>The scan compares the window's scopes\<close>

lemma rows_by_key_map:
  assumes "distinct (map key rows)"
  shows "(map_of (rows_by_key key qty rows) x = Some q) = (\<exists>r \<in> set rows. key r = x \<and> qty r = q)"
  using assms
proof (induction rows rule: rev_induct)
  case Nil
  then show ?case by (simp add: rows_by_key_def)
next
  case (snoc r rows)
  have "rows_by_key key qty (rows @ [r]) = AList.update (key r) (qty r) (rows_by_key key qty rows)"
    by (simp add: rows_by_key_def)
  then show ?case using snoc by (cases "x = key r") (auto simp: update_conv' image_iff)
qed

lemma scan_scopes_empty:
  "(scan_scopes win rows m = []) = (\<forall>x \<in> fst ` set win. map_of rows x = Some (quantity_or_0 (map_of m x)))"
proof (induction win)
  case Nil
  then show ?case by (simp add: scan_scopes_def List.map_filter_simps)
next
  case (Cons p win)
  obtain k range where "p = (k, range)" by (cases p)
  then show ?case using Cons by (simp add: scan_scopes_def List.map_filter_simps Let_def)
qed

lemma scan_side:
  assumes rows: "distinct (map k rows)" "\<And>r. r \<in> set rows \<Longrightarrow> key r = f (k r) \<and> k r \<in> S"
    and inj: "inj_on f S" and T: "T \<subseteq> S" "fst ` set win = f ` T"
    and found: "\<And>x. x \<in> T \<Longrightarrow> map_of m (f x) = ledger x \<and> ledger x \<noteq> None"
    and stored: "\<And>x q. x \<in> S \<Longrightarrow> (stored x = Some q) = (\<exists>r \<in> set rows. k r = x \<and> qty r = q)"
  shows "(scan_scopes win (rows_by_key key qty rows) m = []) = (\<forall>x \<in> T. stored x = ledger x)"
proof -
  have map_key: "map key rows = map f (map k rows)" using rows(2) by simp
  have "distinct (map f (map k rows))"
    using rows inj by (subst distinct_map) (auto intro: inj_on_subset)
  then have dist: "distinct (map key rows)" by (simp add: map_key)
  have by_key: "(map_of (rows_by_key key qty rows) (f x) = Some q) = (stored x = Some q)" if "x \<in> T" for x q
  proof -
    have "(\<exists>r \<in> set rows. key r = f x \<and> qty r = q) = (\<exists>r \<in> set rows. k r = x \<and> qty r = q)"
      using rows(2) inj T(1) that by (metis inj_on_def subsetD)
    then show ?thesis using rows_by_key_map [OF dist] stored T(1) that by (metis subsetD)
  qed
  have eq: "(map_of (rows_by_key key qty rows) (f x) = Some (quantity_or_0 (map_of m (f x)))) = (stored x = ledger x)"
    if "x \<in> T" for x
    using by_key [OF that, of "the (ledger x)"] found [OF that] by auto
  show ?thesis unfolding scan_scopes_empty T(2) ball_simps by (rule ball_cong [OF refl eq])
qed

definition touched_stock :: "ledger_event list \<Rightarrow> scope_key set" where
  "touched_stock evs = (\<Union>e \<in> set evs. fst ` set (stock_posts e))"

definition touched_batches :: "ledger_event list \<Rightarrow> batch_key set" where
  "touched_batches evs = (\<Union>e \<in> set evs. fst ` set (batch_posts e))"

text \<open>The events of the scanned window, and the ledger as of its end.\<close>

definition window_events :: "ledger_db \<Rightarrow> uuid \<Rightarrow> uuid \<Rightarrow> int \<Rightarrow> int \<Rightarrow> ledger_event list" where
  "window_events db t w fromSeq toSeq = filter (\<lambda>e. fromSeq < ev_seq e \<and> ev_seq e \<le> toSeq) (wh_events db t w)"

definition events_through :: "ledger_db \<Rightarrow> uuid \<Rightarrow> uuid \<Rightarrow> int \<Rightarrow> ledger_event list" where
  "events_through db t w toSeq = filter (\<lambda>e. ev_seq e \<le> toSeq) (wh_events db t w)"

lemma posted_touched:
  "k \<in> touched_stock evs \<Longrightarrow> posted (concat (map stock_posts evs)) k \<noteq> None"
  "bk \<in> touched_batches evs \<Longrightarrow> posted (concat (map batch_posts evs)) bk \<noteq> None"
  by (auto simp: touched_stock_def touched_batches_def posted_def)

definition scan_options :: "int \<Rightarrow> int \<Rightarrow> fold_options" where
  "scan_options fromSeq toSeq = whole_ledger\<lparr>fo_to := Some toSeq, fo_window := Some fromSeq\<rparr>"

lemma scan_selects:
  "selected_events db t w (scan_options fromSeq toSeq) = events_through db t w toSeq"
  "{e \<in> set (events_through db t w toSeq). \<exists>n. fo_window (scan_options fromSeq toSeq) = Some n \<and> n < ev_seq e} =
   set (window_events db t w fromSeq toSeq)"
  "set (window_events db t w fromSeq toSeq) \<subseteq> set (events_through db t w toSeq)"
proof -
  show "selected_events db t w (scan_options fromSeq toSeq) = events_through db t w toSeq"
    unfolding selected_events_def events_through_def
    by (rule filter_cong) (simp_all add: selected_def scan_options_def whole_ledger_def)
qed (auto simp: scan_options_def whole_ledger_def events_through_def window_events_def)

lemma scan_ids:
  assumes "plain_ids db" and "e \<in> set (events_through db t w toSeq)"
  shows "colon_free (ev_sku e) \<and> ev_tenant e = t \<and> ev_wh e = w \<and>
      (\<forall>b \<in> set_option (ev_to e) \<union> set_option (ev_from e). colon_free b)"
  using assms by (auto simp: events_through_def wh_events_def plain_ids_def)

lemma scan_stock_side:
  assumes fold: "foldLedgerInTx db t w (scan_options fromSeq toSeq) = Inr lf" and plain: "plain_ids db"
    and keys: "distinct (map so_key (db_stock db))"
  shows "(scan_scopes (lf_window lf) (rows_by_key stock_replay_key so_qty (stock_in_scope db t w None None)) (lf_replayed lf) = []) =
      (\<forall>k \<in> touched_stock (window_events db t w fromSeq toSeq). stock_at k (db_stock db) = posted (concat (map stock_posts (events_through db t w toSeq))) k)"
proof (rule scan_side [where k = so_key and f = stock_key_of and S = "{(t, w, s, b) | s b. colon_free s}"])
  show "distinct (map so_key (stock_in_scope db t w None None))"
    unfolding stock_in_scope_def by (rule distinct_map_filter [OF keys])
  show "stock_replay_key r = stock_key_of (so_key r) \<and> so_key r \<in> {(t, w, s, b) | s b. colon_free s}" if "r \<in> set (stock_in_scope db t w None None)" for r
    using that plain by (auto simp: stock_in_scope_def stock_replay_key_def stock_key_of_def so_key_def plain_ids_def)
  show "inj_on stock_key_of {(t, w, s, b) | s b. colon_free s}" by (rule inj_onI) (auto simp: stock_key_of_def replayKey_inject)
  have T: "k \<in> touched_stock (window_events db t w fromSeq toSeq) \<Longrightarrow> k \<in> touched_stock (events_through db t w toSeq) \<and> (\<exists>s b. k = (t, w, s, b) \<and> colon_free s)" for k
  proof -
    assume "k \<in> touched_stock (window_events db t w fromSeq toSeq)"
    then obtain e where e: "e \<in> set (window_events db t w fromSeq toSeq)" "k \<in> fst ` set (stock_posts e)" by (auto simp: touched_stock_def)
    then have "e \<in> set (events_through db t w toSeq)" using scan_selects(3) by blast
    moreover from this have "k = (t, w, ev_sku e, snd (snd (snd k))) \<and> colon_free (ev_sku e)"
      using scan_ids [OF plain] e(2) by (auto simp: stock_posts_def arm_posts_def split: option.splits)
    ultimately show ?thesis using e(2) unfolding touched_stock_def by blast
  qed
  show "touched_stock (window_events db t w fromSeq toSeq) \<subseteq> {(t, w, s, b) | s b. colon_free s}" using T by blast
  show "fst ` set (lf_window lf) = stock_key_of ` touched_stock (window_events db t w fromSeq toSeq)"
    unfolding foldLedger_Inr(6) [OF fold] scan_selects(1) scan_selects(2) touched_stock_def by (auto simp: image_UN image_image)
  show "map_of (lf_replayed lf) (stock_key_of x) = posted (concat (map stock_posts (events_through db t w toSeq))) x \<and>
      posted (concat (map stock_posts (events_through db t w toSeq))) x \<noteq> None" if x: "x \<in> touched_stock (window_events db t w fromSeq toSeq)" for x
  proof -
    obtain s b where sb: "x = (t, w, s, b)" "colon_free s" using T [OF x] by blast
    show ?thesis
      using foldLedger_Inr(1) [OF fold, of "stock_key_of x"] posted_stock_key [of s "events_through db t w toSeq" t w b] sb scan_ids [OF plain] T [OF x] posted_touched(1)
      by (simp add: scan_selects(1) stock_key_of_def)
  qed
  show "(stock_at x (db_stock db) = Some q) = (\<exists>r \<in> set (stock_in_scope db t w None None). so_key r = x \<and> so_qty r = q)"
    if "x \<in> {(t, w, s, b) | s b. colon_free s}" for x q
    using that stock_at_unique [OF keys, of x q] by (auto simp: stock_in_scope_def so_key_def)
qed

lemma scan_batch_side:
  assumes fold: "foldLedgerInTx db t w (scan_options fromSeq toSeq) = Inr lf" and plain: "plain_ids db"
    and keys: "distinct (map ba_key (db_batches db))"
  shows "(scan_scopes (lf_batch_window lf) (rows_by_key batch_replay_key ba_qty (batches_in_scope db t w None None)) (lf_batch lf) = []) =
      (\<forall>k \<in> touched_batches (window_events db t w fromSeq toSeq). batch_at k (db_batches db) = posted (concat (map batch_posts (events_through db t w toSeq))) k)"
proof (rule scan_side [where k = ba_key and f = batch_key_of and S = "{(t, w, s, b, l) | s b l. colon_free s \<and> colon_free b}"])
  show "distinct (map ba_key (batches_in_scope db t w None None))"
    unfolding batches_in_scope_def by (rule distinct_map_filter [OF keys])
  show "batch_replay_key r = batch_key_of (ba_key r) \<and> ba_key r \<in> {(t, w, s, b, l) | s b l. colon_free s \<and> colon_free b}" if "r \<in> set (batches_in_scope db t w None None)" for r
    using that plain by (auto simp: batches_in_scope_def batch_replay_key_def batch_key_of_def ba_key_def plain_ids_def)
  show "inj_on batch_key_of {(t, w, s, b, l) | s b l. colon_free s \<and> colon_free b}" by (rule inj_onI) (auto simp: batch_key_of_def batchReplayKey_inject)
  have T: "k \<in> touched_batches (window_events db t w fromSeq toSeq) \<Longrightarrow> k \<in> touched_batches (events_through db t w toSeq) \<and>
      (\<exists>s b l. k = (t, w, s, b, l) \<and> colon_free s \<and> colon_free b)" for k
  proof -
    assume "k \<in> touched_batches (window_events db t w fromSeq toSeq)"
    then obtain e where e: "e \<in> set (window_events db t w fromSeq toSeq)" "k \<in> fst ` set (batch_posts e)" by (auto simp: touched_batches_def)
    then have ev': "e \<in> set (events_through db t w toSeq)" using scan_selects(3) by blast
    obtain b l where "k = (t, w, ev_sku e, b, l)" "ev_to e = Some b \<or> ev_from e = Some b"
      using scan_ids [OF plain ev'] e(2) by (auto simp: batch_posts_def arm_posts_def split: option.splits)
    then show ?thesis using e(2) ev' scan_ids [OF plain] unfolding touched_batches_def
      by (metis (no_types, lifting) UN_I UnCI option.set_intros)
  qed
  show "touched_batches (window_events db t w fromSeq toSeq) \<subseteq> {(t, w, s, b, l) | s b l. colon_free s \<and> colon_free b}" using T by blast
  show "fst ` set (lf_batch_window lf) = batch_key_of ` touched_batches (window_events db t w fromSeq toSeq)"
    unfolding foldLedger_Inr(7) [OF fold] scan_selects(1) scan_selects(2) touched_batches_def by (auto simp: image_UN image_image)
  show "map_of (lf_batch lf) (batch_key_of x) = posted (concat (map batch_posts (events_through db t w toSeq))) x \<and>
      posted (concat (map batch_posts (events_through db t w toSeq))) x \<noteq> None" if x: "x \<in> touched_batches (window_events db t w fromSeq toSeq)" for x
  proof -
    obtain s b l where sb: "x = (t, w, s, b, l)" "colon_free s" "colon_free b" using T [OF x] by blast
    show ?thesis
      using foldLedger_Inr(2) [OF fold, of "batch_key_of x"] posted_batch_key [of s b "events_through db t w toSeq" t w l] sb scan_ids [OF plain] T [OF x] posted_touched(2)
      by (simp add: scan_selects(1) batch_key_of_def)
  qed
  show "(batch_at x (db_batches db) = Some q) = (\<exists>r \<in> set (batches_in_scope db t w None None). ba_key r = x \<and> ba_qty r = q)"
    if "x \<in> {(t, w, s, b, l) | s b l. colon_free s \<and> colon_free b}" for x q
    using that batch_at_unique [OF keys, of x q] by (auto simp: batches_in_scope_def ba_key_def)
qed

lemma scan_exact:
  assumes scan: "reconcileScanInTx db t w fromSeq toSeq = Inr r" and plain: "plain_ids db"
    and keys: "distinct (map so_key (db_stock db))" "distinct (map ba_key (db_batches db))"
  shows "rr_matches r = ((\<forall>k \<in> touched_stock (window_events db t w fromSeq toSeq).
        stock_at k (db_stock db) = posted (concat (map stock_posts (events_through db t w toSeq))) k) \<and>
      (\<forall>k \<in> touched_batches (window_events db t w fromSeq toSeq).
        batch_at k (db_batches db) = posted (concat (map batch_posts (events_through db t w toSeq))) k))"
proof -
  obtain lf where fold: "foldLedgerInTx db t w (scan_options fromSeq toSeq) = Inr lf"
    and r: "r = report_of w (lf_count lf)
       (scan_scopes (lf_window lf) (rows_by_key stock_replay_key so_qty (stock_in_scope db t w None None)) (lf_replayed lf) @
        scan_scopes (lf_batch_window lf) (rows_by_key batch_replay_key ba_qty (batches_in_scope db t w None None)) (lf_batch lf))"
    using scan by (auto simp: reconcileScanInTx_def report_of_def scan_options_def)
  show ?thesis
    using scan_stock_side [OF fold plain keys(1)] scan_batch_side [OF fold plain keys(2)] r
    by (simp add: report_of_def)
qed

end
