(* ===== verification/LedgerRebuild.thy ===== *)
theory LedgerRebuild
  imports LedgerScan
begin

text \<open>
  \<open>rebuildProjectionsInTx\<close> against the fold: a rebuilt scope holds exactly what the events post to it,
  every other scope keeps its rows, keys stay unique, and rebuilding the scopes a replay names makes
  the next replay clean.
\<close>

section \<open>Writing one scope\<close>

lemma stock_at_put: "stock_at k' (put_stock k q rows) = (if k' = k then Some q else stock_at k' rows)"
proof -
  have up: "stock_at k' (update_where (\<lambda>r. so_key r = k) (\<lambda>r. r\<lparr>so_qty := q\<rparr>) rows) =
      (if k' = k then map_option (\<lambda>_. q) (stock_at k rows) else stock_at k' rows)" for rows
    by (induction rows) (auto simp: stock_at_def so_key_def)
  have app: "stock_at k' (rows @ [r]) = (case stock_at k' rows of None \<Rightarrow>
      if so_key r = k' then Some (so_qty r) else None | Some x \<Rightarrow> Some x)" for rows r
    by (induction rows) (auto simp: stock_at_def)
  show ?thesis
  proof (cases "stock_at k rows")
    case None
    then show ?thesis
      by (cases k) (auto simp: put_stock_def app so_key_def split: option.splits)
  next
    case (Some x)
    then show ?thesis by (simp add: put_stock_def up)
  qed
qed

lemma stock_at_delete: "stock_at k' (delete_where (\<lambda>r. so_key r = k) rows) = (if k' = k then None else stock_at k' rows)"
  by (induction rows) (auto simp: stock_at_def)

lemma batch_at_update: "batch_at k' (update_where (\<lambda>r. ba_key r = k) (\<lambda>r. r\<lparr>ba_qty := q\<rparr>) rows) =
    (if k' = k then map_option (\<lambda>_. q) (batch_at k rows) else batch_at k' rows)"
  by (induction rows) (auto simp: batch_at_def ba_key_def)

lemma batch_at_delete: "batch_at k' (delete_where (\<lambda>r. ba_key r = k) rows) = (if k' = k then None else batch_at k' rows)"
  by (induction rows) (auto simp: batch_at_def)

lemma batch_at_append: "batch_at k (xs @ ys) = (case batch_at k xs of None \<Rightarrow> batch_at k ys | Some q \<Rightarrow> Some q)"
  by (induction xs) (auto simp: batch_at_def)

lemma rebuild_stock_scope_at:
  assumes "rebuild_stock_scope t w m s b db = Inr (db', rep)"
  shows "stock_at k (db_stock db') = (if k = (t, w, s, b) then map_of m (replayKey s b) else stock_at k (db_stock db))"
    and "db_batches db' = db_batches db" and "db_events db' = db_events db"
  using assms by (auto simp: rebuild_stock_scope_def Let_def stock_at_put stock_at_delete split: option.splits if_splits)

section \<open>The batch arm\<close>

lemma rebuild_batch_rows_step:
  assumes "rebuild_batch_rows s b (r # rows) buckets table = Inr (buckets', table', rep)"
  obtains buckets1 table1 rep1 where "rebuild_batch_rows s b rows buckets1 table1 = Inr (buckets', table', rep1)"
    and "\<And>l. map_of buckets1 l = (if l = ba_batch r then None else map_of buckets l)"
    and "distinct (map fst buckets) \<Longrightarrow> distinct (map fst buckets1)"
    and "\<And>k. batch_at (ba_key r) table = Some (ba_qty r) \<Longrightarrow>
      batch_at k table1 = (if k = ba_key r then map_of buckets (ba_batch r) else batch_at k table)"
proof (cases "map_of buckets (ba_batch r)")
  case None
  let ?table = "delete_where (\<lambda>x. ba_key x = ba_key r) table"
  obtain r1 where "rebuild_batch_rows s b rows buckets ?table = Inr (buckets', table', r1)"
    using assms None by auto
  then show thesis using None by (intro that [of buckets ?table r1]) (auto simp: batch_at_delete)
next
  case (Some q)
  let ?buckets = "AList.delete (ba_batch r) buckets"
  let ?table = "if ba_qty r = q then table else update_where (\<lambda>x. ba_key x = ba_key r) (\<lambda>x. x\<lparr>ba_qty := q\<rparr>) table"
  obtain r1 where "rebuild_batch_rows s b rows ?buckets ?table = Inr (buckets', table', r1)"
    using assms Some by (auto simp: Let_def split: if_splits)
  then show thesis using Some
    by (intro that [of ?buckets ?table r1]) (auto simp: batch_at_update delete_conv' distinct_delete)
qed

lemma rebuild_batch_rows_at:
  assumes "rebuild_batch_rows s b rows buckets table = Inr (buckets', table', rep)"
    and "distinct (map ba_batch rows)"
    and "\<And>r. r \<in> set rows \<Longrightarrow> ba_key r = (t, w, s, b, ba_batch r) \<and> batch_at (ba_key r) table = Some (ba_qty r)"
    and "distinct (map fst buckets)"
  shows "map_of buckets' l = (if l \<in> ba_batch ` set rows then None else map_of buckets l) \<and>
    batch_at k table' = (if k \<in> ba_key ` set rows then map_of buckets (snd (snd (snd (snd k)))) else batch_at k table) \<and>
    distinct (map fst buckets')"
  using assms
proof (induction rows arbitrary: buckets table rep)
  case Nil
  then show ?case by simp
next
  case (Cons r rows)
  obtain b1 t1 r1 where step: "rebuild_batch_rows s b rows b1 t1 = Inr (buckets', table', r1)"
    and B: "\<And>l. map_of b1 l = (if l = ba_batch r then None else map_of buckets l)" and D: "distinct (map fst b1)"
    and T: "\<And>k. batch_at k t1 = (if k = ba_key r then map_of buckets (ba_batch r) else batch_at k table)"
    using rebuild_batch_rows_step [OF Cons.prems(1)] Cons.prems(3) [of r] Cons.prems(4)
    by (metis list.set_intros(1))
  have key: "ba_key x = (t, w, s, b, ba_batch x)" if "x \<in> set (r # rows)" for x
    using Cons.prems(3) [OF that] by simp
  have other: "ba_key x \<noteq> ba_key r" if "x \<in> set rows" for x
    using Cons.prems(2) that key by (auto simp: image_iff)
  have IH: "map_of buckets' l = (if l \<in> ba_batch ` set rows then None else map_of b1 l) \<and>
    batch_at k table' = (if k \<in> ba_key ` set rows then map_of b1 (snd (snd (snd (snd k)))) else batch_at k t1) \<and>
    distinct (map fst buckets')"
  proof (rule Cons.IH [OF step])
    show "distinct (map ba_batch rows)" using Cons.prems(2) by simp
    show "ba_key x = (t, w, s, b, ba_batch x) \<and> batch_at (ba_key x) t1 = Some (ba_qty x)" if "x \<in> set rows" for x
      using that Cons.prems(3) [of x] other [OF that] T [of "ba_key x"] by (metis list.set_intros(2))
  qed (rule D)
  have "map_of b1 (snd (snd (snd (snd k)))) = map_of buckets (snd (snd (snd (snd k))))" if "k \<in> ba_key ` set rows"
    using that key Cons.prems(2) by (auto simp: B image_iff)
  moreover have "map_of buckets (ba_batch r) = map_of buckets (snd (snd (snd (snd (ba_key r)))))"
    using key [of r] by simp
  ultimately have "batch_at k table' =
      (if k \<in> ba_key ` set (r # rows) then map_of buckets (snd (snd (snd (snd k)))) else batch_at k table)"
    using IH T [of k] by (cases "k \<in> ba_key ` set rows"; cases "k = ba_key r") simp_all
  moreover have "map_of buckets' l = (if l \<in> ba_batch ` set (r # rows) then None else map_of buckets l)"
    using IH B [of l] by (cases "l \<in> ba_batch ` set rows"; cases "l = ba_batch r") simp_all
  ultimately show ?case using IH by blast
qed

lemma scope_buckets_at:
  assumes "distinct (map fst m)"
  shows "map_of (scope_buckets s b m) l = map_of m (batchReplayKey s b l)"
    and "distinct (map fst (scope_buckets s b m))"
proof -
  let ?p = "s @ '':'' @ b @ '':''"
  have key: "batchReplayKey s b l = ?p @ l" for l by (simp add: batchReplayKey_def)
  have "distinct (map fst m) \<Longrightarrow> map_of (fold (\<lambda>(k, q) m. AList.update (drop (length ?p) k) q m)
        (filter (\<lambda>(k, q). starts_with ?p k) m) []) l = map_of m (?p @ l)" for l
  proof (induction m rule: rev_induct)
    case Nil
    then show ?case by simp
  next
    case (snoc x m)
    obtain k q where x: "x = (k, q)" by (cases x)
    show ?case
    proof (cases "starts_with ?p k")
      case True
      then obtain l' where k: "k = ?p @ l'" by (metis append_take_drop_id starts_with_def)
      have "map_of m (?p @ l') = None" using snoc.prems x k by (auto simp: map_of_eq_None_iff)
      then show ?thesis using snoc x True k
        by (auto simp: update_conv' map_add_def split: option.splits)
    next
      case False
      then have "k \<noteq> ?p @ l" by (auto simp: starts_with_def)
      then show ?thesis using snoc x False by (auto simp: map_add_def split: option.splits)
    qed
  qed
  then show "map_of (scope_buckets s b m) l = map_of m (batchReplayKey s b l)"
    using assms by (simp add: scope_buckets_def key Let_def)
  have "distinct (map fst (fold (\<lambda>(k, q) m. AList.update (drop (length ?p) k) q m) xs m0))"
    if "distinct (map fst m0)" for xs m0 :: "(string \<times> int) list"
    using that by (induction xs arbitrary: m0) (auto simp: distinct_update)
  then show "distinct (map fst (scope_buckets s b m))" by (simp add: scope_buckets_def Let_def)
qed

lemma scope_rows:
  "r \<in> set (batches_in_scope db t w (Some s) (Some b)) \<longleftrightarrow>
     r \<in> set (db_batches db) \<and> ba_key r = (t, w, s, b, ba_batch r)"
  "distinct (map ba_key (db_batches db)) \<Longrightarrow> distinct (map ba_batch (batches_in_scope db t w (Some s) (Some b)))"
  "distinct (map ba_key (db_batches db)) \<Longrightarrow> r \<in> set (batches_in_scope db t w (Some s) (Some b)) \<Longrightarrow>
     ba_key r = (t, w, s, b, ba_batch r) \<and> batch_at (ba_key r) (db_batches db) = Some (ba_qty r)"
proof -
  show rows: "r \<in> set (batches_in_scope db t w (Some s) (Some b)) \<longleftrightarrow>
     r \<in> set (db_batches db) \<and> ba_key r = (t, w, s, b, ba_batch r)" for r
    by (auto simp: batches_in_scope_def ba_key_def)
  assume keys: "distinct (map ba_key (db_batches db))"
  then have "distinct (map ba_key (batches_in_scope db t w (Some s) (Some b)))"
    unfolding batches_in_scope_def by (rule distinct_map_filter)
  then show "distinct (map ba_batch (batches_in_scope db t w (Some s) (Some b)))"
    using rows by (fastforce simp: distinct_map inj_on_def)
  show "ba_key r = (t, w, s, b, ba_batch r) \<and> batch_at (ba_key r) (db_batches db) = Some (ba_qty r)"
    if "r \<in> set (batches_in_scope db t w (Some s) (Some b))"
    using that rows batch_at_unique [OF keys] by blast
qed

abbreviation batch_rows_of :: "uuid \<Rightarrow> uuid \<Rightarrow> uuid \<Rightarrow> uuid \<Rightarrow> (string \<times> int) list \<Rightarrow> batch_row list" where
  "batch_rows_of t w s b buckets \<equiv> map (\<lambda>(batch, q).
     \<lparr>ba_tenant = t, ba_wh = w, ba_sku = s, ba_bin = b, ba_batch = batch, ba_qty = q\<rparr>) buckets"

lemma insert_batch_rows_Inr:
  "insert_batch_rows t w s b buckets = Inr (rows, rep) \<Longrightarrow>
     rows = batch_rows_of t w s b buckets \<and> (\<forall>p \<in> set buckets. 0 \<le> snd p)"
  by (induction buckets arbitrary: rows rep) (fastforce simp: nonnegative_check_def)+

lemma rebuild_batch_arm_run:
  assumes "rebuildBatchArmInTx t w s b m db = Inr (db', rep)"
  obtains bk tb rep1 where
    "rebuild_batch_rows s b (batches_in_scope db t w (Some s) (Some b)) (scope_buckets s b m) (db_batches db) = Inr (bk, tb, rep1)"
    and "db' = db\<lparr>db_batches := tb @ batch_rows_of t w s b bk\<rparr>" and "\<forall>p \<in> set bk. 0 \<le> snd p"
  using assms by (auto simp: rebuildBatchArmInTx_def dest: insert_batch_rows_Inr)

lemma rebuild_batch_arm_at:
  assumes "distinct (map fst m)" and "distinct (map ba_key (db_batches db))"
    and arm: "rebuildBatchArmInTx t w s b m db = Inr (db', rep)"
  shows "batch_at k (db_batches db') =
      (if \<exists>l. k = (t, w, s, b, l) then map_of m (batchReplayKey s b (snd (snd (snd (snd k)))))
       else batch_at k (db_batches db))"
    and "db_stock db' = db_stock db"
    and "db_events db' = db_events db"
proof -
  let ?rows = "batches_in_scope db t w (Some s) (Some b)"
  obtain bk tb rep1 where run: "rebuild_batch_rows s b ?rows (scope_buckets s b m) (db_batches db) = Inr (bk, tb, rep1)"
    and res_db: "db' = db\<lparr>db_batches := tb @ batch_rows_of t w s b bk\<rparr>"
    by (rule rebuild_batch_arm_run [OF arm])
  let ?new = "batch_rows_of t w s b bk"
  have db': "db_batches db' = tb @ ?new" by (simp add: res_db)
  note rows = scope_rows(1) [of _ db t w s b] and d = scope_rows(2) [OF assms(2)] and at = scope_rows(3) [OF assms(2)]
  note res = rebuild_batch_rows_at [OF run d at scope_buckets_at(2) [OF assms(1)]]
  have new: "batch_at k ?new = (if \<exists>l. k = (t, w, s, b, l) then map_of bk (snd (snd (snd (snd k)))) else None)"
    by (induction bk) (auto simp: batch_at_def ba_key_def)
  show "batch_at k (db_batches db') =
      (if \<exists>l. k = (t, w, s, b, l) then map_of m (batchReplayKey s b (snd (snd (snd (snd k)))))
       else batch_at k (db_batches db))"
  proof (cases "\<exists>l. k = (t, w, s, b, l)")
    case True
    then obtain l where k: "k = (t, w, s, b, l)" by blast
    show ?thesis
    proof (cases "l \<in> ba_batch ` set ?rows")
      case True
      then have "k \<in> ba_key ` set ?rows" using at k by force
      then show ?thesis using res [where l = l and k = k] True
        by (simp add: db' batch_at_append new [unfolded k] k scope_buckets_at(1) [OF assms(1)] split: option.splits)
    next
      case False
      then have out: "k \<notin> ba_key ` set ?rows" using at k by force
      moreover have "batch_at k (db_batches db) = None"
      proof (rule ccontr)
        assume "batch_at k (db_batches db) \<noteq> None"
        then obtain r where "r \<in> set (db_batches db)" "ba_key r = k" using batch_at_unique [OF assms(2)] by blast
        then show False using out rows k by (force simp: ba_key_def)
      qed
      ultimately show ?thesis using res [where l = l and k = k] False
        by (simp add: db' batch_at_append new [unfolded k] k scope_buckets_at(1) [OF assms(1)])
    qed
  next
    case False
    then have "k \<notin> ba_key ` set ?rows" using at by force
    then show ?thesis using res [where l = undefined and k = k] False new by (auto simp: db' batch_at_append split: option.splits)
  qed
  show "db_stock db' = db_stock db" "db_events db' = db_events db" by (simp_all add: res_db)
qed

section \<open>Unique keys survive a rebuild\<close>

lemma rebuild_stock_scope_keys:
  assumes "distinct (map so_key (db_stock db))" and run: "rebuild_stock_scope t w m s b db = Inr (db', rep)"
  shows "distinct (map so_key (db_stock db'))"
proof -
  have put: "distinct (map so_key (put_stock k q (db_stock db)))" for k q
  proof (cases "stock_at k (db_stock db)")
    case None
    then have "k \<notin> so_key ` set (db_stock db)" by (simp add: stock_at_def find_None_map)
    then show ?thesis using assms(1) None by (cases k) (auto simp: put_stock_def so_key_def)
  next
    case (Some x)
    have "map so_key (update_where (\<lambda>r. so_key r = k) (\<lambda>r. r\<lparr>so_qty := q\<rparr>) (db_stock db)) = map so_key (db_stock db)"
      by (rule map_key_update_where) (simp add: so_key_def)
    with Some assms(1) show ?thesis by (simp add: put_stock_def)
  qed
  have "distinct (map so_key (delete_where P (db_stock db)))" for P
    unfolding delete_where_def by (rule distinct_map_filter [OF assms(1)])
  with put show ?thesis using assms by (auto simp: rebuild_stock_scope_def Let_def split: option.splits if_splits)
qed

lemma rebuild_batch_rows_keys:
  assumes "rebuild_batch_rows s b rows buckets table = Inr (buckets', table', rep)" and "distinct (map ba_key table)"
  shows "distinct (map ba_key table')"
  using assms
proof (induction rows arbitrary: buckets table rep)
  case Nil
  then show ?case by simp
next
  case (Cons r rows)
  have del: "distinct (map ba_key (delete_where P table))" for P
    unfolding delete_where_def by (rule distinct_map_filter [OF Cons.prems(2)])
  have "map ba_key (update_where (\<lambda>x. ba_key x = ba_key r) (\<lambda>x. x\<lparr>ba_qty := q\<rparr>) table) = map ba_key table" for q
    by (rule map_key_update_where) (simp add: ba_key_def)
  then show ?case
    using Cons.prems Cons.IH [OF _ del] Cons.IH [OF _ Cons.prems(2)] Cons.IH
    by (auto simp: Let_def split: option.splits prod.splits if_splits)
qed

lemma rebuild_batch_arm_keys:
  assumes "distinct (map fst m)" and keys: "distinct (map ba_key (db_batches db))"
    and arm: "rebuildBatchArmInTx t w s b m db = Inr (db', rep)"
  shows "distinct (map ba_key (db_batches db'))"
proof -
  let ?rows = "batches_in_scope db t w (Some s) (Some b)"
  obtain bk tb rep1 where run: "rebuild_batch_rows s b ?rows (scope_buckets s b m) (db_batches db) = Inr (bk, tb, rep1)"
    and db': "db' = db\<lparr>db_batches := tb @ batch_rows_of t w s b bk\<rparr>"
    by (rule rebuild_batch_arm_run [OF arm])
  let ?new = "batch_rows_of t w s b bk"
  note rows = scope_rows(1) [of _ db t w s b] and d = scope_rows(2) [OF keys] and at = scope_rows(3) [OF keys]
  note res = rebuild_batch_rows_at [OF run d at scope_buckets_at(2) [OF assms(1)]]
  have tb: "distinct (map ba_key tb)" by (rule rebuild_batch_rows_keys [OF run keys])
  have new_keys: "map ba_key ?new = map (\<lambda>l. (t, w, s, b, l)) (map fst bk)"
    by (induction bk) (auto simp: ba_key_def)
  have new: "distinct (map ba_key ?new)" unfolding new_keys
    using res by (subst distinct_map) (auto simp: inj_on_def)
  have apart: "ba_key r \<notin> ba_key ` set ?new" if r: "r \<in> set tb" for r
  proof
    assume "ba_key r \<in> ba_key ` set ?new"
    then have "ba_key r \<in> set (map ba_key ?new)" by (simp only: set_map)
    then obtain l where l: "ba_key r = (t, w, s, b, l)" "l \<in> fst ` set bk" unfolding new_keys by auto
    then have "map_of bk l \<noteq> None" by (simp add: map_of_eq_None_iff)
    then have out: "l \<notin> ba_batch ` set ?rows" using res [where l = l and k = "ba_key r"] by (auto split: if_splits)
    then have "ba_key r \<notin> ba_key ` set ?rows" using at l(1) by force
    then have "batch_at (ba_key r) tb = batch_at (ba_key r) (db_batches db)" using res [where l = l and k = "ba_key r"] by simp
    moreover have "batch_at (ba_key r) tb = Some (ba_qty r)" using batch_at_unique [OF tb] r by blast
    ultimately obtain r' where "r' \<in> set (db_batches db)" "ba_key r' = ba_key r"
      using batch_at_unique [OF keys, of "ba_key r" "ba_qty r"] by auto
    then have "r' \<in> set ?rows" "ba_batch r' = l" using rows l(1) by (auto simp: ba_key_def)
    then show False using out by blast
  qed
  from apart have "set (map ba_key tb) \<inter> set (map ba_key ?new) = {}" unfolding set_map by blast
  then have "distinct (map ba_key (tb @ ?new))" unfolding map_append distinct_append using tb new by blast
  then show ?thesis by (simp add: db')
qed

section \<open>All the scopes\<close>

definition unique_keys :: "ledger_db \<Rightarrow> bool" where
  "unique_keys db = (distinct (map so_key (db_stock db)) \<and> distinct (map ba_key (db_batches db)))"

lemma rebuild_scope_at:
  assumes "unique_keys (fst st)" and "distinct (map fst (lf_batch lf))"
    and run: "rebuild_scope t w lf st (s, b) = Inr st'"
  shows "unique_keys (fst st')" and "db_events (fst st') = db_events (fst st)"
    and "stock_at k (db_stock (fst st')) =
      (if k = (t, w, s, b) then map_of (lf_replayed lf) (replayKey s b) else stock_at k (db_stock (fst st)))"
    and "batch_at bk (db_batches (fst st')) =
      (if \<exists>l. bk = (t, w, s, b, l) then map_of (lf_batch lf) (batchReplayKey s b (snd (snd (snd (snd bk)))))
       else batch_at bk (db_batches (fst st)))"
proof -
  obtain one rep1 two rep2 where one: "rebuild_stock_scope t w (lf_replayed lf) s b (fst st) = Inr (one, rep1)"
    and two: "rebuildBatchArmInTx t w s b (lf_batch lf) one = Inr (two, rep2)" and eq: "fst st' = two"
    using run by (auto simp: rebuild_scope_def)
  have k1: "distinct (map so_key (db_stock one))" "distinct (map ba_key (db_batches one))"
    using assms(1) rebuild_stock_scope_keys [OF _ one] by (auto simp: unique_keys_def rebuild_stock_scope_at [OF one])
  note arm = rebuild_batch_arm_at [OF assms(2) k1(2) two]
  show "unique_keys (fst st')"
    using k1(1) rebuild_batch_arm_keys [OF assms(2) k1(2) two] by (simp add: unique_keys_def eq arm)
  show "db_events (fst st') = db_events (fst st)"
    by (simp add: eq arm rebuild_stock_scope_at [OF one])
  show "stock_at k (db_stock (fst st')) =
      (if k = (t, w, s, b) then map_of (lf_replayed lf) (replayKey s b) else stock_at k (db_stock (fst st)))"
    by (simp add: eq arm rebuild_stock_scope_at [OF one])
  show "batch_at bk (db_batches (fst st')) =
      (if \<exists>l. bk = (t, w, s, b, l) then map_of (lf_batch lf) (batchReplayKey s b (snd (snd (snd (snd bk)))))
       else batch_at bk (db_batches (fst st)))"
    by (simp add: eq arm rebuild_stock_scope_at [OF one])
qed

lemma rebuild_scopes_at:
  assumes "unique_keys (fst st)" and "distinct (map fst (lf_batch lf))"
    and "foldM (rebuild_scope t w lf) st scopes = Inr st'"
  shows "unique_keys (fst st') \<and> db_events (fst st') = db_events (fst st) \<and>
    stock_at k (db_stock (fst st')) = (if \<exists>(s, b) \<in> set scopes. k = (t, w, s, b)
       then map_of (lf_replayed lf) (stock_key_of k) else stock_at k (db_stock (fst st))) \<and>
    batch_at bk (db_batches (fst st')) = (if \<exists>(s, b) \<in> set scopes. \<exists>l. bk = (t, w, s, b, l)
       then map_of (lf_batch lf) (batch_key_of bk) else batch_at bk (db_batches (fst st)))"
  using assms(1,3)
proof (induction scopes arbitrary: st)
  case Nil
  then show ?case by simp
next
  case (Cons p scopes)
  obtain s b where p: "p = (s, b)" by (cases p)
  obtain st1 where st1: "rebuild_scope t w lf st (s, b) = Inr st1" "foldM (rebuild_scope t w lf) st1 scopes = Inr st'"
    using Cons.prems(2) by (auto simp: p)
  note one = rebuild_scope_at [OF Cons.prems(1) assms(2) st1(1)]
  show ?case using Cons.IH [OF one(1) st1(2)] one(2-4)
    by (auto simp: p stock_key_of_def batch_key_of_def)
qed

lemma bump_fold_frame:
  "db_events (fold (\<lambda>bin d. bumpBinEpochInTx d t w bin) bins db) = db_events db"
  "db_stock (fold (\<lambda>bin d. bumpBinEpochInTx d t w bin) bins db) = db_stock db"
  "db_batches (fold (\<lambda>bin d. bumpBinEpochInTx d t w bin) bins db) = db_batches db"
  by (induction bins arbitrary: db) simp_all

lemma rebuild_restores:
  assumes "rebuildProjectionsInTx db t w scopes = Inr (db', rep)" and "plain_ids db" and "unique_keys db"
    and "\<forall>(s, b) \<in> set scopes. colon_free s \<and> colon_free b"
  shows "unique_keys db' \<and> db_events db' = db_events db \<and>
    stock_at k (db_stock db') = (if \<exists>(s, b) \<in> set scopes. k = (t, w, s, b)
       then ledger_stock db k else stock_at k (db_stock db)) \<and>
    batch_at bk (db_batches db') = (if \<exists>(s, b) \<in> set scopes. \<exists>l. bk = (t, w, s, b, l)
       then ledger_batch db bk else batch_at bk (db_batches db))"
proof -
  obtain lf mid where fold: "foldLedgerInTx db t w whole_ledger = Inr lf"
    and run: "foldM (rebuild_scope t w lf) (db, []) scopes = Inr (mid, rep)"
    and db': "db' = fold (\<lambda>bin d. bumpBinEpochInTx d t w bin) (rev (remdups (rev (map rb_bin rep)))) mid"
    using assms(1) by (auto simp: rebuildProjectionsInTx_def)
  have fold': "foldLedgerInTx db t w (whole_ledger\<lparr>fo_sku := None\<rparr>) = Inr lf"
    using fold by (simp add: whole_ledger_def)
  have "unique_keys (fst (db, [] :: rebuilt_scope list))" using assms(3) by simp
  note res = rebuild_scopes_at [OF this foldLedger_Inr(4) [OF fold] run, of k bk]
  have stock: "map_of (lf_replayed lf) (stock_key_of k) = ledger_stock db k"
    if "\<exists>(s, b) \<in> set scopes. k = (t, w, s, b)"
    using that assms(4) fold_finds_stock [OF fold' assms(2)] by (fastforce simp: stock_key_of_def)
  have batch: "map_of (lf_batch lf) (batch_key_of bk) = ledger_batch db bk"
    if "\<exists>(s, b) \<in> set scopes. \<exists>l. bk = (t, w, s, b, l)"
    using that assms(4) fold_finds_batch [OF fold' assms(2)] by (fastforce simp: batch_key_of_def)
  show ?thesis using res stock batch by (simp add: db' bump_fold_frame unique_keys_def)
qed

section \<open>Repairing what a replay found\<close>

lemma compare_names:
  assumes rows: "distinct (map k rows)" "\<And>r. r \<in> set rows \<Longrightarrow> key r = f (k r) \<and> k r \<in> S"
    and inj: "inj_on f S" and m: "distinct (map fst m)"
    and found: "map_of m (f x) = ledger x" and x: "x \<in> S" "\<not> agrees (stored x) (ledger x)"
    and stored: "\<And>q. (stored x = Some q) = (\<exists>r \<in> set rows. k r = x \<and> qty r = q)"
  shows "\<exists>p q. key_divergence (f x) p q None \<in> set (compare_rows key qty rows m)"
proof -
  have map_key: "map key rows = map f (map k rows)" using rows(2) by simp
  have "distinct (map f (map k rows))"
    using rows inj by (subst distinct_map) (auto intro: inj_on_subset)
  then have dist: "distinct (map key rows)" by (simp add: map_key)
  show ?thesis
  proof (cases "stored x")
    case (Some q)
    then obtain r where r: "r \<in> set rows" "k r = x" "qty r = q" using stored by blast
    then have "quantity_or_0 (map_of m (key r)) \<noteq> qty r"
      using rows(2) found x(2) Some by (auto simp: agrees_def split: option.splits)
    then show ?thesis using compare_rows_scopes(1) [OF dist r(1), of m qty] rows(2) r by metis
  next
    case None
    then obtain q where q: "map_of m (f x) = Some q"
      using x(2) found by (auto simp: agrees_def split: option.splits)
    have "f x \<notin> key ` set rows"
    proof
      assume "f x \<in> key ` set rows"
      then obtain r where "r \<in> set rows" "k r = x" using rows(2) inj x(1) by (auto dest: inj_onD)
      then show False using stored None by auto
    qed
    then show ?thesis using compare_rows_scopes(2) [OF dist m q] by blast
  qed
qed
end
