(* ===== verification/LedgerHeal.thy ===== *)
theory LedgerHeal
  imports LedgerRebuild
begin

text \<open>
  A replay of a warehouse is empty exactly when both projections agree with the events, every scope
  that disagrees is named in it, and rebuilding the named scopes makes the next replay empty.
\<close>

lemma replay_exact:
  assumes "replayInTx db t w sku None = Inr r" and "plain_ids db" and "unique_keys db"
  shows "rr_matches r =
    ((\<forall>s b. scope_ok sku s \<longrightarrow> agrees (stock_at (t, w, s, b) (db_stock db)) (ledger_stock db (t, w, s, b))) \<and>
     (\<forall>s b l. scope_ok sku s \<and> colon_free b \<longrightarrow>
       agrees (batch_at (t, w, s, b, l) (db_batches db)) (ledger_batch db (t, w, s, b, l))))"
proof -
  have same: "whole_ledger\<lparr>fo_sku := sku, fo_bin := None\<rparr> = whole_ledger\<lparr>fo_sku := sku\<rparr>"
    by (simp add: whole_ledger_def)
  obtain lf where fold: "foldLedgerInTx db t w (whole_ledger\<lparr>fo_sku := sku\<rparr>) = Inr lf"
    and r: "r = report_of w (lf_count lf)
       (compare_rows stock_replay_key so_qty (stock_in_scope db t w sku None) (lf_replayed lf) @
        compare_rows batch_replay_key ba_qty (batches_in_scope db t w sku None) (lf_batch lf))"
    using assms(1) unfolding replayInTx_def same by auto
  show ?thesis
    using stock_side_exact [OF fold assms(2)] batch_side_exact [OF fold assms(2)] assms(3)
    by (simp add: r report_of_def unique_keys_def)
qed

lemma divergence_ids:
  assumes "colon_free s" and "colon_free b"
  shows "dv_sku (key_divergence (replayKey s b) p q x) = s \<and> dv_bin (key_divergence (replayKey s b) p q x) = b"
    and "dv_sku (key_divergence (batchReplayKey s b l) p q x) = s \<and> dv_bin (key_divergence (batchReplayKey s b l) p q x) = b"
  using assms
  by (simp_all add: key_divergence_def replayKey_def batchReplayKey_def colon_free_def split_on_append
      split_on_no_sep Let_def)

lemma replay_names_stock:
  assumes fold: "foldLedgerInTx db t w whole_ledger = Inr lf" and plain: "plain_ids db" and keys: "unique_keys db"
    and s: "colon_free s" and differs: "\<not> agrees (stock_at (t, w, s, b) (db_stock db)) (ledger_stock db (t, w, s, b))"
  shows "\<exists>p q. key_divergence (replayKey s b) p q None \<in>
    set (compare_rows stock_replay_key so_qty (stock_in_scope db t w None None) (lf_replayed lf))"
proof -
  have fold': "foldLedgerInTx db t w (whole_ledger\<lparr>fo_sku := None\<rparr>) = Inr lf"
    using fold by (simp add: whole_ledger_def)
  let ?S = "{(t, w, s, b) | s b. colon_free s}"
  have "\<exists>p q. key_divergence (stock_key_of (t, w, s, b)) p q None \<in>
    set (compare_rows stock_replay_key so_qty (stock_in_scope db t w None None) (lf_replayed lf))"
  proof (rule compare_names [where k = so_key and S = ?S])
    show "distinct (map so_key (stock_in_scope db t w None None))"
      unfolding stock_in_scope_def using keys by (simp add: unique_keys_def distinct_map_filter)
    show "stock_replay_key r = stock_key_of (so_key r) \<and> so_key r \<in> ?S" if "r \<in> set (stock_in_scope db t w None None)" for r
      using that plain by (auto simp: stock_in_scope_def stock_replay_key_def stock_key_of_def so_key_def plain_ids_def)
    show "inj_on stock_key_of ?S" by (rule inj_onI) (auto simp: stock_key_of_def replayKey_inject)
    show "distinct (map fst (lf_replayed lf))" by (rule foldLedger_Inr(3) [OF fold])
    show "map_of (lf_replayed lf) (stock_key_of (t, w, s, b)) = ledger_stock db (t, w, s, b)"
      using fold_finds_stock [OF fold' plain s] by (simp add: stock_key_of_def)
    show "(t, w, s, b) \<in> ?S" using s by blast
    show "(stock_at (t, w, s, b) (db_stock db) = Some q) =
        (\<exists>r \<in> set (stock_in_scope db t w None None). so_key r = (t, w, s, b) \<and> so_qty r = q)" for q
      using stock_at_unique [of "db_stock db" "(t, w, s, b)" q] keys
      by (auto simp: stock_in_scope_def so_key_def unique_keys_def)
  qed (rule differs)
  then show ?thesis by (simp add: stock_key_of_def)
qed

lemma replay_names_batch:
  assumes fold: "foldLedgerInTx db t w whole_ledger = Inr lf" and plain: "plain_ids db" and keys: "unique_keys db"
    and s: "colon_free s" "colon_free b"
    and differs: "\<not> agrees (batch_at (t, w, s, b, l) (db_batches db)) (ledger_batch db (t, w, s, b, l))"
  shows "\<exists>p q. key_divergence (batchReplayKey s b l) p q None \<in>
    set (compare_rows batch_replay_key ba_qty (batches_in_scope db t w None None) (lf_batch lf))"
proof -
  have fold': "foldLedgerInTx db t w (whole_ledger\<lparr>fo_sku := None\<rparr>) = Inr lf"
    using fold by (simp add: whole_ledger_def)
  let ?S = "{(t, w, s, b, l) | s b l. colon_free s \<and> colon_free b}"
  have "\<exists>p q. key_divergence (batch_key_of (t, w, s, b, l)) p q None \<in>
    set (compare_rows batch_replay_key ba_qty (batches_in_scope db t w None None) (lf_batch lf))"
  proof (rule compare_names [where k = ba_key and S = ?S])
    show "distinct (map ba_key (batches_in_scope db t w None None))"
      unfolding batches_in_scope_def using keys by (simp add: unique_keys_def distinct_map_filter)
    show "batch_replay_key r = batch_key_of (ba_key r) \<and> ba_key r \<in> ?S" if "r \<in> set (batches_in_scope db t w None None)" for r
      using that plain by (auto simp: batches_in_scope_def batch_replay_key_def batch_key_of_def ba_key_def plain_ids_def)
    show "inj_on batch_key_of ?S" by (rule inj_onI) (auto simp: batch_key_of_def batchReplayKey_inject)
    show "distinct (map fst (lf_batch lf))" by (rule foldLedger_Inr(4) [OF fold])
    show "map_of (lf_batch lf) (batch_key_of (t, w, s, b, l)) = ledger_batch db (t, w, s, b, l)"
      using fold_finds_batch [OF fold' plain s] by (simp add: batch_key_of_def)
    show "(t, w, s, b, l) \<in> ?S" using s by blast
    show "(batch_at (t, w, s, b, l) (db_batches db) = Some q) =
        (\<exists>r \<in> set (batches_in_scope db t w None None). ba_key r = (t, w, s, b, l) \<and> ba_qty r = q)" for q
      using batch_at_unique [of "db_batches db" "(t, w, s, b, l)" q] keys
      by (auto simp: batches_in_scope_def ba_key_def unique_keys_def)
  qed (rule differs)
  then show ?thesis by (simp add: batch_key_of_def)
qed

lemma rebuild_plain_ids:
  assumes "rebuildProjectionsInTx db t w scopes = Inr (db', rep)" and "plain_ids db" and "unique_keys db"
    and "\<forall>(s, b) \<in> set scopes. colon_free s \<and> colon_free b"
  shows "plain_ids db'"
proof -
  note res = rebuild_restores [OF assms]
  have keys: "distinct (map so_key (db_stock db'))" "distinct (map ba_key (db_batches db'))"
    "distinct (map so_key (db_stock db))" "distinct (map ba_key (db_batches db))"
    using res assms(3) by (simp_all add: unique_keys_def)
  have "colon_free (so_sku r) \<and> colon_free (so_bin r)" if r: "r \<in> set (db_stock db')" for r
  proof (cases "\<exists>(s, b) \<in> set scopes. so_key r = (t, w, s, b)")
    case True
    then show ?thesis using assms(4) by (auto simp: so_key_def)
  next
    case False
    have "stock_at (so_key r) (db_stock db') = Some (so_qty r)" using stock_at_unique [OF keys(1)] r by blast
    then have "stock_at (so_key r) (db_stock db) = Some (so_qty r)" using res [of "so_key r"] False by simp
    then obtain r' where "r' \<in> set (db_stock db)" "so_key r' = so_key r" using stock_at_unique [OF keys(3)] by blast
    then show ?thesis using assms(2) by (auto simp: plain_ids_def so_key_def)
  qed
  moreover have "colon_free (ba_sku r) \<and> colon_free (ba_bin r)" if r: "r \<in> set (db_batches db')" for r
  proof (cases "\<exists>(s, b) \<in> set scopes. \<exists>l. ba_key r = (t, w, s, b, l)")
    case True
    then show ?thesis using assms(4) by (auto simp: ba_key_def)
  next
    case False
    have "batch_at (ba_key r) (db_batches db') = Some (ba_qty r)" using batch_at_unique [OF keys(2)] r by blast
    then have "batch_at (ba_key r) (db_batches db) = Some (ba_qty r)" using res [of _ "ba_key r"] False by simp
    then obtain r' where "r' \<in> set (db_batches db)" "ba_key r' = ba_key r" using batch_at_unique [OF keys(4)] by blast
    then show ?thesis using assms(2) by (auto simp: plain_ids_def ba_key_def)
  qed
  ultimately show ?thesis using assms(2) res by (simp add: plain_ids_def)
qed

lemma agrees_self: "agrees q q"
  by (simp add: agrees_def split: option.split)

lemma fold_absent_stock:
  assumes "plain_ids db" and "unique_keys db"
    and "\<not> agrees (stock_at (t, w, s, b) (db_stock db)) (ledger_stock db (t, w, s, b))"
  shows "colon_free b"
proof (cases "ledger_stock db (t, w, s, b)")
  case None
  then have "stock_at (t, w, s, b) (db_stock db) \<noteq> None" using assms(3) by (auto simp: agrees_def)
  then obtain r where "r \<in> set (db_stock db)" "so_key r = (t, w, s, b)"
    using stock_at_unique [of "db_stock db"] assms(2) by (auto simp: unique_keys_def)
  then show ?thesis using assms(1) by (auto simp: plain_ids_def so_key_def)
next
  case (Some q)
  then obtain e p where "e \<in> set (db_events db)" "p \<in> set (stock_posts e)" "fst p = (t, w, s, b)"
    by (auto simp: ledger_stock_def posted_def split: if_splits)
  moreover from this have "ev_to e = Some b \<or> ev_from e = Some b"
    by (auto simp: stock_posts_def arm_posts_def split: option.splits)
  ultimately show ?thesis using assms(1) by (auto simp: plain_ids_def)
qed

lemma rebuild_heals:
  assumes "replayInTx db t w None None = Inr r" and "plain_ids db" and "unique_keys db"
    and "\<forall>d \<in> set (rr_divergences r). (dv_sku d, dv_bin d) \<in> set scopes"
    and "\<forall>(s, b) \<in> set scopes. colon_free s \<and> colon_free b"
    and "rebuildProjectionsInTx db t w scopes = Inr (db', rep)"
    and "replayInTx db' t w None None = Inr r'"
  shows "rr_matches r'"
proof -
  note res = rebuild_restores [OF assms(6,2,3,5)]
  have events: "db_events db' = db_events db" and keys': "unique_keys db'" using res by simp_all
  have plain': "plain_ids db'" by (rule rebuild_plain_ids [OF assms(6,2,3,5)])
  have same: "ledger_stock db' = ledger_stock db" "ledger_batch db' = ledger_batch db"
    by (simp_all add: ledger_stock_def ledger_batch_def events fun_eq_iff)
  have whole: "whole_ledger\<lparr>fo_sku := None, fo_bin := None\<rparr> = whole_ledger" by (simp add: whole_ledger_def)
  obtain lf where fold: "foldLedgerInTx db t w whole_ledger = Inr lf"
    and r: "rr_divergences r = compare_rows stock_replay_key so_qty (stock_in_scope db t w None None) (lf_replayed lf) @
        compare_rows batch_replay_key ba_qty (batches_in_scope db t w None None) (lf_batch lf)"
    using assms(1) unfolding replayInTx_def whole by (auto simp: report_of_def)
  have stock: "agrees (stock_at (t, w, s, b) (db_stock db')) (ledger_stock db (t, w, s, b))" if s: "colon_free s" for s b
  proof (cases "(s, b) \<in> set scopes")
    case True
    then show ?thesis using res [of "(t, w, s, b)"] by (auto simp: agrees_self)
  next
    case False
    have "agrees (stock_at (t, w, s, b) (db_stock db)) (ledger_stock db (t, w, s, b))"
    proof (rule ccontr)
      assume d: "\<not> agrees (stock_at (t, w, s, b) (db_stock db)) (ledger_stock db (t, w, s, b))"
      have b: "colon_free b"
        using fold_absent_stock [OF assms(2,3) d] .
      obtain p q where "key_divergence (replayKey s b) p q None \<in> set (rr_divergences r)"
        using replay_names_stock [OF fold assms(2,3) s d] r by auto
      then show False using assms(4) divergence_ids(1) [OF s b] False by fastforce
    qed
    then show ?thesis using res [of "(t, w, s, b)"] False by auto
  qed
  have batch: "agrees (batch_at (t, w, s, b, l) (db_batches db')) (ledger_batch db (t, w, s, b, l))"
    if s: "colon_free s" "colon_free b" for s b l
  proof (cases "(s, b) \<in> set scopes")
    case True
    then show ?thesis using res [of _ "(t, w, s, b, l)"] by (auto simp: agrees_self)
  next
    case False
    have "agrees (batch_at (t, w, s, b, l) (db_batches db)) (ledger_batch db (t, w, s, b, l))"
    proof (rule ccontr)
      assume d: "\<not> agrees (batch_at (t, w, s, b, l) (db_batches db)) (ledger_batch db (t, w, s, b, l))"
      obtain p q where "key_divergence (batchReplayKey s b l) p q None \<in> set (rr_divergences r)"
        using replay_names_batch [OF fold assms(2,3) s d] r by auto
      then show False using assms(4) divergence_ids(2) [OF s] False by fastforce
    qed
    then show ?thesis using res [of _ "(t, w, s, b, l)"] False by auto
  qed
  show ?thesis
    unfolding replay_exact [OF assms(7) plain' keys'] same using stock batch by (simp add: scope_ok_def)
qed

section \<open>When a rebuild cannot be written\<close>

text \<open>
  A scope whose events sum below zero (a draw against units no event brought in) cannot be stored: the
  tables' checks refuse the row and the rebuild fails as a whole.
\<close>

definition folds_negative :: "ledger_db \<Rightarrow> uuid \<Rightarrow> uuid \<Rightarrow> uuid \<Rightarrow> uuid \<Rightarrow> bool" where
  "folds_negative db t w s b =
     ((\<exists>q < 0. ledger_stock db (t, w, s, b) = Some q) \<or> (\<exists>l. \<exists>q < 0. ledger_batch db (t, w, s, b, l) = Some q))"

definition stored_nonnegative :: "ledger_db \<Rightarrow> bool" where
  "stored_nonnegative db = ((\<forall>r \<in> set (db_stock db). 0 \<le> so_qty r) \<and> (\<forall>r \<in> set (db_batches db). 0 \<le> ba_qty r))"

lemma nonnegative_check_Inl [simp]: "(nonnegative_check q = Inl e) = (q < 0 \<and> e = below_zero)"
  by (auto simp: nonnegative_check_def)

lemma nonnegative_check_Inr [simp]: "(nonnegative_check q = Inr u) = (0 \<le> q)"
  by (simp add: nonnegative_check_def)

lemma and_then_Inl: "(and_then x k = Inl e) = (x = Inl e \<or> (\<exists>v. x = Inr v \<and> k v = Inl e))"
  by (cases x) auto

lemma rebuild_batch_rows_Inl:
  "rebuild_batch_rows s b rows buckets table = Inl e \<Longrightarrow>
     e = below_zero \<and> (\<exists>l q. map_of buckets l = Some q \<and> q < 0)"
proof (induction rows arbitrary: buckets table)
  case Nil
  then show ?case by simp
next
  case (Cons r rows)
  show ?case
  proof (cases "map_of buckets (ba_batch r)")
    case None
    then show ?thesis using Cons by (auto simp: and_then_Inl)
  next
    case (Some q)
    have "\<exists>l q. map_of buckets l = Some q \<and> q < 0"
      if "\<exists>l q. map_of (AList.delete (ba_batch r) buckets) l = Some q \<and> q < 0"
      using that by (auto simp: delete_conv' split: if_splits)
    then show ?thesis using Cons Some by (auto simp: and_then_Inl Let_def split: if_splits)
  qed
qed

lemma rebuild_batch_rows_subset:
  "rebuild_batch_rows s b rows buckets table = Inr (bk, table', rep) \<Longrightarrow> set bk \<subseteq> set buckets"
proof (induction rows arbitrary: buckets table rep)
  case Nil
  then show ?case by simp
next
  case (Cons r rows)
  have del: "set (AList.delete l buckets) \<subseteq> set buckets" for l by (simp add: AList.delete_eq)
  show ?case
    using Cons.prems del Cons.IH
    by (auto simp: Let_def split: option.splits if_splits) (meson subsetD)+
qed

lemma insert_batch_rows_Inl:
  "insert_batch_rows t w s b buckets = Inl e \<Longrightarrow> e = below_zero \<and> (\<exists>(l, q) \<in> set buckets. q < 0)"
  by (induction buckets) (auto simp: and_then_Inl)

lemma rebuild_scope_Inl:
  assumes "rebuild_scope t w lf st (s, b) = Inl e" and "distinct (map fst (lf_batch lf))"
  shows "e = below_zero \<and> ((\<exists>q < 0. map_of (lf_replayed lf) (replayKey s b) = Some q) \<or>
    (\<exists>l. \<exists>q < 0. map_of (lf_batch lf) (batchReplayKey s b l) = Some q))"
proof (cases "rebuild_stock_scope t w (lf_replayed lf) s b (fst st)")
  case (Inl e')
  then have "e' = e" using assms(1) by (simp add: rebuild_scope_def)
  with Inl show ?thesis by (auto simp: rebuild_stock_scope_def Let_def and_then_Inl split: option.splits if_splits)
next
  case (Inr one)
  note buckets = scope_buckets_at [OF assms(2), of s b]
  have "rebuildBatchArmInTx t w s b (lf_batch lf) (fst one) = Inl e"
    using assms(1) Inr by (auto simp: rebuild_scope_def and_then_Inl split_beta)
  then consider (rows) "rebuild_batch_rows s b (batches_in_scope (fst one) t w (Some s) (Some b))
        (scope_buckets s b (lf_batch lf)) (db_batches (fst one)) = Inl e"
    | (insert) bk tb rep where "rebuild_batch_rows s b (batches_in_scope (fst one) t w (Some s) (Some b))
        (scope_buckets s b (lf_batch lf)) (db_batches (fst one)) = Inr (bk, tb, rep)"
        "insert_batch_rows t w s b bk = Inl e"
    by (auto simp: rebuildBatchArmInTx_def and_then_Inl)
  then show ?thesis
  proof cases
    case rows
    then show ?thesis using rebuild_batch_rows_Inl [OF rows] by (auto simp: buckets(1))
  next
    case insert
    obtain l q where lq: "e = below_zero" "(l, q) \<in> set bk" "q < 0"
      using insert_batch_rows_Inl [OF insert(2)] by blast
    then have "(l, q) \<in> set (scope_buckets s b (lf_batch lf))" using rebuild_batch_rows_subset [OF insert(1)] by blast
    then have "map_of (lf_batch lf) (batchReplayKey s b l) = Some q"
      using buckets by (metis map_of_eq_Some_iff)
    then show ?thesis using lq by blast
  qed
qed

lemma rebuild_scopes_Inl:
  assumes "foldM (rebuild_scope t w lf) st scopes = Inl e" and "distinct (map fst (lf_batch lf))"
  shows "e = below_zero \<and> (\<exists>(s, b) \<in> set scopes. (\<exists>q < 0. map_of (lf_replayed lf) (replayKey s b) = Some q) \<or>
    (\<exists>l. \<exists>q < 0. map_of (lf_batch lf) (batchReplayKey s b l) = Some q))"
  using assms(1)
proof (induction scopes arbitrary: st)
  case Nil
  then show ?case by simp
next
  case (Cons p scopes)
  obtain s b where p: "p = (s, b)" by (cases p)
  from Cons.prems consider "rebuild_scope t w lf st (s, b) = Inl e"
    | st' where "foldM (rebuild_scope t w lf) st' scopes = Inl e"
    by (auto simp: p and_then_Inl)
  then show ?case
  proof cases
    case 1
    show ?thesis using rebuild_scope_Inl [OF 1 assms(2)] by (auto simp: p)
  next
    case 2
    show ?thesis using Cons.IH [OF 2] by auto
  qed
qed

lemma rebuild_refused:
  assumes "rebuildProjectionsInTx db t w scopes = Inl e" and "foldLedgerInTx db t w whole_ledger = Inr lf"
    and "plain_ids db" and "\<forall>(s, b) \<in> set scopes. colon_free s \<and> colon_free b"
  shows "e = below_zero \<and> (\<exists>(s, b) \<in> set scopes. folds_negative db t w s b)"
proof -
  have fold': "foldLedgerInTx db t w (whole_ledger\<lparr>fo_sku := None\<rparr>) = Inr lf"
    using assms(2) by (simp add: whole_ledger_def)
  have "foldM (rebuild_scope t w lf) (db, []) scopes = Inl e"
    using assms(1,2) by (auto simp: rebuildProjectionsInTx_def and_then_Inl)
  from rebuild_scopes_Inl [OF this foldLedger_Inr(4) [OF assms(2)]] obtain s b where e: "e = below_zero"
    and sb: "(s, b) \<in> set scopes" and neg: "(\<exists>q < 0. map_of (lf_replayed lf) (replayKey s b) = Some q) \<or>
      (\<exists>l. \<exists>q < 0. map_of (lf_batch lf) (batchReplayKey s b l) = Some q)" by blast
  have free: "colon_free s" "colon_free b" using sb assms(4) by auto
  have "folds_negative db t w s b"
    using neg fold_finds_stock [OF fold' assms(3) free(1)] fold_finds_batch [OF fold' assms(3) free]
    by (auto simp: folds_negative_def)
  then show ?thesis using e sb by blast
qed

lemma rebuild_stock_scope_nonneg:
  assumes "rebuild_stock_scope t w m s b db = Inr (db', rep)" and "\<forall>r \<in> set (db_stock db). 0 \<le> so_qty r"
  shows "\<forall>r \<in> set (db_stock db'). 0 \<le> so_qty r"
proof -
  have "\<forall>r \<in> set (put_stock k q (db_stock db)). 0 \<le> so_qty r" if "0 \<le> q" for k q
    using that assms(2) by (cases k) (auto simp: put_stock_def set_update_where)
  then show ?thesis
    using assms by (auto simp: rebuild_stock_scope_def Let_def split: option.splits if_splits)
qed

lemma rebuild_batch_rows_nonneg:
  "rebuild_batch_rows s b rows buckets table = Inr (bk, table', rep) \<Longrightarrow> \<forall>r \<in> set table. 0 \<le> ba_qty r
     \<Longrightarrow> \<forall>r \<in> set table'. 0 \<le> ba_qty r"
proof (induction rows arbitrary: buckets table rep)
  case Nil
  then show ?case by simp
next
  case (Cons r rows)
  show ?case
  proof (cases "map_of buckets (ba_batch r)")
    case None
    then obtain rep1 where "rebuild_batch_rows s b rows buckets (delete_where (\<lambda>x. ba_key x = ba_key r) table) = Inr (bk, table', rep1)"
      using Cons.prems(1) by auto
    then show ?thesis by (rule Cons.IH) (use Cons.prems(2) in simp)
  next
    case (Some q)
    let ?table = "if ba_qty r = q then table else update_where (\<lambda>x. ba_key x = ba_key r) (\<lambda>x. x\<lparr>ba_qty := q\<rparr>) table"
    obtain rep1 where run: "rebuild_batch_rows s b rows (AList.delete (ba_batch r) buckets) ?table = Inr (bk, table', rep1)"
      and "ba_qty r \<noteq> q \<longrightarrow> 0 \<le> q"
      using Cons.prems(1) Some by (auto simp: Let_def split: if_splits)
    then have "\<forall>r \<in> set ?table. 0 \<le> ba_qty r" using Cons.prems(2) by (auto simp: set_update_where)
    with run show ?thesis by (rule Cons.IH)
  qed
qed

lemma rebuild_scope_nonneg:
  assumes "rebuild_scope t w lf st (s, b) = Inr st'" and "stored_nonnegative (fst st)"
  shows "stored_nonnegative (fst st')"
proof -
  obtain one rep1 two rep2 where one: "rebuild_stock_scope t w (lf_replayed lf) s b (fst st) = Inr (one, rep1)"
    and two: "rebuildBatchArmInTx t w s b (lf_batch lf) one = Inr (two, rep2)" and eq: "fst st' = two"
    using assms(1) by (auto simp: rebuild_scope_def)
  have ok: "\<forall>r \<in> set (db_stock one). 0 \<le> so_qty r" "\<forall>r \<in> set (db_batches one). 0 \<le> ba_qty r"
    using rebuild_stock_scope_nonneg [OF one] rebuild_stock_scope_at(2) [OF one] assms(2)
    by (simp_all add: stored_nonnegative_def)
  obtain bk tb rep3 where run: "rebuild_batch_rows s b (batches_in_scope one t w (Some s) (Some b))
        (scope_buckets s b (lf_batch lf)) (db_batches one) = Inr (bk, tb, rep3)"
    and two': "two = one\<lparr>db_batches := tb @ batch_rows_of t w s b bk\<rparr>" and bk: "\<forall>p \<in> set bk. 0 \<le> snd p"
    by (rule rebuild_batch_arm_run [OF two])
  show ?thesis
    using ok(1) rebuild_batch_rows_nonneg [OF run ok(2)] bk by (auto simp: eq two' stored_nonnegative_def)
qed

lemma stored_nonnegative_at:
  assumes "stored_nonnegative db" and "unique_keys db"
  shows "stock_at k (db_stock db) = Some q \<Longrightarrow> 0 \<le> q" and "batch_at bk (db_batches db) = Some q \<Longrightarrow> 0 \<le> q"
  using assms stock_at_unique [of "db_stock db" k q] batch_at_unique [of "db_batches db" bk q]
  by (auto simp: stored_nonnegative_def unique_keys_def)

lemma rebuild_written:
  assumes "rebuildProjectionsInTx db t w scopes = Inr (db', rep)" and "plain_ids db" and "unique_keys db"
    and "\<forall>(s, b) \<in> set scopes. colon_free s \<and> colon_free b" and "stored_nonnegative db" and sb: "(s, b) \<in> set scopes"
  shows "\<not> folds_negative db t w s b"
proof -
  obtain lf mid where run: "foldM (rebuild_scope t w lf) (db, []) scopes = Inr (mid, rep)"
    and db': "db' = fold (\<lambda>bin d. bumpBinEpochInTx d t w bin) (rev (remdups (rev (map rb_bin rep)))) mid"
    using assms(1) by (auto simp: rebuildProjectionsInTx_def)
  have "stored_nonnegative (fst (mid, rep))"
    by (rule foldM_invariant [OF run]) (use assms(5) rebuild_scope_nonneg in auto)
  then have nn: "stored_nonnegative db'" by (simp add: stored_nonnegative_def db' bump_fold_frame)
  note res = rebuild_restores [OF assms(1-4)]
  have keys: "unique_keys db'" using res by blast
  have "stock_at (t, w, s, b) (db_stock db') = ledger_stock db (t, w, s, b)"
    using res [of "(t, w, s, b)"] sb by auto
  moreover have "batch_at (t, w, s, b, l) (db_batches db') = ledger_batch db (t, w, s, b, l)" for l
    using res [of _ "(t, w, s, b, l)"] sb by auto
  ultimately show ?thesis
    using stored_nonnegative_at [OF nn keys] unfolding folds_negative_def by (metis not_less)
qed

end
