(* ===== verification/LedgerReplayProperties.thy ===== *)
theory LedgerReplayProperties
  imports LedgerHeal
begin

text \<open>
  The properties of the replay, the bounded scan and the rebuild, with a drifted table to evaluate on.
\<close>

text \<open>
  C22. The replay of a warehouse, or of one of its SKUs, without a bin filter is an exact oracle: over any
  tables with unique keys, whatever was written to them, it matches if and only if every stock row and
  every batch row of the warehouse (or of that SKU) holds what the events post to it, a row without
  events counting only when it is 0 or absent. A replay of one bin is not (C29).
\<close>

theorem replay_is_exact:
  assumes "replayInTx db t w sku None = Inr r" and "plain_ids db" and "unique_keys db"
  shows "rr_matches r =
    ((\<forall>s b. scope_ok sku s \<longrightarrow> agrees (stock_at (t, w, s, b) (db_stock db)) (ledger_stock db (t, w, s, b))) \<and>
     (\<forall>s b l. scope_ok sku s \<and> colon_free b \<longrightarrow>
       agrees (batch_at (t, w, s, b, l) (db_batches db)) (ledger_batch db (t, w, s, b, l))))"
  by (rule replay_exact [OF assms])

definition sample_drift :: ledger_db where
  "sample_drift = sample_db2\<lparr>db_stock := [\<lparr>so_tenant = ''t'', so_wh = ''w'', so_sku = ''s'', so_bin = ''d'', so_qty = 7\<rparr>]\<rparr>"

lemma sample_drift_ids: "plain_ids sample_drift \<and> unique_keys sample_drift"
  by code_simp

definition sample_report :: "replay_report" where
  "sample_report = (case replayInTx sample_drift ''t'' ''w'' None None of Inl _ \<Rightarrow> report_of ''w'' 0 [] | Inr r \<Rightarrow> r)"

lemma sample_drift_replay: "replayInTx sample_drift ''t'' ''w'' None None = Inr sample_report"
  by code_simp

theorem replay_is_exact_witness:
  "rr_matches sample_report =
    ((\<forall>s b. scope_ok None s \<longrightarrow> agrees (stock_at (''t'', ''w'', s, b) (db_stock sample_drift)) (ledger_stock sample_drift (''t'', ''w'', s, b))) \<and>
     (\<forall>s b l. scope_ok None s \<and> colon_free b \<longrightarrow>
       agrees (batch_at (''t'', ''w'', s, b, l) (db_batches sample_drift)) (ledger_batch sample_drift (''t'', ''w'', s, b, l)))) \<and>
   \<not> rr_matches sample_report"
proof -
  have "\<not> rr_matches sample_report" by code_simp
  then show ?thesis
    using replay_is_exact [OF sample_drift_replay] sample_drift_ids by blast
qed

text \<open>
  A replay never cries wolf and always answers: in every history of appends whose warehouse moved
  at most half the exact range of a double in total, replaying the warehouse (or one SKU of it) returns
  a report, and the report matches.
\<close>

theorem replay_clean_history:
  assumes "ledger_history sha db" and "plain_ids db"
    and "2 * traffic (wh_events db t w) \<le> MAX_SAFE_INTEGER"
  shows "\<exists>r. replayInTx db t w sku None = Inr r \<and> rr_matches r"
proof -
  obtain lf where "foldLedgerInTx db t w (whole_ledger\<lparr>fo_sku := sku, fo_bin := None\<rparr>) = Inr lf"
    using fold_succeeds [OF assms(3)] by blast
  then obtain r where r: "replayInTx db t w sku None = Inr r" by (simp add: replayInTx_def)
  have keys: "unique_keys db" using history_keys [OF assms(1)] by (simp add: unique_keys_def)
  have "stock_at k (db_stock db) = ledger_stock db k" "batch_at bk (db_batches db) = ledger_batch db bk" for k bk
    using history_projections [OF assms(1)]
    by (simp_all add: projections_agree_def stock.projects_lookup batch.projects_lookup ledger_stock_def ledger_batch_def)
  then have "rr_matches r" unfolding replay_exact [OF r assms(2) keys] by (simp add: agrees_self)
  with r show ?thesis by blast
qed

lemma sample_ids: "plain_ids sample_db2" "2 * traffic (wh_events sample_db2 ''t'' ''w'') \<le> MAX_SAFE_INTEGER"
  by code_simp+

theorem replay_clean_history_witness:
  "\<exists>r. replayInTx sample_db2 ''t'' ''w'' (Some ''s'') None = Inr r \<and> rr_matches r"
  by (rule replay_clean_history [OF sample_history(3) sample_ids])

text \<open>
  The bounded scan: a scan of the window (fromSeq, toSeq] matches if and only if every scope that
  an event of the window touches is stored with exactly what the events up to toSeq post to it.
\<close>

theorem scan_is_exact:
  assumes "reconcileScanInTx db t w fromSeq toSeq = Inr r" and "plain_ids db" and "unique_keys db"
  shows "rr_matches r = ((\<forall>k \<in> touched_stock (window_events db t w fromSeq toSeq).
        stock_at k (db_stock db) = posted (concat (map stock_posts (events_through db t w toSeq))) k) \<and>
      (\<forall>k \<in> touched_batches (window_events db t w fromSeq toSeq).
        batch_at k (db_batches db) = posted (concat (map batch_posts (events_through db t w toSeq))) k))"
  using scan_exact [OF assms(1,2)] assms(3) by (simp add: unique_keys_def)

definition sample_scan :: replay_report where
  "sample_scan = (case reconcileScanInTx sample_drift ''t'' ''w'' 1 2 of Inl _ \<Rightarrow> report_of ''w'' 0 [] | Inr r \<Rightarrow> r)"

lemma sample_drift_scan:
  "reconcileScanInTx sample_drift ''t'' ''w'' 1 2 = Inr sample_scan" "\<not> rr_matches sample_scan"
  by code_simp+

theorem scan_is_exact_witness:
  "\<not> ((\<forall>k \<in> touched_stock (window_events sample_drift ''t'' ''w'' 1 2).
        stock_at k (db_stock sample_drift) = posted (concat (map stock_posts (events_through sample_drift ''t'' ''w'' 2))) k) \<and>
      (\<forall>k \<in> touched_batches (window_events sample_drift ''t'' ''w'' 1 2).
        batch_at k (db_batches sample_drift) = posted (concat (map batch_posts (events_through sample_drift ''t'' ''w'' 2))) k))"
  using scan_is_exact [OF sample_drift_scan(1)] sample_drift_ids sample_drift_scan(2) by blast

text \<open>
  C21. Detect and repair: from any tables with unique keys and no negative quantity, rebuild every scope
  that a replay of the warehouse names (and possibly others). The rebuild goes through if and only if
  no requested scope, and no batch of one, has events that sum below zero; then the events are untouched
  and the next replay matches. Otherwise the tables' non-negative check fails it as a whole.
\<close>

theorem rebuild_repairs_replay:
  assumes "replayInTx db t w None None = Inr r" and "plain_ids db" and "unique_keys db" and "stored_nonnegative db"
    and "\<forall>d \<in> set (rr_divergences r). (dv_sku d, dv_bin d) \<in> set scopes"
    and "\<forall>(s, b) \<in> set scopes. colon_free s \<and> colon_free b"
    and "2 * traffic (wh_events db t w) \<le> MAX_SAFE_INTEGER"
  shows "if list_ex (\<lambda>(s, b). folds_negative db t w s b) scopes
    then rebuildProjectionsInTx db t w scopes = Inl below_zero
    else (\<exists>db' rep r'. rebuildProjectionsInTx db t w scopes = Inr (db', rep) \<and> db_events db' = db_events db \<and>
      replayInTx db' t w None None = Inr r' \<and> rr_matches r')"
proof (cases "rebuildProjectionsInTx db t w scopes")
  case (Inl e)
  obtain lf where "foldLedgerInTx db t w whole_ledger = Inr lf" using fold_succeeds [OF assms(7)] by blast
  then show ?thesis using rebuild_refused [OF Inl _ assms(2,6)] Inl by (auto simp: list_ex_iff)
next
  case (Inr res)
  obtain db' rep where rebuilt: "rebuildProjectionsInTx db t w scopes = Inr (db', rep)" using Inr by (cases res) simp
  have events: "db_events db' = db_events db" using rebuild_restores [OF rebuilt assms(2,3,6)] by blast
  then have "2 * traffic (wh_events db' t w) \<le> MAX_SAFE_INTEGER" using assms(7) by (simp add: wh_events_def)
  then obtain r' where r': "replayInTx db' t w None None = Inr r'"
    using fold_succeeds [of db' t w] by (fastforce simp: replayInTx_def)
  have "rr_matches r'" by (rule rebuild_heals [OF assms(1-3,5,6) rebuilt r'])
  then show ?thesis
    using rebuilt events r' rebuild_written [OF rebuilt assms(2,3,6,4)] by (auto simp: list_ex_iff)
qed

text \<open>
  Two tables to repair: one whose bin holds the wrong quantity, and one whose events draw more
  from the bin than they brought in.
\<close>

definition sample_overdrawn :: ledger_db where
  "sample_overdrawn = sample_drift\<lparr>db_events := db_events sample_drift @
     [sample_event2\<lparr>ev_seq := 3, ev_delta := 1000000\<rparr>]\<rparr>"

definition overdrawn_report :: replay_report where
  "overdrawn_report = (case replayInTx sample_overdrawn ''t'' ''w'' None None of Inl _ \<Rightarrow> report_of ''w'' 0 [] | Inr r \<Rightarrow> r)"

lemma sample_overdrawn_negative: "folds_negative sample_overdrawn ''t'' ''w'' ''s'' ''b''"
proof -
  have "(case ledger_stock sample_overdrawn (''t'', ''w'', ''s'', ''b'') of None \<Rightarrow> False | Some q \<Rightarrow> q < 0)"
    by code_simp
  then show ?thesis unfolding folds_negative_def by (auto split: option.splits)
qed

lemma sample_overdrawn_facts:
  "plain_ids sample_overdrawn \<and> unique_keys sample_overdrawn \<and> stored_nonnegative sample_overdrawn"
  "stored_nonnegative sample_drift"
  "replayInTx sample_overdrawn ''t'' ''w'' None None = Inr overdrawn_report"
  "2 * traffic (wh_events sample_overdrawn ''t'' ''w'') \<le> MAX_SAFE_INTEGER"
  "2 * traffic (wh_events sample_drift ''t'' ''w'') \<le> MAX_SAFE_INTEGER"
  by code_simp+

lemma history_folds_nonneg:
  assumes "ledger_history sha db"
  shows "\<not> folds_negative db t w s b"
proof -
  have same: "stock_at k (db_stock db) = ledger_stock db k" "batch_at bk (db_batches db) = ledger_batch db bk" for k bk
    using history_projections [OF assms]
    by (simp_all add: projections_agree_def stock.projects_lookup batch.projects_lookup ledger_stock_def ledger_batch_def)
  have "0 \<le> q" if "ledger_stock db k = Some q" for k q
    using history_nonneg(1) [OF assms, of k] that by (simp add: same quantity_or_0_def)
  moreover have "0 \<le> q" if "ledger_batch db k = Some q" for k q
    using history_nonneg(2) [OF assms, of k] that by (simp add: same quantity_or_0_def)
  ultimately show ?thesis unfolding folds_negative_def by (meson not_less)
qed

theorem rebuild_repairs_replay_witness:
  "(\<exists>db' rep r'. rebuildProjectionsInTx sample_drift ''t'' ''w'' [(''s'', ''b''), (''s'', ''d'')] = Inr (db', rep) \<and>
     db_events db' = db_events sample_drift \<and> replayInTx db' ''t'' ''w'' None None = Inr r' \<and> rr_matches r') \<and>
   rebuildProjectionsInTx sample_overdrawn ''t'' ''w'' [(''s'', ''b''), (''s'', ''d'')] = Inl below_zero"
proof -
  let ?scopes = "[(''s'', ''b''), (''s'', ''d'')]"
  have free: "\<forall>(s, b) \<in> set ?scopes. colon_free s \<and> colon_free b" by code_simp
  have named: "\<forall>d \<in> set (rr_divergences sample_report). (dv_sku d, dv_bin d) \<in> set ?scopes"
    "\<forall>d \<in> set (rr_divergences overdrawn_report). (dv_sku d, dv_bin d) \<in> set ?scopes" by code_simp+
  have "folds_negative sample_drift t w s b = folds_negative sample_db2 t w s b" for t w s b
    by (simp add: folds_negative_def ledger_stock_def ledger_batch_def sample_drift_def)
  then have "\<not> list_ex (\<lambda>(s, b). folds_negative sample_drift ''t'' ''w'' s b) ?scopes"
    using history_folds_nonneg [OF sample_history(3)] by simp
  moreover have "list_ex (\<lambda>(s, b). folds_negative sample_overdrawn ''t'' ''w'' s b) ?scopes"
    using sample_overdrawn_negative by simp
  ultimately show ?thesis
    using rebuild_repairs_replay [OF sample_drift_replay _ _ sample_overdrawn_facts(2) named(1) free sample_overdrawn_facts(5)]
      rebuild_repairs_replay [OF sample_overdrawn_facts(3) _ _ _ named(2) free sample_overdrawn_facts(4)]
      sample_drift_ids sample_overdrawn_facts(1) by simp
qed




end
