(* ===== verification/LedgerChain.thy ===== *)
theory LedgerChain
  imports LedgerReplay
begin

text \<open>
  The hash chain of \<open>modules/inventory/ledger.service.ts\<close> and its anchors (\<open>anchor-store.ts\<close>): the walk
  that verifies a range of a warehouse, the anchoring of what verified, the digest export, the single
  path that records a break, and the manual rebuild. \<open>uuidv7()\<close>, \<open>nowIso()\<close> and SHA-256 are parameters;
  an ellipsis cut from a long reason is kept as a flag.
\<close>

section \<open>Reports\<close>

datatype break_reason =
    MissingPredecessor int
  | MissingInWalk int int
  | UnparseableTimestamp int
  | PrevHashMismatch int
  | HashMismatch int
  | RangeGap int int int int int

datatype chain_report =
    Verified int int nat
  | Broken int int break_reason "int option"

definition reason_text :: "break_reason \<Rightarrow> string" where
  "reason_text r = (case r of
     MissingPredecessor n \<Rightarrow> ''predecessor event at seq '' @ int_text n @ '' is missing''
   | MissingInWalk a b \<Rightarrow> ''missing events in seq range '' @ int_text a @ ''..'' @ int_text b @ '': seq '' @ int_text a
       @ '' is missing (first missing seq '' @ int_text a @ '')''
   | UnparseableTimestamp n \<Rightarrow> ''unparseable timestamp at seq '' @ int_text n @ '': occurred_at/recorded_at no longer parse as instants''
   | PrevHashMismatch n \<Rightarrow> ''chain break at seq '' @ int_text n @ '': stored prev_hash does not match the predecessor's event_hash''
   | HashMismatch n \<Rightarrow> ''hash mismatch at seq '' @ int_text n @ '': the event's canonical bytes no longer hash to its stored event_hash''
   | RangeGap a b found expected first \<Rightarrow> ''missing events in seq range '' @ int_text a @ ''..'' @ int_text b @ '': found '' @ int_text found
       @ '' of '' @ int_text expected @ '' (first missing seq '' @ int_text first @ '')'')"

definition MAX_BREAK_REASON_LENGTH :: nat where
  "MAX_BREAK_REASON_LENGTH = 200"

text \<open>The kept text, and whether an ellipsis follows it.\<close>

definition truncateReason :: "string \<Rightarrow> string \<times> bool" where
  "truncateReason reason =
     (if length reason \<le> MAX_BREAK_REASON_LENGTH then (reason, False)
      else (take (MAX_BREAK_REASON_LENGTH - 1) reason, True))"

section \<open>The walk\<close>

fun walk_rows :: "(string \<Rightarrow> string) \<Rightarrow> int \<Rightarrow> int \<Rightarrow> string \<Rightarrow> int \<Rightarrow> ledger_event list \<Rightarrow> chain_report option" where
  "walk_rows sha legacy lastSeq expectedPrev expectedSeq [] = None"
| "walk_rows sha legacy lastSeq expectedPrev expectedSeq (row # rows) =
     (if ev_seq row \<noteq> expectedSeq
      then Some (Broken expectedSeq lastSeq (MissingInWalk expectedSeq lastSeq) (Some expectedSeq))
      else (let canonical = canonicalEventOf row;
                expectedHash = (if ev_seq row \<le> legacy then legacyEventHashOf sha canonical
                  else and_then (eventHashOf sha canonical) (\<lambda>h. Inr (Some h)))
            in case expectedHash of
                 Inl _ \<Rightarrow> Some (Broken (ev_seq row) lastSeq (UnparseableTimestamp (ev_seq row)) None)
               | Inr h \<Rightarrow>
                   if ev_prev row \<noteq> expectedPrev
                   then Some (Broken (ev_seq row) lastSeq (PrevHashMismatch (ev_seq row)) None)
                   else if h \<noteq> Some (ev_hash row)
                   then Some (Broken (ev_seq row) lastSeq (HashMismatch (ev_seq row)) None)
                   else walk_rows sha legacy lastSeq (ev_hash row) (expectedSeq + 1) rows))"

definition walkChain :: "(string \<Rightarrow> string) \<Rightarrow> ledger_db \<Rightarrow> uuid \<Rightarrow> uuid \<Rightarrow> int \<Rightarrow> int option \<Rightarrow> ledger_event list \<Rightarrow> int \<Rightarrow> chain_report" where
  "walkChain sha db tenant wh fromSeq toSeq rows legacy =
     (let lastSeq = (if rows = [] then fromSeq - 1 else ev_seq (last rows));
          expectedPrev = (if fromSeq = 1 then Some GENESIS_PREV_HASH
            else map_option ev_hash (find (\<lambda>e. ev_seq e = fromSeq - 1) (wh_events db tenant wh)))
      in case expectedPrev of
           None \<Rightarrow> Broken fromSeq (case toSeq of None \<Rightarrow> fromSeq | Some n \<Rightarrow> n) (MissingPredecessor (fromSeq - 1)) (Some (fromSeq - 1))
         | Some prev \<Rightarrow>
             (case walk_rows sha legacy lastSeq prev fromSeq rows of
                Some broken \<Rightarrow> broken
              | None \<Rightarrow> Verified fromSeq lastSeq (length rows)))"

text \<open>The first index whose seq is out of place, or the first seq after the rows.\<close>

fun first_missing :: "int \<Rightarrow> int list \<Rightarrow> int" where
  "first_missing expected [] = expected"
| "first_missing expected (s # rest) = (if s \<noteq> expected then expected else first_missing (expected + 1) rest)"

definition gapReport :: "int \<Rightarrow> int \<Rightarrow> ledger_event list \<Rightarrow> chain_report option" where
  "gapReport fromSeq toSeq rows =
     (let expected = toSeq - fromSeq + 1 in
      if int (length rows) = expected then None
      else (let first = first_missing fromSeq (map ev_seq rows)
            in Some (Broken fromSeq toSeq (RangeGap fromSeq toSeq (int (length rows)) expected first) (Some first))))"

definition range_rows :: "ledger_db \<Rightarrow> uuid \<Rightarrow> uuid \<Rightarrow> int \<Rightarrow> int option \<Rightarrow> ledger_event list" where
  "range_rows db tenant wh fromSeq toSeq =
     sort_key ev_seq (filter (\<lambda>e. fromSeq \<le> ev_seq e \<and> (case toSeq of None \<Rightarrow> True | Some n \<Rightarrow> ev_seq e \<le> n)) (wh_events db tenant wh))"

definition verifyChainInTx :: "(string \<Rightarrow> string) \<Rightarrow> ledger_db \<Rightarrow> uuid \<Rightarrow> uuid \<Rightarrow> int \<Rightarrow> int option \<Rightarrow> int \<Rightarrow> chain_report" where
  "verifyChainInTx sha db tenant wh fromSeq toSeq legacy =
     (let rows = range_rows db tenant wh fromSeq toSeq in
      case (case toSeq of None \<Rightarrow> None | Some n \<Rightarrow> gapReport fromSeq n rows) of
        Some gap \<Rightarrow> gap
      | None \<Rightarrow> walkChain sha db tenant wh fromSeq toSeq rows legacy)"

section \<open>Integrity tables\<close>

record integrity_row =
  in_tenant :: uuid
  in_wh :: uuid
  in_legacy :: int
  in_broken :: "int option"
  in_broken_at :: "millis option"

record break_row =
  br_id :: uuid
  br_tenant :: uuid
  br_wh :: uuid
  br_kind :: string
  br_first :: int
  br_anchor :: "uuid option"
  br_reason :: "string \<times> bool"
  br_by :: string
  br_at :: millis

record anchor_row =
  an_id :: uuid
  an_tenant :: uuid
  an_wh :: uuid
  an_from :: int
  an_to :: int
  an_digest :: string
  an_at :: millis
  an_kind :: string

datatype outbox_event =
    ChainBroken uuid uuid int int "string \<times> bool" uuid string string int
  | ManualRebuild uuid uuid int "divergence list"

record integrity_db =
  it_ledger :: ledger_db
  it_state :: "integrity_row list"
  it_breaks :: "break_row list"
  it_anchors :: "anchor_row list"
  it_outbox :: "outbox_event list"

record break_input =
  bi_wh :: uuid
  bi_kind :: string
  bi_from :: int
  bi_to :: int
  bi_first :: int
  bi_anchor :: "uuid option"
  bi_reason :: string
  bi_by :: string

definition breakInputOf :: "uuid \<Rightarrow> int \<Rightarrow> int \<Rightarrow> break_reason \<Rightarrow> int option \<Rightarrow> string \<Rightarrow> break_input" where
  "breakInputOf wh fromSeq toSeq reason firstSeq detectedBy =
     \<lparr>bi_wh = wh, bi_kind = ''chain'', bi_from = fromSeq, bi_to = toSeq,
      bi_first = max 1 (case firstSeq of None \<Rightarrow> fromSeq | Some n \<Rightarrow> n), bi_anchor = None,
      bi_reason = reason_text reason, bi_by = detectedBy\<rparr>"

definition legacyThroughSeqInTx :: "integrity_db \<Rightarrow> uuid \<Rightarrow> uuid \<Rightarrow> int" where
  "legacyThroughSeqInTx st tenant wh =
     (case find (\<lambda>r. in_tenant r = tenant \<and> in_wh r = wh) (it_state st) of None \<Rightarrow> 0 | Some r \<Rightarrow> in_legacy r)"

definition break_key :: "break_row \<Rightarrow> uuid \<times> uuid \<times> string \<times> int" where
  "break_key r = (br_tenant r, br_wh r, br_kind r, br_first r)"

section \<open>Recording a break\<close>

definition mark_broken :: "int \<Rightarrow> millis \<Rightarrow> integrity_row \<Rightarrow> integrity_row" where
  "mark_broken first now r =
     r\<lparr>in_broken := Some (min (case in_broken r of None \<Rightarrow> first | Some n \<Rightarrow> n) first),
       in_broken_at := (if in_broken r = None \<or> first < the (in_broken r) then Some now else in_broken_at r)\<rparr>"

definition recordChainBreak :: "uuid \<Rightarrow> millis \<Rightarrow> uuid \<Rightarrow> break_input \<Rightarrow> integrity_db \<Rightarrow> integrity_db \<times> uuid \<times> bool" where
  "recordChainBreak newId now tenant input st =
     (let key = (tenant, bi_wh input, bi_kind input, bi_first input);
          reason = truncateReason (bi_reason input);
          existing = find (\<lambda>r. break_key r = key) (it_breaks st);
          isNew = (existing = None);
          breakId = (case existing of None \<Rightarrow> newId | Some r \<Rightarrow> br_id r);
          breaks = (if isNew then it_breaks st @ [\<lparr>br_id = newId, br_tenant = tenant, br_wh = bi_wh input,
              br_kind = bi_kind input, br_first = bi_first input, br_anchor = bi_anchor input, br_reason = reason,
              br_by = bi_by input, br_at = now\<rparr>] else it_breaks st);
          state = update_where (\<lambda>r. in_tenant r = tenant \<and> in_wh r = bi_wh input) (mark_broken (bi_first input) now) (it_state st);
          outbox = (if isNew then it_outbox st @ [ChainBroken tenant (bi_wh input) (bi_from input) (bi_to input) reason
              breakId (bi_kind input) (bi_by input) (bi_first input)] else it_outbox st)
      in (st\<lparr>it_breaks := breaks, it_state := state, it_outbox := outbox\<rparr>, breakId, isNew))"

definition record_report :: "uuid \<Rightarrow> millis \<Rightarrow> uuid \<Rightarrow> uuid \<Rightarrow> string \<Rightarrow> chain_report \<Rightarrow> integrity_db \<Rightarrow> integrity_db" where
  "record_report newId now tenant wh detectedBy report st =
     (case report of Verified _ _ _ \<Rightarrow> st
      | Broken fromSeq toSeq reason firstSeq \<Rightarrow>
          fst (recordChainBreak newId now tenant (breakInputOf wh fromSeq toSeq reason firstSeq detectedBy) st))"

section \<open>Verifying a range\<close>

definition validation_failed :: failure where
  "validation_failed = Problem ''validation-failed'' 400"

definition assertVerifyRange :: "int \<Rightarrow> int option \<Rightarrow> unit result" where
  "assertVerifyRange fromSeq toSeq =
     require (\<not> (fromSeq < 1 \<or> (case toSeq of None \<Rightarrow> False | Some n \<Rightarrow> n < fromSeq))) validation_failed"

definition head_seq :: "ledger_db \<Rightarrow> uuid \<Rightarrow> uuid \<Rightarrow> int option" where
  "head_seq db tenant wh = map_option ev_seq (ledger_head db tenant wh)"

definition verifyChain :: "(string \<Rightarrow> string) \<Rightarrow> uuid \<Rightarrow> millis \<Rightarrow> uuid \<Rightarrow> uuid \<Rightarrow> int \<Rightarrow> int option \<Rightarrow> integrity_db
    \<Rightarrow> (integrity_db \<times> chain_report) result" where
  "verifyChain sha newId now tenant wh fromSeq toSeq st =
     and_then (assertVerifyRange fromSeq toSeq) (\<lambda>_.
     and_then (case toSeq of None \<Rightarrow> Inr ()
       | Some n \<Rightarrow> require (n \<le> quantity_or_0 (head_seq (it_ledger st) tenant wh)) validation_failed) (\<lambda>_.
     (let report = verifyChainInTx sha (it_ledger st) tenant wh fromSeq toSeq (legacyThroughSeqInTx st tenant wh)
      in Inr (record_report newId now tenant wh ''verify'' report st, report))))"

section \<open>Anchoring\<close>

definition latest_anchor :: "integrity_db \<Rightarrow> uuid \<Rightarrow> uuid \<Rightarrow> anchor_row option" where
  "latest_anchor st tenant wh =
     fold (\<lambda>a best. case best of None \<Rightarrow> Some a | Some b \<Rightarrow> if an_to b < an_to a then Some a else Some b)
       (filter (\<lambda>a. an_tenant a = tenant \<and> an_wh a = wh) (it_anchors st)) None"

definition anchor_insert :: "anchor_row \<Rightarrow> integrity_db \<Rightarrow> integrity_db" where
  "anchor_insert a st = st\<lparr>it_anchors := it_anchors st @ [a]\<rparr>"

datatype anchor_result =
    Anchored anchor_row
  | NothingToAnchor int
  | AnchorRefused chain_report

definition anchorChain :: "(string \<Rightarrow> string) \<Rightarrow> uuid \<Rightarrow> millis \<Rightarrow> uuid \<Rightarrow> uuid \<Rightarrow> int option \<Rightarrow> integrity_db
    \<Rightarrow> integrity_db \<times> anchor_result" where
  "anchorChain sha newId now tenant wh uptoSeq st =
     (let lastToSeq = (case latest_anchor st tenant wh of None \<Rightarrow> 0 | Some a \<Rightarrow> an_to a) in
      case head_seq (it_ledger st) tenant wh of
        None \<Rightarrow> (st, NothingToAnchor lastToSeq)
      | Some headSeq \<Rightarrow>
          (let toSeq = min (case uptoSeq of None \<Rightarrow> headSeq | Some n \<Rightarrow> n) headSeq;
               fromSeq = lastToSeq + 1
           in if fromSeq > toSeq then (st, NothingToAnchor lastToSeq)
              else (let rows = range_rows (it_ledger st) tenant wh fromSeq (Some toSeq) in
                case gapReport fromSeq toSeq rows of
                  Some gap \<Rightarrow> (record_report newId now tenant wh ''anchor'' gap st, AnchorRefused gap)
                | None \<Rightarrow>
                    (case verifyChainInTx sha (it_ledger st) tenant wh fromSeq (Some toSeq) (legacyThroughSeqInTx st tenant wh) of
                       Broken f t r b \<Rightarrow> (record_report newId now tenant wh ''anchor'' (Broken f t r b) st, AnchorRefused (Broken f t r b))
                     | Verified _ _ _ \<Rightarrow>
                         (let a = \<lparr>an_id = newId, an_tenant = tenant, an_wh = wh, an_from = fromSeq, an_to = toSeq,
                                an_digest = digestOverRange sha rows, an_at = now, an_kind = ''verified''\<rparr>
                          in (anchor_insert a st, Anchored a))))))"

section \<open>The digest export and the manual rebuild\<close>

definition exportDigest :: "(string \<Rightarrow> string) \<Rightarrow> ledger_db \<Rightarrow> uuid \<Rightarrow> uuid \<Rightarrow> int \<Rightarrow> int \<Rightarrow> (nat \<times> string) result" where
  "exportDigest sha db tenant wh fromSeq toSeq =
     and_then (require (\<not> (fromSeq < 1 \<or> toSeq < fromSeq)) validation_failed) (\<lambda>_.
     (let rows = range_rows db tenant wh fromSeq (Some toSeq) in
      and_then (require (rows \<noteq> []) validation_failed) (\<lambda>_.
      and_then (require (int (length rows) = toSeq - fromSeq + 1) validation_failed) (\<lambda>_.
      Inr (length rows, digestOverRange sha rows)))))"

definition rebuildProjections :: "uuid \<Rightarrow> uuid \<Rightarrow> uuid option \<Rightarrow> uuid option \<Rightarrow> integrity_db
    \<Rightarrow> (integrity_db \<times> rebuilt_scope list \<times> divergence list) result" where
  "rebuildProjections tenant wh sku bin st =
     and_then (replayInTx (it_ledger st) tenant wh sku bin) (\<lambda>report.
     if rr_matches report then Inr (st, [], [])
     else and_then (rebuildProjectionsInTx (it_ledger st) tenant wh
            (map (\<lambda>d. (dv_sku d, dv_bin d)) (rr_divergences report))) (\<lambda>(db, repaired).
          Inr (st\<lparr>it_ledger := db, it_outbox := it_outbox st @ [ManualRebuild tenant wh
                 (quantity_or_0 (head_seq (it_ledger st) tenant wh)) (rr_divergences report)]\<rparr>,
               repaired, rr_divergences report)))"

end
