(* ===== verification/LedgerAudit.thy ===== *)
theory LedgerAudit
  imports LedgerReplayProperties LedgerChain
begin

text \<open>
  What the hash chain gives: the walk accepts exactly the dense, linked, correctly hashed ranges, an
  appended ledger always verifies, equal head hashes (or equal anchored digests) mean equal ledgers as
  long as SHA-256 does not collide on them, gaps are named by their first missing seq, anchors tile the
  ledger, and a break is recorded once.
\<close>

section \<open>What the walk accepts\<close>

definition link_ok :: "(string \<Rightarrow> string) \<Rightarrow> int \<Rightarrow> ledger_event \<Rightarrow> bool" where
  "link_ok sha legacy e = (if ev_seq e \<le> legacy then legacyEventHashOf sha (canonicalEventOf e) = Inr (Some (ev_hash e))
     else eventHashOf sha (canonicalEventOf e) = Inr (ev_hash e))"

lemma upto_Cons: "int (length xs) = n \<Longrightarrow> [e..e + n] = e # [e + 1..e + 1 + int (length xs) - 1]" for e :: int
  by (subst upto_rec1) (auto simp: algebra_simps)

lemma walk_rows_None:
  "(walk_rows sha legacy l prev expected rows = None) =
   (map ev_seq rows = [expected..expected + int (length rows) - 1] \<and> chained prev rows \<and> (\<forall>e \<in> set rows. link_ok sha legacy e))"
proof (induction rows arbitrary: prev expected)
  case Nil
  then show ?case by simp
next
  case (Cons row rows)
  have seqs: "map ev_seq (row # rows) = [expected..expected + int (length (row # rows)) - 1] \<longleftrightarrow>
      ev_seq row = expected \<and> map ev_seq rows = [expected + 1..expected + 1 + int (length rows) - 1]"
    using upto_Cons [of rows "int (length rows)" expected] by (auto simp: algebra_simps)
  have link: "link_ok sha legacy row \<longleftrightarrow> (if ev_seq row \<le> legacy then legacyEventHashOf sha (canonicalEventOf row)
      else and_then (eventHashOf sha (canonicalEventOf row)) (\<lambda>h. Inr (Some h))) = Inr (Some (ev_hash row))"
    by (auto simp: link_ok_def)
  show ?case
    unfolding seqs using Cons.IH [of "ev_hash row" "expected + 1"] link
    by (auto simp: Let_def split: sum.splits)
qed

lemma walk_rows_Broken:
  "walk_rows sha legacy l prev expected rows = Some r \<Longrightarrow> \<exists>f t reason b. r = Broken f t reason b"
  by (induction rows arbitrary: prev expected) (auto simp: Let_def split: if_splits sum.splits)

definition predecessor_hash :: "ledger_db \<Rightarrow> uuid \<Rightarrow> uuid \<Rightarrow> int \<Rightarrow> string option" where
  "predecessor_hash db t w fromSeq = (if fromSeq = 1 then Some GENESIS_PREV_HASH
     else map_option ev_hash (find (\<lambda>e. ev_seq e = fromSeq - 1) (wh_events db t w)))"

lemma walkChain_predecessor:
  "walkChain sha db t w f toSeq rows legacy =
     (let lastSeq = (if rows = [] then f - 1 else ev_seq (last rows)) in
      case predecessor_hash db t w f of
        None \<Rightarrow> Broken f (case toSeq of None \<Rightarrow> f | Some n \<Rightarrow> n) (MissingPredecessor (f - 1)) (Some (f - 1))
      | Some prev \<Rightarrow> (case walk_rows sha legacy lastSeq prev f rows of
          Some broken \<Rightarrow> broken | None \<Rightarrow> Verified f lastSeq (length rows)))"
  unfolding walkChain_def predecessor_hash_def Let_def by (rule refl)

lemma gapReport_None: "(gapReport f n rows = None) = (int (length rows) = n - f + 1)"
  by (simp add: gapReport_def Let_def)

lemma verify_exact:
  assumes "f \<le> n"
  shows "(verifyChainInTx sha db t w f (Some n) legacy = Verified f n (nat (n - f + 1))) =
    (\<exists>prev. predecessor_hash db t w f = Some prev \<and> map ev_seq (range_rows db t w f (Some n)) = [f..n] \<and>
      chained prev (range_rows db t w f (Some n)) \<and> (\<forall>e \<in> set (range_rows db t w f (Some n)). link_ok sha legacy e))"
proof -
  let ?rows = "range_rows db t w f (Some n)"
  show ?thesis
  proof (cases "int (length ?rows) = n - f + 1")
    case True
    then have gap: "gapReport f n ?rows = None" by (simp add: gapReport_None)
    have len: "f + int (length ?rows) - 1 = n" using True by simp
    have ne: "?rows \<noteq> []" using True assms by auto
    have last: "map ev_seq ?rows = [f..n] \<Longrightarrow> ev_seq (last ?rows) = n"
      using ne assms by (metis last_map last_snoc upto_rec2)
    have count: "length ?rows = nat (n - f + 1)" using True by simp
    show ?thesis
    proof (cases "predecessor_hash db t w f")
      case None
      then show ?thesis
        by (simp add: verifyChainInTx_def gap walkChain_predecessor None Let_def)
    next
      case (Some prev)
      let ?l = "if ?rows = [] then f - 1 else ev_seq (last ?rows)"
      have eq: "verifyChainInTx sha db t w f (Some n) legacy =
          (case walk_rows sha legacy ?l prev f ?rows of Some broken \<Rightarrow> broken | None \<Rightarrow> Verified f ?l (length ?rows))"
        by (simp add: verifyChainInTx_def gap walkChain_predecessor Some Let_def)
      show ?thesis
      proof (cases "walk_rows sha legacy ?l prev f ?rows")
        case None
        then have w: "map ev_seq ?rows = [f..n] \<and> chained prev ?rows \<and> (\<forall>e \<in> set ?rows. link_ok sha legacy e)"
          using walk_rows_None [of sha legacy ?l prev f ?rows] unfolding len by simp
        then have "verifyChainInTx sha db t w f (Some n) legacy = Verified f n (nat (n - f + 1))"
          unfolding eq None using ne last count by simp
        then show ?thesis using w Some by blast
      next
        case (Some r)
        then have "\<not> (map ev_seq ?rows = [f..n] \<and> chained prev ?rows \<and> (\<forall>e \<in> set ?rows. link_ok sha legacy e))"
          using walk_rows_None [of sha legacy ?l prev f ?rows] unfolding len by simp
        moreover have "verifyChainInTx sha db t w f (Some n) legacy \<noteq> Verified f n (nat (n - f + 1))"
          unfolding eq Some using walk_rows_Broken [OF Some] by auto
        ultimately show ?thesis using \<open>predecessor_hash db t w f = Some prev\<close> by auto
      qed
    qed
  next
    case False
    have "verifyChainInTx sha db t w f (Some n) legacy \<noteq> Verified f n (nat (n - f + 1))"
      using False by (simp add: verifyChainInTx_def gapReport_def Let_def)
    moreover have "map ev_seq ?rows \<noteq> [f..n]"
    proof
      assume "map ev_seq ?rows = [f..n]"
      then have "length ?rows = length [f..n]" by (metis length_map)
      then show False using False assms by simp
    qed
    ultimately show ?thesis by blast
  qed
qed

section \<open>A chained ledger verifies\<close>

lemma chained_append:
  "chained prev (xs @ ys) = (chained prev xs \<and> chained (if xs = [] then prev else ev_hash (last xs)) ys)"
  by (induction xs arbitrary: prev) auto

lemma chain_ok_split:
  assumes "chain_ok sha es" and "1 \<le> f" and "f \<le> n" and "n \<le> int (length es)"
  obtains xs ys zs where "es = xs @ ys @ zs" and "map ev_seq xs = [1..f - 1]" and "map ev_seq ys = [f..n]"
    and "map ev_seq zs = [n + 1..int (length es)]"
proof -
  define a where "a = nat (f - 1)"
  define b where "b = nat (n - f + 1)"
  let ?xs = "take a es" and ?ys = "take b (drop a es)" and ?zs = "drop b (drop a es)"
  have es: "es = ?xs @ ?ys @ ?zs" by (simp only: append_take_drop_id)
  have "[1..int (length es)] = [1..f - 1] @ [f..int (length es)]"
    using upto_split1 [of 1 f "int (length es)"] assms(2-4) by simp
  also have "[f..int (length es)] = [f..n] @ [n + 1..int (length es)]"
    using upto_split2 [of f n "int (length es)"] assms(3,4) by simp
  finally have seqs: "map ev_seq ?xs @ map ev_seq ?ys @ map ev_seq ?zs = [1..f - 1] @ [f..n] @ [n + 1..int (length es)]"
    using assms(1) es by (metis chain_ok_def map_append)
  have la: "length (map ev_seq ?xs) = length [1..f - 1]" using assms(2-4) by (simp add: a_def)
  have lb: "length (map ev_seq ?ys) = length [f..n]" using assms(2-4) by (simp add: a_def b_def)
  have one: "map ev_seq ?xs = [1..f - 1] \<and> map ev_seq ?ys @ map ev_seq ?zs = [f..n] @ [n + 1..int (length es)]"
    using append_eq_append_conv [of "map ev_seq ?xs" "[1..f - 1]"] la seqs by blast
  have "map ev_seq ?ys = [f..n] \<and> map ev_seq ?zs = [n + 1..int (length es)]"
    using append_eq_append_conv [of "map ev_seq ?ys" "[f..n]"] lb one by blast
  then show thesis using that [OF es] one by blast
qed

lemma range_rows_chain:
  assumes "chain_ok sha (wh_events db t w)" and "wh_events db t w = xs @ ys @ zs"
    and "map ev_seq xs = [1..f - 1]" and "map ev_seq ys = [f..n]" and "map ev_seq zs = [n + 1..m]"
  shows "range_rows db t w f (Some n) = ys"
proof -
  have range: "a \<le> ev_seq e \<and> ev_seq e \<le> b" if "e \<in> set us" "map ev_seq us = [a..b]" for e us a b
  proof -
    have "ev_seq e \<in> set (map ev_seq us)" using that(1) by simp
    then show ?thesis unfolding that(2) by simp
  qed
  let ?P = "\<lambda>e. f \<le> ev_seq e \<and> ev_seq e \<le> n"
  have "filter ?P xs = []" using range [OF _ assms(3)] by (fastforce simp: filter_empty_conv)
  moreover have "filter ?P ys = ys" using range [OF _ assms(4)] by (auto simp: filter_id_conv)
  moreover have "filter ?P zs = []" using range [OF _ assms(5)] by (fastforce simp: filter_empty_conv)
  ultimately have "filter ?P (wh_events db t w) = ys" unfolding assms(2) by simp
  moreover have "sorted (map ev_seq ys)" unfolding assms(4) using sorted_upto [of f n]
    by (rule sorted_wrt_mono_rel [rotated]) simp
  ultimately show ?thesis by (simp add: range_rows_def sort_key_id_if_sorted)
qed

lemma chain_verifies:
  assumes chain: "chain_ok sha (wh_events db t w)" and "1 \<le> f" and "f \<le> n" and "n \<le> int (length (wh_events db t w))"
  shows "verifyChainInTx sha db t w f (Some n) 0 = Verified f n (nat (n - f + 1))"
proof -
  obtain xs ys zs where es: "wh_events db t w = xs @ ys @ zs" and seqs: "map ev_seq xs = [1..f - 1]"
    "map ev_seq ys = [f..n]" "map ev_seq zs = [n + 1..int (length (wh_events db t w))]"
    using chain_ok_split [OF assms] by blast
  have rows: "range_rows db t w f (Some n) = ys" by (rule range_rows_chain [OF chain es seqs])
  have links: "chained (if xs = [] then GENESIS_PREV_HASH else ev_hash (last xs)) ys"
    using chain by (simp add: chain_ok_def es chained_append split: if_splits)
  have pred: "predecessor_hash db t w f = Some (if xs = [] then GENESIS_PREV_HASH else ev_hash (last xs))"
  proof (cases "xs = []")
    case True
    then have "f = 1" using seqs(1) assms(2) by simp
    then show ?thesis using True by (simp add: predecessor_hash_def)
  next
    case False
    then have "f \<noteq> 1" using seqs(1) by auto
    have d: "distinct (map ev_seq (wh_events db t w))" using chain by (simp add: chain_ok_def)
    have "ev_seq (last xs) = f - 1"
      using seqs(1) False by (metis last_map map_is_Nil_conv upto_Nil2 upto_rec2 not_less last_snoc)
    then have "find (\<lambda>e. ev_seq e = f - 1) (wh_events db t w) = Some (last xs)"
      using find_Some_iff_unique [OF d] False es by simp
    then show ?thesis using False \<open>f \<noteq> 1\<close> by (simp add: predecessor_hash_def)
  qed
  have "link_ok sha 0 e" if "e \<in> set ys" for e
  proof -
    have "ev_seq e \<in> set (map ev_seq ys)" using that by simp
    then have "0 < ev_seq e" using assms(2) unfolding seqs(2) by simp
    moreover have "eventHashOf sha (canonicalEventOf e) = Inr (ev_hash e)"
      using chain that by (simp add: chain_ok_def es)
    ultimately show ?thesis by (simp add: link_ok_def)
  qed
  then show ?thesis unfolding verify_exact [OF assms(3)] rows using pred links seqs(2) by blast
qed

section \<open>Tamper evidence\<close>

text \<open>
  What is hashed of a row: everything but its client, at or below the legacy baseline with the quantity
  the row had before quantities were scaled.
\<close>

definition hashed_event :: "int \<Rightarrow> ledger_event \<Rightarrow> canonical_event" where
  "hashed_event legacy e =
     (if ev_seq e \<le> legacy then (canonicalEventOf e)\<lparr>ev_delta := ev_delta e div 1000\<rparr> else canonicalEventOf e)"

lemma link_ok_hashed:
  "link_ok sha legacy e = (eventHashOf sha (hashed_event legacy e) = Inr (ev_hash e) \<and>
     (ev_seq e \<le> legacy \<longrightarrow> ev_delta e mod 1000 = 0))"
  by (cases "eventHashOf sha (hashed_event legacy e)")
    (auto simp: link_ok_def hashed_event_def legacyEventHashOf_def)

lemma hashed_event_simps [simp]:
  "ev_ref (hashed_event legacy e) = ev_ref e" "ev_prev (hashed_event legacy e) = ev_prev e"
  "ev_seq (hashed_event legacy e) = ev_seq e"
  by (simp_all add: hashed_event_def)

text \<open>A prefix that verified from genesis, as a chain.\<close>

definition verified_chain :: "(string \<Rightarrow> string) \<Rightarrow> int \<Rightarrow> ledger_event list \<Rightarrow> bool" where
  "verified_chain sha legacy es =
     (map ev_seq es = [1..int (length es)] \<and> chained GENESIS_PREV_HASH es \<and> (\<forall>e \<in> set es. link_ok sha legacy e))"

lemma verified_chain_snoc:
  "verified_chain sha legacy (es @ [e]) =
   (verified_chain sha legacy es \<and> ev_seq e = int (length es) + 1 \<and> ev_prev e = last_hash es \<and> link_ok sha legacy e)"
proof -
  have "[1..int (length (es @ [e]))] = [1..int (length es)] @ [int (length es) + 1]"
    using upto_snoc [of "int (length es)"] by (simp add: add.commute)
  then show ?thesis by (auto simp: verified_chain_def chained_snoc last_hash_def)
qed

lemma verified_chain_last_seq:
  assumes "verified_chain sha legacy es" and "es \<noteq> []"
  shows "ev_seq (last es) = int (length es)"
proof -
  obtain fs e where "es = fs @ [e]" using assms(2) by (cases es rule: rev_cases) auto
  with assms(1) show ?thesis by (simp add: verified_chain_snoc)
qed

lemma verified_prefix_chain:
  assumes "1 \<le> n" and "verifyChainInTx sha db t w 1 (Some n) legacy = Verified 1 n (nat n)"
  shows "verified_chain sha legacy (range_rows db t w 1 (Some n)) \<and> int (length (range_rows db t w 1 (Some n))) = n"
proof -
  let ?rows = "range_rows db t w 1 (Some n)"
  have v: "map ev_seq ?rows = [1..n]" "chained GENESIS_PREV_HASH ?rows" "\<forall>e \<in> set ?rows. link_ok sha legacy e"
    using assms(2) verify_exact [OF assms(1), of sha db t w legacy] by (auto simp: predecessor_hash_def)
  have len: "int (length ?rows) = n" using arg_cong [OF v(1), of length] assms(1) by simp
  then show ?thesis using v by (simp add: verified_chain_def)
qed

definition same_row :: "ledger_event \<Rightarrow> ledger_event \<Rightarrow> bool" where
  "same_row a b = (same_event (canonicalEventOf a) (canonicalEventOf b) \<and> ev_hash a = ev_hash b)"

definition event_bytes :: "int \<Rightarrow> ledger_event list \<Rightarrow> string set" where
  "event_bytes legacy es = {x. \<exists>e \<in> set es. canonicalEventBytes (hashed_event legacy e) = Inr x}"

lemma same_hashed_row:
  assumes "same_event (hashed_event legacy a) (hashed_event legacy b)" and "ev_hash a = ev_hash b"
    and "ev_seq a \<le> legacy \<longrightarrow> ev_delta a mod 1000 = 0" and "ev_seq b \<le> legacy \<longrightarrow> ev_delta b mod 1000 = 0"
  shows "same_row a b"
proof -
  have seq: "ev_seq a = ev_seq b" using assms(1) by (simp add: same_event_def)
  show ?thesis
  proof (cases "ev_seq a \<le> legacy")
    case True
    then have "ev_delta a div 1000 = ev_delta b div 1000"
      using assms(1) seq by (simp add: same_event_def hashed_event_def)
    then have "ev_delta a = ev_delta b" using True seq assms(3,4) div_mult_mod_eq [of "ev_delta a" 1000]
        div_mult_mod_eq [of "ev_delta b" 1000] by simp
    then show ?thesis using True seq assms(1,2) by (simp add: same_row_def same_event_def hashed_event_def)
  next
    case False
    then show ?thesis using seq assms(1,2) by (simp add: same_row_def hashed_event_def)
  qed
qed

lemma same_hash_same_row:
  assumes "inj_on sha (event_bytes legacy [a] \<union> event_bytes legacy [b])" and "json_ok (ev_ref a)" and "json_ok (ev_ref b)"
    and a: "link_ok sha legacy a" and b: "link_ok sha legacy b" and "ev_hash a = ev_hash b"
  shows "same_row a b"
proof -
  obtain x where x: "canonicalEventBytes (hashed_event legacy a) = Inr x" "sha x = ev_hash a"
    using a by (auto simp: link_ok_hashed eventHashOf_def)
  obtain y where y: "canonicalEventBytes (hashed_event legacy b) = Inr y" "sha y = ev_hash b"
    using b by (auto simp: link_ok_hashed eventHashOf_def)
  have "x \<in> event_bytes legacy [a]" "y \<in> event_bytes legacy [b]" using x(1) y(1) by (simp_all add: event_bytes_def)
  then have "x = y" using inj_onD [OF assms(1), of x y] x(2) y(2) assms(6) by simp
  then have "same_event (hashed_event legacy a) (hashed_event legacy b)"
    using canonical_bytes_determine [of "hashed_event legacy a" "hashed_event legacy b" x] x(1) y(1) assms(2,3) by simp
  then show ?thesis using same_hashed_row assms(6) a b by (simp add: link_ok_hashed)
qed

lemma same_head_same_ledger:
  assumes "verified_chain sha legacy es" and "verified_chain sha legacy fs" and "length es = length fs"
    and "last_hash es = last_hash fs" and "inj_on sha (event_bytes legacy es \<union> event_bytes legacy fs)"
    and "\<forall>e \<in> set es \<union> set fs. json_ok (ev_ref e)"
  shows "list_all2 same_row es fs"
  using assms
proof (induction es arbitrary: fs rule: rev_induct)
  case Nil
  then show ?case by simp
next
  case (snoc a es)
  then obtain b gs where fs: "fs = gs @ [b]" by (cases fs rule: rev_cases) auto
  have ca: "verified_chain sha legacy es" "ev_prev a = last_hash es" "link_ok sha legacy a"
    using snoc.prems(1) by (simp_all add: verified_chain_snoc)
  have cb: "verified_chain sha legacy gs" "ev_prev b = last_hash gs" "link_ok sha legacy b"
    using snoc.prems(2) by (simp_all add: fs verified_chain_snoc)
  have hash: "ev_hash a = ev_hash b" using snoc.prems(4) by (simp add: fs last_hash_def)
  have inj: "inj_on sha (event_bytes legacy es \<union> event_bytes legacy gs)"
    "inj_on sha (event_bytes legacy [a] \<union> event_bytes legacy [b])"
    using snoc.prems(5) by (auto intro!: inj_on_subset [OF snoc.prems(5)] simp: fs event_bytes_def)
  have same: "same_row a b"
    by (rule same_hash_same_row [OF inj(2) _ _ ca(3) cb(3) hash]) (use snoc.prems(6) fs in auto)
  have "last_hash es = last_hash gs" using same ca(2) cb(2) by (simp add: same_row_def same_event_def)
  then have "list_all2 same_row es gs"
    using snoc.IH [OF ca(1) cb(1)] snoc.prems(3,6) inj(1) by (simp add: fs)
  then show ?case using same snoc.prems(3) by (simp add: fs list_all2_appendI)
qed

section \<open>Digests\<close>

lemma split_join:
  assumes "xs \<noteq> []" and "\<forall>x \<in> set xs. c \<notin> set x"
  shows "split_on c (join_with c xs) = xs"
  using assms
proof (induction xs)
  case Nil
  then show ?case by simp
next
  case (Cons x xs)
  show ?case
  proof (cases xs)
    case Nil
    then show ?thesis using Cons.prems by (simp add: split_on_no_sep)
  next
    case (Cons y ys)
    then show ?thesis using Cons.IH Cons.prems by (simp add: split_on_append)
  qed
qed

definition digest_text :: "ledger_event list \<Rightarrow> string" where
  "digest_text es = join_with (CHR 0x0A) (map (\<lambda>e. int_text (ev_seq e) @ CHR '':'' # ev_hash e) es)"

lemma int_text_plain:
  assumes "c \<in> set (int_text n)"
  shows "c \<noteq> CHR 0x0A"
proof
  assume "c = CHR 0x0A"
  moreover have "number_char c" using number_text_int [of n] assms by (simp add: number_text_def list_all_iff)
  moreover have "\<not> number_char (CHR 0x0A)" by (simp add: number_char_def)
  ultimately show False by simp
qed

lemma digest_text_hashes:
  assumes "digest_text es = digest_text fs" and "map ev_seq es = map ev_seq fs"
    and "\<forall>e \<in> set es \<union> set fs. CHR 0x0A \<notin> set (ev_hash e)"
  shows "map ev_hash es = map ev_hash fs"
proof (cases "es = []")
  case True
  then show ?thesis using assms(2) by simp
next
  case False
  let ?line = "\<lambda>e. int_text (ev_seq e) @ CHR '':'' # ev_hash e"
  have ne: "fs \<noteq> []" using False assms(2) by auto
  have "\<forall>x \<in> set (map ?line es). CHR 0x0A \<notin> set x" "\<forall>x \<in> set (map ?line fs). CHR 0x0A \<notin> set x"
    using assms(3) int_text_plain by fastforce+
  then have "split_on (CHR 0x0A) (digest_text es) = map ?line es" "split_on (CHR 0x0A) (digest_text fs) = map ?line fs"
    using split_join [of "map ?line es" "CHR 0x0A"] split_join [of "map ?line fs" "CHR 0x0A"] False ne
    by (simp_all only: digest_text_def map_is_Nil_conv not_False_eq_True)
  then have lines: "map ?line es = map ?line fs" using assms(1) by simp
  have len: "length es = length fs" using assms(2) by (metis length_map)
  have "ev_hash (es ! i) = ev_hash (fs ! i)" if i: "i < length es" for i
  proof -
    have "?line (es ! i) = ?line (fs ! i)" using arg_cong [OF lines, of "\<lambda>l. l ! i"] i len by simp
    moreover have "ev_seq (es ! i) = ev_seq (fs ! i)" using arg_cong [OF assms(2), of "\<lambda>l. l ! i"] i len by simp
    ultimately show ?thesis by simp
  qed
  then show ?thesis using len by (simp add: list_eq_iff_nth_eq)
qed

section \<open>Gaps\<close>

lemma first_missing_least:
  assumes "sorted_wrt (<) ss" and "\<forall>s \<in> set ss. f \<le> s"
  shows "first_missing f ss \<notin> set ss \<and> f \<le> first_missing f ss \<and> (\<forall>k. f \<le> k \<and> k < first_missing f ss \<longrightarrow> k \<in> set ss)"
  using assms
proof (induction ss arbitrary: f)
  case Nil
  then show ?case by simp
next
  case (Cons s ss)
  show ?case
  proof (cases "s = f")
    case True
    have "sorted_wrt (<) ss" "\<forall>x \<in> set ss. f + 1 \<le> x" using Cons.prems(1) True by auto
    note ih = Cons.IH [OF this]
    have "k \<in> set (s # ss)" if "f \<le> k" "k < first_missing (f + 1) ss" for k
      using that ih True by (cases "k = f") auto
    moreover have "first_missing f (s # ss) = first_missing (f + 1) ss" using True by simp
    moreover have "f \<notin> {first_missing (f + 1) ss}" using ih by auto
    ultimately show ?thesis using ih True by auto
  next
    case False
    then have "f < s" using Cons.prems(2) by auto
    then show ?thesis using Cons.prems(1) False by fastforce
  qed
qed

lemma gap_exact:
  assumes "sorted_wrt (<) (map ev_seq rows)" and "\<forall>e \<in> set rows. f \<le> ev_seq e \<and> ev_seq e \<le> n" and "f \<le> n"
  shows "case gapReport f n rows of
      None \<Rightarrow> map ev_seq rows = [f..n]
    | Some r \<Rightarrow> \<exists>m found. r = Broken f n (RangeGap f n found (n - f + 1) m) (Some m) \<and> f \<le> m \<and> m \<le> n \<and>
        m \<notin> ev_seq ` set rows \<and> (\<forall>k. f \<le> k \<and> k < m \<longrightarrow> k \<in> ev_seq ` set rows)"
proof -
  have sub: "set (map ev_seq rows) \<subseteq> {f..n}" using assms(2) by auto
  have dist: "distinct (map ev_seq rows)" using assms(1) by (auto simp: strict_sorted_iff)
  have card: "card (set (map ev_seq rows)) = length rows" using distinct_card [OF dist] by simp
  show ?thesis
  proof (cases "int (length rows) = n - f + 1")
    case True
    have "card (set (map ev_seq rows)) = card {f..n}" using True card by simp
    then have "set (map ev_seq rows) = {f..n}" using sub by (intro card_subset_eq) auto
    then have "set (map ev_seq rows) = set [f..n]" by simp
    then have "map ev_seq rows = [f..n]"
      using assms(1) sorted_upto [of f n] by (auto intro: strict_sorted_equal)
    then show ?thesis using True by (simp add: gapReport_def)
  next
    case False
    let ?m = "first_missing f (map ev_seq rows)"
    have m: "?m \<notin> set (map ev_seq rows)" "f \<le> ?m" "\<forall>k. f \<le> k \<and> k < ?m \<longrightarrow> k \<in> set (map ev_seq rows)"
      using first_missing_least [OF assms(1), of f] assms(2) by auto
    have "?m \<le> n"
    proof (rule ccontr)
      assume "\<not> ?m \<le> n"
      then have "{f..n} \<subseteq> set (map ev_seq rows)" using m(3) by auto
      then have "set (map ev_seq rows) = {f..n}" using sub by blast
      then show False using card False assms(3) by simp
    qed
    then show ?thesis using False m by (auto simp: gapReport_def Let_def)
  qed
qed

section \<open>Anchors\<close>

definition anchors_of :: "integrity_db \<Rightarrow> uuid \<Rightarrow> uuid \<Rightarrow> anchor_row list" where
  "anchors_of st t w = filter (\<lambda>a. an_tenant a = t \<and> an_wh a = w) (it_anchors st)"

text \<open>The ranges of the anchors tile 1, \<dots>, the last anchored seq, in order.\<close>

fun tile :: "int \<Rightarrow> anchor_row list \<Rightarrow> bool" where
  "tile from [] = True"
| "tile from (a # as) = (an_from a = from \<and> from \<le> an_to a \<and> tile (an_to a + 1) as)"

definition anchored_through :: "integrity_db \<Rightarrow> uuid \<Rightarrow> uuid \<Rightarrow> int" where
  "anchored_through st t w = (case latest_anchor st t w of None \<Rightarrow> 0 | Some a \<Rightarrow> an_to a)"

lemma tile_snoc: "tile from (as @ [a]) =
    (tile from as \<and> an_from a = (if as = [] then from else an_to (last as) + 1) \<and> an_from a \<le> an_to a)"
  by (induction as arbitrary: "from") auto

lemma tile_ascending: "tile from as \<Longrightarrow> sorted_wrt (<) (map an_to as) \<and> (\<forall>a \<in> set as. from \<le> an_to a)"
  by (induction as arbitrary: "from") (auto, fastforce+)

lemma anchored_through_last:
  assumes "tile 1 (anchors_of st t w)"
  shows "anchored_through st t w = (if anchors_of st t w = [] then 0 else an_to (last (anchors_of st t w)))"
proof (cases "anchors_of st t w")
  case Nil
  then show ?thesis by (simp add: anchored_through_def latest_anchor_def flip: anchors_of_def)
next
  case (Cons a as)
  have "sorted_wrt (<) (map an_to (a # as))" using tile_ascending assms Cons by metis
  from fold_best_last [OF this] show ?thesis
    by (simp add: anchored_through_def latest_anchor_def Cons flip: anchors_of_def)
qed

lemma record_report_anchors: "it_anchors (record_report i n t w by r st) = it_anchors st"
  "it_ledger (record_report i n t w by r st) = it_ledger st"
  by (auto simp: record_report_def recordChainBreak_def Let_def split: chain_report.split)

lemma verify_verified:
  assumes "f \<le> n" and "verifyChainInTx sha db t w f (Some n) legacy = Verified a b c"
  shows "a = f \<and> b = n \<and> c = nat (n - f + 1)"
proof -
  let ?rows = "range_rows db t w f (Some n)"
  have gap: "gapReport f n ?rows = None"
    using assms(2) by (auto simp: verifyChainInTx_def gapReport_def Let_def split: if_splits)
  then have len: "int (length ?rows) = n - f + 1" by (simp add: gapReport_None)
  then have ne: "?rows \<noteq> []" using assms(1) by auto
  obtain prev where walk: "walk_rows sha legacy (ev_seq (last ?rows)) prev f ?rows = None"
    and res: "a = f" "b = ev_seq (last ?rows)" "c = length ?rows"
    using assms(2) gap ne walk_rows_Broken
    by (fastforce simp: verifyChainInTx_def walkChain_predecessor Let_def split: option.splits)
  have "map ev_seq ?rows = [f..n]" using walk unfolding walk_rows_None using len by simp
  then have "ev_seq (last ?rows) = n" using ne assms(1) by (metis last_map last_snoc upto_rec2)
  then show ?thesis using res len by simp
qed

lemma anchorChain_cases:
  assumes "anchorChain sha newId now t w uptoSeq st = (st', res)"
  shows "case res of
      NothingToAnchor n \<Rightarrow> st' = st \<and> n = anchored_through st t w
    | AnchorRefused r \<Rightarrow> it_anchors st' = it_anchors st \<and> it_ledger st' = it_ledger st \<and> (\<exists>f m reason b. r = Broken f m reason b)
    | Anchored a \<Rightarrow> st' = anchor_insert a st \<and> an_tenant a = t \<and> an_wh a = w \<and> an_kind a = ''verified'' \<and>
        an_from a = anchored_through st t w + 1 \<and> an_from a \<le> an_to a \<and>
        (\<exists>h. head_seq (it_ledger st) t w = Some h \<and> an_to a \<le> h) \<and>
        verifyChainInTx sha (it_ledger st) t w (an_from a) (Some (an_to a)) (legacyThroughSeqInTx st t w) =
          Verified (an_from a) (an_to a) (nat (an_to a - an_from a + 1)) \<and>
        an_digest a = digestOverRange sha (range_rows (it_ledger st) t w (an_from a) (Some (an_to a)))"
  proof -
  let ?last = "anchored_through st t w"
  have eq: "(case latest_anchor st t w of None \<Rightarrow> 0 | Some a \<Rightarrow> an_to a) = ?last" by (simp add: anchored_through_def)
  show ?thesis
  proof (cases "head_seq (it_ledger st) t w")
    case None
    then show ?thesis using assms by (auto simp: anchorChain_def Let_def eq)
  next
    case (Some h)
    define n where "n = min (case uptoSeq of None \<Rightarrow> h | Some n \<Rightarrow> n) h"
    have nh: "n \<le> h" by (simp add: n_def)
    let ?rows = "range_rows (it_ledger st) t w (?last + 1) (Some n)"
    let ?v = "verifyChainInTx sha (it_ledger st) t w (?last + 1) (Some n) (legacyThroughSeqInTx st t w)"
    have run: "anchorChain sha newId now t w uptoSeq st =
        (if ?last + 1 > n then (st, NothingToAnchor ?last)
         else case gapReport (?last + 1) n ?rows of
           Some gap \<Rightarrow> (record_report newId now t w ''anchor'' gap st, AnchorRefused gap)
         | None \<Rightarrow> (case ?v of
             Broken f t' r b \<Rightarrow> (record_report newId now t w ''anchor'' (Broken f t' r b) st, AnchorRefused (Broken f t' r b))
           | Verified _ _ _ \<Rightarrow> (let a = \<lparr>an_id = newId, an_tenant = t, an_wh = w, an_from = ?last + 1, an_to = n,
                an_digest = digestOverRange sha ?rows, an_at = now, an_kind = ''verified''\<rparr> in (anchor_insert a st, Anchored a))))"
      unfolding anchorChain_def Let_def Some eq n_def [symmetric] option.simps by (rule refl)
    show ?thesis
    proof (cases "?last + 1 > n")
      case True
      then show ?thesis using assms unfolding run by auto
    next
      case le: False
      show ?thesis
      proof (cases "gapReport (?last + 1) n ?rows")
        case (Some gap)
        moreover from this have "\<exists>f m reason b. gap = Broken f m reason b"
          by (auto simp: gapReport_def Let_def split: if_splits)
        ultimately show ?thesis using assms le unfolding run by (auto simp: record_report_anchors)
      next
        case gap: None
        show ?thesis
        proof (cases ?v)
          case (Verified a b c)
          then show ?thesis
            using assms le gap verify_verified [OF _ Verified] nh \<open>head_seq (it_ledger st) t w = Some h\<close>
            unfolding run by (auto simp: Let_def)
        next
          case (Broken a b c d)
          then show ?thesis using assms le gap unfolding run by (auto simp: record_report_anchors)
        qed
      qed
    qed
  qed
qed

lemma anchorChain_tiles:
  assumes "tile 1 (anchors_of st t w)" and "anchorChain sha newId now t w uptoSeq st = (st', res)"
  shows "tile 1 (anchors_of st' t w)"
proof (cases res)
  case (Anchored a)
  then have a: "st' = anchor_insert a st" "an_tenant a = t" "an_wh a = w"
    "an_from a = anchored_through st t w + 1" "an_from a \<le> an_to a"
    using anchorChain_cases [OF assms(2)] by simp_all
  have "anchors_of st' t w = anchors_of st t w @ [a]" by (simp add: anchors_of_def anchor_insert_def a(1-3))
  then show ?thesis using assms(1) a(4,5) anchored_through_last [OF assms(1)] by (simp add: tile_snoc)
next
  case (NothingToAnchor n)
  then show ?thesis using anchorChain_cases [OF assms(2)] assms(1) by simp
next
  case (AnchorRefused r)
  then show ?thesis using anchorChain_cases [OF assms(2)] assms(1) by (simp add: anchors_of_def)
qed

section \<open>Recorded breaks\<close>

lemma record_break_effects:
  assumes "recordChainBreak newId now t input st = (st', breakId, isNew)"
    and "distinct (map break_key (it_breaks st))"
  shows "distinct (map break_key (it_breaks st'))"
    and "isNew = ((t, bi_wh input, bi_kind input, bi_first input) \<notin> break_key ` set (it_breaks st))"
    and "(t, bi_wh input, bi_kind input, bi_first input) \<in> break_key ` set (it_breaks st')"
    and "length (it_outbox st') = length (it_outbox st) + (length (it_breaks st') - length (it_breaks st))"
    and "it_ledger st' = it_ledger st" and "it_anchors st' = it_anchors st"
proof -
  let ?key = "(t, bi_wh input, bi_kind input, bi_first input)"
  have new: "isNew = (find (\<lambda>r. break_key r = ?key) (it_breaks st) = None)"
    using assms(1) by (simp add: recordChainBreak_def Let_def split: option.splits)
  then show new': "isNew = (?key \<notin> break_key ` set (it_breaks st))" by (simp only: find_None_map)
  show "distinct (map break_key (it_breaks st'))" "?key \<in> break_key ` set (it_breaks st')"
    using assms new new' by (auto simp: recordChainBreak_def Let_def break_key_def split: if_splits)
  show "length (it_outbox st') = length (it_outbox st) + (length (it_breaks st') - length (it_breaks st))"
    "it_ledger st' = it_ledger st" "it_anchors st' = it_anchors st"
    using assms(1) by (auto simp: recordChainBreak_def Let_def)
qed
end
