(* ===== verification/LedgerAuditProperties.thy ===== *)
theory LedgerAuditProperties
  imports LedgerAudit
begin

text \<open>
  The properties of the hash chain, its anchors and its recorded breaks.
\<close>

text \<open>
  C24. Verifying a range of a warehouse succeeds if and only if its rows carry every sequence number of the
  range in order, the first links to the stored predecessor (or to the genesis hash), every row links to
  the one before it, and every stored hash is the hash of the row's bytes (below the legacy baseline, in
  the legacy form only).
\<close>

theorem verification_is_exact:
  assumes "f \<le> n"
  shows "(verifyChainInTx sha db t w f (Some n) legacy = Verified f n (nat (n - f + 1))) =
    (\<exists>prev. predecessor_hash db t w f = Some prev \<and> map ev_seq (range_rows db t w f (Some n)) = [f..n] \<and>
      chained prev (range_rows db t w f (Some n)) \<and> (\<forall>e \<in> set (range_rows db t w f (Some n)). link_ok sha legacy e))"
  by (rule verify_exact [OF assms])

theorem verification_is_exact_witness:
  "(verifyChainInTx sample_sha sample_db2 ''t'' ''w'' 2 (Some 2) 0 = Verified 2 2 (nat (2 - 2 + 1))) =
    (\<exists>prev. predecessor_hash sample_db2 ''t'' ''w'' 2 = Some prev \<and> map ev_seq (range_rows sample_db2 ''t'' ''w'' 2 (Some 2)) = [2..2] \<and>
      chained prev (range_rows sample_db2 ''t'' ''w'' 2 (Some 2)) \<and>
      (\<forall>e \<in> set (range_rows sample_db2 ''t'' ''w'' 2 (Some 2)). link_ok sample_sha 0 e))"
  by (rule verification_is_exact) simp

text \<open>
  No false alarms: in every history of appends any range of existing sequence numbers of a warehouse
  verifies.
\<close>

theorem history_verifies:
  assumes "ledger_history sha db" and "1 \<le> f" and "f \<le> n" and "n \<le> int (length (wh_events db t w))"
  shows "verifyChainInTx sha db t w f (Some n) 0 = Verified f n (nat (n - f + 1))"
  by (rule chain_verifies [OF history_chain [OF assms(1)] assms(2-4)])

lemma sample_length: "length (wh_events sample_db2 ''t'' ''w'') = 2"
  by code_simp

theorem history_verifies_witness:
  "verifyChainInTx sample_sha sample_db2 ''t'' ''w'' 2 (Some 2) 0 = Verified 2 2 1"
  using history_verifies [OF sample_history(3), of 2 2 "''t''" "''w''"] by (simp add: sample_length)

lemma range_tail:
  "1 \<le> f \<Longrightarrow> range_rows db t w f (Some n) = filter (\<lambda>e. f \<le> ev_seq e) (range_rows db t w 1 (Some n))"
  unfolding range_rows_def filter_sort filter_filter by (rule arg_cong [where f = "sort_key ev_seq"], rule filter_cong) auto

lemma filter_map_seq: "map ev_seq (filter (\<lambda>e. f \<le> ev_seq e) es) = filter (\<lambda>s. f \<le> s) (map ev_seq es)"
  by (induction es) auto

lemma last_hash_filter: "es \<noteq> [] \<Longrightarrow> P (last es) \<Longrightarrow> last_hash es = last_hash (filter P es)"
  by (cases es rule: rev_cases) (auto simp: last_hash_def)

text \<open>
  C23. Tamper evidence: let two states of a warehouse's ledger, with the same legacy baseline, both verify
  from genesis through n, and let the digest of some range ending at n (what an anchor stores) be the same
  in both. Then, as long as SHA-256 has no collision among the hashed bytes, the two ledgers hold the same n
  events in every field that is hashed: all but the client, which no hash covers (timestamps as instants,
  reference documents up to the order of their keys; at or below the baseline the hash is of the quantity
  before it was scaled, which determines the stored one).
\<close>

theorem anchored_digest_pins_ledger:
  assumes "1 \<le> f" and "f \<le> n"
    and "verifyChainInTx sha db t w 1 (Some n) legacy = Verified 1 n (nat n)"
    and "verifyChainInTx sha db' t w 1 (Some n) legacy = Verified 1 n (nat n)"
    and "digestOverRange sha (range_rows db t w f (Some n)) = digestOverRange sha (range_rows db' t w f (Some n))"
    and "inj_on sha (event_bytes legacy (range_rows db t w 1 (Some n)) \<union> event_bytes legacy (range_rows db' t w 1 (Some n)) \<union>
      {digest_text (range_rows db t w f (Some n)), digest_text (range_rows db' t w f (Some n))})"
    and "\<forall>e \<in> set (range_rows db t w 1 (Some n)) \<union> set (range_rows db' t w 1 (Some n)).
      json_ok (ev_ref e) \<and> CHR 0x0A \<notin> set (ev_hash e)"
  shows "list_all2 same_row (range_rows db t w 1 (Some n)) (range_rows db' t w 1 (Some n))"
proof -
  let ?es = "range_rows db t w 1 (Some n)" and ?fs = "range_rows db' t w 1 (Some n)"
  let ?ef = "range_rows db t w f (Some n)" and ?ff = "range_rows db' t w f (Some n)"
  have n: "1 \<le> n" using assms(1,2) by simp
  note ces = verified_prefix_chain [OF n assms(3)] and cfs = verified_prefix_chain [OF n assms(4)]
  have sub: "?ef = filter (\<lambda>e. f \<le> ev_seq e) ?es" "?ff = filter (\<lambda>e. f \<le> ev_seq e) ?fs"
    by (rule range_tail [OF assms(1)])+
  have seqs: "map ev_seq ?es = [1..n]" "map ev_seq ?fs = [1..n]" using ces cfs by (simp_all add: verified_chain_def)
  then have eqs: "map ev_seq ?ef = map ev_seq ?ff"
    by (simp only: sub filter_map_seq)
  have dtext: "digest_text ?ef = digest_text ?ff"
    using inj_onD [OF assms(6), of "digest_text ?ef" "digest_text ?ff"] assms(5)
    by (simp add: digestOverRange_def digest_text_def)
  have plain: "\<forall>e \<in> set ?ef \<union> set ?ff. CHR 0x0A \<notin> set (ev_hash e)" using assms(7) sub by auto
  have hashes: "map ev_hash ?ef = map ev_hash ?ff" by (rule digest_text_hashes [OF dtext eqs plain])
  have "last_hash ?es = last_hash ?ef" "last_hash ?fs = last_hash ?ff"
    unfolding sub using ces cfs verified_chain_last_seq [of sha legacy ?es] verified_chain_last_seq [of sha legacy ?fs] n assms(2)
    by (intro last_hash_filter; fastforce)+
  moreover have "last_hash ?ef = last_hash ?ff" using hashes by (metis last_hash_def last_map map_is_Nil_conv)
  moreover have "inj_on sha (event_bytes legacy ?es \<union> event_bytes legacy ?fs)" by (rule inj_on_subset [OF assms(6)]) blast
  ultimately show ?thesis
    using same_head_same_ledger [of sha legacy ?es ?fs] ces cfs assms(7) by simp
qed

text \<open>Two different ledgers with one digest: event 1 lies below the baseline, event 2 differs in its client.\<close>

definition legacy_event1 :: ledger_event where
  "legacy_event1 = sample_event1\<lparr>ev_hash := ''405''\<rparr>"

definition legacy_event2 :: "uuid \<Rightarrow> ledger_event" where
  "legacy_event2 client = sample_event2\<lparr>ev_prev := ''405'', ev_client := client\<rparr>"

definition legacy_ledger :: "uuid \<Rightarrow> ledger_db" where
  "legacy_ledger client = sample_db2\<lparr>db_events := [legacy_event1, legacy_event2 client]\<rparr>"

lemma legacy_ledger_verifies:
  "verifyChainInTx sample_sha (legacy_ledger ''c'') ''t'' ''w'' 1 (Some 2) 1 = Verified 1 2 (nat 2)"
  "verifyChainInTx sample_sha (legacy_ledger ''d'') ''t'' ''w'' 1 (Some 2) 1 = Verified 1 2 (nat 2)"
  by code_simp+

lemma legacy_ledger_rows:
  "range_rows (legacy_ledger ''c'') ''t'' ''w'' 1 (Some 2) = [legacy_event1, legacy_event2 ''c'']"
  "range_rows (legacy_ledger ''d'') ''t'' ''w'' 1 (Some 2) = [legacy_event1, legacy_event2 ''d'']"
  "range_rows (legacy_ledger ''c'') ''t'' ''w'' 2 (Some 2) = [legacy_event2 ''c'']"
  "range_rows (legacy_ledger ''d'') ''t'' ''w'' 2 (Some 2) = [legacy_event2 ''d'']"
  "legacy_event2 ''c'' \<noteq> legacy_event2 ''d''"
  by code_simp+

lemma legacy_event2_bytes: "hashed_event 1 (legacy_event2 client) = hashed_event 1 (legacy_event2 ''c'')"
  by (simp add: hashed_event_def legacy_event2_def sample_event2_def canonicalEventOf_def canonical_event.defs)

lemma legacy_bytes_distinct:
  "inj_on sample_sha (event_bytes 1 [legacy_event1, legacy_event2 ''c''] \<union> event_bytes 1 [legacy_event1, legacy_event2 ''d''] \<union>
      {digest_text [legacy_event2 ''c''], digest_text [legacy_event2 ''d'']})"
proof -
  have "eventHashOf sample_sha (hashed_event 1 legacy_event1) = Inr ''405''"
    "eventHashOf sample_sha (hashed_event 1 (legacy_event2 ''c'')) = Inr ''334''"
    by code_simp+
  then obtain x y where x: "canonicalEventBytes (hashed_event 1 legacy_event1) = Inr x" "sample_sha x = ''405''"
    and y: "canonicalEventBytes (hashed_event 1 (legacy_event2 ''c'')) = Inr y" "sample_sha y = ''334''"
    by (auto simp: eventHashOf_def)
  have z: "digest_text [legacy_event2 ''d''] = digest_text [legacy_event2 ''c'']"
    "sample_sha (digest_text [legacy_event2 ''c'']) = ''5''" by code_simp+
  have "event_bytes 1 [legacy_event1, legacy_event2 client] = {x, y}" for client
    using x(1) y(1) by (auto simp: event_bytes_def legacy_event2_bytes [of client])
  then show ?thesis unfolding inj_on_def z(1) using x(2) y(2) z(2) by auto
qed

theorem anchored_digest_pins_ledger_witness:
  "list_all2 same_row (range_rows (legacy_ledger ''c'') ''t'' ''w'' 1 (Some 2)) (range_rows (legacy_ledger ''d'') ''t'' ''w'' 1 (Some 2)) \<and>
   range_rows (legacy_ledger ''c'') ''t'' ''w'' 1 (Some 2) \<noteq> range_rows (legacy_ledger ''d'') ''t'' ''w'' 1 (Some 2)"
proof
  show "list_all2 same_row (range_rows (legacy_ledger ''c'') ''t'' ''w'' 1 (Some 2)) (range_rows (legacy_ledger ''d'') ''t'' ''w'' 1 (Some 2))"
  proof (rule anchored_digest_pins_ledger [OF _ _ legacy_ledger_verifies, of 2])
    show "\<forall>e \<in> set (range_rows (legacy_ledger ''c'') ''t'' ''w'' 1 (Some 2)) \<union> set (range_rows (legacy_ledger ''d'') ''t'' ''w'' 1 (Some 2)).
        json_ok (ev_ref e) \<and> CHR 0x0A \<notin> set (ev_hash e)"
      by code_simp
    show "digestOverRange sample_sha (range_rows (legacy_ledger ''c'') ''t'' ''w'' 2 (Some 2)) =
        digestOverRange sample_sha (range_rows (legacy_ledger ''d'') ''t'' ''w'' 2 (Some 2))"
      by code_simp
    show "inj_on sample_sha
        (event_bytes 1 (range_rows (legacy_ledger ''c'') ''t'' ''w'' 1 (Some 2)) \<union>
         event_bytes 1 (range_rows (legacy_ledger ''d'') ''t'' ''w'' 1 (Some 2)) \<union>
         {digest_text (range_rows (legacy_ledger ''c'') ''t'' ''w'' 2 (Some 2)),
          digest_text (range_rows (legacy_ledger ''d'') ''t'' ''w'' 2 (Some 2))})"
      unfolding legacy_ledger_rows by (rule legacy_bytes_distinct)
  qed simp_all
  show "range_rows (legacy_ledger ''c'') ''t'' ''w'' 1 (Some 2) \<noteq> range_rows (legacy_ledger ''d'') ''t'' ''w'' 1 (Some 2)"
    using legacy_ledger_rows by simp
qed

text \<open>
  A range with a missing event is refused by name: over rows read in ascending order, the contiguity
  check passes exactly when the rows are the whole range, and otherwise names the least sequence number of
  the range that is missing.
\<close>

theorem gap_names_first_missing:
  assumes "sorted_wrt (<) (map ev_seq rows)" and "\<forall>e \<in> set rows. f \<le> ev_seq e \<and> ev_seq e \<le> n" and "f \<le> n"
  shows "case gapReport f n rows of
      None \<Rightarrow> map ev_seq rows = [f..n]
    | Some r \<Rightarrow> \<exists>m found. r = Broken f n (RangeGap f n found (n - f + 1) m) (Some m) \<and> f \<le> m \<and> m \<le> n \<and>
        m \<notin> ev_seq ` set rows \<and> (\<forall>k. f \<le> k \<and> k < m \<longrightarrow> k \<in> ev_seq ` set rows)"
  by (rule gap_exact [OF assms])

theorem gap_names_first_missing_witness:
  "case gapReport 1 3 [sample_event1] of
      None \<Rightarrow> map ev_seq [sample_event1] = [1..3]
    | Some r \<Rightarrow> \<exists>m found. r = Broken 1 3 (RangeGap 1 3 found (3 - 1 + 1) m) (Some m) \<and> 1 \<le> m \<and> m \<le> 3 \<and>
        m \<notin> ev_seq ` set [sample_event1] \<and> (\<forall>k. 1 \<le> k \<and> k < m \<longrightarrow> k \<in> ev_seq ` set [sample_event1])"
  by (rule gap_names_first_missing) (simp_all add: sample_event1_def)

text \<open>
  Anchoring: when the anchors of a warehouse tile 1, \<dots>, the last anchored seq, they still do after any
  \<open>anchorChain\<close>; a new anchor starts right after the last one, ends at or below the head, covers a range
  that verified, and stores the digest of exactly that range; a refusal or a no-op adds no anchor.
\<close>

theorem anchors_tile_ledger:
  assumes "tile 1 (anchors_of st t w)" and "anchorChain sha newId now t w uptoSeq st = (st', res)"
  shows "tile 1 (anchors_of st' t w) \<and>
    (case res of
      NothingToAnchor n \<Rightarrow> st' = st \<and> n = anchored_through st t w
    | AnchorRefused r \<Rightarrow> it_anchors st' = it_anchors st \<and> it_ledger st' = it_ledger st \<and> (\<exists>f m reason b. r = Broken f m reason b)
    | Anchored a \<Rightarrow> st' = anchor_insert a st \<and> an_tenant a = t \<and> an_wh a = w \<and> an_kind a = ''verified'' \<and>
        an_from a = anchored_through st t w + 1 \<and> an_from a \<le> an_to a \<and>
        (\<exists>h. head_seq (it_ledger st) t w = Some h \<and> an_to a \<le> h) \<and>
        verifyChainInTx sha (it_ledger st) t w (an_from a) (Some (an_to a)) (legacyThroughSeqInTx st t w) =
          Verified (an_from a) (an_to a) (nat (an_to a - an_from a + 1)) \<and>
        an_digest a = digestOverRange sha (range_rows (it_ledger st) t w (an_from a) (Some (an_to a))))"
  using anchorChain_tiles [OF assms] anchorChain_cases [OF assms(2)] by blast

definition sample_integrity :: integrity_db where
  "sample_integrity = \<lparr>it_ledger = sample_db2, it_state = [\<lparr>in_tenant = ''t'', in_wh = ''w'', in_legacy = 0, in_broken = None, in_broken_at = None\<rparr>],
     it_breaks = [], it_anchors = [], it_outbox = []\<rparr>"

definition sample_broken :: integrity_db where
  "sample_broken = sample_integrity\<lparr>it_ledger := sample_db2\<lparr>db_events := [sample_event2]\<rparr>\<rparr>"

theorem anchors_tile_ledger_witness:
  "tile 1 (anchors_of (fst (anchorChain sample_sha ''a'' 5 ''t'' ''w'' None sample_broken)) ''t'' ''w'')"
proof -
  have "tile 1 (anchors_of sample_broken ''t'' ''w'')" by (simp add: sample_broken_def sample_integrity_def anchors_of_def)
  from anchors_tile_ledger [OF this] show ?thesis by (metis prod.collapse)
qed

text \<open>
  Recording a break: breaks stay unique per warehouse, kind and first broken seq; one that is already
  recorded is found again and raises no second alert, a new one is stored and raises exactly one.
\<close>

theorem break_recorded_once:
  assumes "recordChainBreak newId now t input st = (st', breakId, isNew)"
    and "distinct (map break_key (it_breaks st))"
  shows "distinct (map break_key (it_breaks st')) \<and>
    isNew = ((t, bi_wh input, bi_kind input, bi_first input) \<notin> break_key ` set (it_breaks st)) \<and>
    (t, bi_wh input, bi_kind input, bi_first input) \<in> break_key ` set (it_breaks st') \<and>
    length (it_outbox st') = length (it_outbox st) + (if isNew then 1 else 0) \<and>
    length (it_breaks st') = length (it_breaks st) + (if isNew then 1 else 0) \<and>
    it_ledger st' = it_ledger st \<and> it_anchors st' = it_anchors st"
proof -
  have "length (it_breaks st') = length (it_breaks st) + (if isNew then 1 else 0)"
    using assms(1) by (auto simp: recordChainBreak_def Let_def)
  then show ?thesis using record_break_effects [OF assms] by simp
qed

definition sample_break :: break_input where
  "sample_break = breakInputOf ''w'' 1 2 (RangeGap 1 2 1 2 1) (Some 1) ''verify''"

theorem break_recorded_once_witness:
  "length (it_outbox (fst (recordChainBreak ''x'' 5 ''t'' sample_break sample_broken))) = 1"
proof -
  let ?r = "recordChainBreak ''x'' 5 ''t'' sample_break sample_broken"
  have d: "distinct (map break_key (it_breaks sample_broken))" by (simp add: sample_broken_def sample_integrity_def)
  have "?r = (fst ?r, fst (snd ?r), snd (snd ?r))" by simp
  from break_recorded_once [OF this d] show ?thesis
    by (simp add: sample_broken_def sample_integrity_def)
qed
end
