(* ===== verification/BatchAllocation.thy ===== *)
theory BatchAllocation
  imports Time "HOL-Library.Product_Lexorder" "HOL-Library.Multiset"
begin

text \<open>
  \<open>shared/primitives/batch-allocation.ts\<close> and \<open>batch-expiry.ts\<close>: the one allocation rule and the one
  allocatability predicate of the draw and the promise side. A stored instant is what \<open>Date.parse\<close>
  reads from it: \<open>Instant ms\<close>, or \<open>Unparseable\<close> (NaN). A sort key that may be \<open>+Infinity\<close> is a pair of
  the infinity flag and the finite value.
\<close>

datatype stored_instant = Instant millis | Unparseable

section \<open>Expiry\<close>

definition isBatchExpiredAt :: "stored_instant option \<Rightarrow> millis \<Rightarrow> bool" where
  "isBatchExpiredAt expiryDate at =
     (case expiryDate of None \<Rightarrow> False
      | Some (Instant ms) \<Rightarrow> \<not> at \<le> ms
      | Some Unparseable \<Rightarrow> True)"

definition ist_date :: "millis \<Rightarrow> iso_date" where
  "ist_date ms = date_of_day ((ms + ist_offset_ms) div ms_per_day)"

definition meetsMinimumShelfLife :: "stored_instant option \<Rightarrow> millis \<Rightarrow> int option \<Rightarrow> iso_date option \<Rightarrow> bool" where
  "meetsMinimumShelfLife expiryDate opAtMs minDays minJudgedOn =
     (case (minDays, expiryDate) of
        (Some days, Some (Instant ms)) \<Rightarrow>
          (let judgedOn = (case minJudgedOn of None \<Rightarrow> ist_date opAtMs | Some d \<Rightarrow> d)
           in days \<le> istDaysBetween judgedOn (ist_date ms))
      | (Some days, Some Unparseable) \<Rightarrow> False
      | _ \<Rightarrow> True)"

definition isBatchAllocatableAt :: "string \<Rightarrow> stored_instant option \<Rightarrow> millis \<Rightarrow> int option \<Rightarrow> iso_date option \<Rightarrow> bool" where
  "isBatchAllocatableAt status expiryDate opAtMs minDays minJudgedOn =
     (if status \<noteq> ''active'' then False
      else if isBatchExpiredAt expiryDate opAtMs then False
      else meetsMinimumShelfLife expiryDate opAtMs minDays minJudgedOn)"

definition minimumJudgementDate :: "iso_date \<Rightarrow> iso_date \<Rightarrow> iso_date" where
  "minimumJudgementDate planIstDate pickIstDate =
     (let pickMinusOne = addIsoDays pickIstDate (-1)
      in if pickMinusOne < planIstDate then planIstDate else pickMinusOne)"

section \<open>The client's rule\<close>

datatype allocation_rule = Fefo | Fifo

definition isAllocationRule :: "string \<Rightarrow> bool" where
  "isAllocationRule v = (v \<in> set [''fefo'', ''fifo''])"

definition effectiveLineRule :: "string option \<Rightarrow> allocation_rule" where
  "effectiveLineRule rule = (if rule = Some ''fifo'' then Fifo else Fefo)"

record batch_facts =
  bf_expiry :: "stored_instant option"
  bf_created :: stored_instant

record slot =
  sl_walk :: int
  sl_batch :: "string option"

definition rank_instant :: "stored_instant \<Rightarrow> bool \<times> int" where
  "rank_instant i = (case i of Instant ms \<Rightarrow> (False, ms) | Unparseable \<Rightarrow> (True, 0))"

definition slot_class_key :: "allocation_rule \<Rightarrow> (string \<Rightarrow> batch_facts option) \<Rightarrow> 'a slot_scheme \<Rightarrow> nat \<times> bool \<times> int" where
  "slot_class_key rule factsOf slot =
     (case sl_batch slot of None \<Rightarrow> (2, False, 0)
      | Some batch \<Rightarrow>
         (let facts = factsOf batch;
              received = (case facts of None \<Rightarrow> (True, 0) | Some f \<Rightarrow> rank_instant (bf_created f))
          in case rule of
               Fifo \<Rightarrow> (0, received)
             | Fefo \<Rightarrow> (case facts of
                 Some f \<Rightarrow> (case bf_expiry f of Some e \<Rightarrow> (0, rank_instant e) | None \<Rightarrow> (1, received))
               | None \<Rightarrow> (1, received))))"

definition slot_key :: "allocation_rule \<Rightarrow> (string \<Rightarrow> batch_facts option) \<Rightarrow> 'a slot_scheme
    \<Rightarrow> (nat \<times> bool \<times> int) \<times> int \<times> string" where
  "slot_key rule factsOf slot =
     (slot_class_key rule factsOf slot, sl_walk slot, (case sl_batch slot of None \<Rightarrow> '''' | Some b \<Rightarrow> b))"

definition rankSlots :: "'a slot_scheme list \<Rightarrow> allocation_rule \<Rightarrow> (string \<Rightarrow> batch_facts option) \<Rightarrow> 'a slot_scheme list" where
  "rankSlots slots rule factsOf = sort_key (slot_key rule factsOf) slots"

section \<open>The consignee's minimum\<close>

record consignee_rule =
  cr_days :: "int option"
  cr_percent :: "int option"

record consignee_arm =
  ca_days :: "int option"
  ca_judgeable :: bool

definition consigneeMinimumDays :: "consignee_rule \<Rightarrow> int option \<Rightarrow> consignee_arm" where
  "consigneeMinimumDays rule skuShelfLifeDays =
     (case cr_percent rule of
        None \<Rightarrow> \<lparr>ca_days = cr_days rule, ca_judgeable = True\<rparr>
      | Some percent \<Rightarrow>
          (case skuShelfLifeDays of
             None \<Rightarrow> \<lparr>ca_days = None, ca_judgeable = False\<rparr>
           | Some shelf \<Rightarrow>
               (let converted = (percent * shelf + 99) div 100
                in \<lparr>ca_days = Some (max (case cr_days rule of None \<Rightarrow> 0 | Some d \<Rightarrow> d) converted), ca_judgeable = True\<rparr>)))"

definition meetsConsigneeShelfLife :: "string option \<Rightarrow> stored_instant option \<Rightarrow> bool \<Rightarrow> millis \<Rightarrow> consignee_arm option
    \<Rightarrow> iso_date option \<Rightarrow> bool" where
  "meetsConsigneeShelfLife batchId expiryDate batchTracked opAtMs consignee minJudgedOn =
     (case consignee of None \<Rightarrow> True
      | Some arm \<Rightarrow>
          if \<not> batchTracked then True
          else if batchId = None \<or> expiryDate = None then False
          else if \<not> ca_judgeable arm \<or> ca_days arm = None then False
          else meetsMinimumShelfLife expiryDate opAtMs (ca_days arm) minJudgedOn)"

record consignee_columns =
  cc_partner :: "uuid option"
  cc_days :: "int option"
  cc_percent :: "int option"

record frozen_arm = consignee_arm +
  fa_partner :: uuid
  fa_percent :: "int option"

definition consigneeArmOf :: "consignee_columns \<Rightarrow> frozen_arm option" where
  "consigneeArmOf line =
     (case cc_partner line of None \<Rightarrow> None
      | Some partner \<Rightarrow>
          (let judgeable = (\<not> (cc_percent line \<noteq> None \<and> cc_days line = None))
           in Some \<lparr>ca_days = (if judgeable then cc_days line else None), ca_judgeable = judgeable,
                fa_partner = partner, fa_percent = cc_percent line\<rparr>))"

section \<open>Lemmas\<close>

lemma istDateOf_ist_date: "istDateOf (Some ms) = Inr (ist_date ms)"
  by (simp add: istDateOf_def ist_date_def)

lemma allocatable_dated:
  "isBatchAllocatableAt status (Some (Instant e)) at (Some d) None =
   (status = ''active'' \<and> at \<le> e \<and> at < istMidnightOf (addIsoDays (ist_date e) (1 - d)))"
proof -
  have "(at < istMidnightOf (addIsoDays (ist_date e) (1 - d))) =
      ((at + ist_offset_ms) div ms_per_day < (e + ist_offset_ms) div ms_per_day + (1 - d))"
    by (simp add: addIsoDays_def ist_date_def istMidnightOf_le_iff)
  then show ?thesis
    by (auto simp: isBatchAllocatableAt_def isBatchExpiredAt_def meetsMinimumShelfLife_def ist_date_def)
qed

lemma rankSlots_sorted: "sorted (map (slot_key rule factsOf) (rankSlots slots rule factsOf))"
  by (simp add: rankSlots_def)

lemma rankSlots_class_sorted: "sorted (map (slot_class_key rule factsOf) (rankSlots slots rule factsOf))"
proof -
  have "sorted_wrt (\<lambda>a b. slot_key rule factsOf a \<le> slot_key rule factsOf b) (rankSlots slots rule factsOf)"
    using rankSlots_sorted [of rule factsOf slots] by (simp add: sorted_wrt_map)
  then have "sorted_wrt (\<lambda>a b. slot_class_key rule factsOf a \<le> slot_class_key rule factsOf b) (rankSlots slots rule factsOf)"
    by (rule sorted_wrt_mono_rel [rotated]) (auto simp: slot_key_def less_eq_prod_def less_prod_def)
  then show ?thesis by (simp add: sorted_wrt_map)
qed

lemma ceiling_percent: "((x + 99) div 100 \<le> d) = (x \<le> 100 * d)" for x d :: int
  using floor_less_iff_mult [of 100 "x + 99" "d + 1"] by linarith

section \<open>Properties\<close>

text \<open>
  The window in which a dated batch may be allocated under a client minimum of d days: it is active,
  the operation is at or before the expiry instant, and strictly before the IST midnight that begins
  the day d - 1 days ahead of the expiry's IST date. So the predicate is monotone in time (a batch
  once refused stays refused) and flips exactly at an IST midnight or at the expiry.
\<close>

theorem allocatable_window:
  "isBatchAllocatableAt status (Some (Instant e)) at (Some d) None =
     (status = ''active'' \<and> at \<le> e \<and> at < istMidnightOf (addIsoDays (ist_date e) (1 - d))) \<and>
   isBatchAllocatableAt status (Some (Instant e)) at None None = (status = ''active'' \<and> at \<le> e) \<and>
   isBatchAllocatableAt status None at (Some d) None = (status = ''active'') \<and>
   \<not> isBatchAllocatableAt status (Some Unparseable) at minDays judged"
  using allocatable_dated [of status e at d]
  by (simp add: isBatchAllocatableAt_def isBatchExpiredAt_def meetsMinimumShelfLife_def not_le not_less)

text \<open>
  The ranking is a stable sort of the slots it is given: nothing is lost or invented, the order is
  ascending by class (dated, undated, batch-less under FEFO; batches, batch-less under FIFO), then by
  expiry or first receipt, then by walk rank and batch id, and equal slots keep their order.
\<close>

theorem rankSlots_stable_order:
  "mset (rankSlots slots rule factsOf) = mset slots \<and>
   sorted (map (slot_key rule factsOf) (rankSlots slots rule factsOf)) \<and>
   sorted (map (slot_class_key rule factsOf) (rankSlots slots rule factsOf)) \<and>
   filter (\<lambda>s. slot_key rule factsOf s = k) (rankSlots slots rule factsOf) = filter (\<lambda>s. slot_key rule factsOf s = k) slots"
  using rankSlots_sorted rankSlots_class_sorted sort_key_stable [of "slot_key rule factsOf" k slots]
  by (simp add: rankSlots_def)

text \<open>
  The consignee's effective minimum is the least whole number of days that satisfies every rule that
  is set: at least the days rule, and at least the stated percent of the SKU's total shelf life; a
  percent rule without a total shelf life makes the line unjudgeable, and then no dated or undated
  unit of a tracked SKU meets it.
\<close>

theorem consignee_minimum_is_least:
  "(\<exists>n. consigneeMinimumDays \<lparr>cr_days = days, cr_percent = Some percent\<rparr> (Some shelf) = \<lparr>ca_days = Some n, ca_judgeable = True\<rparr> \<and>
      (\<forall>d. (n \<le> d) = ((case days of None \<Rightarrow> 0 | Some m \<Rightarrow> m) \<le> d \<and> percent * shelf \<le> 100 * d))) \<and>
   (\<not> meetsConsigneeShelfLife batchId expiryDate True at
      (Some (consigneeMinimumDays \<lparr>cr_days = days, cr_percent = Some percent\<rparr> None)) judged)"
  by (simp add: consigneeMinimumDays_def meetsConsigneeShelfLife_def ceiling_percent Let_def)

end
