(* ===== verification/Availability.thy ===== *)
theory Availability
  imports LedgerReplay BatchAllocation
begin

text \<open>
  What a grant may promise (\<open>modules/inventory/reservation.service.ts\<close>): the four system-bin hooks, the
  unpromisable hook with its lazily read client minimum and its widened SQL filter, the buffer term, the
  committed on-hand under open quarantines, and the ceiling. A SQL inner join is a filter over the
  product of its tables, so a join that matched a row twice would count it twice, as it does in SQL.
  A stored \<open>timestamptz\<close> is a whole millisecond.
\<close>

section \<open>Tables\<close>

record bin_row =
  bn_id :: uuid
  bn_tenant :: uuid
  bn_wh :: uuid
  bn_code :: string
  bn_system :: bool
  bn_blocked :: bool

record quarantine_row =
  qu_id :: uuid
  qu_tenant :: uuid
  qu_wh :: uuid
  qu_sku :: uuid
  qu_bin :: uuid
  qu_from :: int
  qu_to :: int
  qu_open :: bool

record lot_row =
  lo_tenant :: uuid
  lo_id :: uuid
  lo_status :: string
  lo_expiry :: "millis option"

record client_row =
  cl_tenant :: uuid
  cl_id :: uuid
  cl_rule :: string
  cl_min_days :: "int option"

datatype reservation_state = Held | Committed | Released | Expired

record reservation_row =
  rv_id :: uuid
  rv_tenant :: uuid
  rv_wh :: uuid
  rv_sku :: uuid
  rv_owner_type :: string
  rv_owner :: string
  rv_qty :: int
  rv_state :: reservation_state
  rv_expires :: "millis option"

record inventory_db =
  iv_ledger :: ledger_db
  iv_bins :: "bin_row list"
  iv_quarantines :: "quarantine_row list"
  iv_lots :: "lot_row list"
  iv_clients :: "client_row list"
  iv_reservations :: "reservation_row list"

definition QC_HOLD_BIN_CODE :: string where "QC_HOLD_BIN_CODE = ''QC-HOLD''"
definition IN_TRANSIT_BIN_CODE :: string where "IN_TRANSIT_BIN_CODE = ''IN-TRANSIT''"
definition RETURNS_BIN_CODE :: string where "RETURNS_BIN_CODE = ''RETURNS''"
definition DAMAGED_BIN_CODE :: string where "DAMAGED_BIN_CODE = ''DAMAGED''"
definition BUFFER_OWNER_TYPE :: string where "BUFFER_OWNER_TYPE = ''buffer''"

section \<open>The system-bin hooks\<close>

definition stock_scope :: "uuid \<Rightarrow> uuid \<Rightarrow> uuid \<Rightarrow> stock_row \<Rightarrow> bool" where
  "stock_scope t w s r = (so_tenant r = t \<and> so_wh r = w \<and> so_sku r = s)"

definition stock_bins :: "inventory_db \<Rightarrow> (stock_row \<times> bin_row) list" where
  "stock_bins iv = filter (\<lambda>(r, b). bn_id b = so_bin r) (List.product (db_stock (iv_ledger iv)) (iv_bins iv))"

definition qcHeldUnits :: "inventory_db \<Rightarrow> uuid \<Rightarrow> uuid \<Rightarrow> uuid \<Rightarrow> int" where
  "qcHeldUnits iv t w s = sum_where (\<lambda>(r, b). stock_scope t w s r \<and> bn_tenant b = t \<and> bn_wh b = w \<and>
     bn_code b = QC_HOLD_BIN_CODE \<and> bn_system b) (\<lambda>(r, b). so_qty r) (stock_bins iv)"

definition inTransitUnits :: "inventory_db \<Rightarrow> uuid \<Rightarrow> uuid \<Rightarrow> uuid \<Rightarrow> int" where
  "inTransitUnits iv t w s = sum_where (\<lambda>(r, b). stock_scope t w s r \<and> bn_tenant b = t \<and> bn_wh b = w \<and>
     bn_code b = IN_TRANSIT_BIN_CODE \<and> bn_system b) (\<lambda>(r, b). so_qty r) (stock_bins iv)"

definition returnsAwaitingUnits :: "inventory_db \<Rightarrow> uuid \<Rightarrow> uuid \<Rightarrow> uuid \<Rightarrow> int" where
  "returnsAwaitingUnits iv t w s = sum_where (\<lambda>(r, b). stock_scope t w s r \<and> bn_tenant b = t \<and> bn_wh b = w \<and>
     bn_code b = RETURNS_BIN_CODE \<and> bn_system b) (\<lambda>(r, b). so_qty r) (stock_bins iv)"

definition damagedUnits :: "inventory_db \<Rightarrow> uuid \<Rightarrow> uuid \<Rightarrow> uuid \<Rightarrow> int" where
  "damagedUnits iv t w s = sum_where (\<lambda>(r, b). stock_scope t w s r \<and> bn_tenant b = t \<and> bn_wh b = w \<and>
     bn_code b = DAMAGED_BIN_CODE \<and> bn_system b) (\<lambda>(r, b). so_qty r) (stock_bins iv)"

section \<open>The unpromisable hook\<close>

definition quarantined :: "inventory_db \<Rightarrow> uuid \<Rightarrow> uuid \<Rightarrow> uuid \<Rightarrow> uuid \<Rightarrow> bool" where
  "quarantined iv t w s bin = (\<exists>q \<in> set (iv_quarantines iv).
     qu_tenant q = t \<and> qu_wh q = w \<and> qu_sku q = s \<and> qu_bin q = bin \<and> qu_open q)"

definition blocked_bin_units :: "inventory_db \<Rightarrow> uuid \<Rightarrow> uuid \<Rightarrow> uuid \<Rightarrow> int" where
  "blocked_bin_units iv t w s = sum_where (\<lambda>(r, b). stock_scope t w s r \<and> 0 < so_qty r \<and> bn_tenant b = t \<and>
     bn_blocked b \<and> \<not> bn_system b \<and> \<not> quarantined iv t w s (so_bin r)) (\<lambda>(r, b). so_qty r) (stock_bins iv)"

definition minOutboundShelfLifeOfSkuInTx :: "inventory_db \<Rightarrow> uuid \<Rightarrow> uuid \<Rightarrow> int option" where
  "minOutboundShelfLifeOfSkuInTx iv t s =
     (case find (\<lambda>k. sk_tenant k = t \<and> sk_id k = s) (db_skus (iv_ledger iv)) of
        None \<Rightarrow> None
      | Some k \<Rightarrow> (case find (\<lambda>c. cl_tenant c = t \<and> cl_id c = sk_client k) (iv_clients iv) of
          None \<Rightarrow> None
        | Some c \<Rightarrow> cl_min_days c))"

definition batch_scope :: "uuid \<Rightarrow> uuid \<Rightarrow> uuid \<Rightarrow> batch_row \<Rightarrow> bool" where
  "batch_scope t w s r = (ba_tenant r = t \<and> ba_wh r = w \<and> ba_sku r = s \<and> 0 < ba_qty r)"

definition dated_live :: "inventory_db \<Rightarrow> uuid \<Rightarrow> uuid \<Rightarrow> uuid \<Rightarrow> millis \<Rightarrow> bool" where
  "dated_live iv t w s cutoff =
     list_ex (\<lambda>(r, l). lo_tenant l = t \<and> lo_id l = ba_batch r \<and> batch_scope t w s r \<and> lo_status l = ''active'' \<and>
       (case lo_expiry l of None \<Rightarrow> False | Some e \<Rightarrow> cutoff \<le> e))
       (List.product (db_batches (iv_ledger iv)) (iv_lots iv))"

definition skipped_system_bin :: "bin_row \<Rightarrow> bool" where
  "skipped_system_bin b = (bn_system b \<and>
     bn_code b \<in> set [QC_HOLD_BIN_CODE, DAMAGED_BIN_CODE, RETURNS_BIN_CODE, IN_TRANSIT_BIN_CODE])"

record unpromisable_row =
  ur_bin :: uuid
  ur_qty :: int
  ur_status :: string
  ur_expiry :: "millis option"
  ur_on_hand :: int

definition batch_join :: "inventory_db \<Rightarrow> uuid \<Rightarrow> uuid \<Rightarrow> uuid \<Rightarrow> unpromisable_row list" where
  "batch_join iv t w s =
     [\<lparr>ur_bin = ba_bin r, ur_qty = ba_qty r, ur_status = lo_status l, ur_expiry = lo_expiry l, ur_on_hand = so_qty o'\<rparr>.
        r \<leftarrow> db_batches (iv_ledger iv), l \<leftarrow> iv_lots iv, b \<leftarrow> iv_bins iv, o' \<leftarrow> db_stock (iv_ledger iv),
        lo_tenant l = t \<and> lo_id l = ba_batch r \<and> bn_id b = ba_bin r \<and>
        so_tenant o' = t \<and> so_wh o' = w \<and> so_sku o' = s \<and> so_bin o' = ba_bin r \<and>
        batch_scope t w s r \<and> bn_tenant b = t \<and> \<not> skipped_system_bin b \<and>
        \<not> quarantined iv t w s (ba_bin r) \<and> \<not> bn_blocked b]"

definition by_bin_step :: "(uuid \<times> (int \<times> int)) list \<Rightarrow> unpromisable_row \<Rightarrow> (uuid \<times> (int \<times> int)) list" where
  "by_bin_step byBin row =
     (let entry = (case map_of byBin (ur_bin row) of None \<Rightarrow> (0, ur_on_hand row) | Some e \<Rightarrow> e)
      in AList.update (ur_bin row) (fst entry + ur_qty row, snd entry) byBin)"

definition unpromisable_total :: "unpromisable_row list \<Rightarrow> int" where
  "unpromisable_total rows = sum_list (map (\<lambda>(bin, sum, on_hand). min sum on_hand) (foldl by_bin_step [] rows))"

definition allocatable_row :: "millis \<Rightarrow> int option \<Rightarrow> unpromisable_row \<Rightarrow> bool" where
  "allocatable_row at minDays row =
     (ur_status row \<noteq> ''blocked'' \<and>
      isBatchAllocatableAt ''active'' (map_option Instant (ur_expiry row)) at minDays None)"

definition unpromisableBatchUnits :: "inventory_db \<Rightarrow> uuid \<Rightarrow> uuid \<Rightarrow> uuid \<Rightarrow> millis \<Rightarrow> int" where
  "unpromisableBatchUnits iv t w s at =
     (let minDays = (if dated_live iv t w s at then minOutboundShelfLifeOfSkuInTx iv t s else None);
          boundary = (case minDays of None \<Rightarrow> at | Some d \<Rightarrow> istMidnightOf (addIsoDays (ist_date at) d));
          cutoff = (if at < boundary then boundary else at);
          rows = filter (\<lambda>row. ur_status row = ''blocked'' \<or>
              (case ur_expiry row of None \<Rightarrow> False | Some e \<Rightarrow> e < cutoff)) (batch_join iv t w s)
      in unpromisable_total (filter (\<lambda>row. \<not> allocatable_row at minDays row) rows))"

definition unpromisableUnits :: "inventory_db \<Rightarrow> uuid \<Rightarrow> uuid \<Rightarrow> uuid \<Rightarrow> millis \<Rightarrow> int \<times> int" where
  "unpromisableUnits iv t w s at = (unpromisableBatchUnits iv t w s at, blocked_bin_units iv t w s)"

section \<open>Buffers, on-hand and the ceiling\<close>

definition bufferUnits :: "inventory_db \<Rightarrow> uuid \<Rightarrow> uuid \<Rightarrow> uuid \<Rightarrow> string option \<Rightarrow> int" where
  "bufferUnits iv t w s ownerId = sum_where (\<lambda>r. rv_tenant r = t \<and> rv_wh r = w \<and> rv_sku r = s \<and>
     rv_owner_type r = BUFFER_OWNER_TYPE \<and> rv_state r = Held \<and>
     (case ownerId of None \<Rightarrow> True | Some o' \<Rightarrow> rv_owner r = o')) rv_qty (iv_reservations iv)"

definition committedOnHand :: "inventory_db \<Rightarrow> uuid \<Rightarrow> uuid \<Rightarrow> uuid \<Rightarrow> int" where
  "committedOnHand iv t w s =
     sum_where (\<lambda>r. stock_scope t w s r \<and> \<not> quarantined iv t w s (so_bin r)) so_qty (db_stock (iv_ledger iv))"

definition committedCeiling :: "inventory_db \<Rightarrow> uuid \<Rightarrow> uuid \<Rightarrow> uuid \<Rightarrow> millis \<Rightarrow> int" where
  "committedCeiling iv t w s at =
     (let (unpromisableBatch, blockedBin) = unpromisableUnits iv t w s at in
      max 0 (committedOnHand iv t w s - qcHeldUnits iv t w s - inTransitUnits iv t w s - returnsAwaitingUnits iv t w s
        - damagedUnits iv t w s - unpromisableBatch - blockedBin))"

definition batchLifecycleInTx :: "inventory_db \<Rightarrow> uuid \<Rightarrow> uuid \<Rightarrow> (string \<times> millis option) option" where
  "batchLifecycleInTx iv t batch =
     map_option (\<lambda>l. (lo_status l, lo_expiry l)) (find (\<lambda>l. lo_tenant l = t \<and> lo_id l = batch) (iv_lots iv))"

definition undatedBatchesOnHandOfClientInTx :: "inventory_db \<Rightarrow> uuid \<Rightarrow> uuid \<Rightarrow> nat" where
  "undatedBatchesOnHandOfClientInTx iv t client =
     length (remdups [ba_batch r. r \<leftarrow> db_batches (iv_ledger iv), l \<leftarrow> iv_lots iv, k \<leftarrow> db_skus (iv_ledger iv), b \<leftarrow> iv_bins iv,
       lo_tenant l = t \<and> lo_id l = ba_batch r \<and> sk_tenant k = t \<and> sk_id k = ba_sku r \<and> bn_id b = ba_bin r \<and>
       ba_tenant r = t \<and> 0 < ba_qty r \<and> sk_client k = client \<and> bn_tenant b = t \<and> \<not> skipped_system_bin b \<and>
       lo_status l = ''active'' \<and> lo_expiry l = None])"

end
