(* ===== verification/AvailabilityRefinement.thy ===== *)
theory AvailabilityRefinement
  imports Availability
begin

text \<open>
  The ceiling of a grant against its specification: what each stock row may promise. The joins are
  resolved per row (the schema's keys make them unique), the aggregation per bin becomes a sum over the
  bins, the lazy probe and the widened SQL filter are shown to keep exactly the rows the allocatability
  predicate refuses.
\<close>

section \<open>Joins on a unique key\<close>

lemma concat_unique:
  assumes "distinct (map k ys)" and "\<And>y. y \<in> set ys \<Longrightarrow> k y \<noteq> q \<Longrightarrow> g y = []"
  shows "concat (map g ys) = (case find (\<lambda>y. k y = q) ys of None \<Rightarrow> [] | Some y \<Rightarrow> g y)"
  using assms
proof (induction ys)
  case Nil
  then show ?case by simp
next
  case (Cons y ys)
  show ?case
  proof (cases "k y = q")
    case True
    have "concat (map g ys) = []" using Cons.prems True by (auto simp: image_iff)
    with True show ?thesis by simp
  next
    case False
    with Cons show ?thesis by simp
  qed
qed

lemma sum_where_concat: "sum_where P f (concat xss) = sum_list (map (sum_where P f) xss)"
  by (induction xss) auto

lemma sum_where_filter: "sum_where P f (filter Q xs) = sum_where (\<lambda>x. Q x \<and> P x) f xs"
  by (induction xs) auto

lemma sum_where_as_sum: "sum_where P f xs = sum_list (map (\<lambda>x. if P x then f x else 0) xs)"
  by (induction xs) auto

lemma sum_where_scope: "sum_where (\<lambda>x. P x \<and> Q x) f xs = sum_list (map (\<lambda>x. if Q x then f x else 0) (filter P xs))"
  by (induction xs) auto

lemma sum_join_unique:
  assumes "distinct (map k ys)"
  shows "sum_where P f (filter (\<lambda>(x, y). k y = h x) (List.product xs ys)) =
    sum_list (map (\<lambda>x. case find (\<lambda>y. k y = h x) ys of None \<Rightarrow> 0 | Some y \<Rightarrow> if P (x, y) then f (x, y) else 0) xs)"
proof (induction xs)
  case Nil
  then show ?case by simp
next
  case (Cons x xs)
  have "filter (\<lambda>(x, y). k y = h x) (map (Pair x) ys) = concat (map (\<lambda>y. if k y = h x then [(x, y)] else []) ys)"
    by (induction ys) auto
  also have "\<dots> = (case find (\<lambda>y. k y = h x) ys of None \<Rightarrow> [] | Some y \<Rightarrow> if k y = h x then [(x, y)] else [])"
    by (rule concat_unique [OF assms]) auto
  also have "\<dots> = (case find (\<lambda>y. k y = h x) ys of None \<Rightarrow> [] | Some y \<Rightarrow> [(x, y)])"
    by (cases "find (\<lambda>y. k y = h x) ys") (auto dest: find_SomeD)
  finally show ?case using Cons by (auto split: option.split)
qed

section \<open>The specification\<close>

definition bin_of :: "inventory_db \<Rightarrow> uuid \<Rightarrow> bin_row option" where
  "bin_of iv bin = find (\<lambda>b. bn_id b = bin) (iv_bins iv)"

definition lot_of :: "inventory_db \<Rightarrow> uuid \<Rightarrow> uuid \<Rightarrow> lot_row option" where
  "lot_of iv t batch = find (\<lambda>l. (lo_tenant l, lo_id l) = (t, batch)) (iv_lots iv)"

text \<open>A lot that may not be promised at the instant, under the minimum of the SKU's client.\<close>

definition unfit_lot :: "inventory_db \<Rightarrow> uuid \<Rightarrow> uuid \<Rightarrow> millis \<Rightarrow> lot_row \<Rightarrow> bool" where
  "unfit_lot iv t s at l =
     (\<not> isBatchAllocatableAt (lo_status l) (map_option Instant (lo_expiry l)) at (minOutboundShelfLifeOfSkuInTx iv t s) None)"

definition unfit_units :: "inventory_db \<Rightarrow> uuid \<Rightarrow> uuid \<Rightarrow> uuid \<Rightarrow> millis \<Rightarrow> uuid \<Rightarrow> int" where
  "unfit_units iv t w s at bin = sum_where (\<lambda>r. batch_scope t w s r \<and> ba_bin r = bin \<and>
     (case lot_of iv t (ba_batch r) of None \<Rightarrow> False | Some l \<Rightarrow> unfit_lot iv t s at l)) ba_qty (db_batches (iv_ledger iv))"

definition promisable_of :: "inventory_db \<Rightarrow> uuid \<Rightarrow> uuid \<Rightarrow> uuid \<Rightarrow> millis \<Rightarrow> stock_row \<Rightarrow> int" where
  "promisable_of iv t w s at o' =
     (case bin_of iv (so_bin o') of None \<Rightarrow> 0
      | Some b \<Rightarrow>
          if quarantined iv t w s (so_bin o') \<or> skipped_system_bin b then 0
          else if bn_blocked b then (if bn_system b then so_qty o' else 0)
          else so_qty o' - min (unfit_units iv t w s at (so_bin o')) (so_qty o'))"

definition promisable_units :: "inventory_db \<Rightarrow> uuid \<Rightarrow> uuid \<Rightarrow> uuid \<Rightarrow> millis \<Rightarrow> int" where
  "promisable_units iv t w s at = sum_where (stock_scope t w s) (promisable_of iv t w s at) (db_stock (iv_ledger iv))"

text \<open>The units of the quarantined system bins, which both the on-hand and the hooks leave out.\<close>

definition twice_subtracted :: "inventory_db \<Rightarrow> uuid \<Rightarrow> uuid \<Rightarrow> uuid \<Rightarrow> int" where
  "twice_subtracted iv t w s = sum_where (\<lambda>o'. stock_scope t w s o' \<and> quarantined iv t w s (so_bin o') \<and>
     (case bin_of iv (so_bin o') of None \<Rightarrow> False | Some b \<Rightarrow> skipped_system_bin b)) so_qty (db_stock (iv_ledger iv))"

text \<open>What the schema's keys, foreign keys and checks guarantee of the tables.\<close>

definition inventory_ok :: "inventory_db \<Rightarrow> uuid \<Rightarrow> uuid \<Rightarrow> uuid \<Rightarrow> bool" where
  "inventory_ok iv t w s = (distinct (map bn_id (iv_bins iv)) \<and> distinct (map (\<lambda>l. (lo_tenant l, lo_id l)) (iv_lots iv)) \<and>
     distinct (map so_key (db_stock (iv_ledger iv))) \<and>
     list_all (\<lambda>l. lo_status l = ''active'' \<or> lo_status l = ''blocked'') (iv_lots iv) \<and>
     list_all (\<lambda>o'. 0 \<le> so_qty o' \<and> (stock_scope t w s o' \<longrightarrow>
        list_ex (\<lambda>b. bn_id b = so_bin o' \<and> bn_tenant b = t \<and> bn_wh b = w) (iv_bins iv))) (db_stock (iv_ledger iv)))"

section \<open>The aggregation per bin\<close>

lemma by_bin_fold:
  assumes "\<forall>r \<in> set rows. ur_on_hand r = H (ur_bin r)"
  shows "distinct (map fst (foldl by_bin_step [] rows)) \<and>
    (\<forall>b. map_of (foldl by_bin_step [] rows) b =
      (if b \<in> ur_bin ` set rows then Some (sum_where (\<lambda>r. ur_bin r = b) ur_qty rows, H b) else None))"
  using assms
proof (induction rows rule: rev_induct)
  case Nil
  then show ?case by simp
next
  case (snoc r rows)
  let ?m = "foldl by_bin_step [] rows"
  have IH: "distinct (map fst ?m)" "\<And>b. map_of ?m b =
      (if b \<in> ur_bin ` set rows then Some (sum_where (\<lambda>r. ur_bin r = b) ur_qty rows, H b) else None)"
    using snoc by auto
  have none: "ur_bin r \<notin> ur_bin ` set rows \<Longrightarrow> sum_where (\<lambda>x. ur_bin x = ur_bin r) ur_qty rows = 0"
    by (rule sum_where_none) (metis image_eqI)
  have "distinct (map fst (by_bin_step ?m r))" using IH(1) by (simp add: by_bin_step_def Let_def distinct_update)
  moreover have "map_of (by_bin_step ?m r) b = (if b \<in> ur_bin ` set (rows @ [r])
      then Some (sum_where (\<lambda>x. ur_bin x = b) ur_qty (rows @ [r]), H b) else None)" for b
    using IH(2) [of "ur_bin r"] IH(2) [of b] none snoc.prems
    by (cases "b = ur_bin r") (auto simp: by_bin_step_def Let_def update_conv')
  ultimately show ?case by simp
qed

lemma sum_list_map_of:
  assumes "distinct (map fst m)"
  shows "sum_list (map (\<lambda>(b, v). f b v) m) = (\<Sum>b \<in> fst ` set m. f b (the (map_of m b)))"
  using assms
proof (induction m)
  case Nil
  then show ?case by simp
next
  case (Cons p m)
  obtain b v where p: "p = (b, v)" by (cases p)
  have b: "b \<notin> fst ` set m" using Cons.prems p by simp
  have "(\<Sum>x \<in> fst ` set m. f x (the (map_of (p # m) x))) = (\<Sum>x \<in> fst ` set m. f x (the (map_of m x)))"
    by (rule sum.cong) (use b p in auto)
  then show ?case using Cons b p by simp
qed

lemma unpromisable_total_by_bin:
  assumes "\<forall>r \<in> set rows. ur_on_hand r = H (ur_bin r)"
  shows "unpromisable_total rows = (\<Sum>b \<in> ur_bin ` set rows. min (sum_where (\<lambda>r. ur_bin r = b) ur_qty rows) (H b))"
proof -
  let ?m = "foldl by_bin_step [] rows"
  have dist: "distinct (map fst ?m)" and at: "\<And>b. map_of ?m b =
      (if b \<in> ur_bin ` set rows then Some (sum_where (\<lambda>r. ur_bin r = b) ur_qty rows, H b) else None)"
    using by_bin_fold [OF assms] by auto
  have keys: "fst ` set ?m = ur_bin ` set rows"
  proof (intro set_eqI)
    fix b
    have "(b \<in> fst ` set ?m) = (map_of ?m b \<noteq> None)" by (simp add: map_of_eq_None_iff)
    then show "(b \<in> fst ` set ?m) = (b \<in> ur_bin ` set rows)" by (simp add: at)
  qed
  have "unpromisable_total rows = sum_list (map (\<lambda>(b, v). min (fst v) (snd v)) ?m)"
    unfolding unpromisable_total_def by (rule arg_cong [where f = sum_list], rule map_cong) auto
  also have "\<dots> = (\<Sum>b \<in> fst ` set ?m. min (fst (the (map_of ?m b))) (snd (the (map_of ?m b))))"
    by (rule sum_list_map_of [OF dist])
  also have "\<dots> = (\<Sum>b \<in> ur_bin ` set rows. min (sum_where (\<lambda>r. ur_bin r = b) ur_qty rows) (H b))"
    unfolding keys by (rule sum.cong) (auto simp: at)
  finally show ?thesis .
qed

section \<open>The probe and the widened filter\<close>

lemma not_allocatable_dated:
  "(\<not> isBatchAllocatableAt ''active'' (Some (Instant e)) at (Some d) None) =
   (e < at \<or> e < istMidnightOf (addIsoDays (ist_date at) d))"
proof -
  have "(e < istMidnightOf (addIsoDays (ist_date at) d)) =
      ((e + ist_offset_ms) div ms_per_day < (at + ist_offset_ms) div ms_per_day + d)"
    by (simp add: addIsoDays_def ist_date_def istMidnightOf_le_iff)
  moreover have "(d \<le> istDaysBetween (ist_date at) (ist_date e)) =
      (\<not> (e + ist_offset_ms) div ms_per_day < (at + ist_offset_ms) div ms_per_day + d)"
    by (simp add: istDaysBetween_def ist_date_def ms_per_day_def) linarith
  ultimately show ?thesis
    by (auto simp: isBatchAllocatableAt_def isBatchExpiredAt_def meetsMinimumShelfLife_def Let_def)
qed

lemma allocatable_undated: "isBatchAllocatableAt ''active'' None at minDays None"
  by (simp add: isBatchAllocatableAt_def isBatchExpiredAt_def meetsMinimumShelfLife_def split: option.split)

lemma allocatable_without_minimum: "isBatchAllocatableAt ''active'' (Some (Instant e)) at None None = (at \<le> e)"
  by (simp add: isBatchAllocatableAt_def isBatchExpiredAt_def meetsMinimumShelfLife_def)

text \<open>The rows the code keeps, of a joined row whose lot status is one of the two.\<close>

definition probe_min :: "inventory_db \<Rightarrow> uuid \<Rightarrow> uuid \<Rightarrow> uuid \<Rightarrow> millis \<Rightarrow> int option" where
  "probe_min iv t w s at = (if dated_live iv t w s at then minOutboundShelfLifeOfSkuInTx iv t s else None)"

definition kept_row :: "inventory_db \<Rightarrow> uuid \<Rightarrow> uuid \<Rightarrow> uuid \<Rightarrow> millis \<Rightarrow> unpromisable_row \<Rightarrow> bool" where
  "kept_row iv t w s at row =
     (let boundary = (case probe_min iv t w s at of None \<Rightarrow> at | Some d \<Rightarrow> istMidnightOf (addIsoDays (ist_date at) d));
          cutoff = (if at < boundary then boundary else at)
      in (ur_status row = ''blocked'' \<or> (case ur_expiry row of None \<Rightarrow> False | Some e \<Rightarrow> e < cutoff)) \<and>
         \<not> allocatable_row at (probe_min iv t w s at) row)"

lemma unpromisable_kept:
  "unpromisableBatchUnits iv t w s at = unpromisable_total (filter (kept_row iv t w s at) (batch_join iv t w s))"
  by (simp add: unpromisableBatchUnits_def kept_row_def probe_min_def Let_def conj_commute
      cong: filter_cong)

lemma kept_iff:
  assumes "ur_status row = ''active'' \<or> ur_status row = ''blocked''"
  shows "kept_row iv t w s at row = (ur_status row = ''blocked'' \<or>
    \<not> isBatchAllocatableAt ''active'' (map_option Instant (ur_expiry row)) at (probe_min iv t w s at) None)"
proof (cases "ur_expiry row")
  case None
  with assms show ?thesis by (auto simp: kept_row_def Let_def allocatable_row_def allocatable_undated)
next
  case (Some e)
  show ?thesis
  proof (cases "probe_min iv t w s at")
    case None
    with Some assms show ?thesis by (auto simp: kept_row_def Let_def allocatable_row_def allocatable_without_minimum)
  next
    fix d
    assume d: "probe_min iv t w s at = Some d"
    have "\<not> isBatchAllocatableAt ''active'' (Some (Instant e)) at (Some d) None \<Longrightarrow>
        e < (if at < istMidnightOf (addIsoDays (ist_date at) d) then istMidnightOf (addIsoDays (ist_date at) d) else at)"
      using not_allocatable_dated [of e at d] by auto
    with Some d assms show ?thesis by (auto simp: kept_row_def Let_def allocatable_row_def)
  qed
qed

text \<open>The skipped read of the client's minimum changes nothing: without a live dated batch no batch is below it.\<close>

lemma probe_exact:
  assumes "r \<in> set (db_batches (iv_ledger iv))" and "l \<in> set (iv_lots iv)"
    and "batch_scope t w s r" and "lo_tenant l = t" and "lo_id l = ba_batch r"
    and that: "lo_status l = ''active'' \<or> lo_status l = ''blocked''"
  shows "(lo_status l = ''blocked'' \<or> \<not> isBatchAllocatableAt ''active'' (map_option Instant (lo_expiry l)) at (probe_min iv t w s at) None)
      = (lo_status l = ''blocked'' \<or> \<not> isBatchAllocatableAt ''active'' (map_option Instant (lo_expiry l)) at (minOutboundShelfLifeOfSkuInTx iv t s) None)"
proof (cases "lo_status l = ''active'' \<and> (\<exists>e. lo_expiry l = Some e) \<and> \<not> dated_live iv t w s at")
  case True
  then obtain e where e: "lo_expiry l = Some e" and act: "lo_status l = ''active''" by blast
  have "\<not> at \<le> e"
  proof
    assume "at \<le> e"
    then have "dated_live iv t w s at"
      unfolding dated_live_def list_ex_iff by (intro bexI [of _ "(r, l)"]) (use assms e act in auto)
    with True show False by simp
  qed
  then have "\<not> isBatchAllocatableAt ''active'' (Some (Instant e)) at m None" for m
    by (simp add: isBatchAllocatableAt_def isBatchExpiredAt_def)
  with e show ?thesis by simp
next
  case False
  with that show ?thesis
    by (cases "lo_expiry l") (auto simp: probe_min_def allocatable_undated)
qed

section \<open>The join, per batch row\<close>

definition stock_of :: "inventory_db \<Rightarrow> uuid \<Rightarrow> uuid \<Rightarrow> uuid \<Rightarrow> uuid \<Rightarrow> stock_row option" where
  "stock_of iv t w s bin = find (\<lambda>o'. so_key o' = (t, w, s, bin)) (db_stock (iv_ledger iv))"

definition joined :: "inventory_db \<Rightarrow> uuid \<Rightarrow> uuid \<Rightarrow> uuid \<Rightarrow> batch_row \<Rightarrow> unpromisable_row list" where
  "joined iv t w s r =
     (case (lot_of iv t (ba_batch r), bin_of iv (ba_bin r), stock_of iv t w s (ba_bin r)) of
        (Some l, Some b, Some o') \<Rightarrow>
          if batch_scope t w s r \<and> bn_tenant b = t \<and> \<not> skipped_system_bin b \<and> \<not> quarantined iv t w s (ba_bin r) \<and> \<not> bn_blocked b
          then [\<lparr>ur_bin = ba_bin r, ur_qty = ba_qty r, ur_status = lo_status l, ur_expiry = lo_expiry l, ur_on_hand = so_qty o'\<rparr>]
          else []
      | _ \<Rightarrow> [])"

lemma lot_ofD: "lot_of iv t batch = Some l \<Longrightarrow> l \<in> set (iv_lots iv) \<and> lo_tenant l = t \<and> lo_id l = batch"
  by (auto simp: lot_of_def dest: find_SomeD)

lemma bin_ofD: "bin_of iv bin = Some b \<Longrightarrow> b \<in> set (iv_bins iv) \<and> bn_id b = bin"
  by (auto simp: bin_of_def dest: find_SomeD)

lemma stock_ofD: "stock_of iv t w s bin = Some o' \<Longrightarrow> o' \<in> set (db_stock (iv_ledger iv)) \<and>
    so_tenant o' = t \<and> so_wh o' = w \<and> so_sku o' = s \<and> so_bin o' = bin"
  by (auto simp: stock_of_def so_key_def dest: find_SomeD)

lemma concat_map_Nil: "(\<And>x. x \<in> set xs \<Longrightarrow> f x = []) \<Longrightarrow> concat (map f xs) = []"
  by (induction xs) auto

lemma batch_join_per_row:
  assumes "inventory_ok iv t w s"
  shows "batch_join iv t w s = concat (map (joined iv t w s) (db_batches (iv_ledger iv)))"
proof -
  have lots: "distinct (map (\<lambda>l. (lo_tenant l, lo_id l)) (iv_lots iv))" and bins: "distinct (map bn_id (iv_bins iv))"
    and stock: "distinct (map so_key (db_stock (iv_ledger iv)))"
    using assms by (simp_all add: inventory_ok_def)
  show ?thesis
    unfolding batch_join_def
  proof (rule arg_cong [where f = concat], rule map_cong [OF refl], goal_cases)
    case (1 r)
    let ?G = "\<lambda>l b o'. if lo_tenant l = t \<and> lo_id l = ba_batch r \<and> bn_id b = ba_bin r \<and>
        so_tenant o' = t \<and> so_wh o' = w \<and> so_sku o' = s \<and> so_bin o' = ba_bin r \<and>
        batch_scope t w s r \<and> bn_tenant b = t \<and> \<not> skipped_system_bin b \<and>
        \<not> quarantined iv t w s (ba_bin r) \<and> \<not> bn_blocked b
      then [\<lparr>ur_bin = ba_bin r, ur_qty = ba_qty r, ur_status = lo_status l, ur_expiry = lo_expiry l, ur_on_hand = so_qty o'\<rparr>] else []"
    have o: "concat (map (?G l b) (db_stock (iv_ledger iv))) = (case stock_of iv t w s (ba_bin r) of None \<Rightarrow> [] | Some o' \<Rightarrow> ?G l b o')" for l b
      unfolding stock_of_def by (rule concat_unique [OF stock]) (auto simp: so_key_def)
    have b: "concat (map (\<lambda>b. concat (map (?G l b) (db_stock (iv_ledger iv)))) (iv_bins iv)) =
        (case bin_of iv (ba_bin r) of None \<Rightarrow> [] | Some b \<Rightarrow> concat (map (?G l b) (db_stock (iv_ledger iv))))" for l
      unfolding bin_of_def by (rule concat_unique [OF bins]) (auto intro!: concat_map_Nil)
    have l: "concat (map (\<lambda>l. concat (map (\<lambda>b. concat (map (?G l b) (db_stock (iv_ledger iv)))) (iv_bins iv))) (iv_lots iv)) =
        (case lot_of iv t (ba_batch r) of None \<Rightarrow> [] | Some l \<Rightarrow> concat (map (\<lambda>b. concat (map (?G l b) (db_stock (iv_ledger iv)))) (iv_bins iv)))"
      unfolding lot_of_def by (rule concat_unique [OF lots]) (auto intro!: concat_map_Nil)
    show ?case
      by (subst l, subst b, subst o, unfold joined_def)
        (auto split: option.split dest!: lot_ofD bin_ofD stock_ofD)
  qed
qed

lemma joined_bin: "x \<in> set (joined iv t w s r) \<Longrightarrow> ur_bin x = ba_bin r \<and>
    (\<exists>o'. stock_of iv t w s (ba_bin r) = Some o' \<and> ur_on_hand x = so_qty o')"
  by (cases "lot_of iv t (ba_batch r)"; cases "bin_of iv (ba_bin r)"; cases "stock_of iv t w s (ba_bin r)")
    (auto simp: joined_def split: if_splits)

lemma kept_joined:
  assumes "inventory_ok iv t w s" and "r \<in> set (db_batches (iv_ledger iv))"
    and "stock_of iv t w s bin = Some o'" and "bin_of iv bin = Some b" and "bn_tenant b = t"
  shows "sum_where (\<lambda>x. ur_bin x = bin) ur_qty (filter (kept_row iv t w s at) (joined iv t w s r)) =
    (if \<not> skipped_system_bin b \<and> \<not> quarantined iv t w s bin \<and> \<not> bn_blocked b \<and> batch_scope t w s r \<and> ba_bin r = bin \<and>
        (case lot_of iv t (ba_batch r) of None \<Rightarrow> False | Some l \<Rightarrow> unfit_lot iv t s at l) then ba_qty r else 0)"
proof (cases "ba_bin r = bin \<and> batch_scope t w s r")
  case False
  have "sum_where (\<lambda>x. ur_bin x = bin) ur_qty (filter (kept_row iv t w s at) (joined iv t w s r)) = 0"
    by (rule sum_where_none) (use False in \<open>auto simp: joined_def split: option.splits if_splits\<close>)
  with False show ?thesis by auto
next
  case True
  show ?thesis
  proof (cases "lot_of iv t (ba_batch r)")
    case None
    then show ?thesis by (simp add: joined_def)
  next
    fix l
    assume l: "lot_of iv t (ba_batch r) = Some l"
    then have l': "l \<in> set (iv_lots iv)" "lo_tenant l = t" "lo_id l = ba_batch r"
      by (auto dest: lot_ofD)
    have st: "lo_status l = ''active'' \<or> lo_status l = ''blocked''"
      using assms(1) l'(1) by (auto simp: inventory_ok_def list_all_iff)
    have unfit: "unfit_lot iv t s at l = (lo_status l = ''blocked'' \<or>
        \<not> isBatchAllocatableAt ''active'' (map_option Instant (lo_expiry l)) at (minOutboundShelfLifeOfSkuInTx iv t s) None)"
      using st by (auto simp: unfit_lot_def) (simp_all add: isBatchAllocatableAt_def)
    show ?thesis
      using True l assms(3-5) st probe_exact [OF assms(2) l'(1) _ l'(2,3) st, of w s at]
      by (auto simp: joined_def kept_iff unfit)
  qed
qed

lemma kept_units:
  assumes "inventory_ok iv t w s" and "stock_of iv t w s bin = Some o'" and "bin_of iv bin = Some b" and "bn_tenant b = t"
  shows "sum_where (\<lambda>x. ur_bin x = bin) ur_qty (filter (kept_row iv t w s at) (batch_join iv t w s)) =
    (if \<not> skipped_system_bin b \<and> \<not> quarantined iv t w s bin \<and> \<not> bn_blocked b then unfit_units iv t w s at bin else 0)"
proof -
  have "sum_where (\<lambda>x. ur_bin x = bin) ur_qty (filter (kept_row iv t w s at) (batch_join iv t w s)) =
      sum_list (map (\<lambda>r. sum_where (\<lambda>x. ur_bin x = bin) ur_qty (filter (kept_row iv t w s at) (joined iv t w s r))) (db_batches (iv_ledger iv)))"
    by (simp add: batch_join_per_row [OF assms(1)] filter_concat sum_where_concat comp_def)
  also have "\<dots> = sum_list (map (\<lambda>r. if \<not> skipped_system_bin b \<and> \<not> quarantined iv t w s bin \<and> \<not> bn_blocked b \<and> batch_scope t w s r \<and> ba_bin r = bin \<and>
        (case lot_of iv t (ba_batch r) of None \<Rightarrow> False | Some l \<Rightarrow> unfit_lot iv t s at l) then ba_qty r else 0) (db_batches (iv_ledger iv)))"
    by (rule arg_cong [where f = sum_list], rule map_cong [OF refl], rule kept_joined [OF assms(1) _ assms(2-4)])
  also have "\<dots> = (if \<not> skipped_system_bin b \<and> \<not> quarantined iv t w s bin \<and> \<not> bn_blocked b then unfit_units iv t w s at bin else 0)"
    by (simp add: unfit_units_def sum_where_as_sum)
  finally show ?thesis .
qed

section \<open>The ceiling\<close>

definition scoped :: "inventory_db \<Rightarrow> uuid \<Rightarrow> uuid \<Rightarrow> uuid \<Rightarrow> stock_row list" where
  "scoped iv t w s = filter (stock_scope t w s) (db_stock (iv_ledger iv))"

definition bin_unfit :: "inventory_db \<Rightarrow> uuid \<Rightarrow> uuid \<Rightarrow> uuid \<Rightarrow> millis \<Rightarrow> stock_row \<Rightarrow> int" where
  "bin_unfit iv t w s at o' =
     (case bin_of iv (so_bin o') of None \<Rightarrow> 0
      | Some b \<Rightarrow> if \<not> skipped_system_bin b \<and> \<not> quarantined iv t w s (so_bin o') \<and> \<not> bn_blocked b
          then min (unfit_units iv t w s at (so_bin o')) (so_qty o') else 0)"

lemma scoped_of:
  assumes "inventory_ok iv t w s" and "o' \<in> set (scoped iv t w s)"
  shows "stock_of iv t w s (so_bin o') = Some o' \<and> 0 \<le> so_qty o' \<and>
    (\<exists>b. bin_of iv (so_bin o') = Some b \<and> bn_tenant b = t \<and> bn_wh b = w)"
proof -
  have o': "o' \<in> set (db_stock (iv_ledger iv))" "stock_scope t w s o'" using assms(2) by (auto simp: scoped_def)
  have "so_key o' = (t, w, s, so_bin o')" using o'(2) by (auto simp: stock_scope_def so_key_def)
  then have 1: "stock_of iv t w s (so_bin o') = Some o'"
    using assms(1) o'(1) by (simp add: stock_of_def find_Some_iff_unique inventory_ok_def)
  obtain b where "b \<in> set (iv_bins iv)" "bn_id b = so_bin o'" "bn_tenant b = t" "bn_wh b = w" "0 \<le> so_qty o'"
    using assms(1) o' by (auto simp: inventory_ok_def list_all_iff list_ex_iff)
  with assms(1) 1 show ?thesis by (auto simp: bin_of_def find_Some_iff_unique inventory_ok_def)
qed

lemma scoped_distinct:
  assumes "inventory_ok iv t w s"
  shows "distinct (scoped iv t w s)" and "inj_on so_bin (set (scoped iv t w s))"
proof -
  have d: "distinct (map so_key (db_stock (iv_ledger iv)))" using assms by (simp add: inventory_ok_def)
  then show "distinct (scoped iv t w s)" by (simp add: scoped_def distinct_map)
  show "inj_on so_bin (set (scoped iv t w s))"
    using scoped_of [OF assms] by (intro inj_onI) (metis option.inject)
qed

lemma unpromisable_per_stock:
  assumes "inventory_ok iv t w s"
  shows "unpromisableBatchUnits iv t w s at = sum_list (map (bin_unfit iv t w s at) (scoped iv t w s))"
proof -
  let ?rows = "filter (kept_row iv t w s at) (batch_join iv t w s)"
  let ?H = "\<lambda>bin. case stock_of iv t w s bin of None \<Rightarrow> 0 | Some o' \<Rightarrow> so_qty o'"
  let ?S = "\<lambda>bin. sum_where (\<lambda>r. ur_bin r = bin) ur_qty ?rows"
  have rows: "\<exists>o' \<in> set (scoped iv t w s). ur_bin x = so_bin o' \<and> ur_on_hand x = ?H (ur_bin x)" if x: "x \<in> set ?rows" for x
  proof -
    obtain r where "x \<in> set (joined iv t w s r)" using x by (auto simp: batch_join_per_row [OF assms])
    then obtain o' where "ur_bin x = ba_bin r" "stock_of iv t w s (ba_bin r) = Some o'" "ur_on_hand x = so_qty o'"
      using joined_bin by blast
    moreover from this have "o' \<in> set (scoped iv t w s)" "so_bin o' = ba_bin r"
      by (auto simp: scoped_def stock_scope_def dest!: stock_ofD)
    ultimately show ?thesis by (intro bexI [of _ o']) simp_all
  qed
  have unfit: "min (?S (so_bin o')) (?H (so_bin o')) = bin_unfit iv t w s at o'" if o': "o' \<in> set (scoped iv t w s)" for o'
  proof -
    obtain b where b: "stock_of iv t w s (so_bin o') = Some o'" "0 \<le> so_qty o'" "bin_of iv (so_bin o') = Some b" "bn_tenant b = t"
      using scoped_of [OF assms o'] by blast
    show ?thesis using kept_units [OF assms b(1,3,4), of at] b by (auto simp: bin_unfit_def)
  qed
  have "unpromisableBatchUnits iv t w s at = (\<Sum>bin \<in> ur_bin ` set ?rows. min (?S bin) (?H bin))"
    unfolding unpromisable_kept by (rule unpromisable_total_by_bin) (use rows in blast)
  also have "\<dots> = (\<Sum>bin \<in> so_bin ` set (scoped iv t w s). min (?S bin) (?H bin))"
  proof (rule sum.mono_neutral_left)
    show "ur_bin ` set ?rows \<subseteq> so_bin ` set (scoped iv t w s)" using rows by fastforce
    show "\<forall>bin \<in> so_bin ` set (scoped iv t w s) - ur_bin ` set ?rows. min (?S bin) (?H bin) = 0"
    proof
      fix bin
      assume "bin \<in> so_bin ` set (scoped iv t w s) - ur_bin ` set ?rows"
      then obtain o' where o': "o' \<in> set (scoped iv t w s)" "bin = so_bin o'" and no: "bin \<notin> ur_bin ` set ?rows" by blast
      have "?S bin = 0" by (rule sum_where_none) (use no in \<open>metis image_eqI\<close>)
      then show "min (?S bin) (?H bin) = 0" using scoped_of [OF assms o'(1)] o'(2) by auto
    qed
  qed simp
  also have "\<dots> = (\<Sum>o' \<in> set (scoped iv t w s). min (?S (so_bin o')) (?H (so_bin o')))"
    by (subst sum.reindex [OF scoped_distinct(2) [OF assms]]) simp
  also have "\<dots> = (\<Sum>o' \<in> set (scoped iv t w s). bin_unfit iv t w s at o')"
    by (rule sum.cong) (use unfit in auto)
  also have "\<dots> = sum_list (map (bin_unfit iv t w s at) (scoped iv t w s))"
    by (simp add: sum_list_distinct_conv_sum_set scoped_distinct [OF assms])
  finally show ?thesis .
qed

text \<open>Each of the other terms of the ceiling, per stock row of the scope.\<close>

definition in_bin :: "inventory_db \<Rightarrow> (bin_row \<Rightarrow> bool) \<Rightarrow> stock_row \<Rightarrow> int" where
  "in_bin iv P o' = (case bin_of iv (so_bin o') of None \<Rightarrow> 0 | Some b \<Rightarrow> if P b then so_qty o' else 0)"

lemma hook_per_stock:
  assumes "inventory_ok iv t w s"
  shows "sum_where (\<lambda>(r, b). stock_scope t w s r \<and> P r b) (\<lambda>(r, b). so_qty r) (stock_bins iv) =
    sum_list (map (\<lambda>o'. in_bin iv (P o') o') (scoped iv t w s))"
proof -
  have bins: "distinct (map bn_id (iv_bins iv))" using assms by (simp add: inventory_ok_def)
  have "sum_where (\<lambda>(r, b). stock_scope t w s r \<and> P r b) (\<lambda>(r, b). so_qty r) (stock_bins iv) =
      sum_list (map (\<lambda>r. case bin_of iv (so_bin r) of None \<Rightarrow> 0
        | Some b \<Rightarrow> if stock_scope t w s r \<and> P r b then so_qty r else 0) (db_stock (iv_ledger iv)))"
    unfolding stock_bins_def sum_join_unique [OF bins]
    by (rule arg_cong [where f = sum_list], rule map_cong) (auto simp: bin_of_def split: option.split)
  also have "\<dots> = sum_list (map (\<lambda>r. if stock_scope t w s r then in_bin iv (P r) r else 0) (db_stock (iv_ledger iv)))"
    by (rule arg_cong [where f = sum_list], rule map_cong) (auto simp: in_bin_def split: option.split)
  also have "\<dots> = sum_list (map (\<lambda>o'. in_bin iv (P o') o') (scoped iv t w s))"
    by (simp add: sum_list_map_filter' scoped_def)
  finally show ?thesis .
qed

definition named_system_bin :: "uuid \<Rightarrow> uuid \<Rightarrow> string \<Rightarrow> bin_row \<Rightarrow> bool" where
  "named_system_bin t w code b = (bn_tenant b = t \<and> bn_wh b = w \<and> bn_code b = code \<and> bn_system b)"

lemma hooks_per_stock:
  assumes "inventory_ok iv t w s"
  shows "qcHeldUnits iv t w s = sum_list (map (in_bin iv (named_system_bin t w QC_HOLD_BIN_CODE)) (scoped iv t w s))"
    and "inTransitUnits iv t w s = sum_list (map (in_bin iv (named_system_bin t w IN_TRANSIT_BIN_CODE)) (scoped iv t w s))"
    and "returnsAwaitingUnits iv t w s = sum_list (map (in_bin iv (named_system_bin t w RETURNS_BIN_CODE)) (scoped iv t w s))"
    and "damagedUnits iv t w s = sum_list (map (in_bin iv (named_system_bin t w DAMAGED_BIN_CODE)) (scoped iv t w s))"
    and "blocked_bin_units iv t w s = sum_list (map (\<lambda>o'. in_bin iv (\<lambda>b. 0 < so_qty o' \<and> bn_tenant b = t \<and> bn_blocked b \<and>
        \<not> bn_system b \<and> \<not> quarantined iv t w s (so_bin o')) o') (scoped iv t w s))"
  using hook_per_stock [OF assms, of "\<lambda>r. named_system_bin t w QC_HOLD_BIN_CODE"]
    hook_per_stock [OF assms, of "\<lambda>r. named_system_bin t w IN_TRANSIT_BIN_CODE"]
    hook_per_stock [OF assms, of "\<lambda>r. named_system_bin t w RETURNS_BIN_CODE"]
    hook_per_stock [OF assms, of "\<lambda>r. named_system_bin t w DAMAGED_BIN_CODE"]
    hook_per_stock [OF assms, of "\<lambda>r b. 0 < so_qty r \<and> bn_tenant b = t \<and> bn_blocked b \<and> \<not> bn_system b \<and> \<not> quarantined iv t w s (so_bin r)"]
  by (simp_all add: named_system_bin_def qcHeldUnits_def inTransitUnits_def returnsAwaitingUnits_def damagedUnits_def blocked_bin_units_def)

lemma on_hand_per_stock:
  "committedOnHand iv t w s = sum_list (map (\<lambda>o'. if quarantined iv t w s (so_bin o') then 0 else so_qty o') (scoped iv t w s))"
  unfolding committedOnHand_def scoped_def sum_where_scope
  by (rule arg_cong [where f = sum_list], rule map_cong) auto

lemma system_codes:
  "QC_HOLD_BIN_CODE \<noteq> IN_TRANSIT_BIN_CODE" "QC_HOLD_BIN_CODE \<noteq> RETURNS_BIN_CODE" "QC_HOLD_BIN_CODE \<noteq> DAMAGED_BIN_CODE"
  "IN_TRANSIT_BIN_CODE \<noteq> RETURNS_BIN_CODE" "IN_TRANSIT_BIN_CODE \<noteq> DAMAGED_BIN_CODE" "RETURNS_BIN_CODE \<noteq> DAMAGED_BIN_CODE"
  by (simp_all add: QC_HOLD_BIN_CODE_def IN_TRANSIT_BIN_CODE_def RETURNS_BIN_CODE_def DAMAGED_BIN_CODE_def)

lemma terms_per_row:
  assumes "inventory_ok iv t w s" and "o' \<in> set (scoped iv t w s)"
  shows "(if quarantined iv t w s (so_bin o') then 0 else so_qty o') - in_bin iv (named_system_bin t w QC_HOLD_BIN_CODE) o'
      - in_bin iv (named_system_bin t w IN_TRANSIT_BIN_CODE) o' - in_bin iv (named_system_bin t w RETURNS_BIN_CODE) o'
      - in_bin iv (named_system_bin t w DAMAGED_BIN_CODE) o' - bin_unfit iv t w s at o'
      - in_bin iv (\<lambda>b. 0 < so_qty o' \<and> bn_tenant b = t \<and> bn_blocked b \<and> \<not> bn_system b \<and> \<not> quarantined iv t w s (so_bin o')) o'
    = promisable_of iv t w s at o' - (if quarantined iv t w s (so_bin o') \<and>
        (case bin_of iv (so_bin o') of None \<Rightarrow> False | Some b \<Rightarrow> skipped_system_bin b) then so_qty o' else 0)"
proof -
  obtain b where b: "bin_of iv (so_bin o') = Some b" "bn_tenant b = t" "bn_wh b = w" and q: "0 \<le> so_qty o'"
    using scoped_of [OF assms] by blast
  have hook: "in_bin iv (named_system_bin t w code) o' = (if bn_system b \<and> bn_code b = code then so_qty o' else 0)" for code
    using b by (simp add: in_bin_def named_system_bin_def)
  have blocked: "in_bin iv (\<lambda>b. 0 < so_qty o' \<and> bn_tenant b = t \<and> bn_blocked b \<and> \<not> bn_system b \<and> \<not> quarantined iv t w s (so_bin o')) o' =
      (if bn_blocked b \<and> \<not> bn_system b \<and> \<not> quarantined iv t w s (so_bin o') then so_qty o' else 0)"
    using b q by (simp add: in_bin_def)
  have four: "(if bn_system b \<and> bn_code b = QC_HOLD_BIN_CODE then so_qty o' else 0) + (if bn_system b \<and> bn_code b = IN_TRANSIT_BIN_CODE then so_qty o' else 0)
      + (if bn_system b \<and> bn_code b = RETURNS_BIN_CODE then so_qty o' else 0) + (if bn_system b \<and> bn_code b = DAMAGED_BIN_CODE then so_qty o' else 0)
      = (if skipped_system_bin b then so_qty o' else 0)"
    using system_codes by (auto simp: skipped_system_bin_def)
  have "skipped_system_bin b \<Longrightarrow> bn_system b" by (simp add: skipped_system_bin_def)
  then have "(if quarantined iv t w s (so_bin o') then 0 else so_qty o') - (if skipped_system_bin b then so_qty o' else 0)
      - bin_unfit iv t w s at o' - (if bn_blocked b \<and> \<not> bn_system b \<and> \<not> quarantined iv t w s (so_bin o') then so_qty o' else 0) =
      promisable_of iv t w s at o' - (if quarantined iv t w s (so_bin o') \<and> skipped_system_bin b then so_qty o' else 0)"
    using b by (cases "quarantined iv t w s (so_bin o')"; cases "skipped_system_bin b"; cases "bn_blocked b")
      (simp_all add: bin_unfit_def promisable_of_def)
  with four show ?thesis unfolding hook blocked using b(1) by simp
qed

lemma ceiling_exact:
  assumes "inventory_ok iv t w s"
  shows "committedCeiling iv t w s at = max 0 (promisable_units iv t w s at - twice_subtracted iv t w s)"
proof -
  have "promisable_units iv t w s at - twice_subtracted iv t w s =
      sum_list (map (\<lambda>o'. promisable_of iv t w s at o' - (if quarantined iv t w s (so_bin o') \<and>
        (case bin_of iv (so_bin o') of None \<Rightarrow> False | Some b \<Rightarrow> skipped_system_bin b) then so_qty o' else 0)) (scoped iv t w s))"
    using sum_where_scope [of "stock_scope t w s" "\<lambda>_. True" "promisable_of iv t w s at"]
    by (simp add: promisable_units_def twice_subtracted_def scoped_def sum_where_scope sum_list_subtractf)
  also have "\<dots> = sum_list (map (\<lambda>o'. (if quarantined iv t w s (so_bin o') then 0 else so_qty o') - in_bin iv (named_system_bin t w QC_HOLD_BIN_CODE) o'
      - in_bin iv (named_system_bin t w IN_TRANSIT_BIN_CODE) o' - in_bin iv (named_system_bin t w RETURNS_BIN_CODE) o'
      - in_bin iv (named_system_bin t w DAMAGED_BIN_CODE) o' - bin_unfit iv t w s at o'
      - in_bin iv (\<lambda>b. 0 < so_qty o' \<and> bn_tenant b = t \<and> bn_blocked b \<and> \<not> bn_system b \<and> \<not> quarantined iv t w s (so_bin o')) o') (scoped iv t w s))"
    by (rule arg_cong [where f = sum_list], rule map_cong [OF refl], rule terms_per_row [OF assms, symmetric])
  also have "\<dots> = committedOnHand iv t w s - qcHeldUnits iv t w s - inTransitUnits iv t w s - returnsAwaitingUnits iv t w s
      - damagedUnits iv t w s - unpromisableBatchUnits iv t w s at - blocked_bin_units iv t w s"
    by (simp add: sum_list_subtractf hooks_per_stock [OF assms] on_hand_per_stock unpromisable_per_stock [OF assms])
  finally show ?thesis by (simp add: committedCeiling_def unpromisableUnits_def)
qed

lemma promisable_units_nonneg:
  assumes "inventory_ok iv t w s"
  shows "0 \<le> promisable_units iv t w s at"
  unfolding promisable_units_def
proof (rule sum_where_nonneg)
  fix o'
  assume "o' \<in> set (db_stock (iv_ledger iv))"
  then have "0 \<le> so_qty o'" using assms by (simp add: inventory_ok_def list_all_iff)
  then show "0 \<le> promisable_of iv t w s at o'" by (simp add: promisable_of_def split: option.split)
qed

lemma joined_lot:
  "x \<in> set (joined iv t w s r) \<Longrightarrow> batch_scope t w s r \<and> (\<exists>l n. lot_of iv t (ba_batch r) = Some l \<and>
     x = \<lparr>ur_bin = ba_bin r, ur_qty = ba_qty r, ur_status = lo_status l, ur_expiry = lo_expiry l, ur_on_hand = n\<rparr>)"
  by (cases "lot_of iv t (ba_batch r)"; cases "bin_of iv (ba_bin r)"; cases "stock_of iv t w s (ba_bin r)")
    (auto simp: joined_def split: if_splits)

lemma probe_rows:
  assumes "inventory_ok iv t w s" and "row \<in> set (batch_join iv t w s)"
  shows "kept_row iv t w s at row =
    (\<not> isBatchAllocatableAt (ur_status row) (map_option Instant (ur_expiry row)) at (minOutboundShelfLifeOfSkuInTx iv t s) None)"
proof -
  obtain r where r: "r \<in> set (db_batches (iv_ledger iv))" "row \<in> set (joined iv t w s r)"
    using assms by (auto simp: batch_join_per_row)
  then obtain l n where l: "lot_of iv t (ba_batch r) = Some l" "batch_scope t w s r"
      "row = \<lparr>ur_bin = ba_bin r, ur_qty = ba_qty r, ur_status = lo_status l, ur_expiry = lo_expiry l, ur_on_hand = n\<rparr>"
    using joined_lot by blast
  then have l': "l \<in> set (iv_lots iv)" "lo_tenant l = t" "lo_id l = ba_batch r" by (auto dest: lot_ofD)
  have st: "lo_status l = ''active'' \<or> lo_status l = ''blocked''"
    using assms(1) l'(1) by (auto simp: inventory_ok_def list_all_iff)
  have "\<not> isBatchAllocatableAt ''blocked'' e at m j" for e m j by (simp add: isBatchAllocatableAt_def)
  then show ?thesis
    using kept_iff [of row iv t w s at] probe_exact [OF r(1) l'(1) l(2) l'(2,3) st, of at] st l(3) by auto
qed

section \<open>A concrete inventory\<close>

text \<open>
  One SKU in four bins: a plain bin with a live, an expired and a blocked lot, a blocked bin, the QC hold
  bin and a quarantined bin; the client asks for ten days of shelf life.
\<close>

definition sample_bin :: "uuid \<Rightarrow> string \<Rightarrow> bool \<Rightarrow> bool \<Rightarrow> bin_row" where
  "sample_bin i code sys blk = \<lparr>bn_id = i, bn_tenant = ''t'', bn_wh = ''w'', bn_code = code, bn_system = sys, bn_blocked = blk\<rparr>"

definition sample_stock :: "uuid \<Rightarrow> int \<Rightarrow> stock_row" where
  "sample_stock b q = \<lparr>so_tenant = ''t'', so_wh = ''w'', so_sku = ''s'', so_bin = b, so_qty = q\<rparr>"

definition sample_batch :: "uuid \<Rightarrow> uuid \<Rightarrow> int \<Rightarrow> batch_row" where
  "sample_batch b l q = \<lparr>ba_tenant = ''t'', ba_wh = ''w'', ba_sku = ''s'', ba_bin = b, ba_batch = l, ba_qty = q\<rparr>"

definition sample_lot :: "uuid \<Rightarrow> string \<Rightarrow> millis option \<Rightarrow> lot_row" where
  "sample_lot i st e = \<lparr>lo_tenant = ''t'', lo_id = i, lo_status = st, lo_expiry = e\<rparr>"

definition sample_inventory :: "uuid list \<Rightarrow> inventory_db" where
  "sample_inventory quarantines =
     \<lparr>iv_ledger = \<lparr>db_events = [], db_stock = [sample_stock ''a'' 9, sample_stock ''b'' 4, sample_stock ''q'' 3, sample_stock ''d'' 2],
        db_batches = [sample_batch ''a'' ''l1'' 4, sample_batch ''a'' ''l2'' 3, sample_batch ''a'' ''l3'' 2],
        db_epochs = [], db_freezes = [], db_skus = [\<lparr>sk_tenant = ''t'', sk_id = ''s'', sk_client = ''c''\<rparr>]\<rparr>,
      iv_bins = [sample_bin ''a'' ''A-01'' False False, sample_bin ''b'' ''B-01'' False True,
        sample_bin ''q'' QC_HOLD_BIN_CODE True False, sample_bin ''d'' ''D-01'' False False],
      iv_quarantines = map (\<lambda>b. \<lparr>qu_id = b, qu_tenant = ''t'', qu_wh = ''w'', qu_sku = ''s'', qu_bin = b,
        qu_from = 1, qu_to = 2, qu_open = True\<rparr>) quarantines,
      iv_lots = [sample_lot ''l1'' ''active'' (Some 10000000000), sample_lot ''l2'' ''active'' (Some 800000000),
        sample_lot ''l3'' ''blocked'' None],
      iv_clients = [\<lparr>cl_tenant = ''t'', cl_id = ''c'', cl_rule = ''fefo'', cl_min_days = Some 10\<rparr>],
      iv_reservations = []\<rparr>"

lemma sample_inventory_ok: "inventory_ok (sample_inventory qs) ''t'' ''w'' ''s''"
  by (simp add: inventory_ok_def sample_inventory_def sample_bin_def sample_stock_def sample_lot_def so_key_def)

lemma sample_ceilings:
  "committedCeiling (sample_inventory [''d'']) ''t'' ''w'' ''s'' 0 = 4"
  "committedCeiling (sample_inventory [''q'']) ''t'' ''w'' ''s'' 0 = 3"
  by code_simp+

section \<open>Properties\<close>

text \<open>
  C18. The ceiling a grant is measured against is exactly what may be promised: over tables that satisfy
  the schema's keys and checks, with no quarantine on one of the four skipped system bins, it is the sum
  over the SKU's stock rows of the units of that row that may go out (none in a quarantined, skipped
  system or blocked bin; elsewhere the row less its expired, blocked or too short-lived batches). It is
  therefore never negative.
\<close>

theorem ceiling_is_promisable:
  assumes "inventory_ok iv t w s"
    and "\<forall>q \<in> set (iv_quarantines iv). \<forall>b \<in> set (iv_bins iv). qu_open q \<and> bn_id b = qu_bin q \<longrightarrow> \<not> skipped_system_bin b"
  shows "committedCeiling iv t w s at = promisable_units iv t w s at"
proof -
  have "twice_subtracted iv t w s = 0"
    unfolding twice_subtracted_def
    by (rule sum_where_none) (use assms(2) in \<open>auto simp: quarantined_def split: option.splits dest!: bin_ofD\<close>)
  then show ?thesis using ceiling_exact [OF assms(1)] promisable_units_nonneg [OF assms(1)] by simp
qed

theorem ceiling_is_promisable_witness:
  "committedCeiling (sample_inventory [''d'']) ''t'' ''w'' ''s'' 0 = promisable_units (sample_inventory [''d'']) ''t'' ''w'' ''s'' 0"
  by (rule ceiling_is_promisable [OF sample_inventory_ok]) (simp add: sample_inventory_def sample_bin_def skipped_system_bin_def)

text \<open>
  The lazily read minimum and the widened SQL filter change nothing: the unpromisable batch units are
  those of all joined rows whose lot the one allocatability predicate refuses under the client's minimum,
  whether or not the probe found a live dated batch.
\<close>

theorem unpromisable_probe_is_exact:
  assumes "inventory_ok iv t w s"
  shows "unpromisableBatchUnits iv t w s at = unpromisable_total (filter (\<lambda>row.
    \<not> isBatchAllocatableAt (ur_status row) (map_option Instant (ur_expiry row)) at (minOutboundShelfLifeOfSkuInTx iv t s) None)
    (batch_join iv t w s))"
  unfolding unpromisable_kept
  by (rule arg_cong [where f = unpromisable_total], rule filter_cong [OF refl], rule probe_rows [OF assms])

theorem unpromisable_probe_is_exact_witness:
  "unpromisableBatchUnits (sample_inventory []) ''t'' ''w'' ''s'' 0 = unpromisable_total (filter (\<lambda>row.
    \<not> isBatchAllocatableAt (ur_status row) (map_option Instant (ur_expiry row)) 0
      (minOutboundShelfLifeOfSkuInTx (sample_inventory []) ''t'' ''s'') None)
    (batch_join (sample_inventory []) ''t'' ''w'' ''s''))"
  by (rule unpromisable_probe_is_exact [OF sample_inventory_ok])

text \<open>
  C40. A quarantined system bin is subtracted twice: a row of one of the four skipped system bins that is
  also under an open quarantine is left out of the on-hand and subtracted again by its hook, so the
  ceiling falls below what may be promised by the units of every such row (to zero at worst).
\<close>

theorem quarantined_system_bin_subtracted_twice:
  assumes "inventory_ok iv t w s" and "o' \<in> set (db_stock (iv_ledger iv))" and "stock_scope t w s o'"
    and "quarantined iv t w s (so_bin o')" and "bin_of iv (so_bin o') = Some b" and "skipped_system_bin b"
  shows "so_qty o' \<le> twice_subtracted iv t w s \<and> promisable_of iv t w s at o' = 0 \<and>
    committedCeiling iv t w s at = max 0 (promisable_units iv t w s at - twice_subtracted iv t w s)"
proof -
  have "so_qty o' \<le> twice_subtracted iv t w s"
    unfolding twice_subtracted_def
    by (rule sum_where_member_le) (use assms in \<open>auto simp: inventory_ok_def list_all_iff\<close>)
  with assms(4-6) ceiling_exact [OF assms(1)] show ?thesis by (simp add: promisable_of_def)
qed

theorem quarantined_system_bin_subtracted_twice_witness:
  "so_qty (sample_stock ''q'' 3) \<le> twice_subtracted (sample_inventory [''q'']) ''t'' ''w'' ''s'' \<and>
   promisable_of (sample_inventory [''q'']) ''t'' ''w'' ''s'' 0 (sample_stock ''q'' 3) = 0 \<and>
   committedCeiling (sample_inventory [''q'']) ''t'' ''w'' ''s'' 0 =
     max 0 (promisable_units (sample_inventory [''q'']) ''t'' ''w'' ''s'' 0 - twice_subtracted (sample_inventory [''q'']) ''t'' ''w'' ''s'')"
  by (rule quarantined_system_bin_subtracted_twice [OF sample_inventory_ok, where b = "sample_bin ''q'' QC_HOLD_BIN_CODE True False"])
    (simp_all add: sample_inventory_def sample_stock_def sample_bin_def stock_scope_def quarantined_def bin_of_def skipped_system_bin_def)

end
