(* ===== verification/Effects.thy ===== *)
theory Effects
  imports Prelude
begin

text \<open>
  Procedures with state and failure: an asynchronous method of a service is a function from the world to
  its outcome (a value, or what it threw) and the world it leaves, where a failure does not undo what
  was done before it. \<open>attempt\<close> is try/catch. \<open>hoare\<close> is the triple with one postcondition for each
  of the two ways out, and its rules follow the constructs.
\<close>

type_synonym ('w, 'a) proc = "'w \<Rightarrow> 'a result \<times> 'w"

definition ret :: "'a \<Rightarrow> ('w, 'a) proc" where
  "ret v w = (Inr v, w)"

definition raise :: "failure \<Rightarrow> ('w, 'a) proc" where
  "raise e w = (Inl e, w)"

definition bind :: "('w, 'a) proc \<Rightarrow> ('a \<Rightarrow> ('w, 'b) proc) \<Rightarrow> ('w, 'b) proc" where
  "bind m k w = (case m w of (Inl e, w') \<Rightarrow> (Inl e, w') | (Inr v, w') \<Rightarrow> k v w')"

definition attempt :: "('w, 'a) proc \<Rightarrow> (failure \<Rightarrow> ('w, 'a) proc) \<Rightarrow> ('w, 'a) proc" where
  "attempt m h w = (case m w of (Inl e, w') \<Rightarrow> h e w' | (Inr v, w') \<Rightarrow> (Inr v, w'))"

definition lift :: "'a result \<Rightarrow> ('w, 'a) proc" where
  "lift r w = (r, w)"

definition read :: "('w \<Rightarrow> 'a) \<Rightarrow> ('w, 'a) proc" where
  "read f w = (Inr (f w), w)"

fun for_each :: "('a \<Rightarrow> ('w, unit) proc) \<Rightarrow> 'a list \<Rightarrow> ('w, unit) proc" where
  "for_each f [] = ret ()"
| "for_each f (x # xs) = bind (f x) (\<lambda>_. for_each f xs)"

lemma proc_simps [simp]:
  "ret v w = (Inr v, w)"
  "raise e w = (Inl e, w)"
  "lift r w = (r, w)"
  "read f w = (Inr (f w), w)"
  by (simp_all add: ret_def raise_def lift_def read_def)

lemma bind_eqs:
  "m w = (Inl e, w') \<Longrightarrow> bind m k w = (Inl e, w')"
  "m w = (Inr v, w') \<Longrightarrow> bind m k w = k v w'"
  by (simp_all add: bind_def)

lemma bind_Inr:
  "(bind m k w = (Inr y, w'')) = (\<exists>v w'. m w = (Inr v, w') \<and> k v w' = (Inr y, w''))"
  by (auto simp: bind_def split: prod.split sum.split)

lemma attempt_Inr:
  "(attempt m h w = (Inr y, w'')) =
   (m w = (Inr y, w'') \<or> (\<exists>e w'. m w = (Inl e, w') \<and> h e w' = (Inr y, w'')))"
  by (auto simp: attempt_def split: prod.split sum.split)

section \<open>Triples\<close>

named_theorems triples "triples of the procedures"

definition hoare :: "('w \<Rightarrow> bool) \<Rightarrow> ('w, 'a) proc \<Rightarrow> ('a \<Rightarrow> 'w \<Rightarrow> bool) \<Rightarrow> (failure \<Rightarrow> 'w \<Rightarrow> bool) \<Rightarrow> bool" where
  "hoare P m Q E = (\<forall>w. P w \<longrightarrow> (case m w of (Inl e, w') \<Rightarrow> E e w' | (Inr v, w') \<Rightarrow> Q v w'))"

lemma hoareI:
  assumes "\<And>w v w'. P w \<Longrightarrow> m w = (Inr v, w') \<Longrightarrow> Q v w'"
    and "\<And>w e w'. P w \<Longrightarrow> m w = (Inl e, w') \<Longrightarrow> E e w'"
  shows "hoare P m Q E"
  unfolding hoare_def
proof (intro allI impI)
  fix w
  assume "P w"
  with assms show "case m w of (Inl e, w') \<Rightarrow> E e w' | (Inr v, w') \<Rightarrow> Q v w'"
    by (cases "m w"; cases "fst (m w)") auto
qed

lemma hoareD:
  assumes "hoare P m Q E" and "P w"
  shows "m w = (Inr v, w') \<Longrightarrow> Q v w'" and "m w = (Inl e, w') \<Longrightarrow> E e w'"
  using assms by (auto simp: hoare_def)

lemma hoare_ret: "(\<And>w. P w \<Longrightarrow> Q v w) \<Longrightarrow> hoare P (ret v) Q E"
  by (simp add: hoare_def)

lemma hoare_raise: "(\<And>w. P w \<Longrightarrow> E e w) \<Longrightarrow> hoare P (raise e) Q E"
  by (simp add: hoare_def)

lemma hoare_lift: "(\<And>w v. P w \<Longrightarrow> r = Inr v \<Longrightarrow> Q v w) \<Longrightarrow> (\<And>w e. P w \<Longrightarrow> r = Inl e \<Longrightarrow> E e w) \<Longrightarrow> hoare P (lift r) Q E"
  by (cases r) (simp_all add: hoare_def)

lemma hoare_read: "(\<And>w. P w \<Longrightarrow> Q (f w) w) \<Longrightarrow> hoare P (read f) Q E"
  by (simp add: hoare_def)

lemma hoare_bind:
  assumes "hoare P m R E" and "\<And>v. hoare (R v) (k v) Q E"
  shows "hoare P (bind m k) Q E"
  unfolding hoare_def
proof (intro allI impI)
  fix w
  assume "P w"
  then show "case bind m k w of (Inl e, w') \<Rightarrow> E e w' | (Inr v, w') \<Rightarrow> Q v w'"
    using hoareD [OF assms(1), of w] assms(2)
    by (cases "m w"; cases "fst (m w)") (auto simp: bind_def hoare_def)
qed

lemma hoare_attempt:
  assumes "hoare P m Q R" and "\<And>e. hoare (R e) (h e) Q E"
  shows "hoare P (attempt m h) Q E"
  unfolding hoare_def
proof (intro allI impI)
  fix w
  assume "P w"
  then show "case attempt m h w of (Inl e, w') \<Rightarrow> E e w' | (Inr v, w') \<Rightarrow> Q v w'"
    using hoareD [OF assms(1), of w] assms(2)
    by (cases "m w"; cases "fst (m w)") (auto simp: attempt_def hoare_def)
qed

lemma hoare_conseq:
  assumes "hoare P' m Q' E'" and "\<And>w. P w \<Longrightarrow> P' w" and "\<And>v w. Q' v w \<Longrightarrow> Q v w" and "\<And>e w. E' e w \<Longrightarrow> E e w"
  shows "hoare P m Q E"
  using assms by (fastforce simp: hoare_def split: prod.split sum.split)

lemma hoare_ex:
  assumes "\<And>x. hoare (P x) m Q E"
  shows "hoare (\<lambda>w. \<exists>x. P x w) m Q E"
proof (rule hoareI)
  show "Q v w'" if "\<exists>x. P x w" and "m w = (Inr v, w')" for w v w'
    using that hoareD(1) [OF assms] by blast
  show "E e w'" if "\<exists>x. P x w" and "m w = (Inl e, w')" for w e w'
    using that hoareD(2) [OF assms] by blast
qed

lemma hoare_fact:
  assumes "C \<Longrightarrow> hoare P m Q E"
  shows "hoare (\<lambda>w. C \<and> P w) m Q E"
  using assms by (cases C) (simp_all add: hoare_def)

lemma hoare_for_each:
  assumes "\<And>x. x \<in> set xs \<Longrightarrow> hoare P (f x) (\<lambda>_. P) E"
  shows "hoare P (for_each f xs) (\<lambda>_. P) E"
  using assms by (induction xs) (auto intro: hoare_ret hoare_bind)

lemma hoare_if:
  "(b \<Longrightarrow> hoare P m Q E) \<Longrightarrow> (\<not> b \<Longrightarrow> hoare P n Q E) \<Longrightarrow> hoare P (if b then m else n) Q E"
  by simp

text \<open>A procedure keeps a predicate, whichever way it ends.\<close>

abbreviation keeps :: "('w \<Rightarrow> bool) \<Rightarrow> ('w, 'a) proc \<Rightarrow> bool" where
  "keeps P m \<equiv> hoare P m (\<lambda>_. P) (\<lambda>_. P)"

lemma keeps_basic: "keeps P (ret v)" "keeps P (raise e)" "keeps P (lift r)" "keeps P (read f)"
  by (auto intro: hoare_ret hoare_raise hoare_lift hoare_read)

lemma keeps_bind: "keeps P m \<Longrightarrow> (\<And>v. keeps P (k v)) \<Longrightarrow> keeps P (bind m k)"
  by (rule hoare_bind)

lemma keeps_attempt: "keeps P m \<Longrightarrow> (\<And>e. keeps P (h e)) \<Longrightarrow> keeps P (attempt m h)"
  by (rule hoare_attempt)

lemma keeps_for_each: "(\<And>x. x \<in> set xs \<Longrightarrow> keeps P (f x)) \<Longrightarrow> keeps P (for_each f xs)"
  by (rule hoare_for_each)

lemma keepsD:
  assumes "keeps P m" and "P w"
  shows "P (snd (m w))"
  using hoareD [OF assms] by (cases "m w"; cases "fst (m w)") auto

end
