(* ===== verification/Valkey.thy ===== *)
theory Valkey
  imports Effects LedgerReplay
begin

text \<open>
  The atomic-decision store (\<open>shared/valkey\<close>): the reserved counters and ready markers, the two Lua
  scripts and the client's typed calls over them. A stored value is an integer in decimal or text that
  is no number; a key's time to live is the environment's (a key may vanish between operations).
  \<open>assertCounterValue\<close> keeps every argument an exact double, so the scripts' arithmetic is exact.
\<close>

datatype stored = Num int | Corrupt

type_synonym store = "string \<Rightarrow> stored option"

datatype script_reply = Win int | Loss string

definition reservationCounterKey :: "uuid \<Rightarrow> uuid \<Rightarrow> uuid \<Rightarrow> string" where
  "reservationCounterKey tenant wh sku = ''wms:{'' @ tenant @ ''}:wh:'' @ wh @ '':res:'' @ sku"

definition reservationReadyKey :: "uuid \<Rightarrow> uuid \<Rightarrow> string" where
  "reservationReadyKey tenant wh = ''wms:{'' @ tenant @ ''}:wh:'' @ wh @ '':res:__ready__''"

definition RESERVATION_GRANT_SCRIPT :: "string \<Rightarrow> string \<Rightarrow> int \<Rightarrow> int \<Rightarrow> store \<Rightarrow> script_reply \<times> store" where
  "RESERVATION_GRANT_SCRIPT counterKey readyKey qty ceiling st =
     (if st readyKey = None then (Loss ''not-ready'', st)
      else case st counterKey of
        None \<Rightarrow> (Loss ''missing-counter'', st)
      | Some Corrupt \<Rightarrow> (Loss ''missing-counter'', st)
      | Some (Num reserved) \<Rightarrow>
          if qty \<le> 0 then (Loss ''invalid-qty'', st)
          else if reserved + qty > ceiling then (Loss ''unavailable'', st)
          else (Win (reserved + qty), st(counterKey \<mapsto> Num (reserved + qty))))"

text \<open>Arithmetic on a value that is no number fails the script.\<close>

definition RESERVATION_RELEASE_SCRIPT :: "string \<Rightarrow> int \<Rightarrow> store \<Rightarrow> script_reply result \<times> store" where
  "RESERVATION_RELEASE_SCRIPT counterKey qty st =
     (case st counterKey of
        None \<Rightarrow> (Inr (Loss ''missing-counter''), st)
      | Some Corrupt \<Rightarrow> (Inl (Thrown ''script-error''), st)
      | Some (Num reserved) \<Rightarrow>
          (let restored = (if reserved - qty < 0 then 0 else reserved - qty)
           in (Inr (Win restored), st(counterKey \<mapsto> Num restored))))"

section \<open>Calls\<close>

text \<open>
  What may happen to a call: it is executed and answered, it never reaches the store, or it is executed
  and the answer is lost. The last two throw. The fates of the calls to come are part of the world, and
  the calls after the list are delivered.
\<close>

datatype fate = Delivered | NotSent | ReplyLost

definition store_down :: failure where
  "store_down = Thrown ''valkey''"

fun deliver :: "fate list \<Rightarrow> (store \<Rightarrow> 'a result \<times> store) \<Rightarrow> store \<Rightarrow> 'a result \<times> store" where
  "deliver (NotSent # _) f st = (Inl store_down, st)"
| "deliver (ReplyLost # _) f st = (Inl store_down, snd (f st))"
| "deliver _ f st = f st"

definition counter_value :: "int \<Rightarrow> bool" where
  "counter_value n = (\<bar>n\<bar> \<le> MAX_SAFE_INTEGER)"

definition getCounter_of :: "string \<Rightarrow> store \<Rightarrow> int option" where
  "getCounter_of key st = (case st key of Some (Num n) \<Rightarrow> (if 0 \<le> n then Some n else None) | _ \<Rightarrow> None)"

definition setCounter_to :: "string \<Rightarrow> int \<Rightarrow> bool \<Rightarrow> store \<Rightarrow> store" where
  "setCounter_to key n overwrite st = (if overwrite \<or> st key = None then st(key \<mapsto> Num n) else st)"

section \<open>Keys\<close>

definition uuid_shape :: "string \<Rightarrow> bool" where
  "uuid_shape s = (map length (split_on CHR ''-'' s) = [8, 4, 4, 4, 12] \<and>
     list_all (\<lambda>c. c \<in> set ''0123456789abcdefABCDEF-'') s)"

lemma uuid_no_colon: "uuid_shape s \<Longrightarrow> CHR '':'' \<notin> set s \<and> CHR ''}'' \<notin> set s"
proof -
  assume "uuid_shape s"
  then have "\<forall>c \<in> set s. c \<in> set ''0123456789abcdefABCDEF-''"
    unfolding uuid_shape_def list_all_iff by (rule conjunct2)
  moreover have "CHR '':'' \<notin> set ''0123456789abcdefABCDEF-''" "CHR ''}'' \<notin> set ''0123456789abcdefABCDEF-''" by simp_all
  ultimately show ?thesis by blast
qed

text \<open>The keys of well-formed ids never collide, nor does a counter key with a ready key.\<close>

lemma counter_key_inject:
  assumes "uuid_shape t" and "uuid_shape w" and "uuid_shape t'" and "uuid_shape w'"
  shows "(reservationCounterKey t w s = reservationCounterKey t' w' s') = (t = t' \<and> w = w' \<and> s = s')"
proof -
  have "(reservationCounterKey t w s = reservationCounterKey t' w' s') =
      (t @ CHR ''}'' # '':wh:'' @ w @ CHR '':'' # ''res:'' @ s = t' @ CHR ''}'' # '':wh:'' @ w' @ CHR '':'' # ''res:'' @ s')"
    by (simp add: reservationCounterKey_def)
  then show ?thesis
    using append_sep_inject [of "CHR ''}''" t t'] append_sep_inject [of "CHR '':''" w w'] uuid_no_colon assms
    by auto
qed

lemma counter_key_not_ready:
  assumes "uuid_shape t" and "uuid_shape w" and "uuid_shape s" and "uuid_shape t'" and "uuid_shape w'"
  shows "reservationCounterKey t w s \<noteq> reservationReadyKey t' w'"
proof -
  have "reservationReadyKey t' w' = reservationCounterKey t' w' ''__ready__''"
    by (simp add: reservationReadyKey_def reservationCounterKey_def)
  moreover have "s \<noteq> ''__ready__''" using assms(3) by (auto simp: uuid_shape_def)
  ultimately show ?thesis using counter_key_inject [OF assms(1,2,4,5), of s "''__ready__''"] by simp
qed

end
