(* ===== verification/Reservation.thy ===== *)
theory Reservation
  imports Availability Valkey
begin

text \<open>
  The reservation service (\<open>modules/inventory/reservation.service.ts\<close>): the journal of holds in Postgres,
  the mirror counters in Valkey and every operation over both. The world holds the tables, the store,
  the fates of the store calls and of the transactions to come, the clock and the backoff map. A
  transaction rolls back when its body throws; otherwise it commits, aborts, or commits with its answer
  lost. One operation runs at a time here (no rebuild is in flight when one starts); ids are in the
  canonical form Postgres prints; problem details and log lines are left out.
\<close>

section \<open>The world\<close>

record world =
  wd_iv :: inventory_db
  wd_store :: store
  wd_calls :: "fate list"
  wd_txs :: "fate list"
  wd_now :: millis
  wd_failed :: "string \<Rightarrow> millis option"

type_synonym 'a op = "(world, 'a) proc"

definition database_down :: failure where
  "database_down = Thrown ''database''"

definition in_tx :: "'a op \<Rightarrow> 'a op" where
  "in_tx body w =
     (case body w of
        (Inl e, w') \<Rightarrow> (Inl e, w'\<lparr>wd_iv := wd_iv w\<rparr>)
      | (Inr v, w') \<Rightarrow>
          (case wd_txs w' of
             [] \<Rightarrow> (Inr v, w')
           | Delivered # fs \<Rightarrow> (Inr v, w'\<lparr>wd_txs := fs\<rparr>)
           | NotSent # fs \<Rightarrow> (Inl database_down, w'\<lparr>wd_iv := wd_iv w, wd_txs := fs\<rparr>)
           | ReplyLost # fs \<Rightarrow> (Inl database_down, w'\<lparr>wd_txs := fs\<rparr>)))"

definition valkey_call :: "(store \<Rightarrow> 'a result \<times> store) \<Rightarrow> 'a op" where
  "valkey_call f w =
     (case deliver (wd_calls w) f (wd_store w) of
        (r, st) \<Rightarrow> (r, w\<lparr>wd_store := st, wd_calls := tl (wd_calls w)\<rparr>))"

definition counter_refused :: failure where
  "counter_refused = Thrown ''counter-value''"

definition grantReservation :: "string \<Rightarrow> string \<Rightarrow> int \<Rightarrow> int \<Rightarrow> script_reply op" where
  "grantReservation counterKey readyKey qty ceiling =
     (if \<not> counter_value qty \<or> \<not> counter_value ceiling then raise counter_refused
      else valkey_call (\<lambda>st. case RESERVATION_GRANT_SCRIPT counterKey readyKey qty ceiling st of (r, st') \<Rightarrow> (Inr r, st')))"

definition releaseReservation :: "string \<Rightarrow> int \<Rightarrow> script_reply op" where
  "releaseReservation counterKey qty =
     (if \<not> counter_value qty then raise counter_refused else valkey_call (RESERVATION_RELEASE_SCRIPT counterKey qty))"

definition setCounter :: "string \<Rightarrow> int \<Rightarrow> bool \<Rightarrow> unit op" where
  "setCounter key n overwrite =
     (if \<not> counter_value n \<or> n < 0 then raise counter_refused
      else valkey_call (\<lambda>st. (Inr (), setCounter_to key n overwrite st)))"

definition getCounter :: "string \<Rightarrow> int option op" where
  "getCounter key = valkey_call (\<lambda>st. (Inr (getCounter_of key st), st))"

definition setReady :: "string \<Rightarrow> unit op" where
  "setReady key = valkey_call (\<lambda>st. (Inr (), st(key \<mapsto> Num 1)))"

definition isReady :: "string \<Rightarrow> bool op" where
  "isReady key = valkey_call (\<lambda>st. (Inr (st key \<noteq> None), st))"

definition disarmReady :: "string \<Rightarrow> unit op" where
  "disarmReady key = valkey_call (\<lambda>st. (Inr (), st(key := None)))"

section \<open>The journal\<close>

definition DEFAULT_RESERVATION_TTL_SECONDS :: int where "DEFAULT_RESERVATION_TTL_SECONDS = 900"
definition MAX_RESERVATION_TTL_SECONDS :: int where "MAX_RESERVATION_TTL_SECONDS = 10 * 365 * 24 * 3600"
definition REAP_BATCH :: nat where "REAP_BATCH = 100"
definition READY_REPAIR_BACKOFF_MS :: int where "READY_REPAIR_BACKOFF_MS = 5000"

definition validation_refused :: failure where "validation_refused = Problem ''validation-failed'' 400"
definition unavailable :: failure where "unavailable = Problem ''unavailable'' 409"
definition conflict :: failure where "conflict = Problem ''conflict'' 409"
definition reservation_not_found :: failure where "reservation_not_found = Problem ''not-found'' 404"
definition reservationStoreUnavailable :: failure where
  "reservationStoreUnavailable = Problem ''reservation-store-unavailable'' 503"
definition open_owner_scope_unique :: failure where
  "open_owner_scope_unique = Thrown ''reservations_open_owner_scope_unique''"

definition requireUuid :: "string \<Rightarrow> unit op" where
  "requireUuid v = lift (require (uuid_shape v) validation_refused)"

type_synonym owner_scope = "uuid \<times> uuid \<times> uuid \<times> string \<times> string"

definition owner_scope_of :: "reservation_row \<Rightarrow> owner_scope" where
  "owner_scope_of r = (rv_tenant r, rv_wh r, rv_sku r, rv_owner_type r, rv_owner r)"

definition journal :: "world \<Rightarrow> reservation_row list" where
  "journal w = iv_reservations (wd_iv w)"

definition set_journal :: "reservation_row list \<Rightarrow> world \<Rightarrow> world" where
  "set_journal rows w = w\<lparr>wd_iv := (wd_iv w)\<lparr>iv_reservations := rows\<rparr>\<rparr>"

text \<open>The insert under the partial unique index on open owner scopes.\<close>

definition insert_hold :: "reservation_row \<Rightarrow> reservation_row op" where
  "insert_hold row w =
     (if list_ex (\<lambda>r. rv_state r = Held \<and> owner_scope_of r = owner_scope_of row) (journal w)
      then (Inl open_owner_scope_unique, w)
      else (Inr row, set_journal (journal w @ [row]) w))"

text \<open>The conditional update of a row's state, returning the row it changed.\<close>

definition set_state :: "uuid \<Rightarrow> uuid \<Rightarrow> reservation_state list \<Rightarrow> reservation_state \<Rightarrow> reservation_row option op" where
  "set_state tenant i from to w =
     (let P = (\<lambda>r. rv_id r = i \<and> rv_tenant r = tenant \<and> rv_state r \<in> set from) in
      (Inr (map_option (rv_state_update (\<lambda>_. to)) (find P (journal w))),
       set_journal (update_where P (rv_state_update (\<lambda>_. to)) (journal w)) w))"

definition findOpenHold :: "owner_scope \<Rightarrow> world \<Rightarrow> reservation_row option" where
  "findOpenHold scope w = find (\<lambda>r. owner_scope_of r = scope \<and> rv_state r = Held) (journal w)"

definition live :: "reservation_row \<Rightarrow> bool" where
  "live r = (rv_state r = Held \<or> rv_state r = Committed)"

definition reserved_sum :: "uuid \<Rightarrow> uuid \<Rightarrow> uuid \<Rightarrow> reservation_row list \<Rightarrow> int" where
  "reserved_sum t wh s rows = sum_where (\<lambda>r. rv_tenant r = t \<and> rv_wh r = wh \<and> rv_sku r = s \<and> live r) rv_qty rows"

definition journalReservedSums :: "uuid \<Rightarrow> uuid \<Rightarrow> world \<Rightarrow> (uuid \<times> int) list" where
  "journalReservedSums t wh w =
     map (\<lambda>s. (s, reserved_sum t wh s (journal w)))
       (remdups (map rv_sku (filter (\<lambda>r. rv_tenant r = t \<and> rv_wh r = wh \<and> live r) (journal w))))"

text \<open>With the SKU given: the one group, or 0 when the query returns no row.\<close>

definition journalReservedSum :: "uuid \<Rightarrow> uuid \<Rightarrow> uuid \<Rightarrow> world \<Rightarrow> int" where
  "journalReservedSum t wh s w = reserved_sum t wh s (journal w)"

definition ceiling_now :: "uuid \<Rightarrow> uuid \<Rightarrow> uuid \<Rightarrow> world \<Rightarrow> int" where
  "ceiling_now t wh s w = committedCeiling (wd_iv w) t wh s (wd_now w)"

section \<open>Rebuilding the counters\<close>

definition set_if_below :: "uuid \<Rightarrow> uuid \<Rightarrow> uuid \<times> int \<Rightarrow> unit op" where
  "set_if_below t wh = (\<lambda>(s, reserved).
     bind (getCounter (reservationCounterKey t wh s)) (\<lambda>current.
       if current = None \<or> the current < reserved
       then setCounter (reservationCounterKey t wh s) reserved True else ret ()))"

definition warehouse_scopes :: "uuid \<Rightarrow> uuid \<Rightarrow> world \<Rightarrow> (uuid \<times> int) list \<Rightarrow> (uuid \<times> int) list" where
  "warehouse_scopes t wh w sums =
     sums @ map (\<lambda>s. (s, 0)) (filter (\<lambda>s. s \<notin> fst ` set sums)
       (remdups (map so_sku (filter (\<lambda>r. so_tenant r = t \<and> so_wh r = wh) (db_stock (iv_ledger (wd_iv w)))))))"

definition rebuildWarehouse :: "uuid \<Rightarrow> uuid \<Rightarrow> (uuid \<times> int) list op" where
  "rebuildWarehouse t wh =
     bind (disarmReady (reservationReadyKey t wh)) (\<lambda>_.
     bind (in_tx (read (journalReservedSums t wh))) (\<lambda>sums.
     bind (in_tx (read (\<lambda>w. warehouse_scopes t wh w sums))) (\<lambda>scopes.
     bind (for_each (\<lambda>(s, n). setCounter (reservationCounterKey t wh s) n True) scopes) (\<lambda>_.
     bind (in_tx (read (journalReservedSums t wh))) (\<lambda>again.
     bind (for_each (set_if_below t wh) again) (\<lambda>_.
     bind (setReady (reservationReadyKey t wh)) (\<lambda>_.
     ret scopes)))))))"

definition flight_key :: "uuid \<Rightarrow> uuid \<Rightarrow> string" where
  "flight_key t wh = t @ '':'' @ wh"

definition clear_failure :: "string \<Rightarrow> unit op" where
  "clear_failure key w = (Inr (), w\<lparr>wd_failed := (wd_failed w)(key := None)\<rparr>)"

definition rebuild_targets :: "uuid \<Rightarrow> world \<Rightarrow> uuid list" where
  "rebuild_targets t w = remdups (
     map rv_wh (filter (\<lambda>r. rv_tenant r = t) (journal w)) @
     map so_wh (filter (\<lambda>r. so_tenant r = t) (db_stock (iv_ledger (wd_iv w)))))"

definition rebuildCounters :: "uuid \<Rightarrow> uuid option \<Rightarrow> unit op" where
  "rebuildCounters t target =
     bind (requireUuid t) (\<lambda>_.
     bind (case target of None \<Rightarrow> in_tx (read (rebuild_targets t)) | Some wh \<Rightarrow> bind (requireUuid wh) (\<lambda>_. ret [wh])) (\<lambda>targets.
     for_each (\<lambda>wh. bind (rebuildWarehouse t wh) (\<lambda>_. clear_failure (flight_key t wh))) targets))"

definition inRepairBackoff :: "string \<Rightarrow> bool op" where
  "inRepairBackoff key w =
     (case wd_failed w key of
        None \<Rightarrow> (Inr False, w)
      | Some failedAt \<Rightarrow>
          (let age = wd_now w - failedAt in
           if 0 \<le> age \<and> age < READY_REPAIR_BACKOFF_MS then (Inr True, w)
           else (Inr False, w\<lparr>wd_failed := (wd_failed w)(key := None)\<rparr>)))"

definition note_failure :: "string \<Rightarrow> unit op" where
  "note_failure key w = (Inr (), w\<lparr>wd_failed := (wd_failed w)(key \<mapsto> wd_now w)\<rparr>)"

definition ensureReady :: "uuid \<Rightarrow> uuid \<Rightarrow> bool op" where
  "ensureReady t wh =
     (let key = flight_key t wh; readyKey = reservationReadyKey t wh in
      bind (inRepairBackoff key) (\<lambda>backoff.
        if backoff then ret False
        else attempt
          (bind (isReady readyKey) (\<lambda>ready.
            if ready then ret True
            else bind (rebuildCounters t (Some wh)) (\<lambda>_. isReady readyKey)))
          (\<lambda>_. bind (inRepairBackoff key) (\<lambda>again.
            if again then ret False else bind (note_failure key) (\<lambda>_. ret False)))))"

section \<open>Granting\<close>

datatype grant_outcome = Granted | StoreDown | Lost

definition runGrantScript :: "uuid \<Rightarrow> uuid \<Rightarrow> uuid \<Rightarrow> int \<Rightarrow> int \<Rightarrow> grant_outcome op" where
  "runGrantScript t wh s qty ceiling =
     (let counterKey = reservationCounterKey t wh s; readyKey = reservationReadyKey t wh in
      bind (attempt (bind (grantReservation counterKey readyKey qty ceiling) (\<lambda>r. ret (Some r))) (\<lambda>_. ret None)) (\<lambda>reply.
      case reply of
        None \<Rightarrow> ret StoreDown
      | Some (Win _) \<Rightarrow> ret Granted
      | Some (Loss reason) \<Rightarrow>
          if reason = ''not-ready'' then bind (ensureReady t wh) (\<lambda>_. ret StoreDown)
          else if reason = ''missing-counter'' then
            bind (attempt (bind (in_tx (read (journalReservedSum t wh s))) (\<lambda>total.
                bind (setCounter counterKey total False) (\<lambda>_. ret True))) (\<lambda>_. ret False)) (\<lambda>repaired.
            if \<not> repaired then ret StoreDown
            else attempt (bind (grantReservation counterKey readyKey qty ceiling) (\<lambda>retry.
                ret (case retry of Win _ \<Rightarrow> Granted | Loss _ \<Rightarrow> Lost))) (\<lambda>_. ret StoreDown))
          else ret Lost))"

text \<open>The compensating release and the restores after a terminal transition: what fails is only logged.\<close>

definition compensate :: "string \<Rightarrow> int \<Rightarrow> unit op" where
  "compensate counterKey qty = attempt (bind (releaseReservation counterKey qty) (\<lambda>_. ret ())) (\<lambda>_. ret ())"

definition restoreCounter :: "reservation_row \<Rightarrow> unit op" where
  "restoreCounter row =
     attempt (bind (releaseReservation (reservationCounterKey (rv_tenant row) (rv_wh row) (rv_sku row)) (rv_qty row)) (\<lambda>_. ret ()))
       (\<lambda>_. ret ())"

record grant_command =
  gc_tenant :: uuid
  gc_wh :: uuid
  gc_sku :: uuid
  gc_owner_type :: string
  gc_owner :: string
  gc_qty :: int
  gc_ttl :: "int option"

definition command_scope :: "grant_command \<Rightarrow> owner_scope" where
  "command_scope c = (gc_tenant c, gc_wh c, gc_sku c, gc_owner_type c, gc_owner c)"

definition ttl_of :: "grant_command \<Rightarrow> int option" where
  "ttl_of c = (case gc_ttl c of Some n \<Rightarrow> Some n
     | None \<Rightarrow> if gc_owner_type c = BUFFER_OWNER_TYPE then None else Some DEFAULT_RESERVATION_TTL_SECONDS)"

definition hold_row :: "uuid \<Rightarrow> grant_command \<Rightarrow> millis \<Rightarrow> reservation_row" where
  "hold_row newId c now = \<lparr>rv_id = newId, rv_tenant = gc_tenant c, rv_wh = gc_wh c, rv_sku = gc_sku c,
     rv_owner_type = gc_owner_type c, rv_owner = gc_owner c, rv_qty = gc_qty c, rv_state = Held,
     rv_expires = map_option (\<lambda>ttl. now + ttl * 1000) (ttl_of c)\<rparr>"

definition idempotentHit :: "reservation_row \<Rightarrow> grant_command \<Rightarrow> reservation_row op" where
  "idempotentHit existing c = (if rv_qty existing \<noteq> gc_qty c then raise conflict else ret existing)"

definition check_command :: "grant_command \<Rightarrow> unit op" where
  "check_command c =
     bind (requireUuid (gc_tenant c)) (\<lambda>_. bind (requireUuid (gc_wh c)) (\<lambda>_. bind (requireUuid (gc_sku c)) (\<lambda>_.
     bind (lift (require (\<not> (gc_owner_type c = '''' \<or> gc_owner c = '''')) validation_refused)) (\<lambda>_.
     bind (lift (require (0 < gc_qty c) validation_refused)) (\<lambda>_.
     bind (lift (require (\<not> (ttl_of c = None \<and> gc_owner_type c \<noteq> BUFFER_OWNER_TYPE)) validation_refused)) (\<lambda>_.
     lift (require (case ttl_of c of None \<Rightarrow> True | Some n \<Rightarrow> 1 \<le> n \<and> n \<le> MAX_RESERVATION_TTL_SECONDS) validation_refused)))))))"

text \<open>The journal write: the ceiling re-read under the row locks, the counter re-read, the insert.\<close>

definition journal_hold :: "uuid \<Rightarrow> grant_command \<Rightarrow> reservation_row op" where
  "journal_hold newId c =
     bind (read (ceiling_now (gc_tenant c) (gc_wh c) (gc_sku c))) (\<lambda>lockedCeiling.
     bind (attempt (getCounter (reservationCounterKey (gc_tenant c) (gc_wh c) (gc_sku c)))
       (\<lambda>_. raise reservationStoreUnavailable)) (\<lambda>counter.
     case counter of
       None \<Rightarrow> raise reservationStoreUnavailable
     | Some n \<Rightarrow>
         if n > lockedCeiling then raise unavailable
         else bind (read wd_now) (\<lambda>now. insert_hold (hold_row newId c now))))"

definition grant :: "uuid \<Rightarrow> grant_command \<Rightarrow> reservation_row op" where
  "grant newId c =
     bind (check_command c) (\<lambda>_.
     bind (in_tx (read (\<lambda>w. (findOpenHold (command_scope c) w, ceiling_now (gc_tenant c) (gc_wh c) (gc_sku c) w)))) (\<lambda>(existing, ceiling).
     case existing of
       Some r \<Rightarrow> idempotentHit r c
     | None \<Rightarrow>
         bind (runGrantScript (gc_tenant c) (gc_wh c) (gc_sku c) (gc_qty c) ceiling) (\<lambda>outcome.
         if outcome = StoreDown then raise reservationStoreUnavailable
         else if outcome \<noteq> Granted then raise unavailable
         else attempt (in_tx (journal_hold newId c)) (\<lambda>err.
           bind (compensate (reservationCounterKey (gc_tenant c) (gc_wh c) (gc_sku c)) (gc_qty c)) (\<lambda>_.
           if err = open_owner_scope_unique then
             bind (in_tx (read (findOpenHold (command_scope c)))) (\<lambda>settled.
             case settled of Some r \<Rightarrow> idempotentHit r c | None \<Rightarrow> raise conflict)
           else raise err)))))"

section \<open>Terminal transitions\<close>

definition row_by_id :: "uuid \<Rightarrow> uuid \<Rightarrow> world \<Rightarrow> reservation_row option" where
  "row_by_id t i w = find (\<lambda>r. rv_id r = i \<and> rv_tenant r = t) (journal w)"

definition terminalConflict :: "uuid \<Rightarrow> uuid \<Rightarrow> 'a op" where
  "terminalConflict t i =
     (if \<not> uuid_shape i then raise reservation_not_found
      else bind (in_tx (read (row_by_id t i))) (\<lambda>row. raise (if row = None then reservation_not_found else conflict)))"

definition commit :: "uuid \<Rightarrow> uuid \<Rightarrow> reservation_row op" where
  "commit t i =
     (if \<not> uuid_shape i then raise reservation_not_found
      else bind (in_tx (set_state t i [Held] Committed)) (\<lambda>row.
        case row of Some r \<Rightarrow> ret r | None \<Rightarrow> terminalConflict t i))"

definition commitInTx :: "uuid \<Rightarrow> uuid \<Rightarrow> reservation_row op" where
  "commitInTx t i =
     (if \<not> uuid_shape i then raise reservation_not_found
      else bind (set_state t i [Held] Committed) (\<lambda>row.
        case row of Some r \<Rightarrow> ret r
        | None \<Rightarrow> bind (read (row_by_id t i)) (\<lambda>current. raise (if current = None then reservation_not_found else conflict))))"

definition release :: "uuid \<Rightarrow> uuid \<Rightarrow> reservation_row op" where
  "release t i =
     (if \<not> uuid_shape i then raise reservation_not_found
      else bind (in_tx (set_state t i [Held] Released)) (\<lambda>row.
        case row of Some r \<Rightarrow> bind (restoreCounter r) (\<lambda>_. ret r) | None \<Rightarrow> terminalConflict t i))"

definition releaseFromStateInTx :: "uuid \<Rightarrow> uuid \<Rightarrow> reservation_state \<Rightarrow> reservation_row op" where
  "releaseFromStateInTx t i from =
     (if \<not> uuid_shape i then raise reservation_not_found
      else bind (set_state t i [from] Released) (\<lambda>row.
        case row of Some r \<Rightarrow> ret r
        | None \<Rightarrow> bind (read (row_by_id t i)) (\<lambda>current. raise (if current = None then reservation_not_found else conflict))))"

definition releaseInTx :: "uuid \<Rightarrow> uuid \<Rightarrow> reservation_row op" where
  "releaseInTx t i = releaseFromStateInTx t i Held"

definition retireCommittedInTx :: "uuid \<Rightarrow> uuid \<Rightarrow> reservation_row op" where
  "retireCommittedInTx t i = releaseFromStateInTx t i Committed"

definition due :: "millis \<Rightarrow> reservation_row \<Rightarrow> bool" where
  "due now r = (live r \<and> (case rv_expires r of None \<Rightarrow> False | Some e \<Rightarrow> e \<le> now))"

definition due_holds :: "world \<Rightarrow> reservation_row list" where
  "due_holds w = take REAP_BATCH (sort_key (the \<circ> rv_expires) (filter (due (wd_now w)) (journal w)))"

definition expire_one :: "reservation_row \<Rightarrow> nat op" where
  "expire_one hold =
     attempt (bind (in_tx (set_state (rv_tenant hold) (rv_id hold) [Held, Committed] Expired)) (\<lambda>row.
       case row of None \<Rightarrow> ret 0 | Some r \<Rightarrow> bind (restoreCounter r) (\<lambda>_. ret 1))) (\<lambda>_. ret 0)"

fun expire_all :: "reservation_row list \<Rightarrow> nat op" where
  "expire_all [] = ret 0"
| "expire_all (h # hs) = bind (expire_one h) (\<lambda>n. bind (expire_all hs) (\<lambda>m. ret (n + m)))"

section \<open>The parity pass\<close>

definition live_scopes :: "world \<Rightarrow> (uuid \<times> uuid \<times> uuid) list" where
  "live_scopes w = remdups (map (\<lambda>r. (rv_tenant r, rv_wh r, rv_sku r)) (filter live (journal w)))"

fun parity_divergent :: "uuid \<Rightarrow> uuid \<Rightarrow> (uuid \<times> int) list \<Rightarrow> bool op" where
  "parity_divergent t wh [] = ret False"
| "parity_divergent t wh ((s, reserved) # rest) =
     bind (getCounter (reservationCounterKey t wh s)) (\<lambda>counter.
       if (case counter of None \<Rightarrow> 0 < reserved | Some n \<Rightarrow> n \<noteq> reserved) then ret True
       else parity_divergent t wh rest)"

definition parity_warehouse :: "(uuid \<times> uuid) \<times> (uuid \<times> int) list \<Rightarrow> unit op" where
  "parity_warehouse = (\<lambda>((t, wh), skuSums).
     attempt (bind (parity_divergent t wh skuSums) (\<lambda>divergent.
       if divergent then rebuildCounters t (Some wh) else ret ())) (\<lambda>_. ret ()))"

text \<open>The nested maps by tenant and warehouse, in insertion order.\<close>

definition parity_groups :: "world \<Rightarrow> ((uuid \<times> uuid) \<times> (uuid \<times> int) list) list" where
  "parity_groups w =
     concat (map (\<lambda>t. map (\<lambda>wh. ((t, wh), map (\<lambda>(_, _, s). (s, reserved_sum t wh s (journal w)))
           (filter (\<lambda>(t', wh', _). t' = t \<and> wh' = wh) (live_scopes w))))
         (remdups (map (\<lambda>(_, wh, _). wh) (filter (\<lambda>(t', _). t' = t) (live_scopes w)))))
       (remdups (map fst (live_scopes w))))"

definition parityPass :: "unit op" where
  "parityPass =
     bind (attempt (bind (in_tx (read parity_groups)) (\<lambda>gs. ret (Some gs))) (\<lambda>_. ret None)) (\<lambda>groups.
     case groups of None \<Rightarrow> ret () | Some gs \<Rightarrow> for_each parity_warehouse gs)"

definition expireDue :: "nat op" where
  "expireDue =
     bind (in_tx (read due_holds)) (\<lambda>holds.
     bind (expire_all holds) (\<lambda>expired.
     bind parityPass (\<lambda>_. ret expired)))"

end
