(* ===== verification/ReservationBuffer.thy ===== *)
theory ReservationBuffer
  imports Reservation
begin

text \<open>
  The rest of the reservation service: the release-then-re-grant pair of a caller's transaction, the
  standing channel buffers, and the reads (available to promise, the quantity a channel may list, the
  owner and id reads). The probe of a standing buffer is an argument of its two arms, as in the code,
  so a stale probe is an ordinary argument.
\<close>

section \<open>The re-grant inside a transaction\<close>

definition regrant_misuse :: failure where
  "regrant_misuse = Thrown ''regrant-precondition''"

definition grantInTx :: "uuid \<Rightarrow> grant_command \<Rightarrow> reservation_row \<Rightarrow> reservation_row option op" where
  "grantInTx newId c releasedFrom =
     (if gc_qty c \<le> 0 then ret None
      else if owner_scope_of releasedFrom \<noteq> command_scope c \<or> rv_state releasedFrom \<noteq> Released \<or> gc_qty c > rv_qty releasedFrom
      then raise regrant_misuse
      else bind (read (findOpenHold (command_scope c))) (\<lambda>existing.
        if existing \<noteq> None then ret None
        else bind (read (ceiling_now (gc_tenant c) (gc_wh c) (gc_sku c))) (\<lambda>ceiling.
          bind (read (journalReservedSum (gc_tenant c) (gc_wh c) (gc_sku c))) (\<lambda>reserved.
          if reserved + gc_qty c > ceiling then ret None
          else bind (read wd_now) (\<lambda>now. bind (insert_hold (hold_row newId c now)) (\<lambda>row. ret (Some row)))))))"

definition regrantSmallerInTx :: "uuid \<Rightarrow> grant_command \<Rightarrow> reservation_row \<Rightarrow> reservation_row option op" where
  "regrantSmallerInTx newId c releasedFrom =
     (if gc_owner_type c \<noteq> BUFFER_OWNER_TYPE \<or> owner_scope_of releasedFrom \<noteq> command_scope c \<or> rv_state releasedFrom \<noteq> Released \<or>
         gc_qty c > rv_qty releasedFrom
      then raise regrant_misuse
      else bind (read (findOpenHold (command_scope c))) (\<lambda>existing.
        if existing \<noteq> None then ret None
        else bind (read wd_now) (\<lambda>now.
          bind (insert_hold ((hold_row newId c now)\<lparr>rv_expires := None\<rparr>)) (\<lambda>row. ret (Some row)))))"

definition restoreReservedUnits :: "uuid \<Rightarrow> uuid \<Rightarrow> uuid \<Rightarrow> int \<Rightarrow> unit op" where
  "restoreReservedUnits t wh s units =
     (if units \<le> 0 then ret ()
      else attempt (bind (releaseReservation (reservationCounterKey t wh s) units) (\<lambda>_. ret ())) (\<lambda>_. ret ()))"

section \<open>Standing buffers\<close>

definition MAX_QUANTITY_MILLI :: int where
  "MAX_QUANTITY_MILLI = (MAX_SAFE_INTEGER div 1000) * 1000"

record buffer_command =
  bc_tenant :: uuid
  bc_wh :: uuid
  bc_sku :: uuid
  bc_owner :: string
  bc_target :: int

record buffer_probe =
  bp_existing :: "reservation_row option"
  bp_reserved :: int
  bp_ceiling :: int

definition buffer_grant :: "buffer_command \<Rightarrow> grant_command" where
  "buffer_grant c = \<lparr>gc_tenant = bc_tenant c, gc_wh = bc_wh c, gc_sku = bc_sku c, gc_owner_type = BUFFER_OWNER_TYPE,
     gc_owner = bc_owner c, gc_qty = bc_target c, gc_ttl = None\<rparr>"

definition previous_milli :: "buffer_probe \<Rightarrow> int" where
  "previous_milli p = (case bp_existing p of None \<Rightarrow> 0 | Some r \<Rightarrow> rv_qty r)"

definition grow_row :: "buffer_command \<Rightarrow> reservation_row \<Rightarrow> reservation_row option op" where
  "grow_row c existing w =
     (let P = (\<lambda>r. rv_id r = rv_id existing \<and> rv_tenant r = bc_tenant c \<and> rv_owner_type r = BUFFER_OWNER_TYPE \<and>
         rv_owner r = bc_owner c \<and> rv_state r = Held)
      in (Inr (map_option (rv_qty_update (\<lambda>_. bc_target c)) (find P (journal w))),
          set_journal (update_where P (rv_qty_update (\<lambda>_. bc_target c)) (journal w)) w))"

definition raise_buffer :: "uuid \<Rightarrow> buffer_command \<Rightarrow> buffer_probe \<Rightarrow> reservation_row op" where
  "raise_buffer newId c p =
     bind (read (ceiling_now (bc_tenant c) (bc_wh c) (bc_sku c))) (\<lambda>lockedCeiling.
     bind (read (journalReservedSum (bc_tenant c) (bc_wh c) (bc_sku c))) (\<lambda>lockedReserved.
     if lockedReserved + (bc_target c - previous_milli p) > lockedCeiling then raise unavailable
     else case bp_existing p of
        Some existing \<Rightarrow>
          bind (grow_row c existing) (\<lambda>row.
          case row of Some r \<Rightarrow> ret r | None \<Rightarrow> raise conflict)
      | None \<Rightarrow> insert_hold (hold_row newId (buffer_grant c) 0)))"

definition increaseStandingBuffer :: "uuid \<Rightarrow> buffer_command \<Rightarrow> buffer_probe \<Rightarrow> reservation_row option op" where
  "increaseStandingBuffer newId c p =
     (let delta = bc_target c - previous_milli p in
      bind (runGrantScript (bc_tenant c) (bc_wh c) (bc_sku c) delta (bp_ceiling p)) (\<lambda>outcome.
      if outcome = StoreDown then raise reservationStoreUnavailable
      else if outcome \<noteq> Granted then raise unavailable
      else attempt (bind (in_tx (raise_buffer newId c p)) (\<lambda>r. ret (Some r))) (\<lambda>err.
        bind (compensate (reservationCounterKey (bc_tenant c) (bc_wh c) (bc_sku c)) delta) (\<lambda>_.
        raise (if err = open_owner_scope_unique then conflict else err)))))"

definition buffer_refusal :: failure where
  "buffer_refusal = Thrown ''StandingBufferRefusal''"

definition lower_buffer :: "uuid \<Rightarrow> buffer_command \<Rightarrow> reservation_row \<Rightarrow> reservation_row option op" where
  "lower_buffer newId c existing =
     bind (releaseFromStateInTx (bc_tenant c) (rv_id existing) Held) (\<lambda>released.
     if bc_target c = 0 then ret None
     else bind (regrantSmallerInTx newId (buffer_grant c) released) (\<lambda>regranted.
       case regranted of None \<Rightarrow> raise buffer_refusal | Some r \<Rightarrow> ret (Some r)))"

definition decreaseStandingBuffer :: "uuid \<Rightarrow> buffer_command \<Rightarrow> buffer_probe \<Rightarrow> reservation_row option op" where
  "decreaseStandingBuffer newId c p =
     (case bp_existing p of
        None \<Rightarrow> raise unavailable
      | Some existing \<Rightarrow>
          attempt (bind (in_tx (lower_buffer newId c existing)) (\<lambda>granted.
              bind (restoreReservedUnits (bc_tenant c) (bc_wh c) (bc_sku c) (previous_milli p - bc_target c)) (\<lambda>_. ret granted)))
            (\<lambda>err. raise (if err = buffer_refusal then unavailable else err)))"

definition probe_buffer :: "buffer_command \<Rightarrow> world \<Rightarrow> buffer_probe" where
  "probe_buffer c w = \<lparr>bp_existing = findOpenHold (command_scope (buffer_grant c)) w,
     bp_reserved = journalReservedSum (bc_tenant c) (bc_wh c) (bc_sku c) w,
     bp_ceiling = ceiling_now (bc_tenant c) (bc_wh c) (bc_sku c) w\<rparr>"

definition applyStandingBuffer :: "uuid \<Rightarrow> buffer_command \<Rightarrow> (int \<times> reservation_row option) op" where
  "applyStandingBuffer newId c =
     bind (requireUuid (bc_tenant c)) (\<lambda>_. bind (requireUuid (bc_wh c)) (\<lambda>_. bind (requireUuid (bc_sku c)) (\<lambda>_.
     bind (lift (require (bc_owner c \<noteq> '''') validation_refused)) (\<lambda>_.
     bind (lift (require (0 \<le> bc_target c \<and> bc_target c \<le> MAX_QUANTITY_MILLI) validation_refused)) (\<lambda>_.
     bind (in_tx (read (probe_buffer c))) (\<lambda>p.
     if bc_target c = previous_milli p then ret (previous_milli p, bp_existing p)
     else bind (if bc_target c > previous_milli p then increaseStandingBuffer newId c p else decreaseStandingBuffer newId c p)
       (\<lambda>row. ret (previous_milli p, row))))))))"

section \<open>Reads\<close>

record atp_snapshot =
  at_on_hand :: int
  at_reserved :: int
  at_qc :: int
  at_transit :: int
  at_returns :: int
  at_damaged :: int
  at_batch :: int
  at_blocked :: int
  at_buffer :: int
  at_atp :: int

definition atp_snapshot_of :: "inventory_db \<Rightarrow> uuid \<Rightarrow> uuid \<Rightarrow> uuid \<Rightarrow> millis \<Rightarrow> int \<Rightarrow> atp_snapshot" where
  "atp_snapshot_of iv t wh s at reserved =
     (let onHand = committedOnHand iv t wh s; qc = qcHeldUnits iv t wh s; transit = inTransitUnits iv t wh s;
          returns = returnsAwaitingUnits iv t wh s; damaged = damagedUnits iv t wh s;
          (batch, blocked) = unpromisableUnits iv t wh s at
      in \<lparr>at_on_hand = onHand, at_reserved = reserved, at_qc = qc, at_transit = transit, at_returns = returns,
          at_damaged = damaged, at_batch = batch, at_blocked = blocked, at_buffer = bufferUnits iv t wh s None,
          at_atp = max 0 (onHand - reserved - qc - transit - returns - damaged - batch - blocked)\<rparr>)"

text \<open>The inputs are read first, and again after a repair of a warehouse that was not ready.\<close>

definition atp :: "uuid \<Rightarrow> uuid \<Rightarrow> uuid \<Rightarrow> atp_snapshot op" where
  "atp t wh s =
     bind (requireUuid t) (\<lambda>_. bind (requireUuid wh) (\<lambda>_. bind (requireUuid s) (\<lambda>_.
     bind (in_tx (read (\<lambda>w. (wd_iv w, wd_now w)))) (\<lambda>inputs.
     bind (attempt (isReady (reservationReadyKey t wh)) (\<lambda>_. raise reservationStoreUnavailable)) (\<lambda>ready.
     bind (if ready then ret inputs
           else bind (ensureReady t wh) (\<lambda>armed. if \<not> armed then raise reservationStoreUnavailable
             else in_tx (read (\<lambda>w. (wd_iv w, wd_now w))))) (\<lambda>(iv, at).
     bind (attempt
        (bind (getCounter (reservationCounterKey t wh s)) (\<lambda>current. case current of
           Some n \<Rightarrow> ret n
         | None \<Rightarrow> bind (in_tx (read (journalReservedSum t wh s))) (\<lambda>total.
             bind (setCounter (reservationCounterKey t wh s) total False) (\<lambda>_.
             bind (getCounter (reservationCounterKey t wh s)) (\<lambda>again. ret (case again of None \<Rightarrow> total | Some n \<Rightarrow> n))))))
        (\<lambda>_. raise reservationStoreUnavailable)) (\<lambda>reserved.
     ret (atp_snapshot_of iv t wh s at reserved))))))))"

record channel_snapshot =
  cv_pool :: atp_snapshot
  cv_buffer :: int
  cv_visible :: int

definition channelVisibleQuantity :: "uuid \<Rightarrow> uuid \<Rightarrow> uuid \<Rightarrow> string \<Rightarrow> channel_snapshot op" where
  "channelVisibleQuantity t wh s bufferOwner =
     bind (requireUuid t) (\<lambda>_. bind (requireUuid wh) (\<lambda>_. bind (requireUuid s) (\<lambda>_.
     bind (atp t wh s) (\<lambda>pool.
     bind (in_tx (read (\<lambda>w. bufferUnits (wd_iv w) t wh s (Some bufferOwner)))) (\<lambda>own.
     ret \<lparr>cv_pool = pool, cv_buffer = own, cv_visible = max 0 (at_atp pool - own)\<rparr>)))))"

text \<open>The comparison with a null deadline is null.\<close>

definition holdLivenessInTx :: "uuid \<Rightarrow> uuid \<Rightarrow> world \<Rightarrow> (reservation_state \<times> millis option \<times> bool option) option" where
  "holdLivenessInTx t i w = map_option (\<lambda>r. (rv_state r, rv_expires r, map_option (\<lambda>e. e \<le> wd_now w) (rv_expires r))) (row_by_id t i w)"

definition standingBuffersByOwnerInTx :: "uuid \<Rightarrow> string \<Rightarrow> world \<Rightarrow> reservation_row list" where
  "standingBuffersByOwnerInTx t owner w = sort_key rv_id (filter (\<lambda>r. rv_tenant r = t \<and>
     rv_owner_type r = BUFFER_OWNER_TYPE \<and> rv_owner r = owner \<and> rv_state r = Held) (journal w))"

definition standingBuffersForTenantInTx :: "uuid \<Rightarrow> world \<Rightarrow> reservation_row list" where
  "standingBuffersForTenantInTx t w = sort_key rv_id (filter (\<lambda>r. rv_tenant r = t \<and>
     rv_owner_type r = BUFFER_OWNER_TYPE \<and> rv_state r = Held) (journal w))"

definition ownedReservationsInTx :: "uuid \<Rightarrow> uuid \<Rightarrow> string \<Rightarrow> string list \<Rightarrow> reservation_state \<Rightarrow> world \<Rightarrow> reservation_row list" where
  "ownedReservationsInTx t wh ownerType owners st w =
     (if owners = [] then [] else sort_key rv_id (filter (\<lambda>r. rv_tenant r = t \<and> rv_wh r = wh \<and>
        rv_owner_type r = ownerType \<and> rv_owner r \<in> set owners \<and> rv_state r = st) (journal w)))"

definition reservationsByIdsInTx :: "uuid \<Rightarrow> uuid list \<Rightarrow> world \<Rightarrow> reservation_row list" where
  "reservationsByIdsInTx t ids w =
     (if ids = [] then [] else sort_key rv_id (filter (\<lambda>r. rv_tenant r = t \<and> rv_id r \<in> set ids) (journal w)))"

end
