(* ===== verification/ReservationJournal.thy ===== *)
theory ReservationJournal
  imports ReservationBuffer
begin

text \<open>
  The journal of reservations as data: what the schema and the service keep of it (\<open>journal_ok\<close>), how
  its rows may change (\<open>evolves\<close>), and what an update by primary key, an insert and the reserved sum do
  to one another.
\<close>

section \<open>The journal\<close>

definition held :: "reservation_row list \<Rightarrow> reservation_row list" where
  "held rows = filter (\<lambda>r. rv_state r = Held) rows"

definition row_ok :: "reservation_row \<Rightarrow> bool" where
  "row_ok r = (0 < rv_qty r \<and> uuid_shape (rv_tenant r) \<and> uuid_shape (rv_wh r) \<and> uuid_shape (rv_sku r) \<and>
     (rv_expires r = None \<longrightarrow> rv_owner_type r = BUFFER_OWNER_TYPE))"

definition journal_ok :: "reservation_row list \<Rightarrow> bool" where
  "journal_ok rows = (distinct (map rv_id rows) \<and> distinct (map owner_scope_of (held rows)) \<and> (\<forall>r \<in> set rows. row_ok r))"

text \<open>
  How a row may change: its identity, owner scope and deadline never; its state only from held, or from
  committed to released or expired; its quantity only while it is a held standing buffer.
\<close>

definition state_step :: "reservation_state \<Rightarrow> reservation_state \<Rightarrow> bool" where
  "state_step a b = (a = b \<or> a = Held \<or> a = Committed \<and> (b = Released \<or> b = Expired))"

definition row_step :: "reservation_row \<Rightarrow> reservation_row \<Rightarrow> bool" where
  "row_step r r' = (rv_id r' = rv_id r \<and> owner_scope_of r' = owner_scope_of r \<and> rv_expires r' = rv_expires r \<and>
     state_step (rv_state r) (rv_state r') \<and>
     (rv_qty r' \<noteq> rv_qty r \<longrightarrow> rv_state r = Held \<and> rv_owner_type r = BUFFER_OWNER_TYPE))"

definition evolves :: "reservation_row list \<Rightarrow> reservation_row list \<Rightarrow> bool" where
  "evolves rows rows' = (\<exists>old new. rows' = old @ new \<and> list_all2 row_step rows old)"

lemma row_step_refl: "row_step r r"
  by (simp add: row_step_def state_step_def)

lemma row_step_trans: "row_step a b \<Longrightarrow> row_step b c \<Longrightarrow> row_step a c"
  by (auto simp: row_step_def state_step_def owner_scope_of_def)

lemma evolves_refl: "evolves rows rows"
  unfolding evolves_def
  by (intro exI [of _ rows] exI [of _ "[]"]) (simp add: list.rel_refl row_step_refl)

lemma evolves_append: "evolves rows (rows @ new)"
  unfolding evolves_def
  by (intro exI [of _ rows] exI [of _ new]) (simp add: list.rel_refl row_step_refl)

lemma evolves_trans:
  assumes "evolves a b" and "evolves b c"
  shows "evolves a c"
proof -
  obtain o1 n1 where b: "b = o1 @ n1" "list_all2 row_step a o1" using assms(1) by (auto simp: evolves_def)
  obtain o2 n2 where c: "c = o2 @ n2" "list_all2 row_step b o2" using assms(2) by (auto simp: evolves_def)
  then obtain p q where o2: "o2 = p @ q" "list_all2 row_step o1 p" "length p = length o1"
    using b(1) by (auto simp: list_all2_append1)
  have "list_all2 row_step a p" by (rule list_all2_trans [OF row_step_trans b(2) o2(2)])
  then show ?thesis using c(1) o2(1) by (auto simp: evolves_def)
qed

lemma evolves_update:
  assumes "\<And>r. r \<in> set rows \<Longrightarrow> P r \<Longrightarrow> row_step r (g r)"
  shows "evolves rows (update_where P g rows)"
  unfolding evolves_def update_where_def
  by (intro exI [of _ "map (\<lambda>r. if P r then g r else r) rows"] exI [of _ "[]"])
    (use assms in \<open>simp add: list_all2_map2 list_all2_same row_step_refl\<close>)

lemma reserved_sum_nonneg: "journal_ok rows \<Longrightarrow> 0 \<le> reserved_sum t wh s rows"
  unfolding reserved_sum_def by (rule sum_where_nonneg) (auto simp: journal_ok_def row_ok_def)

text \<open>An update by primary key changes one row.\<close>

lemma update_one:
  assumes "distinct (map rv_id rows)" and "find (\<lambda>r. rv_id r = i \<and> P r) rows = Some r"
  shows "\<exists>xs ys. rows = xs @ r # ys \<and> rv_id r = i \<and> P r \<and>
    update_where (\<lambda>r. rv_id r = i \<and> P r) g rows = xs @ g r # ys"
proof -
  have r: "r \<in> set rows" "rv_id r = i" "P r" using assms(2) by (auto simp: find_Some_iff)
  then obtain xs ys where rows: "rows = xs @ r # ys" by (auto simp: in_set_conv_decomp)
  have "rv_id x \<noteq> i" if "x \<in> set xs \<union> set ys" for x
    using assms(1) r(2) that unfolding rows by (auto simp: image_iff)
  then have "update_where (\<lambda>r. rv_id r = i \<and> P r) g xs = xs" "update_where (\<lambda>r. rv_id r = i \<and> P r) g ys = ys"
    by (auto simp: update_where_def intro!: map_idI)
  with rows r show ?thesis
    by (intro exI [of _ xs] exI [of _ ys]) (simp add: update_where_def)
qed

lemma update_none:
  assumes "find (\<lambda>r. rv_id r = i \<and> P r) rows = None"
  shows "update_where (\<lambda>r. rv_id r = i \<and> P r) g rows = rows"
  using assms by (auto simp: find_None_iff update_where_def intro!: map_idI)

lemma held_split: "held (xs @ r # ys) = held xs @ (if rv_state r = Held then [r] else []) @ held ys"
  by (simp add: held_def)

lemma journal_ok_replace:
  assumes "journal_ok (xs @ r # ys)" and "rv_id r' = rv_id r" and "owner_scope_of r' = owner_scope_of r"
    and "rv_state r' = Held \<Longrightarrow> rv_state r = Held" and "row_ok r'"
  shows "journal_ok (xs @ r' # ys)"
  using assms by (auto simp: journal_ok_def held_split split: if_splits)

lemma journal_ok_insert:
  assumes "journal_ok rows" and "\<not> list_ex (\<lambda>r. rv_state r = Held \<and> owner_scope_of r = owner_scope_of row) rows"
    and "rv_id row \<notin> rv_id ` set rows" and "row_ok row"
  shows "journal_ok (rows @ [row])"
  using assms by (auto simp: journal_ok_def held_def list_ex_iff image_iff)

lemma reserved_sum_replace:
  "reserved_sum t wh s (xs @ r # ys) = reserved_sum t wh s (xs @ ys) +
     (if rv_tenant r = t \<and> rv_wh r = wh \<and> rv_sku r = s \<and> live r then rv_qty r else 0)"
  by (simp add: reserved_sum_def)

lemma reserved_sum_snoc:
  "reserved_sum t wh s (rows @ [r]) = reserved_sum t wh s rows +
     (if rv_tenant r = t \<and> rv_wh r = wh \<and> rv_sku r = s \<and> live r then rv_qty r else 0)"
  by (simp add: reserved_sum_def)

end
