(* ===== verification/ReservationMirror.thy ===== *)
theory ReservationMirror
  imports ReservationJournal
begin

text \<open>
  The mirror of the journal in the store: the counters never understate what the journal holds. Each
  script and each client call keeps that, with the units an operation is about to journal or to give
  back carried as an extra term.
\<close>

section \<open>The mirror\<close>

text \<open>
  A counter that is a number is at least the journal's live total of its scope, plus \<open>extra\<close>: what an
  operation in progress has taken from the counter and not yet journalled, or released from the journal
  and not yet given back.
\<close>

type_synonym stock_scope = "uuid \<times> uuid \<times> uuid"

definition mirror :: "(stock_scope \<Rightarrow> int) \<Rightarrow> reservation_row list \<Rightarrow> store \<Rightarrow> bool" where
  "mirror extra rows st = (\<forall>t wh s n. uuid_shape t \<and> uuid_shape wh \<and> uuid_shape s \<longrightarrow>
     st (reservationCounterKey t wh s) = Some (Num n) \<longrightarrow> reserved_sum t wh s rows + extra (t, wh, s) \<le> n)"

definition none :: "stock_scope \<Rightarrow> int" where
  "none = (\<lambda>_. 0)"

definition only :: "stock_scope \<Rightarrow> int \<Rightarrow> stock_scope \<Rightarrow> int" where
  "only sc q = (\<lambda>x. if x = sc then q else 0)"

definition well_formed :: "stock_scope \<Rightarrow> bool" where
  "well_formed = (\<lambda>(t, wh, s). uuid_shape t \<and> uuid_shape wh \<and> uuid_shape s)"

definition key_of :: "stock_scope \<Rightarrow> string" where
  "key_of = (\<lambda>(t, wh, s). reservationCounterKey t wh s)"

definition sum_of :: "stock_scope \<Rightarrow> reservation_row list \<Rightarrow> int" where
  "sum_of = (\<lambda>(t, wh, s). reserved_sum t wh s)"

lemma scope_simps [simp]:
  "key_of (t, wh, s) = reservationCounterKey t wh s"
  "sum_of (t, wh, s) rows = reserved_sum t wh s rows"
  "well_formed (t, wh, s) = (uuid_shape t \<and> uuid_shape wh \<and> uuid_shape s)"
  "none x = 0"
  "only x q x = q"
  "x \<noteq> y \<Longrightarrow> only x q y = 0"
  by (simp_all add: key_of_def sum_of_def well_formed_def none_def only_def)

lemma mirror_iff:
  "mirror extra rows st = (\<forall>sc n. well_formed sc \<longrightarrow> st (key_of sc) = Some (Num n) \<longrightarrow> sum_of sc rows + extra sc \<le> n)"
  by (auto simp: mirror_def)

lemma mirrorD: "mirror e rows st \<Longrightarrow> well_formed sc \<Longrightarrow> st (key_of sc) = Some (Num n) \<Longrightarrow> sum_of sc rows + e sc \<le> n"
  unfolding mirror_iff by blast

lemma key_of_inject: "well_formed a \<Longrightarrow> well_formed b \<Longrightarrow> (key_of a = key_of b) = (a = b)"
  by (cases a; cases b) (auto simp: counter_key_inject)

lemma key_of_not_ready: "well_formed a \<Longrightarrow> uuid_shape t \<Longrightarrow> uuid_shape wh \<Longrightarrow> key_of a \<noteq> reservationReadyKey t wh"
  by (cases a) (simp add: counter_key_not_ready)

lemma mirror_mono: "mirror e rows st \<Longrightarrow> (\<And>sc. e' sc \<le> e sc) \<Longrightarrow> mirror e' rows st"
  unfolding mirror_iff by (meson add_left_mono order_trans)

lemma mirror_none: "mirror (only sc q) rows st \<Longrightarrow> 0 \<le> q \<Longrightarrow> mirror none rows st"
  by (rule mirror_mono [of "only sc q"]) (auto simp: only_def)

lemma mirror_set:
  assumes "mirror e rows st" and "well_formed sc" and "sum_of sc rows + e' sc \<le> n" and "\<And>x. x \<noteq> sc \<Longrightarrow> e' x \<le> e x"
  shows "mirror e' rows (st(key_of sc \<mapsto> Num n))"
  unfolding mirror_iff
proof (intro allI impI)
  fix x m
  assume x: "well_formed x" "(st(key_of sc \<mapsto> Num n)) (key_of x) = Some (Num m)"
  show "sum_of x rows + e' x \<le> m"
  proof (cases "x = sc")
    case True
    with x assms(3) show ?thesis by simp
  next
    case False
    then have "key_of x \<noteq> key_of sc" using key_of_inject [OF x(1) assms(2)] by simp
    then have "sum_of x rows + e x \<le> m" using x mirrorD [OF assms(1) x(1)] by simp
    with assms(4) [OF False] show ?thesis by linarith
  qed
qed

lemma mirror_ready:
  assumes "mirror e rows st" and "uuid_shape t" and "uuid_shape wh"
  shows "mirror e rows (st(reservationReadyKey t wh := v))"
  using assms key_of_not_ready by (auto simp: mirror_iff)

lemma mirror_setCounter:
  assumes "mirror e rows st" and "well_formed sc" and "sum_of sc rows + e sc \<le> n"
  shows "mirror e rows (setCounter_to (key_of sc) n overwrite st)"
  using assms mirror_set [OF assms(1,2), of e n] by (auto simp: setCounter_to_def)

lemma mirror_grant_script:
  assumes "mirror none rows st" and "well_formed sc"
    and "RESERVATION_GRANT_SCRIPT (key_of sc) ready q c st = (r, st')"
  shows "case r of Win n \<Rightarrow> mirror (only sc q) rows st' \<and> 0 < q \<and> n \<le> c \<and> st' (key_of sc) = Some (Num n) | Loss _ \<Rightarrow> st' = st"
proof (cases r)
  case (Win n)
  then obtain m where m: "st (key_of sc) = Some (Num m)" "0 < q" "m + q \<le> c" "n = m + q" "st' = st(key_of sc \<mapsto> Num (m + q))"
    using assms(3) by (auto simp: RESERVATION_GRANT_SCRIPT_def split: if_splits option.splits stored.splits)
  have "sum_of sc rows \<le> m" using mirrorD [OF assms(1,2) m(1)] by simp
  then have "mirror (only sc q) rows (st(key_of sc \<mapsto> Num (m + q)))"
    by (intro mirror_set [OF assms(1,2)]) simp_all
  with Win m show ?thesis by simp
next
  case (Loss reason)
  with assms(3) show ?thesis
    by (auto simp: RESERVATION_GRANT_SCRIPT_def split: if_splits option.splits stored.splits)
qed

lemma mirror_release_script:
  assumes "mirror (only sc q) rows st" and "well_formed sc" and "0 \<le> q" and "0 \<le> sum_of sc rows"
  shows "mirror none rows (snd (RESERVATION_RELEASE_SCRIPT (key_of sc) q st))"
proof (cases "st (key_of sc)")
  case None
  then show ?thesis using mirror_none [OF assms(1,3)] by (simp add: RESERVATION_RELEASE_SCRIPT_def)
next
  case (Some v)
  show ?thesis
  proof (cases v)
    case Corrupt
    then show ?thesis using Some mirror_none [OF assms(1,3)] by (simp add: RESERVATION_RELEASE_SCRIPT_def)
  next
    case (Num n)
    have "sum_of sc rows + q \<le> n" using mirrorD [OF assms(1,2)] Some Num by simp
    then have "mirror none rows (st(key_of sc \<mapsto> Num (if n - q < 0 then 0 else n - q)))"
      by (intro mirror_set [OF mirror_none [OF assms(1,3)] assms(2)]) (use assms(4) in auto)
    then show ?thesis using Some Num by (simp add: RESERVATION_RELEASE_SCRIPT_def Let_def)
  qed
qed

section \<open>The state between two steps\<close>

text \<open>The tables, the clock, transactions whose answers are not lost, and the mirror.\<close>

definition holds :: "(stock_scope \<Rightarrow> int) \<Rightarrow> inventory_db \<Rightarrow> millis \<Rightarrow> world \<Rightarrow> bool" where
  "holds extra iv now w = (wd_iv w = iv \<and> wd_now w = now \<and> ReplyLost \<notin> set (wd_txs w) \<and>
     mirror extra (iv_reservations iv) (wd_store w))"

abbreviation rows_of :: "inventory_db \<Rightarrow> reservation_row list" where
  "rows_of iv \<equiv> iv_reservations iv"

lemma holds_journal: "holds e iv now w \<Longrightarrow> journal w = rows_of iv"
  by (simp add: holds_def journal_def)

lemma holds_ceiling: "holds e iv now w \<Longrightarrow> ceiling_now t wh s w = committedCeiling iv t wh s now"
  by (simp add: holds_def ceiling_now_def)

lemma deliver_cases:
  "deliver fs f st = (Inl store_down, st) \<or> deliver fs f st = (Inl store_down, snd (f st)) \<or> deliver fs f st = f st"
proof (cases fs)
  case Nil
  then show ?thesis by simp
next
  case (Cons a as)
  then show ?thesis by (cases a) auto
qed

lemma valkey_call_spec:
  assumes "valkey_call f w = (r, w')"
  shows "(r = Inl store_down \<and> wd_store w' = wd_store w \<or> r = Inl store_down \<and> wd_store w' = snd (f (wd_store w)) \<or>
      r = fst (f (wd_store w)) \<and> wd_store w' = snd (f (wd_store w))) \<and>
    wd_iv w' = wd_iv w \<and> wd_now w' = wd_now w \<and> wd_txs w' = wd_txs w"
proof -
  obtain r' st where d: "deliver (wd_calls w) f (wd_store w) = (r', st)" by (cases "deliver (wd_calls w) f (wd_store w)")
  then have "r = r'" "w' = w\<lparr>wd_store := st, wd_calls := tl (wd_calls w)\<rparr>" using assms by (auto simp: valkey_call_def)
  then show ?thesis using deliver_cases [of "wd_calls w" f "wd_store w"] unfolding d by (cases "f (wd_store w)") auto
qed

lemma hoare_call:
  assumes "\<And>st r st'. mirror e (rows_of iv) st \<Longrightarrow> f st = (r, st') \<Longrightarrow> (case r of Inr v \<Rightarrow> mirror (g v) (rows_of iv) st' | Inl _ \<Rightarrow> True) \<and>
      mirror e' (rows_of iv) st'"
    and "\<And>st. mirror e (rows_of iv) st \<Longrightarrow> mirror e' (rows_of iv) st"
  shows "hoare (holds e iv now) (valkey_call f) (\<lambda>v. holds (g v) iv now) (\<lambda>_. holds e' iv now)"
proof (rule hoareI)
  fix w v w'
  assume w: "holds e iv now w" and run: "valkey_call f w = (Inr v, w')"
  note spec = valkey_call_spec [OF run]
  then have "f (wd_store w) = (Inr v, wd_store w')" by (cases "f (wd_store w)") auto
  with assms(1) [of "wd_store w"] w spec show "holds (g v) iv now w'" by (auto simp: holds_def)
next
  fix w v w'
  assume w: "holds e iv now w" and run: "valkey_call f w = (Inl v, w')"
  note spec = valkey_call_spec [OF run]
  then have "wd_store w' = wd_store w \<or> wd_store w' = snd (f (wd_store w))" by auto
  then have "mirror e' (rows_of iv) (wd_store w')"
    using w assms(1) [of "wd_store w" "fst (f (wd_store w))" "snd (f (wd_store w))"] assms(2) [of "wd_store w"]
    by (auto simp: holds_def)
  with w spec show "holds e' iv now w'" by (auto simp: holds_def)
qed

lemma keeps_call:
  assumes "\<And>st. mirror e (rows_of iv) st \<Longrightarrow> mirror e (rows_of iv) (snd (f st))"
  shows "keeps (holds e iv now) (valkey_call f)"
proof (rule hoare_call)
  fix st r st'
  assume "mirror e (rows_of iv) st" and "f st = (r, st')"
  with assms [of st] show "(case r of Inr v \<Rightarrow> mirror e (rows_of iv) st' | Inl _ \<Rightarrow> True) \<and> mirror e (rows_of iv) st'"
    by (simp split: sum.split)
qed

lemma keeps_getCounter [triples]: "keeps (holds e iv now) (getCounter key)"
  unfolding getCounter_def by (rule keeps_call) simp

lemma keeps_isReady [triples]: "keeps (holds e iv now) (isReady key)"
  unfolding isReady_def by (rule keeps_call) simp

lemma keeps_setReady [triples]: "uuid_shape t \<Longrightarrow> uuid_shape wh \<Longrightarrow> keeps (holds e iv now) (setReady (reservationReadyKey t wh))"
  unfolding setReady_def by (rule keeps_call) (simp add: mirror_ready)

lemma keeps_disarmReady [triples]: "uuid_shape t \<Longrightarrow> uuid_shape wh \<Longrightarrow> keeps (holds e iv now) (disarmReady (reservationReadyKey t wh))"
  unfolding disarmReady_def by (rule keeps_call) (simp add: mirror_ready)

lemma keeps_setCounter [triples]:
  assumes "well_formed (t, wh, s)" and "reserved_sum t wh s (rows_of iv) + e (t, wh, s) \<le> n"
  shows "keeps (holds e iv now) (setCounter (reservationCounterKey t wh s) n overwrite)"
  unfolding setCounter_def
  using assms mirror_setCounter [of e "rows_of iv" _ "(t, wh, s)" n overwrite]
  by (auto intro!: hoare_if keeps_basic keeps_call)

lemma hoare_grantReservation:
  assumes "well_formed (t, wh, s)"
  shows "hoare (holds none iv now) (grantReservation (reservationCounterKey t wh s) ready q c)
    (\<lambda>r. holds (case r of Win _ \<Rightarrow> only (t, wh, s) q | Loss _ \<Rightarrow> none) iv now) (\<lambda>_. holds none iv now)"
  unfolding grantReservation_def
proof (intro hoare_if hoare_raise hoare_call)
  fix st r st'
  assume st: "mirror none (rows_of iv) st"
    and run: "(case RESERVATION_GRANT_SCRIPT (reservationCounterKey t wh s) ready q c st of (r, st') \<Rightarrow> (Inr r, st')) = (r, st')"
  then obtain v where r: "r = Inr v" and run: "RESERVATION_GRANT_SCRIPT (key_of (t, wh, s)) ready q c st = (v, st')"
    by (auto split: prod.splits)
  note spec = mirror_grant_script [OF st assms run]
  show "(case r of Inr v \<Rightarrow> mirror (case v of Win _ \<Rightarrow> only (t, wh, s) q | Loss _ \<Rightarrow> none) (rows_of iv) st' | Inl _ \<Rightarrow> True) \<and>
      mirror none (rows_of iv) st'"
    using spec st r by (cases v) (auto intro: mirror_none)
qed

lemma hoare_releaseReservation:
  assumes "well_formed (t, wh, s)" and "0 \<le> q" and "journal_ok (rows_of iv)"
  shows "hoare (holds (only (t, wh, s) q) iv now) (releaseReservation (reservationCounterKey t wh s) q)
    (\<lambda>_. holds none iv now) (\<lambda>_. holds none iv now)"
  unfolding releaseReservation_def
proof (intro hoare_if hoare_raise)
  show "holds (only (t, wh, s) q) iv now w \<Longrightarrow> holds none iv now w" for w
    using mirror_none [OF _ assms(2)] by (auto simp: holds_def)
  have "mirror none (rows_of iv) st'" if "mirror (only (t, wh, s) q) (rows_of iv) st"
    "RESERVATION_RELEASE_SCRIPT (reservationCounterKey t wh s) q st = (r, st')" for st r st'
    using mirror_release_script [OF that(1) assms(1,2)] that(2) reserved_sum_nonneg [OF assms(3)] by simp
  then show "hoare (holds (only (t, wh, s) q) iv now) (valkey_call (RESERVATION_RELEASE_SCRIPT (reservationCounterKey t wh s) q))
      (\<lambda>_. holds none iv now) (\<lambda>_. holds none iv now)"
    using mirror_none [OF _ assms(2)] by (intro hoare_call) (auto split: sum.split)
qed

end
