(* ===== verification/ReservationSteps.thy ===== *)
theory ReservationSteps
  imports ReservationMirror
begin

text \<open>
  Triples of the building blocks: transactions, rebuilds, the grant script with its repairs, the
  compensating release and the journal write of a hold. All are over the state \<open>holds\<close>: the tables, the
  clock and the mirror, with no transaction whose answer will be lost.
\<close>

section \<open>Transactions\<close>

lemma hoare_in_tx:
  assumes "hoare (holds e iv now) body (\<lambda>v w. Q v w \<and> holds e iv now (w\<lparr>wd_iv := iv\<rparr>)) (\<lambda>_ w. holds e iv now (w\<lparr>wd_iv := iv\<rparr>))"
    and "\<And>v w fs. Q v w \<Longrightarrow> set fs \<subseteq> set (wd_txs w) \<Longrightarrow> Q v (w\<lparr>wd_txs := fs\<rparr>)"
  shows "hoare (holds e iv now) (in_tx body) Q (\<lambda>_. holds e iv now)"
proof (rule hoareI)
  fix w v w'
  assume w: "holds e iv now w" and run: "in_tx body w = (Inr v, w')"
  obtain b where b: "body w = (Inr v, b)" using run
    by (cases "body w"; cases "fst (body w)") (auto simp: in_tx_def split: list.splits fate.splits)
  have q: "Q v b" "holds e iv now (b\<lparr>wd_iv := iv\<rparr>)" using hoareD(1) [OF assms(1) w b] by simp_all
  then have no: "ReplyLost \<notin> set (wd_txs b)" by (simp add: holds_def)
  show "Q v w'"
  proof (cases "wd_txs b")
    case Nil
    with run b q show ?thesis by (simp add: in_tx_def)
  next
    case (Cons f fs)
    with run b no have "w' = b\<lparr>wd_txs := fs\<rparr>" by (cases f) (auto simp: in_tx_def)
    moreover have "set fs \<subseteq> set (wd_txs b)" using Cons by auto
    ultimately show ?thesis using assms(2) [OF q(1)] by simp
  qed
next
  fix w v w'
  assume w: "holds e iv now w" and run: "in_tx body w = (Inl v, w')"
  have iv: "wd_iv w = iv" using w by (simp add: holds_def)
  show "holds e iv now w'"
  proof (cases "fst (body w)")
    case (Inl x)
    then obtain b where b: "body w = (Inl x, b)" by (cases "body w") auto
    with run iv have "w' = b\<lparr>wd_iv := iv\<rparr>" by (simp add: in_tx_def)
    with hoareD(2) [OF assms(1) w b] show ?thesis by simp
  next
    case (Inr x)
    then obtain b where b: "body w = (Inr x, b)" by (cases "body w") auto
    have h: "holds e iv now (b\<lparr>wd_iv := iv\<rparr>)" using hoareD(1) [OF assms(1) w b] by simp
    obtain f fs where txs: "wd_txs b = f # fs" using run b by (cases "wd_txs b") (auto simp: in_tx_def)
    with h run b have "w' = b\<lparr>wd_iv := iv, wd_txs := fs\<rparr>"
      using iv by (cases f) (auto simp: in_tx_def holds_def)
    with h txs show ?thesis by (auto simp: holds_def)
  qed
qed

lemma hoare_tx_read:
  "hoare (holds e iv now) (in_tx (read f)) (\<lambda>v w. (\<exists>w0. holds e iv now w0 \<and> v = f w0) \<and> holds e iv now w) (\<lambda>_. holds e iv now)"
proof (rule hoare_in_tx)
  show "hoare (holds e iv now) (read f) (\<lambda>v w. ((\<exists>w0. holds e iv now w0 \<and> v = f w0) \<and> holds e iv now w) \<and> holds e iv now (w\<lparr>wd_iv := iv\<rparr>))
      (\<lambda>_ w. holds e iv now (w\<lparr>wd_iv := iv\<rparr>))"
    by (rule hoare_read) (auto simp: holds_def)
qed (auto simp: holds_def)

lemma keeps_tx_read [triples]: "keeps (holds e iv now) (in_tx (read f))"
  by (rule hoare_conseq [OF hoare_tx_read]) auto

section \<open>Procedures that leave the journal alone\<close>

lemma keeps_clear_failure [triples]: "keeps (holds e iv now) (clear_failure key)"
  by (auto simp: hoare_def clear_failure_def holds_def)

lemma keeps_note_failure [triples]: "keeps (holds e iv now) (note_failure key)"
  by (auto simp: hoare_def note_failure_def holds_def)

lemma keeps_inRepairBackoff [triples]: "keeps (holds e iv now) (inRepairBackoff key)"
  by (auto simp: hoare_def inRepairBackoff_def holds_def Let_def split: option.split)

lemma sums_entry:
  assumes "holds e iv now w" and "(s, n) \<in> set (journalReservedSums t wh w)" and "journal_ok (rows_of iv)"
  shows "well_formed (t, wh, s) \<and> n = reserved_sum t wh s (rows_of iv)"
  using assms by (auto simp: journalReservedSums_def holds_def journal_def journal_ok_def row_ok_def)

text \<open>A warehouse whose stock rows carry well-formed SKU ids.\<close>

definition stock_ids_ok :: "inventory_db \<Rightarrow> bool" where
  "stock_ids_ok iv = (\<forall>r \<in> set (db_stock (iv_ledger iv)). uuid_shape (so_tenant r) \<and> uuid_shape (so_wh r) \<and> uuid_shape (so_sku r))"

lemma reserved_sum_no_live:
  assumes "\<And>r. r \<in> set rows \<Longrightarrow> rv_tenant r = t \<Longrightarrow> rv_wh r = wh \<Longrightarrow> rv_sku r = s \<Longrightarrow> live r \<Longrightarrow> False"
  shows "reserved_sum t wh s rows = 0"
  unfolding reserved_sum_def by (rule sum_where_none) (use assms in auto)

lemma sums_keys:
  assumes "holds e iv now w"
  shows "fst ` set (journalReservedSums t wh w) = {s. \<exists>r \<in> set (rows_of iv). rv_tenant r = t \<and> rv_wh r = wh \<and> rv_sku r = s \<and> live r}"
  using assms by (auto simp: journalReservedSums_def holds_def journal_def image_iff)

lemma scopes_entry:
  assumes "holds e iv now w" and "holds e iv now w0" and "(s, n) \<in> set (warehouse_scopes t wh w (journalReservedSums t wh w0))"
    and "journal_ok (rows_of iv)" and "stock_ids_ok iv" and "uuid_shape t" and "uuid_shape wh"
  shows "well_formed (t, wh, s) \<and> n = reserved_sum t wh s (rows_of iv)"
proof (cases "(s, n) \<in> set (journalReservedSums t wh w0)")
  case True
  then show ?thesis using sums_entry [OF assms(2)] assms(4) by blast
next
  case False
  then have n: "n = 0" "s \<notin> fst ` set (journalReservedSums t wh w0)"
    and s: "s \<in> so_sku ` {r \<in> set (db_stock (iv_ledger iv)). so_tenant r = t \<and> so_wh r = wh}"
    using assms(1,3) by (auto simp: warehouse_scopes_def holds_def)
  have "reserved_sum t wh s (rows_of iv) = 0"
    by (rule reserved_sum_no_live) (use n(2) sums_keys [OF assms(2), of t wh] in blast)
  then show ?thesis using n(1) s assms(5-7) by (auto simp: stock_ids_ok_def)
qed

lemma keeps_rebuildWarehouse [triples]:
  assumes "journal_ok (rows_of iv)" and "stock_ids_ok iv" and "uuid_shape t" and "uuid_shape wh"
  shows "keeps (holds none iv now) (rebuildWarehouse t wh)"
  unfolding rebuildWarehouse_def
proof (rule keeps_bind [OF keeps_disarmReady [OF assms(3,4)]], rule hoare_bind [OF hoare_tx_read], rule hoare_fact, goal_cases)
  case (1 _ sums)
  note sums = this
  show ?case
  proof (rule hoare_bind [OF hoare_tx_read], rule hoare_fact, rule keeps_bind, goal_cases)
    case (1 scopes)
    show ?case
    proof (rule keeps_for_each, goal_cases)
      case (1 p)
      have "well_formed (t, wh, fst p) \<and> snd p = reserved_sum t wh (fst p) (rows_of iv)"
        using sums \<open>\<exists>w0. holds none iv now w0 \<and> scopes = warehouse_scopes t wh w0 sums\<close> 1
          scopes_entry [OF _ _ _ assms, of none now _ _ "fst p" "snd p"] by auto
      then show ?case by (auto simp: split_beta intro: keeps_setCounter)
    qed
  next
    case (2 scopes)
    show ?case
    proof (rule hoare_bind [OF hoare_tx_read], rule hoare_fact, rule keeps_bind, goal_cases)
      case (1 again)
      show ?case
      proof (rule keeps_for_each, goal_cases)
        case (1 p)
        have "well_formed (t, wh, fst p) \<and> snd p = reserved_sum t wh (fst p) (rows_of iv)"
          using \<open>\<exists>w0. holds none iv now w0 \<and> again = journalReservedSums t wh w0\<close> 1
            sums_entry [OF _ _ assms(1), of none now _ "fst p" "snd p" t wh] by auto
        then show ?case
          by (auto simp: set_if_below_def split_beta intro!: keeps_bind hoare_if keeps_basic triples)
      qed
    next
      case (2 again)
      show ?case by (intro keeps_bind keeps_basic keeps_setReady assms(3,4))
    qed
  qed
qed

lemma keeps_requireUuid [triples]: "keeps P (requireUuid v)"
  by (simp add: requireUuid_def keeps_basic)

lemma hoare_requireUuid: "hoare P (requireUuid v) (\<lambda>_ w. uuid_shape v \<and> P w) (\<lambda>_. P)"
  unfolding requireUuid_def by (rule hoare_lift) auto

lemma rebuild_target_shape:
  assumes "holds e iv now w" and "journal_ok (rows_of iv)" and "stock_ids_ok iv" and "wh \<in> set (rebuild_targets t w)"
  shows "uuid_shape wh"
  using assms by (auto simp: rebuild_targets_def holds_def journal_def journal_ok_def row_ok_def stock_ids_ok_def)

lemma keeps_rebuildCounters [triples]:
  assumes "journal_ok (rows_of iv)" and "stock_ids_ok iv"
  shows "keeps (holds none iv now) (rebuildCounters t target)"
  unfolding rebuildCounters_def
proof (rule hoare_bind [OF hoare_requireUuid], rule hoare_fact)
  assume t: "uuid_shape t"
  let ?all = "\<lambda>targets. for_each (\<lambda>wh. bind (rebuildWarehouse t wh) (\<lambda>_. clear_failure (flight_key t wh))) targets"
  have all: "keeps (holds none iv now) (?all targets)" if "\<forall>wh \<in> set targets. uuid_shape wh" for targets
    by (intro keeps_for_each keeps_bind triples assms t) (use that in auto)
  show "keeps (holds none iv now) (bind (case target of None \<Rightarrow> in_tx (read (rebuild_targets t)) | Some wh \<Rightarrow> bind (requireUuid wh) (\<lambda>_. ret [wh])) ?all)"
  proof (rule hoare_bind)
    show "hoare (holds none iv now) (case target of None \<Rightarrow> in_tx (read (rebuild_targets t)) | Some wh \<Rightarrow> bind (requireUuid wh) (\<lambda>_. ret [wh]))
        (\<lambda>targets w. (\<forall>wh \<in> set targets. uuid_shape wh) \<and> holds none iv now w) (\<lambda>_. holds none iv now)"
    proof (cases target)
      case None
      have "hoare (holds none iv now) (in_tx (read (rebuild_targets t)))
          (\<lambda>targets w. (\<forall>wh \<in> set targets. uuid_shape wh) \<and> holds none iv now w) (\<lambda>_. holds none iv now)"
        by (rule hoare_conseq [OF hoare_tx_read]) (use rebuild_target_shape [OF _ assms] in auto)
      with None show ?thesis by simp
    next
      case (Some wh)
      have "hoare (holds none iv now) (bind (requireUuid wh) (\<lambda>_. ret [wh]))
          (\<lambda>targets w. (\<forall>wh \<in> set targets. uuid_shape wh) \<and> holds none iv now w) (\<lambda>_. holds none iv now)"
        by (rule hoare_bind [OF hoare_requireUuid], rule hoare_ret) auto
      with Some show ?thesis by simp
    qed
    show "hoare (\<lambda>w. (\<forall>wh \<in> set targets. uuid_shape wh) \<and> holds none iv now w) (?all targets) (\<lambda>_. holds none iv now) (\<lambda>_. holds none iv now)" for targets
      by (rule hoare_fact, rule all)
  qed
qed

lemma keeps_ensureReady [triples]:
  assumes "journal_ok (rows_of iv)" and "stock_ids_ok iv"
  shows "keeps (holds none iv now) (ensureReady t wh)"
  unfolding ensureReady_def Let_def
  by (intro keeps_bind hoare_if keeps_attempt keeps_basic triples assms)

definition granted_extra :: "stock_scope \<Rightarrow> int \<Rightarrow> grant_outcome \<Rightarrow> stock_scope \<Rightarrow> int" where
  "granted_extra sc q outcome = (if outcome = Granted then only sc q else none)"

lemma hoare_runGrantScript:
  assumes "journal_ok (rows_of iv)" and "stock_ids_ok iv" and "well_formed (t, wh, s)"
  shows "hoare (holds none iv now) (runGrantScript t wh s q c) (\<lambda>outcome. holds (granted_extra (t, wh, s) q outcome) iv now) (\<lambda>_. holds none iv now)"
  unfolding runGrantScript_def Let_def
proof (rule hoare_bind [where R = "\<lambda>reply. holds (case reply of Some (Win _) \<Rightarrow> only (t, wh, s) q | _ \<Rightarrow> none) iv now"])
  show "hoare (holds none iv now) (attempt (bind (grantReservation (reservationCounterKey t wh s) (reservationReadyKey t wh) q c) (\<lambda>r. ret (Some r))) (\<lambda>_. ret None))
      (\<lambda>reply. holds (case reply of Some (Win _) \<Rightarrow> only (t, wh, s) q | _ \<Rightarrow> none) iv now) (\<lambda>_. holds none iv now)"
    by (rule hoare_attempt, rule hoare_bind [OF hoare_grantReservation [OF assms(3)]])
      (auto intro!: hoare_ret split: script_reply.splits)
next
  fix reply :: "script_reply option"
  let ?post = "\<lambda>outcome. holds (granted_extra (t, wh, s) q outcome) iv now"
  have down: "hoare (holds none iv now) (ret StoreDown) ?post (\<lambda>_. holds none iv now)"
    by (rule hoare_ret) (simp add: granted_extra_def)
  have lost: "hoare (holds none iv now) (ret Lost) ?post (\<lambda>_. holds none iv now)"
    by (rule hoare_ret) (simp add: granted_extra_def)
  have retry: "hoare (holds none iv now) (attempt (bind (grantReservation (reservationCounterKey t wh s) (reservationReadyKey t wh) q c)
      (\<lambda>retry. ret (case retry of Win _ \<Rightarrow> Granted | Loss _ \<Rightarrow> Lost))) (\<lambda>_. ret StoreDown)) ?post (\<lambda>_. holds none iv now)"
    by (rule hoare_attempt, rule hoare_bind [OF hoare_grantReservation [OF assms(3)]], rule hoare_ret, rule_tac [2] down)
      (simp add: granted_extra_def split: script_reply.splits)
  have seed: "keeps (holds none iv now) (attempt (bind (in_tx (read (journalReservedSum t wh s))) (\<lambda>total.
      bind (setCounter (reservationCounterKey t wh s) total False) (\<lambda>_. ret True))) (\<lambda>_. ret False))"
  proof (rule keeps_attempt, rule hoare_bind [OF hoare_tx_read], rule hoare_fact, goal_cases)
    case (1 total)
    then have "total = reserved_sum t wh s (rows_of iv)" by (auto simp: journalReservedSum_def holds_journal)
    then show ?case by (intro keeps_bind keeps_basic keeps_setCounter [OF assms(3)]) simp
  qed (rule keeps_basic)
  show "hoare (holds (case reply of Some (Win _) \<Rightarrow> only (t, wh, s) q | _ \<Rightarrow> none) iv now)
      (case reply of None \<Rightarrow> ret StoreDown | Some (Win _) \<Rightarrow> ret Granted
        | Some (Loss reason) \<Rightarrow>
            if reason = ''not-ready'' then bind (ensureReady t wh) (\<lambda>_. ret StoreDown)
            else if reason = ''missing-counter'' then
              bind (attempt (bind (in_tx (read (journalReservedSum t wh s))) (\<lambda>total.
                  bind (setCounter (reservationCounterKey t wh s) total False) (\<lambda>_. ret True))) (\<lambda>_. ret False)) (\<lambda>repaired.
              if \<not> repaired then ret StoreDown
              else attempt (bind (grantReservation (reservationCounterKey t wh s) (reservationReadyKey t wh) q c) (\<lambda>retry.
                  ret (case retry of Win _ \<Rightarrow> Granted | Loss _ \<Rightarrow> Lost))) (\<lambda>_. ret StoreDown))
            else ret Lost) ?post (\<lambda>_. holds none iv now)"
  proof (cases reply)
    case None
    with down show ?thesis by simp
  next
    case (Some r)
    show ?thesis
    proof (cases r)
      case (Win n)
      with Some show ?thesis by (auto intro!: hoare_ret simp: granted_extra_def)
    next
      case (Loss reason)
      have "hoare (holds none iv now) (bind (ensureReady t wh) (\<lambda>_. ret StoreDown)) ?post (\<lambda>_. holds none iv now)"
        by (rule hoare_bind [OF keeps_ensureReady [OF assms(1,2)]], rule down)
      moreover have "hoare (holds none iv now) (bind (attempt (bind (in_tx (read (journalReservedSum t wh s))) (\<lambda>total.
                  bind (setCounter (reservationCounterKey t wh s) total False) (\<lambda>_. ret True))) (\<lambda>_. ret False)) (\<lambda>repaired.
              if \<not> repaired then ret StoreDown
              else attempt (bind (grantReservation (reservationCounterKey t wh s) (reservationReadyKey t wh) q c) (\<lambda>retry.
                  ret (case retry of Win _ \<Rightarrow> Granted | Loss _ \<Rightarrow> Lost))) (\<lambda>_. ret StoreDown))) ?post (\<lambda>_. holds none iv now)"
        by (rule hoare_bind [OF seed], intro hoare_if down retry)
      ultimately show ?thesis using Some Loss lost by simp
    qed
  qed
qed

lemma hoare_compensate:
  assumes "journal_ok (rows_of iv)" and "well_formed (t, wh, s)" and "0 \<le> q"
  shows "hoare (holds (only (t, wh, s) q) iv now) (compensate (reservationCounterKey t wh s) q) (\<lambda>_. holds none iv now) E"
  unfolding compensate_def
  by (rule hoare_attempt, rule hoare_bind [OF hoare_releaseReservation [OF assms(2,3,1)]]) (auto intro!: hoare_ret)

lemma hoare_restoreCounter:
  assumes "journal_ok (rows_of iv)" and "row_ok r"
  shows "hoare (holds (only (rv_tenant r, rv_wh r, rv_sku r) (rv_qty r)) iv now) (restoreCounter r) (\<lambda>_. holds none iv now) E"
  unfolding restoreCounter_def
  by (rule hoare_attempt, rule hoare_bind [OF hoare_releaseReservation [OF _ _ assms(1)]])
    (use assms(2) in \<open>auto intro!: hoare_ret simp: row_ok_def\<close>)

section \<open>Journal writes\<close>

abbreviation with_rows :: "inventory_db \<Rightarrow> reservation_row list \<Rightarrow> inventory_db" where
  "with_rows iv rows \<equiv> iv\<lparr>iv_reservations := rows\<rparr>"

text \<open>The ceiling does not look at the reservations.\<close>

lemma ceiling_frame: "committedCeiling (with_rows iv rows) t wh s at = committedCeiling iv t wh s at"
proof -
  have q: "quarantined (with_rows iv rows) = quarantined iv" by (intro ext) (simp add: quarantined_def)
  have b: "stock_bins (with_rows iv rows) = stock_bins iv" by (simp add: stock_bins_def)
  have m: "minOutboundShelfLifeOfSkuInTx (with_rows iv rows) = minOutboundShelfLifeOfSkuInTx iv" by (intro ext) (simp add: minOutboundShelfLifeOfSkuInTx_def cong: option.case_cong)
  have d: "dated_live (with_rows iv rows) = dated_live iv" by (intro ext) (simp add: dated_live_def)
  have j: "batch_join (with_rows iv rows) = batch_join iv" by (intro ext) (simp add: batch_join_def q)
  have u: "unpromisableBatchUnits (with_rows iv rows) = unpromisableBatchUnits iv"
    by (intro ext) (simp add: unpromisableBatchUnits_def m d j)
  show ?thesis
    by (simp add: committedCeiling_def unpromisableUnits_def u committedOnHand_def q b qcHeldUnits_def inTransitUnits_def
      returnsAwaitingUnits_def damagedUnits_def blocked_bin_units_def)
qed

lemma mirror_rows:
  assumes "mirror e rows st" and "\<And>sc. well_formed sc \<Longrightarrow> sum_of sc rows' + e' sc \<le> sum_of sc rows + e sc"
  shows "mirror e' rows' st"
  unfolding mirror_iff
proof (intro allI impI)
  fix sc n
  assume sc: "well_formed sc" "st (key_of sc) = Some (Num n)"
  show "sum_of sc rows' + e' sc \<le> n" using mirrorD [OF assms(1) sc] assms(2) [OF sc(1)] by linarith
qed

lemma holds_rows:
  assumes "holds e iv now (w\<lparr>wd_iv := iv\<rparr>)" and "wd_iv w = with_rows iv rows"
    and "\<And>sc. well_formed sc \<Longrightarrow> sum_of sc rows + e' sc \<le> sum_of sc (rows_of iv) + e sc"
  shows "holds e' (with_rows iv rows) now w"
  using assms mirror_rows [OF _ assms(3)] by (simp add: holds_def)

lemma holds_with_rows: "holds e iv now w \<Longrightarrow> holds e iv now (set_journal rows w\<lparr>wd_iv := iv\<rparr>)"
  by (simp add: holds_def set_journal_def)

definition scope_of :: "reservation_row \<Rightarrow> stock_scope" where
  "scope_of r = (rv_tenant r, rv_wh r, rv_sku r)"

lemma sum_of_snoc: "sum_of sc (rows @ [r]) = sum_of sc rows + (if scope_of r = sc \<and> live r then rv_qty r else 0)"
  by (cases sc) (auto simp: scope_of_def reserved_sum_snoc)

lemma sum_of_replace: "sum_of sc (xs @ r # ys) = sum_of sc (xs @ ys) + (if scope_of r = sc \<and> live r then rv_qty r else 0)"
  by (cases sc) (auto simp: scope_of_def reserved_sum_replace)

lemma hoare_getCounter:
  assumes "well_formed sc"
  shows "hoare (holds e iv now) (getCounter (key_of sc))
    (\<lambda>v w. (case v of None \<Rightarrow> True | Some n \<Rightarrow> sum_of sc (rows_of iv) + e sc \<le> n) \<and> holds e iv now w) (\<lambda>_. holds e iv now)"
proof (rule hoareI)
  fix w v w'
  assume w: "holds e iv now w" and run: "getCounter (key_of sc) w = (Inr v, w')"
  then have v: "v = getCounter_of (key_of sc) (wd_store w)" using valkey_call_spec [OF run [unfolded getCounter_def]] by auto
  have "mirror e (rows_of iv) (wd_store w)" using w by (simp add: holds_def)
  then have "case v of None \<Rightarrow> True | Some n \<Rightarrow> sum_of sc (rows_of iv) + e sc \<le> n"
    using mirrorD [OF _ assms] by (auto simp: v getCounter_of_def split: option.split stored.split)
  then show "(case v of None \<Rightarrow> True | Some n \<Rightarrow> sum_of sc (rows_of iv) + e sc \<le> n) \<and> holds e iv now w'"
    using hoareD(1) [OF keeps_getCounter w run] by simp
next
  fix w v w'
  assume "holds e iv now w" and "getCounter (key_of sc) w = (Inl v, w')"
  then show "holds e iv now w'" by (rule hoareD(2) [OF keeps_getCounter])
qed

text \<open>The insert of a hold, for units the counter already carries.\<close>

lemma hoare_insert_hold:
  assumes "journal_ok (rows_of iv)" and "rv_id row \<notin> rv_id ` set (rows_of iv)" and "row_ok row" and "rv_state row = Held"
  shows "hoare (holds (only (scope_of row) (rv_qty row)) iv now) (insert_hold row)
    (\<lambda>r w. (r = row \<and> journal_ok (rows_of iv @ [row]) \<and> holds none (with_rows iv (rows_of iv @ [row])) now w) \<and>
      holds (only (scope_of row) (rv_qty row)) iv now (w\<lparr>wd_iv := iv\<rparr>))
    (\<lambda>_ w. holds (only (scope_of row) (rv_qty row)) iv now (w\<lparr>wd_iv := iv\<rparr>))"
proof (rule hoareI)
  fix w r w'
  assume w: "holds (only (scope_of row) (rv_qty row)) iv now w" and run: "insert_hold row w = (Inr r, w')"
  have j: "journal w = rows_of iv" using w by (rule holds_journal)
  have r: "r = row" and w': "w' = set_journal (rows_of iv @ [row]) w"
    and free: "\<not> list_ex (\<lambda>r. rv_state r = Held \<and> owner_scope_of r = owner_scope_of row) (rows_of iv)"
    using run by (auto simp: insert_hold_def j split: if_splits)
  have h: "holds (only (scope_of row) (rv_qty row)) iv now (w'\<lparr>wd_iv := iv\<rparr>)" using holds_with_rows [OF w] by (simp add: w')
  have "wd_iv w' = with_rows iv (rows_of iv @ [row])" using w by (simp add: w' set_journal_def holds_def)
  then have "holds none (with_rows iv (rows_of iv @ [row])) now w'"
    by (rule holds_rows [OF h]) (use assms(3,4) in \<open>auto simp: sum_of_snoc row_ok_def only_def\<close>)
  with r h journal_ok_insert [OF assms(1) free assms(2,3)]
  show "(r = row \<and> journal_ok (rows_of iv @ [row]) \<and> holds none (with_rows iv (rows_of iv @ [row])) now w') \<and>
      holds (only (scope_of row) (rv_qty row)) iv now (w'\<lparr>wd_iv := iv\<rparr>)" by blast
next
  fix w e w'
  assume "holds (only (scope_of row) (rv_qty row)) iv now w" and "insert_hold row w = (Inl e, w')"
  then show "holds (only (scope_of row) (rv_qty row)) iv now (w'\<lparr>wd_iv := iv\<rparr>)"
    by (auto simp: insert_hold_def holds_def split: if_splits)
qed

definition command_ok :: "grant_command \<Rightarrow> bool" where
  "command_ok c = (uuid_shape (gc_tenant c) \<and> uuid_shape (gc_wh c) \<and> uuid_shape (gc_sku c) \<and> 0 < gc_qty c \<and>
     (ttl_of c = None \<longrightarrow> gc_owner_type c = BUFFER_OWNER_TYPE))"

definition grant_scope :: "grant_command \<Rightarrow> stock_scope" where
  "grant_scope c = (gc_tenant c, gc_wh c, gc_sku c)"

lemma hold_row_simps [simp]:
  "rv_id (hold_row i c now) = i" "rv_qty (hold_row i c now) = gc_qty c" "rv_state (hold_row i c now) = Held"
  "scope_of (hold_row i c now) = grant_scope c" "owner_scope_of (hold_row i c now) = command_scope c"
  by (simp_all add: hold_row_def scope_of_def grant_scope_def owner_scope_of_def command_scope_def)

lemma hold_row_ok: "command_ok c \<Longrightarrow> row_ok (hold_row i c now)"
  by (auto simp: command_ok_def row_ok_def hold_row_def)

lemma hoare_check_command: "hoare P (check_command c) (\<lambda>_ w. command_ok c \<and> P w) (\<lambda>_. P)"
  by (auto simp: hoare_def check_command_def bind_def requireUuid_def command_ok_def require_def split: prod.splits sum.splits if_splits)

lemma holds_only_pos: "holds (only sc q) iv now w \<Longrightarrow> 0 \<le> q \<Longrightarrow> holds none iv now w"
  by (auto simp: holds_def intro: mirror_none)

lemma hoare_journal_hold:
  assumes "journal_ok (rows_of iv)" and "newId \<notin> rv_id ` set (rows_of iv)" and "command_ok c"
  shows "hoare (holds (only (grant_scope c) (gc_qty c)) iv now) (in_tx (journal_hold newId c))
    (\<lambda>r w. r = hold_row newId c now \<and> sum_of (grant_scope c) (rows_of iv) + gc_qty c \<le> committedCeiling iv (gc_tenant c) (gc_wh c) (gc_sku c) now \<and>
      journal_ok (rows_of iv @ [r]) \<and> holds none (with_rows iv (rows_of iv @ [r])) now w)
    (\<lambda>_. holds (only (grant_scope c) (gc_qty c)) iv now)"
proof (rule hoare_in_tx)
  let ?H = "holds (only (grant_scope c) (gc_qty c)) iv now"
  let ?max = "committedCeiling iv (gc_tenant c) (gc_wh c) (gc_sku c) now"
  let ?Q = "\<lambda>r w. r = hold_row newId c now \<and> sum_of (grant_scope c) (rows_of iv) + gc_qty c \<le> ?max \<and>
      journal_ok (rows_of iv @ [r]) \<and> holds none (with_rows iv (rows_of iv @ [r])) now w"
  let ?key = "reservationCounterKey (gc_tenant c) (gc_wh c) (gc_sku c)"
  have wf: "well_formed (grant_scope c)" using assms(3) by (simp add: grant_scope_def command_ok_def)
  have undone: "?H w \<Longrightarrow> ?H (w\<lparr>wd_iv := iv\<rparr>)" for w by (simp add: holds_def)
  have fail: "hoare ?H (raise e) Q (\<lambda>_ w. ?H (w\<lparr>wd_iv := iv\<rparr>))" for e Q by (rule hoare_raise) (rule undone)
  have counter: "hoare ?H (attempt (getCounter ?key) (\<lambda>_. raise reservationStoreUnavailable))
      (\<lambda>v w. (case v of None \<Rightarrow> True | Some n \<Rightarrow> sum_of (grant_scope c) (rows_of iv) + gc_qty c \<le> n) \<and> ?H w) (\<lambda>_ w. ?H (w\<lparr>wd_iv := iv\<rparr>))"
    using hoare_getCounter [OF wf, of "only (grant_scope c) (gc_qty c)" iv now]
    by (intro hoare_attempt [OF _ fail]) (simp add: grant_scope_def cong: option.case_cong)
  have insert: "hoare ?H (bind (read wd_now) (\<lambda>now. insert_hold (hold_row newId c now)))
      (\<lambda>r w. ?Q r w \<and> ?H (w\<lparr>wd_iv := iv\<rparr>)) (\<lambda>_ w. ?H (w\<lparr>wd_iv := iv\<rparr>))" if "sum_of (grant_scope c) (rows_of iv) + gc_qty c \<le> ?max"
  proof (rule hoare_bind [where R = "\<lambda>n w. n = now \<and> ?H w"])
    show "hoare ?H (read wd_now) (\<lambda>n w. n = now \<and> ?H w) (\<lambda>_ w. ?H (w\<lparr>wd_iv := iv\<rparr>))" by (rule hoare_read) (simp add: holds_def)
    show "hoare (\<lambda>w. n = now \<and> ?H w) (insert_hold (hold_row newId c n)) (\<lambda>r w. ?Q r w \<and> ?H (w\<lparr>wd_iv := iv\<rparr>)) (\<lambda>_ w. ?H (w\<lparr>wd_iv := iv\<rparr>))" for n
      using hoare_insert_hold [OF assms(1) _ hold_row_ok [OF assms(3)], of newId now now] assms(2) that
      by (intro hoare_fact) (auto elim!: hoare_conseq)
  qed
  show "hoare ?H (journal_hold newId c) (\<lambda>r w. ?Q r w \<and> ?H (w\<lparr>wd_iv := iv\<rparr>)) (\<lambda>_ w. ?H (w\<lparr>wd_iv := iv\<rparr>))"
    unfolding journal_hold_def
  proof (rule hoare_bind [where R = "\<lambda>m w. m = ?max \<and> ?H w"])
    show "hoare ?H (read (ceiling_now (gc_tenant c) (gc_wh c) (gc_sku c))) (\<lambda>m w. m = ?max \<and> ?H w) (\<lambda>_ w. ?H (w\<lparr>wd_iv := iv\<rparr>))"
      by (rule hoare_read) (simp add: holds_ceiling)
    fix m
    show "hoare (\<lambda>w. m = ?max \<and> ?H w) (bind (attempt (getCounter ?key) (\<lambda>_. raise reservationStoreUnavailable)) (\<lambda>counter.
        case counter of None \<Rightarrow> raise reservationStoreUnavailable
        | Some n \<Rightarrow> if n > m then raise unavailable else bind (read wd_now) (\<lambda>now. insert_hold (hold_row newId c now))))
        (\<lambda>r w. ?Q r w \<and> ?H (w\<lparr>wd_iv := iv\<rparr>)) (\<lambda>_ w. ?H (w\<lparr>wd_iv := iv\<rparr>))"
    proof (rule hoare_fact, rule hoare_bind [OF counter], rule hoare_fact, goal_cases)
      case (1 v)
      show ?case
      proof (cases v)
        case None
        with fail show ?thesis by simp
      next
        case (Some n)
        with 1 have le: "\<not> n > m \<Longrightarrow> sum_of (grant_scope c) (rows_of iv) + gc_qty c \<le> ?max" by simp
        show ?thesis unfolding Some option.case by (rule hoare_if, rule fail, rule insert, rule le)
      qed
    qed
  qed
qed (simp add: holds_def, blast)

end
