(* ===== verification/ReservationService.thy ===== *)
theory ReservationService
  imports ReservationSteps
begin

text \<open>
  The operations of the reservation service as a whole: the exact outcomes of a grant, and, for every
  operation, that it keeps the journal well formed, lets rows only evolve and never leaves a counter
  below what the journal holds (\<open>service\<close>).
\<close>

section \<open>Granting\<close>

definition settled_hold :: "inventory_db \<Rightarrow> grant_command \<Rightarrow> reservation_row \<Rightarrow> bool" where
  "settled_hold iv c r = (r \<in> set (rows_of iv) \<and> owner_scope_of r = command_scope c \<and> rv_state r = Held \<and> rv_qty r = gc_qty c)"

definition new_hold :: "inventory_db \<Rightarrow> millis \<Rightarrow> uuid \<Rightarrow> grant_command \<Rightarrow> reservation_row \<Rightarrow> bool" where
  "new_hold iv now newId c r = (r = hold_row newId c now \<and> command_ok c \<and> journal_ok (rows_of iv @ [r]) \<and>
     sum_of (grant_scope c) (rows_of iv) + gc_qty c \<le> committedCeiling iv (gc_tenant c) (gc_wh c) (gc_sku c) now)"

lemma findOpenHold_found:
  "holds e iv now w \<Longrightarrow> findOpenHold scope w = Some r \<Longrightarrow> r \<in> set (rows_of iv) \<and> owner_scope_of r = scope \<and> rv_state r = Held"
  by (auto simp: findOpenHold_def holds_journal dest: find_SomeD)

lemma hoare_idempotentHit:
  assumes "r \<in> set (rows_of iv)" and "owner_scope_of r = command_scope c" and "rv_state r = Held"
  shows "hoare (holds none iv now) (idempotentHit r c) (\<lambda>r w. settled_hold iv c r \<and> holds none iv now w) (\<lambda>_. holds none iv now)"
  unfolding idempotentHit_def by (intro hoare_if hoare_raise hoare_ret) (use assms in \<open>auto simp: settled_hold_def\<close>)

lemma hoare_grant:
  assumes "journal_ok (rows_of iv)" and "stock_ids_ok iv" and "newId \<notin> rv_id ` set (rows_of iv)"
  shows "hoare (holds none iv now) (grant newId c)
    (\<lambda>r w. settled_hold iv c r \<and> holds none iv now w \<or> new_hold iv now newId c r \<and> holds none (with_rows iv (rows_of iv @ [r])) now w)
    (\<lambda>_. holds none iv now)"
  (is "hoare ?P _ ?Q ?E")
  unfolding grant_def
proof (rule hoare_bind [OF hoare_check_command], rule hoare_fact, rule hoare_bind [OF hoare_tx_read], rule hoare_fact, goal_cases)
  case (1 _ v)
  obtain existing ceiling where v: "v = (existing, ceiling)" by (cases v)
  obtain w0 where w0: "holds none iv now w0" "existing = findOpenHold (command_scope c) w0" using 1(2) v by auto
  have found: "existing = Some r \<Longrightarrow> r \<in> set (rows_of iv) \<and> owner_scope_of r = command_scope c \<and> rv_state r = Held" for r
    using findOpenHold_found [OF w0(1)] w0(2) by simp
  have hit: "hoare ?P (idempotentHit r c) ?Q ?E" if "r \<in> set (rows_of iv) \<and> owner_scope_of r = command_scope c \<and> rv_state r = Held" for r
    by (rule hoare_conseq [OF hoare_idempotentHit [of r iv c now]]) (use that in auto)
  have wf: "well_formed (gc_tenant c, gc_wh c, gc_sku c)" and q: "0 \<le> gc_qty c" using 1(1) by (auto simp: command_ok_def)
  let ?H = "holds (only (grant_scope c) (gc_qty c)) iv now"
  let ?key = "reservationCounterKey (gc_tenant c) (gc_wh c) (gc_sku c)"
  have journalled: "hoare ?H (attempt (in_tx (journal_hold newId c)) (\<lambda>err.
           bind (compensate ?key (gc_qty c)) (\<lambda>_.
           if err = open_owner_scope_unique then
             bind (in_tx (read (findOpenHold (command_scope c)))) (\<lambda>settled.
             case settled of Some r \<Rightarrow> idempotentHit r c | None \<Rightarrow> raise conflict)
           else raise err))) ?Q ?E"
  proof (rule hoare_attempt)
    show "hoare ?H (in_tx (journal_hold newId c)) ?Q (\<lambda>_. ?H)"
      by (rule hoare_conseq [OF hoare_journal_hold [OF assms(1,3) 1(1)]]) (auto simp: new_hold_def 1(1))
    fix err
    show "hoare ?H (bind (compensate ?key (gc_qty c)) (\<lambda>_.
           if err = open_owner_scope_unique then
             bind (in_tx (read (findOpenHold (command_scope c)))) (\<lambda>settled.
             case settled of Some r \<Rightarrow> idempotentHit r c | None \<Rightarrow> raise conflict)
           else raise err)) ?Q ?E"
    proof (rule hoare_bind [OF hoare_compensate [OF assms(1) wf q, folded grant_scope_def]], intro hoare_if)
      show "hoare ?P (raise err) ?Q ?E" by (rule hoare_raise)
      show "hoare ?P (bind (in_tx (read (findOpenHold (command_scope c)))) (\<lambda>settled.
             case settled of Some r \<Rightarrow> idempotentHit r c | None \<Rightarrow> raise conflict)) ?Q ?E"
      proof (rule hoare_bind [OF hoare_tx_read], rule hoare_fact, goal_cases)
        case (1 settled)
        then obtain w1 where w1: "holds none iv now w1" "settled = findOpenHold (command_scope c) w1" by blast
        have "hoare ?P (idempotentHit r c) ?Q ?E" if "settled = Some r" for r
          using hit findOpenHold_found [OF w1(1)] w1(2) that by simp
        then show ?case by (cases settled) (auto intro: hoare_raise)
      qed
    qed
  qed
  show ?case
  proof (cases existing)
    case (Some r)
    with hit found show ?thesis unfolding v by simp
  next
    case None
    have lost: "hoare ?P (raise e) ?Q ?E" for e by (rule hoare_raise)
    show ?thesis
      unfolding v None prod.case option.case
    proof (rule hoare_bind [OF hoare_runGrantScript [OF assms(1,2) wf]], goal_cases)
      case (1 outcome)
      show ?case
      proof (cases outcome)
        case Granted
        with journalled show ?thesis by (simp add: granted_extra_def grant_scope_def)
      qed (simp_all add: granted_extra_def lost)
    qed
  qed
qed

section \<open>Terminal transitions\<close>

definition reach :: "inventory_db \<Rightarrow> millis \<Rightarrow> world \<Rightarrow> bool" where
  "reach iv now w = (\<exists>rows. journal_ok rows \<and> evolves (rows_of iv) rows \<and> holds none (with_rows iv rows) now w)"

lemma reach_refl: "journal_ok (rows_of iv) \<Longrightarrow> holds none iv now w \<Longrightarrow> reach iv now w"
  unfolding reach_def by (rule exI [of _ "rows_of iv"]) (simp add: evolves_refl)

definition ends :: "reservation_state list \<Rightarrow> reservation_state \<Rightarrow> bool" where
  "ends from to = (\<forall>a \<in> set from. (a = Held \<or> a = Committed) \<and> state_step a to \<and> to \<noteq> Held)"

text \<open>What a conditional state update leaves to give back: the row's units, unless they stay reserved.\<close>

definition freed :: "reservation_row \<Rightarrow> int" where
  "freed r = (if live r then 0 else rv_qty r)"

lemma hoare_set_state:
  assumes "journal_ok (rows_of iv)" and "ends from to"
  shows "hoare (holds none iv now) (set_state t i from to)
    (\<lambda>row w. (\<exists>rows. journal_ok rows \<and> evolves (rows_of iv) rows \<and>
       (case row of None \<Rightarrow> rows = rows_of iv | Some r \<Rightarrow> r \<in> set rows \<and> rv_id r = i \<and> rv_tenant r = t \<and> rv_state r = to) \<and>
       holds (case row of None \<Rightarrow> none | Some r \<Rightarrow> only (scope_of r) (freed r)) (with_rows iv rows) now w) \<and>
      holds none iv now (w\<lparr>wd_iv := iv\<rparr>)) E"
proof (rule hoareI)
  fix w row w'
  assume w: "holds none iv now w" and run: "set_state t i from to w = (Inr row, w')"
  let ?P = "\<lambda>r. rv_tenant r = t \<and> rv_state r \<in> set from"
  let ?g = "rv_state_update (\<lambda>_. to)"
  have j: "journal w = rows_of iv" using w by (rule holds_journal)
  have row: "row = map_option ?g (find (\<lambda>r. rv_id r = i \<and> ?P r) (rows_of iv))"
    and w': "w' = set_journal (update_where (\<lambda>r. rv_id r = i \<and> ?P r) ?g (rows_of iv)) w"
    using run by (auto simp: set_state_def Let_def j)
  have undo: "holds none iv now (w'\<lparr>wd_iv := iv\<rparr>)" using holds_with_rows [OF w] by (simp add: w')
  have iv': "wd_iv w' = with_rows iv (update_where (\<lambda>r. rv_id r = i \<and> ?P r) ?g (rows_of iv))"
    using w by (simp add: w' set_journal_def holds_def)
  have dist: "distinct (map rv_id (rows_of iv))" using assms(1) by (simp add: journal_ok_def)
  have ev: "evolves (rows_of iv) (update_where (\<lambda>r. rv_id r = i \<and> ?P r) ?g (rows_of iv))"
    by (rule evolves_update) (use assms(2) in \<open>auto simp: row_step_def owner_scope_of_def ends_def\<close>)
  show "(\<exists>rows. journal_ok rows \<and> evolves (rows_of iv) rows \<and>
       (case row of None \<Rightarrow> rows = rows_of iv | Some r \<Rightarrow> r \<in> set rows \<and> rv_id r = i \<and> rv_tenant r = t \<and> rv_state r = to) \<and>
       holds (case row of None \<Rightarrow> none | Some r \<Rightarrow> only (scope_of r) (freed r)) (with_rows iv rows) now w') \<and>
      holds none iv now (w'\<lparr>wd_iv := iv\<rparr>)"
  proof (cases "find (\<lambda>r. rv_id r = i \<and> ?P r) (rows_of iv)")
    case None
    then have same: "update_where (\<lambda>r. rv_id r = i \<and> ?P r) ?g (rows_of iv) = rows_of iv" by (rule update_none)
    have "holds none (with_rows iv (rows_of iv)) now w'"
      by (rule holds_rows [OF undo]) (use iv' same in auto)
    with None row undo assms(1) evolves_refl show ?thesis by (intro conjI exI [of _ "rows_of iv"]) simp_all
  next
    case (Some r)
    obtain xs ys where r: "rows_of iv = xs @ r # ys" "rv_id r = i" "?P r"
      "update_where (\<lambda>r. rv_id r = i \<and> ?P r) ?g (rows_of iv) = xs @ ?g r # ys"
      using update_one [OF dist Some] by blast
    have ok: "row_ok r" using assms(1) r(1) by (simp add: journal_ok_def)
    have fromr: "live r" "to \<noteq> Held" using assms(2) r(3) by (auto simp: ends_def live_def)
    have "journal_ok (xs @ ?g r # ys)"
      by (rule journal_ok_replace [of xs r ys]) (use assms(1) r(1) ok fromr in \<open>auto simp: owner_scope_of_def row_ok_def\<close>)
    moreover have "holds (only (scope_of (?g r)) (freed (?g r))) (with_rows iv (xs @ ?g r # ys)) now w'"
      by (rule holds_rows [OF undo])
        (use iv' r(4) fromr in \<open>auto simp: r(1) sum_of_replace only_def freed_def scope_of_def\<close>)
    ultimately show ?thesis
      using row Some ev undo r by (intro conjI exI [of _ "xs @ ?g r # ys"]) simp_all
  qed
qed (simp add: set_state_def Let_def)

lemma hoare_tx_set_state:
  assumes "journal_ok (rows_of iv)" and "ends from to"
  shows "hoare (holds none iv now) (in_tx (set_state t i from to))
    (\<lambda>row w. \<exists>rows. journal_ok rows \<and> evolves (rows_of iv) rows \<and>
       (case row of None \<Rightarrow> rows = rows_of iv | Some r \<Rightarrow> r \<in> set rows \<and> rv_id r = i \<and> rv_tenant r = t \<and> rv_state r = to) \<and>
       holds (case row of None \<Rightarrow> none | Some r \<Rightarrow> only (scope_of r) (freed r)) (with_rows iv rows) now w)
    (\<lambda>_. holds none iv now)"
proof (rule hoare_in_tx [OF hoare_set_state [OF assms]], goal_cases)
  case (1 v w fs)
  then obtain rows where "journal_ok rows" "evolves (rows_of iv) rows"
    "case v of None \<Rightarrow> rows = rows_of iv | Some r \<Rightarrow> r \<in> set rows \<and> rv_id r = i \<and> rv_tenant r = t \<and> rv_state r = to"
    "holds (case v of None \<Rightarrow> none | Some r \<Rightarrow> only (scope_of r) (freed r)) (with_rows iv rows) now (w\<lparr>wd_txs := fs\<rparr>)"
    by (auto simp: holds_def)
  then show ?case by blast
qed

section \<open>The operations of the service\<close>

text \<open>
  An operation of the service keeps the journal well formed, lets its rows only evolve and never leaves
  a counter below what the journal holds, whichever calls fail.
\<close>

definition service :: "'a op \<Rightarrow> bool" where
  "service m = (\<forall>iv now. journal_ok (rows_of iv) \<longrightarrow> stock_ids_ok iv \<longrightarrow>
     hoare (holds none iv now) m (\<lambda>_. reach iv now) (\<lambda>_. reach iv now))"

lemma stock_ids_with_rows [simp]: "stock_ids_ok (with_rows iv rows) = stock_ids_ok iv"
  by (simp add: stock_ids_ok_def)

lemma reach_trans:
  assumes "journal_ok rows" and "evolves (rows_of iv) rows" and "reach (with_rows iv rows) now w"
  shows "reach iv now w"
proof -
  obtain rows' where "journal_ok rows'" "evolves rows rows'" "holds none (with_rows iv rows') now w"
    using assms(3) by (auto simp: reach_def)
  with evolves_trans [OF assms(2)] show ?thesis unfolding reach_def by blast
qed

lemma service_step:
  assumes "service m" and "stock_ids_ok iv"
  shows "keeps (reach iv now) m"
  unfolding reach_def
proof (intro hoare_ex)
  fix rows
  have "hoare (\<lambda>w. (journal_ok rows \<and> evolves (rows_of iv) rows) \<and> holds none (with_rows iv rows) now w) m (\<lambda>_. reach iv now) (\<lambda>_. reach iv now)"
  proof (rule hoare_fact)
    assume rows: "journal_ok rows \<and> evolves (rows_of iv) rows"
    have "hoare (holds none (with_rows iv rows) now) m (\<lambda>_. reach (with_rows iv rows) now) (\<lambda>_. reach (with_rows iv rows) now)"
      using assms rows by (simp add: service_def)
    then show "hoare (holds none (with_rows iv rows) now) m (\<lambda>_. reach iv now) (\<lambda>_. reach iv now)"
      by (rule hoare_conseq) (use rows in \<open>auto intro: reach_trans\<close>)
  qed
  then show "hoare (\<lambda>w. journal_ok rows \<and> evolves (rows_of iv) rows \<and> holds none (with_rows iv rows) now w) m
      (\<lambda>_ w. \<exists>rows. journal_ok rows \<and> evolves (rows_of iv) rows \<and> holds none (with_rows iv rows) now w)
      (\<lambda>_ w. \<exists>rows. journal_ok rows \<and> evolves (rows_of iv) rows \<and> holds none (with_rows iv rows) now w)"
    by (simp add: reach_def [abs_def] conj_assoc)
qed

lemma serviceI:
  assumes "\<And>iv now. journal_ok (rows_of iv) \<Longrightarrow> stock_ids_ok iv \<Longrightarrow> hoare (holds none iv now) m (\<lambda>_. reach iv now) (\<lambda>_. reach iv now)"
  shows "service m"
  using assms by (simp add: service_def)

lemma service_keeps:
  assumes "\<And>iv now. journal_ok (rows_of iv) \<Longrightarrow> stock_ids_ok iv \<Longrightarrow> keeps (holds none iv now) m"
  shows "service m"
  by (rule serviceI, rule hoare_conseq [OF assms]) (auto intro: reach_refl)

lemma service_bind:
  assumes "service m" and "\<And>v. service (k v)"
  shows "service (bind m k)"
proof (rule serviceI, rule hoare_bind)
  fix iv now v
  assume ok: "journal_ok (rows_of iv)" "stock_ids_ok iv"
  then show "hoare (holds none iv now) m (\<lambda>_. reach iv now) (\<lambda>_. reach iv now)" using assms(1) by (simp add: service_def)
  show "keeps (reach iv now) (k v)" by (rule service_step [OF assms(2) ok(2)])
qed

lemma service_attempt:
  assumes "service m" and "\<And>e. service (h e)"
  shows "service (attempt m h)"
proof (rule serviceI, rule hoare_attempt)
  fix iv now v
  assume ok: "journal_ok (rows_of iv)" "stock_ids_ok iv"
  then show "hoare (holds none iv now) m (\<lambda>_. reach iv now) (\<lambda>_. reach iv now)" using assms(1) by (simp add: service_def)
  show "keeps (reach iv now) (h v)" by (rule service_step [OF assms(2) ok(2)])
qed

lemma service_basic [triples]: "service (ret v)" "service (raise e)" "service (lift r)" "service (read f)" "service (in_tx (read f))"
  "service (requireUuid s)" "service (isReady key)" "service (getCounter key)" "service (rebuildCounters t target)" "service (ensureReady t wh)"
  by (rule service_keeps, intro keeps_basic triples; assumption)+

lemma service_for_each: "(\<And>x. service (f x)) \<Longrightarrow> service (for_each f xs)"
  by (induction xs) (auto intro!: service_bind service_basic)

lemma hoare_ends:
  assumes "journal_ok (rows_of iv)" and "ends from to" and "to = Released \<or> to = Expired"
  shows "hoare (holds none iv now) (in_tx (set_state t i from to))
    (\<lambda>row w. \<exists>rows. (journal_ok rows \<and> evolves (rows_of iv) rows \<and> (case row of None \<Rightarrow> True | Some r \<Rightarrow> row_ok r)) \<and>
       holds (case row of None \<Rightarrow> none | Some r \<Rightarrow> only (rv_tenant r, rv_wh r, rv_sku r) (rv_qty r)) (with_rows iv rows) now w)
    (\<lambda>_. reach iv now)"
proof (rule hoare_conseq [OF hoare_tx_set_state [OF assms(1,2), of now t i]], goal_cases)
  case (2 row w)
  then obtain rows where rows: "journal_ok rows" "evolves (rows_of iv) rows"
    "case row of None \<Rightarrow> rows = rows_of iv | Some r \<Rightarrow> r \<in> set rows \<and> rv_id r = i \<and> rv_tenant r = t \<and> rv_state r = to"
    "holds (case row of None \<Rightarrow> none | Some r \<Rightarrow> only (scope_of r) (freed r)) (with_rows iv rows) now w" by blast
  have "row_ok r" if "row = Some r" for r using rows that by (auto simp: journal_ok_def)
  moreover have "only (scope_of r) (freed r) = only (rv_tenant r, rv_wh r, rv_sku r) (rv_qty r)" if "row = Some r" for r
    using rows(3) that assms(3) by (auto simp: scope_of_def freed_def live_def)
  ultimately show ?case using rows by (intro exI [of _ rows]) (auto split: option.splits)
qed (auto intro: reach_refl assms)

lemma service_transition:
  assumes "ends from to" and "to = Released \<or> to = Expired" and "\<And>r. service (found r)" and "service missing"
  shows "service (bind (in_tx (set_state t i from to)) (\<lambda>row. case row of Some r \<Rightarrow> bind (restoreCounter r) (\<lambda>_. found r) | None \<Rightarrow> missing))"
proof (rule serviceI, rule hoare_bind [OF hoare_ends [OF _ assms(1,2)]], assumption, rule hoare_ex, rule hoare_fact, goal_cases)
  case (1 iv now row rows)
  note ok = 1
  have into: "holds none (with_rows iv rows) now w \<Longrightarrow> reach iv now w" for w
    using ok(3) by (auto simp: reach_def)
  show ?case
  proof (cases row)
    case None
    have "hoare (holds none (with_rows iv rows) now) missing (\<lambda>_. reach iv now) (\<lambda>_. reach iv now)"
      by (rule hoare_conseq [OF service_step [OF assms(4) ok(2)] into])
    with None show ?thesis by simp
  next
    case (Some r)
    have "hoare (holds (only (rv_tenant r, rv_wh r, rv_sku r) (rv_qty r)) (with_rows iv rows) now) (restoreCounter r) (\<lambda>_. reach iv now) (\<lambda>_. reach iv now)"
      by (rule hoare_conseq [OF hoare_restoreCounter [where E = "\<lambda>_ _. False"]]) (use ok Some into in auto)
    then have "hoare (holds (only (rv_tenant r, rv_wh r, rv_sku r) (rv_qty r)) (with_rows iv rows) now) (bind (restoreCounter r) (\<lambda>_. found r))
        (\<lambda>_. reach iv now) (\<lambda>_. reach iv now)"
      by (rule hoare_bind) (rule service_step [OF assms(3) ok(2)])
    with Some show ?thesis by simp
  qed
qed

lemma service_if: "(b \<Longrightarrow> service m) \<Longrightarrow> (\<not> b \<Longrightarrow> service n) \<Longrightarrow> service (if b then m else n)"
  by simp

lemma service_terminalConflict [triples]: "service (terminalConflict t i)"
  unfolding terminalConflict_def by (intro service_if service_bind triples)

lemma service_release [triples]: "service (release t i)"
  unfolding release_def
  by (intro service_if service_transition triples) (auto simp: ends_def state_step_def)

lemma hoare_commits:
  assumes "journal_ok (rows_of iv)"
  shows "hoare (holds none iv now) (in_tx (set_state t i [Held] Committed)) (\<lambda>_. reach iv now) (\<lambda>_. reach iv now)"
proof -
  have e: "ends [Held] Committed" by (simp add: ends_def state_step_def)
  show ?thesis
  proof (rule hoare_conseq [OF hoare_tx_set_state [OF assms e, of now t i]], goal_cases)
    case (2 row w)
    then obtain rows where "journal_ok rows" "evolves (rows_of iv) rows"
      "case row of None \<Rightarrow> True | Some r \<Rightarrow> rv_state r = Committed"
      "holds (case row of None \<Rightarrow> none | Some r \<Rightarrow> only (scope_of r) (freed r)) (with_rows iv rows) now w"
      by (auto split: option.splits)
    moreover have "only sc 0 = none" for sc by (simp add: only_def none_def)
    ultimately show ?case unfolding reach_def
      by (intro exI [of _ rows]) (auto simp: freed_def live_def split: option.splits)
  qed (auto intro: reach_refl assms)
qed

lemma service_commit [triples]: "service (commit t i)"
proof -
  have "service (in_tx (set_state t i [Held] Committed))" by (rule serviceI, rule hoare_commits)
  moreover have "service (case row of Some r \<Rightarrow> ret r | None \<Rightarrow> terminalConflict t i)" for row
    by (cases row) (simp_all add: service_basic service_terminalConflict)
  ultimately show ?thesis unfolding commit_def by (intro service_if service_bind triples)
qed

lemma service_expire_one [triples]: "service (expire_one hold)"
proof -
  have "service (bind (in_tx (set_state (rv_tenant hold) (rv_id hold) [Held, Committed] Expired))
      (\<lambda>row. case row of Some r \<Rightarrow> bind (restoreCounter r) (\<lambda>_. ret 1) | None \<Rightarrow> ret (0 :: nat)))"
    by (intro service_transition triples) (auto simp: ends_def state_step_def)
  moreover have "(\<lambda>row. case row of None \<Rightarrow> ret (0 :: nat) | Some r \<Rightarrow> bind (restoreCounter r) (\<lambda>_. ret 1)) =
      (\<lambda>row. case row of Some r \<Rightarrow> bind (restoreCounter r) (\<lambda>_. ret 1) | None \<Rightarrow> ret 0)" by (rule refl)
  ultimately show ?thesis unfolding expire_one_def by (intro service_attempt triples)
qed

lemma service_expire_all [triples]: "service (expire_all hs)"
  by (induction hs) (simp_all only: expire_all.simps, (intro service_bind triples | assumption)+)

lemma service_parity_divergent [triples]: "service (parity_divergent t wh skus)"
proof (induction skus)
  case Nil
  show ?case unfolding parity_divergent.simps by (rule service_basic)
next
  case (Cons p rest)
  obtain s reserved where p: "p = (s, reserved)" by (cases p)
  show ?case unfolding p parity_divergent.simps by (intro service_bind service_if triples Cons)
qed

lemma service_parityPass [triples]: "service parityPass"
proof -
  have one: "service (parity_warehouse g)" for g
    unfolding parity_warehouse_def split_beta by (intro service_attempt service_bind service_if triples)
  have "service (case groups of None \<Rightarrow> ret () | Some gs \<Rightarrow> for_each parity_warehouse gs)" for groups
    by (cases groups) (simp_all add: service_basic service_for_each one)
  then show ?thesis unfolding parityPass_def by (intro service_bind service_attempt triples)
qed

lemma service_expireDue [triples]: "service expireDue"
  unfolding expireDue_def by (intro service_bind triples)

text \<open>The operations that insert a row take a fresh id.\<close>

definition service_with :: "uuid \<Rightarrow> 'a op \<Rightarrow> bool" where
  "service_with i m = (\<forall>iv now. journal_ok (rows_of iv) \<longrightarrow> stock_ids_ok iv \<longrightarrow> i \<notin> rv_id ` set (rows_of iv) \<longrightarrow>
     hoare (holds none iv now) m (\<lambda>_. reach iv now) (\<lambda>_. reach iv now))"

lemma service_grant: "service_with newId (grant newId c)"
  unfolding service_with_def
proof (intro allI impI)
  fix iv now
  assume ok: "journal_ok (rows_of iv)" "stock_ids_ok iv" "newId \<notin> rv_id ` set (rows_of iv)"
  show "hoare (holds none iv now) (grant newId c) (\<lambda>_. reach iv now) (\<lambda>_. reach iv now)"
  proof (rule hoare_conseq [OF hoare_grant [OF ok, of now c]], goal_cases)
    case (2 r w)
    then show ?case
    proof
      assume "settled_hold iv c r \<and> holds none iv now w"
      with ok show ?thesis by (auto intro: reach_refl)
    next
      assume "new_hold iv now newId c r \<and> holds none (with_rows iv (rows_of iv @ [r])) now w"
      with evolves_append show ?thesis unfolding reach_def new_hold_def by blast
    qed
  qed (auto intro: reach_refl ok)
qed

end
