(* ===== verification/ReservationBufferService.thy ===== *)
theory ReservationBufferService
  imports ReservationService
begin

text \<open>
  The standing buffers and the repairing reads keep the service's contract too: raising a buffer journals
  the units the script took, lowering one gives back the difference after the release-then-re-grant pair.
\<close>

section \<open>Raising a standing buffer\<close>

definition buffer_ok :: "buffer_command \<Rightarrow> bool" where
  "buffer_ok c = (uuid_shape (bc_tenant c) \<and> uuid_shape (bc_wh c) \<and> uuid_shape (bc_sku c) \<and> 0 \<le> bc_target c)"

definition buffer_scope :: "buffer_command \<Rightarrow> stock_scope" where
  "buffer_scope c = (bc_tenant c, bc_wh c, bc_sku c)"

definition buffer_owner :: "buffer_command \<Rightarrow> owner_scope" where
  "buffer_owner c = (bc_tenant c, bc_wh c, bc_sku c, BUFFER_OWNER_TYPE, bc_owner c)"

lemma buffer_grant_scope: "command_scope (buffer_grant c) = buffer_owner c" "grant_scope (buffer_grant c) = buffer_scope c"
  by (simp_all add: command_scope_def buffer_grant_def buffer_owner_def grant_scope_def buffer_scope_def)

lemma buffer_command_ok: "buffer_ok c \<Longrightarrow> bc_target c \<noteq> 0 \<Longrightarrow> command_ok (buffer_grant c)"
  by (auto simp: buffer_ok_def command_ok_def buffer_grant_def)

text \<open>What a fresh probe says of the standing row.\<close>

definition probe_fresh :: "inventory_db \<Rightarrow> buffer_command \<Rightarrow> buffer_probe \<Rightarrow> bool" where
  "probe_fresh iv c p = (bp_existing p = find (\<lambda>r. owner_scope_of r = buffer_owner c \<and> rv_state r = Held) (rows_of iv))"

lemma probe_is_fresh: "holds e iv now w \<Longrightarrow> probe_fresh iv c (probe_buffer c w)"
  by (simp add: probe_fresh_def probe_buffer_def findOpenHold_def holds_journal buffer_grant_scope)

lemma replace_holds:
  assumes "holds e iv now w" and "rows_of iv = xs @ r # ys" and "rows_of iv' = xs @ r' # ys @ new"
    and "iv' = with_rows iv (rows_of iv')"
    and "\<And>sc. well_formed sc \<Longrightarrow> (if scope_of r' = sc \<and> live r' then rv_qty r' else 0) + sum_of sc new + e' sc
        \<le> (if scope_of r = sc \<and> live r then rv_qty r else 0) + e sc"
  shows "holds e' iv' now (set_journal (rows_of iv') w)"
proof -
  have sums: "sum_of sc (xs @ r' # ys @ new) + e' sc \<le> sum_of sc (xs @ r # ys) + e sc" if "well_formed sc" for sc
    using assms(5) [OF that] by (cases sc) (simp add: sum_of_replace reserved_sum_def)
  have iv: "wd_iv w = iv" using assms(1) by (simp add: holds_def)
  have "holds e iv now (set_journal (rows_of iv') w\<lparr>wd_iv := iv\<rparr>)" by (rule holds_with_rows [OF assms(1)])
  moreover have "wd_iv (set_journal (rows_of iv') w) = with_rows iv (rows_of iv')" by (simp add: set_journal_def iv)
  ultimately have "holds e' (with_rows iv (rows_of iv')) now (set_journal (rows_of iv') w)"
    by (rule holds_rows) (use sums assms(2,3) in simp)
  with assms(4) show ?thesis by simp
qed

lemma sum_of_Nil: "sum_of sc [] = 0"
  by (cases sc) (simp add: reserved_sum_def)

lemma owner_scope_stock: "owner_scope_of r = buffer_owner c \<Longrightarrow> scope_of r = buffer_scope c \<and> rv_owner_type r = BUFFER_OWNER_TYPE \<and>
    rv_owner r = bc_owner c \<and> rv_tenant r = bc_tenant c"
  by (simp add: owner_scope_of_def buffer_owner_def scope_of_def buffer_scope_def)

lemma reachI:
  assumes "journal_ok (rows_of iv')" and "evolves (rows_of iv) (rows_of iv')" and "iv' = with_rows iv (rows_of iv')" and "holds none iv' now w"
  shows "reach iv now w"
  unfolding reach_def using assms by (intro exI [of _ "rows_of iv'"]) simp

lemma grow_spec:
  assumes "journal_ok (rows_of iv)" and "existing \<in> set (rows_of iv)" and "rv_state existing = Held" and "owner_scope_of existing = buffer_owner c"
    and "rv_qty existing \<le> bc_target c" and "holds (only (buffer_scope c) (bc_target c - rv_qty existing)) iv now w"
    and "grow_row c existing w = (r, w')"
  shows "(\<exists>row. r = Inr (Some row)) \<and> reach iv now w' \<and> wd_iv w' = wd_iv w\<lparr>iv_reservations := rows_of (wd_iv w')\<rparr> \<and> w' = w\<lparr>wd_iv := wd_iv w'\<rparr>"
proof -
  let ?P = "\<lambda>r. rv_tenant r = bc_tenant c \<and> rv_owner_type r = BUFFER_OWNER_TYPE \<and> rv_owner r = bc_owner c \<and> rv_state r = Held"
  let ?g = "rv_qty_update (\<lambda>_. bc_target c)"
  have j: "journal w = rows_of iv" by (rule holds_journal [OF assms(6)])
  have dist: "distinct (map rv_id (rows_of iv))" using assms(1) by (simp add: journal_ok_def)
  have ex: "existing = x" if "x \<in> set (rows_of iv)" "rv_id x = rv_id existing" for x
    using dist assms(2) that by (metis distinct_map inj_on_eq_iff)
  have "find (\<lambda>r. rv_id r = rv_id existing \<and> ?P r) (rows_of iv) \<noteq> None"
    using assms(2-4) owner_scope_stock [OF assms(4)] by (auto simp: find_None_iff)
  then obtain x where x: "find (\<lambda>r. rv_id r = rv_id existing \<and> ?P r) (rows_of iv) = Some x" by blast
  have "x \<in> set (rows_of iv)" "rv_id x = rv_id existing" using find_SomeD [OF x] by simp_all
  then have "x = existing" by (rule ex [symmetric])
  with x have found: "find (\<lambda>r. rv_id r = rv_id existing \<and> ?P r) (rows_of iv) = Some existing" by simp
  obtain xs ys where rows: "rows_of iv = xs @ existing # ys"
      "update_where (\<lambda>r. rv_id r = rv_id existing \<and> ?P r) ?g (rows_of iv) = xs @ ?g existing # ys"
    using update_one [OF dist found] by blast
  let ?iv = "with_rows iv (xs @ ?g existing # ys)"
  have w': "w' = set_journal (xs @ ?g existing # ys) w" and r: "r = Inr (Some (?g existing))"
    using assms(7) rows(2) found by (auto simp: grow_row_def Let_def j)
  have ok: "row_ok existing" using assms(1,2) by (simp add: journal_ok_def)
  have stock: "scope_of existing = buffer_scope c" "scope_of (?g existing) = buffer_scope c"
    using owner_scope_stock [OF assms(4)] by (simp_all add: scope_of_def buffer_scope_def)
  have "journal_ok (xs @ ?g existing # ys)"
    by (rule journal_ok_replace [of xs existing ys])
      (use assms(1,3,5) rows(1) ok in \<open>auto simp: owner_scope_of_def row_ok_def\<close>)
  moreover have "evolves (rows_of iv) (xs @ ?g existing # ys)"
    unfolding rows(2) [symmetric]
    by (rule evolves_update) (auto simp: row_step_def owner_scope_of_def state_step_def)
  moreover have "holds none ?iv now (set_journal (rows_of ?iv) w)"
    by (rule replace_holds [OF assms(6) rows(1), of ?iv "?g existing" "[]" none])
      (simp_all add: stock live_def assms(3) sum_of_Nil only_def)
  ultimately have "reach iv now w'" by (intro reachI [of ?iv]) (simp_all add: w')
  then show ?thesis by (simp add: r w' set_journal_def)
qed

lemma service_tx:
  assumes "\<And>w r w'. holds e iv now w \<Longrightarrow> body w = (r, w') \<Longrightarrow>
      (case r of Inl _ \<Rightarrow> True | Inr _ \<Rightarrow> holds_after w') \<and> wd_store w' = wd_store w \<and> wd_txs w' = wd_txs w \<and> wd_now w' = wd_now w"
    and "\<And>w fs. holds_after w \<Longrightarrow> set fs \<subseteq> set (wd_txs w) \<Longrightarrow> holds_after (w\<lparr>wd_txs := fs\<rparr>)"
  shows "hoare (holds e iv now) (in_tx body) (\<lambda>_. holds_after) (\<lambda>_. holds e iv now)"
proof (rule hoare_in_tx)
  show "hoare (holds e iv now) body (\<lambda>v w. holds_after w \<and> holds e iv now (w\<lparr>wd_iv := iv\<rparr>)) (\<lambda>_ w. holds e iv now (w\<lparr>wd_iv := iv\<rparr>))"
  proof (rule hoareI)
    show "holds_after w' \<and> holds e iv now (w'\<lparr>wd_iv := iv\<rparr>)" if "holds e iv now w" "body w = (Inr v, w')" for w v w'
      using assms(1) [OF that] that(1) by (simp add: holds_def)
    show "holds e iv now (w'\<lparr>wd_iv := iv\<rparr>)" if "holds e iv now w" "body w = (Inl v, w')" for w v w'
      using assms(1) [OF that] that(1) by (simp add: holds_def)
  qed
qed (rule assms(2))

lemma reach_txs: "reach iv now w \<Longrightarrow> set fs \<subseteq> set (wd_txs w) \<Longrightarrow> reach iv now (w\<lparr>wd_txs := fs\<rparr>)"
  by (fastforce simp: reach_def holds_def)

text \<open>The insert of a hold, as an equation on the world.\<close>

lemma insert_spec:
  assumes "journal_ok (rows_of iv)" and "rv_id row \<notin> rv_id ` set (rows_of iv)" and "row_ok row" and "rv_state row = Held"
    and "holds (only (scope_of row) (rv_qty row)) iv now w" and "insert_hold row w = (r, w')"
  shows "(case r of Inl _ \<Rightarrow> w' = w | Inr _ \<Rightarrow> reach iv now w') \<and> wd_store w' = wd_store w \<and> wd_txs w' = wd_txs w \<and> wd_now w' = wd_now w"
proof (cases r)
  case (Inl e)
  with assms(6) show ?thesis by (auto simp: insert_hold_def split: if_splits)
next
  case (Inr x)
  then have "reach iv now w'"
    using hoareD(1) [OF hoare_insert_hold [OF assms(1-4)] assms(5)] assms(6) evolves_append unfolding reach_def by blast
  moreover have "wd_store w' = wd_store w \<and> wd_txs w' = wd_txs w \<and> wd_now w' = wd_now w"
    using assms(6) by (auto simp: insert_hold_def set_journal_def split: if_splits)
  ultimately show ?thesis using Inr by simp
qed

lemma raise_buffer_spec:
  assumes "journal_ok (rows_of iv)" and "newId \<notin> rv_id ` set (rows_of iv)" and "buffer_ok c" and "probe_fresh iv c p"
    and "previous_milli p < bc_target c" and "holds (only (buffer_scope c) (bc_target c - previous_milli p)) iv now w"
    and "raise_buffer newId c p w = (r, w')"
  shows "(case r of Inl _ \<Rightarrow> True | Inr _ \<Rightarrow> reach iv now w') \<and> wd_store w' = wd_store w \<and> wd_txs w' = wd_txs w \<and> wd_now w' = wd_now w"
proof (cases "bp_existing p")
  case None
  then have prev: "previous_milli p = 0" by (simp add: previous_milli_def)
  have cok: "command_ok (buffer_grant c)" using assms(3,5) prev by (intro buffer_command_ok) auto
  have run: "(r, w') = (if journalReservedSum (bc_tenant c) (bc_wh c) (bc_sku c) w + bc_target c > ceiling_now (bc_tenant c) (bc_wh c) (bc_sku c) w
      then (Inl unavailable, w) else insert_hold (hold_row newId (buffer_grant c) 0) w)"
    using assms(7) None prev by (auto simp: raise_buffer_def bind_def split: if_splits)
  have q: "rv_qty (hold_row newId (buffer_grant c) 0) = bc_target c" by (simp add: buffer_grant_def)
  show ?thesis
    using run insert_spec [OF assms(1) _ hold_row_ok [OF cok], of newId 0 now w r w'] assms(2,6) prev q
    by (auto simp: buffer_grant_scope split: if_splits sum.splits)
next
  case (Some existing)
  then have ex: "existing \<in> set (rows_of iv)" "rv_state existing = Held" "owner_scope_of existing = buffer_owner c"
    using assms(4) find_SomeD [of _ "rows_of iv" existing] by (auto simp: probe_fresh_def)
  have prev: "previous_milli p = rv_qty existing" using Some by (simp add: previous_milli_def)
  have run: "(r, w') = (if journalReservedSum (bc_tenant c) (bc_wh c) (bc_sku c) w + (bc_target c - rv_qty existing) > ceiling_now (bc_tenant c) (bc_wh c) (bc_sku c) w
      then (Inl unavailable, w) else bind (grow_row c existing) (\<lambda>row. case row of Some r \<Rightarrow> ret r | None \<Rightarrow> raise conflict) w)"
    using assms(7) Some prev by (auto simp: raise_buffer_def bind_def split: if_splits)
  obtain g gw where g: "grow_row c existing w = (g, gw)" by (cases "grow_row c existing w")
  have le: "rv_qty existing \<le> bc_target c" using assms(5) prev by simp
  obtain row where spec: "g = Inr (Some row)" "reach iv now gw" "gw = w\<lparr>wd_iv := wd_iv gw\<rparr>"
    using grow_spec [OF assms(1) ex le _ g] assms(6) prev by metis
  have frame: "wd_store gw = wd_store w \<and> wd_txs gw = wd_txs w \<and> wd_now gw = wd_now w"
    using arg_cong [OF spec(3), of wd_store] arg_cong [OF spec(3), of wd_txs] arg_cong [OF spec(3), of wd_now] by simp
  have "bind (grow_row c existing) (\<lambda>row. case row of Some r \<Rightarrow> ret r | None \<Rightarrow> raise conflict) w = (Inr row, gw)"
    using g spec(1) by (simp add: bind_def)
  with run spec(2) frame show ?thesis by (auto split: if_splits)
qed

lemma hoare_raise_buffer:
  assumes "journal_ok (rows_of iv)" and "newId \<notin> rv_id ` set (rows_of iv)" and "buffer_ok c" and "probe_fresh iv c p"
    and "previous_milli p < bc_target c"
  shows "hoare (holds (only (buffer_scope c) (bc_target c - previous_milli p)) iv now) (in_tx (raise_buffer newId c p)) (\<lambda>_. reach iv now)
    (\<lambda>_. holds (only (buffer_scope c) (bc_target c - previous_milli p)) iv now)"
  by (rule service_tx [OF raise_buffer_spec [OF assms] reach_txs])

lemma service_increase:
  assumes "journal_ok (rows_of iv)" and "stock_ids_ok iv" and "newId \<notin> rv_id ` set (rows_of iv)" and "buffer_ok c" and "probe_fresh iv c p"
    and "previous_milli p < bc_target c"
  shows "hoare (holds none iv now) (increaseStandingBuffer newId c p) (\<lambda>_. reach iv now) (\<lambda>_. reach iv now)"
  unfolding increaseStandingBuffer_def Let_def
proof (rule hoare_bind)
  let ?delta = "bc_target c - previous_milli p"
  let ?H = "holds (only (buffer_scope c) ?delta) iv now"
  have wf: "well_formed (bc_tenant c, bc_wh c, bc_sku c)" using assms(4) by (simp add: buffer_ok_def)
  have kept: "holds none iv now w \<Longrightarrow> reach iv now w" for w by (rule reach_refl [OF assms(1)])
  show "hoare (holds none iv now) (runGrantScript (bc_tenant c) (bc_wh c) (bc_sku c) ?delta (bp_ceiling p))
      (\<lambda>outcome. holds (granted_extra (bc_tenant c, bc_wh c, bc_sku c) ?delta outcome) iv now) (\<lambda>_. reach iv now)"
    by (rule hoare_conseq [OF hoare_runGrantScript [OF assms(1,2) wf]]) (auto intro: kept)
  have journalled: "hoare ?H (attempt (bind (in_tx (raise_buffer newId c p)) (\<lambda>r. ret (Some r))) (\<lambda>err.
        bind (compensate (reservationCounterKey (bc_tenant c) (bc_wh c) (bc_sku c)) ?delta) (\<lambda>_.
        raise (if err = open_owner_scope_unique then conflict else err)))) (\<lambda>_. reach iv now) (\<lambda>_. reach iv now)"
  proof (rule hoare_attempt)
    show "hoare ?H (bind (in_tx (raise_buffer newId c p)) (\<lambda>r. ret (Some r))) (\<lambda>_. reach iv now) (\<lambda>_. ?H)"
      by (rule hoare_bind [OF hoare_raise_buffer [OF assms(1,3-6)]], rule hoare_ret)
    show "hoare ?H (bind (compensate (reservationCounterKey (bc_tenant c) (bc_wh c) (bc_sku c)) ?delta) (\<lambda>_.
        raise (if err = open_owner_scope_unique then conflict else err))) (\<lambda>_. reach iv now) (\<lambda>_. reach iv now)" for err
      by (rule hoare_bind, rule hoare_compensate [OF assms(1) wf, of ?delta, folded buffer_scope_def], use assms(6) in simp,
        rule hoare_raise, rule kept)
  qed
  fix outcome
  show "hoare (holds (granted_extra (bc_tenant c, bc_wh c, bc_sku c) ?delta outcome) iv now)
      (if outcome = StoreDown then raise reservationStoreUnavailable
       else if outcome \<noteq> Granted then raise unavailable
       else attempt (bind (in_tx (raise_buffer newId c p)) (\<lambda>r. ret (Some r))) (\<lambda>err.
        bind (compensate (reservationCounterKey (bc_tenant c) (bc_wh c) (bc_sku c)) ?delta) (\<lambda>_.
        raise (if err = open_owner_scope_unique then conflict else err)))) (\<lambda>_. reach iv now) (\<lambda>_. reach iv now)"
    using journalled
    by (cases outcome) (auto simp: granted_extra_def buffer_scope_def intro!: hoare_raise kept)
qed

section \<open>Lowering a standing buffer\<close>

lemma lower_buffer_spec:
  assumes "journal_ok (rows_of iv)" and "newId \<notin> rv_id ` set (rows_of iv)" and "buffer_ok c"
    and "existing \<in> set (rows_of iv)" and "rv_state existing = Held" and "owner_scope_of existing = buffer_owner c"
    and "bc_target c < rv_qty existing" and "holds none iv now w" and "lower_buffer newId c existing w = (r, w')"
  shows "(case r of Inl _ \<Rightarrow> True | Inr _ \<Rightarrow> \<exists>rows. (journal_ok rows \<and> evolves (rows_of iv) rows) \<and>
      holds (only (buffer_scope c) (rv_qty existing - bc_target c)) (with_rows iv rows) now w') \<and>
    wd_store w' = wd_store w \<and> wd_txs w' = wd_txs w \<and> wd_now w' = wd_now w"
proof (cases "uuid_shape (rv_id existing)")
  case False
  with assms(9) show ?thesis by (auto simp: lower_buffer_def bind_def releaseFromStateInTx_def)
next
  case True
  let ?P = "\<lambda>r. rv_tenant r = bc_tenant c \<and> rv_state r \<in> set [Held]"
  let ?g = "rv_state_update (\<lambda>_. Released)"
  have j: "journal w = rows_of iv" by (rule holds_journal [OF assms(8)])
  have dist: "distinct (map rv_id (rows_of iv))" using assms(1) by (simp add: journal_ok_def)
  have "find (\<lambda>r. rv_id r = rv_id existing \<and> ?P r) (rows_of iv) \<noteq> None"
    using assms(4,5) owner_scope_stock [OF assms(6)] by (auto simp: find_None_iff)
  then obtain x where x: "find (\<lambda>r. rv_id r = rv_id existing \<and> ?P r) (rows_of iv) = Some x" by blast
  have "x \<in> set (rows_of iv)" "rv_id x = rv_id existing" using find_SomeD [OF x] by simp_all
  then have "x = existing" using dist assms(4) by (metis distinct_map inj_on_eq_iff)
  with x have found: "find (\<lambda>r. rv_id r = rv_id existing \<and> ?P r) (rows_of iv) = Some existing" by simp
  obtain xs ys where rows: "rows_of iv = xs @ existing # ys"
      "update_where (\<lambda>r. rv_id r = rv_id existing \<and> ?P r) ?g (rows_of iv) = xs @ ?g existing # ys"
    using update_one [OF dist found] by blast
  let ?rows = "xs @ ?g existing # ys"
  have ok: "row_ok existing" using assms(1,4) by (simp add: journal_ok_def)
  have stock: "scope_of existing = buffer_scope c" "scope_of (?g existing) = buffer_scope c"
    using owner_scope_stock [OF assms(6)] by (simp_all add: scope_of_def buffer_scope_def)
  have jok: "journal_ok ?rows"
    by (rule journal_ok_replace [of xs existing ys]) (use assms(1) rows(1) ok in \<open>auto simp: owner_scope_of_def row_ok_def\<close>)
  have ev: "evolves (rows_of iv) ?rows"
    unfolding rows(2) [symmetric] by (rule evolves_update) (auto simp: row_step_def owner_scope_of_def state_step_def)
  have rel: "releaseFromStateInTx (bc_tenant c) (rv_id existing) Held w = (Inr (?g existing), set_journal ?rows w)"
    using True found rows(2) by (simp add: releaseFromStateInTx_def bind_def set_state_def Let_def j)
  show ?thesis
  proof (cases "bc_target c = 0")
    case zero: True
    have run: "r = Inr None" "w' = set_journal ?rows w" using assms(9) rel zero by (auto simp: lower_buffer_def bind_def)
    let ?iv = "with_rows iv ?rows"
    have "holds (only (buffer_scope c) (rv_qty existing)) ?iv now (set_journal (rows_of ?iv) w)"
      by (rule replace_holds [OF assms(8) rows(1), of ?iv "?g existing" "[]"])
        (simp_all add: stock live_def assms(5) sum_of_Nil only_def)
    with run jok ev zero show ?thesis by (auto simp: set_journal_def)
  next
    case target: False
    have cok: "command_ok (buffer_grant c)" by (rule buffer_command_ok [OF assms(3) target])
    let ?row = "(hold_row newId (buffer_grant c) (wd_now w))\<lparr>rv_expires := None\<rparr>"
    let ?iv = "with_rows iv (?rows @ [?row])"
    have open_owner: "\<not> list_ex (\<lambda>r. rv_state r = Held \<and> owner_scope_of r = buffer_owner c) ?rows"
    proof
      assume "list_ex (\<lambda>r. rv_state r = Held \<and> owner_scope_of r = buffer_owner c) ?rows"
      then obtain r where r: "r \<in> set (held xs) \<union> set (held ys)" "owner_scope_of r = buffer_owner c"
        by (auto simp: list_ex_iff held_def)
      have "buffer_owner c \<notin> owner_scope_of ` (set (held xs) \<union> set (held ys))"
        using assms(1,5,6) rows(1) by (auto simp: journal_ok_def held_split)
      with r show False by (metis image_eqI)
    qed
    have row: "row_ok ?row" "rv_state ?row = Held" "rv_id ?row = newId" "owner_scope_of ?row = buffer_owner c" "scope_of ?row = buffer_scope c"
      "rv_qty ?row = bc_target c"
      using hold_row_ok [OF cok, of newId "wd_now w"] buffer_grant_scope [of c]
      by (simp_all add: row_ok_def hold_row_def buffer_grant_def owner_scope_of_def scope_of_def buffer_owner_def buffer_scope_def command_scope_def)
    have none_open: "findOpenHold (buffer_owner c) (set_journal ?rows w) = None"
      using open_owner by (auto simp: findOpenHold_def journal_def set_journal_def find_None_iff list_ex_iff)
    have "owner_scope_of (?g existing) = buffer_owner c" using assms(6) by (simp add: owner_scope_of_def)
    then have "regrantSmallerInTx newId (buffer_grant c) (?g existing) (set_journal ?rows w) = bind (insert_hold ?row) (\<lambda>row. ret (Some row)) (set_journal ?rows w)"
      using assms(7) none_open by (simp add: regrantSmallerInTx_def buffer_grant_scope bind_def) (simp add: buffer_grant_def set_journal_def)
    moreover have "insert_hold ?row (set_journal ?rows w) = (Inr ?row, set_journal (?rows @ [?row]) w)"
      using open_owner row(4) by (simp add: insert_hold_def journal_def set_journal_def)
    ultimately have run: "r = Inr (Some ?row)" "w' = set_journal (?rows @ [?row]) w"
      using assms(9) rel target by (auto simp: lower_buffer_def bind_def)
    have fresh: "newId \<notin> rv_id ` set ?rows" using assms(2) rows(1) by auto
    have "journal_ok (?rows @ [?row])"
      by (rule journal_ok_insert [OF jok]) (use open_owner row fresh in simp_all)
    moreover have "evolves (rows_of iv) (?rows @ [?row])" by (rule evolves_trans [OF ev evolves_append])
    moreover have "holds (only (buffer_scope c) (rv_qty existing - bc_target c)) ?iv now (set_journal (rows_of ?iv) w)"
      by (rule replace_holds [OF assms(8) rows(1), of ?iv "?g existing" "[?row]"])
        (use row sum_of_snoc [of _ "[]" ?row] in \<open>simp_all add: stock live_def assms(5) sum_of_Nil only_def\<close>)
    ultimately show ?thesis using run by (auto simp: set_journal_def intro!: exI [of _ "?rows @ [?row]"])
  qed
qed

lemma service_decrease:
  assumes "journal_ok (rows_of iv)" and "stock_ids_ok iv" and "newId \<notin> rv_id ` set (rows_of iv)" and "buffer_ok c" and "probe_fresh iv c p"
    and "bc_target c < previous_milli p"
  shows "hoare (holds none iv now) (decreaseStandingBuffer newId c p) (\<lambda>_. reach iv now) (\<lambda>_. reach iv now)"
proof (cases "bp_existing p")
  case None
  then show ?thesis unfolding decreaseStandingBuffer_def by (auto intro!: hoare_raise reach_refl [OF assms(1)])
next
  case (Some existing)
  then have ex: "existing \<in> set (rows_of iv)" "rv_state existing = Held" "owner_scope_of existing = buffer_owner c"
    using assms(5) find_SomeD [of _ "rows_of iv" existing] by (auto simp: probe_fresh_def)
  have prev: "previous_milli p = rv_qty existing" using Some by (simp add: previous_milli_def)
  have lt: "bc_target c < rv_qty existing" using assms(6) prev by simp
  have wf: "well_formed (bc_tenant c, bc_wh c, bc_sku c)" using assms(4) by (simp add: buffer_ok_def)
  let ?delta = "rv_qty existing - bc_target c"
  let ?after = "\<lambda>w. \<exists>rows. (journal_ok rows \<and> evolves (rows_of iv) rows) \<and> holds (only (buffer_scope c) ?delta) (with_rows iv rows) now w"
  have lowered: "hoare (holds none iv now) (in_tx (lower_buffer newId c existing)) (\<lambda>_. ?after) (\<lambda>_. reach iv now)"
  proof (rule hoare_conseq [OF service_tx [OF lower_buffer_spec [OF assms(1,3,4) ex lt]]])
    show "?after (w\<lparr>wd_txs := fs\<rparr>)" if "?after w" "set fs \<subseteq> set (wd_txs w)" for w fs
      using that by (fastforce simp: holds_def)
  qed (auto intro: reach_refl [OF assms(1)])
  have restored: "hoare ?after (restoreReservedUnits (bc_tenant c) (bc_wh c) (bc_sku c) (previous_milli p - bc_target c)) (\<lambda>_. reach iv now) (\<lambda>_. reach iv now)"
  proof (intro hoare_ex hoare_fact)
    fix rows
    assume rows: "journal_ok rows \<and> evolves (rows_of iv) rows"
    have "hoare (holds (only (buffer_scope c) ?delta) (with_rows iv rows) now)
        (attempt (bind (releaseReservation (reservationCounterKey (bc_tenant c) (bc_wh c) (bc_sku c)) ?delta) (\<lambda>_. ret ())) (\<lambda>_. ret ()))
        (\<lambda>_. reach iv now) (\<lambda>_. reach iv now)"
      unfolding buffer_scope_def
      by (rule hoare_attempt, rule hoare_bind, rule hoare_releaseReservation [OF wf])
        (use lt rows in \<open>auto intro!: hoare_ret simp: reach_def\<close>)
    then show "hoare (holds (only (buffer_scope c) ?delta) (with_rows iv rows) now)
        (restoreReservedUnits (bc_tenant c) (bc_wh c) (bc_sku c) (previous_milli p - bc_target c)) (\<lambda>_. reach iv now) (\<lambda>_. reach iv now)"
      using lt by (simp add: restoreReservedUnits_def prev)
  qed
  show ?thesis
    unfolding decreaseStandingBuffer_def Some option.case
    by (rule hoare_attempt, rule hoare_bind [OF lowered], rule hoare_bind [OF restored], rule hoare_ret, assumption, rule hoare_raise)
qed

lemma service_apply: "service_with newId (applyStandingBuffer newId c)"
  unfolding service_with_def
proof (intro allI impI)
  fix iv now
  assume ok: "journal_ok (rows_of iv)" "stock_ids_ok iv" "newId \<notin> rv_id ` set (rows_of iv)"
  have kept: "holds none iv now w \<Longrightarrow> reach iv now w" for w by (rule reach_refl [OF ok(1)])
  have req: "hoare (holds none iv now) (lift (require b e)) (\<lambda>_ w. b \<and> holds none iv now w) (\<lambda>_. reach iv now)" for b e
    by (rule hoare_lift) (auto intro: kept)
  have probe: "hoare (holds none iv now) (in_tx (read (probe_buffer c)))
      (\<lambda>p w. (\<exists>w0. holds none iv now w0 \<and> p = probe_buffer c w0) \<and> holds none iv now w) (\<lambda>_. reach iv now)"
    by (rule hoare_conseq [OF hoare_tx_read]) (auto intro: kept)
  show "hoare (holds none iv now) (applyStandingBuffer newId c) (\<lambda>_. reach iv now) (\<lambda>_. reach iv now)"
    unfolding applyStandingBuffer_def requireUuid_def
  proof (rule hoare_bind [OF req], rule hoare_fact, rule hoare_bind [OF req], rule hoare_fact, rule hoare_bind [OF req], rule hoare_fact,
      rule hoare_bind [OF req], rule hoare_fact, rule hoare_bind [OF req], rule hoare_fact,
      rule hoare_bind [OF probe], rule hoare_fact, goal_cases)
    case (1 _ _ _ _ _ p)
    have bok: "buffer_ok c" using 1 by (simp add: buffer_ok_def)
    have fresh: "probe_fresh iv c p" using 1(6) probe_is_fresh by blast
    show ?case
    proof (rule hoare_if)
      show "hoare (holds none iv now) (ret (previous_milli p, bp_existing p)) (\<lambda>_. reach iv now) (\<lambda>_. reach iv now)"
        by (rule hoare_ret) (rule kept)
      assume ne: "bc_target c \<noteq> previous_milli p"
      show "hoare (holds none iv now) (bind (if bc_target c > previous_milli p then increaseStandingBuffer newId c p else decreaseStandingBuffer newId c p)
          (\<lambda>row. ret (previous_milli p, row))) (\<lambda>_. reach iv now) (\<lambda>_. reach iv now)"
        by (rule hoare_bind, rule hoare_if, erule service_increase [OF ok bok fresh], rule service_decrease [OF ok bok fresh], use ne in simp,
          rule hoare_ret)
    qed
  qed
qed

section \<open>The reads that repair\<close>

lemma keeps_seed:
  assumes "well_formed (t, wh, s)" and "\<And>n. keeps (holds none iv now) (k n)"
  shows "keeps (holds none iv now) (bind (in_tx (read (journalReservedSum t wh s))) (\<lambda>total.
    bind (setCounter (reservationCounterKey t wh s) total False) (\<lambda>_. k total)))"
proof (rule hoare_bind [OF hoare_tx_read], rule hoare_fact, goal_cases)
  case (1 total)
  then have "total = reserved_sum t wh s (rows_of iv)" by (auto simp: journalReservedSum_def holds_journal)
  then show ?case by (intro keeps_bind keeps_setCounter [OF assms(1)] assms(2)) simp
qed

lemma keeps_atp:
  assumes ok: "journal_ok (rows_of iv)" "stock_ids_ok iv"
  shows "keeps (holds none iv now) (atp t wh s)"
proof -
  have counter: "keeps (holds none iv now) (case current of Some n \<Rightarrow> ret n
      | None \<Rightarrow> bind (in_tx (read (journalReservedSum t wh s))) (\<lambda>total.
          bind (setCounter (reservationCounterKey t wh s) total False) (\<lambda>_.
          bind (getCounter (reservationCounterKey t wh s)) (\<lambda>again. ret (case again of None \<Rightarrow> total | Some n \<Rightarrow> n)))))"
    if "uuid_shape t" "uuid_shape wh" "uuid_shape s" for current
    using keeps_seed [of t wh s iv now "\<lambda>total. bind (getCounter (reservationCounterKey t wh s)) (\<lambda>again. ret (case again of None \<Rightarrow> total | Some n \<Rightarrow> n))"] that
    by (cases current) (simp_all add: keeps_basic keeps_bind keeps_getCounter)
  show ?thesis
    unfolding atp_def
    by (rule hoare_bind [OF hoare_requireUuid], rule hoare_fact, rule hoare_bind [OF hoare_requireUuid], rule hoare_fact,
        rule hoare_bind [OF hoare_requireUuid], rule hoare_fact, unfold split_beta,
        intro keeps_bind keeps_attempt hoare_if keeps_basic triples ok counter)
qed

lemma service_atp [triples]: "service (atp t wh s)"
  by (rule service_keeps) (rule keeps_atp)

lemma service_channelVisibleQuantity [triples]: "service (channelVisibleQuantity t wh s owner)"
  unfolding channelVisibleQuantity_def by (intro service_bind triples)

end
