(* ===== verification/ReservationProperties.thy ===== *)
theory ReservationProperties
  imports ReservationBufferService
begin

text \<open>
  The reservation service over time: every run of its operations, with the stock tables, the clock and
  the store's keys changing between them and any of its calls failing. The service's contract becomes an
  invariant of all runs, and the safety properties are read off it.
\<close>

section \<open>Histories\<close>

datatype service_call =
    CallGrant uuid grant_command
  | CallCommit uuid uuid
  | CallRelease uuid uuid
  | CallExpireDue
  | CallRebuild uuid "uuid option"
  | CallAtp uuid uuid uuid
  | CallVisible uuid uuid uuid string
  | CallBuffer uuid buffer_command

definition after :: "'a op \<Rightarrow> world \<Rightarrow> world" where
  "after m w = snd (m w)"

primrec run_call :: "service_call \<Rightarrow> world \<Rightarrow> world" where
  "run_call (CallGrant i c) = after (grant i c)"
| "run_call (CallCommit t i) = after (commit t i)"
| "run_call (CallRelease t i) = after (release t i)"
| "run_call CallExpireDue = after expireDue"
| "run_call (CallRebuild t wh) = after (rebuildCounters t wh)"
| "run_call (CallAtp t wh s) = after (atp t wh s)"
| "run_call (CallVisible t wh s o') = after (channelVisibleQuantity t wh s o')"
| "run_call (CallBuffer i c) = after (applyStandingBuffer i c)"

primrec new_id :: "service_call \<Rightarrow> uuid option" where
  "new_id (CallGrant i c) = Some i"
| "new_id (CallCommit t i) = None"
| "new_id (CallRelease t i) = None"
| "new_id CallExpireDue = None"
| "new_id (CallRebuild t wh) = None"
| "new_id (CallAtp t wh s) = None"
| "new_id (CallVisible t wh s o') = None"
| "new_id (CallBuffer i c) = Some i"

text \<open>
  A run of the service: its operations one after the other, each with any fates for its store calls and
  with transactions that commit or abort, and between them whatever happens to the stock tables, the
  clock and the store's keys (which may vanish). New ids are fresh.
\<close>

inductive reservation_history :: "world \<Rightarrow> bool" where
  start: "journal w = [] \<Longrightarrow> wd_store w = (\<lambda>_. None) \<Longrightarrow> ReplyLost \<notin> set (wd_txs w) \<Longrightarrow> stock_ids_ok (wd_iv w) \<Longrightarrow>
    reservation_history w"
| call: "reservation_history w \<Longrightarrow> (\<And>i. new_id k = Some i \<Longrightarrow> i \<notin> rv_id ` set (journal w)) \<Longrightarrow> reservation_history (run_call k w)"
| environment: "reservation_history w \<Longrightarrow> journal w' = journal w \<Longrightarrow> stock_ids_ok (wd_iv w') \<Longrightarrow>
    (\<forall>key. wd_store w' key = None \<or> wd_store w' key = wd_store w key) \<Longrightarrow> ReplyLost \<notin> set (wd_txs w') \<Longrightarrow> reservation_history w'"

definition good :: "world \<Rightarrow> bool" where
  "good w = (journal_ok (journal w) \<and> stock_ids_ok (wd_iv w) \<and> holds none (wd_iv w) (wd_now w) w)"

lemma reach_good: "reach iv now w \<Longrightarrow> stock_ids_ok iv \<Longrightarrow> good w \<and> evolves (rows_of iv) (journal w) \<and> wd_iv w = with_rows iv (journal w) \<and> wd_now w = now"
  by (auto simp: reach_def good_def holds_def journal_def)

lemma hoare_after:
  assumes "hoare P m (\<lambda>_. Q) (\<lambda>_. Q)" and "P w"
  shows "Q (snd (m w))"
  using hoareD [OF assms] by (cases "m w"; cases "fst (m w)") auto

lemma call_keeps:
  assumes "good w" and "\<And>i. new_id k = Some i \<Longrightarrow> i \<notin> rv_id ` set (journal w)"
  shows "good (run_call k w) \<and> evolves (journal w) (journal (run_call k w)) \<and> wd_iv (run_call k w) = with_rows (wd_iv w) (journal (run_call k w)) \<and>
    wd_now (run_call k w) = wd_now w"
proof -
  let ?iv = "wd_iv w"
  have ok: "journal_ok (rows_of ?iv)" "stock_ids_ok ?iv" "holds none ?iv (wd_now w) w"
    using assms(1) by (simp_all add: good_def journal_def)
  have plain: "reach ?iv (wd_now w) (after m w)" if "service m" for m :: "'x op"
    using that ok hoare_after [of "holds none ?iv (wd_now w)" m "reach ?iv (wd_now w)" w]
    unfolding service_def after_def by blast
  have fresh: "reach ?iv (wd_now w) (after m w)" if "service_with i m" "i \<notin> rv_id ` set (journal w)" for m :: "'x op" and i
    using that ok hoare_after [of "holds none ?iv (wd_now w)" m "reach ?iv (wd_now w)" w]
    unfolding service_with_def after_def journal_def by blast
  have "reach ?iv (wd_now w) (run_call k w)"
    using assms(2) by (cases k) (simp_all add: plain fresh [OF service_grant] fresh [OF service_apply] service_commit service_release service_expireDue
      service_basic service_atp service_channelVisibleQuantity)
  from reach_good [OF this ok(2)] show ?thesis by (simp add: journal_def)
qed

lemma history_good: "reservation_history w \<Longrightarrow> good w"
proof (induction rule: reservation_history.induct)
  case (start w)
  then show ?case by (simp add: good_def holds_def journal_ok_def held_def mirror_def journal_def)
next
  case (call w k)
  then show ?case using call_keeps by blast
next
  case (environment w w')
  have "mirror none (journal w') (wd_store w')"
    using environment by (auto simp: mirror_iff good_def holds_def journal_def) (metis option.distinct(1))
  with environment show ?case by (simp add: good_def holds_def journal_def)
qed

section \<open>A concrete run\<close>

definition sample_uuid :: "char \<Rightarrow> uuid" where
  "sample_uuid c = replicate 8 c @ ''-'' @ replicate 4 c @ ''-'' @ replicate 4 c @ ''-'' @ replicate 4 c @ ''-'' @ replicate 12 c"

definition sample_stock_db :: inventory_db where
  "sample_stock_db = \<lparr>iv_ledger = \<lparr>db_events = [],
       db_stock = [\<lparr>so_tenant = sample_uuid CHR ''1'', so_wh = sample_uuid CHR ''2'', so_sku = sample_uuid CHR ''3'', so_bin = ''b'', so_qty = 10000\<rparr>],
       db_batches = [], db_epochs = [], db_freezes = [], db_skus = []\<rparr>,
     iv_bins = [\<lparr>bn_id = ''b'', bn_tenant = sample_uuid CHR ''1'', bn_wh = sample_uuid CHR ''2'', bn_code = ''A-01'', bn_system = False, bn_blocked = False\<rparr>],
     iv_quarantines = [], iv_lots = [], iv_clients = [], iv_reservations = []\<rparr>"

definition sample_world :: world where
  "sample_world = \<lparr>wd_iv = sample_stock_db, wd_store = (\<lambda>_. None), wd_calls = [], wd_txs = [], wd_now = 0, wd_failed = (\<lambda>_. None)\<rparr>"

definition sample_command :: "int \<Rightarrow> grant_command" where
  "sample_command q = \<lparr>gc_tenant = sample_uuid CHR ''1'', gc_wh = sample_uuid CHR ''2'', gc_sku = sample_uuid CHR ''3'',
     gc_owner_type = ''order'', gc_owner = ''o-1'', gc_qty = q, gc_ttl = None\<rparr>"

definition sample_ready :: world where
  "sample_ready = run_call (CallRebuild (sample_uuid CHR ''1'') (Some (sample_uuid CHR ''2''))) sample_world"

definition sample_held :: world where
  "sample_held = run_call (CallGrant (sample_uuid CHR ''4'') (sample_command 4000)) sample_ready"

lemma sample_start: "reservation_history sample_world"
  by (rule reservation_history.start) (simp_all add: sample_world_def journal_def sample_stock_db_def stock_ids_ok_def, code_simp)

lemma sample_runs:
  "journal sample_held = [\<lparr>rv_id = sample_uuid CHR ''4'', rv_tenant = sample_uuid CHR ''1'', rv_wh = sample_uuid CHR ''2'', rv_sku = sample_uuid CHR ''3'',
     rv_owner_type = ''order'', rv_owner = ''o-1'', rv_qty = 4000, rv_state = Held, rv_expires = Some 900000\<rparr>]"
  by code_simp

lemma sample_ready_history: "reservation_history sample_ready"
  unfolding sample_ready_def by (rule reservation_history.call [OF sample_start]) simp

lemma sample_held_history: "reservation_history sample_held"
  unfolding sample_held_def
  by (rule reservation_history.call [OF sample_ready_history]) (simp, code_simp)

lemma sample_grants: "grant (sample_uuid CHR ''4'') (sample_command 4000) sample_ready = (Inr (hd (journal sample_held)), sample_held)"
proof -
  have "fst (grant (sample_uuid CHR ''4'') (sample_command 4000) sample_ready) = Inr (hd (journal sample_held))" by code_simp
  then show ?thesis by (cases "grant (sample_uuid CHR ''4'') (sample_command 4000) sample_ready") (simp add: sample_held_def after_def)
qed

section \<open>Properties\<close>

text \<open>
  C3. No oversell: in every run of the service, whatever calls and transactions fail, a grant that returns
  either found the owner's hold already there with the asked quantity and changed nothing in the
  journal, or appended exactly that hold, and then all live reservations of the scope, the new one
  included, are within the ceiling as read in the same transaction.
\<close>

theorem reservations_never_oversell:
  assumes "reservation_history w" and "newId \<notin> rv_id ` set (journal w)" and "grant newId c w = (Inr r, w')"
  shows "owner_scope_of r = command_scope c \<and> rv_qty r = gc_qty c \<and> rv_state r = Held \<and>
    (if r \<in> set (journal w) then journal w' = journal w
     else journal w' = journal w @ [r] \<and>
       reserved_sum (gc_tenant c) (gc_wh c) (gc_sku c) (journal w') \<le> ceiling_now (gc_tenant c) (gc_wh c) (gc_sku c) w')"
proof -
  have g: "journal_ok (rows_of (wd_iv w))" "stock_ids_ok (wd_iv w)" "newId \<notin> rv_id ` set (rows_of (wd_iv w))" "holds none (wd_iv w) (wd_now w) w"
    using history_good [OF assms(1)] assms(2) by (simp_all add: good_def journal_def)
  from hoareD(1) [OF hoare_grant [OF g(1-3)] g(4) assms(3)] show ?thesis
  proof
    assume "settled_hold (wd_iv w) c r \<and> holds none (wd_iv w) (wd_now w) w'"
    then show ?thesis using holds_journal [of none "wd_iv w" "wd_now w" w'] by (simp add: settled_hold_def journal_def)
  next
    assume new: "new_hold (wd_iv w) (wd_now w) newId c r \<and> holds none (with_rows (wd_iv w) (rows_of (wd_iv w) @ [r])) (wd_now w) w'"
    then have h: "holds none (with_rows (wd_iv w) (rows_of (wd_iv w) @ [r])) (wd_now w) w'" by simp
    have j: "journal w' = journal w @ [r]" using holds_journal [OF h] by (simp add: journal_def)
    have "rv_id r = newId" using new by (simp add: new_hold_def)
    then have "r \<notin> set (journal w)" using assms(2) by auto
    moreover have "reserved_sum (gc_tenant c) (gc_wh c) (gc_sku c) (journal w') = sum_of (grant_scope c) (journal w) + gc_qty c"
      using new by (simp add: j new_hold_def reserved_sum_snoc grant_scope_def hold_row_def live_def)
    moreover have "ceiling_now (gc_tenant c) (gc_wh c) (gc_sku c) w' = committedCeiling (wd_iv w) (gc_tenant c) (gc_wh c) (gc_sku c) (wd_now w)"
      using holds_ceiling [OF h] by (simp add: ceiling_frame)
    ultimately show ?thesis using new j by (auto simp: new_hold_def journal_def)
  qed
qed

theorem reservations_never_oversell_witness:
  "owner_scope_of (hd (journal sample_held)) = command_scope (sample_command 4000) \<and> rv_qty (hd (journal sample_held)) = gc_qty (sample_command 4000) \<and>
   rv_state (hd (journal sample_held)) = Held \<and>
   (if hd (journal sample_held) \<in> set (journal sample_ready) then journal sample_held = journal sample_ready
    else journal sample_held = journal sample_ready @ [hd (journal sample_held)] \<and>
      reserved_sum (gc_tenant (sample_command 4000)) (gc_wh (sample_command 4000)) (gc_sku (sample_command 4000)) (journal sample_held) \<le>
      ceiling_now (gc_tenant (sample_command 4000)) (gc_wh (sample_command 4000)) (gc_sku (sample_command 4000)) sample_held)"
  by (rule reservations_never_oversell [OF sample_ready_history _ sample_grants]) code_simp

text \<open>
  The journal only evolves: in every run, whichever operation comes next, its rows keep their ids,
  owner scopes and deadlines; a released or expired row never changes again, a committed one may only be
  released or expired, a quantity changes only on a held standing buffer; ids stay unique, every owner
  scope has at most one open hold, and every quantity is positive.
\<close>

theorem reservation_journal_evolves:
  assumes "reservation_history w" and "\<And>i. new_id k = Some i \<Longrightarrow> i \<notin> rv_id ` set (journal w)"
  shows "journal_ok (journal (run_call k w)) \<and> (\<exists>old new. journal (run_call k w) = old @ new \<and> list_all2 row_step (journal w) old)"
  using call_keeps [OF history_good [OF assms(1)] assms(2)] by (simp add: good_def evolves_def)

theorem reservation_journal_evolves_witness:
  "journal_ok (journal (run_call (CallRelease (sample_uuid CHR ''1'') (sample_uuid CHR ''4'')) sample_held)) \<and>
   (\<exists>old new. journal (run_call (CallRelease (sample_uuid CHR ''1'') (sample_uuid CHR ''4'')) sample_held) = old @ new \<and>
      list_all2 row_step (journal sample_held) old)"
  by (rule reservation_journal_evolves [OF sample_held_history]) simp

text \<open>
  C4. The mirror is safe: in every run, the reserved counter of a scope, whenever it holds a number, is at
  least the journal's live total of the scope, so a decision on the counter never promises units that the
  journal already holds.
\<close>

theorem counters_never_understate:
  assumes "reservation_history w" and "uuid_shape t" and "uuid_shape wh" and "uuid_shape s"
    and "wd_store w (reservationCounterKey t wh s) = Some (Num n)"
  shows "reserved_sum t wh s (journal w) \<le> n"
  using history_good [OF assms(1)] assms(2-5) by (auto simp: good_def holds_def mirror_def journal_def)

theorem counters_never_understate_witness:
  "reserved_sum (sample_uuid CHR ''1'') (sample_uuid CHR ''2'') (sample_uuid CHR ''3'') (journal sample_held) \<le> 4000"
  by (rule counters_never_understate [OF sample_held_history]) code_simp+

text \<open>
  A grant that fails journals nothing: whatever call or transaction failed and at whatever point, the
  journal is the one it started from, and every counter still covers it.
\<close>

theorem failed_grant_journals_nothing:
  assumes "reservation_history w" and "newId \<notin> rv_id ` set (journal w)" and "grant newId c w = (Inl e, w')"
  shows "wd_iv w' = wd_iv w \<and> mirror none (journal w') (wd_store w')"
proof -
  have g: "journal_ok (rows_of (wd_iv w))" "stock_ids_ok (wd_iv w)" "newId \<notin> rv_id ` set (rows_of (wd_iv w))" "holds none (wd_iv w) (wd_now w) w"
    using history_good [OF assms(1)] assms(2) by (simp_all add: good_def journal_def)
  from hoareD(2) [OF hoare_grant [OF g(1-3)] g(4) assms(3)] show ?thesis by (simp add: holds_def journal_def)
qed

lemma sample_refused: "fst (grant (sample_uuid CHR ''5'') (sample_command 20000) sample_ready) = Inl unavailable"
  by code_simp

theorem failed_grant_journals_nothing_witness:
  "wd_iv (snd (grant (sample_uuid CHR ''5'') (sample_command 20000) sample_ready)) = wd_iv sample_ready \<and>
   mirror none (journal (snd (grant (sample_uuid CHR ''5'') (sample_command 20000) sample_ready)))
     (wd_store (snd (grant (sample_uuid CHR ''5'') (sample_command 20000) sample_ready)))"
proof (rule failed_grant_journals_nothing [OF sample_ready_history])
  show "sample_uuid CHR ''5'' \<notin> rv_id ` set (journal sample_ready)" by code_simp
  show "grant (sample_uuid CHR ''5'') (sample_command 20000) sample_ready =
      (Inl unavailable, snd (grant (sample_uuid CHR ''5'') (sample_command 20000) sample_ready))"
    by (rule prod_eqI) (simp_all add: sample_refused)
qed

end
