(* ===== verification/ReservationTransitions.thy ===== *)
theory ReservationTransitions
  imports ReservationProperties
begin

text \<open>
  What single operations of the reservation service do when their calls are delivered: the repeat of a
  grant, and the terminal transitions of a hold.
\<close>

section \<open>Delivered calls\<close>

definition delivered :: "world \<Rightarrow> bool" where
  "delivered w = (wd_calls w = [] \<and> wd_txs w = [])"

lemma delivered_call: "delivered w \<Longrightarrow> valkey_call f w = (fst (f (wd_store w)), w\<lparr>wd_store := snd (f (wd_store w))\<rparr>)"
  by (cases "f (wd_store w)") (simp add: delivered_def valkey_call_def)

lemma delivered_read: "delivered w \<Longrightarrow> in_tx (read f) w = (Inr (f w), w)"
  by (simp add: delivered_def in_tx_def)

lemma delivered_frame [simp]:
  "delivered (w\<lparr>wd_store := st\<rparr>) = delivered w"
  "delivered (w\<lparr>wd_failed := fl\<rparr>) = delivered w"
  "delivered (w\<lparr>wd_iv := iv\<rparr>) = delivered w"
  "delivered (set_journal rows w) = delivered w"
  by (simp_all add: delivered_def set_journal_def)

lemma find_held:
  assumes "journal_ok rows" and "r \<in> set rows" and "rv_state r = Held"
  shows "find (\<lambda>x. owner_scope_of x = owner_scope_of r \<and> rv_state x = Held) rows = Some r"
proof -
  have "find (\<lambda>x. owner_scope_of x = owner_scope_of r \<and> rv_state x = Held) rows = find (\<lambda>x. owner_scope_of x = owner_scope_of r) (held rows)"
    unfolding held_def by (induction rows) auto
  also have "\<dots> = Some r"
    using assms by (simp add: find_Some_iff_unique journal_ok_def) (simp add: held_def)
  finally show ?thesis .
qed

section \<open>Repeating a grant\<close>

text \<open>
  A grant is idempotent while the hold is open: asking again for the owner's scope returns the standing
  hold when the quantity is the same and is a conflict when it is not, whatever the stock, the ceiling or
  the store say, and changes nothing.
\<close>

theorem repeated_grant_returns_the_hold:
  assumes "reservation_history w" and "wd_txs w = []" and "check_command c w = (Inr (), w)"
    and "r \<in> set (journal w)" and "rv_state r = Held" and "owner_scope_of r = command_scope c"
  shows "grant newId c w = (if rv_qty r = gc_qty c then Inr r else Inl conflict, w)"
proof -
  have "journal_ok (journal w)" using history_good [OF assms(1)] by (simp add: good_def)
  then have "findOpenHold (command_scope c) w = Some r"
    using find_held [OF _ assms(4,5)] assms(6) by (simp add: findOpenHold_def)
  then show ?thesis
    using assms(2,3) by (simp add: grant_def bind_def in_tx_def idempotentHit_def)
qed

theorem repeated_grant_returns_the_hold_witness:
  "grant (sample_uuid CHR ''5'') (sample_command 4000) sample_held =
     (if rv_qty (hd (journal sample_held)) = gc_qty (sample_command 4000) then Inr (hd (journal sample_held)) else Inl conflict, sample_held)"
proof (rule repeated_grant_returns_the_hold [OF sample_held_history])
  show "wd_txs sample_held = []" by code_simp
  have "fst (check_command (sample_command 4000) sample_held) = Inr ()" by code_simp
  then show "check_command (sample_command 4000) sample_held = (Inr (), sample_held)"
    by (auto simp: check_command_def bind_def requireUuid_def require_def split: if_splits)
qed (code_simp)+

section \<open>Terminal transitions\<close>

lemma set_state_delivered:
  assumes "delivered w"
  shows "in_tx (set_state t i from to) w = set_state t i from to w"
  using assms by (simp add: in_tx_def set_state_def Let_def delivered_def set_journal_def)

lemma restore_delivered: "delivered w \<Longrightarrow> \<exists>st. restoreCounter r w = (Inr (), w\<lparr>wd_store := st\<rparr>)"
proof -
  assume d: "delivered w"
  let ?key = "reservationCounterKey (rv_tenant r) (rv_wh r) (rv_sku r)"
  let ?out = "RESERVATION_RELEASE_SCRIPT ?key (rv_qty r) (wd_store w)"
  show ?thesis
  proof (cases "counter_value (rv_qty r)")
    case True
    then have "releaseReservation ?key (rv_qty r) w = (fst ?out, w\<lparr>wd_store := snd ?out\<rparr>)"
      by (simp add: releaseReservation_def delivered_call [OF d])
    then show ?thesis by (cases "fst ?out") (auto simp: restoreCounter_def attempt_def bind_def)
  next
    case False
    then have "restoreCounter r w = (Inr (), w\<lparr>wd_store := wd_store w\<rparr>)"
      by (simp add: releaseReservation_def restoreCounter_def attempt_def bind_def)
    then show ?thesis by blast
  qed
qed

text \<open>A transition of a held row that succeeds, and what it leaves.\<close>

lemma ended_row:
  assumes "journal_ok rows" and "find (\<lambda>r. rv_id r = i \<and> rv_tenant r = t \<and> rv_state r \<in> set [Held]) rows = Some r0" and "to \<noteq> Held"
    and "rows' = update_where (\<lambda>r. rv_id r = i \<and> rv_tenant r = t \<and> rv_state r \<in> set [Held]) (rv_state_update (\<lambda>_. to)) rows"
  shows "r0 \<in> set rows \<and> rv_id r0 = i \<and> rv_state r0 = Held \<and> r0\<lparr>rv_state := to\<rparr> \<in> set rows' \<and>
    find (\<lambda>r. rv_id r = i \<and> rv_tenant r = t \<and> rv_state r \<in> set [Held]) rows' = None \<and>
    find (\<lambda>r. rv_id r = i \<and> rv_tenant r = t) rows' = Some (r0\<lparr>rv_state := to\<rparr>)"
proof -
  let ?g = "rv_state_update (\<lambda>_. to)"
  have dist: "distinct (map rv_id rows)" using assms(1) by (simp add: journal_ok_def)
  obtain xs ys where r0: "rows = xs @ r0 # ys" "rv_id r0 = i" "rv_tenant r0 = t" "rv_state r0 = Held" "rows' = xs @ ?g r0 # ys"
    using update_one [OF dist assms(2), of ?g] assms(4) by auto
  have other: "rv_id x \<noteq> i" if "x \<in> set xs \<union> set ys" for x using dist r0(1,2) that by (auto simp: image_iff)
  have "find (\<lambda>r. rv_id r = i \<and> rv_tenant r = t) xs = None" using other by (auto simp: find_None_iff)
  then have "find (\<lambda>r. rv_id r = i \<and> rv_tenant r = t) (xs @ ?g r0 # ys) = Some (?g r0)"
    using r0(2,3) by (induction xs) (auto split: if_splits)
  moreover have "find (\<lambda>r. rv_id r = i \<and> rv_tenant r = t \<and> rv_state r \<in> set [Held]) (xs @ ?g r0 # ys) = None"
    using other assms(3) by (auto simp: find_None_iff)
  ultimately show ?thesis using r0 by simp
qed

lemma conflict_after:
  assumes "delivered w'" and "uuid_shape i" and "journal w' = rows'"
    and "find (\<lambda>r. rv_id r = i \<and> rv_tenant r = t \<and> rv_state r \<in> set [Held]) rows' = None"
    and "find (\<lambda>r. rv_id r = i \<and> rv_tenant r = t) rows' = Some r"
  shows "commit t i w' = (Inl conflict, w') \<and> release t i w' = (Inl conflict, w')"
proof -
  have same: "update_where (\<lambda>r. rv_id r = i \<and> rv_tenant r = t \<and> rv_state r \<in> set [Held]) g rows' = rows'" for g
    using update_none [of i "\<lambda>r. rv_tenant r = t \<and> rv_state r \<in> set [Held]" rows' g] assms(4) by simp
  have "set_journal rows' w' = w'" using assms(3) by (auto simp: set_journal_def journal_def)
  then have no_row: "in_tx (set_state t i [Held] to) w' = (Inr None, w')" for to
    using assms(3,4) same unfolding set_state_delivered [OF assms(1)] set_state_def Let_def by simp
  have "terminalConflict t i w' = (Inl conflict, w')"
    using assms(2,3,5) by (simp add: terminalConflict_def bind_def delivered_read [OF assms(1)] row_by_id_def)
  then show ?thesis using assms(2) by (simp add: commit_def release_def bind_def no_row)
qed

lemma terminal_runs:
  assumes "delivered w" and "commit t i w = (Inr r, w') \<or> release t i w = (Inr r, w')"
  shows "\<exists>to r0. (to = Committed \<or> to = Released) \<and> uuid_shape i \<and> delivered w' \<and>
    find (\<lambda>r. rv_id r = i \<and> rv_tenant r = t \<and> rv_state r \<in> set [Held]) (journal w) = Some r0 \<and> r = r0\<lparr>rv_state := to\<rparr> \<and>
    journal w' = update_where (\<lambda>r. rv_id r = i \<and> rv_tenant r = t \<and> rv_state r \<in> set [Held]) (rv_state_update (\<lambda>_. to)) (journal w)"
proof -
  let ?P = "\<lambda>r. rv_id r = i \<and> rv_tenant r = t \<and> rv_state r \<in> set [Held]"
  have uuid: "uuid_shape i" using assms(2) by (auto simp: commit_def release_def split: if_splits)
  have failed: "terminalConflict t i v \<noteq> (Inr x, v')" for x :: reservation_row and v v'
    by (auto simp: terminalConflict_def bind_def split: prod.splits sum.splits)
  let ?w = "\<lambda>to. set_journal (update_where ?P (rv_state_update (\<lambda>_. to)) (journal w)) w"
  have step: "in_tx (set_state t i [Held] to) w = (Inr (map_option (rv_state_update (\<lambda>_. to)) (find ?P (journal w))), ?w to)" for to
    unfolding set_state_delivered [OF assms(1)] set_state_def Let_def by simp
  from assms(2) show ?thesis
  proof
    assume c: "commit t i w = (Inr r, w')"
    then obtain r0 where r0: "find ?P (journal w) = Some r0"
      using uuid failed by (cases "find ?P (journal w)") (auto simp: commit_def bind_def step)
    then have "r = r0\<lparr>rv_state := Committed\<rparr>" "w' = ?w Committed" using c uuid by (auto simp: commit_def bind_def step)
    with r0 uuid assms(1) show ?thesis by (intro exI [of _ Committed] exI [of _ r0]) (auto simp: journal_def set_journal_def)
  next
    assume c: "release t i w = (Inr r, w')"
    then obtain r0 where r0: "find ?P (journal w) = Some r0"
      using uuid failed by (cases "find ?P (journal w)") (auto simp: release_def bind_def step)
    obtain st where st: "restoreCounter (r0\<lparr>rv_state := Released\<rparr>) (?w Released) = (Inr (), (?w Released)\<lparr>wd_store := st\<rparr>)"
      using restore_delivered [of "?w Released"] assms(1) by auto
    then have "r = r0\<lparr>rv_state := Released\<rparr>" "w' = (?w Released)\<lparr>wd_store := st\<rparr>" using c uuid r0 by (auto simp: release_def bind_def step)
    with r0 uuid assms(1) show ?thesis by (intro exI [of _ Released] exI [of _ r0]) (auto simp: journal_def set_journal_def)
  qed
qed

text \<open>
  Exactly one terminal transition wins: when a commit or a release of a reservation returns, the row was
  held before and has its new state after, and every later commit or release of it is a conflict that
  changes nothing.
\<close>

theorem one_terminal_transition_wins:
  assumes "reservation_history w" and "delivered w"
    and "commit t i w = (Inr r, w') \<or> release t i w = (Inr r, w')"
  shows "(\<exists>r0 \<in> set (journal w). rv_id r0 = i \<and> rv_state r0 = Held \<and> (r = r0\<lparr>rv_state := Committed\<rparr> \<or> r = r0\<lparr>rv_state := Released\<rparr>)) \<and>
    r \<in> set (journal w') \<and> commit t i w' = (Inl conflict, w') \<and> release t i w' = (Inl conflict, w')"
proof -
  have ok: "journal_ok (journal w)" using history_good [OF assms(1)] by (simp add: good_def)
  obtain to r0 where run: "to = Committed \<or> to = Released" "uuid_shape i" "delivered w'"
    "find (\<lambda>r. rv_id r = i \<and> rv_tenant r = t \<and> rv_state r \<in> set [Held]) (journal w) = Some r0" "r = r0\<lparr>rv_state := to\<rparr>"
    "journal w' = update_where (\<lambda>r. rv_id r = i \<and> rv_tenant r = t \<and> rv_state r \<in> set [Held]) (rv_state_update (\<lambda>_. to)) (journal w)"
    using terminal_runs [OF assms(2,3)] by blast
  have "to \<noteq> Held" using run(1) by auto
  note row = ended_row [OF ok run(4) this run(6)]
  have "commit t i w' = (Inl conflict, w') \<and> release t i w' = (Inl conflict, w')"
    by (rule conflict_after [OF run(3,2) refl]) (use row in auto)
  with row run(1,5) show ?thesis by auto
qed

theorem one_terminal_transition_wins_witness:
  "(\<exists>r0 \<in> set (journal sample_held). rv_id r0 = sample_uuid CHR ''4'' \<and> rv_state r0 = Held \<and>
      ((hd (journal sample_held))\<lparr>rv_state := Released\<rparr> = r0\<lparr>rv_state := Committed\<rparr> \<or>
       (hd (journal sample_held))\<lparr>rv_state := Released\<rparr> = r0\<lparr>rv_state := Released\<rparr>)) \<and>
   (hd (journal sample_held))\<lparr>rv_state := Released\<rparr> \<in> set (journal (snd (release (sample_uuid CHR ''1'') (sample_uuid CHR ''4'') sample_held))) \<and>
   commit (sample_uuid CHR ''1'') (sample_uuid CHR ''4'') (snd (release (sample_uuid CHR ''1'') (sample_uuid CHR ''4'') sample_held)) =
     (Inl conflict, snd (release (sample_uuid CHR ''1'') (sample_uuid CHR ''4'') sample_held)) \<and>
   release (sample_uuid CHR ''1'') (sample_uuid CHR ''4'') (snd (release (sample_uuid CHR ''1'') (sample_uuid CHR ''4'') sample_held)) =
     (Inl conflict, snd (release (sample_uuid CHR ''1'') (sample_uuid CHR ''4'') sample_held))"
proof (rule one_terminal_transition_wins [OF sample_held_history])
  show "delivered sample_held" unfolding delivered_def by code_simp
  have "fst (release (sample_uuid CHR ''1'') (sample_uuid CHR ''4'') sample_held) = Inr ((hd (journal sample_held))\<lparr>rv_state := Released\<rparr>)" by code_simp
  then have "release (sample_uuid CHR ''1'') (sample_uuid CHR ''4'') sample_held =
      (Inr ((hd (journal sample_held))\<lparr>rv_state := Released\<rparr>), snd (release (sample_uuid CHR ''1'') (sample_uuid CHR ''4'') sample_held))"
    by (simp add: prod_eq_iff)
  then show "commit (sample_uuid CHR ''1'') (sample_uuid CHR ''4'') sample_held =
      (Inr ((hd (journal sample_held))\<lparr>rv_state := Released\<rparr>), snd (release (sample_uuid CHR ''1'') (sample_uuid CHR ''4'') sample_held)) \<or>
    release (sample_uuid CHR ''1'') (sample_uuid CHR ''4'') sample_held =
      (Inr ((hd (journal sample_held))\<lparr>rv_state := Released\<rparr>), snd (release (sample_uuid CHR ''1'') (sample_uuid CHR ''4'') sample_held))"
    by (rule disjI2)
qed

end
