(* ===== verification/ReservationRepair.thy ===== *)
theory ReservationRepair
  imports ReservationTransitions
begin

text \<open>
  The repairs of the reservation service: a rebuild of the counters, and the pass over the overdue holds.
\<close>

section \<open>Rebuilding\<close>

lemma set_counters_delivered:
  assumes "delivered w" and "\<forall>(s, n) \<in> set scopes. counter_value n \<and> 0 \<le> n"
    and "distinct (map fst scopes)"
  shows "\<exists>st. for_each (\<lambda>(s, n). setCounter (reservationCounterKey t wh s) n True) scopes w = (Inr (), w\<lparr>wd_store := st\<rparr>) \<and>
    (\<forall>s n. (s, n) \<in> set scopes \<longrightarrow> st (reservationCounterKey t wh s) = Some (Num n))"
  using assms
proof (induction scopes arbitrary: w rule: rev_induct)
  case Nil
  then show ?case by (intro exI [of _ "wd_store w"]) simp
next
  case (snoc p scopes)
  obtain s n where p: "p = (s, n)" by (cases p)
  obtain st where st: "for_each (\<lambda>(s, n). setCounter (reservationCounterKey t wh s) n True) scopes w = (Inr (), w\<lparr>wd_store := st\<rparr>)"
    "\<forall>s n. (s, n) \<in> set scopes \<longrightarrow> st (reservationCounterKey t wh s) = Some (Num n)"
    using snoc.IH [OF snoc.prems(1)] snoc.prems(2,3) by auto
  let ?key = "reservationCounterKey t wh s"
  have last: "setCounter ?key n True (w\<lparr>wd_store := st\<rparr>) = (Inr (), w\<lparr>wd_store := st(?key \<mapsto> Num n)\<rparr>)"
    using snoc.prems(1,2) p by (simp add: setCounter_def delivered_call setCounter_to_def)
  have append: "for_each f (xs @ [x]) v = bind (for_each f xs) (\<lambda>_. f x) v" for f :: "'b \<Rightarrow> unit op" and xs x v
    by (induction xs arbitrary: v) (auto simp: bind_def split: prod.split sum.split)
  have other: "reservationCounterKey t wh s' \<noteq> ?key" if "(s', n') \<in> set scopes" for s' n'
  proof -
    have "s' \<noteq> s" using snoc.prems(3) that p by force
    then show ?thesis by (simp add: reservationCounterKey_def)
  qed
  have "for_each (\<lambda>(s, n). setCounter (reservationCounterKey t wh s) n True) (scopes @ [p]) w = (Inr (), w\<lparr>wd_store := st(?key \<mapsto> Num n)\<rparr>)"
    unfolding append by (simp add: bind_def st(1) p last)
  moreover have "\<forall>s' n'. (s', n') \<in> set (scopes @ [p]) \<longrightarrow> (st(?key \<mapsto> Num n)) (reservationCounterKey t wh s') = Some (Num n')"
    using st(2) other p by auto
  ultimately show ?case by blast
qed

lemma verify_counters_delivered:
  assumes "delivered w" and "\<forall>(s, n) \<in> set sums. wd_store w (reservationCounterKey t wh s) = Some (Num n) \<and> 0 \<le> n"
  shows "for_each (set_if_below t wh) sums w = (Inr (), w)"
  using assms
proof (induction sums)
  case (Cons p sums)
  obtain s n where p: "p = (s, n)" by (cases p)
  have "getCounter (reservationCounterKey t wh s) w = (Inr (Some n), w)"
    using Cons.prems p by (simp add: getCounter_def delivered_call getCounter_of_def)
  then have "set_if_below t wh p w = (Inr (), w)" by (simp add: set_if_below_def p bind_def)
  then show ?case using Cons by (simp add: bind_def)
qed simp

text \<open>The SKUs a rebuild covers: those with a live reservation or a stock row in the warehouse.\<close>

definition covered :: "uuid \<Rightarrow> uuid \<Rightarrow> world \<Rightarrow> uuid set" where
  "covered t wh w = rv_sku ` {r \<in> set (journal w). rv_tenant r = t \<and> rv_wh r = wh \<and> live r} \<union>
     so_sku ` {r \<in> set (db_stock (iv_ledger (wd_iv w))). so_tenant r = t \<and> so_wh r = wh}"

lemma scopes_covered:
  "fst ` set (warehouse_scopes t wh w (journalReservedSums t wh w)) = covered t wh w" (is ?keys)
  "distinct (map fst (warehouse_scopes t wh w (journalReservedSums t wh w)))" (is ?dist)
  "(s, n) \<in> set (warehouse_scopes t wh w (journalReservedSums t wh w)) \<Longrightarrow> n = reserved_sum t wh s (journal w)"
proof -
  let ?sums = "journalReservedSums t wh w"
  have keys: "fst ` set ?sums = rv_sku ` {r \<in> set (journal w). rv_tenant r = t \<and> rv_wh r = wh \<and> live r}"
    by (auto simp: journalReservedSums_def image_iff)
  have dist: "map fst ?sums = remdups (map rv_sku (filter (\<lambda>r. rv_tenant r = t \<and> rv_wh r = wh \<and> live r) (journal w)))"
    by (simp add: journalReservedSums_def comp_def)
  show ?keys using keys by (auto simp: warehouse_scopes_def covered_def image_Un image_image)
  have split: "map fst (warehouse_scopes t wh w ?sums) = map fst ?sums @ filter (\<lambda>s. s \<notin> fst ` set ?sums)
      (remdups (map so_sku (filter (\<lambda>r. so_tenant r = t \<and> so_wh r = wh) (db_stock (iv_ledger (wd_iv w))))))"
    by (simp add: warehouse_scopes_def comp_def)
  have "distinct (map fst ?sums)" unfolding dist by (rule distinct_remdups)
  then show ?dist unfolding split distinct_append by (simp only: distinct_filter distinct_remdups set_filter set_map) blast
  show "(s, n) \<in> set (warehouse_scopes t wh w ?sums) \<Longrightarrow> n = reserved_sum t wh s (journal w)"
  proof (cases "(s, n) \<in> set ?sums")
    case True
    then show ?thesis by (auto simp: journalReservedSums_def)
  next
    case False
    assume "(s, n) \<in> set (warehouse_scopes t wh w ?sums)"
    with False have "n = 0" "s \<notin> fst ` set ?sums" by (auto simp: warehouse_scopes_def)
    moreover from this(2) have "reserved_sum t wh s (journal w) = 0" unfolding keys by (intro reserved_sum_no_live) blast
    ultimately show ?thesis by simp
  qed
qed

lemma rebuild_delivered:
  assumes "delivered w" and "journal_ok (journal w)" and "uuid_shape t" and "uuid_shape wh"
    and "\<And>s. reserved_sum t wh s (journal w) \<le> MAX_SAFE_INTEGER"
  shows "\<exists>st. rebuildWarehouse t wh w = (Inr (warehouse_scopes t wh w (journalReservedSums t wh w)), w\<lparr>wd_store := st\<rparr>) \<and>
    st (reservationReadyKey t wh) \<noteq> None \<and> (\<forall>s \<in> covered t wh w. uuid_shape s \<longrightarrow>
      st (reservationCounterKey t wh s) = Some (Num (reserved_sum t wh s (journal w))))"
proof -
  let ?ready = "reservationReadyKey t wh"
  let ?sums = "journalReservedSums t wh w"
  let ?scopes = "warehouse_scopes t wh w ?sums"
  let ?w0 = "w\<lparr>wd_store := (wd_store w)(?ready := None)\<rparr>"
  have disarm: "disarmReady ?ready w = (Inr (), ?w0)" using assms(1) by (simp add: disarmReady_def delivered_call)
  have sums0: "journalReservedSums t wh (w\<lparr>wd_store := st\<rparr>) = ?sums" for st by (simp add: journalReservedSums_def journal_def)
  have scopes0: "warehouse_scopes t wh ?w0 ?sums = ?scopes" by (simp add: warehouse_scopes_def)
  have vals: "\<forall>(s, n) \<in> set ?scopes. counter_value n \<and> 0 \<le> n"
  proof (clarify)
    fix s n
    assume "(s, n) \<in> set ?scopes"
    then have "n = reserved_sum t wh s (journal w)" by (rule scopes_covered(3))
    then show "counter_value n \<and> 0 \<le> n" using reserved_sum_nonneg [OF assms(2)] assms(5) by (simp add: counter_value_def)
  qed
  obtain st where st: "for_each (\<lambda>(s, n). setCounter (reservationCounterKey t wh s) n True) ?scopes ?w0 = (Inr (), ?w0\<lparr>wd_store := st\<rparr>)"
    "\<forall>s n. (s, n) \<in> set ?scopes \<longrightarrow> st (reservationCounterKey t wh s) = Some (Num n)"
    using set_counters_delivered [of ?w0 ?scopes t wh] assms(1) vals scopes_covered(2) by auto
  let ?w1 = "w\<lparr>wd_store := st\<rparr>"
  have again: "\<forall>(s, n) \<in> set ?sums. wd_store ?w1 (reservationCounterKey t wh s) = Some (Num n) \<and> 0 \<le> n"
  proof (clarify)
    fix s n
    assume "(s, n) \<in> set ?sums"
    then have "(s, n) \<in> set ?scopes" by (simp add: warehouse_scopes_def)
    then show "wd_store ?w1 (reservationCounterKey t wh s) = Some (Num n) \<and> 0 \<le> n" using st(2) bspec [OF vals, of "(s, n)"] by simp
  qed
  have verify: "for_each (set_if_below t wh) ?sums ?w1 = (Inr (), ?w1)"
    by (rule verify_counters_delivered [OF _ again]) (use assms(1) in simp)
  have ready: "setReady ?ready ?w1 = (Inr (), w\<lparr>wd_store := st(?ready \<mapsto> Num 1)\<rparr>)"
    using assms(1) by (simp add: setReady_def delivered_call)
  have reads: "in_tx (read (journalReservedSums t wh)) ?w0 = (Inr ?sums, ?w0)" "in_tx (read (journalReservedSums t wh)) ?w1 = (Inr ?sums, ?w1)"
      "in_tx (read (\<lambda>w. warehouse_scopes t wh w ?sums)) ?w0 = (Inr ?scopes, ?w0)"
    using delivered_read [of ?w0 "journalReservedSums t wh"] delivered_read [of ?w1 "journalReservedSums t wh"]
      delivered_read [of ?w0 "\<lambda>w. warehouse_scopes t wh w ?sums"] assms(1) by (simp_all add: sums0 scopes0)
  have update: "?w0\<lparr>wd_store := st\<rparr> = ?w1" by simp
  have run: "rebuildWarehouse t wh w = (Inr ?scopes, w\<lparr>wd_store := st(?ready \<mapsto> Num 1)\<rparr>)"
    by (simp only: rebuildWarehouse_def bind_def disarm reads st(1) verify ready ret_def prod.case sum.case update)
  have "(st(?ready \<mapsto> Num 1)) (reservationCounterKey t wh s) = Some (Num (reserved_sum t wh s (journal w)))"
    if "s \<in> covered t wh w" "uuid_shape s" for s
  proof -
    have "s \<in> fst ` set ?scopes" using that(1) by (simp only: scopes_covered(1))
    then obtain n where n: "(s, n) \<in> set ?scopes" by (metis imageE prod.collapse)
    have "st (reservationCounterKey t wh s) = Some (Num n)" using st(2) n by blast
    moreover have "reservationCounterKey t wh s \<noteq> ?ready" by (rule counter_key_not_ready [OF assms(3,4) that(2) assms(3,4)])
    ultimately show ?thesis using scopes_covered(3) [OF n] by simp
  qed
  with run show ?thesis by (intro exI [of _ "st(?ready \<mapsto> Num 1)"]) simp
qed

text \<open>
  C28. A rebuild restores parity: when its calls are delivered it always succeeds, arms the warehouse, leaves
  the journal alone, and sets the counter of every SKU with a live reservation or a stock row to exactly
  the journal's live total, whatever the counters held before (nothing, garbage or a drifted number).
\<close>

theorem rebuild_restores_parity:
  assumes "reservation_history w" and "delivered w" and "uuid_shape t" and "uuid_shape wh"
    and "\<And>s. reserved_sum t wh s (journal w) \<le> MAX_SAFE_INTEGER"
  shows "\<exists>w'. rebuildCounters t (Some wh) w = (Inr (), w') \<and> wd_iv w' = wd_iv w \<and> wd_store w' (reservationReadyKey t wh) \<noteq> None \<and>
    (\<forall>s \<in> covered t wh w. uuid_shape s \<longrightarrow>
      wd_store w' (reservationCounterKey t wh s) = Some (Num (reserved_sum t wh s (journal w))))"
proof -
  have "journal_ok (journal w)" using history_good [OF assms(1)] by (simp add: good_def)
  then obtain st where st: "rebuildWarehouse t wh w = (Inr (warehouse_scopes t wh w (journalReservedSums t wh w)), w\<lparr>wd_store := st\<rparr>)"
    "st (reservationReadyKey t wh) \<noteq> None"
    "\<forall>s \<in> covered t wh w. uuid_shape s \<longrightarrow> st (reservationCounterKey t wh s) = Some (Num (reserved_sum t wh s (journal w)))"
    using rebuild_delivered [OF assms(2) _ assms(3-5)] by blast
  then show ?thesis
    using assms(3,4) by (simp add: rebuildCounters_def bind_def requireUuid_def clear_failure_def)
qed


lemma sample_held_delivered: "delivered sample_held"
  unfolding delivered_def by code_simp

theorem rebuild_restores_parity_witness:
  "\<exists>w'. rebuildCounters (sample_uuid CHR ''1'') (Some (sample_uuid CHR ''2'')) sample_held = (Inr (), w') \<and> wd_iv w' = wd_iv sample_held \<and>
    wd_store w' (reservationReadyKey (sample_uuid CHR ''1'') (sample_uuid CHR ''2'')) \<noteq> None \<and>
    (\<forall>s \<in> covered (sample_uuid CHR ''1'') (sample_uuid CHR ''2'') sample_held. uuid_shape s \<longrightarrow>
      wd_store w' (reservationCounterKey (sample_uuid CHR ''1'') (sample_uuid CHR ''2'') s) =
        Some (Num (reserved_sum (sample_uuid CHR ''1'') (sample_uuid CHR ''2'') s (journal sample_held))))"
proof (rule rebuild_restores_parity [OF sample_held_history sample_held_delivered])
  show "uuid_shape (sample_uuid CHR ''1'')" "uuid_shape (sample_uuid CHR ''2'')" by code_simp+
  show "reserved_sum (sample_uuid CHR ''1'') (sample_uuid CHR ''2'') s (journal sample_held) \<le> MAX_SAFE_INTEGER" for s
    by (simp add: sample_runs reserved_sum_def MAX_SAFE_INTEGER_def)
qed

section \<open>Expiring\<close>

definition expired :: "reservation_row \<Rightarrow> reservation_row" where
  "expired r = r\<lparr>rv_state := Expired\<rparr>"

lemma expired_simps [simp]: "rv_id (expired r) = rv_id r" "rv_state (expired r) = Expired" "\<not> due at (expired r)"
  by (simp_all add: expired_def due_def live_def)

lemma due_after: "filter (due at) (map (\<lambda>r. if r \<in> A then expired r else r) rows) = filter (\<lambda>r. r \<notin> A) (filter (due at) rows)"
  by (induction rows) auto

lemma expire_one_delivered:
  assumes "delivered w" and "distinct (map rv_id (journal w))" and "h \<in> set (journal w)" and "live h"
  shows "\<exists>w'. expire_one h w = (Inr 1, w') \<and> delivered w' \<and> wd_now w' = wd_now w \<and>
    journal w' = map (\<lambda>r. if rv_id r = rv_id h then expired r else r) (journal w)"
proof -
  let ?P = "\<lambda>r. rv_id r = rv_id h \<and> rv_tenant r = rv_tenant h \<and> rv_state r \<in> set [Held, Committed]"
  have same: "r = h" if "r \<in> set (journal w)" "rv_id r = rv_id h" for r
    using assms(2,3) that by (auto dest: inj_onD simp: distinct_map)
  have "?P h" using assms(4) by (auto simp: live_def)
  then have "find ?P (journal w) \<noteq> None" using assms(3) by (auto simp: find_None_iff)
  then obtain r where r: "find ?P (journal w) = Some r" by blast
  then have "r \<in> set (journal w)" "rv_id r = rv_id h" by (auto dest: find_SomeD)
  with r same have found: "find ?P (journal w) = Some h" by simp
  let ?rows = "update_where ?P (rv_state_update (\<lambda>_. Expired)) (journal w)"
  have rows: "?rows = map (\<lambda>r. if rv_id r = rv_id h then expired r else r) (journal w)"
    unfolding update_where_def by (rule map_cong) (use same assms(4) in \<open>auto simp: live_def expired_def\<close>)
  define v where "v = set_journal ?rows w"
  obtain st where st: "restoreCounter (h\<lparr>rv_state := Expired\<rparr>) v = (Inr (), v\<lparr>wd_store := st\<rparr>)"
    using restore_delivered [of v] assms(1) by (auto simp: v_def)
  have step: "in_tx (set_state (rv_tenant h) (rv_id h) [Held, Committed] Expired) w = (Inr (Some (h\<lparr>rv_state := Expired\<rparr>)), v)"
    unfolding set_state_delivered [OF assms(1)] v_def by (simp only: set_state_def Let_def found) simp
  have "expire_one h w = (Inr 1, v\<lparr>wd_store := st\<rparr>)"
    by (simp add: expire_one_def attempt_def bind_def step st)
  then show ?thesis using assms(1) rows by (auto simp: journal_def set_journal_def delivered_def v_def)
qed

lemma expire_all_delivered:
  assumes "delivered w" and "distinct (map rv_id (journal w))" and "set hs \<subseteq> set (journal w)" and "distinct hs" and "\<forall>h \<in> set hs. live h"
  shows "\<exists>w'. expire_all hs w = (Inr (length hs), w') \<and> delivered w' \<and> wd_now w' = wd_now w \<and>
    journal w' = map (\<lambda>r. if r \<in> set hs then expired r else r) (journal w)"
  using assms
proof (induction hs arbitrary: w)
  case Nil
  then show ?case by (intro exI [of _ w]) (simp add: map_idI)
next
  case (Cons h hs)
  obtain w1 where w1: "expire_one h w = (Inr 1, w1)" "delivered w1" "wd_now w1 = wd_now w"
    "journal w1 = map (\<lambda>r. if rv_id r = rv_id h then expired r else r) (journal w)"
    using expire_one_delivered [of w h] Cons.prems by auto
  have same: "(rv_id r = rv_id h) = (r = h)" if "r \<in> set (journal w)" for r
    using Cons.prems(2,3) that by (auto dest: inj_onD simp: distinct_map)
  have j1: "journal w1 = map (\<lambda>r. if r = h then expired r else r) (journal w)"
    unfolding w1(4) by (rule map_cong) (use same in auto)
  have ids: "map rv_id (journal w1) = map rv_id (journal w)" unfolding j1 by simp
  have stay: "set hs \<subseteq> set (journal w1)" using Cons.prems(3,4) unfolding j1 by (auto simp: image_iff)
  obtain w2 where w2: "expire_all hs w1 = (Inr (length hs), w2)" "delivered w2" "wd_now w2 = wd_now w1"
    "journal w2 = map (\<lambda>r. if r \<in> set hs then expired r else r) (journal w1)"
    using Cons.IH [OF w1(2)] Cons.prems(2,4,5) ids stay by auto
  have fresh: "expired h \<notin> set hs" using Cons.prems(5) by (auto simp: expired_def live_def)
  have "journal w2 = map (\<lambda>r. if r \<in> set (h # hs) then expired r else r) (journal w)"
    unfolding w2(4) j1 map_map by (rule map_cong) (use fresh Cons.prems(4) in auto)
  moreover have "expire_all (h # hs) w = (Inr (length (h # hs)), w2)" by (simp add: bind_def w1(1) w2(1))
  ultimately show ?case using w2 w1(3) by auto
qed

subsection \<open>The parity pass reads the tables only\<close>

abbreviation same_tables :: "inventory_db \<Rightarrow> world \<Rightarrow> bool" where
  "same_tables iv w \<equiv> wd_iv w = iv"

lemma tables_call: "keeps (same_tables iv) (valkey_call f)"
  by (rule hoareI) (auto simp: valkey_call_def split: prod.splits)

lemma tables_read: "keeps (same_tables iv) (in_tx (read f))"
  by (rule hoareI) (auto simp: in_tx_def split: list.splits fate.splits)

lemma tables_getCounter: "keeps (same_tables iv) (getCounter k)"
  unfolding getCounter_def by (rule tables_call)

lemma tables_setCounter: "keeps (same_tables iv) (setCounter k n b)"
  unfolding setCounter_def by (rule hoare_if) (rule keeps_basic tables_call)+

lemma tables_ready: "keeps (same_tables iv) (setReady k)" "keeps (same_tables iv) (disarmReady k)"
  unfolding setReady_def disarmReady_def by (rule tables_call)+

lemma tables_clear: "keeps (same_tables iv) (clear_failure k)"
  by (rule hoareI) (auto simp: clear_failure_def)

lemma tables_set_if_below: "keeps (same_tables iv) (set_if_below t wh x)"
  unfolding set_if_below_def
  by (cases x) (auto intro!: keeps_bind tables_getCounter tables_setCounter keeps_basic)

lemma tables_rebuildWarehouse: "keeps (same_tables iv) (rebuildWarehouse t wh)"
  unfolding rebuildWarehouse_def
  by (intro keeps_bind tables_ready tables_read keeps_for_each tables_set_if_below keeps_basic)
    (auto intro: tables_setCounter)

lemma tables_requireUuid: "keeps (same_tables iv) (requireUuid t)"
  unfolding requireUuid_def by (rule keeps_basic)

lemma tables_rebuildCounters: "keeps (same_tables iv) (rebuildCounters t target)"
  unfolding rebuildCounters_def
  by (intro keeps_bind tables_requireUuid keeps_for_each tables_rebuildWarehouse tables_clear)
    (cases target, auto intro!: tables_read keeps_bind tables_requireUuid keeps_basic)

lemma tables_parity_divergent: "keeps (same_tables iv) (parity_divergent t wh sums)"
proof (induction sums)
  case (Cons x sums)
  then show ?case
    by (cases x) (auto simp only: parity_divergent.simps intro!: keeps_bind tables_getCounter keeps_basic split: if_split)
qed (simp only: parity_divergent.simps keeps_basic)

lemma tables_parity_warehouse: "hoare (same_tables iv) (parity_warehouse g) (\<lambda>_. same_tables iv) (\<lambda>_ _. False)"
  unfolding parity_warehouse_def
proof -
  obtain t wh sums where fields: "g = ((t, wh), sums)" by (cases g) auto
  show "hoare (same_tables iv) ((\<lambda>((t, wh), skuSums). attempt (bind (parity_divergent t wh skuSums) (\<lambda>divergent.
       if divergent then rebuildCounters t (Some wh) else ret ())) (\<lambda>_. ret ())) g) (\<lambda>_. same_tables iv) (\<lambda>_ _. False)"
    unfolding fields prod.case
  proof (rule hoare_attempt [where R = "\<lambda>_. same_tables iv"])
    show "keeps (same_tables iv) (bind (parity_divergent t wh sums) (\<lambda>divergent. if divergent then rebuildCounters t (Some wh) else ret ()))"
      by (intro keeps_bind tables_parity_divergent hoare_if tables_rebuildCounters keeps_basic)
    show "hoare (same_tables iv) (ret ()) (\<lambda>_. same_tables iv) (\<lambda>_ _. False)" by (rule hoare_ret)
  qed
qed

lemma tables_parityPass: "hoare (same_tables iv) parityPass (\<lambda>_. same_tables iv) (\<lambda>_ _. False)"
  unfolding parityPass_def
proof (rule hoare_bind)
  show "hoare (same_tables iv) (attempt (bind (in_tx (read parity_groups)) (\<lambda>gs. ret (Some gs))) (\<lambda>_. ret None))
      (\<lambda>_. same_tables iv) (\<lambda>_ _. False)"
    by (rule hoare_attempt [where R = "\<lambda>_. same_tables iv"]) (auto intro!: keeps_bind tables_read keeps_basic intro: hoare_ret)
  show "hoare (same_tables iv) (case groups of None \<Rightarrow> ret () | Some gs \<Rightarrow> for_each parity_warehouse gs)
      (\<lambda>_. same_tables iv) (\<lambda>_ _. False)" for groups
    by (cases groups) (auto intro!: hoare_for_each tables_parity_warehouse intro: hoare_ret)
qed

lemma parityPass_runs: "\<exists>w'. parityPass w = (Inr (), w') \<and> wd_iv w' = wd_iv w"
proof -
  obtain r w' where run: "parityPass w = (r, w')" by (cases "parityPass w")
  show ?thesis
  proof (cases r)
    case (Inl e)
    then show ?thesis using hoareD(2) [OF tables_parityPass refl, of w e w'] run by simp
  next
    case (Inr v)
    then show ?thesis using hoareD(1) [OF tables_parityPass refl, of w v w'] run by simp
  qed
qed


text \<open>
  Overdue holds are expired: when its calls are delivered, a pass of the reaper expires exactly the
  overdue live holds, the earliest deadlines first and at most a hundred of them, returns how many, and
  changes no other row; a warehouse with at most a hundred of them has none left.
\<close>

theorem expire_due_expires_the_overdue:
  assumes "reservation_history w" and "delivered w"
  shows "\<exists>w'. expireDue w = (Inr (min REAP_BATCH (length (filter (due (wd_now w)) (journal w)))), w') \<and>
    journal w' = map (\<lambda>r. if r \<in> set (due_holds w) then r\<lparr>rv_state := Expired\<rparr> else r) (journal w) \<and>
    (\<forall>h \<in> set (due_holds w). \<forall>r \<in> set (journal w). due (wd_now w) r \<longrightarrow> r \<notin> set (due_holds w) \<longrightarrow> the (rv_expires h) \<le> the (rv_expires r)) \<and>
    length (filter (due (wd_now w)) (journal w')) = length (filter (due (wd_now w)) (journal w)) - REAP_BATCH"
proof -
  let ?due = "filter (due (wd_now w)) (journal w)"
  let ?sorted = "sort_key (the \<circ> rv_expires) ?due"
  have ids: "distinct (map rv_id (journal w))" using history_good [OF assms(1)] by (simp add: good_def journal_ok_def)
  have hs: "due_holds w = take REAP_BATCH ?sorted" by (simp add: due_holds_def)
  have dist: "distinct ?sorted" using ids by (simp add: distinct_map)
  have set_hs: "set (due_holds w) \<subseteq> set ?due" unfolding hs using set_take_subset [of REAP_BATCH ?sorted] by simp
  then have hs_live: "\<forall>h \<in> set (due_holds w). live h" by (auto simp: due_def)
  have hs_dist: "distinct (due_holds w)" unfolding hs using dist by (rule distinct_take)
  obtain w1 where w1: "expire_all (due_holds w) w = (Inr (length (due_holds w)), w1)" "wd_now w1 = wd_now w"
      "journal w1 = map (\<lambda>r. if r \<in> set (due_holds w) then expired r else r) (journal w)"
    using expire_all_delivered [OF assms(2) ids _ hs_dist hs_live] set_hs by auto
  obtain w2 where w2: "parityPass w1 = (Inr (), w2)" "wd_iv w2 = wd_iv w1" using parityPass_runs by blast
  have run: "expireDue w = (Inr (length (due_holds w)), w2)"
    by (simp add: expireDue_def bind_def delivered_read [OF assms(2)] w1(1) w2(1))
  have count: "length (due_holds w) = min REAP_BATCH (length ?due)" by (simp add: hs)
  have j2: "journal w2 = map (\<lambda>r. if r \<in> set (due_holds w) then expired r else r) (journal w)"
    using w1(3) w2(2) by (simp add: journal_def)
  have order: "the (rv_expires h) \<le> the (rv_expires r)"
    if "h \<in> set (due_holds w)" "r \<in> set (journal w)" "due (wd_now w) r" "r \<notin> set (due_holds w)" for h r
  proof -
    have "r \<in> set ?sorted" using that by simp
    then have "r \<in> set (drop REAP_BATCH ?sorted)" using that(4) unfolding hs by (metis append_take_drop_id Un_iff set_append)
    moreover have "sorted_wrt (\<lambda>x y. (the \<circ> rv_expires) x \<le> (the \<circ> rv_expires) y) (take REAP_BATCH ?sorted @ drop REAP_BATCH ?sorted)"
      using sorted_sort_key [of "the \<circ> rv_expires" ?due] by (simp add: sorted_map)
    ultimately show ?thesis using that(1) unfolding hs sorted_wrt_append by simp
  qed
  have keep: "filter (due (wd_now w)) (journal w2) = filter (\<lambda>r. r \<notin> set (due_holds w)) ?due"
    unfolding j2 by (rule due_after)
  have "length ?due = length (due_holds w) + length (filter (\<lambda>r. r \<notin> set (due_holds w)) ?due)"
  proof -
    have "length (filter (\<lambda>r. r \<in> set (due_holds w)) ?due) = card (set (due_holds w))"
      using ids set_hs by (subst distinct_card [symmetric]) (auto simp: distinct_map intro!: arg_cong [where f = card])
    then show ?thesis using sum_length_filter_compl [of "\<lambda>r. r \<in> set (due_holds w)" ?due] distinct_card [OF hs_dist] by simp
  qed
  then have left: "length (filter (due (wd_now w)) (journal w2)) = length ?due - REAP_BATCH" using count keep by simp
  show ?thesis
    using run count j2 order left by (intro exI [of _ w2]) (auto simp: expired_def)
qed


definition sample_late :: world where
  "sample_late = sample_held\<lparr>wd_now := 900000\<rparr>"

lemma sample_late_history: "reservation_history sample_late" "delivered sample_late"
proof -
  have "stock_ids_ok (wd_iv sample_held)" "ReplyLost \<notin> set (wd_txs sample_held)"
    using history_good [OF sample_held_history] sample_held_delivered by (simp_all add: good_def delivered_def)
  then show "reservation_history sample_late"
    by (intro reservation_history.environment [OF sample_held_history]) (simp_all add: sample_late_def journal_def)
  show "delivered sample_late" using sample_held_delivered by (simp add: sample_late_def delivered_def)
qed

theorem expire_due_expires_the_overdue_witness:
  "\<exists>w'. expireDue sample_late = (Inr (min REAP_BATCH (length (filter (due (wd_now sample_late)) (journal sample_late)))), w') \<and>
    journal w' = map (\<lambda>r. if r \<in> set (due_holds sample_late) then r\<lparr>rv_state := Expired\<rparr> else r) (journal sample_late) \<and>
    (\<forall>h \<in> set (due_holds sample_late). \<forall>r \<in> set (journal sample_late). due (wd_now sample_late) r \<longrightarrow>
      r \<notin> set (due_holds sample_late) \<longrightarrow> the (rv_expires h) \<le> the (rv_expires r)) \<and>
    length (filter (due (wd_now sample_late)) (journal w')) = length (filter (due (wd_now sample_late)) (journal sample_late)) - REAP_BATCH"
  by (rule expire_due_expires_the_overdue [OF sample_late_history])

end
