(* ===== verification/ReservationListing.thy ===== *)
theory ReservationListing
  imports ReservationRepair
begin

text \<open>
  What available-to-promise and the quantity a channel may list are worth: the reserved figure they subtract
  covers the journal, whichever repairs the read had to make.
\<close>

section \<open>Listing\<close>

lemma hoare_tx_clocked:
  "hoare (holds e iv now) (in_tx (read (\<lambda>w. (wd_iv w, wd_now w)))) (\<lambda>x w. x = (iv, now) \<and> holds e iv now w) (\<lambda>_. holds e iv now)"
  by (rule hoare_conseq [OF hoare_tx_read]) (auto simp: holds_def)

lemma hoare_atp_inputs:
  assumes "journal_ok (rows_of iv)" and "stock_ids_ok iv" and "uuid_shape t" and "uuid_shape wh"
  shows "hoare (holds none iv now) (if ready then ret (iv, now)
           else bind (ensureReady t wh) (\<lambda>armed. if \<not> armed then raise reservationStoreUnavailable
             else in_tx (read (\<lambda>w. (wd_iv w, wd_now w)))))
    (\<lambda>x w. x = (iv, now) \<and> holds none iv now w) (\<lambda>_. holds none iv now)"
proof (intro hoare_if)
  show "hoare (holds none iv now) (ret (iv, now)) (\<lambda>x w. x = (iv, now) \<and> holds none iv now w) (\<lambda>_. holds none iv now)"
    by (rule hoare_ret) simp
  show "hoare (holds none iv now) (bind (ensureReady t wh) (\<lambda>armed. if \<not> armed then raise reservationStoreUnavailable
      else in_tx (read (\<lambda>w. (wd_iv w, wd_now w))))) (\<lambda>x w. x = (iv, now) \<and> holds none iv now w) (\<lambda>_. holds none iv now)"
    using assms by (intro hoare_bind [OF keeps_ensureReady] hoare_if hoare_raise hoare_tx_clocked) simp_all
qed

text \<open>The reserved figure of a read covers the journal.\<close>

definition covers :: "inventory_db \<Rightarrow> uuid \<Rightarrow> uuid \<Rightarrow> uuid \<Rightarrow> int \<Rightarrow> bool" where
  "covers iv t wh s n = (reserved_sum t wh s (rows_of iv) \<le> n)"

lemma hoare_atp_reserved:
  assumes "uuid_shape t" and "uuid_shape wh" and "uuid_shape s"
  shows "hoare (holds none iv now) (bind (getCounter (reservationCounterKey t wh s)) (\<lambda>current. case current of
           Some n \<Rightarrow> ret n
         | None \<Rightarrow> bind (in_tx (read (journalReservedSum t wh s))) (\<lambda>total.
             bind (setCounter (reservationCounterKey t wh s) total False) (\<lambda>_.
             bind (getCounter (reservationCounterKey t wh s)) (\<lambda>again. ret (case again of None \<Rightarrow> total | Some n \<Rightarrow> n))))))
    (\<lambda>n w. covers iv t wh s n \<and> holds none iv now w) (\<lambda>_. holds none iv now)"
proof -
  let ?sc = "(t, wh, s)"
  have wf: "well_formed ?sc" using assms by simp
  have get: "hoare (holds none iv now) (getCounter (reservationCounterKey t wh s))
      (\<lambda>v w. (case v of None \<Rightarrow> True | Some n \<Rightarrow> covers iv t wh s n) \<and> holds none iv now w) (\<lambda>_. holds none iv now)"
    using hoare_getCounter [OF wf, of none iv now] by (simp add: covers_def cong: option.case_cong)
  have seed: "hoare (holds none iv now) (bind (setCounter (reservationCounterKey t wh s) total False) (\<lambda>_.
      bind (getCounter (reservationCounterKey t wh s)) (\<lambda>again. ret (case again of None \<Rightarrow> total | Some n \<Rightarrow> n))))
      (\<lambda>n w. covers iv t wh s n \<and> holds none iv now w) (\<lambda>_. holds none iv now)" if "covers iv t wh s total" for total
  proof (rule hoare_bind [OF keeps_setCounter [OF wf]])
    show "reserved_sum t wh s (rows_of iv) + none ?sc \<le> total" using that by (simp add: covers_def)
    show "hoare (holds none iv now) (bind (getCounter (reservationCounterKey t wh s)) (\<lambda>again. ret (case again of None \<Rightarrow> total | Some n \<Rightarrow> n)))
        (\<lambda>n w. covers iv t wh s n \<and> holds none iv now w) (\<lambda>_. holds none iv now)"
      by (rule hoare_bind [OF get], rule hoare_ret) (auto split: option.splits intro: that)
  qed
  show ?thesis
  proof (rule hoare_bind [OF get], rule hoare_fact)
    fix current :: "int option"
    assume c: "case current of None \<Rightarrow> True | Some n \<Rightarrow> covers iv t wh s n"
    show "hoare (holds none iv now) (case current of Some n \<Rightarrow> ret n
         | None \<Rightarrow> bind (in_tx (read (journalReservedSum t wh s))) (\<lambda>total.
             bind (setCounter (reservationCounterKey t wh s) total False) (\<lambda>_.
             bind (getCounter (reservationCounterKey t wh s)) (\<lambda>again. ret (case again of None \<Rightarrow> total | Some n \<Rightarrow> n)))))
      (\<lambda>n w. covers iv t wh s n \<and> holds none iv now w) (\<lambda>_. holds none iv now)"
    proof (cases current)
      case (Some n)
      then show ?thesis using c by (simp only: option.case) (rule hoare_ret, simp)
    next
      case None
      show ?thesis unfolding None option.case
      proof (rule hoare_bind [OF hoare_tx_read], rule hoare_fact)
        fix total
        assume "\<exists>w0. holds none iv now w0 \<and> total = journalReservedSum t wh s w0"
        then have "covers iv t wh s total" by (auto simp: covers_def journalReservedSum_def holds_journal)
        then show "hoare (holds none iv now) (bind (setCounter (reservationCounterKey t wh s) total False) (\<lambda>_.
            bind (getCounter (reservationCounterKey t wh s)) (\<lambda>again. ret (case again of None \<Rightarrow> total | Some n \<Rightarrow> n))))
            (\<lambda>n w. covers iv t wh s n \<and> holds none iv now w) (\<lambda>_. holds none iv now)" by (rule seed)
      qed
    qed
  qed
qed

lemma hoare_store_unavailable:
  "hoare P m Q (\<lambda>_. R) \<Longrightarrow> hoare P (attempt m (\<lambda>_. raise reservationStoreUnavailable)) Q (\<lambda>_. R)"
  by (rule hoare_attempt [where R = "\<lambda>_. R"]) (auto intro: hoare_raise)

lemma hoare_atp:
  assumes "journal_ok (rows_of iv)" and "stock_ids_ok iv"
  shows "hoare (holds none iv now) (atp t wh s)
    (\<lambda>p w. (\<exists>n. p = atp_snapshot_of iv t wh s now n \<and> covers iv t wh s n) \<and> holds none iv now w) (\<lambda>_. holds none iv now)"
proof -
  let ?Q = "\<lambda>p w. (\<exists>n. p = atp_snapshot_of iv t wh s now n \<and> covers iv t wh s n) \<and> holds none iv now w"
  have tail: "hoare (\<lambda>w. covers iv t wh s n \<and> holds none iv now w) (ret (atp_snapshot_of iv t wh s now n)) ?Q (\<lambda>_. holds none iv now)" for n
    by (rule hoare_ret) auto
  have ready: "hoare (holds none iv now) (attempt (isReady (reservationReadyKey t wh)) (\<lambda>_. raise reservationStoreUnavailable))
      (\<lambda>_. holds none iv now) (\<lambda>_. holds none iv now)"
    by (rule hoare_store_unavailable) (rule keeps_isReady)
  show ?thesis
    unfolding atp_def
  proof (rule hoare_bind [OF hoare_requireUuid], rule hoare_fact, rule hoare_bind [OF hoare_requireUuid], rule hoare_fact,
      rule hoare_bind [OF hoare_requireUuid], rule hoare_fact, rule hoare_bind [OF hoare_tx_clocked], rule hoare_fact, goal_cases)
    case (1 u1 u2 u3 inputs)
    note tail2 = hoare_bind [OF hoare_store_unavailable [OF hoare_atp_reserved [OF 1(1,2,3)]] tail]
    show ?case
      unfolding 1(4)
      by (rule hoare_bind [OF ready], rule hoare_bind [OF hoare_atp_inputs [OF assms 1(1,2)]], rule hoare_fact)
        (simp only: prod.case, rule tail2)
  qed
qed


lemma hoare_tx_buffer:
  "hoare (holds e iv now) (in_tx (read (\<lambda>w. bufferUnits (wd_iv w) t wh s owner)))
    (\<lambda>n w. n = bufferUnits iv t wh s owner \<and> holds e iv now w) (\<lambda>_. holds e iv now)"
  by (rule hoare_conseq [OF hoare_tx_read]) (auto simp: holds_def)

lemma hoare_channelVisibleQuantity:
  assumes "journal_ok (rows_of iv)" and "stock_ids_ok iv"
  shows "hoare (holds none iv now) (channelVisibleQuantity t wh s owner)
    (\<lambda>v w. (\<exists>n. cv_pool v = atp_snapshot_of iv t wh s now n \<and> covers iv t wh s n \<and>
        cv_buffer v = bufferUnits iv t wh s (Some owner) \<and> cv_visible v = max 0 (at_atp (cv_pool v) - cv_buffer v)) \<and> holds none iv now w)
    (\<lambda>_. holds none iv now)"
  unfolding channelVisibleQuantity_def
proof (rule hoare_bind [OF hoare_requireUuid], rule hoare_fact, rule hoare_bind [OF hoare_requireUuid], rule hoare_fact,
      rule hoare_bind [OF hoare_requireUuid], rule hoare_fact, rule hoare_bind [OF hoare_atp [OF assms]], rule hoare_fact,
      rule hoare_bind [OF hoare_tx_buffer], rule hoare_fact, rule hoare_ret, goal_cases)
  case (1 u1 u2 u3 pool own w)
  from 1(4) obtain n where "pool = atp_snapshot_of iv t wh s now n" "covers iv t wh s n" by blast
  with 1(5,6) show ?case by auto
qed

lemma visible_bound:
  assumes "covers iv t wh s n" and "v = max 0 (at_atp (atp_snapshot_of iv t wh s now n) - own)" and "0 < v" and "0 \<le> own"
  shows "v + own + reserved_sum t wh s (rows_of iv) \<le> committedCeiling iv t wh s now"
  using assms by (simp add: atp_snapshot_of_def Let_def committedCeiling_def covers_def split: prod.splits)

lemma bufferUnits_nonneg: "journal_ok (rows_of iv) \<Longrightarrow> 0 \<le> bufferUnits iv t wh s owner"
  unfolding bufferUnits_def by (rule sum_where_nonneg) (auto simp: journal_ok_def row_ok_def)

text \<open>
  C37. A channel lists only what can be granted: in every run, the quantity computed for a channel is never
  negative, and when it is positive then it, the channel's own standing buffer and everything the
  journal holds fit together under the ceiling; computing it leaves every table alone.
\<close>

theorem listed_quantity_is_available:
  assumes "reservation_history w" and "channelVisibleQuantity t wh s owner w = (Inr v, w')"
  shows "wd_iv w' = wd_iv w \<and> 0 \<le> cv_visible v \<and> cv_buffer v = bufferUnits (wd_iv w) t wh s (Some owner) \<and>
    (0 < cv_visible v \<longrightarrow> cv_visible v + cv_buffer v + reserved_sum t wh s (journal w) \<le> ceiling_now t wh s w)"
proof -
  have g: "journal_ok (rows_of (wd_iv w))" "stock_ids_ok (wd_iv w)" "holds none (wd_iv w) (wd_now w) w"
    using history_good [OF assms(1)] by (simp_all add: good_def journal_def)
  obtain n where n: "cv_pool v = atp_snapshot_of (wd_iv w) t wh s (wd_now w) n" "covers (wd_iv w) t wh s n"
      "cv_buffer v = bufferUnits (wd_iv w) t wh s (Some owner)" "cv_visible v = max 0 (at_atp (cv_pool v) - cv_buffer v)"
      and w': "holds none (wd_iv w) (wd_now w) w'"
    using hoareD(1) [OF hoare_channelVisibleQuantity [OF g(1,2)] g(3) assms(2)] by blast
  have "0 \<le> cv_buffer v" using bufferUnits_nonneg [OF g(1)] n(3) by simp
  then have "cv_visible v + cv_buffer v + reserved_sum t wh s (journal w) \<le> ceiling_now t wh s w" if "0 < cv_visible v"
    using visible_bound [OF n(2) n(4) [unfolded n(1)] that] by (simp add: journal_def ceiling_now_def)
  with n(3,4) w' show ?thesis by (simp add: holds_def)
qed

definition sample_listing :: "(failure + channel_snapshot) \<times> world" where
  "sample_listing = channelVisibleQuantity (sample_uuid CHR ''1'') (sample_uuid CHR ''2'') (sample_uuid CHR ''3'') ''shop'' sample_held"

lemma sample_listing_runs: "fst sample_listing = Inr (projr (fst sample_listing)) \<and> cv_visible (projr (fst sample_listing)) = 6000"
  by code_simp

theorem listed_quantity_is_available_witness:
  "wd_iv (snd sample_listing) = wd_iv sample_held \<and>
   cv_visible (projr (fst sample_listing)) + cv_buffer (projr (fst sample_listing)) +
       reserved_sum (sample_uuid CHR ''1'') (sample_uuid CHR ''2'') (sample_uuid CHR ''3'') (journal sample_held) \<le>
     ceiling_now (sample_uuid CHR ''1'') (sample_uuid CHR ''2'') (sample_uuid CHR ''3'') sample_held"
proof -
  have "sample_listing = (Inr (projr (fst sample_listing)), snd sample_listing)"
    using sample_listing_runs by (simp add: prod_eq_iff)
  then have "channelVisibleQuantity (sample_uuid CHR ''1'') (sample_uuid CHR ''2'') (sample_uuid CHR ''3'') ''shop'' sample_held =
      (Inr (projr (fst sample_listing)), snd sample_listing)"
    by (simp only: sample_listing_def)
  from listed_quantity_is_available [OF sample_held_history this] show ?thesis
    using sample_listing_runs by simp
qed

end
