(* ===== verification/ReservationRaces.thy ===== *)
theory ReservationRaces
  imports ReservationRepair
begin

text \<open>
  Where the reservation service does not keep its promise: a counter that holds text, a commit whose answer
  is lost, and a rebuild that runs between the two steps of a grant.
\<close>

section \<open>A counter that is no number\<close>

text \<open>
  A counter that holds text is never repaired by a grant: the grant script answers that the counter is
  missing, the repair writes only where the key is absent, and the retry finds the same text, so every
  delivered grant of the scope is refused as unavailable and leaves the world as it was.
\<close>

theorem corrupt_counter_refuses_grants:
  assumes "delivered w" and "check_command c w = (Inr (), w)" and "findOpenHold (command_scope c) w = None"
    and "wd_store w (reservationReadyKey (gc_tenant c) (gc_wh c)) \<noteq> None"
    and "wd_store w (reservationCounterKey (gc_tenant c) (gc_wh c) (gc_sku c)) = Some Corrupt"
    and "counter_value (gc_qty c)" and "counter_value (ceiling_now (gc_tenant c) (gc_wh c) (gc_sku c) w)"
    and "counter_value (journalReservedSum (gc_tenant c) (gc_wh c) (gc_sku c) w)"
    and "0 \<le> journalReservedSum (gc_tenant c) (gc_wh c) (gc_sku c) w"
  shows "grant newId c w = (Inl unavailable, w)"
proof -
  let ?key = "reservationCounterKey (gc_tenant c) (gc_wh c) (gc_sku c)"
  let ?ready = "reservationReadyKey (gc_tenant c) (gc_wh c)"
  let ?ceiling = "ceiling_now (gc_tenant c) (gc_wh c) (gc_sku c) w"
  have script: "grantReservation ?key ?ready (gc_qty c) ?ceiling w = (Inr (Loss ''missing-counter''), w)"
    using assms(4-7) by (simp add: grantReservation_def delivered_call [OF assms(1)] RESERVATION_GRANT_SCRIPT_def)
  have repair: "setCounter ?key (journalReservedSum (gc_tenant c) (gc_wh c) (gc_sku c) w) False w = (Inr (), w)"
    using assms(5,8,9) by (simp add: setCounter_def delivered_call [OF assms(1)] setCounter_to_def)
  have "runGrantScript (gc_tenant c) (gc_wh c) (gc_sku c) (gc_qty c) ?ceiling w = (Inr Lost, w)"
    by (simp add: runGrantScript_def Let_def attempt_def bind_def script delivered_read [OF assms(1)] repair)
  then show ?thesis
    by (simp add: grant_def bind_def assms(2) delivered_read [OF assms(1)] assms(3))
qed

definition sample_corrupt :: world where
  "sample_corrupt = sample_ready\<lparr>wd_store := (wd_store sample_ready)
     (reservationCounterKey (sample_uuid CHR ''1'') (sample_uuid CHR ''2'') (sample_uuid CHR ''3'') \<mapsto> Corrupt)\<rparr>"

theorem corrupt_counter_refuses_grants_witness:
  "grant (sample_uuid CHR ''4'') (sample_command 4000) sample_corrupt = (Inl unavailable, sample_corrupt)"
proof (rule corrupt_counter_refuses_grants)
  show "delivered sample_corrupt" unfolding delivered_def by code_simp
  have "fst (check_command (sample_command 4000) sample_corrupt) = Inr ()" by code_simp
  then show "check_command (sample_command 4000) sample_corrupt = (Inr (), sample_corrupt)"
    by (auto simp: check_command_def bind_def requireUuid_def require_def split: if_splits)
qed code_simp+

section \<open>A commit whose answer is lost\<close>

definition lost_answer :: "(failure + reservation_row) \<times> world" where
  "lost_answer = grant (sample_uuid CHR ''4'') (sample_command 6000) (sample_ready\<lparr>wd_txs := [Delivered, ReplyLost]\<rparr>)"

definition after_lost_answer :: "(failure + reservation_row) \<times> world" where
  "after_lost_answer = grant (sample_uuid CHR ''5'') ((sample_command 6000)\<lparr>gc_owner := ''o-2''\<rparr>) (snd lost_answer)"

text \<open>
  C38. A commit whose answer is lost oversells: with 10000 milli-units on hand, the transaction that journals
  a hold of 6000 commits and its answer is lost; the grant fails and gives its units back to the counter,
  which then understates the journal, and a grant of 6000 to another owner succeeds.
\<close>

theorem lost_commit_answer_oversells:
  "fst lost_answer = Inl database_down \<and>
   reserved_sum (sample_uuid CHR ''1'') (sample_uuid CHR ''2'') (sample_uuid CHR ''3'') (journal (snd lost_answer)) = 6000 \<and>
   wd_store (snd lost_answer) (reservationCounterKey (sample_uuid CHR ''1'') (sample_uuid CHR ''2'') (sample_uuid CHR ''3'')) = Some (Num 0) \<and>
   (\<exists>r. fst after_lost_answer = Inr r) \<and>
   reserved_sum (sample_uuid CHR ''1'') (sample_uuid CHR ''2'') (sample_uuid CHR ''3'') (journal (snd after_lost_answer)) = 12000 \<and>
   ceiling_now (sample_uuid CHR ''1'') (sample_uuid CHR ''2'') (sample_uuid CHR ''3'') (snd after_lost_answer) = 10000"
proof (intro conjI)
  have "fst after_lost_answer = Inr (projr (fst after_lost_answer))" by code_simp
  then show "\<exists>r. fst after_lost_answer = Inr r" by blast
qed code_simp+

section \<open>A rebuild between a grant's two steps\<close>

text \<open>The script of a grant, a rebuild, another owner's whole grant, and the first grant's journal write.\<close>

definition race_script :: world where
  "race_script = after (runGrantScript (sample_uuid CHR ''1'') (sample_uuid CHR ''2'') (sample_uuid CHR ''3'') 6000 10000) sample_ready"

definition race_other :: world where
  "race_other = after (grant (sample_uuid CHR ''5'') ((sample_command 6000)\<lparr>gc_owner := ''o-2''\<rparr>))
     (run_call (CallRebuild (sample_uuid CHR ''1'') (Some (sample_uuid CHR ''2''))) race_script)"

definition race_end :: "(failure + reservation_row) \<times> world" where
  "race_end = in_tx (journal_hold (sample_uuid CHR ''4'') (sample_command 6000)) race_other"

text \<open>
  C39. A rebuild between a grant's script and its journal write oversells: the rebuild resets the counter to
  a journal that does not hold the grant yet, a second grant takes the same units, and the first grant's
  check of the counter under the row locks passes.
\<close>

theorem rebuild_race_oversells:
  "length (journal race_other) = 1 \<and> (\<exists>r. fst race_end = Inr r) \<and>
   reserved_sum (sample_uuid CHR ''1'') (sample_uuid CHR ''2'') (sample_uuid CHR ''3'') (journal (snd race_end)) = 12000 \<and>
   ceiling_now (sample_uuid CHR ''1'') (sample_uuid CHR ''2'') (sample_uuid CHR ''3'') (snd race_end) = 10000"
proof (intro conjI)
  have "fst race_end = Inr (projr (fst race_end))" by code_simp
  then show "\<exists>r. fst race_end = Inr r" by blast
qed code_simp+

end
