(* ===== verification/StockPool.thy ===== *)
theory StockPool
  imports Availability
begin

text \<open>
  The stock a pick may be planned on: the temperature hierarchy of the storage classes
  (\<open>shared/primitives/storage-class.ts\<close>), the reads the planner makes (\<open>pickableBinsInTx\<close>, the facades'
  stock, batch, intake and SKU reads) over tables that carry the columns they select, and
  \<open>buildStockPool\<close> of \<open>modules/outbound/replan.ts\<close>: every drawable slot of a SKU, ranked by its client's rule.
  A \<open>Map\<close> built from a list of pairs keeps the last pair of a key. Text is ordered by code points.
\<close>

section \<open>Storage classes\<close>

definition TEMPERATURE_RANK :: "string \<Rightarrow> nat option" where
  "TEMPERATURE_RANK c = map_of [(''ambient'', 1), (''chilled'', 2), (''frozen'', 3)] c"

definition storageClassSatisfies :: "string \<Rightarrow> string \<Rightarrow> bool" where
  "storageClassSatisfies skuClass binClass =
     (if skuClass = binClass then True
      else case (TEMPERATURE_RANK skuClass, TEMPERATURE_RANK binClass) of
        (Some s, Some b) \<Rightarrow> s < b
      | _ \<Rightarrow> False)"

section \<open>Tables\<close>

record pick_bin = bin_row +
  pk_class :: string
  pk_retired :: "millis option"
  pk_reason :: "string option"
  pk_blocked_at :: "millis option"
  pk_blocked_by :: "uuid option"

record intake_row = lot_row +
  in_sku :: uuid
  in_created :: millis

record sku_facts = sku_row +
  sf_class :: string
  sf_shelf :: "int option"
  sf_tracked :: bool
  sf_serial :: bool
  sf_catch :: bool
  sf_uom :: string

definition js_map :: "('k \<times> 'v) list \<Rightarrow> 'k \<Rightarrow> 'v option" where
  "js_map ps = map_of (rev ps)"

section \<open>The reads\<close>

definition pickableBinsInTx :: "pick_bin list \<Rightarrow> uuid \<Rightarrow> uuid \<Rightarrow> pick_bin list" where
  "pickableBinsInTx bins t wh =
     sort_key (\<lambda>b. (bn_code b, bn_id b)) (filter (\<lambda>b. bn_tenant b = t \<and> bn_wh b = wh \<and> \<not> bn_blocked b \<and> \<not> bn_system b \<and>
       pk_retired b = None) bins)"

definition stockByBinsInTx :: "stock_row list \<Rightarrow> uuid \<Rightarrow> uuid \<Rightarrow> uuid list \<Rightarrow> stock_row list" where
  "stockByBinsInTx rows t wh skus =
     (if skus = [] then [] else filter (\<lambda>r. so_tenant r = t \<and> so_wh r = wh \<and> so_sku r \<in> set skus \<and> 0 < so_qty r) rows)"

definition batchOnHandByBinsInTx :: "batch_row list \<Rightarrow> uuid \<Rightarrow> uuid \<Rightarrow> uuid list \<Rightarrow> batch_row list" where
  "batchOnHandByBinsInTx rows t wh skus =
     (if skus = [] then [] else filter (\<lambda>r. ba_tenant r = t \<and> ba_wh r = wh \<and> ba_sku r \<in> set skus \<and> 0 < ba_qty r) rows)"

definition getBatchIntakesForSkusInTx :: "intake_row list \<Rightarrow> uuid \<Rightarrow> uuid list \<Rightarrow> intake_row list" where
  "getBatchIntakesForSkusInTx lots t skus =
     (if skus = [] then [] else filter (\<lambda>l. lo_tenant l = t \<and> in_sku l \<in> set skus) lots)"

definition skuRowsInTx :: "sku_facts list \<Rightarrow> uuid \<Rightarrow> uuid list \<Rightarrow> sku_facts list" where
  "skuRowsInTx rows t skus = (if skus = [] then [] else filter (\<lambda>k. sk_tenant k = t \<and> sk_id k \<in> set skus) rows)"

definition getSkuStorageClassesInTx :: "sku_facts list \<Rightarrow> uuid \<Rightarrow> uuid list \<Rightarrow> uuid \<Rightarrow> string option" where
  "getSkuStorageClassesInTx rows t skus = js_map (map (\<lambda>k. (sk_id k, sf_class k)) (skuRowsInTx rows t skus))"

definition skuClientIdsInTx :: "sku_facts list \<Rightarrow> uuid \<Rightarrow> uuid list \<Rightarrow> uuid \<Rightarrow> uuid option" where
  "skuClientIdsInTx rows t skus = js_map (map (\<lambda>k. (sk_id k, sk_client k)) (skuRowsInTx rows t skus))"

definition skuShelfLifeFactsInTx :: "sku_facts list \<Rightarrow> uuid \<Rightarrow> uuid list \<Rightarrow> uuid \<Rightarrow> (int option \<times> bool) option" where
  "skuShelfLifeFactsInTx rows t skus = js_map (map (\<lambda>k. (sk_id k, (sf_shelf k, sf_tracked k))) (skuRowsInTx rows t skus))"

section \<open>The policy of a client\<close>

record pool_policy =
  pp_rule :: allocation_rule
  pp_min :: "int option"

definition DEFAULT_ALLOCATION_POLICY :: pool_policy where
  "DEFAULT_ALLOCATION_POLICY = \<lparr>pp_rule = Fefo, pp_min = None\<rparr>"

definition allocationPolicyOf :: "client_row \<Rightarrow> pool_policy" where
  "allocationPolicyOf row =
     \<lparr>pp_rule = (if isAllocationRule (cl_rule row) then (if cl_rule row = ''fifo'' then Fifo else Fefo) else Fefo), pp_min = cl_min_days row\<rparr>"

definition allocationPoliciesInTx :: "client_row list \<Rightarrow> uuid \<Rightarrow> uuid list \<Rightarrow> uuid \<Rightarrow> pool_policy option" where
  "allocationPoliciesInTx rows t ids client =
     (let found = js_map (map (\<lambda>c. (cl_id c, allocationPolicyOf c)) (filter (\<lambda>c. cl_tenant c = t \<and> cl_id c \<in> set ids) rows))
      in if client \<in> set ids then Some (case found client of None \<Rightarrow> DEFAULT_ALLOCATION_POLICY | Some p \<Rightarrow> p) else None)"

section \<open>The pool\<close>

record stock_slot = slot +
  ss_bin :: uuid
  ss_code :: string
  ss_remaining :: int

record ranked_batch = slot +
  rb_qty :: int

record pool_input =
  pi_skus :: "uuid list"
  pi_bins :: "pick_bin list"
  pi_class :: "uuid \<Rightarrow> string option"
  pi_stock :: "stock_row list"
  pi_batches :: "batch_row list"
  pi_intakes :: "intake_row list"
  pi_at :: millis
  pi_policy :: "uuid \<Rightarrow> pool_policy"
  pi_judged :: "iso_date option"

definition intake_of :: "intake_row list \<Rightarrow> uuid \<Rightarrow> intake_row option" where
  "intake_of intakes = js_map (map (\<lambda>l. (lo_id l, l)) intakes)"

definition facts_of :: "intake_row list \<Rightarrow> uuid \<Rightarrow> batch_facts option" where
  "facts_of intakes batch = map_option (\<lambda>l. \<lparr>bf_expiry = map_option Instant (lo_expiry l), bf_created = Instant (in_created l)\<rparr>)
     (intake_of intakes batch)"

definition bin_rank :: "pick_bin list \<Rightarrow> uuid \<Rightarrow> int option" where
  "bin_rank bins = js_map (map (\<lambda>(i, b). (bn_id b, int i)) (enumerate 0 bins))"

definition pool_bin :: "pick_bin list \<Rightarrow> uuid \<Rightarrow> pick_bin option" where
  "pool_bin bins = js_map (map (\<lambda>b. (bn_id b, b)) bins)"

definition drawable_batch :: "pool_input \<Rightarrow> uuid \<Rightarrow> uuid \<Rightarrow> bool" where
  "drawable_batch inp sku batch =
     (case intake_of (pi_intakes inp) batch of None \<Rightarrow> False
      | Some l \<Rightarrow> isBatchAllocatableAt (lo_status l) (map_option Instant (lo_expiry l)) (pi_at inp)
          (pp_min (pi_policy inp sku)) (pi_judged inp))"

definition class_conforms :: "pool_input \<Rightarrow> uuid \<Rightarrow> uuid \<Rightarrow> bool" where
  "class_conforms inp sku bin =
     (case (pi_class inp sku, pool_bin (pi_bins inp) bin) of
        (Some c, Some b) \<Rightarrow> storageClassSatisfies c (pk_class b)
      | _ \<Rightarrow> False)"

text \<open>The budget of a bin, spent over its allocatable batches in the rule's order.\<close>

fun spend_budget :: "uuid \<Rightarrow> string \<Rightarrow> int \<Rightarrow> int \<Rightarrow> ranked_batch list \<Rightarrow> stock_slot list" where
  "spend_budget bin code walk budget [] = []"
| "spend_budget bin code walk budget (b # bs) =
     (if budget \<le> 0 then []
      else let remaining = min (rb_qty b) budget in
        \<lparr>sl_walk = walk, sl_batch = sl_batch b, ss_bin = bin, ss_code = code, ss_remaining = remaining\<rparr> #
        spend_budget bin code walk (budget - remaining) bs)"

definition bin_slots :: "pool_input \<Rightarrow> uuid \<Rightarrow> stock_row \<Rightarrow> stock_slot list" where
  "bin_slots inp sku row =
     (let code = (case pool_bin (pi_bins inp) (so_bin row) of None \<Rightarrow> '''' | Some b \<Rightarrow> bn_code b);
          walk = (case bin_rank (pi_bins inp) (so_bin row) of None \<Rightarrow> 0 | Some i \<Rightarrow> i);
          batchRows = filter (\<lambda>r. ba_sku r = sku \<and> ba_bin r = so_bin row) (pi_batches inp);
          loose = (\<lambda>n. \<lparr>sl_walk = walk, sl_batch = None, ss_bin = so_bin row, ss_code = code, ss_remaining = n\<rparr>)
      in if batchRows = [] then [loose (so_qty row)]
         else let drawable = rankSlots (map (\<lambda>r. \<lparr>sl_walk = walk, sl_batch = Some (ba_batch r), rb_qty = ba_qty r\<rparr>)
                    (filter (\<lambda>r. drawable_batch inp sku (ba_batch r)) batchRows)) (pp_rule (pi_policy inp sku)) (facts_of (pi_intakes inp));
                  accounted = sum_list (map ba_qty batchRows);
                  uncovered = max 0 (so_qty row - accounted)
              in spend_budget (so_bin row) code walk (so_qty row - uncovered) drawable @
                 (if 0 < uncovered then [loose uncovered] else []))"

definition plain_rows :: "pool_input \<Rightarrow> uuid \<Rightarrow> stock_row list" where
  "plain_rows inp sku =
     sort_key (\<lambda>r. the (bin_rank (pi_bins inp) (so_bin r)))
       (filter (\<lambda>r. so_sku r = sku \<and> bin_rank (pi_bins inp) (so_bin r) \<noteq> None \<and> class_conforms inp sku (so_bin r)) (pi_stock inp))"

definition sku_slots :: "pool_input \<Rightarrow> uuid \<Rightarrow> stock_slot list" where
  "sku_slots inp sku =
     rankSlots (concat (map (bin_slots inp sku) (plain_rows inp sku))) (pp_rule (pi_policy inp sku)) (facts_of (pi_intakes inp))"

definition buildStockPool :: "pool_input \<Rightarrow> uuid \<Rightarrow> stock_slot list option" where
  "buildStockPool inp sku = (if sku \<in> set (pi_skus inp) then Some (sku_slots inp sku) else None)"

section \<open>Taking from the pool\<close>

text \<open>
  The loop both planners run over a line's slots: what is left of the slots, what was taken, the need
  that remains and the units passed over.
\<close>

fun draw_slots :: "(stock_slot \<Rightarrow> bool) \<Rightarrow> int \<Rightarrow> stock_slot list \<Rightarrow> stock_slot list \<times> (stock_slot \<times> int) list \<times> int \<times> int" where
  "draw_slots eligible need [] = ([], [], need, 0)"
| "draw_slots eligible need (s # ss) =
     (if need = 0 then (s # ss, [], need, 0)
      else if ss_remaining s \<le> 0 then
        (let (rest, taken, need', skipped) = draw_slots eligible need ss in (s # rest, taken, need', skipped))
      else if \<not> eligible s then
        (let (rest, taken, need', skipped) = draw_slots eligible need ss in (s # rest, taken, need', skipped + ss_remaining s))
      else let take' = min need (ss_remaining s);
               (rest, taken, need', skipped) = draw_slots eligible (need - take') ss
           in (s\<lparr>ss_remaining := ss_remaining s - take'\<rparr> # rest, (s, take') # taken, need', skipped))"

end
