(* ===== verification/Outbound.thy ===== *)
theory Outbound
  imports StockPool Valkey
begin

text \<open>
  The tables of the wave planner (\<open>shared/db/schema.ts\<close>), and what every command of it starts and ends
  with: the role check, the idempotency replay and the idempotency record. A command is one tenant
  transaction, so it is a function from the tables to a refusal or to an answer and the new tables.
  \<open>hash\<close> is SHA-256 over the JSON of a payload, a parameter; fresh ids are \<open>newId 0, newId 1, \<dots>\<close>. The ids of
  outbox, audit and idempotency rows, their payload texts and the time stamps of rows are left out.
\<close>

section \<open>Tables\<close>

record user_row =
  us_id :: uuid
  us_tenant :: uuid
  us_role :: string

record warehouse_row =
  wr_tenant :: uuid
  wr_id :: uuid

record order_row =
  or_id :: uuid
  or_tenant :: uuid
  or_wh :: uuid
  or_client :: uuid
  or_status :: string
  or_priority :: string
  or_ship :: "iso_date option"
  or_created :: millis
  or_gstin :: "string option"

record order_line =
  ol_id :: uuid
  ol_tenant :: uuid
  ol_order :: uuid
  ol_sku :: uuid
  ol_reserved :: int
  ol_reservation :: "uuid option"
  ol_created :: millis
  ol_qty :: int
  ol_parent :: "uuid option"

record partner_row =
  pa_id :: uuid
  pa_tenant :: uuid
  pa_gstin :: "string option"

record partner_link =
  lk_tenant :: uuid
  lk_partner :: uuid
  lk_client :: uuid
  lk_role :: string
  lk_days :: "int option"
  lk_percent :: "int option"

record policy_row =
  po_id :: uuid
  po_tenant :: uuid
  po_wh :: uuid
  po_name :: string
  po_grouping :: string
  po_priority :: int
  po_max :: "int option"
  po_cutoff :: "string option"
  po_carrier :: "uuid option"

record wave_row =
  wv_id :: uuid
  wv_tenant :: uuid
  wv_wh :: uuid
  wv_policy :: uuid
  wv_status :: string
  wv_alerted :: "iso_date option"

record picklist_row =
  pt_id :: uuid
  pt_tenant :: uuid
  pt_wh :: uuid
  pt_wave :: uuid
  pt_order :: "uuid option"
  pt_status :: string
  pt_created :: millis

record planned_slice =
  sc_order :: uuid
  sc_line :: uuid
  sc_sku :: uuid
  sc_reservation :: "uuid option"
  sc_bin :: "uuid option"
  sc_code :: "string option"
  sc_batch :: "uuid option"
  sc_qty :: int
  sc_shortfall :: int
  sc_seq :: int
  sc_status :: string
  sc_rule :: "string option"
  sc_min_days :: "int option"
  sc_partner :: "uuid option"
  sc_days :: "int option"
  sc_percent :: "int option"
  sc_base :: "int option"
  sc_cause :: "string option"

record pick_line = planned_slice +
  pl_tenant :: uuid
  pl_picklist :: uuid
  pl_wave :: uuid
  pl_walk :: int
  pl_id :: uuid
  pl_reason :: "string option"

text \<open>What a pick reads and writes besides.\<close>

record device_row =
  dv_id :: uuid
  dv_tenant :: uuid
  dv_status :: string
  dv_pin :: "string option"
  dv_seen :: "millis option"

record serial_row =
  se_id :: uuid
  se_tenant :: uuid
  se_sku :: uuid
  se_number :: string

record recall_row =
  rc_id :: uuid
  rc_tenant :: uuid
  rc_status :: string
  rc_mode :: string

record recall_line =
  rl_tenant :: uuid
  rl_batch :: uuid
  rl_recall :: uuid

record pick_row =
  pr_id :: uuid
  pr_tenant :: uuid
  pr_wh :: uuid
  pr_wave :: uuid
  pr_picklist :: uuid
  pr_line :: uuid
  pr_order :: uuid
  pr_order_line :: uuid
  pr_sku :: uuid
  pr_bin :: uuid
  pr_suggested_bin :: "uuid option"
  pr_batch :: "uuid option"
  pr_suggested_batch :: "uuid option"
  pr_reservation :: "uuid option"
  pr_committed :: bool
  pr_class :: string
  pr_qty :: int
  pr_by :: uuid
  pr_picked_at :: millis
  pr_device :: uuid

section \<open>Commands and answers\<close>

text \<open>
  The answer of a pick: the row's columns (the quantity in milli-units; the bin, SKU and batch codes are left
  out), its line's new state, what became of the hold, and the slices it was re-planned into (id, bin,
  batch, quantity, slice and walk numbers).
\<close>

record pick_snapshot =
  sn_id :: "uuid option"
  sn_line :: uuid
  sn_order_line :: uuid
  sn_bin :: uuid
  sn_batch :: "uuid option"
  sn_qty :: int
  sn_reservation :: "uuid option"
  sn_committed :: bool
  sn_status :: string
  sn_shortfall :: int
  sn_reason :: "string option"
  sn_released :: bool
  sn_replan_hold :: "uuid option"
  sn_replanned :: "(uuid \<times> uuid \<times> uuid option \<times> int \<times> int \<times> int) list"
  sn_class :: string

text \<open>
  The answer of an allocation: the lines that were given a hold (with the ordered and the held quantity), the
  lines still short of stock (with what is missing) and the lines passed over, each with its reason. The SKUs
  are left out; quantities are in milli-units.
\<close>

record allocation_result =
  al_order :: uuid
  al_wh :: uuid
  al_allocated :: "(uuid \<times> int \<times> int) list"
  al_short :: "(uuid \<times> int) list"
  al_skipped :: "(uuid \<times> string) list"

datatype payload =
    PolicyPayload uuid uuid string string "int option" "int option" "string option" "uuid option"
  | GeneratePayload uuid uuid uuid "uuid list option"
  | TransitionPayload uuid uuid string
  | PickPayload uuid uuid uuid uuid uuid uuid uuid uuid "int \<times> int" string "string list option" "string option"
  | AllocatePayload uuid uuid

datatype response =
    PolicyAnswer policy_row
  | WaveAnswer wave_row "(picklist_row \<times> pick_line list) list"
  | PickAnswer pick_snapshot
  | AllocationAnswer allocation_result

record idempotency_row =
  ik_tenant :: uuid
  ik_key :: string
  ik_hash :: string
  ik_response :: response

record outbound_db =
  ob_iv :: inventory_db
  ob_bins :: "pick_bin list"
  ob_intakes :: "intake_row list"
  ob_skus :: "sku_facts list"
  ob_users :: "user_row list"
  ob_warehouses :: "warehouse_row list"
  ob_orders :: "order_row list"
  ob_lines :: "order_line list"
  ob_partners :: "partner_row list"
  ob_links :: "partner_link list"
  ob_policies :: "policy_row list"
  ob_waves :: "wave_row list"
  ob_lists :: "picklist_row list"
  ob_picks :: "pick_line list"
  ob_keys :: "idempotency_row list"
  ob_outbox :: "(uuid \<times> string \<times> uuid) list"
  ob_audit :: "(uuid \<times> uuid \<times> string \<times> uuid) list"
  ob_devices :: "device_row list"
  ob_serials :: "serial_row list"
  ob_recalls :: "recall_row list"
  ob_recall_lines :: "recall_line list"
  ob_drawn :: "pick_row list"

type_synonym 'a command = "outbound_db \<Rightarrow> ('a \<times> outbound_db) result"

definition role_denied :: failure where "role_denied = Problem ''role-denied'' 403"
definition validationFailed :: failure where "validationFailed = Problem ''validation-failed'' 400"
definition not_found :: failure where "not_found = Problem ''not-found'' 404"
definition wave_conflict :: failure where "wave_conflict = Problem ''conflict'' 409"
definition noEligibleOrders :: failure where "noEligibleOrders = Problem ''no-eligible-orders'' 422"
definition wave_cap_exceeded :: failure where "wave_cap_exceeded = Problem ''wave-cap-exceeded'' 422"
definition cutoff_passed :: failure where "cutoff_passed = Problem ''cutoff-passed'' 409"
definition idempotencyKeyReuse :: failure where "idempotencyKeyReuse = Problem ''idempotency-key-reuse'' 422"

section \<open>What every command does first and last\<close>

definition holds_waves_manage :: "string \<Rightarrow> bool" where
  "holds_waves_manage role = (role \<in> set [''owner'', ''ops_manager''])"

definition assertPermission :: "outbound_db \<Rightarrow> uuid \<Rightarrow> uuid \<Rightarrow> unit result" where
  "assertPermission db t actor =
     (case find (\<lambda>u. us_id u = actor \<and> us_tenant u = t) (ob_users db) of
        None \<Rightarrow> Inl role_denied
      | Some u \<Rightarrow> require (holds_waves_manage (us_role u)) role_denied)"

definition replay :: "outbound_db \<Rightarrow> uuid \<Rightarrow> string \<Rightarrow> string \<Rightarrow> response option result" where
  "replay db t key h =
     (case find (\<lambda>r. ik_tenant r = t \<and> ik_key r = key) (ob_keys db) of
        None \<Rightarrow> Inr None
      | Some r \<Rightarrow> if ik_hash r \<noteq> h then Inl idempotencyKeyReuse else Inr (Some (ik_response r)))"

definition writeIdempotencyKey :: "uuid \<Rightarrow> string \<Rightarrow> string \<Rightarrow> response \<Rightarrow> response command" where
  "writeIdempotencyKey t key h response db =
     (if list_ex (\<lambda>r. ik_tenant r = t \<and> ik_key r = key) (ob_keys db) then Inl wave_conflict
      else Inr (response, db\<lparr>ob_keys := ob_keys db @ [\<lparr>ik_tenant = t, ik_key = key, ik_hash = h, ik_response = response\<rparr>]\<rparr>))"

definition announce :: "uuid \<Rightarrow> uuid \<Rightarrow> string \<Rightarrow> uuid \<Rightarrow> outbound_db \<Rightarrow> outbound_db" where
  "announce t actor type subject db =
     db\<lparr>ob_outbox := ob_outbox db @ [(t, type, subject)], ob_audit := ob_audit db @ [(t, actor, type, subject)]\<rparr>"

text \<open>The head of a command: the role check and the replay, then its body.\<close>

definition command :: "uuid \<Rightarrow> uuid \<Rightarrow> string \<Rightarrow> string \<Rightarrow> response command \<Rightarrow> response command" where
  "command t actor key h body db =
     and_then (assertPermission db t actor) (\<lambda>_.
     and_then (replay db t key h) (\<lambda>stored.
     case stored of Some response \<Rightarrow> Inr (response, db) | None \<Rightarrow> body db))"

section \<open>Urgency\<close>

definition orderPriorityRank :: "string \<Rightarrow> nat" where
  "orderPriorityRank p = (case map_of [(''urgent'', 0), (''high'', 1), (''normal'', 2)] p of Some n \<Rightarrow> n | None \<Rightarrow> 3)"

definition isDue :: "iso_date option \<Rightarrow> iso_date \<Rightarrow> bool" where
  "isDue ship today = (case ship of None \<Rightarrow> False | Some d \<Rightarrow> d \<le> today)"

definition byte_compare :: "'a::linorder \<Rightarrow> 'a \<Rightarrow> int" where
  "byte_compare a b = (if a < b then -1 else if b < a then 1 else 0)"

definition compareOrderUrgency :: "iso_date \<Rightarrow> order_row \<Rightarrow> order_row \<Rightarrow> int" where
  "compareOrderUrgency today a b =
     (let dueA = isDue (or_ship a) today; dueB = isDue (or_ship b) today in
      if dueA \<noteq> dueB then (if dueA then -1 else 1)
      else let rank = int (orderPriorityRank (or_priority a)) - int (orderPriorityRank (or_priority b)) in
      if rank \<noteq> 0 then rank
      else if or_ship a \<noteq> or_ship b then
        (case (or_ship a, or_ship b) of
           (None, _) \<Rightarrow> 1
         | (_, None) \<Rightarrow> -1
         | (Some x, Some y) \<Rightarrow> byte_compare x y)
      else let created = byte_compare (or_created a) (or_created b) in
      if created \<noteq> 0 then created else byte_compare (or_id a) (or_id b))"

text \<open>The \<open>order by\<close> list of the SQL twin.\<close>

definition orderUrgencyOrderBy :: "iso_date \<Rightarrow> order_row \<Rightarrow> bool \<times> nat \<times> (bool \<times> iso_date) \<times> millis \<times> uuid" where
  "orderUrgencyOrderBy today r =
     (\<not> isDue (or_ship r) today, orderPriorityRank (or_priority r),
      (case or_ship r of None \<Rightarrow> (True, today) | Some d \<Rightarrow> (False, d)), or_created r, or_id r)"

text \<open>A stable sort by a comparator (\<open>Array.prototype.sort\<close>).\<close>

fun insert_by :: "('a \<Rightarrow> 'a \<Rightarrow> int) \<Rightarrow> 'a \<Rightarrow> 'a list \<Rightarrow> 'a list" where
  "insert_by cmp x [] = [x]"
| "insert_by cmp x (y # ys) = (if cmp x y \<le> 0 then x # y # ys else y # insert_by cmp x ys)"

definition js_sort :: "('a \<Rightarrow> 'a \<Rightarrow> int) \<Rightarrow> 'a list \<Rightarrow> 'a list" where
  "js_sort cmp xs = foldr (insert_by cmp) xs []"

lemma js_sort_key:
  assumes "\<And>x y. (cmp x y \<le> 0) = (key x \<le> key y)"
  shows "js_sort cmp xs = sort_key key xs"
proof -
  have "insert_by cmp x ys = insort_key key x ys" for x ys
    by (induction ys) (simp_all add: assms)
  then have "insert_by cmp = insort_key key" by (intro ext)
  then show ?thesis by (simp add: js_sort_def sort_key_def)
qed

lemma urgency_twins: "(compareOrderUrgency today a b \<le> 0) = (orderUrgencyOrderBy today a \<le> orderUrgencyOrderBy today b)"
  by (auto simp: compareOrderUrgency_def orderUrgencyOrderBy_def byte_compare_def Let_def less_eq_prod_def less_prod_def
      split: option.split if_splits)

end
