(* ===== verification/WavePlan.thy ===== *)
theory WavePlan
  imports Outbound
begin

text \<open>
  The planning part of \<open>modules/outbound/wave.command.ts\<close> and the re-plan of \<open>replan.ts\<close>: which orders a
  wave takes, in which order their lines are planned, how each line is spread over the ranked slots of
  its SKU, and where the remainder of a short pick can be drawn instead. The consignee rules come from
  the partner links (\<open>partners.facade.ts\<close>).
\<close>

section \<open>Consignee rules\<close>

definition upper_char :: "char \<Rightarrow> char" where
  "upper_char c = (if 97 \<le> (of_char c :: nat) \<and> (of_char c :: nat) \<le> 122 then char_of (of_char c - 32 :: nat) else c)"

definition normalizeOrderGstin :: "string \<Rightarrow> string" where
  "normalizeOrderGstin g = map upper_char (js_trim g)"

record rule_of_order =
  ro_partner :: uuid
  ro_days :: "int option"
  ro_percent :: "int option"

text \<open>The key of a (client, GSTIN) pair is the pair itself here: a client id holds no bar.\<close>

definition consigneeShelfLifeRulesInTx :: "outbound_db \<Rightarrow> uuid \<Rightarrow> (uuid \<times> string) list \<Rightarrow> uuid \<times> string \<Rightarrow> rule_of_order option" where
  "consigneeShelfLifeRulesInTx db t pairs =
     (let wanted = filter (\<lambda>(c, g). g \<noteq> '''') (map (\<lambda>(c, g). (c, normalizeOrderGstin g)) pairs);
          rows = [((lk_client l, g), \<lparr>ro_partner = pa_id p, ro_days = lk_days l, ro_percent = lk_percent l\<rparr>).
            l \<leftarrow> ob_links db, p \<leftarrow> ob_partners db,
            pa_tenant p = lk_tenant l \<and> pa_id p = lk_partner l \<and> lk_tenant l = t \<and> lk_role l = ''consignee'' \<and>
            lk_client l \<in> fst ` set wanted \<and> (lk_days l \<noteq> None \<or> lk_percent l \<noteq> None),
            g \<leftarrow> (case pa_gstin p of None \<Rightarrow> [] | Some g \<Rightarrow> if g \<in> snd ` set wanted then [g] else [])]
      in js_map (filter (\<lambda>(key, rule). key \<in> set wanted) (map (\<lambda>((c, g), rule). ((c, normalizeOrderGstin g), rule)) rows)))"

section \<open>Selecting the orders\<close>

definition DEFAULT_WAVE_MAX_ORDERS :: int where "DEFAULT_WAVE_MAX_ORDERS = 200"
definition MAX_SELECTED_ORDERS :: nat where "MAX_SELECTED_ORDERS = 500"

definition openClaims :: "outbound_db \<Rightarrow> uuid \<Rightarrow> uuid list \<Rightarrow> (uuid \<times> uuid) list" where
  "openClaims db t orders =
     remdups (map (\<lambda>p. (sc_order p, pl_wave p)) (filter (\<lambda>p. pl_tenant p = t \<and> sc_order p \<in> set orders \<and> sc_status p \<noteq> ''cancelled'') (ob_picks db)))"

definition eligible_order :: "outbound_db \<Rightarrow> uuid \<Rightarrow> uuid \<Rightarrow> order_row \<Rightarrow> bool" where
  "eligible_order db t wh r =
     (or_tenant r = t \<and> or_wh r = wh \<and> or_status r = ''accepted'' \<and>
      \<not> list_ex (\<lambda>p. pl_tenant p = t \<and> sc_order p = or_id r \<and> sc_status p \<noteq> ''cancelled'') (ob_picks db) \<and>
      list_ex (\<lambda>l. ol_tenant l = t \<and> ol_order l = or_id r \<and> 0 < ol_reserved l \<and> ol_reservation l \<noteq> None) (ob_lines db))"

definition lock_order :: "order_row list \<Rightarrow> order_row list" where
  "lock_order rows = sort_key (\<lambda>r. (or_created r, or_id r)) rows"

text \<open>The loser of a concurrent claim: the winner is re-read and named; either way a 409.\<close>

definition claim_lost :: failure where "claim_lost = wave_conflict"

definition select_named :: "outbound_db \<Rightarrow> uuid \<Rightarrow> uuid \<Rightarrow> int \<Rightarrow> iso_date \<Rightarrow> uuid list \<Rightarrow> uuid list result" where
  "select_named db t wh cap today selection =
     (let rows = lock_order (filter (\<lambda>r. or_tenant r = t \<and> or_id r \<in> set selection) (ob_orders db)) in
      and_then (foldM (\<lambda>_ i.
        case js_map (map (\<lambda>r. (or_id r, r)) rows) i of
          None \<Rightarrow> Inl not_found
        | Some r \<Rightarrow> if or_wh r \<noteq> wh then Inl not_found
            else require (or_status r = ''accepted'') noEligibleOrders) () selection) (\<lambda>_.
      if openClaims db t selection \<noteq> [] then Inl wave_conflict
      else if int (length selection) > cap then Inl wave_cap_exceeded
      else Inr (map or_id (js_sort (compareOrderUrgency today) rows))))"

text \<open>One pass of the sweep: the candidates by urgency, the locked re-read, the first \<open>cap\<close> still free.\<close>

definition sweep_candidates :: "outbound_db \<Rightarrow> uuid \<Rightarrow> uuid \<Rightarrow> int \<Rightarrow> iso_date \<Rightarrow> uuid list" where
  "sweep_candidates db t wh cap today =
     map or_id (take (nat (cap * 2)) (sort_key (orderUrgencyOrderBy today) (filter (eligible_order db t wh) (ob_orders db))))"

definition sweep_kept :: "outbound_db \<Rightarrow> uuid \<Rightarrow> uuid \<Rightarrow> int \<Rightarrow> iso_date \<Rightarrow> uuid list \<Rightarrow> uuid list" where
  "sweep_kept db t wh cap today candidates =
     (let locked = lock_order (filter (\<lambda>r. eligible_order db t wh r \<and> or_id r \<in> set candidates) (ob_orders db));
          claimedNow = map fst (openClaims db t (map or_id locked))
      in map or_id (take (nat cap) (js_sort (compareOrderUrgency today) (filter (\<lambda>r. or_id r \<notin> set claimedNow) locked))))"

text \<open>The two attempts of the sweep see the same tables here, as nothing runs between them.\<close>

definition select_sweep :: "outbound_db \<Rightarrow> uuid \<Rightarrow> uuid \<Rightarrow> int \<Rightarrow> iso_date \<Rightarrow> uuid list result" where
  "select_sweep db t wh cap today =
     (let candidates = sweep_candidates db t wh cap today in
      if candidates = [] then Inl noEligibleOrders
      else let kept = sweep_kept db t wh cap today candidates in
        if kept \<noteq> [] then Inr kept else Inl claim_lost)"

definition selectOrders :: "outbound_db \<Rightarrow> uuid \<Rightarrow> uuid \<Rightarrow> policy_row \<Rightarrow> millis \<Rightarrow> uuid list option \<Rightarrow> uuid list result" where
  "selectOrders db t wh policy now selection =
     (let cap = (case po_max policy of Some n \<Rightarrow> n | None \<Rightarrow> DEFAULT_WAVE_MAX_ORDERS); today = ist_date now in
      case selection of Some ids \<Rightarrow> select_named db t wh cap today ids | None \<Rightarrow> select_sweep db t wh cap today)"

section \<open>Planning a line\<close>

record line_terms =
  lt_policy :: pool_policy
  lt_rule :: "rule_of_order option"
  lt_shelf :: "int option"
  lt_tracked :: bool

definition line_consignee :: "line_terms \<Rightarrow> consignee_arm option" where
  "line_consignee terms =
     (case lt_rule terms of None \<Rightarrow> None
      | Some rule \<Rightarrow> if \<not> lt_tracked terms then None
          else Some (consigneeMinimumDays \<lparr>cr_days = ro_days rule, cr_percent = ro_percent rule\<rparr> (lt_shelf terms)))"

definition slot_expiry :: "intake_row list \<Rightarrow> stock_slot \<Rightarrow> stored_instant option" where
  "slot_expiry intakes s = (case sl_batch s of None \<Rightarrow> None
     | Some b \<Rightarrow> (case intake_of intakes b of None \<Rightarrow> None | Some l \<Rightarrow> map_option Instant (lo_expiry l)))"

definition line_eligible :: "intake_row list \<Rightarrow> millis \<Rightarrow> line_terms \<Rightarrow> stock_slot \<Rightarrow> bool" where
  "line_eligible intakes at terms s =
     (line_consignee terms = None \<or>
      meetsConsigneeShelfLife (sl_batch s) (slot_expiry intakes s) (lt_tracked terms) at (line_consignee terms) None)"

definition rule_name :: "allocation_rule \<Rightarrow> string" where
  "rule_name rule = (case rule of Fefo \<Rightarrow> ''fefo'' | Fifo \<Rightarrow> ''fifo'')"

definition slice_of :: "order_line \<Rightarrow> line_terms \<Rightarrow> planned_slice" where
  "slice_of line terms =
     \<lparr>sc_order = ol_order line, sc_line = ol_id line, sc_sku = ol_sku line, sc_reservation = ol_reservation line,
      sc_bin = None, sc_code = None, sc_batch = None, sc_qty = 0, sc_shortfall = 0, sc_seq = 0, sc_status = ''planned'',
      sc_rule = Some (rule_name (pp_rule (lt_policy terms))), sc_min_days = pp_min (lt_policy terms),
      sc_partner = (case line_consignee terms of None \<Rightarrow> None | Some _ \<Rightarrow> map_option ro_partner (lt_rule terms)),
      sc_days = (case line_consignee terms of None \<Rightarrow> None | Some arm \<Rightarrow> ca_days arm),
      sc_percent = (case line_consignee terms of None \<Rightarrow> None | Some _ \<Rightarrow> (case lt_rule terms of None \<Rightarrow> None | Some r \<Rightarrow> ro_percent r)),
      sc_base = (case line_consignee terms of None \<Rightarrow> None
        | Some _ \<Rightarrow> (case lt_rule terms of None \<Rightarrow> None | Some r \<Rightarrow> if ro_percent r = None then None else lt_shelf terms)),
      sc_cause = None\<rparr>"

definition drawn_slice :: "order_line \<Rightarrow> line_terms \<Rightarrow> nat \<Rightarrow> stock_slot \<times> int \<Rightarrow> planned_slice" where
  "drawn_slice line terms i = (\<lambda>(s, n). (slice_of line terms)\<lparr>sc_bin := Some (ss_bin s), sc_code := Some (ss_code s),
     sc_batch := sl_batch s, sc_qty := n, sc_seq := int i\<rparr>)"

definition short_cause :: "line_terms \<Rightarrow> int \<Rightarrow> string option" where
  "short_cause terms skipped =
     (case line_consignee terms of None \<Rightarrow> None
      | Some arm \<Rightarrow> if skipped = 0 then None
          else Some (if ca_judgeable arm then ''consignee-shelf-life'' else ''consignee-unjudgeable''))"

definition short_slice :: "order_line \<Rightarrow> line_terms \<Rightarrow> nat \<Rightarrow> int \<Rightarrow> int \<Rightarrow> planned_slice" where
  "short_slice line terms i need skipped = (slice_of line terms)\<lparr>sc_shortfall := need, sc_seq := int i,
     sc_status := ''unfulfillable'', sc_cause := short_cause terms skipped\<rparr>"

definition plan_line :: "intake_row list \<Rightarrow> millis \<Rightarrow> line_terms \<Rightarrow> order_line \<Rightarrow> stock_slot list \<Rightarrow> stock_slot list \<times> planned_slice list" where
  "plan_line intakes at terms line slots =
     (let (rest, taken, need, skipped) = draw_slots (line_eligible intakes at terms) (ol_reserved line) slots;
          drawn = map (\<lambda>(i, x). drawn_slice line terms i x) (enumerate 0 taken)
      in (rest, drawn @ (if 0 < need then [short_slice line terms (length taken) need skipped] else [])))"

section \<open>Planning a wave\<close>

text \<open>The pool is consumed as it is planned: a line leaves to the next what it did not take.\<close>

fun plan_lines :: "intake_row list \<Rightarrow> millis \<Rightarrow> (order_line \<Rightarrow> line_terms) \<Rightarrow> order_line list
    \<Rightarrow> (uuid \<Rightarrow> stock_slot list option) \<Rightarrow> planned_slice list" where
  "plan_lines intakes at terms [] pool = []"
| "plan_lines intakes at terms (line # rest) pool =
     (let slots = (case pool (ol_sku line) of None \<Rightarrow> [] | Some ss \<Rightarrow> ss);
          (left', slices) = plan_line intakes at (terms line) line slots
      in slices @ plan_lines intakes at terms rest
           (if pool (ol_sku line) = None then pool else pool(ol_sku line \<mapsto> left')))"

definition blank :: "string option \<Rightarrow> bool" where
  "blank g = (case g of None \<Rightarrow> True | Some s \<Rightarrow> js_trim s = '''')"

definition order_of :: "outbound_db \<Rightarrow> uuid \<Rightarrow> uuid list \<Rightarrow> uuid \<Rightarrow> order_row option" where
  "order_of db t ids = js_map (map (\<lambda>r. (or_id r, r)) (filter (\<lambda>r. or_tenant r = t \<and> or_id r \<in> set ids) (ob_orders db)))"

definition plan_skus :: "order_line list \<Rightarrow> uuid list" where
  "plan_skus lines = remdups (map ol_sku lines)"

definition policy_of_sku :: "outbound_db \<Rightarrow> uuid \<Rightarrow> uuid list \<Rightarrow> uuid \<Rightarrow> pool_policy" where
  "policy_of_sku db t skus sku =
     (let clients = skuClientIdsInTx (ob_skus db) t skus;
          ids = [c. s \<leftarrow> skus, c \<leftarrow> (case clients s of None \<Rightarrow> [] | Some c \<Rightarrow> [c])]
      in case clients sku of None \<Rightarrow> DEFAULT_ALLOCATION_POLICY
         | Some c \<Rightarrow> (case allocationPoliciesInTx (iv_clients (ob_iv db)) t ids c of None \<Rightarrow> DEFAULT_ALLOCATION_POLICY | Some p \<Rightarrow> p))"

definition wave_pool_input :: "outbound_db \<Rightarrow> uuid \<Rightarrow> uuid \<Rightarrow> millis \<Rightarrow> uuid list \<Rightarrow> pool_input" where
  "wave_pool_input db t wh at skus =
     \<lparr>pi_skus = skus, pi_bins = pickableBinsInTx (ob_bins db) t wh, pi_class = getSkuStorageClassesInTx (ob_skus db) t skus,
      pi_stock = stockByBinsInTx (db_stock (iv_ledger (ob_iv db))) t wh skus,
      pi_batches = batchOnHandByBinsInTx (db_batches (iv_ledger (ob_iv db))) t wh skus,
      pi_intakes = getBatchIntakesForSkusInTx (ob_intakes db) t skus, pi_at = at, pi_policy = policy_of_sku db t skus, pi_judged = None\<rparr>"

definition wave_terms :: "outbound_db \<Rightarrow> uuid \<Rightarrow> order_line list \<Rightarrow> order_line \<Rightarrow> line_terms" where
  "wave_terms db t lines line =
     (let skus = plan_skus lines; orders = order_of db t (map ol_order lines);
          pairs = [(or_client r, g). r \<leftarrow> filter (\<lambda>r. or_tenant r = t \<and> or_id r \<in> set (map ol_order lines)) (ob_orders db),
            \<not> blank (or_gstin r), g \<leftarrow> (case or_gstin r of None \<Rightarrow> [] | Some g \<Rightarrow> [g])];
          rules = consigneeShelfLifeRulesInTx db t pairs;
          facts = skuShelfLifeFactsInTx (ob_skus db) t skus (ol_sku line)
      in \<lparr>lt_policy = policy_of_sku db t skus (ol_sku line),
          lt_rule = (case orders (ol_order line) of None \<Rightarrow> None
            | Some r \<Rightarrow> if blank (or_gstin r) then None else rules (or_client r, normalizeOrderGstin (the (or_gstin r)))),
          lt_shelf = (case facts of None \<Rightarrow> None | Some (shelf, _) \<Rightarrow> shelf),
          lt_tracked = (case facts of None \<Rightarrow> False | Some (_, tracked) \<Rightarrow> tracked)\<rparr>)"

definition line_attributed :: "outbound_db \<Rightarrow> uuid \<Rightarrow> order_line list \<Rightarrow> order_line \<Rightarrow> bool" where
  "line_attributed db t lines line =
     (case (order_of db t (map ol_order lines) (ol_order line), skuClientIdsInTx (ob_skus db) t (plan_skus lines) (ol_sku line)) of
        (Some r, Some c) \<Rightarrow> c = or_client r
      | _ \<Rightarrow> False)"

definition planSlices :: "outbound_db \<Rightarrow> uuid \<Rightarrow> uuid \<Rightarrow> millis \<Rightarrow> order_line list \<Rightarrow> planned_slice list result" where
  "planSlices db t wh now lines =
     (let inp = wave_pool_input db t wh now (plan_skus lines) in
      and_then (require (list_all (line_attributed db t lines) lines) (Thrown ''wave-plan-attribution'')) (\<lambda>_.
      Inr (plan_lines (pi_intakes inp) now (wave_terms db t lines) lines (buildStockPool inp))))"

section \<open>Re-planning a short pick\<close>

definition openClaimsInTx :: "outbound_db \<Rightarrow> uuid \<Rightarrow> uuid \<Rightarrow> uuid list \<Rightarrow> (uuid \<times> int) list" where
  "openClaimsInTx db t sku bins =
     (if bins = [] then []
      else let open_line = (\<lambda>p. pl_tenant p = t \<and> sc_sku p = sku \<and> sc_status p = ''planned'' \<and>
             (case sc_bin p of None \<Rightarrow> False | Some b \<Rightarrow> b \<in> set bins))
        in map (\<lambda>b. (b, sum_where (\<lambda>p. open_line p \<and> sc_bin p = Some b) sc_qty (ob_picks db)))
             (remdups (map (the \<circ> sc_bin) (filter open_line (ob_picks db)))))"

text \<open>Claims of one bin, spent over its slots in rank order.\<close>

fun spend_claim :: "uuid \<Rightarrow> int \<Rightarrow> stock_slot list \<Rightarrow> stock_slot list" where
  "spend_claim bin outstanding [] = []"
| "spend_claim bin outstanding (s # ss) =
     (if outstanding = 0 then s # ss
      else if ss_bin s \<noteq> bin then s # spend_claim bin outstanding ss
      else let spent = min outstanding (ss_remaining s)
        in s\<lparr>ss_remaining := ss_remaining s - spent\<rparr> # spend_claim bin (outstanding - spent) ss)"

record replan_scope =
  rs_tenant :: uuid
  rs_wh :: uuid
  rs_sku :: uuid
  rs_exclude :: uuid
  rs_need :: int
  rs_at :: millis
  rs_rule :: allocation_rule
  rs_min :: "int option"
  rs_judged :: iso_date
  rs_consignee :: "consignee_arm option"
  rs_tracked :: bool

record replan_slice =
  rp_bin :: uuid
  rp_code :: string
  rp_batch :: "uuid option"
  rp_qty :: int
  rp_rank :: int

definition replan_bins :: "outbound_db \<Rightarrow> replan_scope \<Rightarrow> pick_bin list" where
  "replan_bins db sc = filter (\<lambda>b. bn_id b \<noteq> rs_exclude sc) (pickableBinsInTx (ob_bins db) (rs_tenant sc) (rs_wh sc))"

definition replan_input :: "outbound_db \<Rightarrow> replan_scope \<Rightarrow> pool_input" where
  "replan_input db sc =
     \<lparr>pi_skus = [rs_sku sc], pi_bins = replan_bins db sc, pi_class = getSkuStorageClassesInTx (ob_skus db) (rs_tenant sc) [rs_sku sc],
      pi_stock = stockByBinsInTx (db_stock (iv_ledger (ob_iv db))) (rs_tenant sc) (rs_wh sc) [rs_sku sc],
      pi_batches = batchOnHandByBinsInTx (db_batches (iv_ledger (ob_iv db))) (rs_tenant sc) (rs_wh sc) [rs_sku sc],
      pi_intakes = getBatchIntakesForSkusInTx (ob_intakes db) (rs_tenant sc) [rs_sku sc], pi_at = rs_at sc,
      pi_policy = (\<lambda>_. \<lparr>pp_rule = rs_rule sc, pp_min = rs_min sc\<rparr>), pi_judged = Some (rs_judged sc)\<rparr>"

definition replan_eligible :: "outbound_db \<Rightarrow> replan_scope \<Rightarrow> stock_slot \<Rightarrow> bool" where
  "replan_eligible db sc s =
     (rs_consignee sc = None \<or>
      meetsConsigneeShelfLife (sl_batch s) (slot_expiry (pi_intakes (replan_input db sc)) s) (rs_tracked sc) (rs_at sc)
        (rs_consignee sc) (Some (rs_judged sc)))"

definition unclaimed_slots :: "outbound_db \<Rightarrow> replan_scope \<Rightarrow> stock_slot list" where
  "unclaimed_slots db sc =
     foldl (\<lambda>slots (bin, units). spend_claim bin units slots) (sku_slots (replan_input db sc) (rs_sku sc))
       (openClaimsInTx db (rs_tenant sc) (rs_sku sc) (map bn_id (replan_bins db sc)))"

definition findReplanSlices :: "outbound_db \<Rightarrow> replan_scope \<Rightarrow> replan_slice list" where
  "findReplanSlices db sc =
     (if rs_need sc \<le> 0 then []
      else if replan_bins db sc = [] then []
      else let (_, taken, _, _) = draw_slots (replan_eligible db sc) (rs_need sc) (unclaimed_slots db sc)
        in map (\<lambda>(i, s, n). \<lparr>rp_bin = ss_bin s, rp_code = ss_code s, rp_batch = sl_batch s, rp_qty = n, rp_rank = int i\<rparr>)
             (enumerate 0 taken))"

section \<open>The walk\<close>

text \<open>By bin code, then SKU, order, line and slice; the slices without a bin come last.\<close>

definition walk_key :: "'a planned_slice_scheme \<Rightarrow> (bool \<times> string) \<times> string \<times> string \<times> string \<times> int" where
  "walk_key s = ((case sc_code s of None \<Rightarrow> (True, '''') | Some c \<Rightarrow> (False, c)), sc_sku s, sc_order s, sc_line s, sc_seq s)"

definition sortWalk :: "planned_slice list \<Rightarrow> planned_slice list" where
  "sortWalk slices = sort_key walk_key slices"

text \<open>The rows of a wave, their ids numbered through the groups.\<close>

fun picklistLineValues :: "(nat \<Rightarrow> uuid) \<Rightarrow> uuid \<Rightarrow> uuid \<Rightarrow> (uuid \<times> planned_slice list) list \<Rightarrow> pick_line list" where
  "picklistLineValues newId t wave [] = []"
| "picklistLineValues newId t wave ((picklist, slices) # groups) =
     map (\<lambda>(i, s). planned_slice.extend s
       \<lparr>pl_tenant = t, pl_picklist = picklist, pl_wave = wave, pl_walk = int i, pl_id = newId i, pl_reason = None\<rparr>) (enumerate 0 (sortWalk slices)) @
     picklistLineValues (\<lambda>i. newId (length slices + i)) t wave groups"

end
