(* ===== verification/Wave.thy ===== *)
theory Wave
  imports WavePlan
begin

text \<open>
  The commands of \<open>modules/outbound/wave.command.ts\<close>: the wave policies, a wave's generation, release and
  cancellation, and the sweep that warns of a cutoff. Each is one transaction over the tables of
  \<open>Outbound\<close>; a refusal leaves them as they were.
\<close>

section \<open>Reads\<close>

definition loadPolicy :: "outbound_db \<Rightarrow> uuid \<Rightarrow> uuid \<Rightarrow> policy_row result" where
  "loadPolicy db t i = (case find (\<lambda>p. po_id p = i \<and> po_tenant p = t) (ob_policies db) of None \<Rightarrow> Inl not_found | Some p \<Rightarrow> Inr p)"

definition loadWaveForUpdate :: "outbound_db \<Rightarrow> uuid \<Rightarrow> uuid \<Rightarrow> wave_row result" where
  "loadWaveForUpdate db t i =
     (if \<not> uuid_shape i then Inl validationFailed
      else case find (\<lambda>w. wv_id w = i \<and> wv_tenant w = t) (ob_waves db) of None \<Rightarrow> Inl not_found | Some w \<Rightarrow> Inr w)"

definition assertWarehouseInTenant :: "outbound_db \<Rightarrow> uuid \<Rightarrow> uuid \<Rightarrow> unit result" where
  "assertWarehouseInTenant db t wh = require (list_ex (\<lambda>r. wr_tenant r = t \<and> wr_id r = wh) (ob_warehouses db)) not_found"

definition snapshotOf :: "outbound_db \<Rightarrow> wave_row \<Rightarrow> response" where
  "snapshotOf db w =
     WaveAnswer w (map (\<lambda>l. (l, sort_key pl_walk (filter (\<lambda>p. pl_tenant p = wv_tenant w \<and> pl_wave p = wv_id w \<and> pl_picklist p = pt_id l) (ob_picks db))))
       (filter (\<lambda>l. pt_tenant l = wv_tenant w \<and> pt_wave l = wv_id w) (ob_lists db)))"

definition snapshotById :: "outbound_db \<Rightarrow> uuid \<Rightarrow> uuid \<Rightarrow> response result" where
  "snapshotById db t i = (case find (\<lambda>w. wv_id w = i \<and> wv_tenant w = t) (ob_waves db) of
     None \<Rightarrow> Inl (Thrown ''TypeError'') | Some w \<Rightarrow> Inr (snapshotOf db w))"

section \<open>Policies\<close>

record policy_command =
  wp_tenant :: uuid
  wp_actor :: uuid
  wp_wh :: uuid
  wp_name :: string
  wp_grouping :: string
  wp_priority :: "int option"
  wp_max :: "int option"
  wp_cutoff :: "string option"
  wp_carrier :: "uuid option"

definition CUTOFF_RE :: "string \<Rightarrow> bool" where
  "CUTOFF_RE s = (case s of
     [h, h', c, m, m'] \<Rightarrow> c = CHR '':'' \<and> m \<in> set ''012345'' \<and> m' \<in> set ''0123456789'' \<and>
       (h \<in> set ''01'' \<and> h' \<in> set ''0123456789'' \<or> h = CHR ''2'' \<and> h' \<in> set ''0123'')
   | _ \<Rightarrow> False)"

definition check_policy :: "policy_command \<Rightarrow> unit result" where
  "check_policy c =
     and_then (require (js_trim (wp_name c) \<noteq> '''' \<and> length (js_trim (wp_name c)) \<le> 120) validationFailed) (\<lambda>_.
     and_then (require (wp_grouping c \<in> set [''single'', ''batch'']) validationFailed) (\<lambda>_.
     and_then (require (case wp_priority c of None \<Rightarrow> True | Some p \<Rightarrow> 0 \<le> p \<and> p \<le> 1000) validationFailed) (\<lambda>_.
     and_then (require (case wp_max c of None \<Rightarrow> True | Some n \<Rightarrow> 1 \<le> n \<and> n \<le> 500) validationFailed) (\<lambda>_.
     and_then (require (case wp_cutoff c of None \<Rightarrow> True | Some s \<Rightarrow> CUTOFF_RE s) validationFailed) (\<lambda>_.
     and_then (require (uuid_shape (wp_wh c)) validationFailed) (\<lambda>_.
     require (case wp_carrier c of None \<Rightarrow> True | Some s \<Rightarrow> uuid_shape s) validationFailed))))))"

definition policy_of :: "uuid \<Rightarrow> policy_command \<Rightarrow> policy_row" where
  "policy_of newId c = \<lparr>po_id = newId, po_tenant = wp_tenant c, po_wh = wp_wh c, po_name = js_trim (wp_name c),
     po_grouping = wp_grouping c, po_priority = (case wp_priority c of None \<Rightarrow> 0 | Some p \<Rightarrow> p), po_max = wp_max c,
     po_cutoff = wp_cutoff c, po_carrier = wp_carrier c\<rparr>"

definition createWavePolicy :: "(payload \<Rightarrow> string) \<Rightarrow> uuid \<Rightarrow> policy_command \<Rightarrow> string \<Rightarrow> response command" where
  "createWavePolicy hash newId c key =
     (let t = wp_tenant c;
          h = hash (PolicyPayload t (wp_wh c) (js_trim (wp_name c)) (wp_grouping c) (wp_priority c) (wp_max c) (wp_cutoff c) (wp_carrier c)) in
      command t (wp_actor c) key h (\<lambda>db.
        and_then (check_policy c) (\<lambda>_.
        and_then (assertWarehouseInTenant db t (wp_wh c)) (\<lambda>_.
        let row = policy_of newId c in
        if list_ex (\<lambda>p. po_tenant p = t \<and> po_wh p = wp_wh c \<and> po_name p = po_name row) (ob_policies db) then Inl wave_conflict
        else writeIdempotencyKey t key h (PolicyAnswer row)
          (announce t (wp_actor c) ''wave.policy-created'' newId (db\<lparr>ob_policies := ob_policies db @ [row]\<rparr>))))))"

section \<open>Generating a wave\<close>

record generate_command =
  gw_tenant :: uuid
  gw_actor :: uuid
  gw_wh :: uuid
  gw_policy :: uuid
  gw_orders :: "uuid list option"

definition check_generate :: "generate_command \<Rightarrow> unit result" where
  "check_generate c =
     and_then (require (uuid_shape (gw_wh c)) validationFailed) (\<lambda>_.
     and_then (require (uuid_shape (gw_policy c)) validationFailed) (\<lambda>_.
     (case gw_orders c of None \<Rightarrow> Inr ()
      | Some ids \<Rightarrow>
          and_then (require (ids \<noteq> []) validationFailed) (\<lambda>_.
          and_then (require (length (remdups ids) \<le> MAX_SELECTED_ORDERS) validationFailed) (\<lambda>_.
          require (list_all uuid_shape ids) validationFailed)))))"

text \<open>The lines with a positive reserved quantity whose hold is live.\<close>

definition held_lines :: "outbound_db \<Rightarrow> uuid \<Rightarrow> uuid list \<Rightarrow> order_line list" where
  "held_lines db t orders =
     filter (\<lambda>l. case ol_reservation l of None \<Rightarrow> False
       | Some i \<Rightarrow> list_ex (\<lambda>r. rv_tenant r = t \<and> rv_id r = i \<and> rv_state r = Held) (iv_reservations (ob_iv db)))
     (sort_key (\<lambda>l. (ol_order l, ol_created l, ol_id l))
       (filter (\<lambda>l. ol_tenant l = t \<and> ol_order l \<in> set orders \<and> 0 < ol_reserved l \<and> ol_reservation l \<noteq> None) (ob_lines db)))"

definition position :: "'a list \<Rightarrow> 'a \<Rightarrow> nat" where
  "position xs x = length (takeWhile (\<lambda>y. y \<noteq> x) xs)"

definition wave_groups :: "(nat \<Rightarrow> uuid) \<Rightarrow> policy_row \<Rightarrow> uuid list \<Rightarrow> planned_slice list \<Rightarrow> (uuid \<times> uuid option \<times> planned_slice list) list" where
  "wave_groups newId policy orders slices =
     (if po_grouping policy = ''batch'' then [(newId 1, None, slices)]
      else map (\<lambda>(i, ord). (newId (Suc i), Some ord, filter (\<lambda>s. sc_order s = ord) slices)) (enumerate 0 orders))"

definition open_slice :: "pick_line \<Rightarrow> uuid \<times> uuid \<times> int" where
  "open_slice p = (pl_tenant p, sc_line p, sc_seq p)"

text \<open>The insert under the partial unique index on open (order line, slice) claims.\<close>

definition insert_picks :: "pick_line list \<Rightarrow> outbound_db \<Rightarrow> outbound_db result" where
  "insert_picks rows db =
     (let claims = map open_slice (filter (\<lambda>p. sc_status p \<noteq> ''cancelled'') (ob_picks db @ rows))
      in if distinct claims then Inr (db\<lparr>ob_picks := ob_picks db @ rows\<rparr>) else Inl claim_lost)"

definition plan_wave :: "(nat \<Rightarrow> uuid) \<Rightarrow> millis \<Rightarrow> generate_command \<Rightarrow> outbound_db \<Rightarrow> outbound_db result" where
  "plan_wave newId now c db =
     (let t = gw_tenant c; wh = gw_wh c; selection = map_option (\<lambda>ids. sort (remdups ids)) (gw_orders c) in
      and_then (check_generate c) (\<lambda>_.
      and_then (assertWarehouseInTenant db t wh) (\<lambda>_.
      and_then (loadPolicy db t (gw_policy c)) (\<lambda>policy.
      if po_wh policy \<noteq> wh then Inl not_found
      else and_then (selectOrders db t wh policy now selection) (\<lambda>selected.
        let lines = held_lines db t selected;
            liveOrders = filter (\<lambda>i. list_ex (\<lambda>l. ol_order l = i) lines) selected
        in if lines = [] then Inl noEligibleOrders
           else if selection \<noteq> None \<and> length liveOrders \<noteq> length selected then Inl noEligibleOrders
           else and_then (planSlices db t wh now (sort_key (\<lambda>l. position selected (ol_order l)) lines)) (\<lambda>slices.
             let groups = wave_groups newId policy liveOrders slices;
                 wave = \<lparr>wv_id = newId 0, wv_tenant = t, wv_wh = wh, wv_policy = po_id policy, wv_status = ''planned'', wv_alerted = None\<rparr>
             in insert_picks (picklistLineValues (\<lambda>i. newId (Suc (length groups) + i)) t (newId 0) (map (\<lambda>(i, _, ss). (i, ss)) groups))
                  (db\<lparr>ob_waves := ob_waves db @ [wave],
                      ob_lists := ob_lists db @ map (\<lambda>(i, ord, _). \<lparr>pt_id = i, pt_tenant = t, pt_wh = wh, pt_wave = newId 0, pt_order = ord,
                        pt_status = ''planned'', pt_created = now\<rparr>) groups\<rparr>)))))))"

definition generateWave :: "(payload \<Rightarrow> string) \<Rightarrow> (nat \<Rightarrow> uuid) \<Rightarrow> millis \<Rightarrow> generate_command \<Rightarrow> string \<Rightarrow> response command" where
  "generateWave hash newId now c key =
     (let t = gw_tenant c;
          h = hash (GeneratePayload t (gw_wh c) (gw_policy c) (map_option (\<lambda>ids. sort (remdups ids)) (gw_orders c))) in
      command t (gw_actor c) key h (\<lambda>db.
        and_then (plan_wave newId now c db) (\<lambda>db.
        and_then (snapshotById db t (newId 0)) (\<lambda>snapshot.
        writeIdempotencyKey t key h snapshot (announce t (gw_actor c) ''wave.generated'' (newId 0) db)))))"

section \<open>Releasing a wave\<close>

definition two_digits :: "int \<Rightarrow> string" where
  "two_digits n = map (\<lambda>d. char_of (48 + nat d)) [n div 10, n mod 10]"

text \<open>The wall clock in Asia/Kolkata, which has no daylight saving.\<close>

definition localTimeOfDay :: "millis \<Rightarrow> string" where
  "localTimeOfDay ms =
     (let minute = ((ms + ist_offset_ms) mod ms_per_day) div 60000 in two_digits (minute div 60) @ '':'' @ two_digits (minute mod 60))"

definition cutoff_gate :: "millis \<Rightarrow> policy_row \<Rightarrow> unit result" where
  "cutoff_gate now policy = (case po_cutoff policy of None \<Rightarrow> Inr () | Some cutoff \<Rightarrow> require (\<not> cutoff < localTimeOfDay now) cutoff_passed)"

definition in_wave :: "uuid \<Rightarrow> uuid \<Rightarrow> pick_line \<Rightarrow> bool" where
  "in_wave t i p = (pl_tenant p = t \<and> pl_wave p = i)"

definition order_in :: "outbound_db \<Rightarrow> string list \<Rightarrow> pick_line \<Rightarrow> bool" where
  "order_in db statuses p = list_ex (\<lambda>r. or_id r = sc_order p \<and> or_tenant r = pl_tenant p \<and> or_status r \<in> set statuses) (ob_orders db)"

definition set_wave_status :: "uuid \<Rightarrow> uuid \<Rightarrow> string list \<Rightarrow> string \<Rightarrow> outbound_db \<Rightarrow> outbound_db" where
  "set_wave_status t i from to db =
     db\<lparr>ob_waves := update_where (\<lambda>w. wv_id w = i \<and> wv_tenant w = t \<and> wv_status w \<in> set from) (wv_status_update (\<lambda>_. to)) (ob_waves db)\<rparr>"

definition cancel_picks :: "(pick_line \<Rightarrow> bool) \<Rightarrow> outbound_db \<Rightarrow> outbound_db" where
  "cancel_picks P db = db\<lparr>ob_picks := update_where P (sc_status_update (\<lambda>_. ''cancelled'')) (ob_picks db)\<rparr>"

definition set_list_status :: "(picklist_row \<Rightarrow> bool) \<Rightarrow> string \<Rightarrow> outbound_db \<Rightarrow> outbound_db" where
  "set_list_status P to db = db\<lparr>ob_lists := update_where P (pt_status_update (\<lambda>_. to)) (ob_lists db)\<rparr>"

definition release_wave :: "uuid \<Rightarrow> uuid \<Rightarrow> outbound_db \<Rightarrow> outbound_db" where
  "release_wave t i db =
     (let db1 = set_wave_status t i [''planned''] ''released'' db;
          db2 = cancel_picks (\<lambda>p. in_wave t i p \<and> sc_status p \<noteq> ''cancelled'' \<and> order_in db1 [''cancelled''] p) db1;
          planned = (\<lambda>l. pt_tenant l = t \<and> pt_wave l = i \<and> pt_status l = ''planned'');
          db3 = set_list_status (\<lambda>l. planned l \<and>
            \<not> list_ex (\<lambda>p. pl_picklist p = pt_id l \<and> sc_status p \<noteq> ''cancelled'' \<and> sc_bin p \<noteq> None) (ob_picks db2)) ''cancelled'' db2
      in set_list_status planned ''ready'' db3)"

record transition_command =
  tw_tenant :: uuid
  tw_actor :: uuid
  tw_wave :: uuid

definition releaseWave :: "(payload \<Rightarrow> string) \<Rightarrow> millis \<Rightarrow> transition_command \<Rightarrow> string \<Rightarrow> response command" where
  "releaseWave hash now c key =
     (let t = tw_tenant c; h = hash (TransitionPayload t (tw_wave c) ''release'') in
      command t (tw_actor c) key h (\<lambda>db.
        and_then (loadWaveForUpdate db t (tw_wave c)) (\<lambda>wave.
        if wv_status wave = ''cancelled'' then Inl wave_conflict
        else if wv_status wave = ''released'' then
          and_then (snapshotById db t (wv_id wave)) (\<lambda>snapshot. writeIdempotencyKey t key h snapshot db)
        else and_then (loadPolicy db t (wv_policy wave)) (\<lambda>policy.
          and_then (cutoff_gate now policy) (\<lambda>_.
          let won = wv_status wave = ''planned'';
              db1 = (if won then release_wave t (wv_id wave) db else db) in
          and_then (snapshotById db1 t (wv_id wave)) (\<lambda>snapshot.
          writeIdempotencyKey t key h snapshot (if won then announce t (tw_actor c) ''wave.released'' (wv_id wave) db1 else db1)))))))"

section \<open>Cancelling a wave\<close>

definition picklistLineDrewUnits :: "pick_line \<Rightarrow> bool" where
  "picklistLineDrewUnits p = (sc_status p = ''picked'' \<or> sc_status p = ''short'' \<and> sc_shortfall p < sc_qty p)"

definition cancel_wave :: "uuid \<Rightarrow> uuid \<Rightarrow> outbound_db \<Rightarrow> outbound_db" where
  "cancel_wave t i db =
     (let db1 = set_wave_status t i [''planned'', ''released''] ''cancelled'' db;
          db2 = cancel_picks (\<lambda>p. in_wave t i p \<and> \<not> picklistLineDrewUnits p \<and> order_in db1 [''accepted'', ''cancelled''] p) db1
      in set_list_status (\<lambda>l. pt_tenant l = t \<and> pt_wave l = i) ''cancelled'' db2)"

definition cancelWave :: "(payload \<Rightarrow> string) \<Rightarrow> transition_command \<Rightarrow> string \<Rightarrow> response command" where
  "cancelWave hash c key =
     (let t = tw_tenant c; h = hash (TransitionPayload t (tw_wave c) ''cancel'') in
      command t (tw_actor c) key h (\<lambda>db.
        and_then (loadWaveForUpdate db t (tw_wave c)) (\<lambda>wave.
        if wv_status wave = ''cancelled'' then
          and_then (snapshotById db t (wv_id wave)) (\<lambda>snapshot. writeIdempotencyKey t key h snapshot db)
        else let won = wv_status wave \<in> set [''planned'', ''released''];
                 db1 = (if won then cancel_wave t (wv_id wave) db else db) in
          and_then (snapshotById db1 t (wv_id wave)) (\<lambda>snapshot.
          writeIdempotencyKey t key h snapshot (if won then announce t (tw_actor c) ''wave.cancelled'' (wv_id wave) db1 else db1)))))"

section \<open>The cutoff sweep\<close>

definition CUTOFF_AT_RISK_MINUTES :: int where "CUTOFF_AT_RISK_MINUTES = 60"

definition digit_of :: "char \<Rightarrow> int" where
  "digit_of c = of_char c - 48"

definition minutesOfDay :: "string \<Rightarrow> int" where
  "minutesOfDay s = (case s of [h, h', c, m, m'] \<Rightarrow> (10 * digit_of h + digit_of h') * 60 + (10 * digit_of m + digit_of m') | _ \<Rightarrow> 0)"

definition risk_candidates :: "uuid \<Rightarrow> iso_date \<Rightarrow> outbound_db \<Rightarrow> (uuid \<times> string) list" where
  "risk_candidates t today db =
     [(wv_id w, cutoff). w \<leftarrow> sort_key wv_id (filter (\<lambda>w. wv_tenant w = t \<and> wv_status w = ''planned'' \<and> wv_alerted w \<noteq> Some today) (ob_waves db)),
        p \<leftarrow> ob_policies db, po_id p = wv_policy w \<and> po_tenant p = wv_tenant w,
        cutoff \<leftarrow> (case po_cutoff p of None \<Rightarrow> [] | Some s \<Rightarrow> [s])]"

definition raise_risk :: "uuid \<Rightarrow> iso_date \<Rightarrow> int \<Rightarrow> uuid list \<times> outbound_db \<Rightarrow> uuid \<times> string \<Rightarrow> uuid list \<times> outbound_db" where
  "raise_risk t today nowMinutes = (\<lambda>(raised, db) (i, cutoff).
     let remaining = minutesOfDay cutoff - nowMinutes;
         P = (\<lambda>w. wv_id w = i \<and> wv_tenant w = t \<and> wv_status w = ''planned'' \<and> wv_alerted w \<noteq> Some today)
     in if \<not> CUTOFF_RE cutoff \<or> remaining \<le> 0 \<or> CUTOFF_AT_RISK_MINUTES < remaining \<or> \<not> list_ex P (ob_waves db) then (raised, db)
        else (raised @ [i], db\<lparr>ob_waves := update_where P (wv_alerted_update (\<lambda>_. Some today)) (ob_waves db),
               ob_outbox := ob_outbox db @ [(t, ''wave.cutoff_at_risk'', i)]\<rparr>))"

definition sweepCutoffRisk :: "uuid \<Rightarrow> millis \<Rightarrow> outbound_db \<Rightarrow> uuid list \<times> outbound_db" where
  "sweepCutoffRisk t now db =
     foldl (raise_risk t (ist_date now) (minutesOfDay (localTimeOfDay now))) ([], db) (risk_candidates t (ist_date now) db)"

end
