(* ===== verification/Instant.thy ===== *)
theory Instant
  imports Time
begin

text \<open>
  Reading an instant (\<open>assertUtcIso\<close> of \<open>shared/primitives/time.ts\<close>): the \<open>Z\<close>-suffixed ISO-8601 text a device
  or a client sends, with its epoch milliseconds. A text of the right shape that names no real instant
  (31 February, 24:00) is refused, as its components do not survive \<open>Date\<close>; digits of a second beyond the
  third are cut off.
\<close>

section \<open>Digits\<close>

definition is_digit :: "char \<Rightarrow> bool" where
  "is_digit c = (c \<in> set ''0123456789'')"

definition digits_value :: "string \<Rightarrow> nat" where
  "digits_value s = foldl (\<lambda>a c. 10 * a + (of_char c - 48)) 0 s"

definition slice :: "nat \<Rightarrow> nat \<Rightarrow> 'a list \<Rightarrow> 'a list" where
  "slice i n s = take n (drop i s)"

text \<open>The text of exactly \<open>n\<close> digits at a position.\<close>

definition number_at :: "string \<Rightarrow> nat \<Rightarrow> nat \<Rightarrow> int option" where
  "number_at s i n =
     (let d = slice i n s in if length d = n \<and> list_all is_digit d then Some (int (digits_value d)) else None)"

text \<open>The tail after the seconds: \<open>Z\<close>, or a point, digits and \<open>Z\<close>; its milliseconds.\<close>

definition fraction_millis :: "string \<Rightarrow> int option" where
  "fraction_millis tail =
     (if tail = ''Z'' then Some 0
      else case tail of
        c # ds \<Rightarrow> if c = CHR ''.'' \<and> 2 \<le> length ds \<and> last ds = CHR ''Z'' \<and> list_all is_digit (butlast ds)
          then Some (int (digits_value (take 3 (butlast ds @ ''00''))))
          else None
      | [] \<Rightarrow> None)"

definition separators_ok :: "string \<Rightarrow> bool" where
  "separators_ok s =
     (slice 4 1 s = ''-'' \<and> slice 7 1 s = ''-'' \<and> slice 10 1 s = ''T'' \<and> slice 13 1 s = '':'' \<and> slice 16 1 s = '':'')"

definition invalid_instant :: failure where
  "invalid_instant = Thrown ''Timestamp must be a valid ISO-8601 UTC instant''"

definition assertUtcIso :: "string \<Rightarrow> millis result" where
  "assertUtcIso s =
     (if \<not> separators_ok s then Inl invalid_instant
      else case (number_at s 0 4, number_at s 5 2, number_at s 8 2, number_at s 11 2, number_at s 14 2, number_at s 17 2,
          fraction_millis (drop 19 s)) of
        (Some y, Some m, Some d, Some h, Some mi, Some sec, Some ms) \<Rightarrow>
          if valid_date (IsoDate y m d) \<and> h < 24 \<and> mi < 60 \<and> sec < 60
          then Inr (day_of_date (IsoDate y m d) * ms_per_day + h * 3600000 + mi * 60000 + sec * 1000 + ms)
          else Inl invalid_instant
      | _ \<Rightarrow> Inl invalid_instant)"

section \<open>Printing and reading\<close>

lemma digit_facts: "is_digit (digit_char n) \<and> of_char (digit_char n) - 48 = n mod 10"
proof -
  define k where "k = n mod 10"
  have "k = 0 \<or> k = 1 \<or> k = 2 \<or> k = 3 \<or> k = 4 \<or> k = 5 \<or> k = 6 \<or> k = 7 \<or> k = 8 \<or> k = 9"
    unfolding k_def by presburger
  then show ?thesis unfolding digit_char_def is_digit_def k_def [symmetric] by (elim disjE) simp_all
qed

lemma length_pad_text [simp]: "length (pad_text k n) = k"
  by (induction k arbitrary: n) simp_all

lemma pad_text_digits [simp]: "list_all is_digit (pad_text k n)"
  by (induction k arbitrary: n) (simp_all add: digit_facts)

lemma digits_value_pad: "digits_value (pad_text k n) = n mod 10 ^ k"
proof (induction k arbitrary: n)
  case (Suc k)
  have "digits_value (pad_text (Suc k) n) = 10 * (n div 10 mod 10 ^ k) + n mod 10"
    using Suc digit_facts [of n] by (simp add: digits_value_def)
  also have "\<dots> = n mod 10 ^ Suc k" by (simp add: mod_mult2_eq)
  finally show ?case .
qed (simp add: digits_value_def)

lemma slice_skip: "length a = i \<Longrightarrow> slice (i + j) n (a @ b) = slice j n b"
  by (simp add: slice_def)

lemma slice_here: "length a = n \<Longrightarrow> slice 0 n (a @ b) = a"
  by (simp add: slice_def)

text \<open>A text made of fields is read field by field.\<close>

definition utc_text :: "nat \<Rightarrow> nat \<Rightarrow> nat \<Rightarrow> nat \<Rightarrow> nat \<Rightarrow> nat \<Rightarrow> nat \<Rightarrow> string" where
  "utc_text y m d h mi sec ms =
     pad_text 4 y @ ''-'' @ pad_text 2 m @ ''-'' @ pad_text 2 d @ ''T'' @ pad_text 2 h @ '':'' @ pad_text 2 mi @ '':'' @ pad_text 2 sec @
     ''.'' @ pad_text 3 ms @ ''Z''"

lemma utc_text_fields:
  "separators_ok (utc_text y m d h mi sec ms)"
  "number_at (utc_text y m d h mi sec ms) 0 4 = Some (int (y mod 10000))"
  "number_at (utc_text y m d h mi sec ms) 5 2 = Some (int (m mod 100))"
  "number_at (utc_text y m d h mi sec ms) 8 2 = Some (int (d mod 100))"
  "number_at (utc_text y m d h mi sec ms) 11 2 = Some (int (h mod 100))"
  "number_at (utc_text y m d h mi sec ms) 14 2 = Some (int (mi mod 100))"
  "number_at (utc_text y m d h mi sec ms) 17 2 = Some (int (sec mod 100))"
  "fraction_millis (drop 19 (utc_text y m d h mi sec ms)) = Some (int (ms mod 1000))"
  by (simp_all add: utc_text_def separators_ok_def number_at_def slice_def digits_value_pad fraction_millis_def last_append butlast_append del: pad_text.simps)

lemma iso_string_utc_text:
  assumes "0 \<le> iso_year (date_of_day (ms div ms_per_day))" "iso_year (date_of_day (ms div ms_per_day)) \<le> 9999"
  shows "iso_string ms = (let a = date_of_day (ms div ms_per_day); t = ms mod ms_per_day in
    utc_text (nat (iso_year a)) (nat (iso_month a)) (nat (iso_day a)) (nat (t div 3600000)) (nat (t div 60000 mod 60))
      (nat (t div 1000 mod 60)) (nat (t mod 1000)))"
  using assms by (simp add: iso_string_def utc_text_def iso_date_text_def year_text_def Let_def)

lemma time_of_day:
  assumes "0 \<le> t" "t < ms_per_day"
  shows "t div 3600000 < 24" "t div 60000 mod 60 < (60::int)" "t div 1000 mod 60 < (60::int)"
    and "t div 3600000 * 3600000 + t div 60000 mod 60 * 60000 + t div 1000 mod 60 * 1000 + t mod 1000 = (t :: int)"
proof -
  have b: "t div 60000 = t div 1000 div 60" and c: "t div 3600000 = t div 1000 div 60 div 60"
    by (simp_all add: zdiv_zmult2_eq [symmetric])
  show "t div 3600000 < 24" "t div 60000 mod 60 < 60" "t div 1000 mod 60 < 60" using assms by (auto simp: ms_per_day_def)
  have "t = 1000 * (t div 1000) + t mod 1000" by simp
  moreover have "t div 1000 = 60 * (t div 1000 div 60) + t div 1000 mod 60" by simp
  moreover have "t div 1000 div 60 = 60 * (t div 1000 div 60 div 60) + t div 1000 div 60 mod 60" by simp
  ultimately show "t div 3600000 * 3600000 + t div 60000 mod 60 * 60000 + t div 1000 mod 60 * 1000 + t mod 1000 = t"
    unfolding b c by linarith
qed

lemma valid_date_fields:
  assumes "valid_date a" shows "1 \<le> iso_month a" "iso_month a < 100" "1 \<le> iso_day a" "iso_day a < 100"
proof -
  show "1 \<le> iso_month a" "iso_month a < 100" "1 \<le> iso_day a" using assms by (simp_all add: valid_date_def)
  have "iso_month a = 1 \<or> iso_month a = 2 \<or> iso_month a = 3 \<or> iso_month a = 4 \<or> iso_month a = 5 \<or> iso_month a = 6 \<or> iso_month a = 7 \<or>
      iso_month a = 8 \<or> iso_month a = 9 \<or> iso_month a = 10 \<or> iso_month a = 11 \<or> iso_month a = 12"
    using assms unfolding valid_date_def by presburger
  then show "iso_day a < 100" using assms
    by (elim disjE; cases "leap_year (iso_year a)") (simp_all add: valid_date_def month_start_def)
qed

text \<open>
  Every instant of the years 0 to 9999 survives printing and reading: \<open>assertUtcIso\<close> accepts what
  \<open>toISOString\<close> prints and reads the same milliseconds.
\<close>
theorem instant_roundtrip:
  assumes "0 \<le> iso_year (date_of_day (ms div ms_per_day))" "iso_year (date_of_day (ms div ms_per_day)) \<le> 9999"
  shows "assertUtcIso (iso_string ms) = Inr ms"
proof -
  define a where "a = date_of_day (ms div ms_per_day)"
  define t where "t = ms mod ms_per_day"
  have t: "0 \<le> t" "t < ms_per_day" by (simp_all add: t_def ms_per_day_def)
  have valid: "valid_date a" by (simp add: a_def)
  note a = valid_date_fields [OF this]
  have shown: "iso_string ms = utc_text (nat (iso_year a)) (nat (iso_month a)) (nat (iso_day a)) (nat (t div 3600000))
      (nat (t div 60000 mod 60)) (nat (t div 1000 mod 60)) (nat (t mod 1000))"
    using iso_string_utc_text [of ms] assms by (simp add: a_def t_def Let_def)
  have fields: "nat (iso_year a) mod 10000 = nat (iso_year a)" "nat (iso_month a) mod 100 = nat (iso_month a)"
    "nat (iso_day a) mod 100 = nat (iso_day a)" "nat (t div 3600000) mod 100 = nat (t div 3600000)"
    "nat (t div 60000 mod 60) mod 100 = nat (t div 60000 mod 60)" "nat (t div 1000 mod 60) mod 100 = nat (t div 1000 mod 60)"
    "nat (t mod 1000) mod 1000 = nat (t mod 1000)"
    using assms a time_of_day(1-3) [OF t] by (simp_all add: a_def [symmetric] nat_less_iff)
  have day: "day_of_date a * ms_per_day + t = ms" by (simp add: a_def t_def)
  have time: "0 \<le> t div 3600000" using t by simp
  have date: "IsoDate (int (nat (iso_year a))) (int (nat (iso_month a))) (int (nat (iso_day a))) = a"
    using assms a by (simp add: a_def [symmetric])
  have clock: "int (nat (t div 3600000)) = t div 3600000" "int (nat (t div 60000 mod 60)) = t div 60000 mod 60"
    "int (nat (t div 1000 mod 60)) = t div 1000 mod 60" "int (nat (t mod 1000)) = t mod 1000"
    using time by simp_all
  have total: "day_of_date a * ms_per_day + t div 3600000 * 3600000 + t div 60000 mod 60 * 60000 + t div 1000 mod 60 * 1000 + t mod 1000 = ms"
    using day time_of_day(4) [OF t] by linarith
  show ?thesis
    unfolding shown assertUtcIso_def utc_text_fields fields option.case prod.case date clock total
    using valid time_of_day(1-3) [OF t] by (simp only: utc_text_fields(1) simp_thms if_True if_False)
qed

theorem instant_roundtrip_witness: "assertUtcIso (iso_string 1709210096789) = Inr 1709210096789 \<and> iso_string 1709210096789 = ''2024-02-29T12:34:56.789Z''"
proof -
  have "0 \<le> iso_year (date_of_day (1709210096789 div ms_per_day)) \<and> iso_year (date_of_day (1709210096789 div ms_per_day)) \<le> 9999"
    by code_simp
  moreover have "iso_string 1709210096789 = ''2024-02-29T12:34:56.789Z''" by code_simp
  ultimately show ?thesis using instant_roundtrip [of 1709210096789] by simp
qed

end
