(* ===== verification/Quantity.thy ===== *)
theory Quantity
  imports Prelude Complex_Main
begin

text \<open>
  Quantities (\<open>shared/primitives/quantity.ts\<close>): an operator's number of base units becomes an integer of
  milli-units and back. A JavaScript number is a double \<open>m * 2 ^ e\<close>; \<open>nearest p q\<close> is the double nearest
  to \<open>p / q\<close> (ties to even, exponents unbounded), so each product and quotient below is the one the code
  computes. \<open>String(n)\<close> prints the shortest decimal that reads back as \<open>n\<close>.
\<close>

section \<open>Doubles\<close>

function bit_length :: "int \<Rightarrow> int" where
  "bit_length n = (if n \<le> 0 then 0 else 1 + bit_length (n div 2))"
  by auto
termination by (relation "measure nat") auto

text \<open>The fraction \<open>p / q\<close> divided by \<open>2 ^ e\<close>.\<close>

definition scaled :: "int \<Rightarrow> int \<Rightarrow> int \<Rightarrow> int \<times> int" where
  "scaled p q e = (if 0 \<le> e then (p, q * 2 ^ nat e) else (p * 2 ^ nat (- e), q))"

definition round_half_even :: "int \<Rightarrow> int \<Rightarrow> int" where
  "round_half_even n d =
     (let k = n div d; r = n mod d in if 2 * r < d then k else if d < 2 * r then k + 1 else if even k then k else k + 1)"

definition exponent_of :: "int \<Rightarrow> int \<Rightarrow> int" where
  "exponent_of p q =
     (let e = bit_length \<bar>p\<bar> - bit_length q - 53; (n, d) = scaled \<bar>p\<bar> q e in if n < 2 ^ 53 * d then e else e + 1)"

datatype js_number = Fin int int | NonFinite

definition nearest :: "int \<Rightarrow> int \<Rightarrow> int \<times> int" where
  "nearest p q =
     (if p = 0 then (0, 0) else let e = exponent_of p q; (n, d) = scaled p q e in (round_half_even n d, e))"

text \<open>The number as a fraction, and \<open>Math.round\<close> (to the nearest integer, halves upwards).\<close>

definition fraction :: "int \<times> int \<Rightarrow> int \<times> int" where
  "fraction x = (case x of (m, e) \<Rightarrow> scaled m 1 (- e))"

definition math_round :: "int \<times> int \<Rightarrow> int" where
  "math_round x = (case fraction x of (n, d) \<Rightarrow> (2 * n + d) div (2 * d))"

definition same_number :: "int \<times> int \<Rightarrow> int \<times> int \<Rightarrow> bool" where
  "same_number x y = (case (fraction x, fraction y) of ((n, d), (n', d')) \<Rightarrow> n * d' = n' * d)"

definition times_int :: "int \<times> int \<Rightarrow> int \<Rightarrow> int \<times> int" where
  "times_int x k = (case fraction x of (n, d) \<Rightarrow> nearest (n * k) d)"

section \<open>The conversions\<close>

definition QUANTITY_DECIMALS :: nat where "QUANTITY_DECIMALS = 3"
definition QUANTITY_SCALE :: int where "QUANTITY_SCALE = 10 ^ QUANTITY_DECIMALS"
definition MAX_SAFE :: int where "MAX_SAFE = 2 ^ 53 - 1"

definition MAX_QUANTITY_BASE :: int where
  "MAX_QUANTITY_BASE = (case fraction (nearest MAX_SAFE QUANTITY_SCALE) of (n, d) \<Rightarrow> n div d)"

definition isSafeInteger :: "int \<Rightarrow> bool" where
  "isSafeInteger n = (\<bar>n\<bar> \<le> MAX_SAFE)"

definition toMilli :: "js_number \<Rightarrow> int result" where
  "toMilli value =
     (case value of
        NonFinite \<Rightarrow> Inl (Thrown ''Quantity must be a finite number'')
      | Fin m e \<Rightarrow> (let milli = math_round (times_int (m, e) QUANTITY_SCALE) in
          if isSafeInteger milli then Inr milli else Inl (Thrown ''Quantity out of exact range'')))"

definition number_of :: "int \<times> int \<Rightarrow> js_number" where
  "number_of x = (case x of (m, e) \<Rightarrow> Fin m e)"

text \<open>
  \<open>toFixed(k)\<close> is the nearest decimal of \<open>k\<close> places (the larger magnitude on a tie), \<open>Number\<close> of it
  the nearest double.
\<close>

definition to_fixed :: "int \<times> int \<Rightarrow> nat \<Rightarrow> int" where
  "to_fixed x k = (case fraction x of (n, d) \<Rightarrow> sgn n * ((2 * (\<bar>n\<bar> * 10 ^ k) + d) div (2 * d)))"

definition fromMilli :: "int \<Rightarrow> js_number result" where
  "fromMilli milli =
     (if \<not> isSafeInteger milli then Inl (Thrown ''Quantity must be an exact integer'')
      else let x = nearest milli QUANTITY_SCALE in
        if milli mod QUANTITY_SCALE = 0 then Inr (number_of x)
        else Inr (number_of (nearest (to_fixed x QUANTITY_DECIMALS) (10 ^ QUANTITY_DECIMALS))))"

section \<open>The gate\<close>

text \<open>
  \<open>decimalPlaces\<close> counts the places of \<open>String(Math.abs(value))\<close>, the shortest decimal that reads back as
  the number, so it is at most \<open>k\<close> exactly when a decimal of at most \<open>k\<close> places reads back as it. By
  monotonicity of rounding the two decimals around the number decide that.
\<close>

definition reads_back :: "int \<times> int \<Rightarrow> nat \<Rightarrow> bool" where
  "reads_back x k =
     (case fraction x of (n, d) \<Rightarrow>
        let below = \<bar>n\<bar> * 10 ^ k div d; size = (\<bar>fst x\<bar>, snd x) in
        same_number (nearest below (10 ^ k)) size \<or> same_number (nearest (below + 1) (10 ^ k)) size)"

definition isAtPrecision :: "int \<times> int \<Rightarrow> nat \<Rightarrow> bool" where
  "isAtPrecision x precision = list_ex (reads_back x) [0..<Suc precision]"

definition scalesToZero :: "int \<times> int \<Rightarrow> bool" where
  "scalesToZero x = (fst x \<noteq> 0 \<and> toMilli (number_of x) = Inr 0)"

datatype quantity_sign = Signed | NonNegative | Positive
datatype quantity_arm = Ceiling | Sign | Precision | Vanish

definition validateRecordableQuantity :: "js_number \<Rightarrow> nat \<Rightarrow> quantity_sign \<Rightarrow> quantity_arm + int" where
  "validateRecordableQuantity value precision sign =
     (case value of
        NonFinite \<Rightarrow> Inl Ceiling
      | Fin m e \<Rightarrow>
          if (case fraction (m, e) of (n, d) \<Rightarrow> \<bar>n\<bar> > MAX_QUANTITY_BASE * d) then Inl Ceiling
          else if sign = NonNegative \<and> m < 0 then Inl Sign
          else if sign = Positive \<and> m \<le> 0 then Inl Sign
          else if \<not> isAtPrecision (m, e) precision then Inl Precision
          else if scalesToZero (m, e) then Inl Vanish
          else (case toMilli value of Inr milli \<Rightarrow> Inr milli | Inl _ \<Rightarrow> Inl Ceiling))"

definition assertRecordableQuantity :: "js_number \<Rightarrow> nat \<Rightarrow> int result" where
  "assertRecordableQuantity value precision =
     (case validateRecordableQuantity value precision Signed of
        Inr milli \<Rightarrow> Inr milli
      | Inl arm \<Rightarrow> Inl (Problem ''validation-failed'' 400))"

section \<open>Rounding errors\<close>

declare bit_length.simps [simp del]

definition number_value :: "int \<times> int \<Rightarrow> real" where
  "number_value x = of_int (fst x) * 2 powi snd x"

lemma bit_length_nonneg: "0 \<le> bit_length n"
  by (induction n rule: bit_length.induct) (subst bit_length.simps, simp)

lemma bit_length_bounds:
  "0 < n \<Longrightarrow> 2 powi (bit_length n - 1) \<le> real_of_int n \<and> real_of_int n < 2 powi bit_length n"
proof (induction n rule: bit_length.induct)
  case (1 n)
  have step: "bit_length n = 1 + bit_length (n div 2)" using 1(2) by (simp add: bit_length.simps [of n])
  show ?case
  proof (cases "n = 1")
    case True
    then show ?thesis using step by (simp add: bit_length.simps [of 0])
  next
    case False
    then have "0 < n div 2" "\<not> n \<le> 0" using 1(2) by auto
    then have IH: "2 powi (bit_length (n div 2) - 1) \<le> real_of_int (n div 2)"
      "real_of_int (n div 2) < 2 powi bit_length (n div 2)"
      using 1(1) by blast+
    have n: "2 * real_of_int (n div 2) \<le> real_of_int n" by linarith
    obtain k where k: "bit_length (n div 2) = int k" using bit_length_nonneg [of "n div 2"] by (metis nonneg_int_cases)
    have "n div 2 < 2 ^ k" using IH(2) unfolding k power_int_of_nat by (metis of_int_less_numeral_power_cancel_iff)
    then have "n < 2 ^ Suc k" by simp
    then have up: "real_of_int n < 2 ^ Suc k" by (metis of_int_less_numeral_power_cancel_iff)
    have "(2::real) powi bit_length n = 2 ^ Suc k" unfolding step k
      by (metis of_nat_Suc power_int_of_nat add.commute)
    moreover have "(2::real) powi (bit_length n - 1) = 2 * 2 powi (bit_length (n div 2) - 1)"
      unfolding step by (simp add: power_int_diff)
    ultimately show ?thesis using up IH(1) n by linarith
  qed
qed

lemma scaled_val:
  assumes "0 < q" and "scaled p q e = (n, d)"
  shows "0 < d \<and> real_of_int n / real_of_int d = real_of_int p / real_of_int q / 2 powi e"
  using assms by (auto simp: scaled_def power_int_def field_simps split: if_splits)

lemma fraction_val: "fraction x = (n, d) \<Longrightarrow> 0 < d \<and> real_of_int n / real_of_int d = number_value x"
  using scaled_val [of 1 "fst x" "- snd x" n d] by (auto simp: fraction_def number_value_def power_int_minus field_simps split: prod.splits)

lemma round_half_even_error:
  assumes "0 < d" shows "\<bar>real_of_int (round_half_even n d) - real_of_int n / real_of_int d\<bar> \<le> 1 / 2"
proof -
  define k r where "k = n div d" and "r = n mod d"
  have split: "n = d * k + r" and r: "0 \<le> r" "r < d" using assms by (simp_all add: k_def r_def)
  have cases: "round_half_even n d = k \<and> 2 * r \<le> d \<or> round_half_even n d = k + 1 \<and> d \<le> 2 * r"
    unfolding round_half_even_def Let_def k_def [symmetric] r_def [symmetric] by auto
  have "real_of_int n / real_of_int d = real_of_int k + real_of_int r / real_of_int d"
    unfolding split using assms by (simp add: field_simps)
  moreover have "0 \<le> real_of_int r / real_of_int d" "real_of_int r / real_of_int d \<le> 1"
    using assms r by (simp_all add: field_simps)
  moreover have "real_of_int r / real_of_int d \<le> 1 / 2" if "2 * r \<le> d"
    using that assms by (simp add: field_simps)
  moreover have "1 / 2 \<le> real_of_int r / real_of_int d" if "d \<le> 2 * r"
    using that assms by (simp add: field_simps)
  ultimately show ?thesis using cases by (auto simp: abs_le_iff)
qed

text \<open>The exponent leaves at least 53 significant bits, so rounding costs at most one part in \<open>2 ^ 53\<close>.\<close>

lemma exponent_bound:
  assumes "p \<noteq> 0" "0 < q" shows "2 ^ 52 \<le> \<bar>real_of_int p\<bar> / real_of_int q / 2 powi exponent_of p q"
proof -
  define e where "e = bit_length \<bar>p\<bar> - bit_length q - 53"
  obtain n d where nd: "scaled \<bar>p\<bar> q e = (n, d)" by force
  from scaled_val [OF assms(2) nd] have d: "0 < d" and v: "real_of_int n / real_of_int d = \<bar>real_of_int p\<bar> / real_of_int q / 2 powi e"
    by simp_all
  show ?thesis
  proof (cases "n < 2 ^ 53 * d")
    case True
    then have "exponent_of p q = e" using nd by (simp add: exponent_of_def e_def)
    moreover have "2 ^ 52 \<le> \<bar>real_of_int p\<bar> / real_of_int q / 2 powi e"
    proof -
      have p: "2 powi (bit_length \<bar>p\<bar> - 1) \<le> \<bar>real_of_int p\<bar>" using bit_length_bounds [of "\<bar>p\<bar>"] assms by simp
      have q: "real_of_int q \<le> 2 powi bit_length q" using bit_length_bounds [of q] assms by simp
      have "(2::real) ^ 52 * 2 powi e * 2 powi bit_length q = 2 powi (52 + e + bit_length q)"
        by (simp add: power_int_add)
      also have "52 + e + bit_length q = bit_length \<bar>p\<bar> - 1" by (simp add: e_def)
      finally have eq: "(2::real) ^ 52 * 2 powi e * 2 powi bit_length q = 2 powi (bit_length \<bar>p\<bar> - 1)" .
      have "2 ^ 52 * 2 powi e * real_of_int q \<le> 2 ^ 52 * 2 powi e * 2 powi bit_length q"
        using q by (intro mult_left_mono) simp_all
      then have "2 ^ 52 * 2 powi e * real_of_int q \<le> \<bar>real_of_int p\<bar>" using eq p by linarith
      then show ?thesis using assms by (simp add: field_simps)
    qed
    ultimately show ?thesis by simp
  next
    case False
    then have "exponent_of p q = e + 1" using nd by (simp add: exponent_of_def e_def)
    moreover have "2 ^ 53 \<le> real_of_int n / real_of_int d"
    proof -
      have "real_of_int (2 ^ 53 * d) \<le> real_of_int n" using False by (simp only: of_int_le_iff not_less)
      then show ?thesis using d by (simp add: field_simps)
    qed
    moreover have "\<bar>real_of_int p\<bar> / real_of_int q / 2 powi (e + 1) = (\<bar>real_of_int p\<bar> / real_of_int q / 2 powi e) / 2"
      by (simp add: power_int_add)
    moreover have "2 ^ 52 \<le> w" if "2 ^ 53 \<le> u" "w = u / 2" for u w :: real
      using that by simp
    ultimately show ?thesis using v by metis
  qed
qed

lemma nearest_exponent: "p \<noteq> 0 \<Longrightarrow> snd (nearest p q) = exponent_of p q"
  by (simp add: nearest_def Let_def split: prod.splits)

lemma exponent_scale:
  assumes "0 < q" and "p \<noteq> 0"
  shows "2 ^ 52 * 2 powi exponent_of p q \<le> \<bar>real_of_int p / real_of_int q\<bar>"
proof -
  have "2 ^ 52 \<le> \<bar>real_of_int p / real_of_int q\<bar> / 2 powi exponent_of p q"
    using exponent_bound [OF assms(2,1)] assms(1) by simp
  moreover have "(0::real) < 2 powi exponent_of p q" by simp
  ultimately show ?thesis by (simp only: pos_le_divide_eq)
qed

text \<open>The error is at most half a unit in the last place.\<close>

lemma nearest_ulp:
  assumes "0 < q" and "p \<noteq> 0"
  shows "\<bar>number_value (nearest p q) - real_of_int p / real_of_int q\<bar> \<le> 1 / 2 * 2 powi exponent_of p q"
proof -
  define e where "e = exponent_of p q"
  obtain n d where nd: "scaled p q e = (n, d)" by force
  from scaled_val [OF assms(1) nd] have d: "0 < d" and v: "real_of_int n / real_of_int d = real_of_int p / real_of_int q / 2 powi e"
    by simp_all
  have near: "nearest p q = (round_half_even n d, e)" using assms(2) nd by (simp add: nearest_def e_def Let_def)
  have pos: "(0::real) < 2 powi e" by simp
  have "\<bar>real_of_int (round_half_even n d) - real_of_int p / real_of_int q / 2 powi e\<bar> \<le> 1 / 2"
    using round_half_even_error [OF d, of n] v by simp
  then have "\<bar>real_of_int (round_half_even n d) - real_of_int p / real_of_int q / 2 powi e\<bar> * 2 powi e \<le> 1 / 2 * 2 powi e"
    using pos by (intro mult_right_mono) simp_all
  moreover have "\<bar>a - b / t\<bar> * t = \<bar>a * t - b\<bar>" if "0 < t" for a b t :: real
    using that abs_mult [of "a - b / t" t] by (simp add: field_simps)
  ultimately show ?thesis using pos unfolding near number_value_def fst_conv snd_conv e_def by metis
qed

lemma nearest_error:
  assumes "0 < q"
  shows "\<bar>number_value (nearest p q) - real_of_int p / real_of_int q\<bar> \<le> \<bar>real_of_int p / real_of_int q\<bar> / 2 ^ 53"
proof (cases "p = 0")
  case True
  then show ?thesis by (simp add: nearest_def number_value_def)
next
  case False
  have "a \<le> b / 2 ^ 53" if "a \<le> 1 / 2 * t" "2 ^ 52 * t \<le> b" for a b t :: real
    using that by simp
  then show ?thesis using nearest_ulp [OF assms False] exponent_scale [OF assms False] by blast
qed

text \<open>Hence an integer of milli-units of at most 51 bits survives both conversions.\<close>

lemma half_up_near:
  assumes d: "0 < d" and near: "\<bar>real_of_int n / real_of_int d - real_of_int m\<bar> < 1 / 2"
  shows "(2 * n + d) div (2 * d) = m"
proof -
  define x where "x = real_of_int n / real_of_int d"
  have n: "real_of_int n = x * real_of_int d" using d by (simp add: x_def)
  have "real_of_int m - 1 / 2 < x" "x < real_of_int m + 1 / 2"
    using near unfolding x_def [symmetric] by linarith+
  then have "(real_of_int m - 1 / 2) * real_of_int d < real_of_int n" "real_of_int n < (real_of_int m + 1 / 2) * real_of_int d"
    unfolding n using d by (auto intro: mult_strict_right_mono)
  then have "real_of_int (m * (2 * d)) \<le> real_of_int (2 * n + d)" "real_of_int (2 * n + d) < real_of_int ((m + 1) * (2 * d))"
    by (simp_all add: algebra_simps)
  then have "m * (2 * d) \<le> 2 * n + d" "2 * n + d < (m + 1) * (2 * d)" by (simp_all only: of_int_le_iff of_int_less_iff)
  then show ?thesis using d
    by (intro int_div_pos_eq [where r = "2 * n + d - m * (2 * d)"]) (simp_all add: algebra_simps)
qed

lemma math_round_near: "\<bar>number_value x - real_of_int m\<bar> < 1 / 2 \<Longrightarrow> math_round x = m"
  using half_up_near fraction_val [of x] by (auto simp: math_round_def split: prod.splits)

lemma close_decimal_scaled:
  "\<bar>number_value (nearest m 1000) * 1000 - real_of_int m\<bar> \<le> \<bar>real_of_int m\<bar> / 2 ^ 53"
proof -
  have "\<bar>number_value (nearest m 1000) - real_of_int m / 1000\<bar> \<le> \<bar>real_of_int m\<bar> / 9007199254740992000"
    using nearest_error [of 1000 m] by simp
  then show ?thesis by (simp add: abs_le_iff field_simps)
qed

lemma close_decimal:
  assumes "\<bar>m\<bar> < 2 ^ 51"
  shows "\<bar>number_value (nearest m 1000) * 1000 - real_of_int m\<bar> < 1 / 2"
proof -
  have "\<bar>real_of_int m\<bar> < 2 ^ 51"
    using assms by (metis of_int_abs of_int_less_numeral_power_cancel_iff)
  then show ?thesis using close_decimal_scaled [of m] by simp
qed

lemma times_int_error:
  "\<bar>number_value (times_int x k) - number_value x * real_of_int k\<bar> \<le> \<bar>number_value x * real_of_int k\<bar> / 2 ^ 53"
proof -
  obtain n d where nd: "fraction x = (n, d)" by force
  from fraction_val [OF nd] have d: "0 < d" and v: "real_of_int n / real_of_int d = number_value x" by simp_all
  have "real_of_int (n * k) / real_of_int d = number_value x * real_of_int k" by (simp add: v [symmetric])
  then show ?thesis using nearest_error [OF d, of "n * k"] by (simp add: times_int_def nd)
qed

lemma to_milli_decimal:
  assumes "\<bar>m\<bar> < 2 ^ 51" shows "math_round (times_int (nearest m 1000) 1000) = m"
proof (rule math_round_near)
  have m: "\<bar>real_of_int m\<bar> \<le> 2251799813685247"
    using assms of_int_le_iff [where ?'a = real, of "\<bar>m\<bar>" 2251799813685247] by simp
  have "\<bar>number_value (times_int (nearest m 1000) 1000) - number_value (nearest m 1000) * 1000\<bar> \<le> \<bar>number_value (nearest m 1000) * 1000\<bar> / 9007199254740992"
    using times_int_error [of "nearest m 1000" 1000] by simp
  moreover have "\<bar>number_value (nearest m 1000) * 1000 - real_of_int m\<bar> \<le> \<bar>real_of_int m\<bar> / 9007199254740992"
    using close_decimal_scaled [of m] by simp
  ultimately show "\<bar>number_value (times_int (nearest m 1000) 1000) - real_of_int m\<bar> < 1 / 2"
    using m by linarith
qed

lemma nearest_sgn:
  assumes "0 < q" shows "sgn (fst (nearest p q)) = sgn p"
proof (cases "p = 0")
  case False
  have v: "\<bar>number_value (nearest p q) - real_of_int p / real_of_int q\<bar> \<le> \<bar>real_of_int p / real_of_int q\<bar> / 9007199254740992"
    using nearest_error [OF assms, of p] by simp
  have pw: "\<not> (2::real) powi k < 0" "(0::real) < 2 powi k" for k by (simp_all add: not_less)
  have near: "0 < x" if "\<bar>x - t\<bar> \<le> \<bar>t\<bar> / 9007199254740992" "0 < t" for x t :: real
    using that by linarith
  have below: "x < 0" if "\<bar>x - t\<bar> \<le> \<bar>t\<bar> / 9007199254740992" "t < 0" for x t :: real
    using that by linarith
  consider "0 < real_of_int p / real_of_int q" "0 < p" | "real_of_int p / real_of_int q < 0" "p < 0"
    using False assms by (cases "0 < p") (auto simp: field_simps)
  then show ?thesis
  proof cases
    case 1
    then have "0 < number_value (nearest p q)" using v by (blast intro: near)
    then show ?thesis using 1 pw by (simp add: number_value_def zero_less_mult_iff)
  next
    case 2
    then have "number_value (nearest p q) < 0" using v by (blast intro: below)
    then show ?thesis using 2 pw by (simp add: number_value_def mult_less_0_iff)
  qed
qed (simp add: nearest_def)

lemma decimal_sgn: "fraction (nearest m 1000) = (n, d) \<Longrightarrow> sgn n = sgn m"
  using nearest_sgn [of 1000 m] by (auto simp: fraction_def scaled_def sgn_mult split: prod.splits if_splits)

lemma decimal_size_near:
  assumes "\<bar>m\<bar> < 2 ^ 51" and nd: "fraction (nearest m 1000) = (n, d)"
  shows "\<bar>real_of_int (\<bar>n\<bar> * 1000) / real_of_int d - real_of_int \<bar>m\<bar>\<bar> < 1 / 2"
proof -
  from fraction_val [OF nd] have v: "real_of_int n / real_of_int d = number_value (nearest m 1000)" by simp
  have "\<bar>real_of_int (n * 1000) / real_of_int d - real_of_int m\<bar> < 1 / 2"
    using close_decimal [OF assms(1)] by (simp add: v [symmetric])
  moreover have "real_of_int (\<bar>n\<bar> * 1000) / real_of_int d - real_of_int \<bar>m\<bar>
      = (if n < 0 then - 1 else 1) * (real_of_int (n * 1000) / real_of_int d - real_of_int m)"
    using decimal_sgn [OF nd] by (cases "n < 0"; cases "m < 0") (auto simp: sgn_if split: if_splits)
  ultimately show ?thesis by (simp add: abs_mult split: if_splits)
qed

lemma to_fixed_decimal:
  assumes "\<bar>m\<bar> < 2 ^ 51" shows "to_fixed (nearest m 1000) 3 = m"
proof -
  obtain n d where nd: "fraction (nearest m 1000) = (n, d)" by force
  from fraction_val [OF nd] have d: "0 < d" by simp
  have "(2 * (\<bar>n\<bar> * 1000) + d) div (2 * d) = \<bar>m\<bar>"
    by (rule half_up_near [OF d decimal_size_near [OF assms nd]])
  then show ?thesis using decimal_sgn [OF nd] by (simp add: to_fixed_def nd sgn_mult_abs)
qed

lemma round_half_even_minus: "0 < d \<Longrightarrow> round_half_even (- n) d = - round_half_even n d"
proof -
  assume d: "0 < d"
  define k r where "k = n div d" and "r = n mod d"
  have n: "n = d * k + r" and r: "0 \<le> r" "r < d" using d by (simp_all add: k_def r_def)
  have "(- n) div d = (if r = 0 then - k else - k - 1) \<and> (- n) mod d = (if r = 0 then 0 else d - r)"
    using d by (simp add: zdiv_zminus1_eq_if zmod_zminus1_eq_if k_def r_def)
  then show ?thesis using r unfolding round_half_even_def k_def [symmetric] r_def [symmetric] by (auto simp: Let_def)
qed

lemma nearest_minus: "0 < q \<Longrightarrow> nearest (- p) q = (- fst (nearest p q), snd (nearest p q))"
proof -
  assume q: "0 < q"
  obtain n d where nd: "scaled p q (exponent_of p q) = (n, d)" by force
  then have "scaled (- p) q (exponent_of p q) = (- n, d)" by (auto simp: scaled_def split: if_splits)
  moreover have "exponent_of (- p) q = exponent_of p q" by (simp add: exponent_of_def)
  ultimately show ?thesis using nd scaled_val [OF q nd] by (simp add: nearest_def Let_def round_half_even_minus)
qed

lemma nearest_abs: "0 < q \<Longrightarrow> nearest \<bar>p\<bar> q = (\<bar>fst (nearest p q)\<bar>, snd (nearest p q))"
  using nearest_sgn [of q p] nearest_minus [of q p] by (cases "p < 0") (auto simp: sgn_if split: if_splits)

lemma same_number_refl [simp]: "same_number x x"
  by (simp add: same_number_def split: prod.splits)

lemma near_below:
  assumes "0 < d" "\<bar>real_of_int n / real_of_int d - real_of_int m\<bar> < 1 / 2"
  shows "n div d = m \<or> n div d + 1 = m"
proof -
  have "real_of_int (n div d) \<le> real_of_int n / real_of_int d" "real_of_int n / real_of_int d < real_of_int (n div d) + 1"
    using floor_correct [of "real_of_int n / real_of_int d"] unfolding floor_divide_of_int_eq by simp_all
  then have "real_of_int (n div d) < real_of_int (m + 1)" "real_of_int (m - 2) < real_of_int (n div d)" using assms(2) by linarith+
  then show ?thesis by (simp only: of_int_less_iff) linarith
qed

lemma at_precision_decimal: "\<bar>m\<bar> < 2 ^ 51 \<Longrightarrow> isAtPrecision (nearest m 1000) 3"
proof -
  assume m: "\<bar>m\<bar> < 2 ^ 51"
  obtain n d where nd: "fraction (nearest m 1000) = (n, d)" by force
  from fraction_val [OF nd] have d: "0 < d" by simp
  from near_below [OF d decimal_size_near [OF m nd]]
  have "\<bar>n\<bar> * 1000 div d = \<bar>m\<bar> \<or> \<bar>n\<bar> * 1000 div d + 1 = \<bar>m\<bar>" by simp
  then have "reads_back (nearest m 1000) 3" by (auto simp: reads_back_def nd Let_def nearest_abs [symmetric])
  then show ?thesis by (simp add: isAtPrecision_def eval_nat_numeral)
qed


lemma quantity_scale: "QUANTITY_SCALE = 1000" and max_quantity_base: "MAX_QUANTITY_BASE = 9007199254740"
  by code_simp+

lemma safe_bits: "\<bar>m\<bar> < 2 ^ 51 \<Longrightarrow> isSafeInteger m"
  by (simp add: isSafeInteger_def MAX_SAFE_def)

lemma to_milli_number: "\<bar>m\<bar> < 2 ^ 51 \<Longrightarrow> toMilli (number_of (nearest m 1000)) = Inr m"
  using to_milli_decimal [of m] safe_bits [of m]
  by (cases "nearest m 1000") (simp add: toMilli_def number_of_def quantity_scale)

lemma from_milli_decimal: "\<bar>m\<bar> < 2 ^ 51 \<Longrightarrow> fromMilli m = Inr (number_of (nearest m 1000))"
  using to_fixed_decimal [of m] safe_bits [of m]
  by (simp add: fromMilli_def quantity_scale QUANTITY_DECIMALS_def Let_def)

lemma math_round_nonneg: "0 \<le> m \<Longrightarrow> 0 \<le> math_round (times_int (m, e) 1000)"
proof -
  assume m: "0 \<le> m"
  obtain n d where nd: "fraction (m, e) = (n, d)" by force
  have d: "0 < d" and n: "0 \<le> n * 1000" using fraction_val [OF nd] m nd by (auto simp: fraction_def scaled_def split: if_splits)
  obtain n' d' where nd': "fraction (nearest (n * 1000) d) = (n', d')" by force
  have "0 \<le> fst (nearest (n * 1000) d)" using nearest_sgn [OF d, of "n * 1000"] n by (auto simp: sgn_if split: if_splits)
  then have "0 \<le> n'" "0 < d'" using fraction_val [OF nd'] nd' by (auto simp: fraction_def scaled_def split: prod.splits if_splits)
  then show ?thesis by (simp add: math_round_def times_int_def nd nd' pos_imp_zdiv_nonneg_iff)
qed

section \<open>What the conversions guarantee\<close>

text \<open>
  C34. Every integer of milli-units below \<open>2 ^ 51\<close> survives being shown to an operator and read back:
  \<open>fromMilli\<close> returns a number and \<open>toMilli\<close> of it is the same integer, although both the quotient and
  the product are rounded.
\<close>
theorem milli_roundtrip:
  assumes "\<bar>m\<bar> < 2 ^ 51"
  shows "(case fromMilli m of Inr x \<Rightarrow> toMilli x | Inl failed \<Rightarrow> Inl failed) = Inr m"
  using assms by (simp add: from_milli_decimal to_milli_number)

theorem milli_roundtrip_witness: "(case fromMilli 18457 of Inr x \<Rightarrow> toMilli x | Inl failed \<Rightarrow> Inl failed) = Inr 18457"
  using milli_roundtrip [of 18457] by simp

text \<open>
  A three-decimal quantity below \<open>2 ^ 51\<close> milli-units, as an operator writes it, is stored exactly or
  refused for its precision, never altered: the write gate returns the number of thousandths written when
  the unit's precision admits it (and three decimals always do), and what is stored is shown as it was
  entered.
\<close>
theorem recorded_as_entered:
  assumes "\<bar>m\<bar> < 2 ^ 51"
  shows "validateRecordableQuantity (number_of (nearest m 1000)) precision Signed =
           (if isAtPrecision (nearest m 1000) precision then Inr m else Inl Precision)
         \<and> isAtPrecision (nearest m 1000) 3
         \<and> fromMilli m = Inr (number_of (nearest m 1000))"
proof -
  obtain n d where nd: "fraction (nearest m 1000) = (n, d)" by force
  from fraction_val [OF nd] have d: "0 < d" and v: "real_of_int n / real_of_int d = number_value (nearest m 1000)" by simp_all
  have "\<bar>n\<bar> \<le> MAX_QUANTITY_BASE * d"
  proof -
    have "\<bar>real_of_int m\<bar> \<le> 2251799813685248"
      using assms of_int_le_iff [where ?'a = real, of "\<bar>m\<bar>" 2251799813685248] by simp
    then have "\<bar>number_value (nearest m 1000)\<bar> \<le> 9007199254740" using close_decimal [OF assms] by linarith
    then have "\<bar>real_of_int n\<bar> \<le> 9007199254740 * real_of_int d" using d by (simp add: v [symmetric] field_simps)
    then have "real_of_int \<bar>n\<bar> \<le> real_of_int (9007199254740 * d)" by simp
    then show ?thesis unfolding max_quantity_base of_int_le_iff .
  qed
  then have ceiling: "\<not> (case fraction (nearest m 1000) of (n, d) \<Rightarrow> \<bar>n\<bar> > MAX_QUANTITY_BASE * d)" by (simp add: nd)
  have kept: "\<not> scalesToZero (nearest m 1000)"
    using to_milli_number [OF assms] by (auto simp: scalesToZero_def nearest_def)
  have "validateRecordableQuantity (number_of (nearest m 1000)) precision Signed =
           (if isAtPrecision (nearest m 1000) precision then Inr m else Inl Precision)"
    using ceiling kept to_milli_number [OF assms]
    by (cases "nearest m 1000") (auto simp: validateRecordableQuantity_def number_of_def)
  then show ?thesis using at_precision_decimal [OF assms] from_milli_decimal [OF assms] by blast
qed

theorem recorded_as_entered_witness:
  "validateRecordableQuantity (number_of (nearest 2500 1000)) 0 Signed = Inl Precision
   \<and> validateRecordableQuantity (number_of (nearest 1005 1000)) 3 Signed = Inr 1005"
  using recorded_as_entered [of 2500 0] recorded_as_entered [of 1005 3]
  by (simp, code_simp)

lemma math_round_error: "\<bar>real_of_int (math_round x) - number_value x\<bar> \<le> 1 / 2"
proof -
  obtain n d where nd: "fraction x = (n, d)" by force
  from fraction_val [OF nd] have d: "0 < d" and v: "real_of_int n / real_of_int d = number_value x" by simp_all
  have "real_of_int (2 * n + d) / real_of_int (2 * d) = number_value x + 1 / 2"
    unfolding v [symmetric] using d by (simp add: field_simps)
  then have "math_round x = \<lfloor>number_value x + 1 / 2\<rfloor>"
    by (metis floor_divide_of_int_eq math_round_def nd case_prod_conv)
  moreover have "real_of_int \<lfloor>number_value x + 1 / 2\<rfloor> \<le> number_value x + 1 / 2"
    "number_value x + 1 / 2 < real_of_int \<lfloor>number_value x + 1 / 2\<rfloor> + 1" by linarith+
  ultimately show ?thesis by linarith
qed

text \<open>Below \<open>2 ^ 53\<close> a double is a multiple of a power of two of at most 1: an integer, or within a quarter.\<close>

lemma nearest_small:
  assumes "0 < q" and "p \<noteq> 0" and "\<bar>real_of_int p / real_of_int q\<bar> < 2 ^ 53"
  shows "snd (nearest p q) \<le> 0" and "\<bar>number_value (nearest p q) - real_of_int p / real_of_int q\<bar> \<le> 1 / 2"
    and "snd (nearest p q) < 0 \<Longrightarrow> \<bar>number_value (nearest p q) - real_of_int p / real_of_int q\<bar> \<le> 1 / 4"
proof -
  let ?e = "exponent_of p q"
  have "(2::real) powi ?e < 2" using exponent_scale [OF assms(1,2)] assms(3) by simp
  then have e: "?e \<le> 0" using power_int_increasing [of 1 ?e "2::real"] by (cases "?e \<le> 0") auto
  then show "snd (nearest p q) \<le> 0" by (simp add: nearest_exponent [OF assms(2)])
  have "(2::real) powi ?e \<le> 1" using power_int_increasing [OF e, of "2::real"] by simp
  then show "\<bar>number_value (nearest p q) - real_of_int p / real_of_int q\<bar> \<le> 1 / 2"
    using nearest_ulp [OF assms(1,2)] by linarith
  assume "snd (nearest p q) < 0"
  then have "?e \<le> -1" by (simp add: nearest_exponent [OF assms(2)])
  then have "(2::real) powi ?e \<le> 2 powi (-1)" by (rule power_int_increasing) simp
  then show "\<bar>number_value (nearest p q) - real_of_int p / real_of_int q\<bar> \<le> 1 / 4"
    using nearest_ulp [OF assms(1,2)] by (simp add: power_int_minus)
qed

lemma to_milli_near:
  assumes "\<bar>m\<bar> \<le> MAX_SAFE"
  shows "\<bar>math_round (times_int (nearest m 1000) 1000) - m\<bar> \<le> 1"
proof (cases "m = 0")
  case True
  then show ?thesis using to_milli_decimal [of 0] by simp
next
  case False
  let ?v = "number_value (nearest m 1000)"
  obtain n d where nd: "fraction (nearest m 1000) = (n, d)" by force
  from fraction_val [OF nd] have d: "0 < d" and v: "real_of_int n / real_of_int d = ?v" by simp_all
  define y where "y = nearest (n * 1000) d"
  have y: "times_int (nearest m 1000) 1000 = y" by (simp add: times_int_def nd y_def)
  have P: "real_of_int (n * 1000) / real_of_int d = ?v * 1000" by (simp add: v [symmetric])
  have m: "\<bar>real_of_int m\<bar> \<le> 9007199254740991"
    using assms of_int_le_iff [where ?'a = real, of "\<bar>m\<bar>" 9007199254740991] by (simp add: MAX_SAFE_def)
  have near: "\<bar>?v * 1000 - real_of_int m\<bar> \<le> \<bar>real_of_int m\<bar> / 9007199254740992"
    using close_decimal_scaled [of m] by simp
  have one: "\<bar>?v * 1000 - real_of_int m\<bar> < 1" and small: "\<bar>?v * 1000\<bar> < 9007199254740992"
    using near m by linarith+
  have n: "n * 1000 \<noteq> 0" using decimal_sgn [OF nd] False by (auto simp: sgn_if split: if_splits)
  have "\<bar>real_of_int (n * 1000) / real_of_int d\<bar> < 2 ^ 53" unfolding P using small by simp
  note double = nearest_small [OF d n this, folded y_def, unfolded P]
  have "\<bar>real_of_int (math_round y) - real_of_int m\<bar> < 2"
  proof (cases "snd y < 0")
    case True
    then show ?thesis using double(3) one math_round_error [of y] by linarith
  next
    case False
    then have "number_value y = real_of_int (fst y)" using double(1) by (simp add: number_value_def)
    moreover from this have "math_round y = fst y" by (intro math_round_near) simp
    ultimately show ?thesis using double(2) one by linarith
  qed
  then have "\<bar>math_round y - m\<bar> < 2" by linarith
  then show ?thesis by (simp add: y)
qed

text \<open>
  C36. A quantity of thousandths anywhere in the exact range is recorded to within one thousandth, whatever the
  precision and the sign mode, and exactly below \<open>2 ^ 51\<close>. The bound is attained: 4398046511104.021, below the
  ceiling and of three decimals, is recorded as 4398046511104022 thousandths.
\<close>
theorem recorded_within_one:
  assumes "\<bar>m\<bar> \<le> MAX_SAFE" and "validateRecordableQuantity (number_of (nearest m 1000)) precision sign = Inr milli"
  shows "\<bar>milli - m\<bar> \<le> 1 \<and> (\<bar>m\<bar> < 2 ^ 51 \<longrightarrow> milli = m) \<and>
    validateRecordableQuantity (number_of (nearest 4398046511104021 1000)) 3 Signed = Inr 4398046511104022"
proof -
  have "toMilli (number_of (nearest m 1000)) = Inr milli"
    using assms(2) by (cases "nearest m 1000") (auto simp: validateRecordableQuantity_def number_of_def split: if_splits sum.splits)
  then have milli: "milli = math_round (times_int (nearest m 1000) 1000)"
    by (cases "nearest m 1000") (auto simp: toMilli_def number_of_def quantity_scale Let_def split: if_splits)
  have "validateRecordableQuantity (number_of (nearest 4398046511104021 1000)) 3 Signed = Inr 4398046511104022" by code_simp
  then show ?thesis using to_milli_near [OF assms(1)] to_milli_decimal [of m] milli by auto
qed

theorem recorded_within_one_witness:
  "isAtPrecision (nearest 4398046511104021 1000) 3 \<and>
   validateRecordableQuantity (number_of (nearest 4398046511104021 1000)) 3 Positive = Inr 4398046511104022 \<and>
   \<bar>4398046511104022 - 4398046511104021\<bar> \<le> (1 :: int)"
proof -
  have run: "isAtPrecision (nearest 4398046511104021 1000) 3"
    "validateRecordableQuantity (number_of (nearest 4398046511104021 1000)) 3 Positive = Inr 4398046511104022" by code_simp+
  have "\<bar>4398046511104021\<bar> \<le> MAX_SAFE" by code_simp
  from recorded_within_one [OF this run(2)] run show ?thesis by blast
qed

lemma recordable_sign:
  assumes "validateRecordableQuantity (Fin m e) precision sign = Inr milli"
  shows "isSafeInteger milli" and "0 \<le> m \<Longrightarrow> 0 \<le> milli" and "0 < m \<Longrightarrow> 0 < milli" and "sign = NonNegative \<Longrightarrow> 0 \<le> m" and "sign = Positive \<Longrightarrow> 0 < m"
proof -
  have milli: "toMilli (Fin m e) = Inr milli" and kept: "\<not> scalesToZero (m, e)"
    using assms by (auto simp: validateRecordableQuantity_def split: if_splits sum.splits)
  show "sign = NonNegative \<Longrightarrow> 0 \<le> m" "sign = Positive \<Longrightarrow> 0 < m"
    using assms by (auto simp: validateRecordableQuantity_def split: if_splits)
  have r: "milli = math_round (times_int (m, e) 1000)" and safe: "isSafeInteger milli"
    using milli by (auto simp: toMilli_def quantity_scale Let_def split: if_splits)
  show "isSafeInteger milli" by (rule safe)
  have nonneg: "0 \<le> m \<longrightarrow> 0 \<le> milli" using r math_round_nonneg by simp
  then show "0 \<le> m \<Longrightarrow> 0 \<le> milli" by simp
  have "0 < m \<longrightarrow> milli \<noteq> 0" using kept milli by (auto simp: scalesToZero_def number_of_def)
  with nonneg show "0 < m \<Longrightarrow> 0 < milli" by auto
qed

text \<open>
  C35. What the gate lets through has the type the column promises: a safe integer, never negative where
  levels are entered, and above zero where a positive quantity is asked for.
\<close>
theorem recorded_type:
  assumes "validateRecordableQuantity value precision sign = Inr milli"
  shows "isSafeInteger milli \<and> (sign = NonNegative \<longrightarrow> 0 \<le> milli) \<and> (sign = Positive \<longrightarrow> 0 < milli)"
proof -
  obtain m e where shape: "value = Fin m e" using assms by (cases "value") (auto simp: validateRecordableQuantity_def)
  from recordable_sign [OF assms [unfolded shape]] show ?thesis by blast
qed

theorem recorded_type_witness:
  "validateRecordableQuantity (Fin 5 (-1)) 3 Positive = Inr 2500 \<and> isSafeInteger 2500 \<and> 0 < (2500::int)"
  using recorded_type [of "Fin 5 (-1)" 3 Positive 2500] by (simp, code_simp)

end
