(* ===== verification/Uom.thy ===== *)
theory Uom
  imports Quantity
begin

text \<open>
  The unit-of-measure vocabulary (\<open>modules/catalog/uom.ts\<close>): the canonical units in the order of the code,
  the places each may express, the spellings an import file may use, the normalisation and the resolution,
  and the load-time check of the tables. Strings are Latin-1: the whitespace, the letters and the case
  mapping are those of JavaScript on code units below 256.
\<close>

section \<open>The tables\<close>

definition UOMS :: "string list" where
  "UOMS = [
   ''each'', ''box'', ''case'', ''carton'', ''pack'', ''pallet'', ''bag'', ''drum'', ''roll'',
   ''crate'', ''bundle'', ''pair'', ''dozen'', ''bottle'', ''can'', ''tin'', ''jar'', ''tube'',
   ''tray'', ''sheet'', ''bar'', ''cylinder'', ''keg'', ''set'', ''g'', ''kg'', ''tonne'', ''ml'',
   ''litre'', ''kl'', ''mm'', ''cm'', ''m'', ''sqm'', ''sqft'']"

definition UOM_PRECISION :: "(string \<times> int) list" where
  "UOM_PRECISION = [
   (''each'', 0), (''box'', 0), (''case'', 0), (''carton'', 0), (''pack'', 0), (''pallet'', 0),
   (''bag'', 0), (''drum'', 0), (''roll'', 0), (''crate'', 0), (''bundle'', 0), (''pair'', 0),
   (''dozen'', 0), (''bottle'', 0), (''can'', 0), (''tin'', 0), (''jar'', 0), (''tube'', 0),
   (''tray'', 0), (''sheet'', 0), (''bar'', 0), (''cylinder'', 0), (''keg'', 0), (''set'', 0),
   (''g'', 3), (''kg'', 3), (''tonne'', 3), (''ml'', 3), (''litre'', 3), (''kl'', 3), (''mm'', 3),
   (''cm'', 3), (''m'', 3), (''sqm'', 3), (''sqft'', 3)]"

definition UOM_ALIASES :: "(string \<times> string) list" where
  "UOM_ALIASES = [
   (''ea'', ''each''), (''eaches'', ''each''), (''unit'', ''each''), (''units'', ''each''),
   (''pc'', ''each''), (''pcs'', ''each''), (''piece'', ''each''), (''pieces'', ''each''),
   (''no'', ''each''), (''nos'', ''each''), (''number'', ''each''), (''numbers'', ''each''),
   (''item'', ''each''), (''items'', ''each''), (''qty'', ''each''), (''boxes'', ''box''),
   (''bx'', ''box''), (''cases'', ''case''), (''cs'', ''case''), (''cartons'', ''carton''),
   (''ctn'', ''carton''), (''ctns'', ''carton''), (''packs'', ''pack''), (''packet'', ''pack''),
   (''packets'', ''pack''), (''pkt'', ''pack''), (''pkts'', ''pack''), (''pk'', ''pack''),
   (''pallets'', ''pallet''), (''plt'', ''pallet''), (''plts'', ''pallet''), (''bags'', ''bag''),
   (''sack'', ''bag''), (''sacks'', ''bag''), (''drums'', ''drum''), (''rolls'', ''roll''),
   (''crates'', ''crate''), (''bundles'', ''bundle''), (''bdl'', ''bundle''), (''bdls'', ''bundle''),
   (''pairs'', ''pair''), (''pr'', ''pair''), (''prs'', ''pair''), (''dozens'', ''dozen''),
   (''dz'', ''dozen''), (''doz'', ''dozen''), (''gram'', ''g''), (''grams'', ''g''), (''gm'', ''g''),
   (''gms'', ''g''), (''gramme'', ''g''), (''grammes'', ''g''), (''kgs'', ''kg''), (''kilo'', ''kg''),
   (''kilos'', ''kg''), (''kilogram'', ''kg''), (''kilograms'', ''kg''), (''kilogramme'', ''kg''),
   (''kilogrammes'', ''kg''), (''tonnes'', ''tonne''), (''ton'', ''tonne''), (''tons'', ''tonne''),
   (''mt'', ''tonne''), (''t'', ''tonne''), (''metric ton'', ''tonne''), (''metric tonne'', ''tonne''),
   (''milliliter'', ''ml''), (''millilitre'', ''ml''), (''milliliters'', ''ml''),
   (''millilitres'', ''ml''), (''mls'', ''ml''), (''cc'', ''ml''), (''l'', ''litre''),
   (''lt'', ''litre''), (''ltr'', ''litre''), (''ltrs'', ''litre''), (''liter'', ''litre''),
   (''liters'', ''litre''), (''litres'', ''litre''), (''kilolitre'', ''kl''), (''kilolitres'', ''kl''),
   (''kiloliter'', ''kl''), (''kiloliters'', ''kl''), (''kls'', ''kl''), (''millimeter'', ''mm''),
   (''millimeters'', ''mm''), (''millimetre'', ''mm''), (''millimetres'', ''mm''), (''mms'', ''mm''),
   (''centimeter'', ''cm''), (''centimeters'', ''cm''), (''centimetre'', ''cm''),
   (''centimetres'', ''cm''), (''cms'', ''cm''), (''meter'', ''m''), (''meters'', ''m''),
   (''metre'', ''m''), (''metres'', ''m''), (''mtr'', ''m''), (''mtrs'', ''m''), (''sq m'', ''sqm''),
   (''sq.m'', ''sqm''), (''sqmt'', ''sqm''), (''sqmtr'', ''sqm''), (''m2'', ''sqm''),
   (''square meter'', ''sqm''), (''square metre'', ''sqm''), (''sq ft'', ''sqft''),
   (''sq.ft'', ''sqft''), (''sqfeet'', ''sqft''), (''ft2'', ''sqft''), (''square foot'', ''sqft''),
   (''square feet'', ''sqft''), (''bottles'', ''bottle''), (''cans'', ''can''), (''tins'', ''tin''),
   (''jars'', ''jar''), (''tubes'', ''tube''), (''trays'', ''tray''), (''sheets'', ''sheet''),
   (''bars'', ''bar''), (''cylinders'', ''cylinder''), (''kegs'', ''keg''), (''sets'', ''set'')]"

definition WHOLE_UNIT_UOMS :: "string list" where
  "WHOLE_UNIT_UOMS = filter (\<lambda>u. map_of UOM_PRECISION u = Some 0) UOMS"

section \<open>Normalisation\<close>

definition to_lower :: "char \<Rightarrow> char" where
  "to_lower c =
     (let n = of_char c :: nat in
      if 65 \<le> n \<and> n \<le> 90 \<or> 192 \<le> n \<and> n \<le> 222 \<and> n \<noteq> 215 then char_of (n + 32) else c)"

definition trim_end :: "(char \<Rightarrow> bool) \<Rightarrow> string \<Rightarrow> string" where
  "trim_end P s = rev (dropWhile P (rev s))"

text \<open>Every run of whitespace becomes one blank.\<close>

fun collapse :: "string \<Rightarrow> string" where
  "collapse [] = []"
| "collapse (c # s) =
     (if \<not> js_space c then c # collapse s
      else if s \<noteq> [] \<and> js_space (hd s) then collapse s else CHR 0x20 # collapse s)"

definition is_noise :: "char \<Rightarrow> bool" where
  "is_noise c = (c \<in> set ''.,;:'' \<or> js_space c)"

definition normalizeUomInput :: "string \<Rightarrow> string" where
  "normalizeUomInput raw = trim_end is_noise (collapse (map to_lower (js_trim raw)))"

section \<open>Resolution\<close>

definition resolveUom :: "string \<Rightarrow> string option" where
  "resolveUom raw =
     (let normalized = normalizeUomInput raw in
      if normalized \<in> set UOMS then Some normalized else map_of UOM_ALIASES normalized)"

definition uomPrecision :: "string \<Rightarrow> int" where
  "uomPrecision uom =
     (case resolveUom uom of None \<Rightarrow> int QUANTITY_DECIMALS | Some resolved \<Rightarrow> the (map_of UOM_PRECISION resolved))"

definition isFractionalUom :: "string \<Rightarrow> bool" where
  "isFractionalUom uom = (uomPrecision uom \<noteq> 0)"

section \<open>The check at load\<close>

definition STORY_10_1_DISCRETE_UOMS :: "string list" where
  "STORY_10_1_DISCRETE_UOMS = [
   ''each'', ''ea'', ''unit'', ''units'', ''pc'', ''pcs'', ''piece'', ''pieces'', ''no'', ''nos'',
   ''number'', ''item'', ''items'', ''box'', ''boxes'', ''case'', ''cases'', ''carton'', ''cartons'',
   ''pack'', ''packs'', ''packet'', ''packets'', ''pallet'', ''pallets'', ''bag'', ''bags'', ''bottle'',
   ''bottles'', ''can'', ''cans'', ''drum'', ''drums'', ''roll'', ''rolls'', ''bundle'', ''bundles'',
   ''set'', ''sets'', ''pair'', ''pairs'', ''dozen'', ''tray'', ''trays'', ''crate'', ''crates'',
   ''sack'', ''sacks'', ''tin'', ''tins'', ''jar'', ''jars'', ''tube'', ''tubes'', ''sheet'',
   ''sheets'', ''bar'', ''bars'', ''cylinder'', ''cylinders'', ''keg'', ''kegs'']"

definition check_unit :: "string \<Rightarrow> unit result" where
  "check_unit uom =
     require (case map_of UOM_PRECISION uom of None \<Rightarrow> False | Some p \<Rightarrow> 0 \<le> p \<and> p \<le> int QUANTITY_DECIMALS)
       (Thrown ''precision'')"

definition check_alias :: "string \<times> string \<Rightarrow> unit result" where
  "check_alias entry =
     (case entry of (spelling, canonical) \<Rightarrow>
        and_then (require (spelling \<notin> set UOMS) (Thrown ''alias is canonical'')) (\<lambda>_.
        and_then (require (canonical \<in> set UOMS) (Thrown ''alias target'')) (\<lambda>_.
        require (normalizeUomInput spelling = spelling) (Thrown ''alias not normalized''))))"

definition check_discrete :: "string \<Rightarrow> unit result" where
  "check_discrete uom =
     (case resolveUom uom of
        None \<Rightarrow> Inl (Thrown ''no longer resolves'')
      | Some resolved \<Rightarrow> require (map_of UOM_PRECISION resolved = Some 0) (Thrown ''no longer whole''))"

definition assertVocabularyIsRepresentable :: "unit result" where
  "assertVocabularyIsRepresentable =
     and_then (foldM (\<lambda>_. check_unit) () UOMS) (\<lambda>_.
     and_then (foldM (\<lambda>_. check_alias) () UOM_ALIASES) (\<lambda>_.
     foldM (\<lambda>_. check_discrete) () STORY_10_1_DISCRETE_UOMS))"

section \<open>Normalised spellings\<close>

text \<open>Normalised text: lower case, single blanks inside, no noise at the end, no blank in front.\<close>

fun single_blanks :: "string \<Rightarrow> bool" where
  "single_blanks [] = True"
| "single_blanks (c # s) = ((js_space c \<longrightarrow> c = CHR 0x20 \<and> (s = [] \<or> \<not> js_space (hd s))) \<and> single_blanks s)"

lemma space_facts [simp]: "js_space CHR 0x20" "to_lower CHR 0x20 = CHR 0x20"
  by (code_simp)+

lemma lower_facts:
  "to_lower (to_lower c) = to_lower c \<and> js_space (to_lower c) = js_space c"
proof (cases "to_lower c = c")
  case False
  define n where "n = (of_char c :: nat)"
  have range: "65 \<le> n \<and> n \<le> 90 \<or> 192 \<le> n \<and> n \<le> 222 \<and> n \<noteq> 215" and low: "to_lower c = char_of (n + 32)"
    using False by (auto simp: to_lower_def n_def Let_def split: if_splits)
  from range have "(of_char (char_of (n + 32) :: char) :: nat) = n + 32" by auto
  with range show ?thesis unfolding low by (auto simp: to_lower_def js_space_def Let_def n_def)
qed simp

lemma hd_collapse [simp]: "collapse s = [] \<longleftrightarrow> s = []" "s \<noteq> [] \<Longrightarrow> js_space (hd (collapse s)) = js_space (hd s)"
  by (induction s) auto

lemma single_blanks_collapse: "single_blanks (collapse s)"
  by (induction s) auto

lemma collapse_id: "single_blanks s \<Longrightarrow> collapse s = s"
  by (induction s) auto

lemma set_collapse: "set (collapse s) \<subseteq> insert (CHR 0x20) (set s)"
  by (induction s) auto

lemma js_trim_trim_end: "js_trim s = trim_end js_space (dropWhile js_space s)"
  by (simp add: js_trim_def trim_end_def)

lemma trim_end_prefix: "\<exists>rest. s = trim_end P s @ rest"
  unfolding trim_end_def by (metis rev_append rev_rev_ident takeWhile_dropWhile_id)

lemma single_blanks_prefix: "single_blanks (s @ t) \<Longrightarrow> single_blanks s"
  by (induction s) (auto simp: hd_append split: if_splits)

lemma trim_end_idem: "trim_end P (trim_end P s) = trim_end P s"
  by (simp add: trim_end_def)

lemma trim_end_mono: "(\<And>c. Q c \<Longrightarrow> P c) \<Longrightarrow> trim_end Q (trim_end P s) = trim_end P s"
  unfolding trim_end_def rev_rev_ident
  by (metis dropWhile.simps hd_dropWhile list.collapse)

text \<open>Normalising is idempotent.\<close>

lemma normalize_idem: "normalizeUomInput (normalizeUomInput raw) = normalizeUomInput raw"
proof -
  define u where "u = map to_lower (js_trim raw)"
  define t where "t = trim_end is_noise (collapse u)"
  obtain rest where split: "collapse u = t @ rest" unfolding t_def using trim_end_prefix by blast
  have blanks: "single_blanks t" using single_blanks_collapse [of u] single_blanks_prefix unfolding split by blast
  have lower: "map to_lower t = t"
  proof (rule map_idI)
    fix c assume "c \<in> set t"
    then have "c \<in> insert (CHR 0x20) (set u)" using set_collapse [of u] split by auto
    then show "to_lower c = c" by (auto simp: u_def lower_facts)
  qed
  have "t = [] \<or> \<not> js_space (hd t)"
  proof (cases "js_trim raw = []")
    case True
    then show ?thesis by (simp add: t_def u_def trim_end_def)
  next
    case False
    obtain tail where "dropWhile js_space raw = js_trim raw @ tail"
      unfolding js_trim_trim_end using trim_end_prefix by blast
    then have "\<not> js_space (hd (js_trim raw))" using False hd_dropWhile [of js_space raw] by (auto simp: hd_append)
    then have "\<not> js_space (hd (collapse u))" using False by (simp add: u_def hd_map lower_facts)
    then show ?thesis unfolding split by (auto simp: hd_append split: if_splits)
  qed
  then have "dropWhile js_space t = t" by (cases t) auto
  moreover have "trim_end js_space t = t" unfolding t_def by (rule trim_end_mono) (simp add: is_noise_def)
  ultimately have "js_trim t = t" by (simp add: js_trim_trim_end)
  then have "normalizeUomInput t = trim_end is_noise t" using lower blanks by (simp add: normalizeUomInput_def collapse_id)
  also have "\<dots> = t" by (simp add: t_def trim_end_idem)
  finally show ?thesis by (simp add: normalizeUomInput_def t_def u_def)
qed


section \<open>The vocabulary\<close>

lemma foldM_each: "foldM (\<lambda>_. f) () xs = Inr () \<Longrightarrow> x \<in> set xs \<Longrightarrow> f x = Inr ()"
  by (induction xs) auto

lemma vocabulary_loads: "assertVocabularyIsRepresentable = Inr ()"
  by code_simp

lemma units_resolve: "list_all (\<lambda>u. resolveUom u = Some u) UOMS"
  by code_simp

lemma unit_precision: "u \<in> set UOMS \<Longrightarrow> \<exists>p. map_of UOM_PRECISION u = Some p \<and> 0 \<le> p \<and> p \<le> int QUANTITY_DECIMALS"
  using vocabulary_loads foldM_each [of check_unit UOMS u]
  by (auto simp: assertVocabularyIsRepresentable_def check_unit_def require_def split: if_splits option.splits)

lemma alias_target: "(a, u) \<in> set UOM_ALIASES \<Longrightarrow> u \<in> set UOMS"
  using vocabulary_loads foldM_each [of check_alias UOM_ALIASES "(a, u)"]
  by (auto simp: assertVocabularyIsRepresentable_def check_alias_def)

text \<open>
  The vocabulary is closed: the check at load passes, and any spelling that resolves, whatever its case,
  its blanks and its trailing punctuation, resolves to a canonical unit that stands for itself, whose
  precision is between none and three places and is also the precision of the spelling. Normalising the
  spelling first changes nothing.
\<close>
theorem resolved_unit_is_canonical:
  assumes "resolveUom raw = Some u"
  shows "assertVocabularyIsRepresentable = Inr ()
    \<and> u \<in> set UOMS \<and> resolveUom u = Some u \<and> resolveUom (normalizeUomInput raw) = Some u
    \<and> uomPrecision raw = uomPrecision u \<and> 0 \<le> uomPrecision u \<and> uomPrecision u \<le> 3"
proof -
  have u: "u \<in> set UOMS"
    using assms alias_target by (auto simp: resolveUom_def Let_def dest: map_of_SomeD split: if_splits)
  moreover have "resolveUom u = Some u" using units_resolve u by (auto simp: list_all_iff)
  moreover have "resolveUom (normalizeUomInput raw) = Some u" using assms by (simp add: resolveUom_def normalize_idem)
  ultimately show ?thesis using vocabulary_loads unit_precision [OF u] assms
    by (auto simp: uomPrecision_def QUANTITY_DECIMALS_def)
qed

theorem resolved_unit_is_canonical_witness:
  "resolveUom ''  Metric   TONNE.; '' = Some ''tonne'' \<and> uomPrecision ''  Metric   TONNE.; '' \<le> 3"
proof -
  have r: "resolveUom ''  Metric   TONNE.; '' = Some ''tonne''" by code_simp
  show ?thesis using r resolved_unit_is_canonical [OF r] by simp
qed

end
