(* ===== verification/Pick.thy ===== *)
theory Pick
  imports Wave Instant Uom ReservationBuffer
begin

text \<open>
  A pick before it writes (\<open>recordPick\<close> of \<open>modules/outbound/pick.command.ts\<close>): the vocabulary of short picks,
  the command, and the gates it passes in the order of the code, which end in what is to be drawn: the
  line, the bin, the quantity, the serials and the batch arms. A number of the request is finite, as the
  body validation admits no other. Row locks and advisory locks are the atomicity of the transaction.
\<close>

section \<open>Vocabulary\<close>

definition SHORT_PICK_REASON_CODES :: "string list" where
  "SHORT_PICK_REASON_CODES =
     [''bin-empty'', ''fewer-units-than-planned'', ''damaged-units'', ''stock-not-found'', ''other'', ''skipped-blocked-bin'']"

definition SKIPPED_BLOCKED_BIN_REASON :: string where "SKIPPED_BLOCKED_BIN_REASON = ''skipped-blocked-bin''"

definition SUSPECT_STOCK_BIN_BLOCK_REASONS :: "string list" where
  "SUSPECT_STOCK_BIN_BLOCK_REASONS = [''contamination'', ''temperature-excursion'']"

definition ORDER_OWNER_TYPE :: string where "ORDER_OWNER_TYPE = ''order''"
definition ORDER_RESERVATION_TTL_SECONDS :: int where "ORDER_RESERVATION_TTL_SECONDS = 7 * 24 * 3600"

record pick_command =
  pc_tenant :: uuid
  pc_device :: uuid
  pc_operator :: uuid
  pc_wh :: uuid
  pc_picklist :: uuid
  pc_line :: uuid
  pc_sku :: uuid
  pc_bin :: uuid
  pc_qty :: "int \<times> int"
  pc_occurred :: string
  pc_serials :: "string list option"
  pc_epoch :: "int option"
  pc_reason :: "string option"

definition deviceRevoked :: failure where "deviceRevoked = Problem ''device-revoked'' 403"
definition pickUnresolvable :: failure where "pickUnresolvable = Problem ''pick-unresolvable'' 409"
definition wrongItem :: failure where "wrongItem = Problem ''wrong-item'' 400"
definition binRetiredAsSource :: failure where "binRetiredAsSource = Problem ''bin-retired'' 400"
definition binBlocked :: failure where "binBlocked = Problem ''bin-blocked'' 400"
definition bin_not_blocked :: failure where "bin_not_blocked = Problem ''bin-not-blocked'' 409"
definition binStorageMismatch :: failure where "binStorageMismatch = Problem ''bin-storage-mismatch'' 400"
definition recalled_lot :: failure where "recalled_lot = Problem ''recalled-lot-in-bin'' 409"
definition pickBinShort :: failure where "pickBinShort = Problem ''pick-bin-short'' 409"
definition insufficientOnHand :: failure where "insufficientOnHand = Problem ''insufficient-on-hand'' 422"

definition binCannotCover :: "bool \<Rightarrow> failure" where
  "binCannotCover epochMoved = (if epochMoved then pickBinShort else insufficientOnHand)"

section \<open>Who may pick\<close>

definition active_device :: "outbound_db \<Rightarrow> pick_command \<Rightarrow> unit result" where
  "active_device db c =
     (case find (\<lambda>d. dv_id d = pc_device c \<and> dv_tenant d = pc_tenant c) (ob_devices db) of
        None \<Rightarrow> Inl deviceRevoked
      | Some d \<Rightarrow> require (dv_status d = ''active'' \<and> dv_pin d \<noteq> None) deviceRevoked)"

definition getMemberRoleIn :: "outbound_db \<Rightarrow> uuid \<Rightarrow> uuid \<Rightarrow> string result" where
  "getMemberRoleIn db t u =
     (case find (\<lambda>r. us_id r = u \<and> us_tenant r = t) (ob_users db) of None \<Rightarrow> Inl role_denied | Some r \<Rightarrow> Inr (us_role r))"

definition may_pick :: "string \<Rightarrow> bool" where
  "may_pick role = (role \<in> set [''owner'', ''ops_manager'', ''operator''])"

definition may_secure_move :: "string \<Rightarrow> bool" where
  "may_secure_move role = (role \<in> set [''owner'', ''ops_manager''])"

definition assertSecureBinAuthority :: "string \<Rightarrow> pick_bin list \<Rightarrow> unit result" where
  "assertSecureBinAuthority role bins =
     require (\<not> list_ex (\<lambda>b. pk_class b = ''secure'') bins \<or> may_secure_move role) role_denied"

section \<open>The request\<close>

text \<open>Its instant, once the quantity and the reason have passed.\<close>

definition check_request :: "pick_command \<Rightarrow> millis result" where
  "check_request c =
     (case assertUtcIso (pc_occurred c) of
        Inl _ \<Rightarrow> Inl validationFailed
      | Inr ms \<Rightarrow>
          and_then (require (0 \<le> fst (pc_qty c)) validationFailed) (\<lambda>_.
          and_then (require (case pc_reason c of None \<Rightarrow> True | Some r \<Rightarrow> r \<in> set SHORT_PICK_REASON_CODES) validationFailed) (\<lambda>_.
          and_then (require (\<not> (fst (pc_qty c) = 0 \<and> pc_reason c = None)) validationFailed) (\<lambda>_.
          Inr ms))))"

section \<open>The line\<close>

definition pick_target :: "outbound_db \<Rightarrow> pick_command \<Rightarrow> (pick_line \<times> picklist_row \<times> wave_row) result" where
  "pick_target db c =
     (case [(p, l, w). p \<leftarrow> ob_picks db, pl_id p = pc_line c \<and> pl_tenant p = pc_tenant c,
              l \<leftarrow> ob_lists db, pt_id l = pl_picklist p, w \<leftarrow> ob_waves db, wv_id w = pl_wave p] of
        [] \<Rightarrow> Inl not_found
      | x # _ \<Rightarrow> Inr x)"

definition orderNotAcceptedRefusal :: "string \<Rightarrow> failure" where
  "orderNotAcceptedRefusal status =
     (if status \<in> set [''cancelled'', ''ready_to_dispatch'', ''dispatched''] then pickUnresolvable else wave_conflict)"

definition check_line :: "pick_command \<Rightarrow> pick_line \<Rightarrow> picklist_row \<Rightarrow> wave_row \<Rightarrow> unit result" where
  "check_line c p l w =
     and_then (require (pl_picklist p = pc_picklist c) validationFailed) (\<lambda>_.
     and_then (require (pt_wh l = pc_wh c) validationFailed) (\<lambda>_.
     and_then (require (wv_status w = ''released'') (if wv_status w = ''cancelled'' then pickUnresolvable else wave_conflict)) (\<lambda>_.
     and_then (require (pt_status l = ''ready'') (if pt_status l = ''cancelled'' then pickUnresolvable else wave_conflict)) (\<lambda>_.
     and_then (require (sc_status p = ''planned'') pickUnresolvable) (\<lambda>_.
     require (sc_bin p \<noteq> None) validationFailed)))))"

definition check_order :: "outbound_db \<Rightarrow> uuid \<Rightarrow> uuid \<Rightarrow> unit result" where
  "check_order db t i =
     (case find (\<lambda>r. or_id r = i \<and> or_tenant r = t) (ob_orders db) of
        None \<Rightarrow> Inl not_found
      | Some r \<Rightarrow> require (or_status r = ''accepted'') (orderNotAcceptedRefusal (or_status r)))"

definition refuseIfOrderCancelledInTx :: "outbound_db \<Rightarrow> uuid \<Rightarrow> uuid \<Rightarrow> unit result" where
  "refuseIfOrderCancelledInTx db t i =
     (case find (\<lambda>r. or_id r = i \<and> or_tenant r = t) (ob_orders db) of
        None \<Rightarrow> Inr ()
      | Some r \<Rightarrow> require (or_status r \<noteq> ''cancelled'') (orderNotAcceptedRefusal ''cancelled''))"

section \<open>The quantity\<close>

definition pick_sku :: "outbound_db \<Rightarrow> pick_command \<Rightarrow> pick_line \<Rightarrow> sku_facts result" where
  "pick_sku db c p =
     (if pc_sku c \<noteq> sc_sku p then Inl wrongItem
      else case find (\<lambda>k. sk_id k = pc_sku c \<and> sk_tenant k = pc_tenant c) (ob_skus db) of
        None \<Rightarrow> Inl not_found
      | Some k \<Rightarrow> Inr k)"

text \<open>In milli-units, at most the plan, and short only with a reason.\<close>

definition pick_quantity :: "pick_command \<Rightarrow> pick_line \<Rightarrow> sku_facts \<Rightarrow> int result" where
  "pick_quantity c p k =
     and_then (assertRecordableQuantity (number_of (pc_qty c)) (nat (uomPrecision (sf_uom k)))) (\<lambda>qty.
     and_then (require (qty \<le> sc_qty p) validationFailed) (\<lambda>_.
     and_then (require (\<not> (qty < sc_qty p \<and> pc_reason c = None)) validationFailed) (\<lambda>_.
     Inr qty)))"

section \<open>The bin\<close>

definition draw_bin :: "outbound_db \<Rightarrow> pick_command \<Rightarrow> pick_bin result" where
  "draw_bin db c =
     (case find (\<lambda>b. bn_id b = pc_bin c \<and> bn_tenant b = pc_tenant c \<and> bn_wh b = pc_wh c) (ob_bins db) of
        None \<Rightarrow> Inl not_found
      | Some b \<Rightarrow>
          and_then (require (\<not> bn_system b) validationFailed) (\<lambda>_.
          and_then (require (pk_retired b = None) binRetiredAsSource) (\<lambda>_.
          Inr b)))"

text \<open>
  A blocked bin is skipped with its own reason and no units, or picked by an operation that happened before
  an explained block that does not suspect the stock. The answer says whether the stop is skipped.
\<close>

definition pick_before_block :: "pick_bin \<Rightarrow> millis \<Rightarrow> bool" where
  "pick_before_block b occurredAt =
     (case pk_blocked_at b of None \<Rightarrow> False
      | Some since \<Rightarrow> pk_blocked_by b \<noteq> None \<and>
          (case pk_reason b of None \<Rightarrow> '''' | Some r \<Rightarrow> r) \<notin> set SUSPECT_STOCK_BIN_BLOCK_REASONS \<and> occurredAt < since)"

definition blocked_gate :: "pick_command \<Rightarrow> pick_line \<Rightarrow> pick_bin \<Rightarrow> int \<Rightarrow> millis \<Rightarrow> bool result" where
  "blocked_gate c p b qty occurredAt =
     (if pc_reason c = Some SKIPPED_BLOCKED_BIN_REASON then
        and_then (require (qty = 0 \<and> sc_bin p = Some (pc_bin c)) validationFailed) (\<lambda>_.
        and_then (require (bn_blocked b) bin_not_blocked) (\<lambda>_.
        Inr True))
      else if bn_blocked b then
        and_then (require (pick_before_block b occurredAt) binBlocked) (\<lambda>_. Inr False)
      else Inr False)"

definition class_gate :: "string \<Rightarrow> sku_facts \<Rightarrow> pick_bin \<Rightarrow> bool \<Rightarrow> unit result" where
  "class_gate role k b skip =
     and_then (require (skip \<or> storageClassSatisfies (sf_class k) (pk_class b)) binStorageMismatch) (\<lambda>_.
     if skip then Inr () else assertSecureBinAuthority role [b])"

definition tracking_gate :: "sku_facts \<Rightarrow> int \<Rightarrow> unit result" where
  "tracking_gate k qty =
     and_then (require (\<not> (sf_tracked k \<and> sf_serial k)) validationFailed) (\<lambda>_.
     require (\<not> (sf_catch k \<and> qty mod QUANTITY_SCALE \<noteq> 0)) validationFailed)"

definition batchOnHandForBinInTx :: "batch_row list \<Rightarrow> uuid \<Rightarrow> uuid \<Rightarrow> uuid \<Rightarrow> uuid \<Rightarrow> batch_row list" where
  "batchOnHandForBinInTx rows t wh sku bin =
     filter (\<lambda>r. ba_tenant r = t \<and> ba_wh r = wh \<and> ba_sku r = sku \<and> ba_bin r = bin \<and> 0 < ba_qty r) rows"

text \<open>The batches of the list under an open live recall; batch ids are in the canonical form.\<close>

definition openLiveRecallLinesForBatchesInTx :: "outbound_db \<Rightarrow> uuid \<Rightarrow> uuid list \<Rightarrow> (uuid \<times> uuid) list" where
  "openLiveRecallLinesForBatchesInTx db t ids =
     (if ids = [] then []
      else sort_key fst [(rl_batch l, rc_id r). l \<leftarrow> ob_recall_lines db, r \<leftarrow> ob_recalls db,
        rc_tenant r = rl_tenant l \<and> rc_id r = rl_recall l \<and> rl_tenant l = t \<and> rl_batch l \<in> set ids \<and>
        rc_status r = ''open'' \<and> rc_mode r = ''live''])"

definition bin_batches :: "outbound_db \<Rightarrow> pick_command \<Rightarrow> batch_row list" where
  "bin_batches db c = batchOnHandForBinInTx (db_batches (iv_ledger (ob_iv db))) (pc_tenant c) (pc_wh c) (pc_sku c) (pc_bin c)"

definition recall_gate :: "outbound_db \<Rightarrow> pick_command \<Rightarrow> sku_facts \<Rightarrow> int \<Rightarrow> unit result" where
  "recall_gate db c k qty =
     (if sf_tracked k \<and> 0 < qty
      then require (openLiveRecallLinesForBatchesInTx db (pc_tenant c) (remdups (map ba_batch (bin_batches db c))) = []) recalled_lot
      else Inr ())"

section \<open>The serials\<close>

definition pick_serials :: "pick_command \<Rightarrow> sku_facts \<Rightarrow> int \<Rightarrow> string list result" where
  "pick_serials c k qty =
     (if sf_serial k then
        and_then (require (\<not> (0 < qty \<and> (pc_serials c = None \<or> pc_serials c = Some []))) validationFailed) (\<lambda>_.
        case pc_serials c of
          None \<Rightarrow> Inr []
        | Some ss \<Rightarrow>
            and_then (require (distinct ss) validationFailed) (\<lambda>_.
            and_then (require (int (length ss) * QUANTITY_SCALE = qty) validationFailed) (\<lambda>_.
            Inr ss)))
      else and_then (require (pc_serials c = None \<or> pc_serials c = Some []) validationFailed) (\<lambda>_. Inr []))"

fun resolve_each :: "(string \<Rightarrow> uuid option) \<Rightarrow> string list \<Rightarrow> uuid list result" where
  "resolve_each f [] = Inr []"
| "resolve_each f (s # ss) =
     (case f s of None \<Rightarrow> Inl validationFailed | Some i \<Rightarrow> and_then (resolve_each f ss) (\<lambda>is. Inr (i # is)))"

definition resolveSerialRefsInTx :: "outbound_db \<Rightarrow> uuid \<Rightarrow> uuid \<Rightarrow> string list \<Rightarrow> uuid list result" where
  "resolveSerialRefsInTx db t sku numbers =
     resolve_each (js_map (map (\<lambda>r. (se_number r, se_id r))
       (filter (\<lambda>r. se_tenant r = t \<and> se_sku r = sku \<and> se_number r \<in> set numbers) (ob_serials db)))) numbers"

section \<open>The hold and the epoch\<close>

definition binStateEpochInTx :: "outbound_db \<Rightarrow> uuid \<Rightarrow> uuid \<Rightarrow> uuid \<Rightarrow> int option" where
  "binStateEpochInTx db t wh bin = js_map (readBinStateEpochsInTx (iv_ledger (ob_iv db)) t wh [bin]) bin"

definition epoch_moved :: "outbound_db \<Rightarrow> pick_command \<Rightarrow> bool" where
  "epoch_moved db c =
     (case (pc_epoch c, binStateEpochInTx db (pc_tenant c) (pc_wh c) (pc_bin c)) of (Some a, Some b) \<Rightarrow> b \<noteq> a | _ \<Rightarrow> False)"

text \<open>The world of the reservation service inside the caller's transaction: its store is not called.\<close>

definition tx_world :: "millis \<Rightarrow> outbound_db \<Rightarrow> world" where
  "tx_world now db = \<lparr>wd_iv = ob_iv db, wd_store = Map.empty, wd_calls = [], wd_txs = [], wd_now = now, wd_failed = Map.empty\<rparr>"

definition in_caller_tx :: "'a op \<Rightarrow> millis \<Rightarrow> 'a command" where
  "in_caller_tx m now db =
     (case m (tx_world now db) of (Inl e, _) \<Rightarrow> Inl e | (Inr v, w) \<Rightarrow> Inr (v, db\<lparr>ob_iv := wd_iv w\<rparr>))"

definition hold_gate :: "outbound_db \<Rightarrow> millis \<Rightarrow> uuid \<Rightarrow> pick_line \<Rightarrow> unit result" where
  "hold_gate db now t p =
     (case sc_reservation p of
        None \<Rightarrow> Inr ()
      | Some i \<Rightarrow>
          (case holdLivenessInTx t i (tx_world now db) of
             Some (Held, _) \<Rightarrow> Inr ()
           | _ \<Rightarrow> and_then (refuseIfOrderCancelledInTx db t (sc_order p)) (\<lambda>_. Inl pickUnresolvable)))"

section \<open>The batch arms\<close>

definition frozen_columns :: "pick_line \<Rightarrow> consignee_columns" where
  "frozen_columns p = \<lparr>cc_partner = sc_partner p, cc_days = sc_days p, cc_percent = sc_percent p\<rparr>"

definition frozen_consignee :: "pick_line \<Rightarrow> consignee_arm option" where
  "frozen_consignee p = map_option consignee_arm.truncate (consigneeArmOf (frozen_columns p))"

definition judged_on :: "picklist_row \<Rightarrow> millis \<Rightarrow> iso_date" where
  "judged_on l ms = minimumJudgementDate (ist_date (pt_created l)) (ist_date ms)"

definition frozen_minimum :: "pick_line \<Rightarrow> int option" where
  "frozen_minimum p = (if sc_rule p = None then None else sc_min_days p)"

text \<open>Whether the pick's instant may draw a batch, under the policy frozen on the line.\<close>

definition pick_allocatable :: "intake_row list \<Rightarrow> pick_line \<Rightarrow> picklist_row \<Rightarrow> millis \<Rightarrow> uuid \<Rightarrow> bool" where
  "pick_allocatable intakes p l ms batch =
     (case intake_of intakes batch of None \<Rightarrow> False
      | Some lot \<Rightarrow>
          isBatchAllocatableAt (lo_status lot) (map_option Instant (lo_expiry lot)) ms (frozen_minimum p) (Some (judged_on l ms)) \<and>
          meetsConsigneeShelfLife (Some batch) (map_option Instant (lo_expiry lot)) True ms (frozen_consignee p) (Some (judged_on l ms)))"

text \<open>The batch rows of the bin in drawing order: the planned batch first, then by the frozen rule.\<close>

record arm_slot = slot +
  as_batch :: uuid
  as_qty :: int

definition arm_rows :: "outbound_db \<Rightarrow> pick_command \<Rightarrow> pick_line \<Rightarrow> picklist_row \<Rightarrow> millis \<Rightarrow> (uuid \<times> int) list" where
  "arm_rows db c p l ms =
     (let intakes = getBatchIntakesForSkusInTx (ob_intakes db) (pc_tenant c) [pc_sku c];
          rows = filter (\<lambda>r. pick_allocatable intakes p l ms (ba_batch r)) (bin_batches db c);
          named = (\<lambda>r. sc_batch p = Some (ba_batch r));
          first = (case find named rows of None \<Rightarrow> [] | Some r \<Rightarrow> [(ba_batch r, ba_qty r)]);
          others = (case find named rows of None \<Rightarrow> rows | Some r \<Rightarrow> remove1 r rows)
      in first @ map (\<lambda>s. (as_batch s, as_qty s))
           (rankSlots (map (\<lambda>r. \<lparr>sl_walk = 0, sl_batch = Some (ba_batch r), as_batch = ba_batch r, as_qty = ba_qty r\<rparr>) others)
             (effectiveLineRule (sc_rule p)) (facts_of intakes)))"

fun draw_arms :: "int \<Rightarrow> (uuid \<times> int) list \<Rightarrow> (uuid option \<times> int) list \<times> int" where
  "draw_arms need [] = ([], need)"
| "draw_arms need ((batch, quantity) # rows) =
     (if need = 0 then ([], need)
      else let take' = min need quantity in
        if take' \<le> 0 then draw_arms need rows
        else let (arms, left') = draw_arms (need - take') rows in ((Some batch, take') # arms, left'))"

text \<open>The arms, or the units that could be drawn when they do not suffice.\<close>

definition deriveBatchArms :: "outbound_db \<Rightarrow> pick_command \<Rightarrow> pick_line \<Rightarrow> picklist_row \<Rightarrow> millis \<Rightarrow> int \<Rightarrow> int + (uuid option \<times> int) list" where
  "deriveBatchArms db c p l ms qty =
     (let (arms, need) = draw_arms qty (arm_rows db c p l ms) in if 0 < need then Inl (qty - need) else Inr arms)"

definition binOnHandInTx :: "outbound_db \<Rightarrow> pick_command \<Rightarrow> uuid \<Rightarrow> int" where
  "binOnHandInTx db c bin =
     (case find (\<lambda>r. so_bin r = bin) (stockByBinsInTx (db_stock (iv_ledger (ob_iv db))) (pc_tenant c) (pc_wh c) [pc_sku c]) of
        None \<Rightarrow> 0
      | Some r \<Rightarrow> so_qty r)"

definition pick_arms :: "outbound_db \<Rightarrow> pick_command \<Rightarrow> pick_line \<Rightarrow> picklist_row \<Rightarrow> sku_facts \<Rightarrow> millis \<Rightarrow> int \<Rightarrow> (uuid option \<times> int) list result" where
  "pick_arms db c p l k ms qty =
     and_then (if qty = 0 then Inr []
       else if sf_tracked k then
         (case deriveBatchArms db c p l ms qty of Inl _ \<Rightarrow> Inl (binCannotCover (epoch_moved db c)) | Inr arms \<Rightarrow> Inr arms)
       else Inr [(None, qty)]) (\<lambda>arms.
     and_then (require (\<not> (0 < qty \<and> binOnHandInTx db c (pc_bin c) < qty)) (binCannotCover (epoch_moved db c))) (\<lambda>_.
     Inr arms))"

section \<open>All gates\<close>

record pick_plan =
  px_line :: pick_line
  px_list :: picklist_row
  px_sku :: sku_facts
  px_at :: millis
  px_qty :: int
  px_skip :: bool
  px_serials :: "uuid list"
  px_arms :: "(uuid option \<times> int) list"
  px_moved :: bool

definition px_short :: "pick_plan \<Rightarrow> bool" where
  "px_short x = (px_qty x < sc_qty (px_line x))"

definition px_shortfall :: "pick_plan \<Rightarrow> int" where
  "px_shortfall x = (if px_short x then sc_qty (px_line x) - px_qty x else 0)"

definition check_pick :: "millis \<Rightarrow> string \<Rightarrow> pick_command \<Rightarrow> outbound_db \<Rightarrow> pick_plan result" where
  "check_pick now role c db =
     and_then (check_request c) (\<lambda>ms.
     and_then (assertWarehouseInTenant db (pc_tenant c) (pc_wh c)) (\<lambda>_.
     and_then (pick_target db c) (\<lambda>(p, l, w).
     and_then (check_line c p l w) (\<lambda>_.
     and_then (check_order db (pc_tenant c) (sc_order p)) (\<lambda>_.
     and_then (pick_sku db c p) (\<lambda>k.
     and_then (pick_quantity c p k) (\<lambda>qty.
     and_then (draw_bin db c) (\<lambda>b.
     and_then (blocked_gate c p b qty ms) (\<lambda>skip.
     and_then (class_gate role k b skip) (\<lambda>_.
     and_then (tracking_gate k qty) (\<lambda>_.
     and_then (recall_gate db c k qty) (\<lambda>_.
     and_then (pick_serials c k qty) (\<lambda>numbers.
     and_then (resolveSerialRefsInTx db (pc_tenant c) (pc_sku c) numbers) (\<lambda>refs.
     and_then (hold_gate db now (pc_tenant c) p) (\<lambda>_.
     and_then (pick_arms db c p l k ms qty) (\<lambda>arms.
     Inr \<lparr>px_line = p, px_list = l, px_sku = k, px_at = ms, px_qty = qty, px_skip = skip, px_serials = refs, px_arms = arms,
       px_moved = epoch_moved db c\<rparr>))))))))))))))))"

end
