(* ===== verification/PickCommand.thy ===== *)
theory PickCommand
  imports Pick
begin

text \<open>
  What a pick writes (\<open>recordPick\<close> of \<open>modules/outbound/pick.command.ts\<close>, after its gates): the ledger draws,
  the line's flip, what becomes of the hold (settled whole by the last open slice, or released and granted
  again for what is still owed, with the missing units re-planned into new slices), the pick, its outbox,
  audit, device and idempotency rows. All of it is one transaction; the units a short pick gives back to the
  reserved counter are restored after its commit. New ids are \<open>newId 0, newId 1, \<dots>\<close>: the ledger events, the
  hold, the slices, the pick.
\<close>

section \<open>The draw\<close>

text \<open>\<open>String\<close> of a quantity of milli-units below \<open>2 ^ 51\<close>: no trailing zeros.\<close>

definition strip_zeros :: "string \<Rightarrow> string" where
  "strip_zeros s = rev (dropWhile (\<lambda>c. c = CHR ''0'') (rev s))"

definition quantity_text :: "int \<Rightarrow> string" where
  "quantity_text milli =
     (let whole = int_text (\<bar>milli\<bar> div QUANTITY_SCALE); part = strip_zeros (pad_text 3 (nat (\<bar>milli\<bar> mod QUANTITY_SCALE)))
      in (if milli < 0 then ''-'' else '''') @ whole @ (if part = '''' then '''' else ''.'' @ part))"

definition pick_reference :: "pick_command \<Rightarrow> pick_plan \<Rightarrow> json" where
  "pick_reference c x =
     (let p = px_line x in
      JObj ([(''kind'', JStr ''pick''), (''picklistId'', JStr (pc_picklist c)), (''picklistLineId'', JStr (pc_line c)),
          (''waveId'', JStr (pl_wave p)), (''orderId'', JStr (sc_order p)), (''orderLineId'', JStr (sc_line p))] @
        (case sc_reservation p of None \<Rightarrow> [] | Some i \<Rightarrow> [(''reservationId'', JStr i)]) @
        (case sc_bin p of None \<Rightarrow> [] | Some b \<Rightarrow> if b = pc_bin c then [] else [(''suggestedBinId'', JStr b)]) @
        (case pc_reason c of None \<Rightarrow> []
         | Some r \<Rightarrow> if px_short x
             then [(''shortPick'', JBool True), (''shortfallQty'', JNum (quantity_text (px_shortfall x))), (''reasonCode'', JStr r)]
             else [])))"

definition pick_movement :: "millis \<Rightarrow> pick_command \<Rightarrow> pick_plan \<Rightarrow> int \<Rightarrow> uuid option \<Rightarrow> uuid option \<Rightarrow> movement" where
  "pick_movement now c x delta batch serial =
     \<lparr>m_tenant = pc_tenant c, m_wh = pc_wh c, m_type = ''pick.picked'', m_sku = pc_sku c, m_delta = delta, m_from = Some (pc_bin c),
      m_to = None, m_batch = batch, m_serial = serial, m_actor = pc_operator c, m_occurred = Some (px_at x), m_recorded = Some now,
      m_ref = pick_reference c x, m_device = True\<rparr>"

definition pick_movements :: "millis \<Rightarrow> pick_command \<Rightarrow> pick_plan \<Rightarrow> movement list" where
  "pick_movements now c x =
     (if px_serials x \<noteq> [] then map (\<lambda>s. pick_movement now c x (- QUANTITY_SCALE) None (Some s)) (px_serials x)
      else map (\<lambda>(batch, n). pick_movement now c x (- n) batch None) (px_arms x))"

definition append_movements :: "(string \<Rightarrow> string) \<Rightarrow> (nat \<Rightarrow> uuid) \<Rightarrow> movement list \<Rightarrow> outbound_db \<Rightarrow> outbound_db result" where
  "append_movements sha newId ms db =
     and_then (foldM (\<lambda>led (i, m). and_then (appendMovement sha (newId i) led m) (\<lambda>(led', _). Inr led'))
       (iv_ledger (ob_iv db)) (enumerate 0 ms)) (\<lambda>led.
     Inr (db\<lparr>ob_iv := (ob_iv db)\<lparr>iv_ledger := led\<rparr>\<rparr>))"

section \<open>The line\<close>

definition this_line :: "pick_command \<Rightarrow> pick_line \<Rightarrow> pick_line \<Rightarrow> bool" where
  "this_line c p q = (pl_id q = pl_id p \<and> pl_tenant q = pc_tenant c)"

definition flipped_line :: "pick_command \<Rightarrow> pick_plan \<Rightarrow> pick_line \<Rightarrow> pick_line" where
  "flipped_line c x q = q\<lparr>sc_status := (if px_short x then ''short'' else ''picked''), sc_shortfall := px_shortfall x,
     pl_reason := (if px_short x then pc_reason c else None)\<rparr>"

definition flip_line :: "pick_command \<Rightarrow> pick_plan \<Rightarrow> outbound_db \<Rightarrow> outbound_db result" where
  "flip_line c x db =
     (let P = (\<lambda>q. this_line c (px_line x) q \<and> sc_status q = ''planned'') in
      if list_ex P (ob_picks db) then Inr (db\<lparr>ob_picks := update_where P (flipped_line c x) (ob_picks db)\<rparr>)
      else and_then (refuseIfOrderCancelledInTx db (pc_tenant c) (sc_order (px_line x))) (\<lambda>_. Inl pickUnresolvable))"

section \<open>The hold\<close>

definition siblings_of :: "outbound_db \<Rightarrow> pick_command \<Rightarrow> pick_line \<Rightarrow> pick_line list" where
  "siblings_of db c p = filter (\<lambda>q. pl_tenant q = pc_tenant c \<and> sc_line q = sc_line p) (ob_picks db)"

definition drawn_of :: "pick_line \<Rightarrow> int" where
  "drawn_of q = (if sc_status q = ''picked'' then sc_qty q else if sc_status q = ''short'' then sc_qty q - sc_shortfall q else 0)"

definition drawnBySiblings :: "pick_line \<Rightarrow> pick_line list \<Rightarrow> int" where
  "drawnBySiblings p siblings = sum_where (\<lambda>q. pl_id q \<noteq> pl_id p) drawn_of siblings"

definition regrant_command :: "pick_command \<Rightarrow> pick_line \<Rightarrow> int \<Rightarrow> grant_command" where
  "regrant_command c p remainder = \<lparr>gc_tenant = pc_tenant c, gc_wh = pc_wh c, gc_sku = pc_sku c, gc_owner_type = ORDER_OWNER_TYPE,
     gc_owner = sc_line p, gc_qty = remainder, gc_ttl = Some ORDER_RESERVATION_TTL_SECONDS\<rparr>"

text \<open>The hold released, what is still owed granted again: the new hold and the units the counter gets back.\<close>

definition regrant_hold :: "uuid \<Rightarrow> millis \<Rightarrow> pick_command \<Rightarrow> pick_plan \<Rightarrow> pick_line list \<Rightarrow> uuid \<Rightarrow> (uuid option \<times> int) command" where
  "regrant_hold newHold now c x siblings i db =
     and_then (in_caller_tx (releaseInTx (pc_tenant c) i) now db) (\<lambda>(released, db).
     let remainder = rv_qty released - drawnBySiblings (px_line x) siblings - px_qty x in
     if remainder \<le> 0 then Inr ((None, rv_qty released), db)
     else and_then (in_caller_tx (grantInTx newHold (regrant_command c (px_line x) remainder) released) now db) (\<lambda>(regranted, db).
       case regranted of
         None \<Rightarrow> Inr ((None, rv_qty released), db)
       | Some r \<Rightarrow> Inr ((Some (rv_id r), rv_qty released - remainder), db)))"

definition repoint_siblings :: "pick_command \<Rightarrow> pick_line \<Rightarrow> pick_line list \<Rightarrow> uuid option \<Rightarrow> outbound_db \<Rightarrow> outbound_db" where
  "repoint_siblings c p siblings hold db =
     (let ids = map pl_id (filter (\<lambda>q. sc_status q = ''planned'' \<and> pl_id q \<noteq> pl_id p) siblings) in
      db\<lparr>ob_picks := update_where (\<lambda>q. pl_tenant q = pc_tenant c \<and> pl_id q \<in> set ids) (sc_reservation_update (\<lambda>_. hold)) (ob_picks db)\<rparr>)"

section \<open>The re-plan\<close>

definition currentPolicyOfSkuInTx :: "outbound_db \<Rightarrow> uuid \<Rightarrow> uuid \<Rightarrow> pool_policy" where
  "currentPolicyOfSkuInTx db t sku =
     (case skuClientIdsInTx (ob_skus db) t [sku] sku of
        None \<Rightarrow> \<lparr>pp_rule = Fefo, pp_min = None\<rparr>
      | Some client \<Rightarrow> (case allocationPoliciesInTx (iv_clients (ob_iv db)) t [client] client of
          None \<Rightarrow> \<lparr>pp_rule = Fefo, pp_min = None\<rparr>
        | Some policy \<Rightarrow> policy))"

definition replan_policy :: "outbound_db \<Rightarrow> pick_command \<Rightarrow> pick_line \<Rightarrow> pool_policy" where
  "replan_policy db c p =
     (if sc_rule p = None then currentPolicyOfSkuInTx db (pc_tenant c) (pc_sku c)
      else \<lparr>pp_rule = effectiveLineRule (sc_rule p), pp_min = sc_min_days p\<rparr>)"

definition pick_replan_scope :: "outbound_db \<Rightarrow> pick_command \<Rightarrow> pick_plan \<Rightarrow> replan_scope" where
  "pick_replan_scope db c x =
     (let p = px_line x; policy = replan_policy db c p in
      \<lparr>rs_tenant = pc_tenant c, rs_wh = pc_wh c, rs_sku = pc_sku c, rs_exclude = pc_bin c, rs_need = px_shortfall x, rs_at = px_at x,
       rs_rule = pp_rule policy, rs_min = pp_min policy, rs_judged = judged_on (px_list x) (px_at x), rs_consignee = frozen_consignee p,
       rs_tracked = sf_tracked (px_sku x)\<rparr>)"

definition next_seq :: "pick_line list \<Rightarrow> int" where
  "next_seq siblings = foldr (\<lambda>q m. max (sc_seq q) m) siblings (-1) + 1"

definition next_walk :: "outbound_db \<Rightarrow> pick_command \<Rightarrow> int" where
  "next_walk db c =
     foldr (\<lambda>q m. max (pl_walk q) m) (filter (\<lambda>q. pl_tenant q = pc_tenant c \<and> pl_picklist q = pc_picklist c) (ob_picks db)) (-1) + 1"

definition replan_row :: "pick_command \<Rightarrow> pick_line \<Rightarrow> pool_policy \<Rightarrow> uuid option \<Rightarrow> uuid \<Rightarrow> int \<Rightarrow> int \<Rightarrow> replan_slice \<Rightarrow> pick_line" where
  "replan_row c p policy hold newId seq walk r =
     \<lparr>sc_order = sc_order p, sc_line = sc_line p, sc_sku = pc_sku c, sc_reservation = hold, sc_bin = Some (rp_bin r),
      sc_code = Some (rp_code r), sc_batch = rp_batch r, sc_qty = rp_qty r, sc_shortfall = 0, sc_seq = seq, sc_status = ''planned'',
      sc_rule = Some (rule_name (pp_rule policy)), sc_min_days = pp_min policy, sc_partner = sc_partner p, sc_days = sc_days p,
      sc_percent = sc_percent p, sc_base = sc_base p, sc_cause = None, pl_tenant = pc_tenant c, pl_picklist = pc_picklist c,
      pl_wave = pl_wave p, pl_walk = walk, pl_id = newId, pl_reason = None\<rparr>"

text \<open>The stops are numbered in walk order (bin code, bin, rank); the insert is under the open-slice index.\<close>

definition replan_rows :: "(nat \<Rightarrow> uuid) \<Rightarrow> outbound_db \<Rightarrow> pick_command \<Rightarrow> pick_line \<Rightarrow> pick_line list \<Rightarrow> pool_policy \<Rightarrow> uuid option
    \<Rightarrow> replan_slice list \<Rightarrow> pick_line list" where
  "replan_rows newId db c p siblings policy hold candidates =
     map (\<lambda>(i, r). replan_row c p policy hold (newId i) (next_seq siblings + int i) (next_walk db c + int i) r)
       (enumerate 0 (sort_key (\<lambda>r. (rp_code r, rp_bin r, rp_rank r)) candidates))"

definition insertReplanSlices :: "(nat \<Rightarrow> uuid) \<Rightarrow> pick_command \<Rightarrow> pick_line \<Rightarrow> pick_line list \<Rightarrow> pool_policy \<Rightarrow> uuid option
    \<Rightarrow> replan_slice list \<Rightarrow> pick_line list command" where
  "insertReplanSlices newId c p siblings policy hold candidates db =
     (let rows = replan_rows newId db c p siblings policy hold candidates;
          claims = map open_slice (filter (\<lambda>q. sc_status q \<noteq> ''cancelled'') (ob_picks db @ rows)) in
      if candidates = [] then Inr ([], db)
      else if distinct claims then Inr (rows, db\<lparr>ob_picks := ob_picks db @ rows\<rparr>)
      else Inl (Thrown ''picklist_lines_open_order_line_unique''))"

section \<open>Settling\<close>

record settlement =
  st_committed :: bool
  st_released :: bool
  st_hold :: "uuid option"
  st_rows :: "pick_line list"
  st_units :: int

definition nothing_settled :: settlement where
  "nothing_settled = \<lparr>st_committed = False, st_released = False, st_hold = None, st_rows = [], st_units = 0\<rparr>"

definition settle_short :: "uuid \<Rightarrow> (nat \<Rightarrow> uuid) \<Rightarrow> millis \<Rightarrow> pick_command \<Rightarrow> pick_plan \<Rightarrow> settlement command" where
  "settle_short newHold newSlice now c x db =
     (let p = px_line x; siblings = siblings_of db c p in
      case sc_reservation p of
        None \<Rightarrow> Inr (nothing_settled, db)
      | Some i \<Rightarrow>
          and_then (regrant_hold newHold now c x siblings i db) (\<lambda>((hold, units), db).
          let db = repoint_siblings c p siblings hold db in
          case hold of
            None \<Rightarrow> Inr (nothing_settled\<lparr>st_released := True, st_units := units\<rparr>, db)
          | Some h \<Rightarrow>
              and_then (insertReplanSlices newSlice c p siblings (replan_policy db c p) (Some h)
                (findReplanSlices db (pick_replan_scope db c x)) db) (\<lambda>(rows, db).
              Inr (\<lparr>st_committed = False, st_released = True, st_hold = Some h, st_rows = rows, st_units = units\<rparr>, db))))"

definition settle_full :: "millis \<Rightarrow> pick_command \<Rightarrow> pick_plan \<Rightarrow> settlement command" where
  "settle_full now c x db =
     (case sc_reservation (px_line x) of
        None \<Rightarrow> Inr (nothing_settled, db)
      | Some i \<Rightarrow>
          if list_ex (\<lambda>q. sc_status q = ''planned'') (siblings_of db c (px_line x)) then Inr (nothing_settled, db)
          else if (case holdLivenessInTx (pc_tenant c) i (tx_world now db) of Some (_, _, Some True) \<Rightarrow> True | _ \<Rightarrow> False)
          then Inl pickUnresolvable
          else and_then (in_caller_tx (commitInTx (pc_tenant c) i) now db) (\<lambda>(_, db).
            Inr (nothing_settled\<lparr>st_committed := True\<rparr>, db)))"

definition settle_pick :: "uuid \<Rightarrow> (nat \<Rightarrow> uuid) \<Rightarrow> millis \<Rightarrow> pick_command \<Rightarrow> pick_plan \<Rightarrow> settlement command" where
  "settle_pick newHold newSlice now c x =
     (if px_short x then settle_short newHold newSlice now c x else settle_full now c x)"

section \<open>The record\<close>

definition conflict_class :: "pick_plan \<Rightarrow> settlement \<Rightarrow> string" where
  "conflict_class x s = (if \<not> px_moved x then ''none'' else if st_committed s then ''settled'' else ''applied'')"

definition pick_batch :: "pick_plan \<Rightarrow> uuid option" where
  "pick_batch x = (case px_arms x of [(batch, _)] \<Rightarrow> batch | _ \<Rightarrow> None)"

definition pick_record :: "uuid \<Rightarrow> pick_command \<Rightarrow> pick_plan \<Rightarrow> settlement \<Rightarrow> pick_row" where
  "pick_record newId c x s =
     (let p = px_line x in
      \<lparr>pr_id = newId, pr_tenant = pc_tenant c, pr_wh = pc_wh c, pr_wave = pl_wave p, pr_picklist = pc_picklist c, pr_line = pl_id p,
       pr_order = sc_order p, pr_order_line = sc_line p, pr_sku = pc_sku c, pr_bin = pc_bin c, pr_suggested_bin = sc_bin p,
       pr_batch = pick_batch x, pr_suggested_batch = sc_batch p, pr_reservation = sc_reservation p, pr_committed = st_committed s,
       pr_class = conflict_class x s, pr_qty = px_qty x, pr_by = pc_operator c, pr_picked_at = px_at x, pr_device = pc_device c\<rparr>)"

text \<open>One pick per line; a pick of nothing leaves no row.\<close>

definition insert_pick :: "uuid \<Rightarrow> pick_command \<Rightarrow> pick_plan \<Rightarrow> settlement \<Rightarrow> outbound_db \<Rightarrow> outbound_db result" where
  "insert_pick newId c x s db =
     (if px_qty x = 0 then Inr db
      else if list_ex (\<lambda>r. pr_tenant r = pc_tenant c \<and> pr_line r = pl_id (px_line x)) (ob_drawn db) then Inl pickUnresolvable
      else Inr (db\<lparr>ob_drawn := ob_drawn db @ [pick_record newId c x s]\<rparr>))"

definition snapshot_of :: "uuid \<Rightarrow> pick_command \<Rightarrow> pick_plan \<Rightarrow> settlement \<Rightarrow> pick_snapshot" where
  "snapshot_of newId c x s =
     \<lparr>sn_id = (if px_qty x = 0 then None else Some newId), sn_line = pl_id (px_line x), sn_order_line = sc_line (px_line x),
      sn_bin = pc_bin c, sn_batch = pick_batch x, sn_qty = px_qty x, sn_reservation = sc_reservation (px_line x),
      sn_committed = st_committed s, sn_status = (if px_short x then ''short'' else ''picked''), sn_shortfall = px_shortfall x,
      sn_reason = (if px_short x then pc_reason c else None), sn_released = st_released s, sn_replan_hold = st_hold s,
      sn_replanned = map (\<lambda>r. (pl_id r, the (sc_bin r), sc_batch r, sc_qty r, sc_seq r, pl_walk r)) (st_rows s),
      sn_class = conflict_class x s\<rparr>"

definition note_pick :: "uuid \<Rightarrow> millis \<Rightarrow> pick_command \<Rightarrow> pick_plan \<Rightarrow> outbound_db \<Rightarrow> outbound_db" where
  "note_pick newId now c x db =
     (let subject = (if px_qty x = 0 then pl_id (px_line x) else newId) in
      db\<lparr>ob_outbox := ob_outbox db @ [(pc_tenant c, ''pick.recorded'', subject)],
         ob_audit := ob_audit db @ [(pc_tenant c, pc_operator c, if px_short x then ''pick.short-picked'' else ''pick.picked'', subject)],
         ob_devices := update_where (\<lambda>d. dv_id d = pc_device c) (dv_seen_update (\<lambda>_. Some now)) (ob_devices db)\<rparr>)"

text \<open>The transaction of a pick that passed its gates, up to its idempotency record.\<close>

definition write_pick :: "(string \<Rightarrow> string) \<Rightarrow> (nat \<Rightarrow> uuid) \<Rightarrow> millis \<Rightarrow> pick_command \<Rightarrow> pick_plan \<Rightarrow> (pick_snapshot \<times> int) command" where
  "write_pick sha newId now c x db =
     (let ms = pick_movements now c x; n = length ms in
      and_then (append_movements sha newId ms db) (\<lambda>db.
      and_then (flip_line c x db) (\<lambda>db.
      and_then (settle_pick (newId n) (\<lambda>i. newId (n + 1 + i)) now c x db) (\<lambda>(s, db).
      let pick = newId (n + 1 + length (st_rows s)) in
      and_then (insert_pick pick c x s db) (\<lambda>db.
      Inr ((snapshot_of pick c x s, st_units s), note_pick pick now c x db))))))"

definition pick_payload :: "pick_command \<Rightarrow> payload" where
  "pick_payload c = PickPayload (pc_tenant c) (pc_device c) (pc_operator c) (pc_wh c) (pc_picklist c) (pc_line c) (pc_sku c) (pc_bin c)
     (pc_qty c) (pc_occurred c) (pc_serials c) (pc_reason c)"

text \<open>The answer of the request, and the units to restore on the counter.\<close>

definition pick_in_tx :: "(payload \<Rightarrow> string) \<Rightarrow> (string \<Rightarrow> string) \<Rightarrow> (nat \<Rightarrow> uuid) \<Rightarrow> millis \<Rightarrow> pick_command \<Rightarrow> string \<Rightarrow> (response \<times> int) command" where
  "pick_in_tx hash sha newId now c key db =
     and_then (active_device db c) (\<lambda>_.
     and_then (getMemberRoleIn db (pc_tenant c) (pc_operator c)) (\<lambda>role.
     and_then (require (may_pick role) role_denied) (\<lambda>_.
     and_then (replay db (pc_tenant c) key (hash (pick_payload c))) (\<lambda>stored.
     case stored of
       Some response \<Rightarrow> Inr ((response, 0), db)
     | None \<Rightarrow>
         and_then (check_pick now role c db) (\<lambda>x.
         and_then (write_pick sha newId now c x db) (\<lambda>((snapshot, units), db).
         and_then (writeIdempotencyKey (pc_tenant c) key (hash (pick_payload c)) (PickAnswer snapshot) db) (\<lambda>(response, db).
         Inr ((response, units), db))))))))"

text \<open>The whole request: a refused transaction changes nothing; the counter is restored after the commit.\<close>

definition recordPick :: "(payload \<Rightarrow> string) \<Rightarrow> (string \<Rightarrow> string) \<Rightarrow> (nat \<Rightarrow> uuid) \<Rightarrow> pick_command \<Rightarrow> string \<Rightarrow> outbound_db \<times> world
    \<Rightarrow> response result \<times> outbound_db \<times> world" where
  "recordPick hash sha newId c key = (\<lambda>(db, w).
     (case pick_in_tx hash sha newId (wd_now w) c key db of
        Inl e \<Rightarrow> (Inl e, db, w)
      | Inr ((response, units), db') \<Rightarrow>
          (case restoreReservedUnits (pc_tenant c) (pc_wh c) (pc_sku c) units (w\<lparr>wd_iv := ob_iv db'\<rparr>) of
             (Inl e, w') \<Rightarrow> (Inl e, db', w')
           | (Inr _, w') \<Rightarrow> (Inr response, db', w'))))"

end
