(* ===== verification/PlanLemmas.thy ===== *)
theory PlanLemmas
  imports Wave
begin

text \<open>
  What the planner's parts do: the draw loop (takes the first eligible units, in rank order, and loses
  none), the pool (its slots are exactly the drawable stock of the conforming pickable bins), and the plan
  of a list of lines (balanced per line, within the pool per place, legal per slice).
\<close>

section \<open>Drawing\<close>

abbreviation draw_rest :: "(stock_slot \<Rightarrow> bool) \<Rightarrow> int \<Rightarrow> stock_slot list \<Rightarrow> stock_slot list" where
  "draw_rest el n ss \<equiv> fst (draw_slots el n ss)"
abbreviation draw_taken :: "(stock_slot \<Rightarrow> bool) \<Rightarrow> int \<Rightarrow> stock_slot list \<Rightarrow> (stock_slot \<times> int) list" where
  "draw_taken el n ss \<equiv> fst (snd (draw_slots el n ss))"
abbreviation draw_need :: "(stock_slot \<Rightarrow> bool) \<Rightarrow> int \<Rightarrow> stock_slot list \<Rightarrow> int" where
  "draw_need el n ss \<equiv> fst (snd (snd (draw_slots el n ss)))"
abbreviation draw_skipped :: "(stock_slot \<Rightarrow> bool) \<Rightarrow> int \<Rightarrow> stock_slot list \<Rightarrow> int" where
  "draw_skipped el n ss \<equiv> snd (snd (snd (draw_slots el n ss)))"

text \<open>The units of the slots that satisfy a predicate.\<close>

definition units_in :: "(stock_slot \<Rightarrow> bool) \<Rightarrow> stock_slot list \<Rightarrow> int" where
  "units_in P ss = sum_where (\<lambda>s. P s \<and> 0 < ss_remaining s) ss_remaining ss"

definition taken_in :: "(stock_slot \<Rightarrow> bool) \<Rightarrow> (stock_slot \<times> int) list \<Rightarrow> int" where
  "taken_in P ts = sum_where (\<lambda>(s, n). P s) snd ts"

lemma units_simps [simp]:
  "units_in P [] = 0"
  "units_in P (s # ss) = (if P s \<and> 0 < ss_remaining s then ss_remaining s else 0) + units_in P ss"
  "units_in P (xs @ ys) = units_in P xs + units_in P ys"
  "taken_in P [] = 0"
  "taken_in P ((s, n) # ts) = (if P s then n else 0) + taken_in P ts"
  by (simp_all add: units_in_def taken_in_def)

lemma units_nonneg [simp]: "0 \<le> units_in P ss"
  unfolding units_in_def by (rule sum_where_nonneg) simp

text \<open>A predicate that does not look at what remains of a slot.\<close>

definition by_place :: "(stock_slot \<Rightarrow> 'a) \<Rightarrow> bool" where
  "by_place P = (\<forall>s n. P (s\<lparr>ss_remaining := n\<rparr>) = P s)"

lemma by_placeD [simp]: "by_place P \<Longrightarrow> P (s\<lparr>ss_remaining := n\<rparr>) = P s"
  by (simp add: by_place_def)

lemma draw_zero: "draw_slots el 0 ss = (ss, [], 0, 0)"
  by (cases ss) simp_all

text \<open>Induction over the slots with the four cases of a step.\<close>

lemma draw_induct [consumes 1, case_names Nil Zero Empty Skip Take]:
  assumes "0 \<le> need" and "\<And>need. 0 \<le> need \<Longrightarrow> P need []"
    and "\<And>ss. P 0 ss"
    and "\<And>need s ss. 0 < need \<Longrightarrow> ss_remaining s \<le> 0 \<Longrightarrow> P need ss \<Longrightarrow> P need (s # ss)"
    and "\<And>need s ss. 0 < need \<Longrightarrow> 0 < ss_remaining s \<Longrightarrow> \<not> el s \<Longrightarrow> P need ss \<Longrightarrow> P need (s # ss)"
    and "\<And>need s ss. 0 < need \<Longrightarrow> 0 < ss_remaining s \<Longrightarrow> el s \<Longrightarrow> P (need - min need (ss_remaining s)) ss \<Longrightarrow> P need (s # ss)"
  shows "P need ss"
  using assms(1)
proof (induction ss arbitrary: need)
  case Nil
  then show ?case by (rule assms(2))
next
  case (Cons s ss)
  consider "need = 0" | "0 < need" "ss_remaining s \<le> 0" | "0 < need" "0 < ss_remaining s" "\<not> el s" | "0 < need" "0 < ss_remaining s" "el s"
    using Cons.prems by linarith
  then show ?case
  proof cases
    case 1
    then show ?thesis using assms(3) by simp
  next
    case 2
    then show ?thesis using Cons assms(4) by simp
  next
    case 3
    then show ?thesis using Cons assms(5) by simp
  next
    case 4
    moreover have "0 \<le> need - min need (ss_remaining s)" by simp
    ultimately show ?thesis using Cons.IH assms(6) by blast
  qed
qed

lemma draw_eqs [simp]:
  "draw_slots el need [] = ([], [], need, 0)"
  "draw_slots el 0 ss = (ss, [], 0, 0)"
  "0 < need \<Longrightarrow> ss_remaining s \<le> 0 \<Longrightarrow> draw_slots el need (s # ss) =
    (s # draw_rest el need ss, draw_taken el need ss, draw_need el need ss, draw_skipped el need ss)"
  "0 < need \<Longrightarrow> 0 < ss_remaining s \<Longrightarrow> \<not> el s \<Longrightarrow> draw_slots el need (s # ss) =
    (s # draw_rest el need ss, draw_taken el need ss, draw_need el need ss, draw_skipped el need ss + ss_remaining s)"
  "0 < need \<Longrightarrow> 0 < ss_remaining s \<Longrightarrow> el s \<Longrightarrow> draw_slots el need (s # ss) =
    (let k = min need (ss_remaining s) in
     (s\<lparr>ss_remaining := ss_remaining s - k\<rparr> # draw_rest el (need - k) ss, (s, k) # draw_taken el (need - k) ss,
      draw_need el (need - k) ss, draw_skipped el (need - k) ss))"
  by (simp_all add: draw_zero split_beta Let_def)

declare draw_slots.simps(2) [simp del]

text \<open>A draw takes the need or all the eligible units, whichever is less.\<close>

lemma draw_need_eq: "0 \<le> need \<Longrightarrow> draw_need el need ss = max 0 (need - units_in el ss)"
proof (induction need ss rule: draw_induct [where el = el])
  case (Zero ss)
  then show ?case using units_nonneg [of el ss] by simp
next
  case (Take need s ss)
  then show ?case using units_nonneg [of el ss] by (auto simp: Let_def min_def max_def)
qed auto

lemma draw_taken_sum: "0 \<le> need \<Longrightarrow> taken_in (\<lambda>_. True) (draw_taken el need ss) = need - draw_need el need ss"
  by (induction need ss rule: draw_induct [where el = el]) (auto simp: Let_def)

lemma draw_taken_slot:
  "0 \<le> need \<Longrightarrow> (s, n) \<in> set (draw_taken el need ss) \<Longrightarrow> s \<in> set ss \<and> el s \<and> 0 < n \<and> n \<le> ss_remaining s"
  by (induction need ss rule: draw_induct [where el = el]) (auto simp: Let_def)

lemma draw_conserves:
  assumes "by_place P" and "0 \<le> need"
  shows "units_in P (draw_rest el need ss) + taken_in P (draw_taken el need ss) = units_in P ss"
  using assms(2)
proof (induction need ss rule: draw_induct [where el = el])
  case (Take need s ss)
  then show ?case using assms(1) by (auto simp: Let_def min_def)
qed auto

text \<open>What remains keeps its places, and loses nothing but what was taken.\<close>

lemma draw_rest_places: "0 \<le> need \<Longrightarrow>
  list_all2 (\<lambda>s s'. \<exists>n. s' = s\<lparr>ss_remaining := n\<rparr> \<and> n \<le> ss_remaining s) ss (draw_rest el need ss)"
proof (induction need ss rule: draw_induct [where el = el])
  case (Zero ss)
  have "\<exists>n. s = s\<lparr>ss_remaining := n\<rparr> \<and> n \<le> ss_remaining s" for s :: stock_slot
    by (intro exI [of _ "ss_remaining s"]) simp
  then show ?case by (simp add: list_all2_same)
next
  case (Empty need s ss)
  then show ?case by (auto intro: exI [of _ "ss_remaining s"])
next
  case (Skip need s ss)
  then show ?case by (auto intro: exI [of _ "ss_remaining s"])
next
  case (Take need s ss)
  then show ?case by (auto simp: Let_def intro!: exI [of _ "ss_remaining s - min need (ss_remaining s)"])
qed simp

text \<open>First come, first drawn: every slot taken from but the last is drained.\<close>

lemma draw_drains:
  "0 \<le> need \<Longrightarrow> (s, n) \<in> set (butlast (draw_taken el need ss)) \<Longrightarrow> n = ss_remaining s"
proof (induction need ss rule: draw_induct [where el = el])
  case (Take need s' ss)
  show ?case
  proof (cases "need \<le> ss_remaining s'")
    case True
    then show ?thesis using Take by (simp add: Let_def)
  next
    case False
    then show ?thesis using Take by (auto simp: Let_def split: if_splits)
  qed
qed auto

text \<open>The slots drawn from are an initial part of the eligible ones.\<close>

lemma draw_prefix: "0 \<le> need \<Longrightarrow>
  map fst (draw_taken el need ss) = take (length (draw_taken el need ss)) (filter (\<lambda>s. el s \<and> 0 < ss_remaining s) ss)"
  by (induction need ss rule: draw_induct [where el = el]) (auto simp: Let_def)

section \<open>What the pool holds\<close>

lemma units_in_concat: "units_in P (concat xss) = sum_list (map (units_in P) xss)"
  by (induction xss) auto

lemma sum_where_sort [simp]: "sum_where P f (sort_key k xs) = sum_where P f xs"
proof -
  have "mset (map f (filter P (sort_key k xs))) = mset (map f (filter P xs))" by simp
  then show ?thesis unfolding sum_where_def by (metis sum_mset_sum_list)
qed

lemma units_in_rank [simp]: "units_in P (rankSlots ss rule facts) = units_in P ss"
  by (simp add: units_in_def rankSlots_def)

lemma set_rankSlots [simp]: "set (rankSlots ss rule facts) = set ss"
  by (simp add: rankSlots_def)

text \<open>The budget of a bin.\<close>

lemma spend_budget_units:
  assumes "\<forall>b \<in> set bs. 0 < rb_qty b" and "0 \<le> budget"
  shows "units_in (\<lambda>s. ss_bin s = bin) (spend_budget bin code walk budget bs) = min budget (sum_list (map rb_qty bs))"
  using assms
proof (induction bs arbitrary: budget)
  case (Cons b bs)
  have rest: "0 \<le> sum_list (map rb_qty bs)" using Cons.prems(1) by (intro sum_list_nonneg) (auto simp: less_imp_le)
  show ?case
  proof (cases "budget \<le> 0")
    case True
    with Cons.prems rest show ?thesis by auto
  next
    case False
    have "units_in (\<lambda>s. ss_bin s = bin) (spend_budget bin code walk (budget - min (rb_qty b) budget) bs) =
        min (budget - min (rb_qty b) budget) (sum_list (map rb_qty bs))"
      using Cons False by auto
    with False Cons.prems(1) rest show ?thesis by (auto simp: Let_def min_def)
  qed
qed simp

lemma spend_budget_slot:
  assumes "s \<in> set (spend_budget bin code walk budget bs)" and "\<forall>b \<in> set bs. 0 < rb_qty b"
  shows "ss_bin s = bin \<and> ss_code s = code \<and> sl_walk s = walk \<and> 0 < ss_remaining s \<and>
    (\<exists>b \<in> set bs. sl_batch s = sl_batch b \<and> ss_remaining s \<le> rb_qty b)"
  using assms by (induction bs arbitrary: budget) (auto simp: Let_def split: if_splits)

definition batch_rows_at :: "pool_input \<Rightarrow> uuid \<Rightarrow> uuid \<Rightarrow> batch_row list" where
  "batch_rows_at inp sku bin = filter (\<lambda>r. ba_sku r = sku \<and> ba_bin r = bin) (pi_batches inp)"

text \<open>
  The units of a bin a plan may draw: all of them when no batch is recorded there; else what the batches do
  not account for, and the allocatable batches up to what they do.
\<close>

definition drawable_units :: "pool_input \<Rightarrow> uuid \<Rightarrow> stock_row \<Rightarrow> int" where
  "drawable_units inp sku row =
     (let rows = batch_rows_at inp sku (so_bin row);
          uncovered = max 0 (so_qty row - sum_list (map ba_qty rows))
      in if rows = [] then so_qty row
         else uncovered + min (so_qty row - uncovered) (sum_where (\<lambda>r. drawable_batch inp sku (ba_batch r)) ba_qty rows))"

definition positive_input :: "pool_input \<Rightarrow> bool" where
  "positive_input inp = ((\<forall>r \<in> set (pi_stock inp). 0 < so_qty r) \<and> (\<forall>r \<in> set (pi_batches inp). 0 < ba_qty r))"

definition ranked_batches :: "pool_input \<Rightarrow> uuid \<Rightarrow> int \<Rightarrow> batch_row list \<Rightarrow> ranked_batch list" where
  "ranked_batches inp sku walk rows =
     rankSlots (map (\<lambda>r. \<lparr>sl_walk = walk, sl_batch = Some (ba_batch r), rb_qty = ba_qty r\<rparr>)
       (filter (\<lambda>r. drawable_batch inp sku (ba_batch r)) rows)) (pp_rule (pi_policy inp sku)) (facts_of (pi_intakes inp))"

lemma ranked_batches_sum:
  "sum_list (map rb_qty (ranked_batches inp sku walk rows)) = sum_where (\<lambda>r. drawable_batch inp sku (ba_batch r)) ba_qty rows"
proof -
  have all: "sum_list (map rb_qty xs) = sum_where (\<lambda>_. True) rb_qty xs" for xs by (simp add: sum_where_def)
  show ?thesis
    unfolding all ranked_batches_def rankSlots_def sum_where_sort by (simp add: sum_where_def comp_def)
qed

lemma bin_slots_eq:
  "bin_slots inp sku row =
     (let code = (case pool_bin (pi_bins inp) (so_bin row) of None \<Rightarrow> '''' | Some b \<Rightarrow> bn_code b);
          walk = (case bin_rank (pi_bins inp) (so_bin row) of None \<Rightarrow> 0 | Some i \<Rightarrow> i);
          rows = batch_rows_at inp sku (so_bin row);
          loose = (\<lambda>n. \<lparr>sl_walk = walk, sl_batch = None, ss_bin = so_bin row, ss_code = code, ss_remaining = n\<rparr>);
          uncovered = max 0 (so_qty row - sum_list (map ba_qty rows))
      in if rows = [] then [loose (so_qty row)]
         else spend_budget (so_bin row) code walk (so_qty row - uncovered) (ranked_batches inp sku walk rows) @
              (if 0 < uncovered then [loose uncovered] else []))"
  by (simp add: bin_slots_def batch_rows_at_def ranked_batches_def Let_def)

lemma ranked_batches_pos: "positive_input inp \<Longrightarrow> \<forall>b \<in> set (ranked_batches inp sku walk (batch_rows_at inp sku bin)). 0 < rb_qty b"
  by (auto simp: ranked_batches_def positive_input_def batch_rows_at_def)

lemma bin_slots_bin:
  assumes "positive_input inp" and "s \<in> set (bin_slots inp sku row)"
  shows "ss_bin s = so_bin row"
  using assms(2) spend_budget_slot [OF _ ranked_batches_pos [OF assms(1)]] by (fastforce simp: bin_slots_eq Let_def split: if_splits)

lemma bin_slots_units:
  assumes "positive_input inp" and "0 < so_qty row"
  shows "units_in (\<lambda>s. ss_bin s = bin) (bin_slots inp sku row) = (if so_bin row = bin then drawable_units inp sku row else 0)"
proof (cases "so_bin row = bin")
  case True
  let ?rows = "batch_rows_at inp sku (so_bin row)"
  let ?uncovered = "max 0 (so_qty row - sum_list (map ba_qty ?rows))"
  have "0 \<le> sum_list (map ba_qty ?rows)"
    using assms(1) by (intro sum_list_nonneg) (auto simp: positive_input_def batch_rows_at_def less_imp_le)
  then have budget: "0 \<le> so_qty row - ?uncovered" using assms(2) by simp
  show ?thesis
    using True spend_budget_units [OF ranked_batches_pos [OF assms(1)] budget] ranked_batches_sum [of inp sku _ ?rows] assms(2)
    by (auto simp: bin_slots_eq Let_def drawable_units_def)
next
  case False
  have "units_in (\<lambda>s. ss_bin s = bin) (bin_slots inp sku row) = 0"
    unfolding units_in_def by (rule sum_where_none) (use bin_slots_bin [OF assms(1)] False in auto)
  with False show ?thesis by simp
qed

lemma drawable_units_le:
  assumes "0 < so_qty row"
  shows "drawable_units inp sku row \<le> so_qty row"
  using assms by (auto simp: drawable_units_def Let_def min_def)

lemma concat_units:
  assumes "positive_input inp" and "set rows \<subseteq> set (pi_stock inp)"
  shows "units_in (\<lambda>s. ss_bin s = bin) (concat (map (bin_slots inp sku) rows)) = sum_where (\<lambda>r. so_bin r = bin) (drawable_units inp sku) rows"
  using assms(2)
proof (induction rows)
  case (Cons r rows)
  then have "0 < so_qty r" using assms(1) by (simp add: positive_input_def)
  with Cons bin_slots_units [OF assms(1)] show ?case by simp
qed simp

text \<open>The bins a SKU's stock may be drawn from.\<close>

definition conforming_bin :: "pool_input \<Rightarrow> uuid \<Rightarrow> uuid \<Rightarrow> bool" where
  "conforming_bin inp sku bin = (bin \<in> bn_id ` set (pi_bins inp) \<and> class_conforms inp sku bin)"

lemma bin_rank_known: "(bin_rank bins b \<noteq> None) = (b \<in> bn_id ` set bins)"
proof -
  have "fst ` set (map (\<lambda>(i, b). (bn_id b, int i)) (enumerate 0 bins)) = bn_id ` set bins"
    by (auto simp: set_zip enumerate_eq_zip image_iff in_set_conv_nth) (metis nth_mem, metis nth_upt add_0 diff_zero length_upt)
  then show ?thesis by (simp add: bin_rank_def js_map_def map_of_eq_None_iff)
qed

lemma plain_rows_set: "set (plain_rows inp sku) = {r \<in> set (pi_stock inp). so_sku r = sku \<and> conforming_bin inp sku (so_bin r)}"
  unfolding plain_rows_def conforming_bin_def bin_rank_known set_sort set_filter by blast

lemma pool_units:
  assumes "positive_input inp"
  shows "units_in (\<lambda>s. ss_bin s = bin) (sku_slots inp sku) =
    sum_where (\<lambda>r. so_sku r = sku \<and> so_bin r = bin \<and> conforming_bin inp sku bin) (drawable_units inp sku) (pi_stock inp)"
proof -
  have "units_in (\<lambda>s. ss_bin s = bin) (sku_slots inp sku) = sum_where (\<lambda>r. so_bin r = bin) (drawable_units inp sku) (plain_rows inp sku)"
    unfolding sku_slots_def units_in_rank by (rule concat_units [OF assms]) (auto simp: plain_rows_set)
  also have "\<dots> = sum_where (\<lambda>r. so_sku r = sku \<and> so_bin r = bin \<and> conforming_bin inp sku bin) (drawable_units inp sku) (pi_stock inp)"
  proof -
    have "filter (\<lambda>r. so_bin r = bin) (filter (\<lambda>r. so_sku r = sku \<and> conforming_bin inp sku (so_bin r)) (pi_stock inp)) =
        filter (\<lambda>r. so_sku r = sku \<and> so_bin r = bin \<and> conforming_bin inp sku bin) (pi_stock inp)"
      unfolding filter_filter by (rule filter_cong) auto
    then show ?thesis
      unfolding plain_rows_def sum_where_sort bin_rank_known conforming_bin_def [symmetric] by (simp add: sum_where_def)
  qed
  finally show ?thesis .
qed

lemma pool_units_le:
  assumes "positive_input inp"
  shows "units_in (\<lambda>s. ss_bin s = bin) (sku_slots inp sku) \<le> sum_where (\<lambda>r. so_sku r = sku \<and> so_bin r = bin) so_qty (pi_stock inp)"
  unfolding pool_units [OF assms]
  using assms drawable_units_le by (intro sum_where_mono) (fastforce simp: positive_input_def)

text \<open>Every slot names stock that is there and may be drawn.\<close>

definition legal_slot :: "pool_input \<Rightarrow> uuid \<Rightarrow> stock_slot \<Rightarrow> bool" where
  "legal_slot inp sku s = (0 < ss_remaining s \<and> conforming_bin inp sku (ss_bin s) \<and>
     (\<exists>r \<in> set (pi_stock inp). so_sku r = sku \<and> so_bin r = ss_bin s) \<and>
     (case sl_batch s of None \<Rightarrow> True
      | Some b \<Rightarrow> drawable_batch inp sku b \<and> (\<exists>r \<in> set (pi_batches inp). ba_sku r = sku \<and> ba_bin r = ss_bin s \<and> ba_batch r = b \<and> ss_remaining s \<le> ba_qty r)))"

lemma bin_slot_legal:
  assumes "positive_input inp" and "0 < so_qty row" and "s \<in> set (bin_slots inp sku row)"
  shows "0 < ss_remaining s \<and> ss_bin s = so_bin row \<and>
    (case sl_batch s of None \<Rightarrow> True
      | Some b \<Rightarrow> drawable_batch inp sku b \<and> (\<exists>r \<in> set (pi_batches inp). ba_sku r = sku \<and> ba_bin r = ss_bin s \<and> ba_batch r = b \<and> ss_remaining s \<le> ba_qty r))"
proof -
  let ?rows = "batch_rows_at inp sku (so_bin row)"
  consider "sl_batch s = None" "0 < ss_remaining s" "ss_bin s = so_bin row"
    | code walk budget where "s \<in> set (spend_budget (so_bin row) code walk budget (ranked_batches inp sku walk ?rows))"
    using assms(2,3) by (auto simp: bin_slots_eq Let_def split: if_splits)
  then show ?thesis
  proof cases
    case 1
    then show ?thesis by simp
  next
    case 2
    note slot = spend_budget_slot [OF 2 ranked_batches_pos [OF assms(1)]]
    then obtain b where b: "b \<in> set (ranked_batches inp sku walk ?rows)" "sl_batch s = sl_batch b" "ss_remaining s \<le> rb_qty b" by blast
    then obtain r where r: "r \<in> set ?rows" "drawable_batch inp sku (ba_batch r)" "sl_batch b = Some (ba_batch r)" "rb_qty b = ba_qty r"
      by (auto simp: ranked_batches_def)
    have "r \<in> set (pi_batches inp)" "ba_sku r = sku" "ba_bin r = so_bin row" using r(1) by (auto simp: batch_rows_at_def)
    with slot b r show ?thesis by auto
  qed
qed

lemma pool_slot_legal:
  assumes "positive_input inp" and "s \<in> set (sku_slots inp sku)"
  shows "legal_slot inp sku s"
proof -
  obtain row where row: "row \<in> set (plain_rows inp sku)" "s \<in> set (bin_slots inp sku row)"
    using assms(2) by (auto simp: sku_slots_def)
  then have r: "row \<in> set (pi_stock inp)" "so_sku row = sku" "conforming_bin inp sku (so_bin row)" by (auto simp: plain_rows_set)
  then have "0 < so_qty row" using assms(1) by (simp add: positive_input_def)
  from bin_slot_legal [OF assms(1) this row(2)] r show ?thesis by (auto simp: legal_slot_def)
qed

section \<open>Planning\<close>

lemma slice_of_simps [simp]:
  "sc_line (slice_of l ts) = ol_id l" "sc_order (slice_of l ts) = ol_order l" "sc_sku (slice_of l ts) = ol_sku l"
  "sc_reservation (slice_of l ts) = ol_reservation l" "sc_bin (slice_of l ts) = None" "sc_qty (slice_of l ts) = 0"
  "sc_shortfall (slice_of l ts) = 0" "sc_status (slice_of l ts) = ''planned''" "sc_batch (slice_of l ts) = None"
  by (simp_all add: slice_of_def)

lemma line_eligible_place: "by_place (line_eligible intakes at ts)"
  by (simp add: by_place_def line_eligible_def slot_expiry_def)

definition drawn_slices :: "order_line \<Rightarrow> line_terms \<Rightarrow> nat \<Rightarrow> (stock_slot \<times> int) list \<Rightarrow> planned_slice list" where
  "drawn_slices line ts n taken = map (\<lambda>(i, x). drawn_slice line ts i x) (enumerate n taken)"

lemma drawn_slices_simps [simp]:
  "drawn_slices line ts n [] = []"
  "drawn_slices line ts n (x # xs) = drawn_slice line ts n x # drawn_slices line ts (Suc n) xs"
  by (simp_all add: drawn_slices_def)

text \<open>The slices of a SKU that draw from certain places.\<close>

definition draws_at :: "(uuid \<Rightarrow> uuid option \<Rightarrow> bool) \<Rightarrow> 'a planned_slice_scheme \<Rightarrow> bool" where
  "draws_at Q s = (case sc_bin s of None \<Rightarrow> False | Some b \<Rightarrow> Q b (sc_batch s))"

definition slot_at :: "(uuid \<Rightarrow> uuid option \<Rightarrow> bool) \<Rightarrow> stock_slot \<Rightarrow> bool" where
  "slot_at Q s = Q (ss_bin s) (sl_batch s)"

lemma slot_at_place: "by_place (slot_at Q)"
  by (simp add: by_place_def slot_at_def)

lemma drawn_slice_simps [simp]:
  "sc_line (drawn_slice l ts i x) = ol_id l" "sc_order (drawn_slice l ts i x) = ol_order l" "sc_sku (drawn_slice l ts i x) = ol_sku l"
  "sc_reservation (drawn_slice l ts i x) = ol_reservation l" "sc_qty (drawn_slice l ts i x) = snd x"
  "sc_shortfall (drawn_slice l ts i x) = 0" "sc_status (drawn_slice l ts i x) = ''planned''"
  "sc_bin (drawn_slice l ts i x) = Some (ss_bin (fst x))" "sc_batch (drawn_slice l ts i x) = sl_batch (fst x)"
  "sc_seq (drawn_slice l ts i x) = int i"
  "draws_at Q (drawn_slice l ts i x) = slot_at Q (fst x)"
  by (simp_all add: drawn_slice_def slot_at_def draws_at_def split: prod.split)

lemma short_slice_simps [simp]:
  "sc_line (short_slice l ts i n k) = ol_id l" "sc_order (short_slice l ts i n k) = ol_order l" "sc_sku (short_slice l ts i n k) = ol_sku l"
  "sc_reservation (short_slice l ts i n k) = ol_reservation l" "sc_qty (short_slice l ts i n k) = 0"
  "sc_shortfall (short_slice l ts i n k) = n" "sc_status (short_slice l ts i n k) = ''unfulfillable''"
  "sc_bin (short_slice l ts i n k) = None" "sc_batch (short_slice l ts i n k) = None" "sc_seq (short_slice l ts i n k) = int i"
  "\<not> draws_at Q (short_slice l ts i n k)"
  by (simp_all add: short_slice_def draws_at_def)

lemma drawn_slices_sums:
  "sum_where (draws_at Q) sc_qty (drawn_slices l ts n taken) = taken_in (slot_at Q) taken"
  "sum_where (\<lambda>_. True) sc_qty (drawn_slices l ts n taken) = taken_in (\<lambda>_. True) taken"
  "sum_where (\<lambda>_. True) sc_shortfall (drawn_slices l ts n taken) = 0"
  by (induction taken arbitrary: n) (auto simp: split: prod.split)

lemma drawn_slices_set: "s \<in> set (drawn_slices l ts n taken) \<Longrightarrow> \<exists>i x. x \<in> set taken \<and> s = drawn_slice l ts i x"
proof (induction taken arbitrary: n)
  case (Cons y taken)
  from Cons.prems have "s = drawn_slice l ts n y \<or> s \<in> set (drawn_slices l ts (Suc n) taken)" by simp
  then show ?case
  proof
    assume "s \<in> set (drawn_slices l ts (Suc n) taken)"
    from Cons.IH [OF this] show ?thesis unfolding list.set by blast
  qed (unfold list.set, blast)
qed simp

lemma plan_line_eq:
  "plan_line intakes at ts line slots =
     (let el = line_eligible intakes at ts; need = draw_need el (ol_reserved line) slots; taken = draw_taken el (ol_reserved line) slots in
      (draw_rest el (ol_reserved line) slots,
       drawn_slices line ts 0 taken @ (if 0 < need then [short_slice line ts (length taken) need (draw_skipped el (ol_reserved line) slots)] else [])))"
  by (simp add: plan_line_def drawn_slices_def split_beta Let_def)

text \<open>The slices of a line: whose they are, and that they add up to what it has reserved.\<close>

lemma plan_line_slices:
  assumes "0 \<le> ol_reserved line" and "plan_line intakes at ts line slots = (rest, slices)"
  shows "\<forall>s \<in> set slices. sc_line s = ol_id line \<and> sc_order s = ol_order line \<and> sc_sku s = ol_sku line \<and> sc_reservation s = ol_reservation line"
    and "sum_where (\<lambda>_. True) sc_qty slices + sum_where (\<lambda>_. True) sc_shortfall slices = ol_reserved line"
    and "sum_where (draws_at Q) sc_qty slices + units_in (slot_at Q) rest = units_in (slot_at Q) slots"
    and "list_all2 (\<lambda>s s'. \<exists>n. s' = s\<lparr>ss_remaining := n\<rparr> \<and> n \<le> ss_remaining s) slots rest"
proof -
  let ?el = "line_eligible intakes at ts" and ?n = "ol_reserved line"
  let ?need = "draw_need ?el ?n slots"
  have rest: "rest = draw_rest ?el ?n slots"
    and slices: "slices = drawn_slices line ts 0 (draw_taken ?el ?n slots) @
      (if 0 < ?need then [short_slice line ts (length (draw_taken ?el ?n slots)) ?need (draw_skipped ?el ?n slots)] else [])"
    using assms(2) by (auto simp: plan_line_eq Let_def)
  show "\<forall>s \<in> set slices. sc_line s = ol_id line \<and> sc_order s = ol_order line \<and> sc_sku s = ol_sku line \<and> sc_reservation s = ol_reservation line"
    unfolding slices by (auto dest!: drawn_slices_set)
  have "0 \<le> ?need" using draw_need_eq [OF assms(1)] by simp
  then show "sum_where (\<lambda>_. True) sc_qty slices + sum_where (\<lambda>_. True) sc_shortfall slices = ol_reserved line"
    unfolding slices using draw_taken_sum [OF assms(1), of ?el slots] by (simp add: drawn_slices_sums)
  show "sum_where (draws_at Q) sc_qty slices + units_in (slot_at Q) rest = units_in (slot_at Q) slots"
    unfolding slices rest using draw_conserves [OF slot_at_place assms(1), of Q ?el slots] by (simp add: drawn_slices_sums)
  show "list_all2 (\<lambda>s s'. \<exists>n. s' = s\<lparr>ss_remaining := n\<rparr> \<and> n \<le> ss_remaining s) slots rest"
    unfolding rest by (rule draw_rest_places [OF assms(1)])
qed

text \<open>What a slice of a line may be: a draw from an eligible slot, or the line's shortfall.\<close>

definition slice_legal :: "(stock_slot \<Rightarrow> bool) \<Rightarrow> stock_slot list \<Rightarrow> planned_slice \<Rightarrow> bool" where
  "slice_legal el slots s =
     (sc_status s = ''planned'' \<and> sc_shortfall s = 0 \<and> (\<exists>x \<in> set slots. sc_bin s = Some (ss_bin x) \<and> sc_batch s = sl_batch x \<and> el x \<and>
        0 < sc_qty s \<and> sc_qty s \<le> ss_remaining x) \<or>
      sc_status s = ''unfulfillable'' \<and> sc_bin s = None \<and> sc_qty s = 0 \<and> 0 < sc_shortfall s)"

lemma plan_line_legal:
  assumes "0 \<le> ol_reserved line" and "plan_line intakes at ts line slots = (rest, slices)" and "s \<in> set slices"
  shows "slice_legal (line_eligible intakes at ts) slots s"
proof -
  let ?el = "line_eligible intakes at ts" and ?n = "ol_reserved line"
  consider i x where "x \<in> set (draw_taken ?el ?n slots)" "s = drawn_slice line ts i x" | i n k where "s = short_slice line ts i n k" "0 < n"
    using assms(2,3) by (auto simp: plan_line_eq Let_def dest!: drawn_slices_set split: if_splits)
  then show ?thesis
  proof cases
    case 1
    then show ?thesis using draw_taken_slot [OF assms(1), of "fst x" "snd x" ?el slots] by (auto simp: slice_legal_def)
  next
    case 2
    then show ?thesis by (simp add: slice_legal_def)
  qed
qed

lemma slice_legal_back:
  assumes "slice_legal el slots' s" and "by_place el"
    and "list_all2 (\<lambda>s s'. \<exists>n. s' = s\<lparr>ss_remaining := n\<rparr> \<and> n \<le> ss_remaining s) slots slots'"
  shows "slice_legal el slots s"
proof -
  have "\<exists>x \<in> set slots. \<exists>n. y = x\<lparr>ss_remaining := n\<rparr> \<and> n \<le> ss_remaining x" if "y \<in> set slots'" for y
  proof -
    obtain i where i: "i < length slots'" "y = slots' ! i" using \<open>y \<in> set slots'\<close> by (auto simp: in_set_conv_nth)
    then have "i < length slots" "\<exists>n. y = (slots ! i)\<lparr>ss_remaining := n\<rparr> \<and> n \<le> ss_remaining (slots ! i)"
      using assms(3) by (auto simp: list_all2_conv_all_nth)
    then show ?thesis using nth_mem by blast
  qed
  with assms(1,2) show ?thesis by (fastforce simp: slice_legal_def)
qed

definition pool_slots :: "(uuid \<Rightarrow> stock_slot list option) \<Rightarrow> uuid \<Rightarrow> stock_slot list" where
  "pool_slots pool sku = (case pool sku of None \<Rightarrow> [] | Some ss \<Rightarrow> ss)"

definition next_pool :: "(uuid \<Rightarrow> stock_slot list option) \<Rightarrow> uuid \<Rightarrow> stock_slot list \<Rightarrow> uuid \<Rightarrow> stock_slot list option" where
  "next_pool pool sku rest = (if pool sku = None then pool else pool(sku \<mapsto> rest))"

lemma plan_lines_Cons:
  "plan_lines intakes at terms (line # lines) pool =
     snd (plan_line intakes at (terms line) line (pool_slots pool (ol_sku line))) @
     plan_lines intakes at terms lines (next_pool pool (ol_sku line) (fst (plan_line intakes at (terms line) line (pool_slots pool (ol_sku line)))))"
  by (simp add: pool_slots_def next_pool_def split_beta Let_def)

lemma next_pool_slots:
  assumes "0 \<le> ol_reserved line"
  shows "pool_slots (next_pool pool (ol_sku line) (fst (plan_line intakes at ts line (pool_slots pool (ol_sku line))))) k =
    (if k = ol_sku line then fst (plan_line intakes at ts line (pool_slots pool k)) else pool_slots pool k)"
  by (cases "pool (ol_sku line)") (auto simp: pool_slots_def next_pool_def plan_line_eq Let_def)

definition qty_of :: "(planned_slice \<Rightarrow> bool) \<Rightarrow> planned_slice list \<Rightarrow> int" where
  "qty_of P slices = sum_where P sc_qty slices"

definition short_of :: "(planned_slice \<Rightarrow> bool) \<Rightarrow> planned_slice list \<Rightarrow> int" where
  "short_of P slices = sum_where P sc_shortfall slices"

lemma qty_simps [simp]: "qty_of P (xs @ ys) = qty_of P xs + qty_of P ys" "qty_of P [] = 0"
    "short_of P (xs @ ys) = short_of P xs + short_of P ys" "short_of P [] = 0"
  by (simp_all add: qty_of_def short_of_def)

lemma qty_none: "(\<And>s. s \<in> set slices \<Longrightarrow> \<not> P s) \<Longrightarrow> qty_of P slices = 0 \<and> short_of P slices = 0"
  unfolding qty_of_def short_of_def using sum_where_none by metis

lemma qty_all: "(\<And>s. s \<in> set slices \<Longrightarrow> P s) \<Longrightarrow> qty_of (\<lambda>s. P s \<and> R s) slices = qty_of R slices \<and> short_of P slices = short_of (\<lambda>_. True) slices"
  unfolding qty_of_def short_of_def by (auto intro: sum_where_cong)

lemma plan_lines_owner: "s \<in> set (plan_lines intakes at terms lines pool) \<Longrightarrow> \<forall>l \<in> set lines. 0 \<le> ol_reserved l \<Longrightarrow>
    \<exists>l \<in> set lines. sc_line s = ol_id l \<and> sc_order s = ol_order l \<and> sc_sku s = ol_sku l \<and> sc_reservation s = ol_reservation l"
proof (induction lines arbitrary: pool)
  case (Cons l lines)
  let ?p = "plan_line intakes at (terms l) l (pool_slots pool (ol_sku l))"
  have "0 \<le> ol_reserved l" using Cons.prems(2) by simp
  note own = plan_line_slices(1) [OF this, of intakes at "terms l" "pool_slots pool (ol_sku l)" "fst ?p" "snd ?p"]
  from Cons.prems(1) have "s \<in> set (snd ?p) \<or> s \<in> set (plan_lines intakes at terms lines (next_pool pool (ol_sku l) (fst ?p)))"
    unfolding plan_lines_Cons by simp
  then show ?case
  proof
    assume "s \<in> set (snd ?p)"
    with own show ?thesis by auto
  next
    assume "s \<in> set (plan_lines intakes at terms lines (next_pool pool (ol_sku l) (fst ?p)))"
    from Cons.IH [OF this] Cons.prems(2) show ?thesis by auto
  qed
qed simp

text \<open>The slices of a line add up to what it has reserved.\<close>

lemma plan_lines_balance:
  assumes "distinct (map ol_id lines)" and "\<forall>l \<in> set lines. 0 \<le> ol_reserved l" and "line \<in> set lines"
  shows "qty_of (\<lambda>s. sc_line s = ol_id line) (plan_lines intakes at terms lines pool) +
    short_of (\<lambda>s. sc_line s = ol_id line) (plan_lines intakes at terms lines pool) = ol_reserved line"
  using assms
proof (induction lines arbitrary: pool)
  case (Cons l lines)
  let ?p = "plan_line intakes at (terms l) l (pool_slots pool (ol_sku l))"
  let ?rest = "plan_lines intakes at terms lines (next_pool pool (ol_sku l) (fst ?p))"
  let ?P = "\<lambda>s. sc_line s = ol_id line"
  have l: "0 \<le> ol_reserved l" using Cons.prems(2) by simp
  note slices = plan_line_slices [OF l, of intakes at "terms l" "pool_slots pool (ol_sku l)" "fst ?p" "snd ?p", simplified]
  show ?case
  proof (cases "line = l")
    case True
    have "sc_line s \<noteq> ol_id line" if "s \<in> set ?rest" for s
      using plan_lines_owner [OF that] Cons.prems(1,2) True by (auto simp: image_iff)
    then have "qty_of ?P ?rest = 0 \<and> short_of ?P ?rest = 0" by (intro qty_none)
    moreover have "qty_of ?P (snd ?p) = sum_where (\<lambda>_. True) sc_qty (snd ?p) \<and> short_of ?P (snd ?p) = sum_where (\<lambda>_. True) sc_shortfall (snd ?p)"
      unfolding qty_of_def short_of_def using slices(1) True by (auto intro: sum_where_cong)
    ultimately show ?thesis using slices(2) True unfolding plan_lines_Cons qty_simps by simp
  next
    case False
    then have line: "line \<in> set lines" using Cons.prems(3) by simp
    then have "ol_id line \<noteq> ol_id l" using Cons.prems(1) by (auto simp: image_iff)
    then have "qty_of ?P (snd ?p) = 0 \<and> short_of ?P (snd ?p) = 0" using slices(1) by (intro qty_none) auto
    then show ?thesis using Cons.IH Cons.prems line unfolding plan_lines_Cons qty_simps by simp
  qed
qed simp

text \<open>No place is drawn beyond what its slots hold, whichever lines draw from it.\<close>

lemma plan_lines_capacity:
  assumes "\<forall>l \<in> set lines. 0 \<le> ol_reserved l"
  shows "qty_of (\<lambda>s. sc_sku s = k \<and> draws_at Q s) (plan_lines intakes at terms lines pool) \<le> units_in (slot_at Q) (pool_slots pool k)"
  using assms
proof (induction lines arbitrary: pool)
  case (Cons l lines)
  let ?p = "plan_line intakes at (terms l) l (pool_slots pool (ol_sku l))"
  let ?P = "\<lambda>s. sc_sku s = k \<and> draws_at Q s"
  have l: "0 \<le> ol_reserved l" using Cons.prems by simp
  note slices = plan_line_slices [OF l, of intakes at "terms l" "pool_slots pool (ol_sku l)" "fst ?p" "snd ?p", simplified]
  note IH = Cons.IH [of "next_pool pool (ol_sku l) (fst ?p)", unfolded next_pool_slots [OF l]]
  show ?case
  proof (cases "ol_sku l = k")
    case True
    have "qty_of ?P (snd ?p) = sum_where (draws_at Q) sc_qty (snd ?p)"
      unfolding qty_of_def using slices(1) True by (auto intro: sum_where_cong)
    then show ?thesis using IH slices(3) [of Q] True Cons.prems unfolding plan_lines_Cons qty_simps by simp
  next
    case False
    then have "qty_of ?P (snd ?p) = 0" using slices(1) qty_none [of "snd ?p" ?P] by auto
    then show ?thesis using IH False Cons.prems unfolding plan_lines_Cons qty_simps by simp
  qed
qed simp

text \<open>Every slice is legal on the pool the plan started from.\<close>

lemma plan_lines_legal:
  assumes "\<forall>l \<in> set lines. 0 \<le> ol_reserved l" and "s \<in> set (plan_lines intakes at terms lines pool)"
  shows "\<exists>l \<in> set lines. sc_line s = ol_id l \<and> sc_order s = ol_order l \<and> sc_sku s = ol_sku l \<and> sc_reservation s = ol_reservation l \<and>
    slice_legal (line_eligible intakes at (terms l)) (pool_slots pool (ol_sku l)) s"
  using assms
proof (induction lines arbitrary: pool)
  case (Cons l lines)
  let ?p = "plan_line intakes at (terms l) l (pool_slots pool (ol_sku l))"
  let ?pool = "next_pool pool (ol_sku l) (fst ?p)"
  have l: "0 \<le> ol_reserved l" using Cons.prems by simp
  note slices = plan_line_slices [OF l, of intakes at "terms l" "pool_slots pool (ol_sku l)" "fst ?p" "snd ?p", simplified]
  from Cons.prems(2) consider "s \<in> set (snd ?p)" | "s \<in> set (plan_lines intakes at terms lines ?pool)"
    unfolding plan_lines_Cons by auto
  then show ?case
  proof cases
    case 1
    then show ?thesis using slices(1) plan_line_legal [OF l, of intakes at "terms l" "pool_slots pool (ol_sku l)" "fst ?p" "snd ?p" s] by auto
  next
    case 2
    then obtain l' where l': "l' \<in> set lines" "sc_line s = ol_id l' \<and> sc_order s = ol_order l' \<and> sc_sku s = ol_sku l' \<and> sc_reservation s = ol_reservation l'"
      "slice_legal (line_eligible intakes at (terms l')) (pool_slots ?pool (ol_sku l')) s"
      using Cons.IH [OF _ 2] Cons.prems(1) by auto
    have "slice_legal (line_eligible intakes at (terms l')) (pool_slots pool (ol_sku l')) s"
    proof (cases "ol_sku l' = ol_sku l")
      case True
      then show ?thesis using l'(3) slice_legal_back [OF _ line_eligible_place slices(4)] by (simp add: next_pool_slots [OF l])
    next
      case False
      then show ?thesis using l'(3) by (simp add: next_pool_slots [OF l])
    qed
    with l' show ?thesis by auto
  qed
qed simp

end
