(* ===== verification/WaveProperties.thy ===== *)
theory WaveProperties
  imports PlanLemmas
begin

text \<open>
  What the wave planner guarantees: the pool a plan starts from, the line planner, and the whole
  generation of a wave, which accounts for every reserved unit and draws only stock that is there and legal.
\<close>

section \<open>A small warehouse\<close>

definition demo_id :: "char \<Rightarrow> uuid" where
  "demo_id c = replicate 8 c @ ''-'' @ replicate 4 c @ ''-'' @ replicate 4 c @ ''-'' @ replicate 4 c @ ''-'' @ replicate 12 c"

definition demo_bin :: "string \<Rightarrow> pick_bin" where
  "demo_bin i = \<lparr>bn_id = i, bn_tenant = ''t'', bn_wh = demo_id CHR ''1'', bn_code = i, bn_system = False, bn_blocked = False,
     pk_class = ''ambient'', pk_retired = None, pk_reason = None, pk_blocked_at = None, pk_blocked_by = None\<rparr>"

definition demo_stock :: "string \<Rightarrow> int \<Rightarrow> stock_row" where
  "demo_stock b n = \<lparr>so_tenant = ''t'', so_wh = demo_id CHR ''1'', so_sku = ''s'', so_bin = b, so_qty = n\<rparr>"

definition demo_order :: "string \<Rightarrow> millis \<Rightarrow> order_row" where
  "demo_order i at = \<lparr>or_id = i, or_tenant = ''t'', or_wh = demo_id CHR ''1'', or_client = ''c'', or_status = ''accepted'',
     or_priority = ''normal'', or_ship = None, or_created = at, or_gstin = None\<rparr>"

definition demo_line :: "string \<Rightarrow> string \<Rightarrow> int \<Rightarrow> string \<Rightarrow> order_line" where
  "demo_line i ord n hold = \<lparr>ol_id = i, ol_tenant = ''t'', ol_order = ord, ol_sku = ''s'', ol_reserved = n, ol_reservation = Some hold, ol_created = 0,
     ol_qty = n, ol_parent = None\<rparr>"

definition demo_hold :: "string \<Rightarrow> int \<Rightarrow> reservation_row" where
  "demo_hold i n = \<lparr>rv_id = i, rv_tenant = ''t'', rv_wh = demo_id CHR ''1'', rv_sku = ''s'', rv_owner_type = ''order'', rv_owner = i,
     rv_qty = n, rv_state = Held, rv_expires = None\<rparr>"

text \<open>Bin A holds 5 units of the SKU, bin B 5, and two orders have 5 reserved each; a wave takes one order.\<close>

definition demo_db :: outbound_db where
  "demo_db = \<lparr>ob_iv = \<lparr>iv_ledger = \<lparr>db_events = [], db_stock = [demo_stock ''B'' 5, demo_stock ''A'' 5], db_batches = [], db_epochs = [],
        db_freezes = [], db_skus = []\<rparr>, iv_bins = [], iv_quarantines = [], iv_lots = [], iv_clients = [],
        iv_reservations = [demo_hold ''h'' 5, demo_hold ''i'' 5]\<rparr>,
     ob_bins = [demo_bin ''A'', demo_bin ''B''], ob_intakes = [],
     ob_skus = [\<lparr>sk_tenant = ''t'', sk_id = ''s'', sk_client = ''c'', sf_class = ''ambient'', sf_shelf = None, sf_tracked = False,
       sf_serial = False, sf_catch = False, sf_uom = ''each''\<rparr>],
     ob_users = [\<lparr>us_id = ''u'', us_tenant = ''t'', us_role = ''owner''\<rparr>],
     ob_warehouses = [\<lparr>wr_tenant = ''t'', wr_id = demo_id CHR ''1''\<rparr>],
     ob_orders = [demo_order ''o'' 1, demo_order ''p'' 2], ob_lines = [demo_line ''l'' ''o'' 5 ''h'', demo_line ''m'' ''p'' 5 ''i''],
     ob_partners = [], ob_links = [],
     ob_policies = [\<lparr>po_id = demo_id CHR ''2'', po_tenant = ''t'', po_wh = demo_id CHR ''1'', po_name = ''one'', po_grouping = ''single'',
       po_priority = 0, po_max = Some 1, po_cutoff = None, po_carrier = None\<rparr>],
     ob_waves = [], ob_lists = [], ob_picks = [], ob_keys = [], ob_outbox = [], ob_audit = [],
     ob_devices = [], ob_serials = [], ob_recalls = [], ob_recall_lines = [], ob_drawn = []\<rparr>"

definition demo_ids :: "string \<Rightarrow> nat \<Rightarrow> uuid" where "demo_ids p i = replicate (Suc i) CHR ''x'' @ p"

definition demo_generate :: generate_command where
  "demo_generate = \<lparr>gw_tenant = ''t'', gw_actor = ''u'', gw_wh = demo_id CHR ''1'', gw_policy = demo_id CHR ''2'', gw_orders = None\<rparr>"

definition demo_wave1 :: "outbound_db result" where "demo_wave1 = plan_wave (demo_ids ''1'') 0 demo_generate demo_db"

lemma map_sum_runs:
  assumes "map_sum id f r = Inr x"
  shows "r = Inr (projr r)" and "f (projr r) = x"
  using assms by (cases r; simp)+

lemma demo_wave1_runs: "map_sum id (\<lambda>db. map (\<lambda>p. (sc_order p, sc_bin p, sc_qty p, sc_shortfall p)) (ob_picks db)) demo_wave1 =
    Inr [(''o'', Some ''A'', 5, 0)]"
  by code_simp

definition demo_input :: pool_input where "demo_input = wave_pool_input demo_db ''t'' (demo_id CHR ''1'') 0 [''s'']"

definition demo_pool :: "stock_slot list" where "demo_pool = the (buildStockPool demo_input ''s'')"

definition demo_terms :: line_terms where "demo_terms = wave_terms demo_db ''t'' (ob_lines demo_db) (demo_line ''l'' ''o'' 7 ''h'')"

definition demo_plan :: "stock_slot list \<times> planned_slice list" where
  "demo_plan = plan_line [] 0 demo_terms (demo_line ''l'' ''o'' 7 ''h'') demo_pool"

section \<open>The pool of a SKU\<close>

text \<open>
  The pool holds exactly the stock that may be drawn: in every bin the units of a SKU's slots are what
  its stock row leaves drawable there (all of it without batches; else what the batches do not account
  for plus the allocatable batches up to the rest) when the bin is pickable and of a conforming class,
  and none otherwise; every slot is legal, and the slots are in the order of the client's rule.
\<close>

theorem pool_is_the_drawable_stock:
  assumes "positive_input inp" and "buildStockPool inp sku = Some slots"
  shows "units_in (\<lambda>s. ss_bin s = bin) slots =
      sum_where (\<lambda>r. so_sku r = sku \<and> so_bin r = bin \<and> conforming_bin inp sku bin) (drawable_units inp sku) (pi_stock inp) \<and>
    (\<forall>s \<in> set slots. legal_slot inp sku s) \<and>
    sorted (map (slot_key (pp_rule (pi_policy inp sku)) (facts_of (pi_intakes inp))) slots)"
proof -
  have slots: "slots = sku_slots inp sku" using assms(2) by (auto simp: buildStockPool_def split: if_splits)
  show ?thesis
    unfolding slots using pool_units [OF assms(1)] pool_slot_legal [OF assms(1)] by (simp add: sku_slots_def rankSlots_sorted)
qed

theorem pool_is_the_drawable_stock_witness:
  "buildStockPool demo_input ''s'' = Some demo_pool \<and> units_in (\<lambda>s. ss_bin s = ''A'') demo_pool = 5 \<and>
   sorted (map (slot_key (pp_rule (pi_policy demo_input ''s'')) (facts_of (pi_intakes demo_input))) demo_pool)"
proof -
  have pool: "buildStockPool demo_input ''s'' = Some demo_pool" by code_simp
  have pos: "positive_input demo_input" unfolding positive_input_def by code_simp
  have "sum_where (\<lambda>r. so_sku r = ''s'' \<and> so_bin r = ''A'' \<and> conforming_bin demo_input ''s'' ''A'') (drawable_units demo_input ''s'') (pi_stock demo_input) = 5"
    by code_simp
  with pool_is_the_drawable_stock [OF pos pool, of "''A''"] pool show ?thesis by simp
qed

section \<open>One line\<close>

text \<open>
  A line takes the first eligible units: planned on the slots of its SKU, it draws from an initial part
  of the slots its consignee rule admits, in their rank order, draining each before the next, in total
  the lesser of what it has reserved and what they hold; only the difference is its shortfall, and the
  slots lose nothing but what it took.
\<close>

theorem line_takes_first_eligible_units:
  assumes "0 \<le> ol_reserved line" and "plan_line intakes at terms line slots = (rest, slices)"
  shows "\<exists>taken. map (\<lambda>s. (sc_bin s, sc_batch s, sc_qty s)) (filter (\<lambda>s. sc_status s = ''planned'') slices) =
      map (\<lambda>(x, n). (Some (ss_bin x), sl_batch x, n)) taken \<and>
    map fst taken = take (length taken) (filter (\<lambda>x. line_eligible intakes at terms x \<and> 0 < ss_remaining x) slots) \<and>
    (\<forall>(x, n) \<in> set (butlast taken). n = ss_remaining x) \<and>
    taken_in (\<lambda>_. True) taken = min (ol_reserved line) (units_in (line_eligible intakes at terms) slots) \<and>
    short_of (\<lambda>_. True) slices = ol_reserved line - min (ol_reserved line) (units_in (line_eligible intakes at terms) slots) \<and>
    list_all2 (\<lambda>x y. \<exists>n. y = x\<lparr>ss_remaining := n\<rparr> \<and> n \<le> ss_remaining x) slots rest"
proof -
  let ?el = "line_eligible intakes at terms" and ?n = "ol_reserved line"
  let ?taken = "draw_taken ?el ?n slots" and ?need = "draw_need ?el ?n slots"
  have slices: "slices = drawn_slices line terms 0 ?taken @
      (if 0 < ?need then [short_slice line terms (length ?taken) ?need (draw_skipped ?el ?n slots)] else [])"
    using assms(2) by (auto simp: plan_line_eq Let_def)
  have drawn: "map (\<lambda>s. (sc_bin s, sc_batch s, sc_qty s)) (filter (\<lambda>s. sc_status s = ''planned'') (drawn_slices line terms i xs)) =
      map (\<lambda>(x, n). (Some (ss_bin x), sl_batch x, n)) xs" for i xs
    by (induction xs arbitrary: i) auto
  have need: "?need = ?n - min ?n (units_in ?el slots)" using draw_need_eq [OF assms(1), of ?el slots] by simp
  have short: "short_of (\<lambda>_. True) slices = ?need"
    unfolding slices short_of_def using need by (simp add: drawn_slices_sums)
  show ?thesis
  proof (intro exI [of _ ?taken] conjI)
    show "map (\<lambda>s. (sc_bin s, sc_batch s, sc_qty s)) (filter (\<lambda>s. sc_status s = ''planned'') slices) =
        map (\<lambda>(x, n). (Some (ss_bin x), sl_batch x, n)) ?taken"
      unfolding slices by (simp add: drawn)
    show "map fst ?taken = take (length ?taken) (filter (\<lambda>x. ?el x \<and> 0 < ss_remaining x) slots)" by (rule draw_prefix [OF assms(1)])
    show "\<forall>(x, n) \<in> set (butlast ?taken). n = ss_remaining x" using draw_drains [OF assms(1)] by blast
    show "taken_in (\<lambda>_. True) ?taken = min ?n (units_in ?el slots)" using draw_taken_sum [OF assms(1)] need by simp
    show "short_of (\<lambda>_. True) slices = ?n - min ?n (units_in ?el slots)" using short need by simp
    show "list_all2 (\<lambda>x y. \<exists>n. y = x\<lparr>ss_remaining := n\<rparr> \<and> n \<le> ss_remaining x) slots rest"
      using plan_line_slices(4) [OF assms] .
  qed
qed

theorem line_takes_first_eligible_units_witness:
  "short_of (\<lambda>_. True) (snd demo_plan) = 7 - min 7 (units_in (line_eligible [] 0 demo_terms) demo_pool) \<and>
   map sc_qty (snd demo_plan) = [5, 2]"
proof -
  have nonneg: "0 \<le> ol_reserved (demo_line ''l'' ''o'' 7 ''h'')" by (simp add: demo_line_def)
  have plan: "plan_line [] 0 demo_terms (demo_line ''l'' ''o'' 7 ''h'') demo_pool = (fst demo_plan, snd demo_plan)"
    by (simp add: demo_plan_def)
  have "map sc_qty (snd demo_plan) = [5, 2]" by code_simp
  with line_takes_first_eligible_units [OF nonneg plan] show ?thesis by (auto simp: demo_line_def)
qed

section \<open>A wave\<close>

lemma js_map_find:
  assumes "js_map (map (\<lambda>x. (f x, g x)) xs) k = Some v"
  shows "\<exists>x \<in> set xs. f x = k \<and> g x = v"
proof -
  have "(k, v) \<in> set (rev (map (\<lambda>x. (f x, g x)) xs))" using assms unfolding js_map_def by (rule map_of_SomeD)
  then show ?thesis by auto
qed

lemma sum_where_partition:
  assumes "distinct ids" and "k ` set xs \<subseteq> set ids"
  shows "sum_where P f (concat (map (\<lambda>i. filter (\<lambda>s. k s = i) xs) ids)) = sum_where P f xs"
  using assms(2)
proof (induction xs)
  case Nil
  show ?case by (induction ids) auto
next
  case (Cons x xs)
  have at: "sum_where P f (concat (map (\<lambda>i. filter (\<lambda>s. k s = i) (x # xs)) js)) =
      (if k x \<in> set js \<and> P x then f x else 0) + sum_where P f (concat (map (\<lambda>i. filter (\<lambda>s. k s = i) xs) js))"
    if "distinct js" for js
    using that by (induction js) auto
  show ?case using Cons at [OF assms(1)] by auto
qed

lemma picklistLineValues_sum:
  assumes "\<And>s i j k. P' (planned_slice.extend s \<lparr>pl_tenant = t, pl_picklist = i, pl_wave = w, pl_walk = j, pl_id = k, pl_reason = None\<rparr>) = P s"
    and "\<And>s x. f' (planned_slice.extend s x) = f s"
  shows "sum_where P' f' (picklistLineValues ids t w groups) = sum_where P f (concat (map snd groups))"
proof -
  have row: "sum_where P' f' (map (\<lambda>(j, s). planned_slice.extend s \<lparr>pl_tenant = t, pl_picklist = i, pl_wave = w, pl_walk = int j, pl_id = ids j, pl_reason = None\<rparr>) (enumerate n ss)) =
      sum_where P f ss" for ids i n ss
    using assms by (induction ss arbitrary: n) auto
  show ?thesis
    by (induction groups arbitrary: ids) (auto simp: row sortWalk_def)
qed

text \<open>The keys of the tables a plan reads.\<close>

definition outbound_ok :: "outbound_db \<Rightarrow> bool" where
  "outbound_ok db = (distinct (map or_id (ob_orders db)) \<and> distinct (map ol_id (ob_lines db)))"

lemma distinct_map_filter_take:
  assumes "distinct (map f xs)"
  shows "distinct (map f (sort_key k xs))" and "distinct (map f (filter P xs))" and "distinct (map f (take n xs))"
proof -
  show "distinct (map f (sort_key k xs))" using assms by (auto simp: distinct_map)
  show "distinct (map f (filter P xs))" using assms by (auto simp: distinct_map intro: inj_on_subset)
  show "distinct (map f (take n xs))" using assms by (simp add: take_map [symmetric] distinct_take)
qed

lemma urgency_sort: "js_sort (compareOrderUrgency today) rows = sort_key (orderUrgencyOrderBy today) rows"
  by (rule js_sort_key) (rule urgency_twins)

text \<open>The selected orders are distinct, accepted orders of the warehouse that no open pick line claims.\<close>

definition unclaimed :: "outbound_db \<Rightarrow> uuid \<Rightarrow> uuid \<Rightarrow> bool" where
  "unclaimed db t i = (\<forall>p \<in> set (ob_picks db). pl_tenant p = t \<and> sc_order p = i \<longrightarrow> sc_status p = ''cancelled'')"

definition accepted_in :: "outbound_db \<Rightarrow> uuid \<Rightarrow> uuid \<Rightarrow> uuid \<Rightarrow> bool" where
  "accepted_in db t wh i = (\<exists>r \<in> set (ob_orders db). or_id r = i \<and> or_tenant r = t \<and> or_wh r = wh \<and> or_status r = ''accepted'')"

lemma openClaims_none: "openClaims db t ids = [] \<Longrightarrow> i \<in> set ids \<Longrightarrow> unclaimed db t i"
  by (auto simp: openClaims_def unclaimed_def filter_empty_conv)

lemma foldM_unit: "foldM f () xs = Inr () \<Longrightarrow> x \<in> set xs \<Longrightarrow> f () x = Inr ()" for f :: "unit \<Rightarrow> 'a \<Rightarrow> 'e + unit"
  by (induction xs) auto

lemma select_named_orders:
  assumes "select_named db t wh cap today ids = Inr sel" and "distinct (map or_id (ob_orders db))"
  shows "distinct sel \<and> (\<forall>i \<in> set sel. unclaimed db t i \<and> accepted_in db t wh i)"
proof -
  let ?rows = "lock_order (filter (\<lambda>r. or_tenant r = t \<and> or_id r \<in> set ids) (ob_orders db))"
  let ?step = "\<lambda>_ i. case js_map (map (\<lambda>r. (or_id r, r)) ?rows) i of None \<Rightarrow> Inl not_found
        | Some r \<Rightarrow> if or_wh r \<noteq> wh then Inl not_found else require (or_status r = ''accepted'') noEligibleOrders"
  have checks: "foldM ?step () ids = Inr ()" and free: "openClaims db t ids = []" and sel: "sel = map or_id (js_sort (compareOrderUrgency today) ?rows)"
    using assms(1) by (auto simp: select_named_def Let_def split: if_splits)
  have dist: "distinct (map or_id ?rows)" unfolding lock_order_def by (intro distinct_map_filter_take assms(2))
  have each: "?step () i = Inr ()" if "i \<in> set ids" for i
    by (rule foldM_unit [OF checks that])
  have "unclaimed db t i \<and> accepted_in db t wh i" if i: "i \<in> set sel" for i
  proof -
    obtain r where r: "r \<in> set ?rows" "or_id r = i" using i by (auto simp: sel urgency_sort)
    then have ids: "i \<in> set ids" "r \<in> set (ob_orders db)" "or_tenant r = t" by (auto simp: lock_order_def)
    obtain r' where r': "js_map (map (\<lambda>r. (or_id r, r)) ?rows) i = Some r'" "or_wh r' = wh" "or_status r' = ''accepted''"
      using each [OF ids(1)] by (auto split: option.splits if_splits)
    then have "r' \<in> set ?rows" "or_id r' = i" using js_map_find [OF r'(1)] by auto
    then have "r' = r" using dist r by (auto dest: inj_onD simp: distinct_map)
    with r' r ids openClaims_none [OF free ids(1)] show ?thesis by (auto simp: accepted_in_def)
  qed
  moreover have "distinct sel" unfolding sel urgency_sort by (intro distinct_map_filter_take dist)
  ultimately show ?thesis by blast
qed

lemma select_sweep_orders:
  assumes "select_sweep db t wh cap today = Inr sel" and "distinct (map or_id (ob_orders db))"
  shows "distinct sel \<and> (\<forall>i \<in> set sel. unclaimed db t i \<and> accepted_in db t wh i)"
proof -
  let ?cands = "sweep_candidates db t wh cap today"
  let ?locked = "lock_order (filter (\<lambda>r. eligible_order db t wh r \<and> or_id r \<in> set ?cands) (ob_orders db))"
  have sel: "sel = sweep_kept db t wh cap today ?cands" using assms(1) by (auto simp: select_sweep_def Let_def split: if_splits)
  have dist: "distinct (map or_id ?locked)" unfolding lock_order_def by (intro distinct_map_filter_take assms(2))
  have "distinct sel" unfolding sel sweep_kept_def Let_def urgency_sort by (intro distinct_map_filter_take dist)
  moreover have "unclaimed db t i \<and> accepted_in db t wh i" if i: "i \<in> set sel" for i
  proof -
    from i obtain r where r: "r \<in> set ?locked" "or_id r = i"
      unfolding sel sweep_kept_def Let_def urgency_sort by (auto dest!: in_set_takeD)
    then have el: "eligible_order db t wh r" "r \<in> set (ob_orders db)" by (auto simp: lock_order_def)
    then have "unclaimed db t i" using r(2) by (auto simp: eligible_order_def unclaimed_def list_ex_iff)
    with el r(2) show ?thesis by (auto simp: accepted_in_def eligible_order_def)
  qed
  ultimately show ?thesis by blast
qed

lemma selectOrders_orders:
  assumes "selectOrders db t wh policy now selection = Inr sel" and "distinct (map or_id (ob_orders db))"
  shows "distinct sel \<and> (\<forall>i \<in> set sel. unclaimed db t i \<and> accepted_in db t wh i)"
  using assms select_named_orders select_sweep_orders by (auto simp: selectOrders_def Let_def split: option.splits)

text \<open>What a generation plans and inserts.\<close>

lemma plan_wave_result:
  assumes "plan_wave newId now c db = Inr db'"
  obtains policy sel slices ids where "selectOrders db (gw_tenant c) (gw_wh c) policy now (map_option (\<lambda>ids. sort (remdups ids)) (gw_orders c)) = Inr sel"
    and "planSlices db (gw_tenant c) (gw_wh c) now (sort_key (\<lambda>l. position sel (ol_order l)) (held_lines db (gw_tenant c) sel)) = Inr slices"
    and "ob_picks db' = ob_picks db @ picklistLineValues ids (gw_tenant c) (newId 0) (map (\<lambda>(i, _, ss). (i, ss))
      (wave_groups newId policy (filter (\<lambda>i. list_ex (\<lambda>l. ol_order l = i) (held_lines db (gw_tenant c) sel)) sel) slices))"
    and "ob_orders db' = ob_orders db" and "ob_lines db' = ob_lines db" and "ob_keys db' = ob_keys db"
proof -
  obtain policy where policy: "loadPolicy db (gw_tenant c) (gw_policy c) = Inr policy" "po_wh policy = gw_wh c"
    using assms by (auto simp: plan_wave_def Let_def split: if_splits)
  then obtain sel where sel: "selectOrders db (gw_tenant c) (gw_wh c) policy now (map_option (\<lambda>ids. sort (remdups ids)) (gw_orders c)) = Inr sel"
    using assms by (auto simp: plan_wave_def Let_def split: if_splits)
  then obtain slices where slices: "planSlices db (gw_tenant c) (gw_wh c) now (sort_key (\<lambda>l. position sel (ol_order l)) (held_lines db (gw_tenant c) sel)) = Inr slices"
    using assms policy by (auto simp: plan_wave_def Let_def split: if_splits)
  show ?thesis
    by (rule that [OF sel slices]) (use assms policy sel slices in \<open>auto simp: plan_wave_def insert_picks_def Let_def split: if_splits\<close>)
qed

lemma planSlices_result:
  assumes "planSlices db t wh now lines = Inr slices"
  shows "slices = plan_lines (pi_intakes (wave_pool_input db t wh now (plan_skus lines))) now (wave_terms db t lines) lines
    (buildStockPool (wave_pool_input db t wh now (plan_skus lines)))"
  using assms by (auto simp: planSlices_def Let_def)

lemma wave_input_positive: "positive_input (wave_pool_input db t wh now skus)"
  by (auto simp: positive_input_def wave_pool_input_def stockByBinsInTx_def batchOnHandByBinsInTx_def split: if_splits)

lemma groups_slices:
  assumes "distinct live" and "sc_order ` set slices \<subseteq> set live"
  shows "sum_where P f (concat (map snd (map (\<lambda>(i, _, ss). (i, ss)) (wave_groups newId policy live slices)))) = sum_where P f slices"
    and "set (concat (map snd (map (\<lambda>(i, _, ss). (i, ss)) (wave_groups newId policy live slices)))) = set slices"
proof -
  have enum: "map ((\<lambda>(i, _, ss). ss) \<circ> (\<lambda>(i, ord). (newId (Suc i), Some ord, filter (\<lambda>s. sc_order s = ord) slices))) (enumerate n xs) =
      map (\<lambda>i. filter (\<lambda>s. sc_order s = i) slices) xs" for n xs
    by (induction xs arbitrary: n) auto
  have groups: "concat (map snd (map (\<lambda>(i, _, ss). (i, ss)) (wave_groups newId policy live slices))) =
      (if po_grouping policy = ''batch'' then slices else concat (map (\<lambda>i. filter (\<lambda>s. sc_order s = i) slices) live))"
    using enum [of 0 live] by (auto simp: wave_groups_def comp_def split_beta)
  show "sum_where P f (concat (map snd (map (\<lambda>(i, _, ss). (i, ss)) (wave_groups newId policy live slices)))) = sum_where P f slices"
    unfolding groups using sum_where_partition [OF assms] by simp
  show "set (concat (map snd (map (\<lambda>(i, _, ss). (i, ss)) (wave_groups newId policy live slices)))) = set slices"
    unfolding groups using assms(2) by auto
qed

lemma picklistLineValues_set:
  "p \<in> set (picklistLineValues ids t w groups) \<Longrightarrow>
    \<exists>s i j k. s \<in> set (concat (map snd groups)) \<and> p = planned_slice.extend s \<lparr>pl_tenant = t, pl_picklist = i, pl_wave = w, pl_walk = j, pl_id = k, pl_reason = None\<rparr>"
proof (induction ids t w groups rule: picklistLineValues.induct)
  case (2 ids t w picklist slices groups)
  let ?rows = "map (\<lambda>(i, s). planned_slice.extend s
      \<lparr>pl_tenant = t, pl_picklist = picklist, pl_wave = w, pl_walk = int i, pl_id = ids i, pl_reason = None\<rparr>) (enumerate 0 (sortWalk slices))"
  from "2.prems" consider "p \<in> set ?rows" | "p \<in> set (picklistLineValues (\<lambda>i. ids (length slices + i)) t w groups)"
    unfolding picklistLineValues.simps set_append Un_iff by blast
  then show ?case
  proof cases
    case 1
    then show ?thesis unfolding sortWalk_def set_map by (force simp: enumerate_eq_zip dest: set_zip_rightD)
  next
    case 2
    with "2.IH" show ?thesis by auto
  qed
qed simp

text \<open>A generation's new pick lines are the slices of one plan.\<close>

lemma plan_wave_planned:
  assumes "plan_wave newId now c db = Inr db'" and "outbound_ok db"
  obtains lines new slices where "ob_picks db' = ob_picks db @ new"
    and "slices = plan_lines (pi_intakes (wave_pool_input db (gw_tenant c) (gw_wh c) now (plan_skus lines))) now (wave_terms db (gw_tenant c) lines) lines
      (buildStockPool (wave_pool_input db (gw_tenant c) (gw_wh c) now (plan_skus lines)))"
    and "set lines \<subseteq> {l \<in> set (ob_lines db). ol_tenant l = gw_tenant c \<and> 0 < ol_reserved l}" and "distinct (map ol_id lines)"
    and "\<forall>l \<in> set lines. unclaimed db (gw_tenant c) (ol_order l) \<and> accepted_in db (gw_tenant c) (gw_wh c) (ol_order l) \<and>
      (\<exists>r \<in> set (iv_reservations (ob_iv db)). Some (rv_id r) = ol_reservation l \<and> rv_state r = Held)"
    and "\<forall>p \<in> set new. \<exists>s \<in> set slices. \<exists>i j k. p = planned_slice.extend s \<lparr>pl_tenant = gw_tenant c, pl_picklist = i, pl_wave = newId 0, pl_walk = j, pl_id = k, pl_reason = None\<rparr>"
    and "\<And>P P' f f'. (\<And>s x. P' (planned_slice.extend s x) = P s) \<Longrightarrow> (\<And>s x. f' (planned_slice.extend s x) = f s) \<Longrightarrow>
      sum_where P' f' new = sum_where P f slices"
    and "\<exists>policy sel. selectOrders db (gw_tenant c) (gw_wh c) policy now (map_option (\<lambda>ids. sort (remdups ids)) (gw_orders c)) = Inr sel \<and>
      lines = sort_key (\<lambda>l. position sel (ol_order l)) (held_lines db (gw_tenant c) sel)"
    and "planSlices db (gw_tenant c) (gw_wh c) now lines = Inr slices"
proof -
  let ?t = "gw_tenant c"
  obtain policy sel slices ids where sel: "selectOrders db ?t (gw_wh c) policy now (map_option (\<lambda>ids. sort (remdups ids)) (gw_orders c)) = Inr sel"
    and slices: "planSlices db ?t (gw_wh c) now (sort_key (\<lambda>l. position sel (ol_order l)) (held_lines db ?t sel)) = Inr slices"
    and picks: "ob_picks db' = ob_picks db @ picklistLineValues ids ?t (newId 0) (map (\<lambda>(i, _, ss). (i, ss))
      (wave_groups newId policy (filter (\<lambda>i. list_ex (\<lambda>l. ol_order l = i) (held_lines db ?t sel)) sel) slices))"
    by (rule plan_wave_result [OF assms(1)])
  let ?lines = "sort_key (\<lambda>l. position sel (ol_order l)) (held_lines db ?t sel)"
  let ?live = "filter (\<lambda>i. list_ex (\<lambda>l. ol_order l = i) (held_lines db ?t sel)) sel"
  let ?groups = "map (\<lambda>(i, _, ss). (i, ss)) (wave_groups newId policy ?live slices)"
  have ok: "distinct (map or_id (ob_orders db))" "distinct (map ol_id (ob_lines db))" using assms(2) by (simp_all add: outbound_ok_def)
  note orders = selectOrders_orders [OF sel ok(1)]
  have held: "set ?lines \<subseteq> {l \<in> set (ob_lines db). ol_tenant l = ?t \<and> 0 < ol_reserved l \<and> ol_order l \<in> set sel \<and>
      (\<exists>r \<in> set (iv_reservations (ob_iv db)). Some (rv_id r) = ol_reservation l \<and> rv_state r = Held)}"
    by (auto simp: held_lines_def list_ex_iff split: option.splits)
  have plan: "slices = plan_lines (pi_intakes (wave_pool_input db ?t (gw_wh c) now (plan_skus ?lines))) now (wave_terms db ?t ?lines) ?lines
      (buildStockPool (wave_pool_input db ?t (gw_wh c) now (plan_skus ?lines)))"
    by (rule planSlices_result [OF slices])
  have nonneg: "\<forall>l \<in> set ?lines. 0 \<le> ol_reserved l" using held by auto
  have live_orders: "sc_order ` set slices \<subseteq> set ?live"
  proof
    fix x
    assume "x \<in> sc_order ` set slices"
    then obtain l where l: "l \<in> set ?lines" "x = ol_order l" using plan_lines_owner [OF _ nonneg] plan by fastforce
    then have "l \<in> set (held_lines db ?t sel)" "ol_order l \<in> set sel" using held by auto
    then show "x \<in> set ?live" using l(2) by (auto simp: list_ex_iff)
  qed
  have live_dist: "distinct ?live" using orders by simp
  note groups = groups_slices [OF live_dist live_orders]
  show thesis
  proof (rule that [of "picklistLineValues ids ?t (newId 0) ?groups" slices ?lines])
    show "ob_picks db' = ob_picks db @ picklistLineValues ids ?t (newId 0) ?groups" by (rule picks)
    show "slices = plan_lines (pi_intakes (wave_pool_input db ?t (gw_wh c) now (plan_skus ?lines))) now (wave_terms db ?t ?lines) ?lines
      (buildStockPool (wave_pool_input db ?t (gw_wh c) now (plan_skus ?lines)))" by (rule plan)
    show "set ?lines \<subseteq> {l \<in> set (ob_lines db). ol_tenant l = ?t \<and> 0 < ol_reserved l}" using held by auto
    show "distinct (map ol_id ?lines)" unfolding held_lines_def by (intro distinct_map_filter_take ok(2))
    show "\<forall>l \<in> set ?lines. unclaimed db ?t (ol_order l) \<and> accepted_in db ?t (gw_wh c) (ol_order l) \<and>
        (\<exists>r \<in> set (iv_reservations (ob_iv db)). Some (rv_id r) = ol_reservation l \<and> rv_state r = Held)"
      using held orders by fastforce
    show "\<forall>p \<in> set (picklistLineValues ids ?t (newId 0) ?groups). \<exists>s \<in> set slices. \<exists>i j k.
        p = planned_slice.extend s \<lparr>pl_tenant = ?t, pl_picklist = i, pl_wave = newId 0, pl_walk = j, pl_id = k, pl_reason = None\<rparr>"
      using picklistLineValues_set groups(2) by blast
    show "sum_where P' f' (picklistLineValues ids ?t (newId 0) ?groups) = sum_where P f slices"
      if "\<And>s x. P' (planned_slice.extend s x) = P s" "\<And>s x. f' (planned_slice.extend s x) = f s" for P P' f f'
      using picklistLineValues_sum [where P' = P' and P = P and f' = f' and f = f] that groups(1) by simp
    show "\<exists>policy sel'. selectOrders db ?t (gw_wh c) policy now (map_option (\<lambda>ids. sort (remdups ids)) (gw_orders c)) = Inr sel' \<and>
      ?lines = sort_key (\<lambda>l. position sel' (ol_order l)) (held_lines db ?t sel')" using sel by blast
    show "planSlices db ?t (gw_wh c) now ?lines = Inr slices" by (rule slices)
  qed
qed

lemma plan_wave_lines:
  assumes "plan_wave newId now c db = Inr db'" and "outbound_ok db"
  obtains lines new slices where "ob_picks db' = ob_picks db @ new"
    and "slices = plan_lines (pi_intakes (wave_pool_input db (gw_tenant c) (gw_wh c) now (plan_skus lines))) now (wave_terms db (gw_tenant c) lines) lines
      (buildStockPool (wave_pool_input db (gw_tenant c) (gw_wh c) now (plan_skus lines)))"
    and "set lines \<subseteq> {l \<in> set (ob_lines db). ol_tenant l = gw_tenant c \<and> 0 < ol_reserved l}" and "distinct (map ol_id lines)"
    and "\<forall>l \<in> set lines. unclaimed db (gw_tenant c) (ol_order l) \<and> accepted_in db (gw_tenant c) (gw_wh c) (ol_order l) \<and>
      (\<exists>r \<in> set (iv_reservations (ob_iv db)). Some (rv_id r) = ol_reservation l \<and> rv_state r = Held)"
    and "\<forall>p \<in> set new. \<exists>s \<in> set slices. \<exists>i j k. p = planned_slice.extend s \<lparr>pl_tenant = gw_tenant c, pl_picklist = i, pl_wave = newId 0, pl_walk = j, pl_id = k, pl_reason = None\<rparr>"
    and "\<And>P P' f f'. (\<And>s x. P' (planned_slice.extend s x) = P s) \<Longrightarrow> (\<And>s x. f' (planned_slice.extend s x) = f s) \<Longrightarrow>
      sum_where P' f' new = sum_where P f slices"
  apply (rule plan_wave_planned [OF assms])
  subgoal premises prems by (rule that [OF prems(2-7)]) (rule prems(8))
  done

text \<open>A pick line that is a shortfall, or a draw that is allowed.\<close>

definition pick_legal :: "outbound_db \<Rightarrow> uuid \<Rightarrow> uuid \<Rightarrow> pool_input \<Rightarrow> pick_line \<Rightarrow> bool" where
  "pick_legal db t wh inp p =
     (case sc_bin p of None \<Rightarrow> sc_status p = ''unfulfillable'' \<and> sc_qty p = 0 \<and> 0 < sc_shortfall p
      | Some b \<Rightarrow> sc_status p = ''planned'' \<and> 0 < sc_qty p \<and> sc_shortfall p = 0 \<and>
          (\<exists>x \<in> set (ob_bins db). bn_id x = b \<and> bn_tenant x = t \<and> bn_wh x = wh \<and> \<not> bn_blocked x \<and> \<not> bn_system x \<and> pk_retired x = None) \<and>
          class_conforms inp (sc_sku p) b \<and>
          (case sc_batch p of None \<Rightarrow> True | Some i \<Rightarrow> drawable_batch inp (sc_sku p) i))"

lemma legal_slot_pick:
  assumes "slice_legal el (pool_slots (buildStockPool inp) (sc_sku s)) s" and "inp = wave_pool_input db t wh now skus"
    and "p = planned_slice.extend s x"
  shows "pick_legal db t wh inp p"
proof -
  have p: "sc_bin p = sc_bin s" "sc_status p = sc_status s" "sc_qty p = sc_qty s" "sc_shortfall p = sc_shortfall s" "sc_sku p = sc_sku s"
    "sc_batch p = sc_batch s" unfolding assms(3) by (simp_all add: planned_slice.defs)
  from assms(1) consider "sc_status s = ''unfulfillable''" "sc_bin s = None" "sc_qty s = 0" "0 < sc_shortfall s"
    | y where "y \<in> set (pool_slots (buildStockPool inp) (sc_sku s))" "sc_status s = ''planned''" "sc_shortfall s = 0"
      "sc_bin s = Some (ss_bin y)" "sc_batch s = sl_batch y" "0 < sc_qty s"
    unfolding slice_legal_def by (elim disjE conjE bexE) auto
  then show ?thesis
  proof cases
    case 1
    then show ?thesis unfolding pick_legal_def p by simp
  next
    case 2
    then have "y \<in> set (sku_slots inp (sc_sku s))" by (auto simp: pool_slots_def buildStockPool_def split: if_splits)
    with pool_slot_legal wave_input_positive have legal: "legal_slot inp (sc_sku s) y" unfolding assms(2) by blast
    then have "conforming_bin inp (sc_sku s) (ss_bin y)" by (simp add: legal_slot_def)
    moreover have "set (pi_bins inp) = {x \<in> set (ob_bins db). bn_tenant x = t \<and> bn_wh x = wh \<and> \<not> bn_blocked x \<and> \<not> bn_system x \<and> pk_retired x = None}"
      unfolding assms(2) by (auto simp: wave_pool_input_def pickableBinsInTx_def)
    ultimately show ?thesis
      using 2 legal unfolding pick_legal_def p by (auto simp: conforming_bin_def legal_slot_def split: option.splits)
  qed
qed

definition stocked_units :: "outbound_db \<Rightarrow> uuid \<Rightarrow> uuid \<Rightarrow> uuid \<Rightarrow> uuid \<Rightarrow> int" where
  "stocked_units db t wh sku bin =
     sum_where (\<lambda>r. so_tenant r = t \<and> so_wh r = wh \<and> so_sku r = sku \<and> so_bin r = bin \<and> 0 < so_qty r) so_qty (db_stock (iv_ledger (ob_iv db)))"

lemma stocked_units_pool:
  "sum_where (\<lambda>r. so_sku r = sku \<and> so_bin r = bin) so_qty (stockByBinsInTx (db_stock (iv_ledger (ob_iv db))) t wh skus) \<le> stocked_units db t wh sku bin"
proof -
  have "sum_where (\<lambda>r. so_sku r = sku \<and> so_bin r = bin) so_qty (stockByBinsInTx rows t wh skus) \<le>
      sum_where (\<lambda>r. so_tenant r = t \<and> so_wh r = wh \<and> so_sku r = sku \<and> so_bin r = bin \<and> 0 < so_qty r) so_qty rows" for rows
    by (induction rows) (auto simp: stockByBinsInTx_def intro!: sum_where_nonneg split: if_splits)
  then show ?thesis by (simp add: stocked_units_def)
qed

lemma pool_bin_units: "units_in (slot_at (\<lambda>b _. b = bin)) (pool_slots (buildStockPool inp) sku) \<le> units_in (\<lambda>s. ss_bin s = bin) (sku_slots inp sku)"
proof -
  have "slot_at (\<lambda>b _. b = bin) = (\<lambda>s. ss_bin s = bin)" by (simp add: slot_at_def fun_eq_iff)
  then show ?thesis by (simp add: pool_slots_def buildStockPool_def)
qed

text \<open>
  C5. What a generated wave plans is accounted for and legal. Its new pick lines all belong to lines of
  accepted orders that no open pick line claimed and whose hold is live; for every order line planned or
  cut, the planned units and the shortfall add up to the units it has reserved; from no bin are more units
  of a SKU drawn than its stock row holds; and each new line is a shortfall without a bin, or a draw
  from a pickable bin of the warehouse whose storage class satisfies the SKU's, holding that SKU's stock,
  in a batch that may be allocated now.
\<close>

theorem generated_wave_is_accounted:
  assumes "outbound_ok db" and "plan_wave newId now c db = Inr db'"
  shows "\<exists>lines new. ob_picks db' = ob_picks db @ new \<and>
    set lines \<subseteq> set (ob_lines db) \<and>
    list_all (\<lambda>l. ol_tenant l = gw_tenant c \<and> 0 < ol_reserved l \<and> unclaimed db (gw_tenant c) (ol_order l) \<and>
      accepted_in db (gw_tenant c) (gw_wh c) (ol_order l) \<and>
      (\<exists>r \<in> set (iv_reservations (ob_iv db)). Some (rv_id r) = ol_reservation l \<and> rv_state r = Held) \<and>
      sum_where (\<lambda>p. sc_line p = ol_id l) sc_qty new + sum_where (\<lambda>p. sc_line p = ol_id l) sc_shortfall new = ol_reserved l) lines \<and>
    list_all (\<lambda>p. pl_tenant p = gw_tenant c \<and> pl_wave p = newId 0 \<and>
      (\<exists>l \<in> set lines. sc_line p = ol_id l \<and> sc_order p = ol_order l \<and> sc_sku p = ol_sku l \<and> sc_reservation p = ol_reservation l) \<and>
      pick_legal db (gw_tenant c) (gw_wh c) (wave_pool_input db (gw_tenant c) (gw_wh c) now (plan_skus lines)) p) new \<and>
    (\<forall>sku bin. sum_where (\<lambda>p. sc_sku p = sku \<and> sc_bin p = Some bin) sc_qty new \<le> stocked_units db (gw_tenant c) (gw_wh c) sku bin)"
proof -
  let ?t = "gw_tenant c" and ?wh = "gw_wh c"
  obtain lines new slices where new: "ob_picks db' = ob_picks db @ new"
    and slices: "slices = plan_lines (pi_intakes (wave_pool_input db ?t ?wh now (plan_skus lines))) now (wave_terms db ?t lines) lines
      (buildStockPool (wave_pool_input db ?t ?wh now (plan_skus lines)))"
    and lines: "set lines \<subseteq> {l \<in> set (ob_lines db). ol_tenant l = ?t \<and> 0 < ol_reserved l}" and dist: "distinct (map ol_id lines)"
    and orders: "\<forall>l \<in> set lines. unclaimed db ?t (ol_order l) \<and> accepted_in db ?t ?wh (ol_order l) \<and>
      (\<exists>r \<in> set (iv_reservations (ob_iv db)). Some (rv_id r) = ol_reservation l \<and> rv_state r = Held)"
    and rows: "\<forall>p \<in> set new. \<exists>s \<in> set slices. \<exists>i j k. p = planned_slice.extend s \<lparr>pl_tenant = ?t, pl_picklist = i, pl_wave = newId 0, pl_walk = j, pl_id = k, pl_reason = None\<rparr>"
    and sums: "\<And>P P' f f'. (\<And>s x. P' (planned_slice.extend s x) = P s) \<Longrightarrow> (\<And>s x. f' (planned_slice.extend s x) = f s) \<Longrightarrow>
      sum_where P' f' new = sum_where P f slices"
    by (rule plan_wave_lines [OF assms(2,1)]) blast
  let ?inp = "wave_pool_input db ?t ?wh now (plan_skus lines)"
  have nonneg: "\<forall>l \<in> set lines. 0 \<le> ol_reserved l" using lines by auto
  have line_sums: "sum_where (\<lambda>p. sc_line p = ol_id l) sc_qty new + sum_where (\<lambda>p. sc_line p = ol_id l) sc_shortfall new = ol_reserved l"
    if "l \<in> set lines" for l
  proof -
    have "sum_where (\<lambda>p. sc_line p = ol_id l) sc_qty new = qty_of (\<lambda>s. sc_line s = ol_id l) slices"
      "sum_where (\<lambda>p. sc_line p = ol_id l) sc_shortfall new = short_of (\<lambda>s. sc_line s = ol_id l) slices"
      unfolding qty_of_def short_of_def by (rule sums; simp add: planned_slice.defs)+
    then show ?thesis using plan_lines_balance [OF dist nonneg that] slices by simp
  qed
  have bins: "sum_where (\<lambda>p. sc_sku p = sku \<and> sc_bin p = Some bin) sc_qty new \<le> stocked_units db ?t ?wh sku bin" for sku bin
  proof -
    have "sum_where (\<lambda>p. sc_sku p = sku \<and> sc_bin p = Some bin) sc_qty new = qty_of (\<lambda>s. sc_sku s = sku \<and> draws_at (\<lambda>b _. b = bin) s) slices"
      unfolding qty_of_def by (rule sums) (auto simp: planned_slice.defs draws_at_def split: option.split)
    also have "\<dots> \<le> units_in (slot_at (\<lambda>b _. b = bin)) (pool_slots (buildStockPool ?inp) sku)"
      unfolding slices by (rule plan_lines_capacity [OF nonneg])
    also have "\<dots> \<le> units_in (\<lambda>s. ss_bin s = bin) (sku_slots ?inp sku)" by (rule pool_bin_units)
    also have "\<dots> \<le> sum_where (\<lambda>r. so_sku r = sku \<and> so_bin r = bin) so_qty (pi_stock ?inp)" by (rule pool_units_le [OF wave_input_positive])
    also have "\<dots> \<le> stocked_units db ?t ?wh sku bin" unfolding wave_pool_input_def using stocked_units_pool by simp
    finally show ?thesis .
  qed
  have legal: "pl_tenant p = ?t \<and> pl_wave p = newId 0 \<and>
      (\<exists>l \<in> set lines. sc_line p = ol_id l \<and> sc_order p = ol_order l \<and> sc_sku p = ol_sku l \<and> sc_reservation p = ol_reservation l) \<and>
      pick_legal db ?t ?wh ?inp p" if p: "p \<in> set new" for p
  proof -
    obtain s i j k where s: "s \<in> set slices" "p = planned_slice.extend s \<lparr>pl_tenant = ?t, pl_picklist = i, pl_wave = newId 0, pl_walk = j, pl_id = k, pl_reason = None\<rparr>"
      using rows p by blast
    then obtain l where l: "l \<in> set lines" "sc_line s = ol_id l" "sc_order s = ol_order l" "sc_sku s = ol_sku l" "sc_reservation s = ol_reservation l"
      "slice_legal (line_eligible (pi_intakes ?inp) now (wave_terms db ?t lines l)) (pool_slots (buildStockPool ?inp) (ol_sku l)) s"
      using plan_lines_legal [OF nonneg] slices by metis
    then have "pick_legal db ?t ?wh ?inp p" using legal_slot_pick s(2) by metis
    with l s(2) show ?thesis by (auto simp: planned_slice.defs)
  qed
  show ?thesis
    by (rule exI [of _ lines], rule exI [of _ new]) (use new lines orders line_sums legal bins in \<open>auto simp: list_all_iff\<close>)
qed

theorem generated_wave_is_accounted_witness:
  "\<exists>lines new. ob_picks (projr demo_wave1) = new \<and> set lines \<subseteq> set (ob_lines demo_db) \<and> new \<noteq> [] \<and>
    list_all (\<lambda>l. sum_where (\<lambda>p. sc_line p = ol_id l) sc_qty new + sum_where (\<lambda>p. sc_line p = ol_id l) sc_shortfall new = ol_reserved l) lines \<and>
    sum_where (\<lambda>p. sc_sku p = ''s'' \<and> sc_bin p = Some ''A'') sc_qty new \<le> stocked_units demo_db ''t'' (demo_id CHR ''1'') ''s'' ''A''"
proof -
  have ok: "outbound_ok demo_db" by code_simp
  have run: "demo_wave1 = Inr (projr demo_wave1)" "ob_picks (projr demo_wave1) \<noteq> []"
    using map_sum_runs [OF demo_wave1_runs] by auto
  have plan: "plan_wave (demo_ids ''1'') 0 demo_generate demo_db = Inr (projr demo_wave1)" using run(1) by (simp add: demo_wave1_def)
  have demo: "gw_tenant demo_generate = ''t''" "gw_wh demo_generate = demo_id CHR ''1''" "ob_picks demo_db = []"
    by (simp_all add: demo_generate_def demo_db_def)
  from generated_wave_is_accounted [OF ok plan] obtain lines new where new: "ob_picks (projr demo_wave1) = ob_picks demo_db @ new"
    "set lines \<subseteq> set (ob_lines demo_db)"
    "list_all (\<lambda>l. sum_where (\<lambda>p. sc_line p = ol_id l) sc_qty new + sum_where (\<lambda>p. sc_line p = ol_id l) sc_shortfall new = ol_reserved l) lines"
    "sum_where (\<lambda>p. sc_sku p = ''s'' \<and> sc_bin p = Some ''A'') sc_qty new \<le> stocked_units demo_db ''t'' (demo_id CHR ''1'') ''s'' ''A''"
    unfolding demo(1,2) list_all_iff by blast
  then show ?thesis using run demo(3) by (intro exI [of _ lines] exI [of _ new]) simp
qed

end
