(* ===== verification/WaveReplan.thy ===== *)
theory WaveReplan
  imports WaveProperties
begin

text \<open>
  The re-plan of a short pick against the open claims of every wave: it never proposes claimed units. The
  wave planner itself does not look at the claims of other waves: a second wave gets the slices it would get
  over the tables before the first.
\<close>

section \<open>Spending the claims\<close>

abbreviation shrunk :: "stock_slot list \<Rightarrow> stock_slot list \<Rightarrow> bool" where
  "shrunk \<equiv> list_all2 (\<lambda>s s'. \<exists>n. s' = s\<lparr>ss_remaining := n\<rparr> \<and> 0 \<le> n \<and> n \<le> ss_remaining s)"

lemma shrunk_refl: "\<forall>s \<in> set ss. 0 \<le> ss_remaining s \<Longrightarrow> shrunk ss ss"
proof (induction ss)
  case (Cons s ss)
  then have "shrunk ss ss" "0 \<le> ss_remaining s" by auto
  then show ?case by (auto intro!: exI [of _ "ss_remaining s"])
qed simp

lemma shrunk_trans: "shrunk xs ys \<Longrightarrow> shrunk ys zs \<Longrightarrow> shrunk xs zs"
proof (erule (1) list_all2_trans [rotated])
  fix x y z :: stock_slot
  assume "\<exists>n. y = x\<lparr>ss_remaining := n\<rparr> \<and> 0 \<le> n \<and> n \<le> ss_remaining x" and "\<exists>n. z = y\<lparr>ss_remaining := n\<rparr> \<and> 0 \<le> n \<and> n \<le> ss_remaining y"
  then obtain n m where "y = x\<lparr>ss_remaining := n\<rparr>" "n \<le> ss_remaining x" "z = y\<lparr>ss_remaining := m\<rparr>" "0 \<le> m" "m \<le> ss_remaining y" by blast
  then have "z = x\<lparr>ss_remaining := m\<rparr> \<and> 0 \<le> m \<and> m \<le> ss_remaining x" by simp
  then show "\<exists>n. z = x\<lparr>ss_remaining := n\<rparr> \<and> 0 \<le> n \<and> n \<le> ss_remaining x" by blast
qed

lemma shrunk_nonneg: "shrunk xs ys \<Longrightarrow> \<forall>s \<in> set ys. 0 \<le> ss_remaining s"
  by (induction rule: list_all2_induct) auto

lemma shrunk_from: "shrunk xs ys \<Longrightarrow> y \<in> set ys \<Longrightarrow> \<exists>x \<in> set xs. \<exists>n. y = x\<lparr>ss_remaining := n\<rparr> \<and> n \<le> ss_remaining x"
  by (induction rule: list_all2_induct) auto

lemma spend_claim_units:
  assumes "0 \<le> n" and "\<forall>s \<in> set ss. 0 \<le> ss_remaining s"
  shows "units_in (\<lambda>s. ss_bin s = b) (spend_claim bin n ss) =
      (if b = bin then max 0 (units_in (\<lambda>s. ss_bin s = b) ss - n) else units_in (\<lambda>s. ss_bin s = b) ss) \<and>
    shrunk ss (spend_claim bin n ss)"
  using assms
proof (induction bin n ss rule: spend_claim.induct)
  case (2 bin n s ss)
  have pos: "0 \<le> ss_remaining s" "\<forall>s \<in> set ss. 0 \<le> ss_remaining s" using "2.prems" by auto
  have same: "\<exists>m. s = s\<lparr>ss_remaining := m\<rparr> \<and> 0 \<le> m \<and> m \<le> ss_remaining s" using pos(1) by (intro exI [of _ "ss_remaining s"]) simp
  consider "n = 0" | "n \<noteq> 0" "ss_bin s \<noteq> bin" | "n \<noteq> 0" "ss_bin s = bin" by blast
  then show ?case
  proof cases
    case 1
    then show ?thesis using shrunk_refl [of "s # ss"] "2.prems"(2) by simp
  next
    case 2
    then show ?thesis using "2.IH"(1) [OF 2 "2.prems"(1) pos(2)] same by (auto simp: max_def)
  next
    case 3
    have left_over: "0 \<le> n - min n (ss_remaining s)" by simp
    have "\<exists>m. s\<lparr>ss_remaining := ss_remaining s - min n (ss_remaining s)\<rparr> = s\<lparr>ss_remaining := m\<rparr> \<and> 0 \<le> m \<and> m \<le> ss_remaining s"
      using pos(1) "2.prems"(1) by (intro exI [of _ "ss_remaining s - min n (ss_remaining s)"]) simp
    then show ?thesis using "2.IH"(2) [OF 3(1) _ refl left_over pos(2)] 3 pos(1) "2.prems"(1)
      by (auto simp: Let_def min_def max_def intro: add_increasing2 split: if_splits)
  qed
qed simp

lemma spend_claims_units:
  assumes "distinct (map fst claims)" and "\<forall>(b, n) \<in> set claims. 0 \<le> n" and "\<forall>s \<in> set ss. 0 \<le> ss_remaining s"
  shows "units_in (\<lambda>s. ss_bin s = b) (foldl (\<lambda>slots (bin, n). spend_claim bin n slots) ss claims) =
      max 0 (units_in (\<lambda>s. ss_bin s = b) ss - (case map_of claims b of None \<Rightarrow> 0 | Some n \<Rightarrow> n)) \<and>
    shrunk ss (foldl (\<lambda>slots (bin, n). spend_claim bin n slots) ss claims)"
  using assms
proof (induction claims arbitrary: ss)
  case Nil
  then show ?case using shrunk_refl by simp
next
  case (Cons c claims)
  obtain bin n where c: "c = (bin, n)" by (cases c)
  have n: "0 \<le> n" using Cons.prems(2) c by auto
  note first = spend_claim_units [OF n Cons.prems(3), of _ bin]
  then have "\<forall>s \<in> set (spend_claim bin n ss). 0 \<le> ss_remaining s" using shrunk_nonneg by blast
  moreover have "distinct (map fst claims)" "\<forall>(b, n) \<in> set claims. 0 \<le> n" using Cons.prems(1,2) by auto
  ultimately have IH: "units_in (\<lambda>s. ss_bin s = b) (foldl (\<lambda>slots (bin, n). spend_claim bin n slots) (spend_claim bin n ss) claims) =
      max 0 (units_in (\<lambda>s. ss_bin s = b) (spend_claim bin n ss) - (case map_of claims b of None \<Rightarrow> 0 | Some n \<Rightarrow> n))"
    "shrunk (spend_claim bin n ss) (foldl (\<lambda>slots (bin, n). spend_claim bin n slots) (spend_claim bin n ss) claims)"
    using Cons.IH by blast+
  have "map_of claims bin = None" using Cons.prems(1) c by (auto simp: map_of_eq_None_iff)
  then have "units_in (\<lambda>s. ss_bin s = b) (foldl (\<lambda>slots (bin, n). spend_claim bin n slots) ss (c # claims)) =
      max 0 (units_in (\<lambda>s. ss_bin s = b) ss - (case map_of (c # claims) b of None \<Rightarrow> 0 | Some n \<Rightarrow> n))"
    using IH(1) first c by (auto simp: max_def)
  moreover have "shrunk ss (foldl (\<lambda>slots (bin, n). spend_claim bin n slots) ss (c # claims))"
    using shrunk_trans [OF _ IH(2)] first c by simp
  ultimately show ?case by blast
qed

section \<open>The re-plan\<close>

definition claimed_units :: "outbound_db \<Rightarrow> uuid \<Rightarrow> uuid \<Rightarrow> uuid \<Rightarrow> int" where
  "claimed_units db t sku bin =
     sum_where (\<lambda>p. pl_tenant p = t \<and> sc_sku p = sku \<and> sc_status p = ''planned'' \<and> sc_bin p = Some bin) sc_qty (ob_picks db)"


lemma openClaims_bins:
  assumes "b \<in> set bins"
  shows "distinct (map fst (openClaimsInTx db t sku bins)) \<and>
    (case map_of (openClaimsInTx db t sku bins) b of None \<Rightarrow> 0 | Some n \<Rightarrow> n) = claimed_units db t sku b"
proof -
  let ?open = "\<lambda>p. pl_tenant p = t \<and> sc_sku p = sku \<and> sc_status p = ''planned'' \<and> (case sc_bin p of None \<Rightarrow> False | Some x \<Rightarrow> x \<in> set bins)"
  let ?bins = "remdups (map (the \<circ> sc_bin) (filter ?open (ob_picks db)))"
  let ?sum = "\<lambda>x. sum_where (\<lambda>p. ?open p \<and> sc_bin p = Some x) sc_qty (ob_picks db)"
  have claims: "openClaimsInTx db t sku bins = map (\<lambda>x. (x, ?sum x)) ?bins"
    using assms by (auto simp: openClaimsInTx_def Let_def)
  have "map fst (map (\<lambda>x. (x, ?sum x)) ?bins) = ?bins" by (simp add: comp_def)
  then have dist: "distinct (map fst (openClaimsInTx db t sku bins))" unfolding claims by simp
  have sum: "?sum b = claimed_units db t sku b"
    unfolding claimed_units_def by (rule sum_where_cong) (use assms in auto)
  show ?thesis
  proof (cases "b \<in> set ?bins")
    case True
    then have "map_of (map (\<lambda>x. (x, ?sum x)) ?bins) b = Some (?sum b)" by (simp add: map_of_map_keys map_of_map_restrict)
    with dist sum show ?thesis unfolding claims by simp
  next
    case False
    then have "map_of (map (\<lambda>x. (x, ?sum x)) ?bins) b = None" by (auto simp: map_of_eq_None_iff)
    moreover have "?sum b = 0" by (rule sum_where_none) (use False in force)
    ultimately show ?thesis using dist sum unfolding claims by simp
  qed
qed

lemma legal_slot_less: "legal_slot inp sku x \<Longrightarrow> 0 < n \<Longrightarrow> n \<le> ss_remaining x \<Longrightarrow> legal_slot inp sku (x\<lparr>ss_remaining := n\<rparr>)"
  by (fastforce simp: legal_slot_def split: option.splits)

lemma replan_positive: "positive_input (replan_input db sc)"
  by (auto simp: positive_input_def replan_input_def stockByBinsInTx_def batchOnHandByBinsInTx_def split: if_splits)

lemma replan_pool_le: "units_in (\<lambda>s. ss_bin s = b) (sku_slots (replan_input db sc) (rs_sku sc)) \<le> stocked_units db (rs_tenant sc) (rs_wh sc) (rs_sku sc) b"
proof -
  have "sum_where (\<lambda>r. so_sku r = rs_sku sc \<and> so_bin r = b) so_qty (pi_stock (replan_input db sc)) \<le>
      stocked_units db (rs_tenant sc) (rs_wh sc) (rs_sku sc) b"
    unfolding replan_input_def using stocked_units_pool [of "rs_sku sc" b db "rs_tenant sc" "rs_wh sc" "[rs_sku sc]"] by simp
  then show ?thesis using pool_units_le [OF replan_positive, of b db sc "rs_sku sc"] by linarith
qed

lemma unclaimed_slots_units:
  assumes "list_all (\<lambda>p. 0 \<le> sc_qty p) (ob_picks db)" and "b \<in> set (map bn_id (replan_bins db sc))"
  shows "units_in (\<lambda>s. ss_bin s = b) (unclaimed_slots db sc) =
      max 0 (units_in (\<lambda>s. ss_bin s = b) (sku_slots (replan_input db sc) (rs_sku sc)) - claimed_units db (rs_tenant sc) (rs_sku sc) b)"
    and "shrunk (sku_slots (replan_input db sc) (rs_sku sc)) (unclaimed_slots db sc)"
proof -
  let ?slots = "sku_slots (replan_input db sc) (rs_sku sc)"
  let ?claims = "openClaimsInTx db (rs_tenant sc) (rs_sku sc) (map bn_id (replan_bins db sc))"
  have "\<forall>s \<in> set ?slots. 0 \<le> ss_remaining s" using pool_slot_legal [OF replan_positive] by (fastforce simp: legal_slot_def)
  moreover have "\<forall>(x, n) \<in> set ?claims. 0 \<le> n"
    using assms(1) by (auto simp: openClaimsInTx_def Let_def list_all_iff intro!: sum_where_nonneg)
  moreover note openClaims_bins [OF assms(2), of db "rs_tenant sc" "rs_sku sc"]
  ultimately show "units_in (\<lambda>s. ss_bin s = b) (unclaimed_slots db sc) =
      max 0 (units_in (\<lambda>s. ss_bin s = b) ?slots - claimed_units db (rs_tenant sc) (rs_sku sc) b)" "shrunk ?slots (unclaimed_slots db sc)"
    using spend_claims_units [of ?claims ?slots b] unfolding unclaimed_slots_def by auto
qed

definition replanned :: "uuid \<Rightarrow> replan_slice list \<Rightarrow> int" where
  "replanned bin slices = sum_where (\<lambda>x. rp_bin x = bin) rp_qty slices"

lemma replan_slices:
  assumes "0 < rs_need sc" and "replan_bins db sc \<noteq> []"
  shows "replanned b (findReplanSlices db sc) = taken_in (\<lambda>s. ss_bin s = b) (draw_taken (replan_eligible db sc) (rs_need sc) (unclaimed_slots db sc))"
    and "sum_list (map rp_qty (findReplanSlices db sc)) = taken_in (\<lambda>_. True) (draw_taken (replan_eligible db sc) (rs_need sc) (unclaimed_slots db sc))"
    and "x \<in> set (findReplanSlices db sc) \<Longrightarrow>
      \<exists>s n. (s, n) \<in> set (draw_taken (replan_eligible db sc) (rs_need sc) (unclaimed_slots db sc)) \<and>
        rp_bin x = ss_bin s \<and> rp_batch x = sl_batch s \<and> rp_qty x = n"
proof -
  let ?slice = "\<lambda>(i, s, n). \<lparr>rp_bin = ss_bin s, rp_code = ss_code s, rp_batch = sl_batch s, rp_qty = n, rp_rank = int i\<rparr>"
  have slices: "findReplanSlices db sc = map ?slice (enumerate 0 (draw_taken (replan_eligible db sc) (rs_need sc) (unclaimed_slots db sc)))"
    using assms by (simp add: findReplanSlices_def split_beta)
  have "sum_where (\<lambda>x. rp_bin x = b) rp_qty (map ?slice (enumerate n ts)) = taken_in (\<lambda>s. ss_bin s = b) ts" for n ts
    by (induction ts arbitrary: n) auto
  then show "replanned b (findReplanSlices db sc) = taken_in (\<lambda>s. ss_bin s = b) (draw_taken (replan_eligible db sc) (rs_need sc) (unclaimed_slots db sc))"
    unfolding slices replanned_def by blast
  have "sum_list (map rp_qty (map ?slice (enumerate n ts))) = taken_in (\<lambda>_. True) ts" for n ts
    by (induction ts arbitrary: n) auto
  then show "sum_list (map rp_qty (findReplanSlices db sc)) = taken_in (\<lambda>_. True) (draw_taken (replan_eligible db sc) (rs_need sc) (unclaimed_slots db sc))"
    unfolding slices by blast
  show "\<exists>s n. (s, n) \<in> set (draw_taken (replan_eligible db sc) (rs_need sc) (unclaimed_slots db sc)) \<and>
        rp_bin x = ss_bin s \<and> rp_batch x = sl_batch s \<and> rp_qty x = n" if "x \<in> set (findReplanSlices db sc)"
    using that unfolding slices by (force simp: enumerate_eq_zip dest: set_zip_rightD)
qed

definition replan_legal :: "outbound_db \<Rightarrow> replan_scope \<Rightarrow> replan_slice \<Rightarrow> bool" where
  "replan_legal db sc x = (0 < rp_qty x \<and> rp_bin x \<noteq> rs_exclude sc \<and>
     (\<exists>y \<in> set (ob_bins db). bn_id y = rp_bin x \<and> bn_tenant y = rs_tenant sc \<and> bn_wh y = rs_wh sc \<and> \<not> bn_blocked y \<and> \<not> bn_system y \<and>
       pk_retired y = None) \<and>
     class_conforms (replan_input db sc) (rs_sku sc) (rp_bin x) \<and>
     (case rp_batch x of None \<Rightarrow> True | Some i \<Rightarrow> drawable_batch (replan_input db sc) (rs_sku sc) i))"

lemma replan_slice_legal:
  assumes "list_all (\<lambda>p. 0 \<le> sc_qty p) (ob_picks db)" and "x \<in> set (findReplanSlices db sc)"
  shows "replan_legal db sc x"
proof -
  let ?inp = "replan_input db sc" and ?el = "replan_eligible db sc" and ?free = "unclaimed_slots db sc"
  let ?taken = "draw_taken ?el (rs_need sc) ?free"
  have bins: "0 < rs_need sc" "replan_bins db sc \<noteq> []" using assms(2) by (auto simp: findReplanSlices_def split: if_splits)
  obtain x0 where "x0 \<in> set (map bn_id (replan_bins db sc))" using bins(2) by (cases "replan_bins db sc") auto
  note less = unclaimed_slots_units(2) [OF assms(1) this]
  obtain s n where s: "(s, n) \<in> set ?taken" "rp_bin x = ss_bin s" "rp_batch x = sl_batch s" "rp_qty x = n"
    using replan_slices(3) [OF bins assms(2)] by blast
  have "0 \<le> rs_need sc" using bins by simp
  note t = draw_taken_slot [OF this s(1)]
  then obtain y m where "y \<in> set (sku_slots ?inp (rs_sku sc))" "s = y\<lparr>ss_remaining := m\<rparr>" "m \<le> ss_remaining y" using shrunk_from [OF less] by blast
  with t legal_slot_less [OF pool_slot_legal [OF replan_positive], of y db sc "rs_sku sc" n]
  have "legal_slot ?inp (rs_sku sc) (s\<lparr>ss_remaining := n\<rparr>)" by simp
  then have "conforming_bin ?inp (rs_sku sc) (ss_bin s)"
    "case sl_batch s of None \<Rightarrow> True | Some i \<Rightarrow> drawable_batch ?inp (rs_sku sc) i" by (auto simp: legal_slot_def split: option.splits)
  moreover have "set (pi_bins ?inp) = {y \<in> set (ob_bins db). bn_tenant y = rs_tenant sc \<and> bn_wh y = rs_wh sc \<and> \<not> bn_blocked y \<and> \<not> bn_system y \<and>
      pk_retired y = None \<and> bn_id y \<noteq> rs_exclude sc}"
    by (auto simp: replan_input_def replan_bins_def pickableBinsInTx_def)
  ultimately show ?thesis using s(2-4) t by (auto simp: replan_legal_def conforming_bin_def)
qed

lemma replan_legal_bin:
  assumes legal: "replan_legal db sc x"
  shows "rp_bin x \<in> set (map bn_id (replan_bins db sc))"
proof -
  from legal obtain y where "y \<in> set (ob_bins db)" "bn_id y = rp_bin x" "bn_tenant y = rs_tenant sc" "bn_wh y = rs_wh sc" "\<not> bn_blocked y"
    "\<not> bn_system y" "pk_retired y = None" unfolding replan_legal_def by blast
  then have "y \<in> set (replan_bins db sc)" using legal by (auto simp: replan_bins_def pickableBinsInTx_def replan_legal_def)
  with \<open>bn_id y = rp_bin x\<close> show ?thesis by force
qed

lemma replan_sum:
  "sum_list (map rp_qty (findReplanSlices db sc)) =
     (if rs_need sc \<le> 0 \<or> replan_bins db sc = [] then 0 else min (rs_need sc) (units_in (replan_eligible db sc) (unclaimed_slots db sc)))"
proof (cases "rs_need sc \<le> 0 \<or> replan_bins db sc = []")
  case True
  then show ?thesis by (auto simp: findReplanSlices_def)
next
  case False
  then have need: "0 \<le> rs_need sc" and bins: "0 < rs_need sc" "replan_bins db sc \<noteq> []" by auto
  show ?thesis using replan_slices(2) [OF bins] draw_taken_sum [OF need] draw_need_eq [OF need] False by simp
qed

text \<open>
  C12. A re-plan takes only stock nobody has claimed: per bin, the units it proposes and the open claims of
  every wave together fit in what the stock row holds (whenever the claims alone do); it proposes no
  slice in the excluded bin or in a bin or batch that may not be drawn from; and it proposes as much of the need as the eligible
  unclaimed units allow.
\<close>

theorem replan_takes_only_unclaimed_stock:
  assumes "list_all (\<lambda>p. 0 \<le> sc_qty p) (ob_picks db)"
  shows "replanned b (findReplanSlices db sc) \<le>
      max 0 (stocked_units db (rs_tenant sc) (rs_wh sc) (rs_sku sc) b - claimed_units db (rs_tenant sc) (rs_sku sc) b) \<and>
    list_all (replan_legal db sc) (findReplanSlices db sc) \<and>
    sum_list (map rp_qty (findReplanSlices db sc)) =
      (if rs_need sc \<le> 0 \<or> replan_bins db sc = [] then 0 else min (rs_need sc) (units_in (replan_eligible db sc) (unclaimed_slots db sc)))"
proof (cases "rs_need sc \<le> 0 \<or> replan_bins db sc = []")
  case True
  then have "findReplanSlices db sc = []" by (auto simp: findReplanSlices_def)
  with True show ?thesis by (simp add: replanned_def)
next
  case False
  let ?el = "replan_eligible db sc" and ?free = "unclaimed_slots db sc"
  have need: "0 \<le> rs_need sc" and bins: "0 < rs_need sc" "replan_bins db sc \<noteq> []" using False by auto
  note each = replan_slice_legal [OF assms]
  have bound: "replanned b (findReplanSlices db sc) \<le>
      max 0 (stocked_units db (rs_tenant sc) (rs_wh sc) (rs_sku sc) b - claimed_units db (rs_tenant sc) (rs_sku sc) b)"
  proof (cases "b \<in> set (map bn_id (replan_bins db sc))")
    case True
    have "replanned b (findReplanSlices db sc) \<le> units_in (\<lambda>s. ss_bin s = b) ?free"
      using draw_conserves [OF _ need, of "\<lambda>s. ss_bin s = b" ?el ?free] replan_slices(1) [OF bins] units_nonneg by (simp add: by_place_def) (metis add.commute le_add_same_cancel1 units_nonneg)
    with unclaimed_slots_units(1) [OF assms True] replan_pool_le [of b db sc] show ?thesis by linarith
  next
    case False
    have "replanned b (findReplanSlices db sc) = 0"
      unfolding replanned_def by (rule sum_where_none) (use each replan_legal_bin False in blast)
    then show ?thesis by simp
  qed
  with each show ?thesis unfolding replan_sum by (simp add: list_all_iff)
qed

section \<open>Two waves\<close>

text \<open>The second order's wave, planned while the first is open, and a re-plan of 5 units after both.\<close>

definition demo_wave2 :: "outbound_db result" where "demo_wave2 = plan_wave (demo_ids ''2'') 0 demo_generate (projr demo_wave1)"

lemma demo_wave2_runs: "map_sum id (\<lambda>db. map (\<lambda>p. (pl_wave p, sc_bin p, sc_qty p)) (ob_picks db)) demo_wave2 =
    Inr [(''x1'', Some ''A'', 5), (''x2'', Some ''A'', 5)]"
  by code_simp

definition demo_replan :: replan_scope where
  "demo_replan = \<lparr>rs_tenant = ''t'', rs_wh = demo_id CHR ''1'', rs_sku = ''s'', rs_exclude = ''C'', rs_need = 7, rs_at = 0, rs_rule = Fefo,
     rs_min = None, rs_judged = ist_date 0, rs_consignee = None, rs_tracked = False\<rparr>"

theorem replan_takes_only_unclaimed_stock_witness:
  "replanned ''A'' (findReplanSlices (projr demo_wave2) demo_replan) \<le> max 0 (5 - 10) \<and>
   map (\<lambda>x. (rp_bin x, rp_qty x)) (findReplanSlices (projr demo_wave2) demo_replan) = [(''B'', 5)]"
proof -
  have nonneg: "list_all (\<lambda>p. 0 \<le> sc_qty p) (ob_picks (projr demo_wave2))" by code_simp
  have "stocked_units (projr demo_wave2) (rs_tenant demo_replan) (rs_wh demo_replan) (rs_sku demo_replan) ''A'' = 5"
    "claimed_units (projr demo_wave2) (rs_tenant demo_replan) (rs_sku demo_replan) ''A'' = 10" by code_simp+
  moreover have "map (\<lambda>x. (rp_bin x, rp_qty x)) (findReplanSlices (projr demo_wave2) demo_replan) = [(''B'', 5)]" by code_simp
  ultimately show ?thesis using replan_takes_only_unclaimed_stock [OF nonneg, of "''A''" demo_replan] by simp
qed

text \<open>A generation changes the waves, the picklists and their lines, and the plan looks at none of them.\<close>

lemma plan_wave_frame:
  assumes "plan_wave newId now c db = Inr db'"
  shows "\<exists>ws ls ps. db' = db\<lparr>ob_waves := ws, ob_lists := ls, ob_picks := ps\<rparr>"
proof -
  have "\<exists>ws ls ps. db' = db\<lparr>ob_waves := ws, ob_lists := ls, ob_picks := ps\<rparr>"
    if "insert_picks rows (db\<lparr>ob_waves := ws, ob_lists := ls\<rparr>) = Inr db'" for rows ws ls
    using that by (auto simp: insert_picks_def Let_def split: if_splits)
  then show ?thesis using assms by (auto simp: plan_wave_def Let_def split: if_splits)
qed

lemma plan_ignores_waves:
  "planSlices (db\<lparr>ob_waves := ws, ob_lists := ls, ob_picks := ps\<rparr>) t wh now lines = planSlices db t wh now lines"
proof -
  let ?db = "db\<lparr>ob_waves := ws, ob_lists := ls, ob_picks := ps\<rparr>"
  have orders: "order_of ?db = order_of db" by (intro ext) (simp add: order_of_def)
  have policy: "policy_of_sku ?db = policy_of_sku db" by (intro ext) (simp add: policy_of_sku_def Let_def cong: option.case_cong)
  have terms: "wave_terms ?db = wave_terms db"
    by (intro ext) (simp add: wave_terms_def orders policy consigneeShelfLifeRulesInTx_def cong: option.case_cong)
  have attributed: "line_attributed ?db = line_attributed db" by (intro ext) (simp add: line_attributed_def orders)
  show ?thesis by (simp add: planSlices_def terms attributed wave_pool_input_def policy)
qed

text \<open>
  C31. Two waves can plan the same units: a wave planned after another one takes its orders in view of the
  first (no order is claimed twice), but gives them stock as if the first did not exist: its slices are those
  planned over the tables before the first wave, and what they draw from a bin is claimed on top of what the
  first wave claims there. The wave planner does not subtract the open claims of other waves, which the
  re-plan does (C12).
\<close>

theorem second_wave_ignores_the_first:
  assumes "outbound_ok db" and "plan_wave newId now c db = Inr db1" and "plan_wave newId' now' c' db1 = Inr db2"
  shows "\<exists>policy sel slices.
    selectOrders db1 (gw_tenant c') (gw_wh c') policy now' (map_option (\<lambda>ids. sort (remdups ids)) (gw_orders c')) = Inr sel \<and>
    planSlices db (gw_tenant c') (gw_wh c') now' (sort_key (\<lambda>l. position sel (ol_order l)) (held_lines db (gw_tenant c') sel)) = Inr slices \<and>
    (\<forall>sku b. claimed_units db2 (gw_tenant c') sku b = claimed_units db1 (gw_tenant c') sku b +
       sum_where (\<lambda>s. sc_sku s = sku \<and> sc_status s = ''planned'' \<and> sc_bin s = Some b) sc_qty slices)"
proof -
  obtain ws ls ps where db1: "db1 = db\<lparr>ob_waves := ws, ob_lists := ls, ob_picks := ps\<rparr>" using plan_wave_frame [OF assms(2)] by blast
  have ok: "outbound_ok db1" using assms(1) by (simp add: db1 outbound_ok_def)
  let ?t = "gw_tenant c'"
  obtain lines new slices where picks: "ob_picks db2 = ob_picks db1 @ new"
    and each: "\<forall>p \<in> set new. \<exists>s \<in> set slices. \<exists>i j k. p = planned_slice.extend s \<lparr>pl_tenant = ?t, pl_picklist = i, pl_wave = newId' 0, pl_walk = j, pl_id = k, pl_reason = None\<rparr>"
    and sums: "\<And>P P' f f'. (\<And>s x. P' (planned_slice.extend s x) = P s) \<Longrightarrow> (\<And>s x. f' (planned_slice.extend s x) = f s) \<Longrightarrow>
      sum_where P' f' new = sum_where P f slices"
    and sel: "\<exists>policy sel. selectOrders db1 ?t (gw_wh c') policy now' (map_option (\<lambda>ids. sort (remdups ids)) (gw_orders c')) = Inr sel \<and>
      lines = sort_key (\<lambda>l. position sel (ol_order l)) (held_lines db1 ?t sel)"
    and plan: "planSlices db1 ?t (gw_wh c') now' lines = Inr slices"
    by (rule plan_wave_planned [OF assms(3) ok]) (rule that; (assumption | blast))
  have held: "held_lines db1 = held_lines db" by (intro ext) (simp add: held_lines_def db1 cong: option.case_cong)
  have plan': "planSlices db ?t (gw_wh c') now' lines = Inr slices" using plan by (simp add: db1 plan_ignores_waves)
  have "claimed_units db2 ?t sku b = claimed_units db1 ?t sku b +
       sum_where (\<lambda>s. sc_sku s = sku \<and> sc_status s = ''planned'' \<and> sc_bin s = Some b) sc_qty slices" for sku b
  proof -
    have "sum_where (\<lambda>p. pl_tenant p = ?t \<and> sc_sku p = sku \<and> sc_status p = ''planned'' \<and> sc_bin p = Some b) sc_qty new =
        sum_where (\<lambda>p. sc_sku p = sku \<and> sc_status p = ''planned'' \<and> sc_bin p = Some b) sc_qty new"
      by (rule sum_where_cong) (use each in \<open>auto simp: planned_slice.defs\<close>)
    also have "\<dots> = sum_where (\<lambda>s. sc_sku s = sku \<and> sc_status s = ''planned'' \<and> sc_bin s = Some b) sc_qty slices"
      by (rule sums) (simp_all add: planned_slice.defs)
    finally show ?thesis by (simp add: claimed_units_def picks)
  qed
  with sel plan' show ?thesis unfolding held by blast
qed

theorem second_wave_ignores_the_first_witness:
  "(\<exists>sel slices. planSlices demo_db ''t'' (demo_id CHR ''1'') 0 (sort_key (\<lambda>l. position sel (ol_order l)) (held_lines demo_db ''t'' sel)) = Inr slices \<and>
     sum_where (\<lambda>s. sc_sku s = ''s'' \<and> sc_status s = ''planned'' \<and> sc_bin s = Some ''A'') sc_qty slices = 5) \<and>
   stocked_units demo_db ''t'' (demo_id CHR ''1'') ''s'' ''A'' = 5 \<and> stocked_units demo_db ''t'' (demo_id CHR ''1'') ''s'' ''B'' = 5 \<and>
   claimed_units (projr demo_wave2) ''t'' ''s'' ''A'' = 10 \<and> claimed_units (projr demo_wave2) ''t'' ''s'' ''B'' = 0"
proof -
  have units: "stocked_units demo_db ''t'' (demo_id CHR ''1'') ''s'' ''A'' = 5" "stocked_units demo_db ''t'' (demo_id CHR ''1'') ''s'' ''B'' = 5"
    "claimed_units (projr demo_wave1) ''t'' ''s'' ''A'' = 5"
    "claimed_units (projr demo_wave2) ''t'' ''s'' ''A'' = 10" "claimed_units (projr demo_wave2) ''t'' ''s'' ''B'' = 0" by code_simp+
  have ok: "outbound_ok demo_db" by code_simp
  have one: "plan_wave (demo_ids ''1'') 0 demo_generate demo_db = Inr (projr demo_wave1)"
    using map_sum_runs(1) [OF demo_wave1_runs] by (simp add: demo_wave1_def)
  have two: "plan_wave (demo_ids ''2'') 0 demo_generate (projr demo_wave1) = Inr (projr demo_wave2)"
    using map_sum_runs(1) [OF demo_wave2_runs] by (simp add: demo_wave2_def)
  have gen: "gw_tenant demo_generate = ''t''" "gw_wh demo_generate = demo_id CHR ''1''" by (simp_all add: demo_generate_def)
  obtain sel slices where "planSlices demo_db ''t'' (demo_id CHR ''1'') 0 (sort_key (\<lambda>l. position sel (ol_order l)) (held_lines demo_db ''t'' sel)) = Inr slices"
    "claimed_units (projr demo_wave2) ''t'' ''s'' ''A'' = claimed_units (projr demo_wave1) ''t'' ''s'' ''A'' +
       sum_where (\<lambda>s. sc_sku s = ''s'' \<and> sc_status s = ''planned'' \<and> sc_bin s = Some ''A'') sc_qty slices"
    using second_wave_ignores_the_first [OF ok one two] unfolding gen by blast
  with units show ?thesis by auto
qed

end
