(* ===== verification/WaveHistory.thy ===== *)
theory WaveHistory
  imports WaveProperties
begin

text \<open>
  The planner over time: a request served twice answers the same, and in every history of requests, cutoff
  sweeps and steps of the floor an order is on one wave at a time.
\<close>

section \<open>Requests\<close>

text \<open>
  A request with its idempotency key, the ids and the instant it is served with. The same request may be
  sent again later, when ids and instant are others.
\<close>

datatype request = CreatePolicy policy_command | Generate generate_command | Release transition_command | Cancel transition_command

definition serve :: "(payload \<Rightarrow> string) \<Rightarrow> (nat \<Rightarrow> uuid) \<Rightarrow> millis \<Rightarrow> string \<Rightarrow> request \<Rightarrow> response command" where
  "serve hash newId now key r =
     (case r of
        CreatePolicy c \<Rightarrow> createWavePolicy hash (newId 0) c key
      | Generate c \<Rightarrow> generateWave hash newId now c key
      | Release c \<Rightarrow> releaseWave hash now c key
      | Cancel c \<Rightarrow> cancelWave hash c key)"

text \<open>A body that ends in the idempotency record.\<close>

definition recorded :: "uuid \<Rightarrow> string \<Rightarrow> string \<Rightarrow> response command \<Rightarrow> bool" where
  "recorded t key h body = (\<forall>db x db'. body db = Inr (x, db') \<longrightarrow>
     (\<exists>db1. ob_users db1 = ob_users db \<and> ob_keys db1 = ob_keys db \<and> writeIdempotencyKey t key h x db1 = Inr (x, db')))"

lemma writeIdempotencyKey_result:
  "writeIdempotencyKey t key h x db = Inr (y, db') \<Longrightarrow> y = x \<and> \<not> list_ex (\<lambda>r. ik_tenant r = t \<and> ik_key r = key) (ob_keys db) \<and>
     db' = db\<lparr>ob_keys := ob_keys db @ [\<lparr>ik_tenant = t, ik_key = key, ik_hash = h, ik_response = x\<rparr>]\<rparr>"
  by (auto simp: writeIdempotencyKey_def split: if_splits)

lemma find_append: "find P (xs @ ys) = (case find P xs of None \<Rightarrow> find P ys | Some x \<Rightarrow> Some x)"
  by (induction xs) auto

lemma command_repeats:
  assumes "recorded t key h body" and "command t actor key h body db = Inr (x, db1)"
    and "ob_users db2 = ob_users db1" and "ob_keys db2 = ob_keys db1 @ ks"
  shows "command t actor key h body' db2 = Inr (x, db2)"
proof -
  let ?mine = "\<lambda>r. ik_tenant r = t \<and> ik_key r = key"
  from assms(2) consider
      r where "assertPermission db t actor = Inr ()" "find ?mine (ob_keys db) = Some r" "ik_hash r = h" "x = ik_response r" "db1 = db"
    | "assertPermission db t actor = Inr ()" "find ?mine (ob_keys db) = None" "body db = Inr (x, db1)"
    by (auto simp: command_def replay_def split: option.splits if_splits)
  then have "assertPermission db1 t actor = Inr () \<and> (\<exists>r. find ?mine (ob_keys db1) = Some r \<and> ik_hash r = h \<and> ik_response r = x)"
  proof cases
    case 1
    then show ?thesis by simp
  next
    case 2
    obtain db0 where db0: "ob_users db0 = ob_users db" "ob_keys db0 = ob_keys db" "writeIdempotencyKey t key h x db0 = Inr (x, db1)"
      using assms(1) 2(3) unfolding recorded_def by blast
    note result = writeIdempotencyKey_result [OF db0(3)]
    then have "find ?mine (ob_keys db0) = None" by (auto simp: find_None_iff list_ex_iff)
    with 2 db0 result show ?thesis by (auto simp: assertPermission_def find_append)
  qed
  with assms(3,4) show ?thesis
    by (auto simp: command_def replay_def assertPermission_def find_append)
qed

lemma recorded_write:
  assumes "\<And>db. ob_users (f db) = ob_users db" and "\<And>db. ob_keys (f db) = ob_keys db"
  shows "recorded t key h (\<lambda>db. writeIdempotencyKey t key h (x db) (f db))"
  unfolding recorded_def
proof (intro allI impI)
  fix db y db'
  assume written: "writeIdempotencyKey t key h (x db) (f db) = Inr (y, db')"
  with writeIdempotencyKey_result [OF this] assms
  show "\<exists>db1. ob_users db1 = ob_users db \<and> ob_keys db1 = ob_keys db \<and> writeIdempotencyKey t key h y db1 = Inr (y, db')" by blast
qed

lemma recorded_refuse: "recorded t key h (\<lambda>db. Inl f)"
  by (simp add: recorded_def)

lemma recorded_if: "recorded t key h a \<Longrightarrow> recorded t key h b \<Longrightarrow> recorded t key h (\<lambda>db. if c db then a db else b db)"
  unfolding recorded_def by simp

lemma recorded_bind: "(\<And>v. recorded t key h (k v)) \<Longrightarrow> recorded t key h (\<lambda>db. and_then (m db) (\<lambda>v. k v db))"
  unfolding recorded_def
proof (intro allI impI)
  fix db x db'
  assume k: "\<And>v. \<forall>db x db'. k v db = Inr (x, db') \<longrightarrow> (\<exists>db1. ob_users db1 = ob_users db \<and> ob_keys db1 = ob_keys db \<and>
      writeIdempotencyKey t key h x db1 = Inr (x, db'))" and "and_then (m db) (\<lambda>v. k v db) = Inr (x, db')"
  then obtain v where "k v db = Inr (x, db')" by (cases "m db") auto
  with k show "\<exists>db1. ob_users db1 = ob_users db \<and> ob_keys db1 = ob_keys db \<and> writeIdempotencyKey t key h x db1 = Inr (x, db')" by blast
qed

lemma recorded_update:
  assumes "\<And>db db1. m db = Inr db1 \<Longrightarrow> ob_users db1 = ob_users db \<and> ob_keys db1 = ob_keys db" and "recorded t key h k"
  shows "recorded t key h (\<lambda>db. and_then (m db) k)"
  unfolding recorded_def
proof (intro allI impI)
  fix db x db'
  assume "and_then (m db) k = Inr (x, db')"
  then obtain db0 where db0: "m db = Inr db0" "k db0 = Inr (x, db')" by (cases "m db") auto
  then obtain db1 where "ob_users db1 = ob_users db0" "ob_keys db1 = ob_keys db0" "writeIdempotencyKey t key h x db1 = Inr (x, db')"
    using assms(2) unfolding recorded_def by blast
  with assms(1) [OF db0(1)] show "\<exists>db1. ob_users db1 = ob_users db \<and> ob_keys db1 = ob_keys db \<and> writeIdempotencyKey t key h x db1 = Inr (x, db')"
    by metis
qed

lemma release_keeps [simp]: "ob_users (release_wave t i db) = ob_users db" "ob_keys (release_wave t i db) = ob_keys db"
  by (simp_all add: release_wave_def set_wave_status_def cancel_picks_def set_list_status_def Let_def)

lemma cancel_keeps [simp]: "ob_users (cancel_wave t i db) = ob_users db" "ob_keys (cancel_wave t i db) = ob_keys db"
  by (simp_all add: cancel_wave_def set_wave_status_def cancel_picks_def set_list_status_def Let_def)

lemma announce_keeps [simp]: "ob_users (announce t a e i db) = ob_users db" "ob_keys (announce t a e i db) = ob_keys db"
  by (simp_all add: announce_def)

text \<open>
  C30. A request is served once: when a policy creation, a generation, a release or a cancellation has
  returned an answer, sending it again with the same key, at any later time and while its sender keeps
  the role, returns the same answer and changes nothing, whatever other requests have added.
\<close>

theorem repeated_request_answers_the_same:
  assumes "serve hash newId now key r db = Inr (x, db1)"
    and "ob_users db2 = ob_users db1" and "ob_keys db2 = ob_keys db1 @ ks"
  shows "serve hash newId' now' key r db2 = Inr (x, db2)"
proof (cases r)
  case (CreatePolicy c)
  show ?thesis
    using assms(1) unfolding CreatePolicy serve_def request.case createWavePolicy_def Let_def
    by (rule command_repeats [rotated, OF _ assms(2,3)]) (intro recorded_bind recorded_if recorded_refuse recorded_write; simp)
next
  case (Generate c)
  have plan: "ob_users db1 = ob_users db \<and> ob_keys db1 = ob_keys db" if "plan_wave newId now c db = Inr db1" for db db1
    using that by (auto simp: plan_wave_def insert_picks_def Let_def split: if_splits)
  show ?thesis
    using assms(1) unfolding Generate serve_def request.case generateWave_def Let_def
    by (rule command_repeats [rotated, OF _ assms(2,3)]) (intro recorded_update plan recorded_bind recorded_write; simp)
next
  case (Release c)
  show ?thesis
    using assms(1) unfolding Release serve_def request.case releaseWave_def Let_def
    by (rule command_repeats [rotated, OF _ assms(2,3)]) (intro recorded_bind recorded_if recorded_refuse recorded_write; simp)
next
  case (Cancel c)
  show ?thesis
    using assms(1) unfolding Cancel serve_def request.case cancelWave_def Let_def
    by (rule command_repeats [rotated, OF _ assms(2,3)]) (intro recorded_bind recorded_if recorded_refuse recorded_write; simp)
qed

definition demo_request1 :: "(response \<times> outbound_db) result" where
  "demo_request1 = serve (\<lambda>_. ''h'') (demo_ids ''1'') 0 ''k'' (Generate demo_generate) demo_db"

lemma demo_request1_runs: "map_sum id (\<lambda>(_, db). map (\<lambda>p. (sc_order p, sc_bin p, sc_qty p, sc_shortfall p)) (ob_picks db)) demo_request1 =
    Inr [(''o'', Some ''A'', 5, 0)]"
  by code_simp

theorem repeated_request_answers_the_same_witness:
  "serve (\<lambda>_. ''h'') (demo_ids ''9'') 12345 ''k'' (Generate demo_generate) (snd (projr demo_request1)) = demo_request1"
proof -
  have run: "demo_request1 = Inr (fst (projr demo_request1), snd (projr demo_request1))" using map_sum_runs(1) [OF demo_request1_runs] by simp
  then have "serve (\<lambda>_. ''h'') (demo_ids ''1'') 0 ''k'' (Generate demo_generate) demo_db = Inr (fst (projr demo_request1), snd (projr demo_request1))"
    by (simp add: demo_request1_def)
  from repeated_request_answers_the_same [OF this, of "snd (projr demo_request1)" "[]"] run show ?thesis by simp
qed

section \<open>Histories\<close>

definition open_pick :: "pick_line \<Rightarrow> bool" where
  "open_pick p = (sc_status p \<noteq> ''cancelled'')"

text \<open>
  What the rest of the system does between two requests of the planner: anything that keeps the keys of
  orders and lines, in which an open pick line continues, or is cut from, an open pick line of the same
  order in the same wave (picking, packing, short picks and their re-plan; a cancelled line stays so).
\<close>

definition floor_step :: "outbound_db \<Rightarrow> outbound_db \<Rightarrow> bool" where
  "floor_step db db' = (outbound_ok db' \<and>
     (\<forall>p \<in> set (ob_picks db'). open_pick p \<longrightarrow>
       (\<exists>q \<in> set (ob_picks db). open_pick q \<and> pl_tenant q = pl_tenant p \<and> sc_order q = sc_order p \<and> pl_wave q = pl_wave p)))"

inductive wave_history :: "(payload \<Rightarrow> string) \<Rightarrow> outbound_db \<Rightarrow> bool" for hash where
  start: "outbound_ok db \<Longrightarrow> ob_picks db = [] \<Longrightarrow> wave_history hash db"
| request: "wave_history hash db \<Longrightarrow> serve hash newId now key r db = Inr (x, db') \<Longrightarrow> wave_history hash db'"
| sweep: "wave_history hash db \<Longrightarrow> wave_history hash (snd (sweepCutoffRisk t now db))"
| floor: "wave_history hash db \<Longrightarrow> floor_step db db' \<Longrightarrow> wave_history hash db'"

definition one_wave :: "outbound_db \<Rightarrow> bool" where
  "one_wave db = (\<forall>p \<in> set (ob_picks db). \<forall>q \<in> set (ob_picks db). open_pick p \<and> open_pick q \<and> pl_tenant p = pl_tenant q \<and>
     sc_order p = sc_order q \<longrightarrow> pl_wave p = pl_wave q)"

definition history_ok :: "outbound_db \<Rightarrow> bool" where
  "history_ok db = (one_wave db \<and> outbound_ok db)"

lemma history_ok_floor: "history_ok db \<Longrightarrow> floor_step db db' \<Longrightarrow> history_ok db'"
  unfolding history_ok_def one_wave_def floor_step_def by metis

lemma history_ok_plan:
  assumes "history_ok db" and "plan_wave newId now c db = Inr db'"
  shows "history_ok db'"
proof -
  have ok: "outbound_ok db" and one: "one_wave db" using assms(1) by (simp_all add: history_ok_def)
  have same: "ob_orders db' = ob_orders db" "ob_lines db' = ob_lines db" by (rule plan_wave_result [OF assms(2)], simp)+
  obtain lines new slices where new: "ob_picks db' = ob_picks db @ new"
    and slices: "slices = plan_lines (pi_intakes (wave_pool_input db (gw_tenant c) (gw_wh c) now (plan_skus lines))) now
      (wave_terms db (gw_tenant c) lines) lines (buildStockPool (wave_pool_input db (gw_tenant c) (gw_wh c) now (plan_skus lines)))"
    and lines: "set lines \<subseteq> {l \<in> set (ob_lines db). ol_tenant l = gw_tenant c \<and> 0 < ol_reserved l}"
    and free: "\<forall>l \<in> set lines. unclaimed db (gw_tenant c) (ol_order l) \<and> accepted_in db (gw_tenant c) (gw_wh c) (ol_order l) \<and>
      (\<exists>r \<in> set (iv_reservations (ob_iv db)). Some (rv_id r) = ol_reservation l \<and> rv_state r = Held)"
    and rows: "\<forall>p \<in> set new. \<exists>s \<in> set slices. \<exists>i j k.
      p = planned_slice.extend s \<lparr>pl_tenant = gw_tenant c, pl_picklist = i, pl_wave = newId 0, pl_walk = j, pl_id = k, pl_reason = None\<rparr>"
    by (rule plan_wave_lines [OF assms(2) ok]) blast
  have new_claims: "pl_tenant p = gw_tenant c \<and> pl_wave p = newId 0 \<and> unclaimed db (gw_tenant c) (sc_order p)" if p: "p \<in> set new" for p
  proof -
    obtain s i j k where s: "s \<in> set slices" "p = planned_slice.extend s \<lparr>pl_tenant = gw_tenant c, pl_picklist = i, pl_wave = newId 0, pl_walk = j, pl_id = k, pl_reason = None\<rparr>"
      using rows p by blast
    moreover have "\<forall>l \<in> set lines. 0 \<le> ol_reserved l" using lines by auto
    ultimately obtain l where "l \<in> set lines" "sc_order s = ol_order l" using plan_lines_owner slices by metis
    with free s(2) show ?thesis by (auto simp: planned_slice.defs)
  qed
  have "one_wave db'"
    unfolding one_wave_def
  proof (intro ballI impI)
    fix p q
    assume p: "p \<in> set (ob_picks db')" and q: "q \<in> set (ob_picks db')"
      and pq: "open_pick p \<and> open_pick q \<and> pl_tenant p = pl_tenant q \<and> sc_order p = sc_order q"
    have apart: False if "x \<in> set (ob_picks db)" "y \<in> set new" "open_pick x" "pl_tenant x = pl_tenant y" "sc_order x = sc_order y" for x y
      using that new_claims by (auto simp: unclaimed_def open_pick_def)
    from p q consider "p \<in> set (ob_picks db)" "q \<in> set (ob_picks db)" | "p \<in> set new" "q \<in> set new"
      | "p \<in> set (ob_picks db)" "q \<in> set new" | "p \<in> set new" "q \<in> set (ob_picks db)"
      unfolding new by auto
    then show "pl_wave p = pl_wave q"
    proof cases
      case 1
      then show ?thesis using one pq unfolding one_wave_def by blast
    next
      case 2
      then show ?thesis using new_claims by metis
    qed (use apart pq in metis)+
  qed
  with ok same show ?thesis by (simp add: history_ok_def outbound_ok_def)
qed

lemma history_ok_cancelled:
  assumes "history_ok db" and "ob_orders db' = ob_orders db" and "ob_lines db' = ob_lines db"
    and "ob_picks db' = update_where P (sc_status_update (\<lambda>_. ''cancelled'')) (ob_picks db)"
  shows "history_ok db'"
proof (rule history_ok_floor [OF assms(1)])
  show "floor_step db db'"
    using assms by (auto simp: floor_step_def history_ok_def outbound_ok_def open_pick_def set_update_where)
qed

lemma history_ok_same: "ob_orders db' = ob_orders db \<Longrightarrow> ob_lines db' = ob_lines db \<Longrightarrow> ob_picks db' = ob_picks db \<Longrightarrow> history_ok db' = history_ok db"
  by (simp only: history_ok_def outbound_ok_def one_wave_def)

lemma history_ok_release: "history_ok db \<Longrightarrow> history_ok (release_wave t i db)"
  by (rule history_ok_cancelled) (simp_all add: release_wave_def set_wave_status_def cancel_picks_def set_list_status_def Let_def)

lemma history_ok_cancel: "history_ok db \<Longrightarrow> history_ok (cancel_wave t i db)"
  by (rule history_ok_cancelled) (simp_all add: cancel_wave_def set_wave_status_def cancel_picks_def set_list_status_def Let_def)

lemma history_ok_announce [simp]: "history_ok (announce t a e i db) = history_ok db"
  by (rule history_ok_same) (simp_all add: announce_def)

lemma history_ok_write: "writeIdempotencyKey t key h x db = Inr (y, db') \<Longrightarrow> history_ok db' = history_ok db"
  by (rule history_ok_same) (auto dest!: writeIdempotencyKey_result)

text \<open>The bodies that keep a history well formed.\<close>

definition steady :: "response command \<Rightarrow> bool" where
  "steady body = (\<forall>db x db'. history_ok db \<longrightarrow> body db = Inr (x, db') \<longrightarrow> history_ok db')"

lemma steady_write: "(\<And>db. history_ok db \<Longrightarrow> history_ok (f db)) \<Longrightarrow> steady (\<lambda>db. writeIdempotencyKey t key h (x db) (f db))"
  unfolding steady_def
proof (intro allI impI)
  fix db y db'
  assume keep: "\<And>db. history_ok db \<Longrightarrow> history_ok (f db)" and ok: "history_ok db" and written: "writeIdempotencyKey t key h (x db) (f db) = Inr (y, db')"
  from keep [OF ok] show "history_ok db'" by (simp only: history_ok_write [OF written])
qed

lemma steady_refuse: "steady (\<lambda>db. Inl f)"
  by (simp add: steady_def)

lemma steady_if: "steady a \<Longrightarrow> steady b \<Longrightarrow> steady (\<lambda>db. if c db then a db else b db)"
  unfolding steady_def by (intro allI impI, split if_split_asm) blast+

lemma steady_bind:
  assumes "\<And>v. steady (k v)"
  shows "steady (\<lambda>db. and_then (m db) (\<lambda>v. k v db))"
  unfolding steady_def
proof (intro allI impI)
  fix db x db'
  assume ok: "history_ok db" and "and_then (m db) (\<lambda>v. k v db) = Inr (x, db')"
  then obtain v where "k v db = Inr (x, db')" by (cases "m db") auto
  with ok assms [of v] show "history_ok db'" unfolding steady_def by blast
qed

lemma steady_update:
  assumes "\<And>db db1. history_ok db \<Longrightarrow> m db = Inr db1 \<Longrightarrow> history_ok db1" and "steady k"
  shows "steady (\<lambda>db. and_then (m db) k)"
  unfolding steady_def
proof (intro allI impI)
  fix db x db'
  assume ok: "history_ok db" and "and_then (m db) k = Inr (x, db')"
  then obtain db1 where "m db = Inr db1" "k db1 = Inr (x, db')" by (cases "m db") auto
  with assms ok show "history_ok db'" unfolding steady_def by blast
qed

lemma steady_command:
  assumes "steady body"
  shows "steady (command t actor key h body)"
  unfolding steady_def
proof (intro allI impI)
  fix db x db'
  assume ok: "history_ok db" and "command t actor key h body db = Inr (x, db')"
  then have "db' = db \<or> body db = Inr (x, db')"
    unfolding command_def by (cases "assertPermission db t actor"; cases "replay db t key h") (auto split: option.splits)
  with assms ok show "history_ok db'" unfolding steady_def by blast
qed

lemma steady_serve: "steady (serve hash newId now key r)"
proof (cases r)
  case (CreatePolicy c)
  have "history_ok (db\<lparr>ob_policies := ps\<rparr>)" if "history_ok db" for ps db
    using that history_ok_same [of "db\<lparr>ob_policies := ps\<rparr>" db] by simp
  then show ?thesis
    unfolding CreatePolicy serve_def request.case createWavePolicy_def Let_def
    by (intro steady_command steady_bind steady_if steady_refuse steady_write; simp)
next
  case (Generate c)
  show ?thesis
    unfolding Generate serve_def request.case generateWave_def Let_def
    by (intro steady_command steady_update [OF history_ok_plan] steady_bind steady_write; simp)
next
  case (Release c)
  show ?thesis
    unfolding Release serve_def request.case releaseWave_def Let_def
    by (intro steady_command steady_bind steady_if steady_refuse steady_write; simp add: history_ok_release)
next
  case (Cancel c)
  show ?thesis
    unfolding Cancel serve_def request.case cancelWave_def Let_def
    by (intro steady_command steady_bind steady_if steady_refuse steady_write; simp add: history_ok_cancel)
qed

lemma history_ok_raise: "history_ok (snd (raise_risk t today n acc x)) = history_ok (snd acc)"
  by (rule history_ok_same) (simp_all add: raise_risk_def Let_def split: prod.split)

lemma history_ok_sweep: "history_ok (snd (sweepCutoffRisk t now db)) = history_ok db"
proof -
  have "history_ok (snd (foldl (raise_risk t d n) acc xs)) = history_ok (snd acc)" for d n acc xs
    by (induction xs arbitrary: acc) (simp_all add: history_ok_raise)
  then show ?thesis by (simp add: sweepCutoffRisk_def)
qed

lemma wave_history_ok: "wave_history hash db \<Longrightarrow> history_ok db"
proof (induction rule: wave_history.induct)
  case (start db)
  then show ?case by (simp add: history_ok_def one_wave_def)
next
  case (request db newId now key r x db')
  then show ?case using steady_serve unfolding steady_def by blast
next
  case (sweep db t now)
  then show ?case by (simp add: history_ok_sweep)
next
  case (floor db db')
  then show ?case using history_ok_floor by blast
qed

text \<open>
  C11. An order is on one wave at a time: in every history of requests, sweeps and floor steps, from tables
  without pick lines, all pick lines of an order that are not cancelled belong to the same wave.
\<close>

theorem order_on_one_wave:
  assumes "wave_history hash db" and "p \<in> set (ob_picks db)" and "q \<in> set (ob_picks db)" and "open_pick p" and "open_pick q"
    and "pl_tenant p = pl_tenant q" and "sc_order p = sc_order q"
  shows "pl_wave p = pl_wave q"
  using wave_history_ok [OF assms(1)] assms(2-7) unfolding history_ok_def one_wave_def by blast

theorem order_on_one_wave_witness:
  "pl_wave (hd (ob_picks (snd (projr demo_request1)))) = ''x1''"
proof -
  let ?db = "snd (projr demo_request1)" and ?p = "hd (ob_picks (snd (projr demo_request1)))"
  have run: "demo_request1 = Inr (fst (projr demo_request1), ?db)" using map_sum_runs(1) [OF demo_request1_runs] by simp
  have "outbound_ok demo_db" by code_simp
  moreover have "ob_picks demo_db = []" by (simp add: demo_db_def)
  ultimately have "wave_history (\<lambda>_. ''h'') demo_db" by (rule wave_history.start)
  from wave_history.request [OF this run [unfolded demo_request1_def]] have history: "wave_history (\<lambda>_. ''h'') ?db" by (simp add: demo_request1_def)
  have "map (\<lambda>p. (pl_wave p, open_pick p)) (ob_picks ?db) = [(''x1'', True)]" by code_simp
  then have "?p \<in> set (ob_picks ?db) \<and> open_pick ?p \<and> pl_wave ?p = ''x1''" by (cases "ob_picks ?db") auto
  with order_on_one_wave [OF history, of ?p ?p] show ?thesis by simp
qed

end
