(* ===== verification/PickLemmas.thy ===== *)
theory PickLemmas
  imports PickCommand LedgerInvariant ReservationService WaveReplan WaveHistory
begin

text \<open>
  The steps of a pick, one by one: what the draws do to the ledger, what the batch arms take, what becomes
  of the hold and its slices, and which tables each step leaves alone.
\<close>

section \<open>The draws\<close>

text \<open>A movement out of a bin that goes nowhere takes its magnitude from the bin, and from its batch there.\<close>

lemma posted_one:
  assumes "guarded_post ok look up r rows (k, d) = Inr rows'" and "\<And>k rows d. ok (quantity_or_0 (look k rows) + d) \<Longrightarrow>
      look k (up k d rows) = Some (quantity_or_0 (look k rows) + d)"
    and "\<And>k' k rows d. k' \<noteq> k \<Longrightarrow> look k' (up k d rows) = look k' rows"
  shows "quantity_or_0 (look x rows') = quantity_or_0 (look x rows) + (if x = k then d else 0) \<and> ok (quantity_or_0 (look k rows) + d)"
  using assms by (auto simp: guarded_post_def quantity_or_0_def split: if_splits)

definition stocked :: "ledger_db \<Rightarrow> scope_key \<Rightarrow> int" where
  "stocked db k = quantity_or_0 (stock_at k (db_stock db))"

definition batched :: "ledger_db \<Rightarrow> batch_key \<Rightarrow> int" where
  "batched db k = quantity_or_0 (batch_at k (db_batches db))"

lemma append_draw:
  assumes "appendMovement sha newId db m = Inr (db', a)" and "m_to m = None" and "m_from m = Some b"
  shows "\<exists>e. db_events db' = db_events db @ [e] \<and> ev_type e = m_type m \<and> ev_tenant e = m_tenant m \<and> ev_wh e = m_wh m \<and> ev_sku e = m_sku m \<and>
      ev_delta e = m_delta m \<and> ev_from e = Some b \<and> ev_to e = None \<and> ev_batch e = m_batch m \<and> ev_serial e = m_serial m \<and> ev_ref e = m_ref m"
    and "stocked db' k = stocked db k - (if k = (m_tenant m, m_wh m, m_sku m, b) then \<bar>m_delta m\<bar> else 0)"
    and "\<bar>m_delta m\<bar> \<le> stocked db (m_tenant m, m_wh m, m_sku m, b)"
    and "batched db' l = batched db l - (if \<exists>x. m_batch m = Some x \<and> l = (m_tenant m, m_wh m, m_sku m, b, x) then \<bar>m_delta m\<bar> else 0)"
    and "db_skus db' = db_skus db"
proof -
  obtain client where r:
    "db_events db' = db_events db @ [movement_row m newId (ap_seq a) (ap_prev a) client (ap_hash a)]"
    "foldM (guarded_post (\<lambda>q. 0 \<le> q) stock_at upsert_stock ()) (db_stock db)
      (stock_posts (movement_row m newId (ap_seq a) (ap_prev a) client (ap_hash a))) = Inr (db_stock db')"
    "foldM (guarded_post (\<lambda>q. 0 \<le> q) batch_at upsert_batch ()) (db_batches db)
      (batch_posts (movement_row m newId (ap_seq a) (ap_prev a) client (ap_hash a))) = Inr (db_batches db')"
    "db_skus db' = db_skus db"
    by (rule appendMovement_Inr [OF assms(1)])
  show "db_skus db' = db_skus db" by (rule r(4))
  show "\<exists>e. db_events db' = db_events db @ [e] \<and> ev_type e = m_type m \<and> ev_tenant e = m_tenant m \<and> ev_wh e = m_wh m \<and> ev_sku e = m_sku m \<and>
      ev_delta e = m_delta m \<and> ev_from e = Some b \<and> ev_to e = None \<and> ev_batch e = m_batch m \<and> ev_serial e = m_serial m \<and> ev_ref e = m_ref m"
    using r(1) assms by simp
  have s: "guarded_post (\<lambda>q. 0 \<le> q) stock_at upsert_stock () (db_stock db) ((m_tenant m, m_wh m, m_sku m, b), - \<bar>m_delta m\<bar>) = Inr (db_stock db')"
    using r(2) assms by (simp add: stock_posts_def arm_posts_def)
  note post = posted_one [OF s stock.lookup_same stock.lookup_other, simplified]
  show "stocked db' k = stocked db k - (if k = (m_tenant m, m_wh m, m_sku m, b) then \<bar>m_delta m\<bar> else 0)"
    using post [of k] by (simp add: stocked_def)
  show "\<bar>m_delta m\<bar> \<le> stocked db (m_tenant m, m_wh m, m_sku m, b)"
    using post by (simp add: stocked_def)
  show "batched db' l = batched db l - (if \<exists>x. m_batch m = Some x \<and> l = (m_tenant m, m_wh m, m_sku m, b, x) then \<bar>m_delta m\<bar> else 0)"
  proof (cases "m_batch m")
    case None
    then show ?thesis using r(3) assms by (simp add: batch_posts_def batched_def)
  next
    case (Some x)
    then have "guarded_post (\<lambda>q. 0 \<le> q) batch_at upsert_batch () (db_batches db) ((m_tenant m, m_wh m, m_sku m, b, x), - \<bar>m_delta m\<bar>) = Inr (db_batches db')"
      using r(3) assms by (simp add: batch_posts_def arm_posts_def)
    from posted_one [OF this batch.lookup_same batch.lookup_other, of l] Some show ?thesis by (simp add: batched_def)
  qed
qed


definition leaves :: "uuid \<Rightarrow> uuid \<Rightarrow> uuid \<Rightarrow> uuid \<Rightarrow> movement \<Rightarrow> bool" where
  "leaves t wh s b m = (m_tenant m = t \<and> m_wh m = wh \<and> m_sku m = s \<and> m_from m = Some b \<and> m_to m = None \<and> m_delta m \<le> 0)"

text \<open>The events of a list of draws.\<close>

definition draw_events :: "movement list \<Rightarrow> ledger_event list \<Rightarrow> bool" where
  "draw_events ms es = list_all2 (\<lambda>m e. ev_type e = m_type m \<and> ev_tenant e = m_tenant m \<and> ev_wh e = m_wh m \<and> ev_sku e = m_sku m \<and>
     ev_delta e = m_delta m \<and> ev_from e = m_from m \<and> ev_to e = m_to m \<and> ev_batch e = m_batch m \<and> ev_serial e = m_serial m \<and>
     ev_ref e = m_ref m) ms es"

lemma foldM_draws:
  assumes "foldM (\<lambda>led (i, m). and_then (appendMovement sha (newId i) led m) (\<lambda>(led', _). Inr led')) led (enumerate n ms) = Inr led'"
    and "\<forall>m \<in> set ms. leaves t wh s b m"
  shows "(\<exists>es. db_events led' = db_events led @ es \<and> draw_events ms es) \<and>
    (\<forall>k. stocked led' k = stocked led k + (if k = (t, wh, s, b) then sum_list (map m_delta ms) else 0)) \<and>
    (\<forall>x. batched led' (t, wh, s, b, x) = batched led (t, wh, s, b, x) + sum_where (\<lambda>m. m_batch m = Some x) m_delta ms) \<and>
    (\<forall>t' w' s' b' x. (t', w', s', b') \<noteq> (t, wh, s, b) \<longrightarrow> batched led' (t', w', s', b', x) = batched led (t', w', s', b', x)) \<and>
    db_skus led' = db_skus led \<and> (ms \<noteq> [] \<longrightarrow> 0 \<le> stocked led' (t, wh, s, b))"
  using assms
proof (induction ms arbitrary: led n)
  case Nil
  then show ?case by (simp add: draw_events_def)
next
  case (Cons m ms)
  from Cons.prems(1) obtain mid a where mid: "appendMovement sha (newId n) led m = Inr (mid, a)"
    and rest: "foldM (\<lambda>led (i, m). and_then (appendMovement sha (newId i) led m) (\<lambda>(led', _). Inr led')) mid (enumerate (Suc n) ms) = Inr led'"
    by auto
  have m: "m_to m = None" "m_from m = Some b" "m_tenant m = t" "m_wh m = wh" "m_sku m = s" "m_delta m \<le> 0"
    using Cons.prems(2) by (auto simp: leaves_def)
  note one = append_draw [OF mid m(1,2)]
  have IH: "(\<exists>es. db_events led' = db_events mid @ es \<and> draw_events ms es) \<and>
    (\<forall>k. stocked led' k = stocked mid k + (if k = (t, wh, s, b) then sum_list (map m_delta ms) else 0)) \<and>
    (\<forall>x. batched led' (t, wh, s, b, x) = batched mid (t, wh, s, b, x) + sum_where (\<lambda>m. m_batch m = Some x) m_delta ms) \<and>
    (\<forall>t' w' s' b' x. (t', w', s', b') \<noteq> (t, wh, s, b) \<longrightarrow> batched led' (t', w', s', b', x) = batched mid (t', w', s', b', x)) \<and>
    db_skus led' = db_skus mid \<and> (ms \<noteq> [] \<longrightarrow> 0 \<le> stocked led' (t, wh, s, b))"
    by (rule Cons.IH [OF rest]) (use Cons.prems(2) in auto)
  obtain e where e: "db_events mid = db_events led @ [e]" "draw_events [m] [e]"
    using one(1) m by (auto simp: draw_events_def)
  moreover obtain es where "db_events led' = db_events mid @ es" "draw_events ms es" using IH by blast
  ultimately have "db_events led' = db_events led @ (e # es)" "draw_events (m # ms) (e # es)" by (auto simp: draw_events_def)
  moreover have "stocked led' k = stocked led k + (if k = (t, wh, s, b) then sum_list (map m_delta (m # ms)) else 0)" for k
  proof -
    have "stocked led' k = stocked mid k + (if k = (t, wh, s, b) then sum_list (map m_delta ms) else 0)" using IH by blast
    with one(2) [of k] m show ?thesis by (cases "k = (t, wh, s, b)") simp_all
  qed
  moreover have "batched led' (t, wh, s, b, x) = batched led (t, wh, s, b, x) + sum_where (\<lambda>m. m_batch m = Some x) m_delta (m # ms)" for x
    using IH one(4) [of "(t, wh, s, b, x)"] m by auto
  moreover have "batched led' (t', w', s', b', x) = batched led (t', w', s', b', x)" if "(t', w', s', b') \<noteq> (t, wh, s, b)" for t' w' s' b' x
  proof -
    have "\<not> (\<exists>y. m_batch m = Some y \<and> (t', w', s', b', x) = (m_tenant m, m_wh m, m_sku m, b, y))" using that m by auto
    then have "batched mid (t', w', s', b', x) = batched led (t', w', s', b', x)"
      using one(4) [of "(t', w', s', b', x)"] by (simp only: if_False diff_zero simp_thms)
    then show ?thesis using IH that by simp
  qed
  moreover have "db_skus led' = db_skus led" using IH one(5) by simp
  moreover have "0 \<le> stocked led' (t, wh, s, b)"
  proof (cases "ms = []")
    case True
    then have "led' = mid" using rest by simp
    then show ?thesis using one(2) [of "(t, wh, s, b)"] one(3) m by simp
  qed (use IH in blast)
  ultimately show ?case by blast
qed

lemma append_movements_Inr:
  assumes "append_movements sha newId ms db = Inr db'"
  obtains led where "db' = db\<lparr>ob_iv := (ob_iv db)\<lparr>iv_ledger := led\<rparr>\<rparr>"
    and "foldM (\<lambda>led (i, m). and_then (appendMovement sha (newId i) led m) (\<lambda>(led', _). Inr led')) (iv_ledger (ob_iv db)) (enumerate 0 ms) = Inr led"
  using assms by (auto simp: append_movements_def)

lemma pick_movements_leave:
  assumes "\<forall>(batch, n) \<in> set (px_arms x). 0 \<le> n"
  shows "\<forall>m \<in> set (pick_movements now c x). leaves (pc_tenant c) (pc_wh c) (pc_sku c) (pc_bin c) m \<and> m_type m = ''pick.picked'' \<and> m_ref m = pick_reference c x"
  using assms by (auto simp: pick_movements_def pick_movement_def leaves_def quantity_scale split: if_splits)

section \<open>The batch arms\<close>

lemma draw_arms_result:
  assumes "draw_arms need rows = (arms, left)" and "0 \<le> need"
  shows "sum_list (map snd arms) + left = need \<and> 0 \<le> left \<and> (\<forall>(batch, n) \<in> set arms. 0 < n) \<and>
    (\<forall>(batch, n) \<in> set arms. \<exists>q. batch \<noteq> None \<and> (the batch, q) \<in> set rows \<and> n \<le> q)"
  using assms
proof (induction need rows arbitrary: arms left rule: draw_arms.induct)
  case (2 need batch quantity rows)
  consider "need = 0" | "need \<noteq> 0" "min need quantity \<le> 0" | "need \<noteq> 0" "0 < min need quantity" by linarith
  then show ?case
  proof cases
    case 1
    then show ?thesis using "2.prems" by auto
  next
    case 2
    then have "draw_arms need rows = (arms, left)" using "2.prems"(1) by (simp add: Let_def)
    from "2.IH"(1) [OF 2(1) refl 2(2) this "2.prems"(2)] show ?thesis by fastforce
  next
    case 3
    obtain arms' left' where r: "draw_arms (need - min need quantity) rows = (arms', left')" by force
    have n: "0 \<le> need - min need quantity" "\<not> min need quantity \<le> 0" using 3 by auto
    note IH = "2.IH"(2) [OF 3(1) refl n(2) r n(1)]
    have a: "arms = (Some batch, min need quantity) # arms'" "left = left'" using "2.prems"(1) 3 r by (auto simp: Let_def)
    have "sum_list (map snd arms) + left = need" "0 \<le> left" using IH a by simp_all
    moreover have "\<forall>(batch, n) \<in> set arms. 0 < n" using IH a 3 by simp
    moreover have "\<forall>(b, n) \<in> set arms. \<exists>q. b \<noteq> None \<and> (the b, q) \<in> set ((batch, quantity) # rows) \<and> n \<le> q"
    proof
      fix y assume "y \<in> set arms"
      then consider "y = (Some batch, min need quantity)" | "y \<in> set arms'" using a by auto
      then show "case y of (b, n) \<Rightarrow> \<exists>q. b \<noteq> None \<and> (the b, q) \<in> set ((batch, quantity) # rows) \<and> n \<le> q"
      proof cases
        case 2
        then have "case y of (b, n) \<Rightarrow> \<exists>q. b \<noteq> None \<and> (the b, q) \<in> set rows \<and> n \<le> q" using IH by blast
        then show ?thesis by (cases y) auto
      qed (auto intro: exI [of _ quantity])
    qed
    ultimately show ?thesis by blast
  qed
qed auto

lemma arm_rows_rows:
  assumes "(batch, n) \<in> set (arm_rows db c p l ms)"
  shows "\<exists>r \<in> set (bin_batches db c). ba_batch r = batch \<and> ba_qty r = n \<and>
    pick_allocatable (getBatchIntakesForSkusInTx (ob_intakes db) (pc_tenant c) [pc_sku c]) p l ms batch"
proof -
  let ?rows = "filter (\<lambda>r. pick_allocatable (getBatchIntakesForSkusInTx (ob_intakes db) (pc_tenant c) [pc_sku c]) p l ms (ba_batch r)) (bin_batches db c)"
  let ?named = "\<lambda>r. sc_batch p = Some (ba_batch r)"
  have first: "x \<in> set ?rows" if "find ?named ?rows = Some x" for x using find_SomeD [OF that] by simp
  have rest: "r \<in> set ?rows" if "r \<in> set (case find ?named ?rows of None \<Rightarrow> ?rows | Some x \<Rightarrow> remove1 x ?rows)" for r
    using that set_remove1_subset by (fastforce split: option.splits simp del: filter_filter set_filter)
  have "(batch, n) \<in> (\<lambda>r. (ba_batch r, ba_qty r)) ` set ?rows"
    using assms unfolding arm_rows_def Let_def set_append Un_iff
  proof (elim disjE)
    assume "(batch, n) \<in> set (case find ?named ?rows of None \<Rightarrow> [] | Some r \<Rightarrow> [(ba_batch r, ba_qty r)])"
    then show ?thesis using first by (cases "find ?named ?rows") auto
  next
    assume "(batch, n) \<in> set (map (\<lambda>s. (as_batch s, as_qty s))
           (rankSlots (map (\<lambda>r. \<lparr>sl_walk = 0, sl_batch = Some (ba_batch r), as_batch = ba_batch r, as_qty = ba_qty r\<rparr>)
             (case find ?named ?rows of None \<Rightarrow> ?rows | Some r \<Rightarrow> remove1 r ?rows))
             (effectiveLineRule (sc_rule p)) (facts_of (getBatchIntakesForSkusInTx (ob_intakes db) (pc_tenant c) [pc_sku c]))))"
    then obtain r where "r \<in> set (case find ?named ?rows of None \<Rightarrow> ?rows | Some r \<Rightarrow> remove1 r ?rows)" "(batch, n) = (ba_batch r, ba_qty r)"
      by (auto simp: rankSlots_def)
    with rest show ?thesis by blast
  qed
  then show ?thesis by auto
qed

lemma pick_arms_Inr:
  assumes "pick_arms db c p l k ms qty = Inr arms" and "0 \<le> qty"
  shows "sum_list (map snd arms) = qty" and "\<forall>(batch, n) \<in> set arms. 0 < n"
    and "\<forall>(batch, n) \<in> set arms. sf_tracked k \<longrightarrow> (\<exists>r \<in> set (bin_batches db c). batch = Some (ba_batch r) \<and> n \<le> ba_qty r \<and>
      pick_allocatable (getBatchIntakesForSkusInTx (ob_intakes db) (pc_tenant c) [pc_sku c]) p l ms (ba_batch r))"
    and "\<not> sf_tracked k \<longrightarrow> arms = (if qty = 0 then [] else [(None, qty)])"
    and "0 < qty \<longrightarrow> qty \<le> binOnHandInTx db c (pc_bin c)"
proof -
  show "0 < qty \<longrightarrow> qty \<le> binOnHandInTx db c (pc_bin c)" using assms by (auto simp: pick_arms_def)
  show "\<not> sf_tracked k \<longrightarrow> arms = (if qty = 0 then [] else [(None, qty)])" using assms by (auto simp: pick_arms_def)
  consider "qty = 0" "arms = []" | "0 < qty" "\<not> sf_tracked k" "arms = [(None, qty)]"
    | "0 < qty" "sf_tracked k" "deriveBatchArms db c p l ms qty = Inr arms"
    using assms by (auto simp: pick_arms_def split: if_splits sum.splits)
  then have "sum_list (map snd arms) = qty \<and> (\<forall>(batch, n) \<in> set arms. 0 < n) \<and>
     (\<forall>(batch, n) \<in> set arms. sf_tracked k \<longrightarrow> (\<exists>r \<in> set (bin_batches db c). batch = Some (ba_batch r) \<and> n \<le> ba_qty r \<and>
      pick_allocatable (getBatchIntakesForSkusInTx (ob_intakes db) (pc_tenant c) [pc_sku c]) p l ms (ba_batch r)))"
  proof cases
    case 3
    then have d: "draw_arms qty (arm_rows db c p l ms) = (arms, snd (draw_arms qty (arm_rows db c p l ms)))"
      and "\<not> 0 < snd (draw_arms qty (arm_rows db c p l ms))"
      by (auto simp: deriveBatchArms_def split: prod.splits if_splits)
    with draw_arms_result [OF d assms(2)] show ?thesis using arm_rows_rows by (fastforce split: prod.splits)
  qed auto
  then show "sum_list (map snd arms) = qty" and "\<forall>(batch, n) \<in> set arms. 0 < n"
    and "\<forall>(batch, n) \<in> set arms. sf_tracked k \<longrightarrow> (\<exists>r \<in> set (bin_batches db c). batch = Some (ba_batch r) \<and> n \<le> ba_qty r \<and>
      pick_allocatable (getBatchIntakesForSkusInTx (ob_intakes db) (pc_tenant c) [pc_sku c]) p l ms (ba_batch r))" by blast+
qed


section \<open>The hold and its slices\<close>

definition with_holds :: "reservation_row list \<Rightarrow> outbound_db \<Rightarrow> outbound_db" where
  "with_holds rows db = db\<lparr>ob_iv := (ob_iv db)\<lparr>iv_reservations := rows\<rparr>\<rparr>"

definition held_as :: "uuid \<Rightarrow> uuid \<Rightarrow> reservation_row \<Rightarrow> bool" where
  "held_as t i r = (rv_id r = i \<and> rv_tenant r = t \<and> rv_state r = Held)"

abbreviation holds_in :: "outbound_db \<Rightarrow> reservation_row list" where
  "holds_in db \<equiv> iv_reservations (ob_iv db)"

lemmas tx_simps = in_caller_tx_def set_state_def bind_def Let_def journal_def set_journal_def tx_world_def with_holds_def held_as_def

lemma release_in_tx:
  assumes "in_caller_tx (releaseInTx t i) now db = Inr (r, db')"
  obtains r0 where "uuid_shape i" and "find (held_as t i) (holds_in db) = Some r0" and "r = r0\<lparr>rv_state := Released\<rparr>"
    and "db' = with_holds (update_where (held_as t i) (rv_state_update (\<lambda>_. Released)) (holds_in db)) db"
  using assms unfolding held_as_def [abs_def]
  by (cases "find (\<lambda>r. rv_id r = i \<and> rv_tenant r = t \<and> rv_state r = Held) (holds_in db)")
    (auto simp: tx_simps releaseInTx_def releaseFromStateInTx_def split: if_splits)

lemma commit_in_tx:
  assumes "in_caller_tx (commitInTx t i) now db = Inr (r, db')"
  obtains r0 where "uuid_shape i" and "find (held_as t i) (holds_in db) = Some r0" and "r = r0\<lparr>rv_state := Committed\<rparr>"
    and "db' = with_holds (update_where (held_as t i) (rv_state_update (\<lambda>_. Committed)) (holds_in db)) db"
  using assms unfolding held_as_def [abs_def]
  by (cases "find (\<lambda>r. rv_id r = i \<and> rv_tenant r = t \<and> rv_state r = Held) (holds_in db)")
    (auto simp: tx_simps commitInTx_def split: if_splits)

lemma grant_in_tx:
  assumes "in_caller_tx (grantInTx newId c r) now db = Inr (x, db')"
  shows "(case x of
      None \<Rightarrow> db' = db \<and> (gc_qty c \<le> 0 \<or> owner_scope_of r = command_scope c \<and>
        (list_ex (\<lambda>r. rv_state r = Held \<and> owner_scope_of r = command_scope c) (holds_in db) \<or>
         committedCeiling (ob_iv db) (gc_tenant c) (gc_wh c) (gc_sku c) now < reserved_sum (gc_tenant c) (gc_wh c) (gc_sku c) (holds_in db) + gc_qty c))
    | Some row \<Rightarrow> row = hold_row newId c now \<and> db' = with_holds (holds_in db @ [row]) db \<and> 0 < gc_qty c \<and> gc_qty c \<le> rv_qty r \<and>
        owner_scope_of r = command_scope c \<and>
        \<not> list_ex (\<lambda>r. rv_state r = Held \<and> owner_scope_of r = command_scope c) (holds_in db) \<and>
        reserved_sum (gc_tenant c) (gc_wh c) (gc_sku c) (holds_in db) + gc_qty c \<le> committedCeiling (ob_iv db) (gc_tenant c) (gc_wh c) (gc_sku c) now)"
  using assms
  by (auto simp: tx_simps grantInTx_def insert_hold_def journalReservedSum_def ceiling_now_def findOpenHold_def find_None_iff list_ex_iff
      command_scope_def hold_row_def owner_scope_of_def split: if_splits option.splits dest!: find_SomeD)

lemma ceiling_with_holds: "committedCeiling (ob_iv (with_holds rows db)) t wh s now = committedCeiling (ob_iv db) t wh s now"
  by (simp add: with_holds_def ceiling_frame)

text \<open>What settling does to the slices of the order line: a new hold for the open ones, and new slices.\<close>

definition repointed :: "uuid option \<Rightarrow> pick_line \<Rightarrow> pick_line \<Rightarrow> bool" where
  "repointed hold q q' = (q' = q \<or> q' = q\<lparr>sc_reservation := hold\<rparr> \<and> sc_status q = ''planned'')"

definition released_rows :: "pick_command \<Rightarrow> uuid \<Rightarrow> reservation_row list \<Rightarrow> reservation_row list" where
  "released_rows c i rows = update_where (held_as (pc_tenant c) i) (rv_state_update (\<lambda>_. Released)) rows"

definition owed :: "reservation_row \<Rightarrow> pick_plan \<Rightarrow> pick_line list \<Rightarrow> int" where
  "owed r x siblings = rv_qty r - drawnBySiblings (px_line x) siblings - px_qty x"

lemma regrant_hold_Inr:
  assumes "regrant_hold newHold now c x siblings i db = Inr ((hold, units), db')"
  obtains (ended) r where "find (held_as (pc_tenant c) i) (holds_in db) = Some r" and "hold = None" and "units = rv_qty r"
      and "db' = with_holds (released_rows c i (holds_in db)) db"
      and "owed r x siblings \<le> 0 \<or> list_ex (\<lambda>q. rv_state q = Held \<and> owner_scope_of q = owner_scope_of r) (released_rows c i (holds_in db)) \<or>
        committedCeiling (ob_iv db') (pc_tenant c) (pc_wh c) (pc_sku c) now <
          reserved_sum (pc_tenant c) (pc_wh c) (pc_sku c) (holds_in db') + owed r x siblings"
  | (again) r where "find (held_as (pc_tenant c) i) (holds_in db) = Some r" and "hold = Some newHold" and "units = rv_qty r - owed r x siblings"
      and "db' = with_holds (released_rows c i (holds_in db) @ [hold_row newHold (regrant_command c (px_line x) (owed r x siblings)) now]) db"
      and "0 < owed r x siblings" and "owed r x siblings \<le> rv_qty r"
      and "owner_scope_of r = command_scope (regrant_command c (px_line x) (owed r x siblings))"
      and "\<not> list_ex (\<lambda>q. rv_state q = Held \<and> owner_scope_of q = owner_scope_of r) (released_rows c i (holds_in db))"
      and "reserved_sum (pc_tenant c) (pc_wh c) (pc_sku c) (holds_in db') \<le> committedCeiling (ob_iv db') (pc_tenant c) (pc_wh c) (pc_sku c) now"
proof -
  obtain released db1 where rel: "in_caller_tx (releaseInTx (pc_tenant c) i) now db = Inr (released, db1)"
    and rest: "(let remainder = rv_qty released - drawnBySiblings (px_line x) siblings - px_qty x in
     if remainder \<le> 0 then Inr ((None, rv_qty released), db1)
     else and_then (in_caller_tx (grantInTx newHold (regrant_command c (px_line x) remainder) released) now db1) (\<lambda>(regranted, db).
       case regranted of
         None \<Rightarrow> Inr ((None, rv_qty released), db)
       | Some r \<Rightarrow> Inr ((Some (rv_id r), rv_qty released - remainder), db))) = Inr ((hold, units), db')"
    using assms by (auto simp: regrant_hold_def)
  obtain r where r: "find (held_as (pc_tenant c) i) (holds_in db) = Some r" "released = r\<lparr>rv_state := Released\<rparr>"
    and db1: "db1 = with_holds (released_rows c i (holds_in db)) db"
    using release_in_tx [OF rel] by (auto simp: released_rows_def)
  have q: "rv_qty released = rv_qty r" using r by simp
  show thesis
  proof (cases "owed r x siblings \<le> 0")
    case True
    with rest show thesis by (intro ended [OF r(1)]) (auto simp: owed_def q db1)
  next
    case False
    let ?c = "regrant_command c (px_line x) (owed r x siblings)"
    obtain y where g: "in_caller_tx (grantInTx newHold ?c released) now db1 = Inr (y, db')"
      and out: "hold = map_option rv_id y" "units = (case y of None \<Rightarrow> rv_qty r | Some _ \<Rightarrow> rv_qty r - owed r x siblings)"
      using rest False unfolding owed_def q Let_def by (cases "in_caller_tx (grantInTx newHold ?c released) now db1")
        (auto simp: owed_def q split: option.splits)
    note spec = grant_in_tx [OF g]
    have scope: "owner_scope_of released = owner_scope_of r" using r(2) by (simp add: owner_scope_of_def)
    show thesis
    proof (cases y)
      case None
      show thesis
      proof (rule ended [OF r(1)])
        show "owed r x siblings \<le> 0 \<or> list_ex (\<lambda>q. rv_state q = Held \<and> owner_scope_of q = owner_scope_of r) (released_rows c i (holds_in db)) \<or>
          committedCeiling (ob_iv db') (pc_tenant c) (pc_wh c) (pc_sku c) now <
            reserved_sum (pc_tenant c) (pc_wh c) (pc_sku c) (holds_in db') + owed r x siblings"
          using spec None scope by (auto simp: db1 with_holds_def regrant_command_def)
      qed (use spec None out in \<open>simp_all add: db1\<close>)
    next
      case (Some row)
      show thesis
      proof (rule again [OF r(1)])
        show "db' = with_holds (released_rows c i (holds_in db) @ [hold_row newHold ?c now]) db"
          using spec Some by (simp add: db1 with_holds_def)
        show "\<not> list_ex (\<lambda>q. rv_state q = Held \<and> owner_scope_of q = owner_scope_of r) (released_rows c i (holds_in db))"
          using spec Some scope by (simp add: db1 with_holds_def)
        show "reserved_sum (pc_tenant c) (pc_wh c) (pc_sku c) (holds_in db') \<le> committedCeiling (ob_iv db') (pc_tenant c) (pc_wh c) (pc_sku c) now"
          using spec Some by (simp add: ceiling_with_holds regrant_command_def hold_row_def reserved_sum_def live_def)
            (simp add: with_holds_def)
      qed (use spec Some scope out q False in \<open>auto simp: regrant_command_def hold_row_def\<close>)
    qed
  qed
qed

lemma insertReplanSlices_Inr:
  assumes "insertReplanSlices newId c p siblings policy hold candidates db = Inr (rows, db')"
  shows "db' = db\<lparr>ob_picks := ob_picks db @ rows\<rparr> \<and>
    rows = (if candidates = [] then [] else replan_rows newId db c p siblings policy hold candidates)"
  using assms by (auto simp: insertReplanSlices_def Let_def split: if_splits)

text \<open>The new slices are of the line's order, wave and list, from stops of the candidates.\<close>

lemma replan_rows_of:
  assumes "r \<in> set (replan_rows newId db c p siblings policy hold candidates)"
  obtains i seq walk y where "y \<in> set candidates" and "r = replan_row c p policy hold (newId i) seq walk y" and "i < length candidates"
proof -
  obtain i where i: "i < length candidates"
    "r = replan_row c p policy hold (newId i) (next_seq siblings + int i) (next_walk db c + int i) (sort_key (\<lambda>r. (rp_code r, rp_bin r, rp_rank r)) candidates ! i)"
    using assms by (auto simp: replan_rows_def enumerate_eq_zip set_zip)
  moreover have "sort_key (\<lambda>r. (rp_code r, rp_bin r, rp_rank r)) candidates ! i \<in> set candidates"
    using i(1) by (metis length_sort nth_mem set_sort)
  ultimately show thesis using that by blast
qed

lemma replan_rows_sum: "sum_list (map sc_qty (replan_rows newId db c p siblings policy hold candidates)) = sum_list (map rp_qty candidates)"
proof -
  have qty: "map (\<lambda>(i, y). rp_qty y) (enumerate n ys) = map rp_qty ys" for n ys
    by (induction ys arbitrary: n) simp_all
  have "map sc_qty (replan_rows newId db c p siblings policy hold candidates) = map (\<lambda>(i, y). rp_qty y) (enumerate 0 (sort_key (\<lambda>r. (rp_code r, rp_bin r, rp_rank r)) candidates))"
    by (simp add: replan_rows_def replan_row_def split_def)
  then show ?thesis unfolding qty by (simp add: sum_where_sort [of "\<lambda>_. True", unfolded sum_where_def, simplified])
qed


text \<open>What settling does to the tables: the journal, the holds of the open siblings, and new slices at the end.\<close>

definition open_sibling :: "pick_command \<Rightarrow> pick_line \<Rightarrow> pick_line \<Rightarrow> bool" where
  "open_sibling c p q = (pl_tenant q = pc_tenant c \<and> sc_line q = sc_line p \<and> sc_status q = ''planned'' \<and> pl_id q \<noteq> pl_id p)"

definition settled_slices :: "pick_command \<Rightarrow> pick_plan \<Rightarrow> settlement \<Rightarrow> pick_line list \<Rightarrow> pick_line list \<Rightarrow> bool" where
  "settled_slices c x s before after = (\<exists>f. after = map f before @ st_rows s \<and> (\<forall>q. repointed (st_hold s) q (f q)) \<and>
     (\<forall>r \<in> set (st_rows s). sc_status r = ''planned'' \<and> sc_shortfall r = 0 \<and> pl_tenant r = pc_tenant c \<and> sc_order r = sc_order (px_line x) \<and>
        sc_line r = sc_line (px_line x) \<and> pl_wave r = pl_wave (px_line x) \<and> pl_picklist r = pc_picklist c \<and> sc_sku r = pc_sku c \<and>
        sc_reservation r = st_hold s) \<and> sum_list (map sc_qty (st_rows s)) \<le> px_shortfall x \<and>
     (st_released s \<longrightarrow> (\<forall>q \<in> set before. open_sibling c (px_line x) q \<longrightarrow> sc_reservation (f q) = st_hold s)))"

lemma shortfall_nonneg: "0 \<le> px_shortfall x"
  by (simp add: px_shortfall_def px_short_def)

lemma settled_slices_none: "st_rows s = [] \<Longrightarrow> \<not> st_released s \<Longrightarrow> settled_slices c x s picks picks"
  unfolding settled_slices_def by (intro exI [of _ id]) (simp add: repointed_def shortfall_nonneg)

lemma repoint_siblings_picks:
  "repoint_siblings c p siblings hold db = db\<lparr>ob_picks := update_where (\<lambda>q. pl_tenant q = pc_tenant c \<and> pl_id q \<in>
     pl_id ` {q \<in> set siblings. sc_status q = ''planned'' \<and> pl_id q \<noteq> pl_id p}) (sc_reservation_update (\<lambda>_. hold)) (ob_picks db)\<rparr>"
  by (simp add: repoint_siblings_def)

lemma settle_pick_frame:
  assumes "settle_pick newHold newSlice now c x db = Inr (s, db')" and "distinct (map pl_id (ob_picks db))"
  shows "\<exists>J picks. db' = (with_holds J db)\<lparr>ob_picks := picks\<rparr> \<and> settled_slices c x s (ob_picks db) picks"
proof (cases "px_short x")
  case False
  then have run: "settle_full now c x db = Inr (s, db')" using assms(1) by (simp add: settle_pick_def)
  then have rows: "st_rows s = []" "\<not> st_released s"
    by (auto simp: settle_full_def nothing_settled_def split: option.splits if_splits)
  have same: "db = (with_holds (holds_in db) db)\<lparr>ob_picks := ob_picks db\<rparr>" by (simp add: with_holds_def)
  have "\<exists>J. db' = with_holds J db"
    using run same by (auto simp: settle_full_def with_holds_def split: option.splits if_splits elim!: commit_in_tx intro: exI [of _ "holds_in db"])
  then obtain J where "db' = (with_holds J db)\<lparr>ob_picks := ob_picks db\<rparr>" by (auto simp: with_holds_def)
  with settled_slices_none [OF rows] show ?thesis by blast
next
  case True
  let ?p = "px_line x"
  let ?siblings = "siblings_of db c ?p"
  have run: "settle_short newHold newSlice now c x db = Inr (s, db')" using assms(1) True by (simp add: settle_pick_def)
  show ?thesis
  proof (cases "sc_reservation ?p")
    case None
    then have "s = nothing_settled" "db' = db" using run by (auto simp: settle_short_def)
    then show ?thesis using settled_slices_none by (intro exI [of _ "holds_in db"] exI [of _ "ob_picks db"]) (simp add: with_holds_def nothing_settled_def)
  next
    case (Some i)
    obtain hold units db1 where reg: "regrant_hold newHold now c x ?siblings i db = Inr ((hold, units), db1)"
      and rest: "(case hold of
            None \<Rightarrow> Inr (nothing_settled\<lparr>st_released := True, st_units := units\<rparr>, repoint_siblings c ?p ?siblings hold db1)
          | Some h \<Rightarrow>
              and_then (insertReplanSlices newSlice c ?p ?siblings (replan_policy (repoint_siblings c ?p ?siblings hold db1) c ?p) (Some h)
                (findReplanSlices (repoint_siblings c ?p ?siblings hold db1) (pick_replan_scope (repoint_siblings c ?p ?siblings hold db1) c x))
                (repoint_siblings c ?p ?siblings hold db1)) (\<lambda>(rows, db).
              Inr (\<lparr>st_committed = False, st_released = True, st_hold = Some h, st_rows = rows, st_units = units\<rparr>, db))) = Inr (s, db')"
      using run Some by (auto simp: settle_short_def Let_def)
    have "\<exists>J. db1 = with_holds J db" by (rule regrant_hold_Inr [OF reg]) auto
    then obtain J where J: "db1 = with_holds J db" by blast
    define P where "P q = (pl_tenant q = pc_tenant c \<and> pl_id q \<in> pl_id ` {q \<in> set ?siblings. sc_status q = ''planned'' \<and> pl_id q \<noteq> pl_id ?p})" for q :: pick_line
    define f where "f q = (if P q \<and> q \<in> set (ob_picks db) then q\<lparr>sc_reservation := hold\<rparr> else q)" for q
    have P: "sc_status q = ''planned''" if "P q" "q \<in> set (ob_picks db)" for q
    proof -
      from that(1) [unfolded P_def] obtain q' where q': "q' \<in> set (ob_picks db)" "sc_status q' = ''planned''" "pl_id q = pl_id q'"
        unfolding siblings_of_def set_filter by blast
      with assms(2) that(2) show ?thesis by (metis eq_key_imp_eq_value distinct_map inj_on_def)
    qed
    have same: "ob_picks (with_holds J db) = ob_picks db" by (simp add: with_holds_def)
    have up: "update_where P (sc_reservation_update (\<lambda>_. hold)) (ob_picks db) = map f (ob_picks db)"
      unfolding update_where_def
    proof (rule map_cong [OF refl])
      fix q assume "q \<in> set (ob_picks db)"
      then show "(if P q then sc_reservation_update (\<lambda>_. hold) q else q) = f q" by (simp add: f_def)
    qed
    have picks: "repoint_siblings c ?p ?siblings hold db1 = (with_holds J db)\<lparr>ob_picks := map f (ob_picks db)\<rparr>"
      unfolding repoint_siblings_picks J same P_def [abs_def, symmetric] up ..
    have open_f: "sc_reservation (f q) = hold" if "q \<in> set (ob_picks db)" "open_sibling c ?p q" for q
      using that by (auto simp: f_def P_def open_sibling_def siblings_of_def)
    have f: "repointed hold q (f q)" for q using P [of q] by (simp add: repointed_def f_def)
    show ?thesis
    proof (cases hold)
      case None
      then have s: "st_hold s = None" "st_rows s = []" "db' = (with_holds J db)\<lparr>ob_picks := map f (ob_picks db)\<rparr>"
        using rest picks by (auto simp: nothing_settled_def)
      moreover have "settled_slices c x s (ob_picks db) (map f (ob_picks db))"
        unfolding settled_slices_def using f open_f None s by (intro exI [of _ f]) (simp add: shortfall_nonneg)
      ultimately show ?thesis by blast
    next
      case (Some h)
      obtain rows db2 where ins: "insertReplanSlices newSlice c ?p ?siblings (replan_policy (repoint_siblings c ?p ?siblings hold db1) c ?p) (Some h)
          (findReplanSlices (repoint_siblings c ?p ?siblings hold db1) (pick_replan_scope (repoint_siblings c ?p ?siblings hold db1) c x))
          (repoint_siblings c ?p ?siblings hold db1) = Inr (rows, db2)"
        and s: "st_hold s = Some h" "st_rows s = rows" "db' = db2"
        using rest Some by (auto split: prod.splits)
      note ins = insertReplanSlices_Inr [OF ins]
      have db': "db' = (with_holds J db)\<lparr>ob_picks := map f (ob_picks db) @ rows\<rparr>" using ins s picks by simp
      have "sc_status r = ''planned'' \<and> sc_shortfall r = 0 \<and> pl_tenant r = pc_tenant c \<and> sc_order r = sc_order ?p \<and>
        sc_line r = sc_line ?p \<and> pl_wave r = pl_wave ?p \<and> pl_picklist r = pc_picklist c \<and> sc_sku r = pc_sku c \<and> sc_reservation r = Some h"
        if "r \<in> set rows" for r
        using ins that by (auto simp: replan_row_def split: if_splits elim!: replan_rows_of)
      moreover have total: "sum_list (map sc_qty rows) \<le> px_shortfall x"
        using ins replan_rows_sum shortfall_nonneg [of x] by (auto simp: replan_sum pick_replan_scope_def Let_def)
      ultimately have "settled_slices c x s (ob_picks db) (map f (ob_picks db) @ rows)"
        unfolding settled_slices_def using f open_f total s Some by (intro exI [of _ f]) simp
      with db' show ?thesis by blast
    qed
  qed
qed

section \<open>The whole pick\<close>

lemma check_pick_Inr:
  assumes "check_pick now role c db = Inr x"
  obtains w b numbers where "check_request c = Inr (px_at x)" and "assertWarehouseInTenant db (pc_tenant c) (pc_wh c) = Inr ()"
    and "pick_target db c = Inr (px_line x, px_list x, w)" and "check_line c (px_line x) (px_list x) w = Inr ()"
    and "check_order db (pc_tenant c) (sc_order (px_line x)) = Inr ()" and "pick_sku db c (px_line x) = Inr (px_sku x)"
    and "pick_quantity c (px_line x) (px_sku x) = Inr (px_qty x)" and "draw_bin db c = Inr b"
    and "blocked_gate c (px_line x) b (px_qty x) (px_at x) = Inr (px_skip x)" and "class_gate role (px_sku x) b (px_skip x) = Inr ()"
    and "tracking_gate (px_sku x) (px_qty x) = Inr ()" and "recall_gate db c (px_sku x) (px_qty x) = Inr ()"
    and "pick_serials c (px_sku x) (px_qty x) = Inr numbers"
    and "resolveSerialRefsInTx db (pc_tenant c) (pc_sku c) numbers = Inr (px_serials x)"
    and "hold_gate db now (pc_tenant c) (px_line x) = Inr ()"
    and "pick_arms db c (px_line x) (px_list x) (px_sku x) (px_at x) (px_qty x) = Inr (px_arms x)" and "px_moved x = epoch_moved db c"
  using assms by (auto simp: check_pick_def)

lemma pick_target_line:
  assumes "pick_target db c = Inr (p, l, w)"
  shows "p \<in> set (ob_picks db)" and "pl_id p = pc_line c" and "pl_tenant p = pc_tenant c" and "l \<in> set (ob_lists db)" and "pt_id l = pl_picklist p"
    and "w \<in> set (ob_waves db)" and "wv_id w = pl_wave p"
proof -
  have first: "(case xs of [] \<Rightarrow> Inl e | x # _ \<Rightarrow> Inr x) = Inr y \<Longrightarrow> y \<in> set xs" for xs :: "'x list" and y and e :: failure
    by (cases xs) auto
  note found = first [OF assms [unfolded pick_target_def]]
  then show "p \<in> set (ob_picks db)" "pl_id p = pc_line c" "pl_tenant p = pc_tenant c" "l \<in> set (ob_lists db)" "pt_id l = pl_picklist p"
    "w \<in> set (ob_waves db)" "wv_id w = pl_wave p" by (auto split: if_splits)
qed

lemma check_line_Inr:
  "(check_line c p l w = Inr ()) = (pl_picklist p = pc_picklist c \<and> pt_wh l = pc_wh c \<and> wv_status w = ''released'' \<and> pt_status l = ''ready'' \<and>
     sc_status p = ''planned'' \<and> sc_bin p \<noteq> None)"
  by (auto simp: check_line_def)

lemma pick_quantity_range:
  assumes "pick_quantity c p k = Inr qty" and "check_request c = Inr ms"
  shows "0 \<le> qty" and "qty \<le> sc_qty p" and "qty < sc_qty p \<Longrightarrow> pc_reason c \<noteq> None"
proof -
  have "0 \<le> fst (pc_qty c)" using assms(2) by (auto simp: check_request_def split: sum.splits)
  moreover obtain q where "assertRecordableQuantity (number_of (pc_qty c)) q = Inr qty" using assms(1) by (auto simp: pick_quantity_def)
  ultimately show "0 \<le> qty"
    by (cases "pc_qty c") (auto simp: assertRecordableQuantity_def number_of_def dest: recordable_sign(2) split: sum.splits)
  show "qty \<le> sc_qty p" "qty < sc_qty p \<Longrightarrow> pc_reason c \<noteq> None" using assms(1) by (auto simp: pick_quantity_def)
qed

lemma resolve_each_length: "resolve_each f ss = Inr is \<Longrightarrow> length is = length ss"
  by (induction ss arbitrary: "is") (auto split: option.splits)

text \<open>The draws of a pick add up to its quantity.\<close>

lemma pick_movements_sum:
  assumes "check_pick now role c db = Inr x"
  shows "sum_list (map m_delta (pick_movements now' c x)) = - px_qty x"
    and "\<forall>m \<in> set (pick_movements now' c x). leaves (pc_tenant c) (pc_wh c) (pc_sku c) (pc_bin c) m \<and> m_type m = ''pick.picked'' \<and>
      m_ref m = pick_reference c x"
    and "px_qty x = 0 \<Longrightarrow> pick_movements now' c x = []"
proof -
  obtain w b numbers where q: "pick_quantity c (px_line x) (px_sku x) = Inr (px_qty x)" "check_request c = Inr (px_at x)"
    and ser: "pick_serials c (px_sku x) (px_qty x) = Inr numbers" "resolveSerialRefsInTx db (pc_tenant c) (pc_sku c) numbers = Inr (px_serials x)"
    and arms: "pick_arms db c (px_line x) (px_list x) (px_sku x) (px_at x) (px_qty x) = Inr (px_arms x)"
    using check_pick_Inr [OF assms] by metis
  have nonneg: "0 \<le> px_qty x" using pick_quantity_range(1) [OF q] .
  note a = pick_arms_Inr [OF arms nonneg]
  have len: "length (px_serials x) = length numbers" using ser(2) unfolding resolveSerialRefsInTx_def by (rule resolve_each_length)
  have serials: "px_serials x \<noteq> [] \<longrightarrow> int (length (px_serials x)) * QUANTITY_SCALE = px_qty x"
    using ser(1) len by (auto simp: pick_serials_def split: if_splits option.splits)
  have pos: "\<forall>(batch, n) \<in> set (px_arms x). 0 \<le> n" using a(2) by force
  show "\<forall>m \<in> set (pick_movements now' c x). leaves (pc_tenant c) (pc_wh c) (pc_sku c) (pc_bin c) m \<and> m_type m = ''pick.picked'' \<and>
      m_ref m = pick_reference c x" by (rule pick_movements_leave [OF pos])
  have "sum_list (map (\<lambda>(batch, n). - n) arms) = - sum_list (map snd arms)" for arms :: "(uuid option \<times> int) list"
    by (induction arms) auto
  then have "sum_list (map m_delta (map (\<lambda>(batch, n). pick_movement now' c x (- n) batch None) (px_arms x))) = - px_qty x"
    using a(1) by (simp add: comp_def split_def pick_movement_def)
  moreover have "sum_list (map m_delta (map (\<lambda>s. pick_movement now' c x (- QUANTITY_SCALE) None (Some s)) ss)) = - (int (length ss) * QUANTITY_SCALE)" for ss
    by (simp add: comp_def pick_movement_def sum_list_triv)
  ultimately show "sum_list (map m_delta (pick_movements now' c x)) = - px_qty x"
    using serials by (simp add: pick_movements_def)
  show "pick_movements now' c x = []" if "px_qty x = 0"
  proof -
    have "px_serials x = []" using serials that by (auto simp: quantity_scale)
    moreover have "px_arms x = []" using arms that by (auto simp: pick_arms_def)
    ultimately show ?thesis by (simp add: pick_movements_def)
  qed
qed

definition flipped_picks :: "pick_command \<Rightarrow> pick_plan \<Rightarrow> outbound_db \<Rightarrow> pick_line list" where
  "flipped_picks c x db = update_where (\<lambda>q. this_line c (px_line x) q \<and> sc_status q = ''planned'') (flipped_line c x) (ob_picks db)"

lemma flipped_ids: "map pl_id (flipped_picks c x db) = map pl_id (ob_picks db)"
  unfolding flipped_picks_def by (rule map_key_update_where) (simp add: flipped_line_def)

lemma write_pick_Inr:
  assumes "write_pick sha newId now c x db = Inr ((sn, units), db')" and "distinct (map pl_id (ob_picks db))"
  obtains led s J picks i where
    "foldM (\<lambda>led (i, m). and_then (appendMovement sha (newId i) led m) (\<lambda>(led', _). Inr led')) (iv_ledger (ob_iv db))
       (enumerate 0 (pick_movements now c x)) = Inr led"
    and "list_ex (\<lambda>q. this_line c (px_line x) q \<and> sc_status q = ''planned'') (ob_picks db)"
    and "settle_pick (newId (length (pick_movements now c x))) (\<lambda>i. newId (length (pick_movements now c x) + 1 + i)) now c x
       (db\<lparr>ob_iv := (ob_iv db)\<lparr>iv_ledger := led\<rparr>, ob_picks := flipped_picks c x db\<rparr>) =
       Inr (s, db\<lparr>ob_iv := (ob_iv db)\<lparr>iv_ledger := led, iv_reservations := J\<rparr>, ob_picks := picks\<rparr>)"
    and "settled_slices c x s (flipped_picks c x db) picks"
    and "sn = snapshot_of i c x s" and "units = st_units s"
    and "px_qty x \<noteq> 0 \<longrightarrow> \<not> list_ex (\<lambda>r. pr_tenant r = pc_tenant c \<and> pr_line r = pl_id (px_line x)) (ob_drawn db)"
    and "db' = note_pick i now c x (db\<lparr>ob_iv := (ob_iv db)\<lparr>iv_ledger := led, iv_reservations := J\<rparr>, ob_picks := picks,
       ob_drawn := ob_drawn db @ (if px_qty x = 0 then [] else [pick_record i c x s])\<rparr>)"
proof -
  let ?ms = "pick_movements now c x"
  obtain db1 db2 s db3 db4 where a: "append_movements sha newId ?ms db = Inr db1" and f: "flip_line c x db1 = Inr db2"
    and st: "settle_pick (newId (length ?ms)) (\<lambda>i. newId (length ?ms + 1 + i)) now c x db2 = Inr (s, db3)"
    and p: "insert_pick (newId (length ?ms + 1 + length (st_rows s))) c x s db3 = Inr db4"
    and out: "sn = snapshot_of (newId (length ?ms + 1 + length (st_rows s))) c x s" "units = st_units s"
      "db' = note_pick (newId (length ?ms + 1 + length (st_rows s))) now c x db4"
    using assms(1) by (auto simp: write_pick_def Let_def)
  obtain led where led: "db1 = db\<lparr>ob_iv := (ob_iv db)\<lparr>iv_ledger := led\<rparr>\<rparr>"
    "foldM (\<lambda>led (i, m). and_then (appendMovement sha (newId i) led m) (\<lambda>(led', _). Inr led')) (iv_ledger (ob_iv db)) (enumerate 0 ?ms) = Inr led"
    by (rule append_movements_Inr [OF a])
  have planned: "list_ex (\<lambda>q. this_line c (px_line x) q \<and> sc_status q = ''planned'') (ob_picks db)"
    and db2: "db2 = db\<lparr>ob_iv := (ob_iv db)\<lparr>iv_ledger := led\<rparr>, ob_picks := flipped_picks c x db\<rparr>"
    using f by (auto simp: flip_line_def Let_def led(1) flipped_picks_def split: if_splits)
  have dist: "distinct (map pl_id (ob_picks db2))" using assms(2) flipped_ids by (simp add: db2)
  obtain J picks where J: "db3 = (with_holds J db2)\<lparr>ob_picks := picks\<rparr>" "settled_slices c x s (ob_picks db2) picks"
    using settle_pick_frame [OF st dist] by blast
  then have db3: "db3 = db\<lparr>ob_iv := (ob_iv db)\<lparr>iv_ledger := led, iv_reservations := J\<rparr>, ob_picks := picks\<rparr>"
    by (simp add: with_holds_def db2)
  show thesis
  proof (rule that [OF led(2) planned])
    show "settle_pick (newId (length ?ms)) (\<lambda>i. newId (length ?ms + 1 + i)) now c x
       (db\<lparr>ob_iv := (ob_iv db)\<lparr>iv_ledger := led\<rparr>, ob_picks := flipped_picks c x db\<rparr>) =
       Inr (s, db\<lparr>ob_iv := (ob_iv db)\<lparr>iv_ledger := led, iv_reservations := J\<rparr>, ob_picks := picks\<rparr>)"
      using st by (simp add: db2 db3)
    show "settled_slices c x s (flipped_picks c x db) picks" using J(2) by (simp add: db2)
  qed (use out p in \<open>auto simp: db3 insert_pick_def split: if_splits\<close>)
qed

lemma pick_in_tx_Inr:
  assumes "pick_in_tx hash sha newId now c key db = Inr ((answer, units), db')"
  obtains (again) r where "r \<in> set (ob_keys db)" and "ik_tenant r = pc_tenant c" and "ik_key r = key" and "answer = ik_response r" and "units = 0" and "db' = db"
  | (fresh) role x sn db1 where "active_device db c = Inr ()" and "getMemberRoleIn db (pc_tenant c) (pc_operator c) = Inr role" and "may_pick role"
      and "check_pick now role c db = Inr x" and "write_pick sha newId now c x db = Inr ((sn, units), db1)" and "answer = PickAnswer sn"
      and "db' = db1\<lparr>ob_keys := ob_keys db1 @ [\<lparr>ik_tenant = pc_tenant c, ik_key = key, ik_hash = hash (pick_payload c), ik_response = answer\<rparr>]\<rparr>"
      and "\<not> list_ex (\<lambda>r. ik_tenant r = pc_tenant c \<and> ik_key r = key) (ob_keys db1)"
proof -
  obtain role stored where pre: "active_device db c = Inr ()" "getMemberRoleIn db (pc_tenant c) (pc_operator c) = Inr role" "may_pick role"
    and rep: "replay db (pc_tenant c) key (hash (pick_payload c)) = Inr stored"
    and rest: "(case stored of
       Some response \<Rightarrow> Inr ((response, 0), db)
     | None \<Rightarrow>
         and_then (check_pick now role c db) (\<lambda>x.
         and_then (write_pick sha newId now c x db) (\<lambda>((snapshot, units), db).
         and_then (writeIdempotencyKey (pc_tenant c) key (hash (pick_payload c)) (PickAnswer snapshot) db) (\<lambda>(response, db).
         Inr ((response, units), db))))) = Inr ((answer, units), db')"
    using assms by (auto simp: pick_in_tx_def)
  show thesis
  proof (cases stored)
    case (Some response)
    then obtain r where "find (\<lambda>r. ik_tenant r = pc_tenant c \<and> ik_key r = key) (ob_keys db) = Some r" "response = ik_response r"
      using rep by (auto simp: replay_def split: option.splits if_splits)
    with rest Some show thesis by (intro again [of r]) (auto dest: find_SomeD)
  next
    case None
    then show thesis using rest pre by (auto dest!: writeIdempotencyKey_result intro!: fresh)
  qed
qed

text \<open>Where the line of a pick goes: it keeps everything but its status, its shortfall and its reason.\<close>

lemma settled_slices_old:
  assumes "settled_slices c x s before after" and "q \<in> set before"
  shows "\<exists>q' \<in> set after. repointed (st_hold s) q q'"
  using assms by (auto simp: settled_slices_def)

lemma settled_slices_new:
  assumes "settled_slices c x s before after" and "q' \<in> set after"
  obtains (old) q where "q \<in> set before" and "repointed (st_hold s) q q'" | (new) "q' \<in> set (st_rows s)"
  using assms by (auto simp: settled_slices_def)

lemma repointed_keeps:
  "repointed hold q q' \<Longrightarrow> pl_id q' = pl_id q \<and> pl_tenant q' = pl_tenant q \<and> sc_status q' = sc_status q \<and> sc_qty q' = sc_qty q \<and>
     sc_shortfall q' = sc_shortfall q \<and> sc_order q' = sc_order q \<and> sc_line q' = sc_line q \<and> pl_wave q' = pl_wave q \<and> pl_reason q' = pl_reason q \<and>
     sc_sku q' = sc_sku q \<and> sc_bin q' = sc_bin q \<and> pl_picklist q' = pl_picklist q"
  by (auto simp: repointed_def)

lemma replan_row_ids: "map pl_id (replan_rows newId db c p siblings policy hold candidates) = map newId [0..<length candidates]"
proof -
  have ids: "map (\<lambda>(i, y). newId i) (enumerate n ys) = map newId [n..<n + length ys]" for n and ys :: "replan_slice list"
    by (induction ys arbitrary: n) (simp_all add: upt_rec)
  show ?thesis using ids [of 0 "sort_key (\<lambda>r. (rp_code r, rp_bin r, rp_rank r)) candidates"]
    by (simp add: replan_rows_def replan_row_def comp_def split_def)
qed

lemma settle_rows_ids:
  assumes "settle_pick newHold newSlice now c x db = Inr (s, db')"
  shows "map pl_id (st_rows s) = map newSlice [0..<length (st_rows s)]"
proof -
  define numbered where "numbered rows = (map pl_id rows = map newSlice [0..<length rows])" for rows :: "pick_line list"
  have rows: "numbered (replan_rows newSlice db c p siblings policy hold candidates)" for db p siblings policy hold candidates
    using replan_row_ids [of newSlice db c p siblings policy hold candidates] by (metis numbered_def length_map length_upt diff_zero)
  have none: "numbered []" by (simp add: numbered_def)
  have "numbered (st_rows s)"
    using assms rows none
    by (auto simp: settle_pick_def settle_short_def settle_full_def nothing_settled_def Let_def
        split: if_splits option.splits prod.splits dest!: insertReplanSlices_Inr)
  then show ?thesis by (simp add: numbered_def)
qed

text \<open>The lines of the new tables: those of the old, the pick's one flipped, and new planned slices.\<close>

lemma written_line:
  assumes "settled_slices c x s (flipped_picks c x db) picks" and "q' \<in> set picks"
  obtains (other) q where "q \<in> set (ob_picks db)" and "\<not> (this_line c (px_line x) q \<and> sc_status q = ''planned'')" and "repointed (st_hold s) q q'"
  | (flipped) q where "q \<in> set (ob_picks db)" and "this_line c (px_line x) q" and "sc_status q = ''planned''"
      and "repointed (st_hold s) (flipped_line c x q) q'"
  | (new) "q' \<in> set (st_rows s)"
proof -
  from settled_slices_new [OF assms] consider (old) q where "q \<in> set (flipped_picks c x db)" "repointed (st_hold s) q q'" | (new) "q' \<in> set (st_rows s)"
    by metis
  then show thesis
  proof cases
    case (old q)
    then obtain q0 where "q0 \<in> set (ob_picks db)" "q = (if this_line c (px_line x) q0 \<and> sc_status q0 = ''planned'' then flipped_line c x q0 else q0)"
      by (auto simp: flipped_picks_def set_update_where)
    with old(2) other flipped show thesis by (metis (full_types))
  qed (rule that(3))
qed
lemma repointed_drawn: "repointed hold q q' \<Longrightarrow> drawn_of q' = drawn_of q"
  by (auto simp: repointed_def drawn_of_def)

section \<open>The journal under a pick\<close>

lemma settle_short_Inr:
  assumes "settle_pick newHold newSlice now c x db = Inr (s, db')" and "px_short x" and "sc_reservation (px_line x) = Some i"
  obtains db1 where "regrant_hold newHold now c x (siblings_of db c (px_line x)) i db = Inr ((st_hold s, st_units s), db1)"
    and "st_released s" and "holds_in db' = holds_in db1"
  using assms
  by (auto simp: settle_pick_def settle_short_def nothing_settled_def Let_def repoint_siblings_def
      split: option.splits prod.splits dest!: insertReplanSlices_Inr)

lemma settled_row:
  assumes "journal_ok rows" and "find (held_as t i) rows = Some r" and "st = Released \<or> st = Committed"
  defines "rows' \<equiv> update_where (held_as t i) (rv_state_update (\<lambda>_. st)) rows"
  shows "journal_ok rows'" and "evolves rows rows'" and "rv_id ` set rows' = rv_id ` set rows"
    and "sum_of sc rows' = sum_of sc rows - (if st = Released \<and> sc = scope_of r then rv_qty r else 0)"
    and "r \<in> set rows" and "held_as t i r" and "row_ok r"
proof -
  have held: "held_as t i = (\<lambda>r. rv_id r = i \<and> rv_tenant r = t \<and> rv_state r = Held)" by (intro ext) (simp add: held_as_def)
  have dist: "distinct (map rv_id rows)" using assms(1) by (simp add: journal_ok_def)
  obtain xs ys where r: "rows = xs @ r # ys" "held_as t i r" "rows' = xs @ r\<lparr>rv_state := st\<rparr> # ys"
    using update_one [OF dist assms(2) [unfolded held], of "rv_state_update (\<lambda>_. st)"] by (auto simp: rows'_def held)
  show "r \<in> set rows" "held_as t i r" using r by simp_all
  show ok: "row_ok r" using assms(1) r(1) by (simp add: journal_ok_def)
  show "journal_ok rows'"
    unfolding r(3) by (rule journal_ok_replace [of xs r ys]) (use assms(1,3) r ok in \<open>auto simp: owner_scope_of_def row_ok_def\<close>)
  show "evolves rows rows'"
    unfolding rows'_def by (rule evolves_update) (use assms(3) in \<open>auto simp: row_step_def owner_scope_of_def state_step_def held_as_def\<close>)
  show "rv_id ` set rows' = rv_id ` set rows" unfolding r(1,3) by simp
  show "sum_of sc rows' = sum_of sc rows - (if st = Released \<and> sc = scope_of r then rv_qty r else 0)"
    unfolding r(1,3) sum_of_replace using r(2) assms(3) by (auto simp: live_def held_as_def scope_of_def)
qed

text \<open>
  What settling does to the journal: its rows evolve, and every scope keeps the units it held but those the
  pick gives back, all of them of the pick's own scope.
\<close>

lemma settle_pick_journal:
  assumes "settle_pick newHold newSlice now c x db = Inr (s, db')" and "journal_ok (holds_in db)" and "newHold \<notin> rv_id ` set (holds_in db)"
    and "\<And>i r. sc_reservation (px_line x) = Some i \<Longrightarrow> r \<in> set (holds_in db) \<Longrightarrow> held_as (pc_tenant c) i r \<Longrightarrow> rv_wh r = pc_wh c \<and> rv_sku r = pc_sku c"
  shows "journal_ok (holds_in db') \<and> evolves (holds_in db) (holds_in db') \<and> 0 \<le> st_units s \<and>
    (\<forall>sc. sum_of sc (holds_in db') + only (pc_tenant c, pc_wh c, pc_sku c) (st_units s) sc = sum_of sc (holds_in db))"
proof (cases "\<exists>i. sc_reservation (px_line x) = Some i \<and> px_short x")
  case False
  then consider "db' = db" "st_units s = 0"
    | i r where "sc_reservation (px_line x) = Some i" "in_caller_tx (commitInTx (pc_tenant c) i) now db = Inr (r, db')" "st_units s = 0"
    using assms(1) by (auto simp: settle_pick_def settle_short_def settle_full_def nothing_settled_def split: if_splits option.splits)
  then show ?thesis
  proof cases
    case 1
    with assms(2) evolves_refl show ?thesis by (simp add: only_def)
  next
    case 2
    obtain r0 where r0: "find (held_as (pc_tenant c) i) (holds_in db) = Some r0"
      "db' = with_holds (update_where (held_as (pc_tenant c) i) (rv_state_update (\<lambda>_. Committed)) (holds_in db)) db"
      by (rule commit_in_tx [OF 2(2)])
    note row = settled_row [OF assms(2) r0(1), of Committed]
    show ?thesis using row 2(3) by (simp add: r0(2) with_holds_def only_def)
  qed
next
  case True
  then obtain i where i: "sc_reservation (px_line x) = Some i" "px_short x" by blast
  let ?siblings = "siblings_of db c (px_line x)"
  obtain db1 where reg: "regrant_hold newHold now c x ?siblings i db = Inr ((st_hold s, st_units s), db1)"
    and after: "holds_in db' = holds_in db1"
    by (rule settle_short_Inr [OF assms(1) i(2,1)])
  show ?thesis
    using reg
  proof (cases rule: regrant_hold_Inr)
    case (ended r)
    note row = settled_row [OF assms(2) ended(1), of Released]
    have sc: "scope_of r = (pc_tenant c, pc_wh c, pc_sku c)" using assms(4) [OF i(1)] row(5,6) by (auto simp: scope_of_def held_as_def)
    have "holds_in db' = released_rows c i (holds_in db)" "st_units s = rv_qty r" using ended after by (simp_all add: with_holds_def)
    then show ?thesis using row sc by (auto simp: released_rows_def only_def row_ok_def)
  next
    case (again r)
    note row = settled_row [OF assms(2) again(1), of Released]
    let ?c = "regrant_command c (px_line x) (owed r x ?siblings)"
    have scope: "owner_scope_of (hold_row newHold ?c now) = owner_scope_of r"
      using again(7) by (simp add: owner_scope_of_def hold_row_def command_scope_def)
    have sc: "scope_of r = (pc_tenant c, pc_wh c, pc_sku c)" using assms(4) [OF i(1)] row(5,6) by (auto simp: scope_of_def held_as_def)
    have new: "scope_of (hold_row newHold ?c now) = (pc_tenant c, pc_wh c, pc_sku c)" "live (hold_row newHold ?c now)"
      "rv_qty (hold_row newHold ?c now) = owed r x ?siblings" "rv_id (hold_row newHold ?c now) = newHold"
      by (simp_all add: scope_of_def hold_row_def regrant_command_def live_def)
    have ok: "row_ok (hold_row newHold ?c now)"
      using row(7) scope again(5) by (auto simp: row_ok_def owner_scope_of_def hold_row_def regrant_command_def ttl_of_def)
    have rows: "holds_in db' = released_rows c i (holds_in db) @ [hold_row newHold ?c now]" "st_units s = rv_qty r - owed r x ?siblings"
      using again after by (simp_all add: with_holds_def)
    have "journal_ok (holds_in db')"
      unfolding rows(1) using row(1,3) assms(3) again(8) scope new(4) ok
      by (intro journal_ok_insert) (simp_all add: released_rows_def)
    moreover have "evolves (holds_in db) (holds_in db')"
      unfolding rows(1) using evolves_trans [OF row(2) evolves_append] by (simp add: released_rows_def)
    moreover have "sum_of z (holds_in db') + only (pc_tenant c, pc_wh c, pc_sku c) (st_units s) z = sum_of z (holds_in db)" for z
      unfolding rows sum_of_snoc using row(4) [of z] sc new by (auto simp: released_rows_def only_def)
    ultimately show ?thesis using again(6) rows(2) by simp
  qed
qed

end
