(* ===== verification/PickDemo.thy ===== *)
theory PickDemo
  imports PickLemmas
begin

text \<open>
  Two picks evaluated: on a floor with one order line in three slices, the first slice is picked short, then
  the second. Each run is composed from the evaluation of its steps; the hash is constant.
\<close>

section \<open>The floor\<close>


text \<open>
  The floor: 10 units of a SKU reserved for one order line, planned as slices of 4, 3 and 3 in the bins A, B
  and C, which hold 1, 3 and 3 units; 3 more are in a bin D of another storage class.
\<close>

abbreviation demo_t :: uuid where "demo_t \<equiv> demo_id CHR ''a''"
abbreviation demo_w :: uuid where "demo_w \<equiv> demo_id CHR ''b''"
abbreviation demo_s :: uuid where "demo_s \<equiv> demo_id CHR ''c''"

definition shelf :: "string \<Rightarrow> pick_bin" where
  "shelf i = \<lparr>bn_id = i, bn_tenant = demo_t, bn_wh = demo_w, bn_code = i, bn_system = False, bn_blocked = False,
     pk_class = ''ambient'', pk_retired = None, pk_reason = None, pk_blocked_at = None, pk_blocked_by = None\<rparr>"

definition shelf_line :: "string \<Rightarrow> string \<Rightarrow> int \<Rightarrow> int \<Rightarrow> uuid option \<Rightarrow> pick_line" where
  "shelf_line i b n k hold = \<lparr>sc_order = ''o'', sc_line = ''l'', sc_sku = demo_s, sc_reservation = hold, sc_bin = Some b,
     sc_code = Some b, sc_batch = None, sc_qty = n, sc_shortfall = 0, sc_seq = k, sc_status = ''planned'', sc_rule = Some ''fefo'',
     sc_min_days = None, sc_partner = None, sc_days = None, sc_percent = None, sc_base = None, sc_cause = None,
     pl_tenant = demo_t, pl_picklist = ''q'', pl_wave = ''v'', pl_walk = k, pl_id = i, pl_reason = None\<rparr>"

definition shelf_stock :: "string \<Rightarrow> int \<Rightarrow> stock_row" where
  "shelf_stock b n = \<lparr>so_tenant = demo_t, so_wh = demo_w, so_sku = demo_s, so_bin = b, so_qty = n\<rparr>"

definition shelf_hold :: "uuid \<Rightarrow> int \<Rightarrow> reservation_row" where
  "shelf_hold i n = \<lparr>rv_id = i, rv_tenant = demo_t, rv_wh = demo_w, rv_sku = demo_s, rv_owner_type = ''order'', rv_owner = ''l'', rv_qty = n,
     rv_state = Held, rv_expires = Some 1000000\<rparr>"

definition floor_sku :: sku_facts where
  "floor_sku = \<lparr>sk_tenant = demo_t, sk_id = demo_s, sk_client = ''c'', sf_class = ''ambient'', sf_shelf = None, sf_tracked = False,
       sf_serial = False, sf_catch = False, sf_uom = ''each''\<rparr>"

definition floor_list :: picklist_row where
  "floor_list = \<lparr>pt_id = ''q'', pt_tenant = demo_t, pt_wh = demo_w, pt_wave = ''v'', pt_order = None, pt_status = ''ready'', pt_created = 0\<rparr>"

definition floor0 :: outbound_db where
  "floor0 = \<lparr>
     ob_iv = \<lparr>iv_ledger = \<lparr>db_events = [], db_stock = [shelf_stock ''A'' 1000, shelf_stock ''B'' 3000, shelf_stock ''C'' 3000, shelf_stock ''D'' 3000], db_batches = [],
        db_epochs = [], db_freezes = [], db_skus = [\<lparr>sk_tenant = demo_t, sk_id = demo_s, sk_client = ''c''\<rparr>]\<rparr>, iv_bins = [], iv_quarantines = [],
        iv_lots = [], iv_clients = [], iv_reservations = [shelf_hold (demo_id CHR ''f'') 10000]\<rparr>,
     ob_bins = [shelf ''A'', shelf ''B'', shelf ''C'', (shelf ''D'')\<lparr>pk_class := ''hazmat''\<rparr>], ob_intakes = [], ob_skus = [floor_sku],
     ob_users = [\<lparr>us_id = ''u'', us_tenant = demo_t, us_role = ''operator''\<rparr>], ob_warehouses = [\<lparr>wr_tenant = demo_t, wr_id = demo_w\<rparr>],
     ob_orders = [\<lparr>or_id = ''o'', or_tenant = demo_t, or_wh = demo_w, or_client = ''c'', or_status = ''accepted'', or_priority = ''normal'', or_ship = None,
       or_created = 0, or_gstin = None\<rparr>],
     ob_lines = [], ob_partners = [], ob_links = [], ob_policies = [],
     ob_waves = [\<lparr>wv_id = ''v'', wv_tenant = demo_t, wv_wh = demo_w, wv_policy = ''p'', wv_status = ''released'', wv_alerted = None\<rparr>],
     ob_lists = [floor_list],
     ob_picks = [shelf_line ''a'' ''A'' 4000 0 (Some (demo_id CHR ''f'')), shelf_line ''b'' ''B'' 3000 1 (Some (demo_id CHR ''f'')),
        shelf_line ''c'' ''C'' 3000 2 (Some (demo_id CHR ''f''))],
     ob_keys = [], ob_outbox = [], ob_audit = [],
     ob_devices = [\<lparr>dv_id = ''d'', dv_tenant = demo_t, dv_status = ''active'', dv_pin = Some ''x'', dv_seen = None\<rparr>],
     ob_serials = [], ob_recalls = [], ob_recall_lines = [], ob_drawn = []\<rparr>"

definition shelf_pick :: "string \<Rightarrow> string \<Rightarrow> int \<Rightarrow> string option \<Rightarrow> pick_command" where
  "shelf_pick i b n r = \<lparr>pc_tenant = demo_t, pc_device = ''d'', pc_operator = ''u'', pc_wh = demo_w, pc_picklist = ''q'', pc_line = i,
     pc_sku = demo_s, pc_bin = b, pc_qty = (n, 0), pc_occurred = ''1970-01-01T00:00:01Z'', pc_serials = None, pc_epoch = None, pc_reason = r\<rparr>"

definition shelf_ids :: "nat \<Rightarrow> nat \<Rightarrow> uuid" where
  "shelf_ids k i = (if i < 8 then demo_id (char_of (k + i)) else replicate (40 + i) CHR ''x'')"

lemma demo_id_simps [simp]: "length (demo_id c) = 36" "(demo_id c = demo_id d) = (c = d)" "demo_id c \<noteq> [a]"
  by (simp_all add: demo_id_def)

lemma shelf_ids_inj: "k < 240 \<Longrightarrow> inj (shelf_ids k)"
proof (rule injI)
  fix i j
  assume k: "k < 240" and eq: "shelf_ids k i = shelf_ids k j"
  have "length (shelf_ids k n) = (if n < 8 then 36 else 40 + n)" for n by (simp add: shelf_ids_def)
  then have "(if i < 8 then 36 else 40 + i) = (if j < 8 then 36 else 40 + j)" using eq by metis
  moreover have "k + i = k + j" if "i < 8" "j < 8"
  proof -
    have "char_of (k + i) = (char_of (k + j) :: char)" using eq that by (simp add: shelf_ids_def)
    then have "of_char (char_of (k + i) :: char) = (of_char (char_of (k + j) :: char) :: nat)" by simp
    then show ?thesis using k that by simp
  qed
  ultimately show "i = j" by (auto split: if_splits)
qed

lemma shelf_ids_other: "k + 8 \<le> of_char c \<Longrightarrow> k < 240 \<Longrightarrow> shelf_ids k i \<noteq> demo_id c"
proof
  assume k: "k + 8 \<le> of_char c" "k < 240" and eq: "shelf_ids k i = demo_id c"
  have "length (shelf_ids k i) = 36" using eq by simp
  then have i: "i < 8" by (simp add: shelf_ids_def split: if_splits)
  then have "char_of (k + i) = c" using eq by (simp add: shelf_ids_def)
  then have "of_char c = (of_char (char_of (k + i) :: char) :: nat)" by simp
  with k i show False by simp
qed

lemma shelf_ids_not_short: "length x < 36 \<Longrightarrow> shelf_ids k i \<noteq> x"
  by (auto simp: shelf_ids_def)

text \<open>A plan that draws \<open>n\<close> milli-units for a line.\<close>

definition plan_of :: "pick_line \<Rightarrow> int \<Rightarrow> pick_plan" where
  "plan_of p n = \<lparr>px_line = p, px_list = floor_list, px_sku = floor_sku, px_at = 1000, px_qty = n, px_skip = False,
     px_serials = [], px_arms = (if n = 0 then [] else [(None, n)]), px_moved = False\<rparr>"

section \<open>Appending under a constant hash\<close>

definition append_plain :: "string \<Rightarrow> uuid \<Rightarrow> ledger_db \<Rightarrow> movement \<Rightarrow> (ledger_db \<times> appended) result" where
  "append_plain hash newId db m =
     and_then (check_grammar m) (\<lambda>_.
     and_then (assertNotFrozen db m) (\<lambda>db.
     and_then (assertSerialArmLegal db m) (\<lambda>_.
     (case find (\<lambda>r. sk_tenant r = m_tenant m \<and> sk_id r = m_sku m) (db_skus db) of
        None \<Rightarrow> Inl (Thrown ''unknown-sku'')
      | Some sku \<Rightarrow>
          (let head = ledger_head db (m_tenant m) (m_wh m);
               seq = (case head of None \<Rightarrow> 0 | Some h \<Rightarrow> ev_seq h) + 1;
               prev = (case head of None \<Rightarrow> GENESIS_PREV_HASH | Some h \<Rightarrow> ev_hash h);
               ce = movement_event newId seq prev m
           in and_then (canonicalInstant (ev_occurred ce)) (\<lambda>_. and_then (canonicalInstant (ev_recorded ce)) (\<lambda>_.
                and_then (project_movement m
                 (db\<lparr>db_events := db_events db @ [canonical_event.extend ce \<lparr>ev_client = sk_client sku, ev_hash = hash\<rparr>]\<rparr>))
                (\<lambda>(db, touched).
                  Inr (db, \<lparr>ap_id = newId, ap_seq = seq, ap_hash = hash, ap_prev = prev, ap_touched = touched\<rparr>)))))))))"

lemma append_plain: "appendMovement (\<lambda>_. h) = append_plain h"
  by (intro ext) (auto simp: appendMovement_def append_plain_def eventHashOf_def canonicalEventBytes_def Let_def and_then_def split: sum.splits option.splits)

definition append_plains :: "(nat \<Rightarrow> uuid) \<Rightarrow> movement list \<Rightarrow> ledger_db \<Rightarrow> ledger_db result" where
  "append_plains newId ms led =
      (foldM (\<lambda>led (i, m). and_then (append_plain ''x'' (newId i) led m) (\<lambda>(led', _). Inr led')) led (enumerate 0 ms))"

lemma append_plains: "append_movements (\<lambda>_. ''x'') newId ms db =
    and_then (append_plains newId ms (iv_ledger (ob_iv db))) (\<lambda>led. Inr (db\<lparr>ob_iv := (ob_iv db)\<lparr>iv_ledger := led\<rparr>\<rparr>))"
  by (simp add: append_movements_def append_plains_def append_plain)


section \<open>Running a pick step by step\<close>

lemma pick_runs:
  assumes "active_device db c = Inr ()" and "getMemberRoleIn db (pc_tenant c) (pc_operator c) = Inr role" and "may_pick role"
    and "\<not> list_ex (\<lambda>r. ik_tenant r = pc_tenant c \<and> ik_key r = key) (ob_keys db)" and "check_pick now role c db = Inr x"
    and "append_movements sha newId (pick_movements now c x) db = Inr db1" and "flip_line c x db1 = Inr db2"
    and "settle_pick (newId (length (pick_movements now c x))) (\<lambda>i. newId (length (pick_movements now c x) + 1 + i)) now c x db2 = Inr (s, db3)"
    and "insert_pick (newId (length (pick_movements now c x) + 1 + length (st_rows s))) c x s db3 = Inr db4" and "ob_keys db4 = ob_keys db"
    and "i = newId (length (pick_movements now c x) + 1 + length (st_rows s))"
  shows "pick_in_tx hash sha newId now c key db = Inr ((PickAnswer (snapshot_of i c x s), st_units s),
    (note_pick i now c x db4)\<lparr>ob_keys := ob_keys db @ [\<lparr>ik_tenant = pc_tenant c, ik_key = key, ik_hash = hash (pick_payload c), ik_response = PickAnswer (snapshot_of i c x s)\<rparr>]\<rparr>)"
proof -
  have "replay db (pc_tenant c) key h = Inr None" for h
    using assms(4) by (auto simp: replay_def list_ex_iff split: option.splits dest: find_SomeD)
  moreover have "ob_keys (note_pick i now c x db4) = ob_keys db" using assms(10) by (simp add: note_pick_def Let_def)
  ultimately show ?thesis
    using assms by (simp add: pick_in_tx_def write_pick_def Let_def writeIdempotencyKey_def)
qed

section \<open>The first slice, one unit of four\<close>

definition first_pick :: pick_command where "first_pick = shelf_pick ''a'' ''A'' 1 (Some ''fewer-units-than-planned'')"
definition first_plan :: pick_plan where "first_plan = plan_of (shelf_line ''a'' ''A'' 4000 0 (Some (demo_id CHR ''f''))) 1000"

definition first_ledger :: ledger_db where
  "first_ledger = \<lparr>db_events = [canonical_event.extend (movement_event (shelf_ids 48 0) 1 GENESIS_PREV_HASH (hd (pick_movements 1000 first_pick first_plan)))
       \<lparr>ev_client = ''c'', ev_hash = ''x''\<rparr>],
     db_stock = [shelf_stock ''A'' 0, shelf_stock ''B'' 3000, shelf_stock ''C'' 3000, shelf_stock ''D'' 3000], db_batches = [],
     db_epochs = [\<lparr>ep_tenant = demo_t, ep_wh = demo_w, ep_bin = ''A'', ep_epoch = 1\<rparr>], db_freezes = [],
     db_skus = [\<lparr>sk_tenant = demo_t, sk_id = demo_s, sk_client = ''c''\<rparr>]\<rparr>"

definition first_flipped :: outbound_db where
  "first_flipped = floor0\<lparr>ob_iv := (ob_iv floor0)\<lparr>iv_ledger := first_ledger\<rparr>,
     ob_picks := [flipped_line first_pick first_plan (shelf_line ''a'' ''A'' 4000 0 (Some (demo_id CHR ''f''))),
       shelf_line ''b'' ''B'' 3000 1 (Some (demo_id CHR ''f'')), shelf_line ''c'' ''C'' 3000 2 (Some (demo_id CHR ''f''))]\<rparr>"

definition first_settlement :: settlement where
  "first_settlement = \<lparr>st_committed = False, st_released = True, st_hold = Some (demo_id CHR ''1''), st_rows = [], st_units = 1000\<rparr>"

definition first_settled :: outbound_db where
  "first_settled = first_flipped\<lparr>ob_iv := (ob_iv first_flipped)\<lparr>iv_reservations := [(shelf_hold (demo_id CHR ''f'') 10000)\<lparr>rv_state := Released\<rparr>,
       (shelf_hold (demo_id CHR ''1'') 9000)\<lparr>rv_expires := Some 604801000\<rparr>]\<rparr>,
     ob_picks := [flipped_line first_pick first_plan (shelf_line ''a'' ''A'' 4000 0 (Some (demo_id CHR ''f''))),
       shelf_line ''b'' ''B'' 3000 1 (Some (demo_id CHR ''1'')), shelf_line ''c'' ''C'' 3000 2 (Some (demo_id CHR ''1''))]\<rparr>"

definition first_answer :: pick_snapshot where
  "first_answer = snapshot_of (demo_id CHR ''2'') first_pick first_plan first_settlement"

definition floor1 :: outbound_db where
  "floor1 = (note_pick (demo_id CHR ''2'') 1000 first_pick first_plan
       (first_settled\<lparr>ob_drawn := [pick_record (demo_id CHR ''2'') first_pick first_plan first_settlement]\<rparr>))
     \<lparr>ob_keys := [\<lparr>ik_tenant = demo_t, ik_key = ''1'', ik_hash = ''h'', ik_response = PickAnswer first_answer\<rparr>]\<rparr>"

lemma first_check: "check_pick 1000 ''operator'' first_pick floor0 = Inr first_plan"
  by code_simp

lemma first_append: "append_plains (shelf_ids 48) (pick_movements 1000 first_pick first_plan) (iv_ledger (ob_iv floor0)) = Inr first_ledger"
  by code_simp

lemma first_flip: "flip_line first_pick first_plan (floor0\<lparr>ob_iv := (ob_iv floor0)\<lparr>iv_ledger := first_ledger\<rparr>\<rparr>) = Inr first_flipped"
  by code_simp

lemma first_settle: "settle_pick (shelf_ids 48 1) (\<lambda>i. shelf_ids 48 (2 + i)) 1000 first_pick first_plan first_flipped = Inr (first_settlement, first_settled)"
  by code_simp

lemma first_run: "pick_in_tx (\<lambda>_. ''h'') (\<lambda>_. ''x'') (shelf_ids 48) 1000 first_pick ''1'' floor0 = Inr ((PickAnswer first_answer, 1000), floor1)"
proof -
  have n: "length (pick_movements 1000 first_pick first_plan) = 1" by (simp add: pick_movements_def first_plan_def plan_of_def)
  have ids: "demo_id CHR ''2'' = shelf_ids 48 (length (pick_movements 1000 first_pick first_plan) + 1 + length (st_rows first_settlement))"
    unfolding n by code_simp
  have ins: "insert_pick (shelf_ids 48 (length (pick_movements 1000 first_pick first_plan) + 1 + length (st_rows first_settlement))) first_pick first_plan first_settlement first_settled =
      Inr (first_settled\<lparr>ob_drawn := [pick_record (demo_id CHR ''2'') first_pick first_plan first_settlement]\<rparr>)"
    unfolding ids [symmetric] by (simp add: insert_pick_def first_plan_def plan_of_def first_settled_def first_flipped_def floor0_def)
  have "pick_in_tx (\<lambda>_. ''h'') (\<lambda>_. ''x'') (shelf_ids 48) 1000 first_pick ''1'' floor0 =
      Inr ((PickAnswer (snapshot_of (demo_id CHR ''2'') first_pick first_plan first_settlement), st_units first_settlement),
        (note_pick (demo_id CHR ''2'') 1000 first_pick first_plan (first_settled\<lparr>ob_drawn := [pick_record (demo_id CHR ''2'') first_pick first_plan first_settlement]\<rparr>))
        \<lparr>ob_keys := ob_keys floor0 @ [\<lparr>ik_tenant = pc_tenant first_pick, ik_key = ''1'', ik_hash = ''h'',
          ik_response = PickAnswer (snapshot_of (demo_id CHR ''2'') first_pick first_plan first_settlement)\<rparr>]\<rparr>)"
  proof (rule pick_runs [where newId = "shelf_ids 48" and now = 1000 and c = first_pick and x = first_plan and s = first_settlement and db = floor0,
        OF _ _ _ _ first_check _ first_flip _ ins])
    show "append_movements (\<lambda>_. ''x'') (shelf_ids 48) (pick_movements 1000 first_pick first_plan) floor0 =
        Inr (floor0\<lparr>ob_iv := (ob_iv floor0)\<lparr>iv_ledger := first_ledger\<rparr>\<rparr>)"
      unfolding append_plains first_append by simp
    show "settle_pick (shelf_ids 48 (length (pick_movements 1000 first_pick first_plan)))
       (\<lambda>i. shelf_ids 48 (length (pick_movements 1000 first_pick first_plan) + 1 + i)) 1000 first_pick first_plan first_flipped =
      Inr (first_settlement, first_settled)"
      unfolding n using first_settle by simp
  qed (simp_all add: active_device_def getMemberRoleIn_def may_pick_def first_pick_def shelf_pick_def floor0_def first_settled_def first_flipped_def ids)
  then show ?thesis
    by (simp add: floor1_def first_answer_def first_settlement_def floor0_def first_pick_def shelf_pick_def)
qed

section \<open>Then the second slice, nothing of three\<close>

definition second_pick :: pick_command where "second_pick = shelf_pick ''b'' ''B'' 0 (Some ''fewer-units-than-planned'')"
definition second_plan :: pick_plan where "second_plan = plan_of (shelf_line ''b'' ''B'' 3000 1 (Some (demo_id CHR ''1''))) 0"

definition second_flipped :: outbound_db where
  "second_flipped = floor1\<lparr>
     ob_picks := [flipped_line first_pick first_plan (shelf_line ''a'' ''A'' 4000 0 (Some (demo_id CHR ''f''))),
       flipped_line second_pick second_plan (shelf_line ''b'' ''B'' 3000 1 (Some (demo_id CHR ''1''))),
       shelf_line ''c'' ''C'' 3000 2 (Some (demo_id CHR ''1''))]\<rparr>"

definition second_settlement :: settlement where
  "second_settlement = \<lparr>st_committed = False, st_released = True, st_hold = Some (demo_id CHR ''8''), st_rows = [], st_units = 1000\<rparr>"

definition second_settled :: outbound_db where
  "second_settled = second_flipped\<lparr>ob_iv := (ob_iv second_flipped)\<lparr>iv_reservations := [(shelf_hold (demo_id CHR ''f'') 10000)\<lparr>rv_state := Released\<rparr>,
       (shelf_hold (demo_id CHR ''1'') 9000)\<lparr>rv_state := Released, rv_expires := Some 604801000\<rparr>,
       (shelf_hold (demo_id CHR ''8'') 8000)\<lparr>rv_expires := Some 604801000\<rparr>]\<rparr>,
     ob_picks := [flipped_line first_pick first_plan (shelf_line ''a'' ''A'' 4000 0 (Some (demo_id CHR ''f''))),
       flipped_line second_pick second_plan (shelf_line ''b'' ''B'' 3000 1 (Some (demo_id CHR ''1''))),
       shelf_line ''c'' ''C'' 3000 2 (Some (demo_id CHR ''8''))]\<rparr>"

definition second_answer :: pick_snapshot where
  "second_answer = snapshot_of (demo_id CHR ''9'') second_pick second_plan second_settlement"

definition floor2 :: outbound_db where
  "floor2 = (note_pick (demo_id CHR ''9'') 1000 second_pick second_plan second_settled)
     \<lparr>ob_keys := ob_keys floor1 @ [\<lparr>ik_tenant = demo_t, ik_key = ''2'', ik_hash = ''h'', ik_response = PickAnswer second_answer\<rparr>]\<rparr>"

lemma second_check: "check_pick 1000 ''operator'' second_pick floor1 = Inr second_plan"
  by code_simp

lemma second_flip: "flip_line second_pick second_plan floor1 = Inr second_flipped"
  by code_simp

lemma second_settle: "settle_pick (shelf_ids 56 0) (\<lambda>i. shelf_ids 56 (1 + i)) 1000 second_pick second_plan second_flipped = Inr (second_settlement, second_settled)"
  by code_simp

lemmas floor_simps = floor1_def floor0_def first_settled_def first_flipped_def second_settled_def second_flipped_def note_pick_def Let_def

lemma second_run: "pick_in_tx (\<lambda>_. ''h'') (\<lambda>_. ''x'') (shelf_ids 56) 1000 second_pick ''2'' floor1 = Inr ((PickAnswer second_answer, 1000), floor2)"
proof -
  have ms: "pick_movements 1000 second_pick second_plan = []" by (simp add: pick_movements_def second_plan_def plan_of_def)
  have ids: "demo_id CHR ''9'' = shelf_ids 56 (length (pick_movements 1000 second_pick second_plan) + 1 + length (st_rows second_settlement))"
    unfolding ms by code_simp
  have ins: "insert_pick (shelf_ids 56 (length (pick_movements 1000 second_pick second_plan) + 1 + length (st_rows second_settlement))) second_pick second_plan second_settlement second_settled =
      Inr second_settled"
    by (simp add: insert_pick_def second_plan_def plan_of_def)
  have "pick_in_tx (\<lambda>_. ''h'') (\<lambda>_. ''x'') (shelf_ids 56) 1000 second_pick ''2'' floor1 =
      Inr ((PickAnswer (snapshot_of (demo_id CHR ''9'') second_pick second_plan second_settlement), st_units second_settlement),
        (note_pick (demo_id CHR ''9'') 1000 second_pick second_plan second_settled)
        \<lparr>ob_keys := ob_keys floor1 @ [\<lparr>ik_tenant = pc_tenant second_pick, ik_key = ''2'', ik_hash = ''h'',
          ik_response = PickAnswer (snapshot_of (demo_id CHR ''9'') second_pick second_plan second_settlement)\<rparr>]\<rparr>)"
  proof (rule pick_runs [where newId = "shelf_ids 56" and now = 1000 and c = second_pick and x = second_plan and s = second_settlement and db = floor1,
        OF _ _ _ _ second_check _ second_flip _ ins])
    show "append_movements (\<lambda>_. ''x'') (shelf_ids 56) (pick_movements 1000 second_pick second_plan) floor1 = Inr floor1"
      unfolding ms by (simp add: append_movements_def)
    show "settle_pick (shelf_ids 56 (length (pick_movements 1000 second_pick second_plan)))
       (\<lambda>i. shelf_ids 56 (length (pick_movements 1000 second_pick second_plan) + 1 + i)) 1000 second_pick second_plan second_flipped =
      Inr (second_settlement, second_settled)"
      unfolding ms using second_settle by simp
  qed (simp_all add: active_device_def getMemberRoleIn_def may_pick_def second_pick_def first_pick_def shelf_pick_def floor_simps ids)
  then show ?thesis
    by (simp add: floor2_def second_answer_def second_settlement_def second_pick_def shelf_pick_def)
qed

end
