(* ===== verification/PickProperties.thy ===== *)
theory PickProperties
  imports PickDemo
begin

text \<open>
  What a pick guarantees: it draws exactly its quantity from its bin, once per planned line, only stock the
  line's gates admit, and it leaves the planner's tables as a step of the floor.
\<close>

section \<open>The draw\<close>

abbreviation in_bin :: "outbound_db \<Rightarrow> scope_key \<Rightarrow> int" where
  "in_bin db k \<equiv> stocked (iv_ledger (ob_iv db)) k"

abbreviation drawn_scope :: "pick_command \<Rightarrow> scope_key" where
  "drawn_scope c \<equiv> (pc_tenant c, pc_wh c, pc_sku c, pc_bin c)"

definition key_unused :: "outbound_db \<Rightarrow> pick_command \<Rightarrow> string \<Rightarrow> bool" where
  "key_unused db c key = (\<not> list_ex (\<lambda>r. ik_tenant r = pc_tenant c \<and> ik_key r = key) (ob_keys db))"

text \<open>A draw of the pick among the events.\<close>

definition drawn_by :: "pick_command \<Rightarrow> ledger_event \<Rightarrow> bool" where
  "drawn_by c e = (ev_type e = ''pick.picked'' \<and> ev_tenant e = pc_tenant c \<and> ev_wh e = pc_wh c \<and> ev_sku e = pc_sku c \<and>
     ev_from e = Some (pc_bin c) \<and> ev_to e = None)"

lemma fresh_pick:
  assumes "pick_in_tx hash sha newId now c key db = Inr ((PickAnswer sn, units), db')" and "key_unused db c key"
  obtains role x db1 where "active_device db c = Inr ()" and "getMemberRoleIn db (pc_tenant c) (pc_operator c) = Inr role" and "may_pick role"
    and "check_pick now role c db = Inr x" and "write_pick sha newId now c x db = Inr ((sn, units), db1)"
    and "db' = db1\<lparr>ob_keys := ob_keys db1 @ [\<lparr>ik_tenant = pc_tenant c, ik_key = key, ik_hash = hash (pick_payload c), ik_response = PickAnswer sn\<rparr>]\<rparr>"
  using assms(1)
proof (cases rule: pick_in_tx_Inr)
  case (again r)
  with assms(2) show thesis by (auto simp: key_unused_def list_ex_iff)
next
  case (fresh role x sn' db1)
  then show thesis using that by auto
qed

lemma draw_events_sum:
  "draw_events ms es \<Longrightarrow> sum_list (map ev_delta es) = sum_list (map m_delta ms)"
  "draw_events ms es \<Longrightarrow> \<forall>m \<in> set ms. leaves (pc_tenant c) (pc_wh c) (pc_sku c) (pc_bin c) m \<and> m_type m = ''pick.picked'' \<and> m_ref m = ref \<Longrightarrow>
     list_all (drawn_by c) es"
  unfolding draw_events_def by (induction rule: list_all2_induct) (auto simp: drawn_by_def leaves_def)

lemma draw_events_member: "draw_events ms es \<Longrightarrow> e \<in> set es \<Longrightarrow> \<exists>m \<in> set ms. ev_batch e = m_batch m \<and> ev_delta e = m_delta m"
  unfolding draw_events_def by (induction rule: list_all2_induct) auto

lemma flipped_drawn:
  assumes "check_pick now role c db = Inr x"
  shows "drawn_of (flipped_line c x (px_line x)) = px_qty x" and "sc_shortfall (flipped_line c x (px_line x)) = sc_qty (px_line x) - px_qty x"
    and "0 \<le> px_qty x" and "px_qty x \<le> sc_qty (px_line x)" and "sc_status (flipped_line c x (px_line x)) = (if px_short x then ''short'' else ''picked'')"
proof -
  obtain w b numbers where q: "pick_quantity c (px_line x) (px_sku x) = Inr (px_qty x)" "check_request c = Inr (px_at x)"
    using check_pick_Inr [OF assms] by metis
  note r = pick_quantity_range(1,2) [OF q]
  show "0 \<le> px_qty x" "px_qty x \<le> sc_qty (px_line x)" by (fact r)+
  show "drawn_of (flipped_line c x (px_line x)) = px_qty x" "sc_shortfall (flipped_line c x (px_line x)) = sc_qty (px_line x) - px_qty x"
    "sc_status (flipped_line c x (px_line x)) = (if px_short x then ''short'' else ''picked'')"
    using r by (auto simp: flipped_line_def drawn_of_def px_short_def px_shortfall_def)
qed

text \<open>The line a pick answers for, before and after.\<close>

lemma picked_line:
  assumes "check_pick now role c db = Inr x" and "write_pick sha newId now c x db = Inr ((sn, units), db1)"
    and "distinct (map pl_id (ob_picks db))"
  shows "px_line x \<in> set (ob_picks db)" and "pl_id (px_line x) = pc_line c" and "pl_tenant (px_line x) = pc_tenant c"
    and "sc_status (px_line x) = ''planned''"
    and "\<exists>q \<in> set (ob_picks db1). pl_id q = pc_line c \<and> sc_qty q = sc_qty (px_line x) \<and> sc_status q = (if px_short x then ''short'' else ''picked'') \<and>
      drawn_of q = px_qty x \<and> sc_shortfall q = sc_qty (px_line x) - px_qty x"
proof -
  obtain w where t: "pick_target db c = Inr (px_line x, px_list x, w)" and l: "check_line c (px_line x) (px_list x) w = Inr ()"
    using check_pick_Inr [OF assms(1)] by metis
  note line = pick_target_line [OF t]
  show in_db: "px_line x \<in> set (ob_picks db)" and ids: "pl_id (px_line x) = pc_line c" "pl_tenant (px_line x) = pc_tenant c" by (fact line)+
  show planned: "sc_status (px_line x) = ''planned''" using l by (simp add: check_line_Inr)
  obtain s J picks i led where sl: "settled_slices c x s (flipped_picks c x db) picks"
    and db1: "db1 = note_pick i now c x (db\<lparr>ob_iv := (ob_iv db)\<lparr>iv_ledger := led, iv_reservations := J\<rparr>, ob_picks := picks,
       ob_drawn := ob_drawn db @ (if px_qty x = 0 then [] else [pick_record i c x s])\<rparr>)"
    by (rule write_pick_Inr [OF assms(2,3)])
  have "flipped_line c x (px_line x) \<in> set (flipped_picks c x db)"
    using in_db ids planned by (auto simp: flipped_picks_def set_update_where this_line_def image_iff intro!: bexI [of _ "px_line x"])
  then obtain q where q: "q \<in> set picks" "repointed (st_hold s) (flipped_line c x (px_line x)) q" using settled_slices_old [OF sl] by blast
  have "drawn_of q = drawn_of (flipped_line c x (px_line x))" by (rule repointed_drawn [OF q(2)])
  with q repointed_keeps [OF q(2)] flipped_drawn [OF assms(1)] ids
  show "\<exists>q \<in> set (ob_picks db1). pl_id q = pc_line c \<and> sc_qty q = sc_qty (px_line x) \<and> sc_status q = (if px_short x then ''short'' else ''picked'') \<and>
      drawn_of q = px_qty x \<and> sc_shortfall q = sc_qty (px_line x) - px_qty x"
    unfolding db1 by (intro bexI [of _ q]) (auto simp: note_pick_def Let_def flipped_line_def)
qed

text \<open>
  C6. A pick that is not a replay draws exactly the units it answers with: the stock of its SKU in its bin
  falls by them and was enough, no other stock changes, the appended events are draws from that bin whose
  deltas add up to them, and the line they were planned on, until then open, records them and the rest as its
  shortfall.
\<close>

theorem pick_draws_exactly:
  assumes "pick_in_tx hash sha newId now c key db = Inr ((PickAnswer sn, units), db')" and "key_unused db c key"
    and "distinct (map pl_id (ob_picks db))"
  shows "0 \<le> sn_qty sn \<and> (0 < sn_qty sn \<longrightarrow> sn_qty sn \<le> in_bin db (drawn_scope c)) \<and>
    (\<forall>k. in_bin db' k = in_bin db k - (if k = drawn_scope c then sn_qty sn else 0)) \<and>
    (\<exists>es. db_events (iv_ledger (ob_iv db')) = db_events (iv_ledger (ob_iv db)) @ es \<and> list_all (drawn_by c) es \<and>
       sum_list (map ev_delta es) = - sn_qty sn) \<and>
    (\<exists>p \<in> set (ob_picks db). pl_id p = pc_line c \<and> sc_status p = ''planned'' \<and>
       (\<exists>q \<in> set (ob_picks db'). pl_id q = pc_line c \<and> sc_qty q = sc_qty p \<and> sc_status q = sn_status sn \<and> drawn_of q = sn_qty sn \<and>
          sc_shortfall q = sc_qty p - sn_qty sn))"
proof -
  obtain role x db1 where check: "check_pick now role c db = Inr x" and wr: "write_pick sha newId now c x db = Inr ((sn, units), db1)"
    and db': "db' = db1\<lparr>ob_keys := ob_keys db1 @ [\<lparr>ik_tenant = pc_tenant c, ik_key = key, ik_hash = hash (pick_payload c), ik_response = PickAnswer sn\<rparr>]\<rparr>"
    by (rule fresh_pick [OF assms(1,2)])
  obtain led s J picks i where draws: "foldM (\<lambda>led (i, m). and_then (appendMovement sha (newId i) led m) (\<lambda>(led', _). Inr led')) (iv_ledger (ob_iv db))
       (enumerate 0 (pick_movements now c x)) = Inr led" and sn: "sn = snapshot_of i c x s"
    and db1: "db1 = note_pick i now c x (db\<lparr>ob_iv := (ob_iv db)\<lparr>iv_ledger := led, iv_reservations := J\<rparr>, ob_picks := picks,
       ob_drawn := ob_drawn db @ (if px_qty x = 0 then [] else [pick_record i c x s])\<rparr>)"
    by (rule write_pick_Inr [OF wr assms(3)])
  have led': "iv_ledger (ob_iv db') = led" by (simp add: db' db1 note_pick_def Let_def)
  have qty: "sn_qty sn = px_qty x" "sn_status sn = (if px_short x then ''short'' else ''picked'')" by (simp_all add: sn snapshot_of_def Let_def)
  note ms = pick_movements_sum [OF check, of now]
  have leave: "\<forall>m \<in> set (pick_movements now c x). leaves (pc_tenant c) (pc_wh c) (pc_sku c) (pc_bin c) m" using ms(2) by blast
  note fold = foldM_draws [OF draws leave]
  have stock: "stocked led k = in_bin db k - (if k = drawn_scope c then px_qty x else 0)" for k
  proof -
    have "stocked led k = in_bin db k + (if k = drawn_scope c then sum_list (map m_delta (pick_movements now c x)) else 0)" using fold by blast
    then show ?thesis unfolding ms(1) by simp
  qed
  have "px_qty x \<le> in_bin db (drawn_scope c)" if "0 < px_qty x"
  proof -
    have "pick_movements now c x \<noteq> []" using ms(1) that by force
    then have "0 \<le> stocked led (drawn_scope c)" using fold by blast
    then show ?thesis using stock [of "drawn_scope c"] by simp
  qed
  moreover obtain es where "db_events led = db_events (iv_ledger (ob_iv db)) @ es" "draw_events (pick_movements now c x) es" using fold by blast
  moreover note draw_events_sum(1) [OF this(2)] draw_events_sum(2) [OF this(2) ms(2)]
  moreover note line = picked_line [OF check wr assms(3)] and flipped_drawn(3) [OF check]
  moreover have "set (ob_picks db') = set (ob_picks db1)" by (simp add: db')
  moreover have "\<forall>k. stocked led k = in_bin db k - (if k = drawn_scope c then px_qty x else 0)" using stock by blast
  ultimately show ?thesis unfolding led' qty ms(1) by (intro conjI) (blast | simp)+
qed


theorem pick_draws_exactly_witness:
  "sn_qty first_answer = 1000 \<and> in_bin floor0 (drawn_scope first_pick) = 1000 \<and> in_bin floor1 (drawn_scope first_pick) = 0"
proof -
  have qty: "sn_qty first_answer = 1000" by (simp add: first_answer_def snapshot_of_def first_plan_def plan_of_def Let_def)
  have before: "in_bin floor0 (drawn_scope first_pick) = 1000" by code_simp
  have "in_bin floor1 (drawn_scope first_pick) = in_bin floor0 (drawn_scope first_pick) - sn_qty first_answer"
    using pick_draws_exactly [OF first_run] by (simp add: key_unused_def floor0_def shelf_line_def)
  with qty before show ?thesis by simp
qed

section \<open>Lines, picks and the ledger\<close>

text \<open>
  The books of the floor: ids of lines are unique, a line has one pick at most, which records what the line
  has drawn, and the picks of a bin add up to the pick events that left it.
\<close>

definition recorded_for :: "outbound_db \<Rightarrow> pick_line \<Rightarrow> int" where
  "recorded_for db q = sum_where (\<lambda>r. pr_tenant r = pl_tenant q \<and> pr_line r = pl_id q) pr_qty (ob_drawn db)"

definition pick_scope :: "pick_row \<Rightarrow> scope_key" where
  "pick_scope r = (pr_tenant r, pr_wh r, pr_sku r, pr_bin r)"

definition drawn_from :: "scope_key \<Rightarrow> ledger_event \<Rightarrow> bool" where
  "drawn_from k e = (ev_type e = ''pick.picked'' \<and> (\<exists>b. ev_from e = Some b \<and> k = (ev_tenant e, ev_wh e, ev_sku e, b)))"

definition books :: "outbound_db \<Rightarrow> bool" where
  "books db = (distinct (map pl_id (ob_picks db)) \<and> distinct (map (\<lambda>r. (pr_tenant r, pr_line r)) (ob_drawn db)) \<and>
     (\<forall>r \<in> set (ob_drawn db). pr_line r \<in> pl_id ` set (ob_picks db)) \<and>
     (\<forall>q \<in> set (ob_picks db). recorded_for db q = drawn_of q) \<and>
     (\<forall>k. sum_where (drawn_from k) (\<lambda>e. - ev_delta e) (db_events (iv_ledger (ob_iv db))) = sum_where (\<lambda>r. pick_scope r = k) pr_qty (ob_drawn db)))"

lemma drawn_by_scope: "list_all (drawn_by c) es \<Longrightarrow>
   sum_where (drawn_from k) (\<lambda>e. - ev_delta e) es = (if k = drawn_scope c then - sum_list (map ev_delta es) else 0)"
  by (induction es) (auto simp: drawn_by_def drawn_from_def)

lemma recorded_for_none: "pl_id q \<notin> pr_line ` set (ob_drawn db) \<Longrightarrow> recorded_for db q = 0"
  unfolding recorded_for_def by (rule sum_where_none) (metis image_eqI)

text \<open>
  C7. A pick keeps the books: what a line says it has drawn is what its one pick row records, and the pick
  rows of every bin add up to the pick events of the ledger, whatever was short, re-planned or skipped.
\<close>

theorem picks_keep_the_books:
  assumes "pick_in_tx hash sha newId now c key db = Inr ((answer, units), db')" and "books db"
    and "inj newId" and "\<And>i. newId i \<notin> pl_id ` set (ob_picks db)"
  shows "books db'"
  using assms(1)
proof (cases rule: pick_in_tx_Inr)
  case (again r)
  with assms(2) show ?thesis by simp
next
  case (fresh role x sn db1)
  have dist: "distinct (map pl_id (ob_picks db))" using assms(2) by (simp add: books_def)
  obtain led s J picks i where draws: "foldM (\<lambda>led (i, m). and_then (appendMovement sha (newId i) led m) (\<lambda>(led', _). Inr led')) (iv_ledger (ob_iv db))
       (enumerate 0 (pick_movements now c x)) = Inr led"
    and settled: "settle_pick (newId (length (pick_movements now c x))) (\<lambda>i. newId (length (pick_movements now c x) + 1 + i)) now c x
       (db\<lparr>ob_iv := (ob_iv db)\<lparr>iv_ledger := led\<rparr>, ob_picks := flipped_picks c x db\<rparr>) =
       Inr (s, db\<lparr>ob_iv := (ob_iv db)\<lparr>iv_ledger := led, iv_reservations := J\<rparr>, ob_picks := picks\<rparr>)"
    and sl: "settled_slices c x s (flipped_picks c x db) picks"
    and once: "px_qty x \<noteq> 0 \<longrightarrow> \<not> list_ex (\<lambda>r. pr_tenant r = pc_tenant c \<and> pr_line r = pl_id (px_line x)) (ob_drawn db)"
    and db1: "db1 = note_pick i now c x (db\<lparr>ob_iv := (ob_iv db)\<lparr>iv_ledger := led, iv_reservations := J\<rparr>, ob_picks := picks,
       ob_drawn := ob_drawn db @ (if px_qty x = 0 then [] else [pick_record i c x s])\<rparr>)"
    by (rule write_pick_Inr [OF fresh(5) dist])
  let ?new = "if px_qty x = 0 then [] else [pick_record i c x s]"
  have tables: "ob_picks db' = picks" "ob_drawn db' = ob_drawn db @ ?new" "iv_ledger (ob_iv db') = led"
    using fresh(7) by (simp_all add: db1 note_pick_def Let_def)
  have row: "pr_line (pick_record i c x s) = pl_id (px_line x)" "pr_tenant (pick_record i c x s) = pc_tenant c" "pr_qty (pick_record i c x s) = px_qty x"
    "pick_scope (pick_record i c x s) = drawn_scope c"
    by (simp_all add: pick_record_def Let_def pick_scope_def)
  note line = picked_line(1-4) [OF fresh(4,5) dist]
  obtain f where f: "picks = map f (flipped_picks c x db) @ st_rows s" "\<forall>q. repointed (st_hold s) q (f q)"
    and planned: "\<forall>r \<in> set (st_rows s). sc_status r = ''planned''"
    using sl by (auto simp: settled_slices_def)
  have slices: "map pl_id (st_rows s) = map (\<lambda>i. newId (length (pick_movements now c x) + 1 + i)) [0..<length (st_rows s)]"
    by (rule settle_rows_ids [OF settled])
  have ids: "map pl_id picks = map pl_id (ob_picks db) @ map pl_id (st_rows s)"
  proof -
    have "pl_id (f q) = pl_id q" for q using repointed_keeps f(2) by blast
    then show ?thesis using f(1) flipped_ids [of c x db] by (simp add: comp_def)
  qed
  have "distinct (map pl_id picks)"
  proof -
    have "distinct (map (\<lambda>i. newId (length (pick_movements now c x) + 1 + i)) [0..<length (st_rows s)])"
      by (simp add: distinct_map inj_on_def inj_eq [OF assms(3)])
    moreover have "newId j \<notin> set (map pl_id (ob_picks db))" for j using assms(4) [of j] by (simp only: set_map simp_thms)
    then have "set (map pl_id (ob_picks db)) \<inter> range newId = {}" by blast
    moreover have "set (map (\<lambda>i. newId (length (pick_movements now c x) + 1 + i)) [0..<length (st_rows s)]) \<subseteq> range newId" by auto
    ultimately show ?thesis unfolding ids slices distinct_append using dist by (intro conjI) (assumption | blast)+
  qed
  moreover have fresh_slices: "pl_id r \<notin> pl_id ` set (ob_picks db)" if "r \<in> set (st_rows s)" for r
  proof -
    have "pl_id r \<in> set (map pl_id (st_rows s))" using that by simp
    then obtain j where "pl_id r = newId j" unfolding slices by auto
    with assms(4) [of j] show ?thesis by simp
  qed
  have lines: "pr_line r \<in> pl_id ` set (ob_picks db)" if "r \<in> set (ob_drawn db @ ?new)" for r
    using that assms(2) line(1) row(1) by (auto simp: books_def split: if_splits)
  moreover have "distinct (map (\<lambda>r. (pr_tenant r, pr_line r)) (ob_drawn db @ ?new))"
    using assms(2) once row by (auto simp: books_def list_ex_iff image_iff split: if_splits)
  moreover have "recorded_for db' q' = drawn_of q'" if "q' \<in> set picks" for q'
  proof -
    have one: "q = px_line x" if "q \<in> set (ob_picks db)" "pl_id q = pl_id (px_line x)" for q
      using dist that line(1) by (auto simp: distinct_map inj_on_def)
    have rec: "recorded_for db' q' = recorded_for db q' + (if pl_tenant q' = pc_tenant c \<and> pl_id q' = pl_id (px_line x) then px_qty x else 0)"
      using row by (auto simp: recorded_for_def tables(2))
    have kept: "recorded_for db q' = recorded_for db q" if "repointed (st_hold s) q q'" for q
      using repointed_keeps [OF that] by (simp add: recorded_for_def)
    from sl \<open>q' \<in> set picks\<close> show ?thesis
    proof (cases rule: written_line)
      case (other q)
      then have "drawn_of q' = drawn_of q" "pl_id q' = pl_id q" "pl_tenant q' = pl_tenant q" using repointed_keeps [OF other(3)] repointed_drawn [OF other(3)] by simp_all
      moreover have "\<not> (pl_tenant q = pc_tenant c \<and> pl_id q = pl_id (px_line x))"
        using other(2) one [OF other(1)] line(4) by (auto simp: this_line_def)
      ultimately show ?thesis using rec kept [OF other(3)] other(1) assms(2) by (auto simp: books_def)
    next
      case (flipped q)
      then have q: "q = px_line x" using one by (simp add: this_line_def)
      have "drawn_of q' = px_qty x" using repointed_drawn [OF flipped(4)] flipped_drawn(1) [OF fresh(4)] by (simp add: q)
      moreover have "pl_id q' = pl_id (px_line x)" "pl_tenant q' = pc_tenant c"
        using repointed_keeps [OF flipped(4)] line(3) by (simp_all add: q flipped_line_def)
      moreover have "recorded_for db q' = drawn_of (px_line x)"
        using repointed_keeps [OF flipped(4)] assms(2) line(1) by (auto simp: books_def recorded_for_def flipped_line_def q)
      ultimately show ?thesis using rec line(4) by (simp add: drawn_of_def)
    next
      case new
      then have q': "pl_id q' \<notin> pl_id ` set (ob_picks db)" "drawn_of q' = 0" using fresh_slices planned by (auto simp: drawn_of_def)
      have "pl_id q' \<notin> pr_line ` set (ob_drawn db)" using q'(1) lines by force
      moreover have "pl_id q' \<noteq> pl_id (px_line x)" using q'(1) line(1) by blast
      ultimately show ?thesis using rec recorded_for_none q'(2) by simp
    qed
  qed
  moreover have "sum_where (drawn_from k) (\<lambda>e. - ev_delta e) (db_events led) = sum_where (\<lambda>r. pick_scope r = k) pr_qty (ob_drawn db @ ?new)" for k
  proof -
    note ms = pick_movements_sum [OF fresh(4), of now]
    have leave: "\<forall>m \<in> set (pick_movements now c x). leaves (pc_tenant c) (pc_wh c) (pc_sku c) (pc_bin c) m" using ms(2) by blast
    obtain es where es: "db_events led = db_events (iv_ledger (ob_iv db)) @ es" "draw_events (pick_movements now c x) es"
      using foldM_draws [OF draws leave] by blast
    have "sum_where (drawn_from k) (\<lambda>e. - ev_delta e) es = (if k = drawn_scope c then px_qty x else 0)"
      unfolding drawn_by_scope [OF draw_events_sum(2) [OF es(2) ms(2)]] draw_events_sum(1) [OF es(2)] ms(1) by simp
    moreover have "sum_where (drawn_from k) (\<lambda>e. - ev_delta e) (db_events (iv_ledger (ob_iv db))) = sum_where (\<lambda>r. pick_scope r = k) pr_qty (ob_drawn db)"
      using assms(2) unfolding books_def by blast
    ultimately show ?thesis using row by (simp add: es(1))
  qed
  moreover have "\<forall>r \<in> set (ob_drawn db @ ?new). pr_line r \<in> pl_id ` set picks"
  proof
    fix r assume "r \<in> set (ob_drawn db @ ?new)"
    then have "pr_line r \<in> set (map pl_id picks)" unfolding ids using lines by simp
    then show "pr_line r \<in> pl_id ` set picks" by simp
  qed
  ultimately show ?thesis unfolding books_def tables by blast
qed


lemma floor0_books: "books floor0"
proof -
  have "recorded_for floor0 q = drawn_of q" if "q \<in> set (ob_picks floor0)" for q
    using that by (auto simp: floor0_def recorded_for_def shelf_line_def drawn_of_def)
  then show ?thesis by (simp add: books_def floor0_def shelf_line_def)
qed

theorem picks_keep_the_books_witness: "books floor1 \<and> map pr_qty (ob_drawn floor1) = [1000]"
proof -
  have "shelf_ids 48 i \<notin> pl_id ` set (ob_picks floor0)" for i
    using shelf_ids_not_short by (auto simp: floor0_def shelf_line_def)
  then have "books floor1" using picks_keep_the_books [OF first_run floor0_books] shelf_ids_inj [of 48] by simp
  moreover have "map pr_qty (ob_drawn floor1) = [1000]"
    by (simp add: floor_simps pick_record_def first_plan_def plan_of_def)
  ultimately show ?thesis by simp
qed

section \<open>The planner's view\<close>

text \<open>
  C13. To the planner a pick is a step of the floor: every open pick line after it continues, or was cut from,
  an open line of the same order in the same wave; so an order stays on one wave, and picks may come between
  the planner's requests in any of its histories.
\<close>

theorem pick_is_a_floor_step:
  assumes "history_ok db" and "distinct (map pl_id (ob_picks db))"
    and "pick_in_tx hash sha newId now c key db = Inr ((answer, units), db')"
  shows "floor_step db db' \<and> history_ok db' \<and> (wave_history h db \<longrightarrow> wave_history h db')"
proof -
  note ok = assms(1)
  have "floor_step db db'"
    using assms(3)
  proof (cases rule: pick_in_tx_Inr)
    case (again r)
    with ok show ?thesis by (auto simp: floor_step_def history_ok_def)
  next
    case (fresh role x sn db1)
    note line = picked_line(1-4) [OF fresh(4,5) assms(2)]
    obtain led s J picks i where sl: "settled_slices c x s (flipped_picks c x db) picks"
      and db1: "db1 = note_pick i now c x (db\<lparr>ob_iv := (ob_iv db)\<lparr>iv_ledger := led, iv_reservations := J\<rparr>, ob_picks := picks,
         ob_drawn := ob_drawn db @ (if px_qty x = 0 then [] else [pick_record i c x s])\<rparr>)"
      by (rule write_pick_Inr [OF fresh(5) assms(2)])
    have tables: "ob_picks db' = picks" "ob_orders db' = ob_orders db" "ob_lines db' = ob_lines db"
      using fresh(7) by (simp_all add: db1 note_pick_def Let_def)
    have "\<exists>q \<in> set (ob_picks db). open_pick q \<and> pl_tenant q = pl_tenant p \<and> sc_order q = sc_order p \<and> pl_wave q = pl_wave p"
      if "p \<in> set picks" "open_pick p" for p
      using sl that(1)
    proof (cases rule: written_line)
      case (other q)
      then show ?thesis using repointed_keeps [OF other(3)] that(2) by (intro bexI [of _ q]) (auto simp: open_pick_def)
    next
      case (flipped q)
      then show ?thesis using repointed_keeps [OF flipped(4)] by (intro bexI [of _ q]) (auto simp: open_pick_def flipped_line_def)
    next
      case new
      then have "pl_tenant p = pc_tenant c" "sc_order p = sc_order (px_line x)" "pl_wave p = pl_wave (px_line x)"
        using sl by (auto simp: settled_slices_def)
      with line show ?thesis by (intro bexI [of _ "px_line x"]) (auto simp: open_pick_def)
    qed
    then show ?thesis using ok by (auto simp: floor_step_def history_ok_def outbound_ok_def tables)
  qed
  then show ?thesis using history_ok_floor [OF ok] wave_history.floor by blast
qed

theorem pick_is_a_floor_step_witness: "floor_step floor0 floor1 \<and> one_wave floor1"
proof -
  have "one_wave floor0" by (simp add: one_wave_def floor0_def shelf_line_def)
  then have "history_ok floor0" by (simp add: history_ok_def outbound_ok_def floor0_def)
  from pick_is_a_floor_step [OF this _ first_run] show ?thesis by (simp add: floor0_def shelf_line_def history_ok_def)
qed

section \<open>The gates\<close>

text \<open>A batch the pick may draw: on hand in the bin, under no open live recall, and allocatable at the pick's instant.\<close>

definition pickable_batch :: "outbound_db \<Rightarrow> pick_command \<Rightarrow> pick_line \<Rightarrow> picklist_row \<Rightarrow> millis \<Rightarrow> uuid \<Rightarrow> int \<Rightarrow> bool" where
  "pickable_batch db c p l ms batch n =
     (list_ex (\<lambda>r. ba_batch r = batch \<and> n \<le> ba_qty r) (bin_batches db c) \<and> openLiveRecallLinesForBatchesInTx db (pc_tenant c) [batch] = [] \<and>
      pick_allocatable (getBatchIntakesForSkusInTx (ob_intakes db) (pc_tenant c) [pc_sku c]) p l ms batch)"

text \<open>The bin, the hold and the documents a pick finds.\<close>

definition floor_open :: "outbound_db \<Rightarrow> pick_command \<Rightarrow> pick_line \<Rightarrow> picklist_row \<Rightarrow> bool" where
  "floor_open db c p l = (sc_status p = ''planned'' \<and> pt_id l = pl_picklist p \<and> pt_wh l = pc_wh c \<and> pt_status l = ''ready'' \<and>
     list_ex (\<lambda>w. wv_id w = pl_wave p \<and> wv_status w = ''released'') (ob_waves db) \<and>
     list_ex (\<lambda>r. or_id r = sc_order p \<and> or_tenant r = pc_tenant c \<and> or_status r = ''accepted'') (ob_orders db) \<and>
     (case sc_reservation p of None \<Rightarrow> True | Some i \<Rightarrow> list_ex (held_as (pc_tenant c) i) (holds_in db)))"

definition bin_open :: "pick_command \<Rightarrow> string \<Rightarrow> sku_facts \<Rightarrow> pick_bin \<Rightarrow> millis \<Rightarrow> bool" where
  "bin_open c role k b ms = (bn_id b = pc_bin c \<and> bn_tenant b = pc_tenant c \<and> bn_wh b = pc_wh c \<and> \<not> bn_system b \<and> pk_retired b = None \<and>
     (bn_blocked b \<longrightarrow> pick_before_block b ms) \<and> storageClassSatisfies (sf_class k) (pk_class b) \<and>
     (pk_class b = ''secure'' \<longrightarrow> may_secure_move role))"

lemma hold_gate_held:
  assumes "hold_gate db now t p = Inr ()" and "sc_reservation p = Some i"
  shows "\<exists>r \<in> set (holds_in db). held_as t i r"
proof -
  obtain r where "find (\<lambda>r. rv_id r = i \<and> rv_tenant r = t) (holds_in db) = Some r" "rv_state r = Held"
    using assms by (auto simp: hold_gate_def holdLivenessInTx_def row_by_id_def tx_world_def journal_def split: option.splits reservation_state.splits)
  then show ?thesis by (intro bexI [of _ r]) (auto simp: held_as_def dest: find_SomeD)
qed

lemma open_live_none:
  "(openLiveRecallLinesForBatchesInTx db t ids = []) = (\<forall>l \<in> set (ob_recall_lines db). \<forall>r \<in> set (ob_recalls db).
     \<not> (rc_tenant r = rl_tenant l \<and> rc_id r = rl_recall l \<and> rl_tenant l = t \<and> rl_batch l \<in> set ids \<and> rc_status r = ''open'' \<and> rc_mode r = ''live''))"
  unfolding openLiveRecallLinesForBatchesInTx_def by (auto simp flip: set_empty)

text \<open>
  C10. A fresh pick draws only past its gates: an active device and a member who may pick; a planned line of the
  tenant, on the list it names, whose row in the table is a ready list of the warehouse; a released wave, an
  accepted order, a hold that is still held; a bin that is no system bin,
  not retired, blocked only after the pick's instant, of the SKU's storage class and open to the member; and,
  of a batch-tracked SKU, batches on hand in that bin, under no open live recall, that the line's frozen
  policy admits.
\<close>

theorem pick_respects_the_gates:
  assumes "pick_in_tx hash sha newId now c key db = Inr ((PickAnswer sn, units), db')" and "key_unused db c key" and "0 < sn_qty sn"
    and "distinct (map pl_id (ob_picks db))"
  shows "\<exists>role p l k b ms es. active_device db c = Inr () \<and> getMemberRoleIn db (pc_tenant c) (pc_operator c) = Inr role \<and> may_pick role \<and>
    p \<in> set (ob_picks db) \<and> pl_id p = pc_line c \<and> pl_tenant p = pc_tenant c \<and> pl_picklist p = pc_picklist c \<and> l \<in> set (ob_lists db) \<and>
    floor_open db c p l \<and> b \<in> set (ob_bins db) \<and> bin_open c role k b ms \<and>
    k \<in> set (ob_skus db) \<and> sk_id k = pc_sku c \<and> sc_sku p = pc_sku c \<and> assertUtcIso (pc_occurred c) = Inr ms \<and>
    db_events (iv_ledger (ob_iv db')) = db_events (iv_ledger (ob_iv db)) @ es \<and>
    (sf_tracked k \<longrightarrow> (\<forall>e \<in> set es. \<exists>i. ev_batch e = Some i \<and> pickable_batch db c p l ms i (- ev_delta e)))"
proof -
  obtain role x db1 where who: "active_device db c = Inr ()" "getMemberRoleIn db (pc_tenant c) (pc_operator c) = Inr role" "may_pick role"
    and check: "check_pick now role c db = Inr x" and wr: "write_pick sha newId now c x db = Inr ((sn, units), db1)"
    and db': "db' = db1\<lparr>ob_keys := ob_keys db1 @ [\<lparr>ik_tenant = pc_tenant c, ik_key = key, ik_hash = hash (pick_payload c), ik_response = PickAnswer sn\<rparr>]\<rparr>"
    by (rule fresh_pick [OF assms(1,2)])
  obtain led s J picks i where draws: "foldM (\<lambda>led (i, m). and_then (appendMovement sha (newId i) led m) (\<lambda>(led', _). Inr led')) (iv_ledger (ob_iv db))
       (enumerate 0 (pick_movements now c x)) = Inr led" and sn: "sn = snapshot_of i c x s"
    and db1: "db1 = note_pick i now c x (db\<lparr>ob_iv := (ob_iv db)\<lparr>iv_ledger := led, iv_reservations := J\<rparr>, ob_picks := picks,
       ob_drawn := ob_drawn db @ (if px_qty x = 0 then [] else [pick_record i c x s])\<rparr>)"
    by (rule write_pick_Inr [OF wr assms(4)])
  have led: "iv_ledger (ob_iv db') = led" by (simp add: db' db1 note_pick_def Let_def)
  have qty: "0 < px_qty x" "sn_qty sn = px_qty x" using assms(3) by (simp_all add: sn snapshot_of_def Let_def)
  obtain w b numbers where g: "check_request c = Inr (px_at x)" "pick_target db c = Inr (px_line x, px_list x, w)"
    "check_line c (px_line x) (px_list x) w = Inr ()" "check_order db (pc_tenant c) (sc_order (px_line x)) = Inr ()"
    "pick_sku db c (px_line x) = Inr (px_sku x)" "pick_quantity c (px_line x) (px_sku x) = Inr (px_qty x)" "draw_bin db c = Inr b"
    "blocked_gate c (px_line x) b (px_qty x) (px_at x) = Inr (px_skip x)" "class_gate role (px_sku x) b (px_skip x) = Inr ()"
    "recall_gate db c (px_sku x) (px_qty x) = Inr ()" "tracking_gate (px_sku x) (px_qty x) = Inr ()" "hold_gate db now (pc_tenant c) (px_line x) = Inr ()"
    "pick_serials c (px_sku x) (px_qty x) = Inr numbers" "resolveSerialRefsInTx db (pc_tenant c) (pc_sku c) numbers = Inr (px_serials x)"
    "pick_arms db c (px_line x) (px_list x) (px_sku x) (px_at x) (px_qty x) = Inr (px_arms x)"
    by (rule check_pick_Inr [OF check])
  note line = pick_target_line [OF g(2)]
  have noskip: "\<not> px_skip x" using g(8) qty by (auto simp: blocked_gate_def split: if_splits)
  have open_line: "floor_open db c (px_line x) (px_list x)"
    using g(3,4) line hold_gate_held [OF g(12)]
    by (auto simp: floor_open_def check_line_Inr check_order_def list_ex_iff split: option.splits dest: find_SomeD)
  have named: "pl_picklist (px_line x) = pc_picklist c" using g(3) by (simp add: check_line_Inr)
  have bin: "b \<in> set (ob_bins db)" "bin_open c role (px_sku x) b (px_at x)"
    using g(7,8,9) noskip
    by (auto simp: draw_bin_def bin_open_def blocked_gate_def class_gate_def assertSecureBinAuthority_def split: option.splits if_splits dest: find_SomeD)
  have sku: "px_sku x \<in> set (ob_skus db)" "sk_id (px_sku x) = pc_sku c" "sc_sku (px_line x) = pc_sku c"
    using g(5) by (auto simp: pick_sku_def split: if_splits option.splits dest: find_SomeD)
  have at: "assertUtcIso (pc_occurred c) = Inr (px_at x)" using g(1) by (auto simp: check_request_def split: sum.splits)
  have q0: "0 \<le> px_qty x" using qty by simp
  note arms = pick_arms_Inr [OF g(15) q0]
  have batches: "\<exists>i. batch = Some i \<and> pickable_batch db c (px_line x) (px_list x) (px_at x) i n" if "sf_tracked (px_sku x)" "(batch, n) \<in> set (px_arms x)" for batch n
  proof -
    from arms(3) that obtain r where r: "r \<in> set (bin_batches db c)" "batch = Some (ba_batch r)" "n \<le> ba_qty r"
      "pick_allocatable (getBatchIntakesForSkusInTx (ob_intakes db) (pc_tenant c) [pc_sku c]) (px_line x) (px_list x) (px_at x) (ba_batch r)"
      by fastforce
    have "openLiveRecallLinesForBatchesInTx db (pc_tenant c) (remdups (map ba_batch (bin_batches db c))) = []"
      using g(10) that(1) qty by (simp add: recall_gate_def split: if_splits)
    then have "openLiveRecallLinesForBatchesInTx db (pc_tenant c) [ba_batch r] = []" using r(1) unfolding open_live_none by auto
    with r show ?thesis by (intro exI [of _ "ba_batch r"]) (auto simp: pickable_batch_def list_ex_iff)
  qed
  note ms = pick_movements_sum [OF check, of now]
  have leave: "\<forall>m \<in> set (pick_movements now c x). leaves (pc_tenant c) (pc_wh c) (pc_sku c) (pc_bin c) m" using ms(2) by blast
  obtain es where es: "db_events led = db_events (iv_ledger (ob_iv db)) @ es" "draw_events (pick_movements now c x) es"
    using foldM_draws [OF draws leave] by blast
  have events: "\<exists>i. ev_batch e = Some i \<and> pickable_batch db c (px_line x) (px_list x) (px_at x) i (- ev_delta e)"
    if tracked: "sf_tracked (px_sku x)" and e: "e \<in> set es" for e
  proof -
    have "numbers = []" using g(11,13) tracked by (auto simp: tracking_gate_def pick_serials_def)
    then have "px_serials x = []" using g(14) by (simp add: resolveSerialRefsInTx_def)
    then have plain: "pick_movements now c x = map (\<lambda>(batch, n). pick_movement now c x (- n) batch None) (px_arms x)" by (simp add: pick_movements_def)
    obtain m where m: "m \<in> set (pick_movements now c x)" "ev_batch e = m_batch m" "ev_delta e = m_delta m"
      using draw_events_member [OF es(2) e] by blast
    then obtain batch n where "(batch, n) \<in> set (px_arms x)" "ev_batch e = batch" "- ev_delta e = n"
      unfolding plain by (auto simp: pick_movement_def)
    with batches [OF tracked] show ?thesis by auto
  qed
  show ?thesis
    using who line open_line named bin sku at led es(1) events
    by (intro exI [of _ role] exI [of _ "px_line x"] exI [of _ "px_list x"] exI [of _ "px_sku x"] exI [of _ b] exI [of _ "px_at x"] exI [of _ es])
      auto
qed

theorem pick_respects_the_gates_witness:
  "\<exists>role p k b ms. \<exists>l \<in> set (ob_lists floor0). may_pick role \<and> floor_open floor0 first_pick p l \<and> bin_open first_pick role k b ms \<and> bn_id b = ''A''"
proof -
  have "0 < sn_qty first_answer" by (simp add: first_answer_def snapshot_of_def first_plan_def plan_of_def Let_def)
  from pick_respects_the_gates [OF first_run _ this] obtain role p l k b ms
    where "may_pick role" "floor_open floor0 first_pick p l" "bin_open first_pick role k b ms" "l \<in> set (ob_lists floor0)"
    by (auto simp: key_unused_def floor0_def shelf_line_def)
  moreover from this(3) have "bn_id b = ''A''" by (simp add: bin_open_def first_pick_def shelf_pick_def)
  ultimately show ?thesis by blast
qed

end
