(* ===== verification/PickHolds.thy ===== *)
theory PickHolds
  imports PickProperties
begin

text \<open>
  What a pick does to the reservations: the reserved counter never falls below the journal, whatever the store
  does; the first short pick of an order line leaves it a hold of exactly what is owed, and a second one does not.
\<close>

section \<open>The reserved counter\<close>

text \<open>A slice's hold is of its own SKU and of its list's warehouse.\<close>

definition slice_holds_ok :: "outbound_db \<Rightarrow> bool" where
  "slice_holds_ok db = (\<forall>q \<in> set (ob_picks db). \<forall>l \<in> set (ob_lists db). \<forall>r \<in> set (holds_in db).
     pt_id l = pl_picklist q \<and> sc_reservation q = Some (rv_id r) \<and> rv_tenant r = pl_tenant q \<longrightarrow> rv_wh r = pt_wh l \<and> rv_sku r = sc_sku q)"

lemma hoare_restoreReservedUnits:
  assumes "well_formed (t, wh, s)" and "journal_ok (rows_of iv)" and "0 \<le> units"
  shows "hoare (holds (only (t, wh, s) units) iv now) (restoreReservedUnits t wh s units) (\<lambda>_. holds none iv now) (\<lambda>_. holds none iv now)"
  unfolding restoreReservedUnits_def
proof (intro hoare_if)
  have weaken: "holds (only (t, wh, s) units) iv now w \<Longrightarrow> holds none iv now w" for w by (rule holds_only_pos) (use assms(3) in auto)
  show "hoare (holds (only (t, wh, s) units) iv now) (ret ()) (\<lambda>_. holds none iv now) (\<lambda>_. holds none iv now)"
    by (rule hoare_ret) (rule weaken)
  show "hoare (holds (only (t, wh, s) units) iv now)
     (attempt (bind (releaseReservation (reservationCounterKey t wh s) units) (\<lambda>_. ret ())) (\<lambda>_. ret ())) (\<lambda>_. holds none iv now) (\<lambda>_. holds none iv now)"
    by (rule hoare_attempt [OF hoare_bind [OF hoare_releaseReservation [OF assms(1,3,2)]]]) (auto intro: hoare_ret)
qed

text \<open>
  C8. A pick never leaves a reserved counter below what the journal holds, whichever calls to the store fail or
  lose their answer: the units a short pick gives back are taken off the counter only after the commit, and
  are exactly those its released and re-granted holds leave free. The journal stays well formed and its
  rows only evolve.
\<close>

theorem pick_keeps_the_counters:
  assumes "recordPick hash sha newId c key (db, w) = (r, db', w')" and "holds none (ob_iv db) now w" and "journal_ok (holds_in db)"
    and "slice_holds_ok db" and "distinct (map pl_id (ob_picks db))" and "\<And>i. newId i \<notin> rv_id ` set (holds_in db)"
    and "uuid_shape (pc_tenant c) \<and> uuid_shape (pc_wh c) \<and> uuid_shape (pc_sku c)"
  shows "holds none (ob_iv db') now w' \<and> journal_ok (holds_in db') \<and> evolves (holds_in db) (holds_in db')"
proof (cases "pick_in_tx hash sha newId (wd_now w) c key db")
  case (Inl e)
  then show ?thesis using assms(1-3) evolves_refl by (auto simp: recordPick_def)
next
  case (Inr out)
  obtain answer units db1 where run: "pick_in_tx hash sha newId (wd_now w) c key db = Inr ((answer, units), db1)"
    using Inr by (metis surj_pair)
  have step: "journal_ok (holds_in db1) \<and> evolves (holds_in db) (holds_in db1) \<and> 0 \<le> units \<and>
    (\<forall>sc. sum_of sc (holds_in db1) + only (pc_tenant c, pc_wh c, pc_sku c) units sc = sum_of sc (holds_in db))"
    using run
  proof (cases rule: pick_in_tx_Inr)
    case (again r)
    with assms(3) evolves_refl show ?thesis by (simp add: only_def)
  next
    case (fresh role x sn db2)
    obtain led s J picks i where settled: "settle_pick (newId (length (pick_movements (wd_now w) c x))) (\<lambda>i. newId (length (pick_movements (wd_now w) c x) + 1 + i)) (wd_now w) c x
       (db\<lparr>ob_iv := (ob_iv db)\<lparr>iv_ledger := led\<rparr>, ob_picks := flipped_picks c x db\<rparr>) =
       Inr (s, db\<lparr>ob_iv := (ob_iv db)\<lparr>iv_ledger := led, iv_reservations := J\<rparr>, ob_picks := picks\<rparr>)" and units: "units = st_units s"
      and db2: "db2 = note_pick i (wd_now w) c x (db\<lparr>ob_iv := (ob_iv db)\<lparr>iv_ledger := led, iv_reservations := J\<rparr>, ob_picks := picks,
         ob_drawn := ob_drawn db @ (if px_qty x = 0 then [] else [pick_record i c x s])\<rparr>)"
      by (rule write_pick_Inr [OF fresh(5) assms(5)])
    have J: "holds_in db1 = J" using fresh(7) by (simp add: db2 note_pick_def Let_def)
    obtain wave where line: "pick_target db c = Inr (px_line x, px_list x, wave)" "check_line c (px_line x) (px_list x) wave = Inr ()"
      and sku: "pick_sku db c (px_line x) = Inr (px_sku x)"
      using check_pick_Inr [OF fresh(4)] by metis
    have scope: "rv_wh r = pc_wh c \<and> rv_sku r = pc_sku c"
      if "sc_reservation (px_line x) = Some j" "r \<in> set (holds_in db)" "held_as (pc_tenant c) j r" for j r
    proof -
      have "rv_wh r = pt_wh (px_list x) \<and> rv_sku r = sc_sku (px_line x)"
        using assms(4) pick_target_line [OF line(1)] that unfolding slice_holds_ok_def held_as_def by fastforce
      then show ?thesis using line(2) sku by (auto simp: check_line_Inr pick_sku_def split: if_splits)
    qed
    from settle_pick_journal [OF settled] assms(3,6) scope show ?thesis by (simp add: J units)
  qed
  have rest: "(case restoreReservedUnits (pc_tenant c) (pc_wh c) (pc_sku c) units (w\<lparr>wd_iv := ob_iv db1\<rparr>) of
      (Inl e, w') \<Rightarrow> (Inl e, db1, w') | (Inr _, w') \<Rightarrow> (Inr answer, db1, w')) = (r, db', w')"
    using assms(1) run by (simp add: recordPick_def)
  have before: "holds (only (pc_tenant c, pc_wh c, pc_sku c) units) (ob_iv db1) now (w\<lparr>wd_iv := ob_iv db1\<rparr>)"
    using assms(2) step by (auto simp: holds_def mirror_iff)
  have "hoare (holds (only (pc_tenant c, pc_wh c, pc_sku c) units) (ob_iv db1) now) (restoreReservedUnits (pc_tenant c) (pc_wh c) (pc_sku c) units)
      (\<lambda>_. holds none (ob_iv db1) now) (\<lambda>_. holds none (ob_iv db1) now)"
    using assms(7) step by (intro hoare_restoreReservedUnits) simp_all
  note triple = hoareD [OF this before]
  obtain z w2 where out: "restoreReservedUnits (pc_tenant c) (pc_wh c) (pc_sku c) units (w\<lparr>wd_iv := ob_iv db1\<rparr>) = (z, w2)" by force
  have "db' = db1 \<and> w' = w2" using rest out by (cases z) auto
  moreover have "holds none (ob_iv db1) now w2"
    using triple out by (cases z) auto
  ultimately show ?thesis using step by simp
qed

definition floor_key :: string where
  "floor_key = reservationCounterKey demo_t demo_w demo_s"

definition floor_world :: world where
  "floor_world = \<lparr>wd_iv = ob_iv floor0, wd_store = [floor_key \<mapsto> Num 10000], wd_calls = [], wd_txs = [], wd_now = 1000, wd_failed = Map.empty\<rparr>"

definition floor_request :: "response result \<times> outbound_db \<times> world" where
  "floor_request = recordPick (\<lambda>_. ''h'') (\<lambda>_. ''x'') (shelf_ids 48) first_pick ''1'' (floor0, floor_world)"

lemma demo_scope: "uuid_shape demo_t" "uuid_shape demo_w" "uuid_shape demo_s"
  by code_simp+

lemma floor0_journal: "journal_ok (holds_in floor0)"
  by code_simp

lemma floor_world_holds: "holds none (ob_iv floor0) 1000 floor_world"
proof -
  have "reserved_sum t wh s (holds_in floor0) \<le> n"
    if "uuid_shape t" "uuid_shape wh" "uuid_shape s" "wd_store floor_world (reservationCounterKey t wh s) = Some (Num n)" for t wh s n
  proof -
    have "n = 10000" "reservationCounterKey t wh s = reservationCounterKey demo_t demo_w demo_s"
      using that(4) by (auto simp: floor_world_def floor_key_def split: if_splits)
    then have "n = 10000" "t = demo_t \<and> wh = demo_w \<and> s = demo_s" using counter_key_inject that(1-3) demo_scope by auto
    then show ?thesis by (simp add: reserved_sum_def floor0_def shelf_hold_def)
  qed
  then show ?thesis by (simp add: holds_def mirror_def floor_world_def)
qed

theorem pick_keeps_the_counters_witness:
  "holds none (ob_iv floor1) 1000 (snd (snd floor_request)) \<and> wd_store (snd (snd floor_request)) floor_key = Some (Num 9000)"
proof -
  have run: "floor_request = (Inr (PickAnswer first_answer), floor1,
      snd (restoreReservedUnits demo_t demo_w demo_s 1000 (floor_world\<lparr>wd_iv := ob_iv floor1\<rparr>)))"
    using first_run
    by (simp add: floor_request_def recordPick_def floor_world_def restoreReservedUnits_def attempt_def bind_def first_pick_def shelf_pick_def
        split: sum.splits prod.splits)
  have slices: "slice_holds_ok floor0"
    by (simp add: slice_holds_ok_def floor0_def shelf_line_def shelf_hold_def floor_list_def)
  have fresh: "shelf_ids 48 i \<notin> rv_id ` set (holds_in floor0)" for i
    using shelf_ids_other [of 48 "CHR ''f''" i] by (simp add: floor0_def shelf_hold_def)
  have shapes: "uuid_shape (pc_tenant first_pick) \<and> uuid_shape (pc_wh first_pick) \<and> uuid_shape (pc_sku first_pick)"
    using demo_scope by (simp add: first_pick_def shelf_pick_def)
  have "holds none (ob_iv floor1) 1000 (snd (snd floor_request))"
    using pick_keeps_the_counters [OF run [unfolded floor_request_def] floor_world_holds floor0_journal slices _ fresh shapes]
    unfolding run by (simp add: floor0_def shelf_line_def)
  moreover have "wd_store (snd (snd floor_request)) floor_key = Some (Num 9000)"
    unfolding run
    by (simp add: restoreReservedUnits_def attempt_def bind_def releaseReservation_def valkey_call_def floor_world_def floor_key_def [symmetric]
        RESERVATION_RELEASE_SCRIPT_def Let_def counter_value_def MAX_SAFE_INTEGER_def)
  ultimately show ?thesis by blast
qed

section \<open>The hold of a short pick\<close>

text \<open>What the slices of an order line have drawn.\<close>

definition drawn_units :: "outbound_db \<Rightarrow> pick_command \<Rightarrow> pick_line \<Rightarrow> int" where
  "drawn_units db c p = sum_where (\<lambda>q. pl_tenant q = pc_tenant c \<and> sc_line q = sc_line p) drawn_of (ob_picks db)"

definition planned_units :: "outbound_db \<Rightarrow> pick_command \<Rightarrow> pick_line \<Rightarrow> int" where
  "planned_units db c p = sum_where (\<lambda>q. pl_tenant q = pc_tenant c \<and> sc_line q = sc_line p) sc_qty (ob_picks db)"

lemma sum_where_all: "sum_where P f xs = sum_list (map (\<lambda>x. if P x then f x else 0) xs)"
  by (induction xs) auto

lemma drawn_by_siblings:
  assumes "distinct (map pl_id (ob_picks db))" and "px_line x \<in> set (ob_picks db)" and "sc_status (px_line x) = ''planned''"
    and "ob_picks db' = flipped_picks c x db"
  shows "drawnBySiblings (px_line x) (siblings_of db' c (px_line x)) = drawn_units db c (px_line x)"
proof -
  have one: "q = px_line x" if "q \<in> set (ob_picks db)" "pl_id q = pl_id (px_line x)" for q
    using assms(1,2) that by (auto simp: distinct_map inj_on_def)
  have "drawnBySiblings (px_line x) (siblings_of db' c (px_line x)) =
      sum_where (\<lambda>q. (pl_tenant q = pc_tenant c \<and> sc_line q = sc_line (px_line x)) \<and> pl_id q \<noteq> pl_id (px_line x)) drawn_of (flipped_picks c x db)"
    unfolding drawnBySiblings_def siblings_of_def assms(4) sum_where_def by (simp add: conj_commute)
  also have "\<dots> = drawn_units db c (px_line x)"
    unfolding drawn_units_def flipped_picks_def update_where_def sum_where_all map_map
    by (intro arg_cong [of _ _ sum_list] map_cong [OF refl])
      (use one assms(3) in \<open>auto simp: this_line_def flipped_line_def drawn_of_def\<close>)
  finally show ?thesis .
qed

text \<open>The released row stays in the journal, and frees its owner scope.\<close>

lemma released_row:
  assumes "find (held_as (pc_tenant c) i) rows = Some r"
  shows "r\<lparr>rv_state := Released\<rparr> \<in> set (released_rows c i rows)"
  using find_SomeD [OF assms] by (force simp: released_rows_def set_update_where)

lemma released_scope_free:
  assumes "journal_ok rows" and "find (held_as (pc_tenant c) i) rows = Some r"
  shows "\<not> list_ex (\<lambda>q. rv_state q = Held \<and> owner_scope_of q = owner_scope_of r) (released_rows c i rows)"
proof
  assume "list_ex (\<lambda>q. rv_state q = Held \<and> owner_scope_of q = owner_scope_of r) (released_rows c i rows)"
  then obtain q where q: "q \<in> set rows" "\<not> held_as (pc_tenant c) i q" "rv_state q = Held" "owner_scope_of q = owner_scope_of r"
    by (auto simp: list_ex_iff released_rows_def set_update_where split: if_splits)
  have r: "r \<in> set rows" "held_as (pc_tenant c) i r" using find_SomeD [OF assms(2)] by simp_all
  have "q = r" using assms(1) q(1,3,4) r by (auto simp: journal_ok_def held_def distinct_map inj_on_def held_as_def)
  with q(2) r(2) show False by simp
qed

text \<open>
  C9. The first short pick of an order line keeps the promise to it: with the line's hold still the whole of
  what its slices were planned for, the pick releases that hold and grants again exactly what has not been
  drawn by any of them, within the ceiling, gives the rest back to the counter, and names the new hold on every
  slice of the line still open. It grants nothing again only when nothing is owed or the ceiling has no room for
  what is owed beside the journal; then every unit is given back and no open slice names a hold. What it re-plans
  is at most what was short.
\<close>

theorem short_pick_holds_what_is_owed:
  assumes "pick_in_tx hash sha newId now c key db = Inr ((PickAnswer sn, units), db')" and "key_unused db c key"
    and "distinct (map pl_id (ob_picks db))" and "journal_ok (holds_in db)"
    and "p \<in> set (ob_picks db)" and "pl_id p = pc_line c" and "sc_reservation p = Some i"
    and "r \<in> set (holds_in db)" and "rv_id r = i" and "rv_qty r = planned_units db c p" and "sn_status sn = ''short''"
  shows "r\<lparr>rv_state := Released\<rparr> \<in> set (holds_in db') \<and>
    (case sn_replan_hold sn of
      None \<Rightarrow> units = rv_qty r \<and> (planned_units db c p - (drawn_units db c p + sn_qty sn) \<le> 0 \<or>
        committedCeiling (ob_iv db') (pc_tenant c) (pc_wh c) (pc_sku c) now <
          reserved_sum (pc_tenant c) (pc_wh c) (pc_sku c) (holds_in db') + (planned_units db c p - (drawn_units db c p + sn_qty sn)))
    | Some h \<Rightarrow> units = drawn_units db c p + sn_qty sn \<and> 0 < planned_units db c p - (drawn_units db c p + sn_qty sn) \<and>
        reserved_sum (pc_tenant c) (pc_wh c) (pc_sku c) (holds_in db') \<le> committedCeiling (ob_iv db') (pc_tenant c) (pc_wh c) (pc_sku c) now \<and>
        (\<exists>n \<in> set (holds_in db'). rv_id n = h \<and> rv_state n = Held \<and> owner_scope_of n = owner_scope_of r \<and>
           rv_qty n = planned_units db c p - (drawn_units db c p + sn_qty sn))) \<and>
    (\<forall>q \<in> set (ob_picks db'). pl_tenant q = pc_tenant c \<and> sc_line q = sc_line p \<and> sc_status q = ''planned'' \<longrightarrow> sc_reservation q = sn_replan_hold sn) \<and>
    sum_list (map (\<lambda>(_, _, _, n, _). n) (sn_replanned sn)) \<le> sn_shortfall sn"
proof -
  obtain role x db1 where check: "check_pick now role c db = Inr x" and wr: "write_pick sha newId now c x db = Inr ((sn, units), db1)"
    and db': "db' = db1\<lparr>ob_keys := ob_keys db1 @ [\<lparr>ik_tenant = pc_tenant c, ik_key = key, ik_hash = hash (pick_payload c), ik_response = PickAnswer sn\<rparr>]\<rparr>"
    by (rule fresh_pick [OF assms(1,2)])
  obtain led s J picks j where settled: "settle_pick (newId (length (pick_movements now c x))) (\<lambda>i. newId (length (pick_movements now c x) + 1 + i)) now c x
       (db\<lparr>ob_iv := (ob_iv db)\<lparr>iv_ledger := led\<rparr>, ob_picks := flipped_picks c x db\<rparr>) =
       Inr (s, db\<lparr>ob_iv := (ob_iv db)\<lparr>iv_ledger := led, iv_reservations := J\<rparr>, ob_picks := picks\<rparr>)"
    and sl: "settled_slices c x s (flipped_picks c x db) picks" and sn: "sn = snapshot_of j c x s" and units: "units = st_units s"
    and db1: "db1 = note_pick j now c x (db\<lparr>ob_iv := (ob_iv db)\<lparr>iv_ledger := led, iv_reservations := J\<rparr>, ob_picks := picks,
       ob_drawn := ob_drawn db @ (if px_qty x = 0 then [] else [pick_record j c x s])\<rparr>)"
    by (rule write_pick_Inr [OF wr assms(3)])
  have tables: "holds_in db' = J" "ob_picks db' = picks" by (simp_all add: db' db1 note_pick_def Let_def)
  note line = picked_line(1-4) [OF check wr assms(3)]
  have p: "px_line x = p" using assms(3,5,6) line(1,2) by (auto simp: distinct_map inj_on_def)
  let ?db = "db\<lparr>ob_iv := (ob_iv db)\<lparr>iv_ledger := led\<rparr>, ob_picks := flipped_picks c x db\<rparr>"
  let ?siblings = "siblings_of ?db c p"
  have short: "px_short x" using assms(11) by (simp add: sn snapshot_of_def Let_def split: if_splits)
  have siblings: "drawnBySiblings p ?siblings = drawn_units db c p"
    using drawn_by_siblings [OF assms(3) line(1,4), of ?db c] by (simp add: p)
  have held: "find (held_as (pc_tenant c) i) (holds_in db) = Some r'  \<Longrightarrow> r' = r" for r'
    using assms(4,8,9) by (auto simp: journal_ok_def distinct_map inj_on_def held_as_def dest: find_SomeD)
  define hold where "hold = st_hold s"
  have res: "sc_reservation (px_line x) = Some i" using assms(7) by (simp add: p)
  obtain db2 where reg: "regrant_hold (newId (length (pick_movements now c x))) now c x ?siblings i ?db = Inr ((hold, units), db2)"
    and st: "st_released s" "holds_in db2 = J"
    by (rule settle_short_Inr [OF settled short res]) (rule that; simp add: hold_def units p)
  have qty: "sn_qty sn = px_qty x" "sn_replan_hold sn = hold" "sn_shortfall sn = px_shortfall x"
    "sum_list (map (\<lambda>(_, _, _, n, _). n) (sn_replanned sn)) = sum_list (map sc_qty (st_rows s))"
    by (simp_all add: hold_def sn snapshot_of_def Let_def comp_def)
  let ?owed = "planned_units db c p - (drawn_units db c p + px_qty x)"
  let ?gone = "released_rows c i (holds_in db)"
  have iv: "ob_iv db' = (ob_iv db)\<lparr>iv_ledger := led, iv_reservations := J\<rparr>" by (simp add: db' db1 note_pick_def Let_def)
  have owed: "owed r x ?siblings = ?owed" using siblings assms(10) by (simp add: owed_def p)
  have "r\<lparr>rv_state := Released\<rparr> \<in> set J \<and> (case hold of None \<Rightarrow> units = rv_qty r \<and> (?owed \<le> 0 \<or>
        committedCeiling (ob_iv db') (pc_tenant c) (pc_wh c) (pc_sku c) now <
          reserved_sum (pc_tenant c) (pc_wh c) (pc_sku c) J + ?owed)
    | Some h \<Rightarrow> units = drawn_units db c p + px_qty x \<and> 0 < ?owed \<and>
        reserved_sum (pc_tenant c) (pc_wh c) (pc_sku c) J \<le> committedCeiling (ob_iv db') (pc_tenant c) (pc_wh c) (pc_sku c) now \<and>
        (\<exists>n \<in> set J. rv_id n = h \<and> rv_state n = Held \<and> owner_scope_of n = owner_scope_of r \<and> rv_qty n = ?owed))"
    using reg
  proof (cases rule: regrant_hold_Inr)
    case (ended r')
    have eq: "r' = r" using held ended(1) by simp
    have found: "find (held_as (pc_tenant c) i) (holds_in db) = Some r" using ended(1) by (simp add: eq)
    have J: "J = ?gone" and same: "ob_iv db2 = ob_iv db'" using ended(4) st(2) by (simp_all add: with_holds_def iv)
    have free: "\<not> list_ex (\<lambda>q. rv_state q = Held \<and> owner_scope_of q = owner_scope_of r) ?gone"
      by (rule released_scope_free [OF assms(4) found])
    have "?owed \<le> 0 \<or> list_ex (\<lambda>q. rv_state q = Held \<and> owner_scope_of q = owner_scope_of r) ?gone \<or>
        committedCeiling (ob_iv db') (pc_tenant c) (pc_wh c) (pc_sku c) now < reserved_sum (pc_tenant c) (pc_wh c) (pc_sku c) J + ?owed"
      using ended(5) unfolding same st(2) eq owed by (simp add: tables)
    with free released_row [OF found] show ?thesis unfolding ended(2,3) eq J option.case by blast
  next
    case (again r')
    let ?n = "hold_row (newId (length (pick_movements now c x))) (regrant_command c (px_line x) (owed r' x ?siblings)) now"
    have r': "r' = r" using held again(1) by simp
    have "?n \<in> set J" using again(4) st(2) by (auto simp: with_holds_def)
    moreover have "rv_id ?n = newId (length (pick_movements now c x))" "rv_state ?n = Held" "owner_scope_of ?n = owner_scope_of r"
      "rv_qty ?n = planned_units db c p - (drawn_units db c p + px_qty x)"
      using again(7) siblings assms(10)
      by (simp_all add: r' p hold_row_def regrant_command_def owner_scope_of_def command_scope_def owed_def)
    ultimately have new: "\<exists>n \<in> set J. rv_id n = newId (length (pick_movements now c x)) \<and> rv_state n = Held \<and> owner_scope_of n = owner_scope_of r \<and>
           rv_qty n = ?owed" by blast
    have same: "ob_iv db2 = ob_iv db'" using again(4) st(2) by (simp add: with_holds_def iv)
    have "r\<lparr>rv_state := Released\<rparr> \<in> set J"
      using released_row [OF again(1)[simplified, unfolded r']] again(4) st(2) by (auto simp: with_holds_def)
    then show ?thesis using new again(2,3,5,9) siblings owed st(2) same by (simp add: r' p owed_def)
  qed
  moreover have "sc_reservation q = hold" if q: "q \<in> set picks" "pl_tenant q = pc_tenant c" "sc_line q = sc_line p" "sc_status q = ''planned''" for q
  proof -
    obtain f where f: "picks = map f (flipped_picks c x db) @ st_rows s" "\<forall>q. repointed (st_hold s) q (f q)"
      "\<forall>r \<in> set (st_rows s). sc_reservation r = st_hold s"
      "\<forall>q \<in> set (flipped_picks c x db). open_sibling c (px_line x) q \<longrightarrow> sc_reservation (f q) = st_hold s"
      using sl st(1) by (auto simp: settled_slices_def)
    show ?thesis
    proof (cases "q \<in> set (st_rows s)")
      case False
      then obtain q0 where q0: "q0 \<in> set (flipped_picks c x db)" "q = f q0" using f(1) q(1) by auto
      note keep = repointed_keeps [OF f(2) [rule_format, of q0]]
      have "pl_id q0 \<noteq> pl_id p"
      proof
        assume eq: "pl_id q0 = pl_id p"
        obtain q1 where "q1 \<in> set (ob_picks db)" "q0 = (if this_line c p q1 \<and> sc_status q1 = ''planned'' then flipped_line c x q1 else q1)"
          using q0(1) by (auto simp: flipped_picks_def set_update_where p)
        moreover from this eq have "q1 = p"
          using assms(3,5) by (auto simp: distinct_map inj_on_def flipped_line_def split: if_splits)
        ultimately have "sc_status q0 = ''short''" using line(3,4) short by (simp add: p this_line_def flipped_line_def)
        then show False using q(4) q0(2) keep by simp
      qed
      then have "open_sibling c p q0" using q q0(2) keep by (simp add: open_sibling_def)
      then show ?thesis using f(4) q0 by (simp add: p hold_def)
    qed (use f(3) in \<open>simp add: hold_def\<close>)
  qed
  moreover have "sum_list (map sc_qty (st_rows s)) \<le> px_shortfall x" using sl by (auto simp: settled_slices_def)
  ultimately show ?thesis unfolding qty tables by blast
qed

theorem short_pick_holds_what_is_owed_witness:
  "rv_qty (hd (holds_in floor0)) = 10000 \<and> (shelf_hold (demo_id CHR ''f'') 10000)\<lparr>rv_state := Released\<rparr> \<in> set (holds_in floor1) \<and>
   sn_replan_hold first_answer = Some (demo_id CHR ''1'') \<and>
   (\<exists>n \<in> set (holds_in floor1). rv_id n = demo_id CHR ''1'' \<and> rv_state n = Held \<and> rv_qty n = 10000 - (0 + 1000))"
proof -
  let ?p = "shelf_line ''a'' ''A'' 4000 0 (Some (demo_id CHR ''f''))" and ?r = "shelf_hold (demo_id CHR ''f'') 10000"
  have units: "planned_units floor0 first_pick ?p = 10000" "drawn_units floor0 first_pick ?p = 0" by code_simp+
  have answer: "sn_qty first_answer = 1000" "sn_replan_hold first_answer = Some (demo_id CHR ''1'')" "sn_status first_answer = ''short''"
    by code_simp+
  have "?p \<in> set (ob_picks floor0)" "?r \<in> set (holds_in floor0)" by (simp_all add: floor0_def)
  note law = short_pick_holds_what_is_owed [OF first_run _ _ floor0_journal this(1) _ _ this(2), unfolded units answer]
  have facts: "key_unused floor0 first_pick ''1''" "distinct (map pl_id (ob_picks floor0))" "pl_id ?p = pc_line first_pick"
    "sc_reservation ?p = Some (demo_id CHR ''f'')" "rv_id ?r = demo_id CHR ''f''" "rv_qty ?r = 10000"
    by (simp_all add: key_unused_def floor0_def shelf_line_def shelf_hold_def first_pick_def shelf_pick_def)
  show ?thesis
    using law [OF facts(1-5) facts(6) refl] answer(2) by (auto simp: floor0_def shelf_hold_def)
qed

definition held_units :: "outbound_db \<Rightarrow> int" where
  "held_units db = sum_where (\<lambda>r. rv_state r = Held) rv_qty (holds_in db)"

text \<open>
  C32. A second short pick of the same order line takes the units already drawn off its hold again: of 10
  reserved units one is drawn by the first short pick, which leaves a hold of 9; the second draws nothing, and
  yet leaves a hold of 8 for the 9 units still owed and gives one back to the counter. The code takes what the
  siblings drew off the hold it releases, as if that hold were still the whole of the reservation.
\<close>

theorem second_short_pick_loses_units:
  "pick_in_tx (\<lambda>_. ''h'') (\<lambda>_. ''x'') (shelf_ids 48) 1000 first_pick ''1'' floor0 = Inr ((PickAnswer first_answer, 1000), floor1) \<and>
   pick_in_tx (\<lambda>_. ''h'') (\<lambda>_. ''x'') (shelf_ids 56) 1000 second_pick ''2'' floor1 = Inr ((PickAnswer second_answer, 1000), floor2) \<and>
   sn_qty first_answer = 1000 \<and> sn_qty second_answer = 0 \<and>
   map held_units [floor0, floor1, floor2] = [10000, 9000, 8000] \<and>
   map (\<lambda>db. drawn_units db first_pick (px_line first_plan)) [floor0, floor1, floor2] = [0, 1000, 1000]"
proof -
  have "sn_qty first_answer = 1000" "sn_qty second_answer = 0" by code_simp+
  moreover have "map held_units [floor0, floor1, floor2] = [10000, 9000, 8000]" by code_simp
  moreover have "map (\<lambda>db. drawn_units db first_pick (px_line first_plan)) [floor0, floor1, floor2] = [0, 1000, 1000]" by code_simp
  ultimately show ?thesis using first_run second_run by blast
qed

end
