(* ===== verification/Licence.thy ===== *)
theory Licence
  imports Uom Time "HOL-Library.Product_Lexorder"
begin

text \<open>
  The statutory licences (\<open>shared/primitives/licence.ts\<close>) and their enforcement
  (\<open>modules/compliance/licence-enforcement.ts\<close>): the needs of a SKU's goods, the licences that cover a need at
  a site, the warnings before one runs out, and the coverage check of a list of parties. Kinds, needs and
  statuses are the texts the code stores; the wording of refusals is left out.
\<close>

section \<open>The vocabulary\<close>

definition LICENCE_KINDS :: "string list" where
  "LICENCE_KINDS =
     [''drug-20b'', ''drug-21b'', ''drug-20g'', ''ndps'', ''fssai-registration'', ''fssai-state'', ''fssai-central'']"

definition LICENCE_NEEDS :: "string list" where
  "LICENCE_NEEDS = [''drug-20b'', ''drug-21b'', ''drug-20g'', ''ndps'', ''fssai'']"

definition NEED_COVERED_BY :: "string \<Rightarrow> string list" where
  "NEED_COVERED_BY need = the (map_of [
     (''drug-20b'', [''drug-20b'']), (''drug-21b'', [''drug-21b'']), (''drug-20g'', [''drug-20g'']), (''ndps'', [''ndps'']),
     (''fssai'', [''fssai-registration'', ''fssai-state'', ''fssai-central''])] need)"

definition SCHEDULE_NEED :: "string \<Rightarrow> string option" where
  "SCHEDULE_NEED = map_of [
     (''G'', ''drug-20b''), (''H'', ''drug-20b''), (''H1'', ''drug-20b''), (''C'', ''drug-21b''), (''C1'', ''drug-21b''),
     (''X'', ''drug-20g''), (''NDPS'', ''ndps'')]"

definition FSSAI_KINDS :: "string list" where
  "FSSAI_KINDS = [''fssai-registration'', ''fssai-state'', ''fssai-central'']"

definition LICENCE_WARNING_LEAD_DAYS :: int where "LICENCE_WARNING_LEAD_DAYS = 60"
definition NON_FOOD_CATEGORY :: string where "NON_FOOD_CATEGORY = ''non-food''"

definition isLicenceKind :: "string \<Rightarrow> bool" where
  "isLicenceKind value = (value \<in> set LICENCE_KINDS)"

definition isFssaiKind :: "string \<Rightarrow> bool" where
  "isFssaiKind kind = (kind \<in> set FSSAI_KINDS)"

definition licenceFamily :: "string \<Rightarrow> string" where
  "licenceFamily kind = (if isFssaiKind kind then ''fssai'' else kind)"

section \<open>Licence numbers\<close>

text \<open>What is wrong with a normalised number: its digits, its first digit, or its characters.\<close>

datatype number_problem = NotFourteenDigits | WrongFirstDigit | WrongCharacters

definition fssai_number :: "string \<Rightarrow> bool" where
  "fssai_number s = (length s = 14 \<and> list_all (\<lambda>c. c \<in> set ''0123456789'') s)"

definition drug_number :: "string \<Rightarrow> bool" where
  "drug_number s = (1 \<le> length s \<and> length s \<le> 50 \<and>
     list_all (\<lambda>c. c \<in> set ''ABCDEFGHIJKLMNOPQRSTUVWXYZ0123456789 /.-'') s)"

definition licenceNumberProblem :: "string \<Rightarrow> string \<Rightarrow> number_problem option" where
  "licenceNumberProblem kind number =
     (if isFssaiKind kind then
        if \<not> fssai_number number then Some NotFourteenDigits
        else if hd number \<noteq> (if kind = ''fssai-registration'' then CHR ''2'' else CHR ''1'') then Some WrongFirstDigit
        else None
      else if \<not> drug_number number then Some WrongCharacters
      else None)"

section \<open>Needs and coverage\<close>

definition isFood :: "string option \<Rightarrow> bool" where
  "isFood category = (category \<noteq> None \<and> category \<noteq> Some NON_FOOD_CATEGORY)"

definition needsOf :: "string option \<Rightarrow> string list \<Rightarrow> string list" where
  "needsOf foodCategory drugSchedules =
     (let needs = set (List.map_filter SCHEDULE_NEED drugSchedules) \<union> (if isFood foodCategory then {''fssai''} else {})
      in filter (\<lambda>need. need \<in> needs) LICENCE_NEEDS)"

record licence_row =
  lc_tenant :: uuid
  lc_client :: "uuid option"
  lc_wh :: "uuid option"
  lc_kind :: string
  lc_status :: string
  lc_from :: "iso_date option"
  lc_until :: "iso_date option"

definition licenceValidOn :: "licence_row \<Rightarrow> iso_date \<Rightarrow> bool" where
  "licenceValidOn l date =
     (lc_status l = ''active'' \<and> (case lc_from l of None \<Rightarrow> True | Some d \<Rightarrow> d \<le> date) \<and>
      (case lc_until l of None \<Rightarrow> True | Some d \<Rightarrow> date \<le> d))"

definition clientLicenceCovers :: "licence_row \<Rightarrow> uuid \<Rightarrow> uuid \<Rightarrow> string \<Rightarrow> iso_date \<Rightarrow> bool" where
  "clientLicenceCovers l client wh need date =
     (lc_client l = Some client \<and> (lc_wh l = None \<or> lc_wh l = Some wh) \<and> lc_kind l \<in> set (NEED_COVERED_BY need) \<and> licenceValidOn l date)"

definition siteLicenceCovers :: "licence_row \<Rightarrow> uuid \<Rightarrow> string \<Rightarrow> iso_date \<Rightarrow> bool" where
  "siteLicenceCovers l wh need date =
     (lc_client l = None \<and> lc_wh l = Some wh \<and> lc_kind l \<in> set (NEED_COVERED_BY need) \<and> licenceValidOn l date)"

section \<open>Warnings\<close>

definition warningState :: "iso_date option \<Rightarrow> iso_date \<Rightarrow> string" where
  "warningState validUntil istToday =
     (case validUntil of None \<Rightarrow> ''none''
      | Some until' \<Rightarrow>
          if until' < istToday then ''expired''
          else if addIsoDays until' (- LICENCE_WARNING_LEAD_DAYS) \<le> istToday then ''upcoming''
          else ''none'')"

definition expiryStateOf :: "licence_row \<Rightarrow> iso_date \<Rightarrow> string" where
  "expiryStateOf l istToday =
     (if lc_status l = ''withdrawn'' then ''withdrawn''
      else let st = warningState (lc_until l) istToday in if st = ''none'' then ''valid'' else st)"

text \<open>The two midnights are whole days apart, so \<open>Math.round\<close> of the quotient is the quotient.\<close>

definition daysLeftOf :: "iso_date option \<Rightarrow> iso_date \<Rightarrow> int option" where
  "daysLeftOf validUntil istToday =
     map_option (\<lambda>until'. (day_of_date until' * ms_per_day - day_of_date istToday * ms_per_day) div ms_per_day) validUntil"

section \<open>Enforcement\<close>

record licence_party =
  ly_client :: uuid
  ly_system :: bool
  ly_code :: string
  ly_needs :: "string list"

record uncovered_need =
  un_code :: string
  un_client :: uuid
  un_need :: string
  un_holder :: string

definition licenceEnforcedInTx :: "(uuid \<times> bool) list \<Rightarrow> uuid \<Rightarrow> bool" where
  "licenceEnforcedInTx policies t = (case find (\<lambda>(t', _). t' = t) policies of None \<Rightarrow> False | Some (_, enforce) \<Rightarrow> enforce)"

definition activeLicenceFactsInTx :: "licence_row list \<Rightarrow> uuid \<Rightarrow> licence_row list" where
  "activeLicenceFactsInTx rows t = filter (\<lambda>l. lc_tenant l = t \<and> lc_status l = ''active'') rows"

definition gaps_of :: "licence_row list \<Rightarrow> uuid \<Rightarrow> iso_date \<Rightarrow> licence_party \<Rightarrow> string \<Rightarrow> uncovered_need list" where
  "gaps_of facts wh date p need =
     (let gap = (\<lambda>holder. \<lparr>un_code = ly_code p, un_client = ly_client p, un_need = need, un_holder = holder\<rparr>) in
      (if \<not> ly_system p \<and> \<not> list_ex (\<lambda>l. clientLicenceCovers l (ly_client p) wh need date) facts then [gap ''client''] else []) @
      (if \<not> list_ex (\<lambda>l. siteLicenceCovers l wh need date) facts then [gap ''site''] else []))"

text \<open>The keys already judged are skipped.\<close>

fun judge_all :: "(licence_party \<Rightarrow> string \<Rightarrow> uncovered_need list) \<Rightarrow> string list \<Rightarrow> (licence_party \<times> string) list \<Rightarrow> uncovered_need list" where
  "judge_all gaps seen [] = []"
| "judge_all gaps seen ((p, need) # rest) =
     (let key = ly_client p @ ''|'' @ ly_code p @ ''|'' @ need in
      if key \<in> set seen then judge_all gaps seen rest
      else gaps p need @ judge_all gaps (key # seen) rest)"

fun index_of :: "string list \<Rightarrow> string \<Rightarrow> nat" where
  "index_of [] x = 0"
| "index_of (y # ys) x = (if x = y then 0 else Suc (index_of ys x))"

definition licenceCoverageOf :: "licence_row list \<Rightarrow> uuid \<Rightarrow> iso_date \<Rightarrow> licence_party list \<Rightarrow> uncovered_need list" where
  "licenceCoverageOf facts wh date parties =
     sort_key (\<lambda>u. (un_code u, un_client u, index_of LICENCE_NEEDS (un_need u), un_holder u \<noteq> ''client''))
       (judge_all (gaps_of facts wh date) [] [(p, need). p \<leftarrow> parties, need \<leftarrow> ly_needs p])"

definition licenceCoverageInTx :: "licence_row list \<Rightarrow> uuid \<Rightarrow> uuid \<Rightarrow> iso_date \<Rightarrow> licence_party list \<Rightarrow> uncovered_need list" where
  "licenceCoverageInTx rows t wh date parties =
     (if \<not> list_ex (\<lambda>p. ly_needs p \<noteq> []) parties then []
      else licenceCoverageOf (activeLicenceFactsInTx rows t) wh date parties)"

section \<open>What the check guarantees\<close>

lemma judged: "u \<in> set (judge_all gaps seen ps) \<Longrightarrow> \<exists>(p, need) \<in> set ps. u \<in> set (gaps p need)"
  by (induction gaps seen ps rule: judge_all.induct) (auto simp: Let_def split: if_splits)

lemma all_judged:
  assumes "(p, need) \<in> set ps" and "ly_client p @ ''|'' @ ly_code p @ ''|'' @ need \<notin> set seen"
  shows "\<exists>(q, need') \<in> set ps. ly_client q @ ''|'' @ ly_code q @ ''|'' @ need' = ly_client p @ ''|'' @ ly_code p @ ''|'' @ need \<and>
    set (gaps q need') \<subseteq> set (judge_all gaps seen ps)"
  using assms
proof (induction gaps seen ps rule: judge_all.induct)
  case (2 gaps seen q need' rest)
  show ?case
  proof (cases "ly_client q @ ''|'' @ ly_code q @ ''|'' @ need' = ly_client p @ ''|'' @ ly_code p @ ''|'' @ need")
    case True
    with 2(4) show ?thesis by (auto simp: Let_def)
  next
    case False
    with 2(3) have "(p, need) \<in> set rest" by auto
    let ?key = "\<lambda>q n. ly_client q @ ''|'' @ ly_code q @ ''|'' @ n"
    have sub: "set (judge_all gaps (if ?key q need' \<in> set seen then seen else ?key q need' # seen) rest) \<subseteq> set (judge_all gaps seen ((q, need') # rest))"
      by (simp add: Let_def)
    have "\<exists>(r, n) \<in> set rest. ?key r n = ?key p need \<and>
        set (gaps r n) \<subseteq> set (judge_all gaps (if ?key q need' \<in> set seen then seen else ?key q need' # seen) rest)"
    proof (cases "?key q need' \<in> set seen")
      case True
      from "2.IH"(1) [OF refl True \<open>(p, need) \<in> set rest\<close> 2(4)] True show ?thesis by simp
    next
      case notin: False
      have "?key p need \<notin> set (?key q need' # seen)" using False 2(4) by simp
      from "2.IH"(2) [OF refl notin \<open>(p, need) \<in> set rest\<close> this] notin show ?thesis by simp
    qed
    then obtain r n where "(r, n) \<in> set rest" "?key r n = ?key p need"
        "set (gaps r n) \<subseteq> set (judge_all gaps (if ?key q need' \<in> set seen then seen else ?key q need' # seen) rest)" by blast
    with sub show ?thesis by (intro bexI [of _ "(r, n)"]) auto
  qed
qed simp

lemma split_at_bar:
  "CHR ''|'' \<notin> set a \<Longrightarrow> CHR ''|'' \<notin> set b \<Longrightarrow> a @ CHR ''|'' # x = b @ CHR ''|'' # y \<Longrightarrow> a = b \<and> x = y"
proof (induction a arbitrary: b)
  case Nil
  then show ?case by (cases b) auto
next
  case (Cons c a)
  then show ?case by (cases b) auto
qed

lemma split_at_last_bar:
  assumes "CHR ''|'' \<notin> set a" and "CHR ''|'' \<notin> set b" and "x @ CHR ''|'' # a = y @ CHR ''|'' # b"
  shows "x = y \<and> a = b"
proof -
  have "rev a @ CHR ''|'' # rev x = rev b @ CHR ''|'' # rev y"
    using arg_cong [OF assms(3), of rev] by simp
  then have "rev a = rev b \<and> rev x = rev y" using assms(1,2) by (intro split_at_bar) simp_all
  then show ?thesis by simp
qed

lemma needs_without_bar: "need \<in> set LICENCE_NEEDS \<Longrightarrow> CHR ''|'' \<notin> set need"
  by (auto simp: LICENCE_NEEDS_def)

definition needs_covered :: "licence_row list \<Rightarrow> uuid \<Rightarrow> iso_date \<Rightarrow> licence_party \<Rightarrow> string \<Rightarrow> bool" where
  "needs_covered rows wh date p need =
     ((ly_system p \<or> (\<exists>l \<in> set rows. clientLicenceCovers l (ly_client p) wh need date)) \<and> (\<exists>l \<in> set rows. siteLicenceCovers l wh need date))"

lemma gaps_Nil: "(gaps_of facts wh date p need = []) = needs_covered facts wh date p need"
  by (auto simp: gaps_of_def needs_covered_def list_ex_iff)

lemma active_facts: "needs_covered (activeLicenceFactsInTx rows t) wh date p need = needs_covered (filter (\<lambda>l. lc_tenant l = t) rows) wh date p need"
  by (auto simp: needs_covered_def activeLicenceFactsInTx_def clientLicenceCovers_def siteLicenceCovers_def licenceValidOn_def)

text \<open>
  C26. The coverage check is exact: over parties of well-formed clients it reports no gap if and only if, for
  every party and every need of its goods, a valid licence of the tenant covers the need at the site and,
  unless the goods are the tenant's own, a valid licence of the client covers it there.
\<close>

theorem licence_coverage_is_exact:
  assumes "\<forall>p \<in> set parties. CHR ''|'' \<notin> set (ly_client p) \<and> set (ly_needs p) \<subseteq> set LICENCE_NEEDS"
    and "\<forall>p \<in> set parties. \<forall>q \<in> set parties. ly_client p = ly_client q \<longrightarrow> ly_system p = ly_system q"
  shows "(licenceCoverageInTx rows t wh date parties = []) =
    (\<forall>p \<in> set parties. \<forall>need \<in> set (ly_needs p). needs_covered (filter (\<lambda>l. lc_tenant l = t) rows) wh date p need)"
proof -
  let ?gaps = "gaps_of (activeLicenceFactsInTx rows t) wh date" and ?ps = "[(p, need). p \<leftarrow> parties, need \<leftarrow> ly_needs p]"
  have covered: "(?gaps p need = []) = needs_covered (filter (\<lambda>l. lc_tenant l = t) rows) wh date p need" for p need
    by (simp add: gaps_Nil active_facts)
  have same: "?gaps q need' = ?gaps p need"
    if "(p, need) \<in> set ?ps" "(q, need') \<in> set ?ps" "ly_client q @ ''|'' @ ly_code q @ ''|'' @ need' = ly_client p @ ''|'' @ ly_code p @ ''|'' @ need"
    for p need q need'
  proof -
    have bars: "CHR ''|'' \<notin> set (ly_client p)" "CHR ''|'' \<notin> set (ly_client q)" "CHR ''|'' \<notin> set need" "CHR ''|'' \<notin> set need'"
      using that(1,2) assms(1) needs_without_bar by (auto simp: subset_iff)
    have key: "ly_client q = ly_client p \<and> ly_code q @ CHR ''|'' # need' = ly_code p @ CHR ''|'' # need"
      by (rule split_at_bar [OF bars(2,1)]) (use that(3) in simp)
    then have "ly_code q = ly_code p \<and> need' = need" using split_at_last_bar [OF bars(4,3)] by blast
    moreover have "ly_system q = ly_system p" using assms(2) that(1,2) key by auto
    ultimately show ?thesis using key by (simp add: gaps_of_def)
  qed
  have "(judge_all ?gaps [] ?ps = []) = (\<forall>(p, need) \<in> set ?ps. ?gaps p need = [])"
  proof
    assume none: "judge_all ?gaps [] ?ps = []"
    show "\<forall>(p, need) \<in> set ?ps. ?gaps p need = []"
    proof (rule ballI, unfold split_paired_all split_conv)
      fix p need assume p: "(p, need) \<in> set ?ps"
      obtain q need' where q: "(q, need') \<in> set ?ps" "set (?gaps q need') \<subseteq> set (judge_all ?gaps [] ?ps)"
        "ly_client q @ ''|'' @ ly_code q @ ''|'' @ need' = ly_client p @ ''|'' @ ly_code p @ ''|'' @ need"
        using all_judged [OF p, of "[]" ?gaps] by auto
      from q(2) none same [OF p q(1,3)] show "?gaps p need = []" by simp
    qed
  next
    assume all: "\<forall>(p, need) \<in> set ?ps. ?gaps p need = []"
    have "u \<notin> set (judge_all ?gaps [] ?ps)" for u using judged [of u ?gaps "[]" ?ps] all by auto
    then show "judge_all ?gaps [] ?ps = []" by (metis list.set_intros(1) neq_Nil_conv)
  qed
  then have "(licenceCoverageOf (activeLicenceFactsInTx rows t) wh date parties = []) =
      (\<forall>p \<in> set parties. \<forall>need \<in> set (ly_needs p). needs_covered (filter (\<lambda>l. lc_tenant l = t) rows) wh date p need)"
    by (simp only: licenceCoverageOf_def covered length_0_conv [symmetric] length_sort) (auto simp: covered)
  then show ?thesis by (auto simp: licenceCoverageInTx_def list_ex_iff)
qed

text \<open>A food article of a client at a warehouse where both hold a licence.\<close>

definition demo_licence :: "uuid option \<Rightarrow> licence_row" where
  "demo_licence client = \<lparr>lc_tenant = ''t'', lc_client = client, lc_wh = Some ''w'', lc_kind = ''fssai-state'', lc_status = ''active'', lc_from = None,
     lc_until = None\<rparr>"

definition demo_party :: licence_party where
  "demo_party = \<lparr>ly_client = ''c'', ly_system = False, ly_code = ''s'', ly_needs = [''fssai'']\<rparr>"

theorem licence_coverage_is_exact_witness:
  "licenceCoverageInTx [demo_licence (Some ''c''), demo_licence None] ''t'' ''w'' (IsoDate 2026 1 1) [demo_party] = [] \<and>
   licenceCoverageInTx [demo_licence (Some ''c'')] ''t'' ''w'' (IsoDate 2026 1 1) [demo_party] \<noteq> []"
proof -
  have party: "\<forall>p \<in> set [demo_party]. CHR ''|'' \<notin> set (ly_client p) \<and> set (ly_needs p) \<subseteq> set LICENCE_NEEDS"
    "\<forall>p \<in> set [demo_party]. \<forall>q \<in> set [demo_party]. ly_client p = ly_client q \<longrightarrow> ly_system p = ly_system q"
    by (simp_all add: demo_party_def LICENCE_NEEDS_def)
  show ?thesis unfolding licence_coverage_is_exact [OF party]
    by (simp add: demo_party_def demo_licence_def needs_covered_def clientLicenceCovers_def siteLicenceCovers_def licenceValidOn_def NEED_COVERED_BY_def)
qed

text \<open>A warning is due on the last sixty days of a licence and on its last day; the day after it has expired.\<close>

lemma warning_days:
  assumes "valid_date u" and "valid_date today"
  shows "daysLeftOf (Some u) today = Some (day_of_date u - day_of_date today)"
    and "(warningState (Some u) today = ''upcoming'') = (0 \<le> day_of_date u - day_of_date today \<and> day_of_date u - day_of_date today \<le> 60)"
    and "(warningState (Some u) today = ''expired'') = (day_of_date u - day_of_date today < 0)"
proof -
  have lead: "(addIsoDays u (- 60) \<le> today) = (day_of_date u - 60 \<le> day_of_date today)"
    using day_of_date_le_iff [of "addIsoDays u (- 60)" today] assms(2) by (simp add: addIsoDays_def)
  have late: "(u < today) = (day_of_date u < day_of_date today)"
    using day_of_date_le_iff [OF assms(2,1)] by (simp add: not_le [symmetric])
  show "daysLeftOf (Some u) today = Some (day_of_date u - day_of_date today)"
    unfolding daysLeftOf_def left_diff_distrib [symmetric] by (simp add: ms_per_day_def)
  have st: "warningState (Some u) today = (if day_of_date u < day_of_date today then ''expired''
      else if day_of_date u - 60 \<le> day_of_date today then ''upcoming'' else ''none'')"
    unfolding warningState_def LICENCE_WARNING_LEAD_DAYS_def option.case lead late by (rule refl)
  have distinct: "''expired'' \<noteq> ''upcoming''" "''none'' \<noteq> ''upcoming''" "''upcoming'' \<noteq> ''expired''" "''none'' \<noteq> ''expired''" by simp_all
  show "(warningState (Some u) today = ''upcoming'') = (0 \<le> day_of_date u - day_of_date today \<and> day_of_date u - day_of_date today \<le> 60)"
    "(warningState (Some u) today = ''expired'') = (day_of_date u - day_of_date today < 0)"
    unfolding st using distinct by (auto split: if_split)
qed

end
