(* ===== verification/Allocation.thy ===== *)
theory Allocation
  imports Pick Licence
begin

text \<open>
  The backorder allocation (\<open>modules/outbound/allocation.command.ts\<close>) over acceptance's grants
  (\<open>modules/outbound/reserve-line.ts\<close>): read and plan, grant outside any transaction, write under the order
  lock, give back what no line references; run by the staff verb, after a dispatch, and by the sweep of a
  tick. A step is a procedure over a site: the tables, the world of the reservation service, the columns of
  SKUs and clients that licences look at, the cache and the windows of the sweep, and the count of ids drawn
  so far. The quantities of an answer are milli-units; its SKUs and the age of the oldest order are left out.
\<close>

section \<open>The site\<close>

record goods_row =
  gd_tenant :: uuid
  gd_sku :: uuid
  gd_code :: string
  gd_status :: string
  gd_food :: "string option"
  gd_schedules :: "string list"

record owner_row =
  ow_tenant :: uuid
  ow_client :: uuid
  ow_system :: bool

record goods_db =
  gs_goods :: "goods_row list"
  gs_owners :: "owner_row list"
  gs_licences :: "licence_row list"
  gs_policies :: "(uuid \<times> bool) list"

record site =
  si_db :: outbound_db
  si_world :: world
  si_goods :: goods_db
  si_exhausted :: "string list option"
  si_offsets :: "uuid \<Rightarrow> nat option"
  si_fresh :: nat

type_synonym 'a act = "(site, 'a) proc"

text \<open>The inventory is the one of the tables; the world adds the store, the clock and the fates.\<close>

definition iv_world :: "site \<Rightarrow> world" where
  "iv_world s = (si_world s)\<lparr>wd_iv := ob_iv (si_db s)\<rparr>"

definition in_inventory :: "'a op \<Rightarrow> 'a act" where
  "in_inventory m s = (case m (iv_world s) of (r, w) \<Rightarrow> (r, s\<lparr>si_db := (si_db s)\<lparr>ob_iv := wd_iv w\<rparr>, si_world := w\<rparr>))"

definition withTenantTransaction :: "'a act \<Rightarrow> 'a act" where
  "withTenantTransaction body s =
     (case body s of
        (Inl e, s') \<Rightarrow> (Inl e, s'\<lparr>si_db := si_db s\<rparr>)
      | (Inr v, s') \<Rightarrow>
          (case wd_txs (si_world s') of
             [] \<Rightarrow> (Inr v, s')
           | f # fs \<Rightarrow>
               (let done = s'\<lparr>si_world := (si_world s')\<lparr>wd_txs := fs\<rparr>\<rparr> in
                case f of
                  Delivered \<Rightarrow> (Inr v, done)
                | NotSent \<Rightarrow> (Inl database_down, done\<lparr>si_db := si_db s\<rparr>)
                | ReplyLost \<Rightarrow> (Inl database_down, done))))"

definition modify_db :: "(outbound_db \<Rightarrow> outbound_db) \<Rightarrow> unit act" where
  "modify_db f s = (Inr (), s\<lparr>si_db := f (si_db s)\<rparr>)"

definition fresh :: "(nat \<Rightarrow> uuid) \<Rightarrow> uuid act" where
  "fresh newId s = (Inr (newId (si_fresh s)), s\<lparr>si_fresh := si_fresh s + 1\<rparr>)"

section \<open>Acceptance's grants\<close>

definition MAX_GRANT_ATTEMPTS :: nat where "MAX_GRANT_ATTEMPTS = 4"

record line_grant =
  lg_tenant :: uuid
  lg_wh :: uuid
  lg_sku :: uuid
  lg_qty :: int
  lg_owner :: string
  lg_whole :: bool

definition line_command :: "line_grant \<Rightarrow> int \<Rightarrow> grant_command" where
  "line_command c target = \<lparr>gc_tenant = lg_tenant c, gc_wh = lg_wh c, gc_sku = lg_sku c, gc_owner_type = ORDER_OWNER_TYPE,
     gc_owner = lg_owner c, gc_qty = target, gc_ttl = Some ORDER_RESERVATION_TTL_SECONDS\<rparr>"

text \<open>The attempts that are left: a lost race probes again, and after the last one the line gets no hold.\<close>

fun grant_attempts :: "(nat \<Rightarrow> uuid) \<Rightarrow> line_grant \<Rightarrow> nat \<Rightarrow> reservation_row option act" where
  "grant_attempts newId c 0 = ret None"
| "grant_attempts newId c (Suc left) =
     bind (in_inventory (atp (lg_tenant c) (lg_wh c) (lg_sku c))) (\<lambda>a.
     if lg_whole c \<and> at_atp a < lg_qty c then ret None
     else if min (lg_qty c) (at_atp a) \<le> 0 then ret None
     else bind (fresh newId) (\<lambda>i.
       attempt (bind (in_inventory (grant i (line_command c (min (lg_qty c) (at_atp a))))) (\<lambda>r. ret (Some r)))
         (\<lambda>err. if err \<noteq> unavailable then raise err else grant_attempts newId c left)))"

definition grantLineHold :: "(nat \<Rightarrow> uuid) \<Rightarrow> line_grant \<Rightarrow> reservation_row option act" where
  "grantLineHold newId c = grant_attempts newId c MAX_GRANT_ATTEMPTS"

definition or_release :: "(reservation_row list \<Rightarrow> unit act) \<Rightarrow> reservation_row list \<Rightarrow> 'a act \<Rightarrow> 'a act" where
  "or_release giveBack holds m = attempt m (\<lambda>e. bind (giveBack holds) (\<lambda>_. raise e))"

fun grant_components :: "(nat \<Rightarrow> uuid) \<Rightarrow> (reservation_row list \<Rightarrow> unit act) \<Rightarrow> reservation_row list \<Rightarrow> line_grant list
    \<Rightarrow> reservation_row list option act" where
  "grant_components newId giveBack holds [] = ret (Some holds)"
| "grant_components newId giveBack holds (c # cs) =
     bind (or_release giveBack holds (grantLineHold newId c)) (\<lambda>r.
     case r of
       None \<Rightarrow> bind (or_release giveBack holds (giveBack holds)) (\<lambda>_. ret None)
     | Some h \<Rightarrow>
         if rv_qty h < lg_qty c then bind (or_release giveBack (holds @ [h]) (giveBack (holds @ [h]))) (\<lambda>_. ret None)
         else grant_components newId giveBack (holds @ [h]) cs)"

definition grantKitBlock :: "(nat \<Rightarrow> uuid) \<Rightarrow> (reservation_row list \<Rightarrow> unit act) \<Rightarrow> line_grant list \<Rightarrow> reservation_row list option act" where
  "grantKitBlock newId giveBack components = grant_components newId giveBack [] components"

section \<open>Giving holds back\<close>

type_synonym restore = "uuid \<times> uuid \<times> int"

definition isRaceLoss :: "failure \<Rightarrow> bool" where
  "isRaceLoss e = (case e of Problem code status \<Rightarrow> status = 409 | Thrown _ \<Rightarrow> False)"

text \<open>A hold that has ended meanwhile is passed over.\<close>

fun release_each :: "uuid \<Rightarrow> reservation_row list \<Rightarrow> restore list act" where
  "release_each t [] = ret []"
| "release_each t (h # hs) =
     bind (attempt (bind (in_inventory (releaseInTx t (rv_id h))) (\<lambda>_. ret [(rv_wh h, rv_sku h, rv_qty h)]))
       (\<lambda>e. if isRaceLoss e then ret [] else raise e)) (\<lambda>r.
     bind (release_each t hs) (\<lambda>rs. ret (r @ rs)))"

definition lines_of_order :: "outbound_db \<Rightarrow> order_row \<Rightarrow> order_line list" where
  "lines_of_order db ord = filter (\<lambda>l. ol_tenant l = or_tenant ord \<and> ol_order l = or_id ord) (ob_lines db)"

fun unreferenced :: "uuid list \<Rightarrow> reservation_row list \<Rightarrow> reservation_row list" where
  "unreferenced seen [] = []"
| "unreferenced seen (h # hs) =
     (if rv_id h \<in> set seen then unreferenced seen hs else h # unreferenced (rv_id h # seen) hs)"

text \<open>The holds no line of the order references, each once.\<close>

definition unreferencedInTx :: "order_row \<Rightarrow> reservation_row list \<Rightarrow> site \<Rightarrow> reservation_row list" where
  "unreferencedInTx ord holds s = unreferenced (List.map_filter ol_reservation (lines_of_order (si_db s) ord)) holds"

definition release_unreferenced :: "order_row \<Rightarrow> reservation_row list \<Rightarrow> restore list act" where
  "release_unreferenced ord holds =
     bind (read (unreferencedInTx ord holds)) (\<lambda>hs. release_each (or_tenant ord) hs)"

definition applyRestores :: "uuid \<Rightarrow> restore list \<Rightarrow> unit act" where
  "applyRestores t =
     for_each (\<lambda>(wh, sku, units). attempt (in_inventory (restoreReservedUnits t wh sku units)) (\<lambda>_. ret ()))"

definition releaseUnreferencedUnderLock :: "order_row \<Rightarrow> reservation_row list \<Rightarrow> unit act" where
  "releaseUnreferencedUnderLock ord holds =
     (if holds = [] then ret ()
      else attempt (bind (withTenantTransaction (release_unreferenced ord holds)) (applyRestores (or_tenant ord))) (\<lambda>_. ret ()))"

section \<open>Phase 1: the plan\<close>

definition readOrder :: "outbound_db \<Rightarrow> uuid \<Rightarrow> uuid \<Rightarrow> order_row option" where
  "readOrder db t i = find (\<lambda>r. or_id r = i \<and> or_tenant r = t) (ob_orders db)"

definition order_not_accepted :: failure where "order_not_accepted = Problem ''order-not-accepted'' 409"
definition order_on_open_wave :: failure where "order_on_open_wave = Problem ''order-on-open-wave'' 409"

definition openClaimInTx :: "outbound_db \<Rightarrow> order_row \<Rightarrow> uuid option" where
  "openClaimInTx db ord =
     map_option pl_wave (find (\<lambda>p. pl_tenant p = or_tenant ord \<and> sc_order p = or_id ord \<and> sc_status p \<noteq> ''cancelled'') (ob_picks db))"

definition eligibilityRefusal :: "outbound_db \<Rightarrow> order_row \<Rightarrow> failure option" where
  "eligibilityRefusal db ord =
     (if or_status ord \<noteq> ''accepted'' then Some order_not_accepted
      else if openClaimInTx db ord \<noteq> None then Some order_on_open_wave
      else None)"

text \<open>What the journal says of a line: picked or holding, to be granted, or an orphaned hold to adopt.\<close>

datatype line_fate = Ineligible | ToGrant | Adopt reservation_row

definition lapsed :: "millis \<Rightarrow> reservation_row \<Rightarrow> bool" where
  "lapsed now h = (case rv_expires h of None \<Rightarrow> False | Some e \<Rightarrow> e \<le> now)"

definition fateOf :: "(uuid \<Rightarrow> reservation_row option) \<Rightarrow> uuid list \<Rightarrow> millis \<Rightarrow> order_line \<Rightarrow> line_fate" where
  "fateOf heldByOwner committedOwners now l =
     (if ol_id l \<in> set committedOwners then Ineligible
      else case heldByOwner (ol_id l) of
        None \<Rightarrow> ToGrant
      | Some h \<Rightarrow>
          if ol_reservation l = Some (rv_id h) \<and> 0 < ol_reserved l then Ineligible
          else if lapsed now h then Ineligible
          else Adopt h)"

record plain_plan =
  pn_line :: order_line
  pn_adopt :: "reservation_row option"
  pn_whole :: bool

record kit_plan =
  kt_parent :: order_line
  kt_children :: "(order_line \<times> reservation_row option) list"

record phase1 =
  ph_order :: order_row
  ph_plain :: "plain_plan list"
  ph_kits :: "kit_plan list"
  ph_skipped :: "(uuid \<times> string) list"

definition adopted_by :: "line_fate \<Rightarrow> reservation_row option" where
  "adopted_by f = (case f of Adopt h \<Rightarrow> Some h | _ \<Rightarrow> None)"

definition goods_rows :: "goods_db \<Rightarrow> uuid \<Rightarrow> uuid list \<Rightarrow> goods_row list" where
  "goods_rows g t skus = filter (\<lambda>r. gd_tenant r = t \<and> gd_sku r \<in> set skus) (gs_goods g)"

definition not_active :: "goods_row list \<Rightarrow> uuid \<Rightarrow> bool" where
  "not_active rows sku = (map_option gd_status (js_map (map (\<lambda>r. (gd_sku r, r)) rows) sku) \<noteq> Some ''active'')"

definition sku_needs :: "goods_row \<Rightarrow> string list" where
  "sku_needs r = needsOf (gd_food r) (gd_schedules r)"

text \<open>A client that is not found is not the tenant's own.\<close>

definition system_owned :: "goods_db \<Rightarrow> uuid \<Rightarrow> uuid \<Rightarrow> bool" where
  "system_owned g t client =
     (case js_map (map (\<lambda>r. (ow_client r, ow_system r)) (filter (\<lambda>r. ow_tenant r = t \<and> ow_client r = client) (gs_owners g))) client of
        None \<Rightarrow> False
      | Some b \<Rightarrow> b)"

definition licencesCoverInTx :: "goods_db \<Rightarrow> millis \<Rightarrow> order_row \<Rightarrow> goods_row list \<Rightarrow> bool" where
  "licencesCoverInTx g now ord rows =
     (let goods = filter (\<lambda>r. sku_needs r \<noteq> []) rows in
      if goods = [] \<or> \<not> licenceEnforcedInTx (gs_policies g) (or_tenant ord) then True
      else licenceCoverageInTx (gs_licences g) (or_tenant ord) (or_wh ord) (ist_date now)
        (map (\<lambda>r. \<lparr>ly_client = or_client ord, ly_system = system_owned g (or_tenant ord) (or_client ord), ly_code = gd_code r,
          ly_needs = sku_needs r\<rparr>) goods) = [])"

definition plain_plans :: "(order_line \<Rightarrow> line_fate) \<Rightarrow> (uuid \<Rightarrow> bool) \<Rightarrow> uuid list \<Rightarrow> order_line list \<Rightarrow> plain_plan list" where
  "plain_plans fate whole parents lines =
     map (\<lambda>l. \<lparr>pn_line = l, pn_adopt = adopted_by (fate l), pn_whole = whole (ol_sku l)\<rparr>)
       (filter (\<lambda>l. ol_parent l = None \<and> ol_id l \<notin> set parents \<and> fate l \<noteq> Ineligible) lines)"

definition children_of :: "order_line list \<Rightarrow> order_line \<Rightarrow> order_line list" where
  "children_of lines l = filter (\<lambda>c. ol_parent c = Some (ol_id l)) lines"

definition kit_plans :: "(order_line \<Rightarrow> line_fate) \<Rightarrow> uuid list \<Rightarrow> order_line list \<Rightarrow> kit_plan list" where
  "kit_plans fate parents lines =
     map (\<lambda>l. \<lparr>kt_parent = l, kt_children = map (\<lambda>c. (c, adopted_by (fate c))) (children_of lines l)\<rparr>)
       (filter (\<lambda>l. ol_parent l = None \<and> ol_id l \<in> set parents \<and> list_all (\<lambda>c. fate c \<noteq> Ineligible) (children_of lines l)) lines)"

definition planInTx :: "order_row \<Rightarrow> site \<Rightarrow> phase1" where
  "planInTx ord s =
     (let t = or_tenant ord; wh = or_wh ord; now = wd_now (si_world s);
          lines = sort_key (\<lambda>l. (ol_created l, ol_id l)) (lines_of_order (si_db s) ord);
          parents = List.map_filter ol_parent lines;
          leaves = map ol_id (filter (\<lambda>l. ol_id l \<notin> set parents) lines);
          held = ownedReservationsInTx t wh ORDER_OWNER_TYPE leaves Held (iv_world s);
          committed = ownedReservationsInTx t wh ORDER_OWNER_TYPE leaves Committed (iv_world s);
          fate = fateOf (js_map (map (\<lambda>h. (rv_owner h, h)) held)) (map rv_owner committed) now;
          rows = goods_rows (si_goods s) t (map ol_sku lines);
          plain = plain_plans fate (not_active rows) parents lines;
          kits = kit_plans fate parents lines;
          eligible = map pn_line plain @ concat (map (map fst \<circ> kt_children) kits)
      in if (plain \<noteq> [] \<or> kits \<noteq> []) \<and> \<not> licencesCoverInTx (si_goods s) now ord rows
         then \<lparr>ph_order = ord, ph_plain = [], ph_kits = [], ph_skipped = map (\<lambda>l. (ol_id l, ''licence-not-covered'')) eligible\<rparr>
         else \<lparr>ph_order = ord, ph_plain = plain, ph_kits = kits, ph_skipped = []\<rparr>)"

end
