(* ===== verification/AllocationCommand.thy ===== *)
theory AllocationCommand
  imports Allocation
begin

text \<open>
  The allocation of an order (\<open>modules/outbound/allocation.command.ts\<close>): the grants of its lines and kits,
  the conditional writes under the order lock, the staff verb, the core of the job and of the dispatch, and
  the sweep of a tick over its window of candidates. \<open>stamps\<close> are the \<open>updated_at\<close> columns of order lines and
  pick lines, which the tables leave out.
\<close>

section \<open>Phase 2: the grants\<close>

record granted_hold =
  gh_line :: order_line
  gh_hold :: reservation_row
  gh_adopted :: bool

type_synonym grants = "granted_hold list \<times> (uuid \<times> string) list"

definition atp_key :: "order_row \<Rightarrow> uuid \<Rightarrow> string" where
  "atp_key ord sku = or_wh ord @ '':'' @ sku"

definition known_exhausted :: "order_row \<Rightarrow> uuid \<Rightarrow> site \<Rightarrow> bool" where
  "known_exhausted ord sku s = (case si_exhausted s of None \<Rightarrow> False | Some keys \<Rightarrow> atp_key ord sku \<in> set keys)"

definition mark_exhausted :: "order_row \<Rightarrow> uuid \<Rightarrow> unit act" where
  "mark_exhausted ord sku s = (Inr (), s\<lparr>si_exhausted := map_option (\<lambda>keys. atp_key ord sku # keys) (si_exhausted s)\<rparr>)"

definition heldOfOwner :: "order_row \<Rightarrow> uuid \<Rightarrow> reservation_row option act" where
  "heldOfOwner ord owner =
     bind (withTenantTransaction (read (\<lambda>s. ownedReservationsInTx (or_tenant ord) (or_wh ord) ORDER_OWNER_TYPE [owner] Held (iv_world s))))
       (\<lambda>held. ret (case held of [] \<Rightarrow> None | h # _ \<Rightarrow> Some h))"

definition line_request :: "order_row \<Rightarrow> order_line \<Rightarrow> bool \<Rightarrow> line_grant" where
  "line_request ord l whole = \<lparr>lg_tenant = or_tenant ord, lg_wh = or_wh ord, lg_sku = ol_sku l, lg_qty = ol_qty l, lg_owner = ol_id l,
     lg_whole = whole\<rparr>"

definition grant_plain :: "(nat \<Rightarrow> uuid) \<Rightarrow> order_row \<Rightarrow> plain_plan \<Rightarrow> grants \<Rightarrow> grants act" where
  "grant_plain newId ord e = (\<lambda>(granted, skipped).
     let l = pn_line e in
     case pn_adopt e of
       Some h \<Rightarrow>
         if pn_whole e \<and> rv_qty h < ol_qty l then ret (granted, skipped @ [(ol_id l, ''sku-inactive'')])
         else ret (granted @ [\<lparr>gh_line = l, gh_hold = h, gh_adopted = True\<rparr>], skipped)
     | None \<Rightarrow>
         bind (read (known_exhausted ord (ol_sku l))) (\<lambda>gone.
         if gone then ret (granted, skipped)
         else bind (attempt (bind (grantLineHold newId (line_request ord l (pn_whole e))) (\<lambda>h. ret (Inr h)))
           (\<lambda>err. if \<not> isRaceLoss err then raise err else bind (heldOfOwner ord (ol_id l)) (\<lambda>settled. ret (Inl settled)))) (\<lambda>r.
         case r of
           Inl None \<Rightarrow> ret (granted, skipped @ [(ol_id l, ''contended'')])
         | Inl (Some h) \<Rightarrow> ret (granted @ [\<lparr>gh_line = l, gh_hold = h, gh_adopted = True\<rparr>], skipped)
         | Inr None \<Rightarrow>
             if pn_whole e then ret (granted, skipped @ [(ol_id l, ''sku-inactive'')])
             else bind (mark_exhausted ord (ol_sku l)) (\<lambda>_. ret (granted, skipped))
         | Inr (Some h) \<Rightarrow>
             bind (if rv_qty h < ol_qty l then mark_exhausted ord (ol_sku l) else ret ()) (\<lambda>_.
             ret (granted @ [\<lparr>gh_line = l, gh_hold = h, gh_adopted = False\<rparr>], skipped)))))"

definition partial_orphan :: "order_line \<times> reservation_row option \<Rightarrow> bool" where
  "partial_orphan = (\<lambda>(l, a). case a of None \<Rightarrow> False | Some h \<Rightarrow> rv_qty h < ol_qty l)"

definition kit_hold :: "reservation_row list \<Rightarrow> order_line \<times> reservation_row option \<Rightarrow> granted_hold" where
  "kit_hold grants = (\<lambda>(l, a). case a of
     Some h \<Rightarrow> \<lparr>gh_line = l, gh_hold = h, gh_adopted = True\<rparr>
   | None \<Rightarrow> \<lparr>gh_line = l, gh_hold = the (js_map (map (\<lambda>h. (rv_owner h, h)) grants) (ol_id l)), gh_adopted = False\<rparr>)"

definition grant_kit :: "(nat \<Rightarrow> uuid) \<Rightarrow> order_row \<Rightarrow> kit_plan \<Rightarrow> grants \<Rightarrow> grants act" where
  "grant_kit newId ord k = (\<lambda>(granted, skipped).
     let partials = filter partial_orphan (kt_children k);
         children = map (\<lambda>c. if partial_orphan c then (fst c, None) else c) (kt_children k);
         toGrant = map fst (filter (\<lambda>c. snd c = None) children)
     in bind (if partials \<noteq> [] then releaseUnreferencedUnderLock ord (List.map_filter snd partials) else ret ()) (\<lambda>_.
     bind (read (\<lambda>s. list_ex (\<lambda>l. known_exhausted ord (ol_sku l) s) toGrant)) (\<lambda>gone.
     if gone then ret (granted, skipped)
     else bind (attempt (bind (grantKitBlock newId (releaseUnreferencedUnderLock ord) (map (\<lambda>l. line_request ord l False) toGrant)) (\<lambda>r. ret (Inr r)))
       (\<lambda>err. if isRaceLoss err then ret (Inl ()) else raise err)) (\<lambda>r.
     case r of
       Inl _ \<Rightarrow> ret (granted, skipped @ map (\<lambda>c. (ol_id (fst c), ''contended'')) children)
     | Inr None \<Rightarrow> ret (granted, skipped)
     | Inr (Some grants) \<Rightarrow> ret (granted @ map (kit_hold grants) children, skipped)))))"

text \<open>One after the other, up to the first that throws; what was granted before it stays known.\<close>

fun grant_each :: "('p \<Rightarrow> grants \<Rightarrow> grants act) \<Rightarrow> 'p list \<Rightarrow> grants \<Rightarrow> (grants \<times> failure option) act" where
  "grant_each f [] acc = ret (acc, None)"
| "grant_each f (p # ps) acc =
     bind (attempt (bind (f p acc) (\<lambda>acc'. ret (Inr acc'))) (\<lambda>e. ret (Inl e))) (\<lambda>r.
     case r of Inl e \<Rightarrow> ret (acc, Some e) | Inr acc' \<Rightarrow> grant_each f ps acc')"

definition own_holds :: "granted_hold list \<Rightarrow> reservation_row list" where
  "own_holds granted = map gh_hold (filter (\<lambda>g. \<not> gh_adopted g) granted)"

definition grantPhase :: "(nat \<Rightarrow> uuid) \<Rightarrow> phase1 \<Rightarrow> grants act" where
  "grantPhase newId plan =
     (let ord = ph_order plan in
      bind (grant_each (grant_plain newId ord) (ph_plain plan) ([], ph_skipped plan)) (\<lambda>(acc, err).
      bind (if err = None then grant_each (grant_kit newId ord) (ph_kits plan) acc else ret (acc, err)) (\<lambda>((granted, skipped), err).
      case err of
        None \<Rightarrow> ret (granted, skipped)
      | Some e \<Rightarrow> bind (releaseUnreferencedUnderLock ord (own_holds granted)) (\<lambda>_. raise e))))"

section \<open>Phase 3: the write\<close>

datatype written =
    Written allocation_result int "restore list"
  | Replayed response "restore list"
  | Refused failure "restore list"

definition restores_of :: "written \<Rightarrow> restore list" where
  "restores_of w = (case w of Written _ _ rs \<Rightarrow> rs | Replayed _ rs \<Rightarrow> rs | Refused _ rs \<Rightarrow> rs)"

text \<open>The lines this run could not grant, with the hold another run has put on them meanwhile.\<close>

definition adopted_late :: "phase1 \<Rightarrow> granted_hold list \<Rightarrow> site \<Rightarrow> granted_hold list" where
  "adopted_late plan granted s =
     (let ord = ph_order plan;
          ungranted = filter (\<lambda>l. \<not> list_ex (\<lambda>g. ol_id (gh_line g) = ol_id l) granted) (map pn_line (ph_plain plan));
          late = ownedReservationsInTx (or_tenant ord) (or_wh ord) ORDER_OWNER_TYPE (map ol_id ungranted) Held (iv_world s);
          byOwner = js_map (map (\<lambda>h. (rv_owner h, h)) late)
      in List.map_filter (\<lambda>l. case byOwner (ol_id l) of
           None \<Rightarrow> None
         | Some h \<Rightarrow> if Some (rv_id h) = ol_reservation l then None else Some \<lparr>gh_line = l, gh_hold = h, gh_adopted = True\<rparr>) ungranted)"

definition licensed :: "order_row \<Rightarrow> grants \<Rightarrow> site \<Rightarrow> grants" where
  "licensed locked = (\<lambda>(granted, skipped) s.
     if granted \<noteq> [] \<and> \<not> licencesCoverInTx (si_goods s) (wd_now (si_world s)) locked
          (goods_rows (si_goods s) (or_tenant locked) (map (ol_sku \<circ> gh_line) granted))
     then ([], skipped @ map (\<lambda>g. (ol_id (gh_line g), ''licence-not-covered'')) granted)
     else (granted, skipped))"

definition usable_hold :: "order_row \<Rightarrow> granted_hold list \<Rightarrow> site \<Rightarrow> granted_hold \<Rightarrow> bool" where
  "usable_hold ord granted s g =
     (case js_map (map (\<lambda>r. (rv_id r, r)) (reservationsByIdsInTx (or_tenant ord) (map (rv_id \<circ> gh_hold) granted) (iv_world s))) (rv_id (gh_hold g)) of
        None \<Rightarrow> False
      | Some r \<Rightarrow> rv_state r = Held \<and> \<not> lapsed (wd_now (si_world s)) r)"

definition still_usable :: "order_row \<Rightarrow> grants \<Rightarrow> site \<Rightarrow> grants" where
  "still_usable ord = (\<lambda>(granted, skipped) s.
     (filter (usable_hold ord granted s) granted,
      skipped @ map (\<lambda>g. (ol_id (gh_line g), ''contended'')) (filter (\<lambda>g. \<not> usable_hold ord granted s g) granted)))"

text \<open>A line is written only if it still names what phase 1 read.\<close>

definition unchanged_line :: "order_row \<Rightarrow> order_line \<Rightarrow> order_line \<Rightarrow> bool" where
  "unchanged_line ord seen l =
     (ol_tenant l = or_tenant ord \<and> ol_id l = ol_id seen \<and> ol_reservation l = ol_reservation seen \<and> ol_reserved l = ol_reserved seen)"

definition hold_line :: "reservation_row \<Rightarrow> order_line \<Rightarrow> order_line" where
  "hold_line h l = l\<lparr>ol_reserved := rv_qty h, ol_reservation := Some (rv_id h)\<rparr>"

fun write_lines :: "order_row \<Rightarrow> granted_hold list \<Rightarrow> order_line list \<Rightarrow> order_line list \<times> granted_hold list \<times> (uuid \<times> string) list" where
  "write_lines ord [] rows = (rows, [], [])"
| "write_lines ord (g # gs) rows =
     (if list_ex (unchanged_line ord (gh_line g)) rows then
        let (rows', allocated, skipped) = write_lines ord gs (update_where (unchanged_line ord (gh_line g)) (hold_line (gh_hold g)) rows)
        in (rows', g # allocated, skipped)
      else let (rows', allocated, skipped) = write_lines ord gs rows in (rows', allocated, (ol_id (gh_line g), ''contended'') # skipped))"

definition still_short :: "phase1 \<Rightarrow> granted_hold list \<Rightarrow> granted_hold list \<Rightarrow> (uuid \<times> string) list \<Rightarrow> (uuid \<times> int) list" where
  "still_short plan granted allocated skipped =
     (let allocatedIds = map (ol_id \<circ> gh_line) allocated; skippedIds = map fst skipped;
          holdOf = js_map (map (\<lambda>g. (ol_id (gh_line g), rv_qty (gh_hold g))) granted);
          reserved = (\<lambda>l. if ol_id l \<in> set allocatedIds then (case holdOf (ol_id l) of None \<Rightarrow> 0 | Some n \<Rightarrow> n) else 0);
          leaves = map pn_line (ph_plain plan) @ concat (map (map fst \<circ> kt_children) (ph_kits plan))
      in map (\<lambda>l. (ol_id l, ol_qty l - reserved l))
           (filter (\<lambda>l. \<not> (ol_id l \<in> set skippedIds \<and> ol_id l \<notin> set allocatedIds) \<and> reserved l < ol_qty l) leaves))"

definition result_of :: "phase1 \<Rightarrow> granted_hold list \<Rightarrow> granted_hold list \<Rightarrow> (uuid \<times> string) list \<Rightarrow> allocation_result" where
  "result_of plan granted allocated skipped =
     \<lparr>al_order = or_id (ph_order plan), al_wh = or_wh (ph_order plan),
      al_allocated = map (\<lambda>g. (ol_id (gh_line g), ol_qty (gh_line g), rv_qty (gh_hold g))) allocated,
      al_short = still_short plan granted allocated skipped, al_skipped = skipped\<rparr>"

definition replay_key :: "order_row \<Rightarrow> (string \<times> string) option \<Rightarrow> response option act" where
  "replay_key ord key = (case key of None \<Rightarrow> ret None | Some (k, h) \<Rightarrow> bind (read (\<lambda>s. replay (si_db s) (or_tenant ord) k h)) lift)"

definition store_key :: "order_row \<Rightarrow> (string \<times> string) option \<Rightarrow> allocation_result \<Rightarrow> unit act" where
  "store_key ord key result =
     (case key of
        None \<Rightarrow> ret ()
      | Some (k, h) \<Rightarrow>
          bind (read (\<lambda>s. writeIdempotencyKey (or_tenant ord) k h (AllocationAnswer result) (si_db s))) (\<lambda>r.
          bind (lift r) (\<lambda>(_, db). modify_db (\<lambda>_. db))))"

text \<open>The grants that may be written, judged under the lock.\<close>

definition judged_grants :: "phase1 \<Rightarrow> order_row \<Rightarrow> grants \<Rightarrow> site \<Rightarrow> grants" where
  "judged_grants plan locked = (\<lambda>(granted, skipped) s.
     let late = adopted_late plan granted s; lateIds = map (ol_id \<circ> gh_line) late in
     still_usable (ph_order plan) (licensed locked (granted @ late, filter (\<lambda>(i, _). i \<notin> set lateIds) skipped) s) s)"

definition write_grants :: "phase1 \<Rightarrow> order_row \<Rightarrow> uuid \<Rightarrow> (string \<times> string) option \<Rightarrow> grants \<Rightarrow> (allocation_result \<times> int) act" where
  "write_grants plan locked actor key grants =
     bind (read (judged_grants plan locked grants)) (\<lambda>(granted, skipped).
     bind (read (\<lambda>s. write_lines (ph_order plan) granted (ob_lines (si_db s)))) (\<lambda>(rows, allocated, contended).
     bind (modify_db (ob_lines_update (\<lambda>_. rows))) (\<lambda>_.
     let result = result_of plan granted allocated (skipped @ contended) in
     bind (if allocated = [] then ret () else modify_db (announce (or_tenant (ph_order plan)) actor ''order.allocated'' (or_id (ph_order plan)))) (\<lambda>_.
     bind (store_key (ph_order plan) key result) (\<lambda>_.
     ret (result, sum_list (map (rv_qty \<circ> gh_hold) allocated)))))))"

definition write_body :: "phase1 \<Rightarrow> grants \<Rightarrow> uuid \<Rightarrow> (string \<times> string) option \<Rightarrow> written act" where
  "write_body plan grants actor key =
     (let ord = ph_order plan; giveBack = release_unreferenced ord (map gh_hold (fst grants)) in
      bind (read (\<lambda>s. readOrder (si_db s) (or_tenant ord) (or_id ord))) (\<lambda>locked.
      bind (replay_key ord key) (\<lambda>stored.
      case stored of
        Some response \<Rightarrow> bind giveBack (\<lambda>rs. ret (Replayed response rs))
      | None \<Rightarrow>
          bind (read (\<lambda>s. case locked of None \<Rightarrow> Some not_found | Some l \<Rightarrow> eligibilityRefusal (si_db s) l)) (\<lambda>refusal.
          case refusal of
            Some e \<Rightarrow> bind giveBack (\<lambda>rs. ret (Refused e rs))
          | None \<Rightarrow>
              bind (write_grants plan (the locked) actor key grants) (\<lambda>(result, units).
              bind giveBack (\<lambda>rs. ret (Written result units rs)))))))"

definition writePhase :: "phase1 \<Rightarrow> grants \<Rightarrow> uuid \<Rightarrow> (string \<times> string) option \<Rightarrow> written act" where
  "writePhase plan grants actor key =
     attempt (withTenantTransaction (write_body plan grants actor key))
       (\<lambda>e. bind (releaseUnreferencedUnderLock (ph_order plan) (own_holds (fst grants))) (\<lambda>_. raise e))"

section \<open>The verb and the core\<close>

definition may_manage_orders :: "string \<Rightarrow> bool" where
  "may_manage_orders role = (role \<in> set [''owner'', ''ops_manager''])"

definition assertOrdersManage :: "outbound_db \<Rightarrow> uuid \<Rightarrow> uuid \<Rightarrow> unit result" where
  "assertOrdersManage db t actor = and_then (getMemberRoleIn db t actor) (\<lambda>role. require (may_manage_orders role) role_denied)"

definition plan_for_verb :: "string \<Rightarrow> uuid \<Rightarrow> uuid \<Rightarrow> uuid \<Rightarrow> string \<Rightarrow> site \<Rightarrow> (response + phase1) result" where
  "plan_for_verb h t actor i key s =
     and_then (assertOrdersManage (si_db s) t actor) (\<lambda>_.
     and_then (replay (si_db s) t key h) (\<lambda>stored.
     case stored of
       Some response \<Rightarrow> Inr (Inl response)
     | None \<Rightarrow>
         (case readOrder (si_db s) t i of
            None \<Rightarrow> Inl not_found
          | Some ord \<Rightarrow>
              (case eligibilityRefusal (si_db s) ord of
                 Some e \<Rightarrow> Inl e
               | None \<Rightarrow> Inr (Inr (planInTx ord s))))))"

definition no_cache :: "unit act" where
  "no_cache s = (Inr (), s\<lparr>si_exhausted := None\<rparr>)"

definition allocateOrder :: "(payload \<Rightarrow> string) \<Rightarrow> (nat \<Rightarrow> uuid) \<Rightarrow> uuid \<Rightarrow> uuid \<Rightarrow> uuid \<Rightarrow> string \<Rightarrow> response act" where
  "allocateOrder hash newId t actor i key =
     (let h = hash (AllocatePayload t i) in
      bind no_cache (\<lambda>_.
      bind (withTenantTransaction (bind (read (plan_for_verb h t actor i key)) lift)) (\<lambda>first.
      case first of
        Inl response \<Rightarrow> ret response
      | Inr plan \<Rightarrow>
          bind (grantPhase newId plan) (\<lambda>grants.
          bind (writePhase plan grants actor (Some (key, h))) (\<lambda>w.
          bind (applyRestores t (restores_of w)) (\<lambda>_.
          case w of
            Written result _ _ \<Rightarrow> ret (AllocationAnswer result)
          | Replayed response _ \<Rightarrow> ret response
          | Refused e _ \<Rightarrow> raise e))))))"

definition SYSTEM_ACTOR_ID :: uuid where "SYSTEM_ACTOR_ID = ''01900000-0000-7000-8000-000000000000''"

definition codeOf :: "failure \<Rightarrow> string" where
  "codeOf e = (case e of Problem code _ \<Rightarrow> code | Thrown _ \<Rightarrow> ''conflict'')"

text \<open>The outcome of a run of the core: the answer and the units reserved.\<close>

datatype outcome = NotEligible string | Allocated allocation_result int

definition plan_for_core :: "uuid \<Rightarrow> uuid \<Rightarrow> site \<Rightarrow> string + phase1" where
  "plan_for_core t i s =
     (case readOrder (si_db s) t i of
        None \<Rightarrow> Inl ''not-found''
      | Some ord \<Rightarrow>
          (case eligibilityRefusal (si_db s) ord of
             Some e \<Rightarrow> Inl (codeOf e)
           | None \<Rightarrow> Inr (planInTx ord s)))"

definition allocateOrderCore :: "(nat \<Rightarrow> uuid) \<Rightarrow> uuid \<Rightarrow> uuid \<Rightarrow> outcome act" where
  "allocateOrderCore newId t i =
     bind (withTenantTransaction (read (plan_for_core t i))) (\<lambda>first.
     case first of
       Inl reason \<Rightarrow> ret (NotEligible reason)
     | Inr plan \<Rightarrow>
         bind (grantPhase newId plan) (\<lambda>grants.
         bind (writePhase plan grants SYSTEM_ACTOR_ID None) (\<lambda>w.
         bind (applyRestores t (restores_of w)) (\<lambda>_.
         ret (case w of
           Written result units _ \<Rightarrow> Allocated result units
         | Replayed _ _ \<Rightarrow> NotEligible ''replayed''
         | Refused e _ \<Rightarrow> NotEligible (codeOf e))))))"

section \<open>The sweep\<close>

definition BACKORDER_ALLOCATION_SCAN_CAP :: nat where "BACKORDER_ALLOCATION_SCAN_CAP = 500"
definition BACKORDER_ALLOCATION_BATCH :: nat where "BACKORDER_ALLOCATION_BATCH = 50"

record stamps =
  sp_line :: "uuid \<Rightarrow> millis"
  sp_pick :: "uuid \<Rightarrow> millis"

definition week_ms :: int where "week_ms = 7 * ms_per_day"

text \<open>A leaf line a run could act on.\<close>

definition waiting_line :: "stamps \<Rightarrow> millis \<Rightarrow> outbound_db \<Rightarrow> order_line \<Rightarrow> bool" where
  "waiting_line st now db l =
     (\<not> list_ex (\<lambda>c. ol_tenant c = ol_tenant l \<and> ol_parent c = Some (ol_id l)) (ob_lines db) \<and>
      (ol_reservation l = None \<or> ol_reserved l = 0 \<or> sp_line st (ol_id l) \<le> now - week_ms \<or>
       list_ex (\<lambda>p. pl_tenant p = ol_tenant l \<and> sc_line p = ol_id l \<and> sc_status p = ''cancelled'' \<and> sp_line st (ol_id l) < sp_pick st (pl_id p))
         (ob_picks db)))"

definition backorder_candidate :: "stamps \<Rightarrow> millis \<Rightarrow> uuid \<Rightarrow> outbound_db \<Rightarrow> order_row \<Rightarrow> bool" where
  "backorder_candidate st now t db r =
     (or_tenant r = t \<and> or_status r = ''accepted'' \<and>
      \<not> list_ex (\<lambda>p. pl_tenant p = or_tenant r \<and> sc_order p = or_id r \<and> sc_status p \<noteq> ''cancelled'') (ob_picks db) \<and>
      list_ex (waiting_line st now db) (lines_of_order db r))"

definition candidatesInTx :: "stamps \<Rightarrow> uuid \<Rightarrow> nat \<Rightarrow> nat \<Rightarrow> site \<Rightarrow> order_row list" where
  "candidatesInTx st t limit offset s =
     (let now = wd_now (si_world s) in
      take limit (drop offset (sort_key (orderUrgencyOrderBy (ist_date now)) (filter (backorder_candidate st now t (si_db s)) (ob_orders (si_db s))))))"

record sweep_report =
  sw_scanned :: nat
  sw_allocated :: nat
  sw_units :: int
  sw_short :: nat

definition count_outcome :: "outcome option \<Rightarrow> sweep_report \<Rightarrow> sweep_report" where
  "count_outcome r rep =
     (case r of
        Some (Allocated result units) \<Rightarrow>
          rep\<lparr>sw_allocated := sw_allocated rep + (if al_allocated result \<noteq> [] then 1 else 0),
              sw_units := sw_units rep + (if al_allocated result \<noteq> [] then units else 0),
              sw_short := sw_short rep + (if al_short result \<noteq> [] \<or> al_skipped result \<noteq> [] then 1 else 0)\<rparr>
      | _ \<Rightarrow> rep)"

text \<open>An order whose run throws is passed over.\<close>

fun sweep_each :: "(nat \<Rightarrow> uuid) \<Rightarrow> uuid \<Rightarrow> nat \<Rightarrow> order_row list \<Rightarrow> sweep_report \<Rightarrow> sweep_report act" where
  "sweep_each newId t batch [] rep = ret rep"
| "sweep_each newId t batch (r # rs) rep =
     (if batch \<le> sw_allocated rep then ret rep
      else bind (attempt (bind (allocateOrderCore newId t (or_id r)) (\<lambda>x. ret (Some x))) (\<lambda>_. ret None)) (\<lambda>x.
        sweep_each newId t batch rs (count_outcome x (rep\<lparr>sw_scanned := sw_scanned rep + 1\<rparr>))))"

definition start_cache :: "unit act" where
  "start_cache s = (Inr (), s\<lparr>si_exhausted := Some []\<rparr>)"

definition window_start :: "uuid \<Rightarrow> site \<Rightarrow> nat" where
  "window_start t s = (case si_offsets s t of None \<Rightarrow> 0 | Some n \<Rightarrow> n)"

definition next_start :: "nat \<Rightarrow> nat \<Rightarrow> nat \<Rightarrow> nat \<Rightarrow> nat \<Rightarrow> nat" where
  "next_start cap batch offset seen allocated = (if \<not> batch \<le> allocated \<and> cap \<le> seen then offset + seen else 0)"

definition set_window :: "uuid \<Rightarrow> nat \<Rightarrow> unit act" where
  "set_window t n s = (Inr (), s\<lparr>si_offsets := (si_offsets s)(t \<mapsto> n)\<rparr>)"

definition sweepBackorders :: "(nat \<Rightarrow> uuid) \<Rightarrow> nat \<Rightarrow> nat \<Rightarrow> stamps \<Rightarrow> uuid \<Rightarrow> sweep_report act" where
  "sweepBackorders newId cap batch st t =
     bind (read (window_start t)) (\<lambda>offset.
     bind (withTenantTransaction (read (candidatesInTx st t cap offset))) (\<lambda>cs.
     bind start_cache (\<lambda>_.
     bind (sweep_each newId t batch cs \<lparr>sw_scanned = 0, sw_allocated = 0, sw_units = 0, sw_short = 0\<rparr>) (\<lambda>rep.
     bind (set_window t (next_start cap batch offset (length cs) (sw_allocated rep))) (\<lambda>_. ret rep)))))"

end
