(* ===== verification/AllocationCalm.thy ===== *)
theory AllocationCalm
  imports AllocationCommand ReservationBufferService
begin

text \<open>
  The reservation service when every transaction commits: no procedure of the service adds a fate to the
  transactions of a world that has none left.
\<close>

section \<open>Transactions that all commit\<close>

named_theorems quiet "procedures that leave no fates of transactions where there are none"

abbreviation calm :: "world \<Rightarrow> bool" where
  "calm w \<equiv> wd_txs w = []"

lemma calm_basic [quiet]: "keeps calm (ret v)" "keeps calm (raise e)" "keeps calm (lift r)" "keeps calm (read f)"
  by (rule keeps_basic)+

lemma calm_call [quiet]: "keeps calm (valkey_call f)"
  by (auto simp: hoare_def valkey_call_def split: prod.split sum.split)

lemma calm_in_tx [quiet]: "keeps calm m \<Longrightarrow> keeps calm (in_tx m)"
proof -
  assume m: "keeps calm m"
  have "calm (snd (in_tx m w))" if w: "calm w" for w
  proof -
    obtain r b where run: "m w = (r, b)" by force
    have "calm b" using keepsD [OF m w] by (simp add: run)
    then show ?thesis by (cases r) (simp_all add: in_tx_def run)
  qed
  then show ?thesis by (simp add: hoare_def split: prod.split sum.split) (metis prod.sel(2))
qed

lemmas calm_rules = keeps_bind keeps_attempt keeps_for_each hoare_if

lemma calm_store [quiet]: "keeps calm (grantReservation k r q c)" "keeps calm (releaseReservation k q)" "keeps calm (setCounter k n b)"
  "keeps calm (getCounter k)" "keeps calm (setReady k)" "keeps calm (isReady k)" "keeps calm (disarmReady k)" "keeps calm (requireUuid v)"
  unfolding grantReservation_def releaseReservation_def setCounter_def getCounter_def setReady_def isReady_def disarmReady_def requireUuid_def
  by (intro calm_rules quiet)+

lemma calm_state [quiet]: "keeps calm (clear_failure k)" "keeps calm (note_failure k)" "keeps calm (inRepairBackoff k)" "keeps calm (insert_hold r)"
    "keeps calm (set_state t i from to)"
  by (auto simp: hoare_def clear_failure_def note_failure_def inRepairBackoff_def insert_hold_def set_state_def set_journal_def Let_def split: option.split)

lemma calm_if_below [quiet]: "keeps calm (set_if_below t wh p)"
  by (cases p) (simp add: set_if_below_def, intro calm_rules quiet)

lemma calm_rebuild [quiet]: "keeps calm (rebuildCounters t target)"
proof -
  have one: "keeps calm (rebuildWarehouse t wh)" for wh
    unfolding rebuildWarehouse_def split_beta by (intro calm_rules quiet)
  have "keeps calm (case target of None \<Rightarrow> in_tx (read (rebuild_targets t)) | Some wh \<Rightarrow> bind (requireUuid wh) (\<lambda>_. ret [wh]))"
    by (cases target) (simp_all, (intro calm_rules quiet)+)
  then show ?thesis unfolding rebuildCounters_def by (intro calm_rules quiet one)
qed

lemma calm_ensureReady [quiet]: "keeps calm (ensureReady t wh)"
  unfolding ensureReady_def Let_def by (intro calm_rules quiet)

lemma calm_option: "keeps calm a \<Longrightarrow> (\<And>v. keeps calm (f v)) \<Longrightarrow> keeps calm (case x of None \<Rightarrow> a | Some v \<Rightarrow> f v)"
  by (cases x) simp_all

lemma calm_atp [quiet]: "keeps calm (atp t wh s)"
  unfolding atp_def split_beta by (intro calm_rules calm_option quiet)

lemma calm_grant [quiet]: "keeps calm (grant i c)"
proof -
  have script: "keeps calm (runGrantScript t wh s q n)" for t wh s q n
  proof -
    let ?key = "reservationCounterKey t wh s" and ?ready = "reservationReadyKey t wh"
    have reply: "keeps calm (case reply of
        None \<Rightarrow> ret StoreDown
      | Some (Win _) \<Rightarrow> ret Granted
      | Some (Loss reason) \<Rightarrow>
          if reason = ''not-ready'' then bind (ensureReady t wh) (\<lambda>_. ret StoreDown)
          else if reason = ''missing-counter'' then
            bind (attempt (bind (in_tx (read (journalReservedSum t wh s))) (\<lambda>total.
                bind (setCounter ?key total False) (\<lambda>_. ret True))) (\<lambda>_. ret False)) (\<lambda>repaired.
            if \<not> repaired then ret StoreDown
            else attempt (bind (grantReservation ?key ?ready q n) (\<lambda>retry.
                ret (case retry of Win _ \<Rightarrow> Granted | Loss _ \<Rightarrow> Lost))) (\<lambda>_. ret StoreDown))
          else ret Lost)" for reply
    proof (cases reply)
      case None
      then show ?thesis unfolding None option.case by (intro quiet)
    next
      case (Some v)
      show ?thesis
      proof (cases v)
        case (Win m)
        show ?thesis unfolding Some option.case Win script_reply.case by (intro quiet)
      next
        case (Loss reason)
        show ?thesis unfolding Some option.case Loss script_reply.case by (intro calm_rules quiet)
      qed
    qed
    show ?thesis unfolding runGrantScript_def Let_def by (intro calm_rules quiet reply)
  qed
  have hit: "keeps calm (idempotentHit r c)" for r
    unfolding idempotentHit_def by (intro calm_rules quiet)
  have check: "keeps calm (check_command c)"
    unfolding check_command_def by (intro calm_rules quiet)
  have journalled: "keeps calm (journal_hold i c)"
    unfolding journal_hold_def by (intro calm_rules calm_option quiet)
  have comp: "keeps calm (compensate k n)" for k n
    unfolding compensate_def by (intro calm_rules quiet)
  show ?thesis
    unfolding grant_def split_beta by (intro calm_rules calm_option quiet script hit check journalled comp)
qed

lemma calm_restore [quiet]: "keeps calm (restoreReservedUnits t wh s n)"
  unfolding restoreReservedUnits_def by (intro calm_rules quiet)

lemma calm_releaseInTx [quiet]: "keeps calm (releaseInTx t i)"
  unfolding releaseInTx_def releaseFromStateInTx_def by (intro calm_rules calm_option quiet)

end
