(* ===== verification/AllocationWorld.thy ===== *)
theory AllocationWorld
  imports AllocationCalm
begin

text \<open>
  The world of the reservations during a run of the allocation: the books stay in order between its steps, the holds it has
  granted are known, and so are earlier states of the rows it looks at; a release inside a transaction owes
  its units to the counter.
\<close>

section \<open>The world during a run\<close>

text \<open>
  The inventory of a run that started from \<open>iv\<close> with the ids from \<open>n0\<close> on unused: its journal has evolved,
  the ids from \<open>n\<close> on are unused, every hold the run has granted and that is still held is in \<open>own\<close> (when all
  transactions commit), the holds in \<open>seen\<close> are earlier states of rows of the tenant's orders, and the counters
  carry \<open>extra\<close> besides the journal.
\<close>

record run =
  rn_id :: "nat \<Rightarrow> uuid"
  rn_first :: nat
  rn_top :: nat
  rn_calm :: bool
  rn_iv :: inventory_db
  rn_now :: millis
  rn_tenant :: uuid

definition seen_row :: "uuid \<Rightarrow> reservation_row list \<Rightarrow> reservation_row \<Rightarrow> bool" where
  "seen_row t rows h = (rv_owner_type h = ORDER_OWNER_TYPE \<and> rv_tenant h = t \<and> (\<exists>r \<in> set rows. row_step h r))"

definition own_held :: "run \<Rightarrow> reservation_row list \<Rightarrow> uuid set" where
  "own_held rn rows = {rv_id r | r. r \<in> set rows \<and> rv_state r = Held \<and> rv_id r \<notin> rv_id ` set (rows_of (rn_iv rn))}"

definition unused :: "(nat \<Rightarrow> uuid) \<Rightarrow> nat \<Rightarrow> nat \<Rightarrow> reservation_row list \<Rightarrow> bool" where
  "unused newId n m rows = (\<forall>k. n \<le> k \<and> k < m \<longrightarrow> newId k \<notin> rv_id ` set rows)"

definition new_ids :: "(nat \<Rightarrow> uuid) \<Rightarrow> nat \<Rightarrow> nat \<Rightarrow> bool" where
  "new_ids newId n m = (inj_on newId {n..<m} \<and> (\<forall>k. n \<le> k \<and> k < m \<longrightarrow> uuid_shape (newId k)))"

definition uuid_rows :: "reservation_row list \<Rightarrow> bool" where
  "uuid_rows rows = (\<forall>r \<in> set rows. uuid_shape (rv_id r))"

definition world_at :: "run \<Rightarrow> nat \<Rightarrow> (stock_scope \<Rightarrow> int) \<Rightarrow> uuid set \<Rightarrow> reservation_row set \<Rightarrow> world \<Rightarrow> bool" where
  "world_at rn n extra own seen w =
     (wd_iv w = with_rows (rn_iv rn) (journal w) \<and> journal_ok (journal w) \<and> evolves (rows_of (rn_iv rn)) (journal w) \<and>
      holds extra (wd_iv w) (rn_now rn) w \<and> rn_first rn \<le> n \<and> unused (rn_id rn) n (rn_top rn) (journal w) \<and>
      uuid_rows (journal w) \<and> (\<forall>h \<in> seen. seen_row (rn_tenant rn) (journal w) h) \<and>
      (rn_calm rn \<longrightarrow> calm w \<and> own_held rn (journal w) \<subseteq> own))"

definition run_ok :: "run \<Rightarrow> bool" where
  "run_ok rn = (stock_ids_ok (rn_iv rn) \<and> new_ids (rn_id rn) (rn_first rn) (rn_top rn))"

lemma world_atD:
  assumes "world_at rn n e A S w"
  shows "wd_iv w = with_rows (rn_iv rn) (journal w)" "journal_ok (journal w)" "evolves (rows_of (rn_iv rn)) (journal w)"
    "holds e (wd_iv w) (rn_now rn) w" "rn_first rn \<le> n" "unused (rn_id rn) n (rn_top rn) (journal w)"
    "uuid_rows (journal w)" "\<And>h. h \<in> S \<Longrightarrow> seen_row (rn_tenant rn) (journal w) h"
    "rn_calm rn \<Longrightarrow> calm w" "rn_calm rn \<Longrightarrow> own_held rn (journal w) \<subseteq> A"
  using assms unfolding world_at_def by blast+

lemma world_at_mono: "world_at rn n e A S w \<Longrightarrow> A \<subseteq> B \<Longrightarrow> world_at rn n e B S w"
  by (auto simp: world_at_def)

lemma world_at_less: "world_at rn n e A S w \<Longrightarrow> (\<And>sc. e' sc \<le> e sc) \<Longrightarrow> world_at rn n e' A S w"
  using mirror_mono by (fastforce simp: world_at_def holds_def)

lemma journal_with_rows: "journal w = rows_of (wd_iv w)"
  by (simp add: journal_def)

lemma seen_row_evolves:
  assumes "seen_row t rows h" and "evolves rows rows'"
  shows "seen_row t rows' h"
proof -
  obtain r where r: "r \<in> set rows" "row_step h r" using assms(1) by (auto simp: seen_row_def)
  obtain old new where o: "rows' = old @ new" "list_all2 row_step rows old" using assms(2) by (auto simp: evolves_def)
  from r(1) obtain i where i: "i < length rows" "r = rows ! i" by (auto simp: in_set_conv_nth)
  with o(2) have "old ! i \<in> set old" "row_step r (old ! i)" by (simp_all add: list_all2_conv_all_nth)
  then obtain r' where "r' \<in> set old" "row_step r r'" by blast
  with r o(1) assms(1) show ?thesis by (auto simp: seen_row_def intro: row_step_trans)
qed

lemma seen_row_refl: "r \<in> set rows \<Longrightarrow> rv_owner_type r = ORDER_OWNER_TYPE \<Longrightarrow> rv_tenant r = t \<Longrightarrow> seen_row t rows r"
  by (auto simp: seen_row_def intro: row_step_refl)

lemma world_at_see: "world_at rn n e A S w \<Longrightarrow> h \<in> set (journal w) \<Longrightarrow> rv_owner_type h = ORDER_OWNER_TYPE \<Longrightarrow> rv_tenant h = rn_tenant rn \<Longrightarrow>
    world_at rn n e A (insert h S) w"
  by (auto simp: world_at_def intro: seen_row_refl)

lemma world_at_forget: "world_at rn n e A S w \<Longrightarrow> T \<subseteq> S \<Longrightarrow> world_at rn n e A T w"
  by (auto simp: world_at_def)

text \<open>A procedure that leaves the tables alone.\<close>

definition inert :: "'a op \<Rightarrow> bool" where
  "inert m = ((\<forall>iv now. journal_ok (rows_of iv) \<longrightarrow> stock_ids_ok iv \<longrightarrow> keeps (holds none iv now) m) \<and> keeps calm m)"

lemma stock_ids_wd: "world_at rn n e A S w \<Longrightarrow> run_ok rn \<Longrightarrow> stock_ids_ok (wd_iv w)"
  using world_atD(1) by (metis run_ok_def stock_ids_with_rows)

lemma inert_world:
  assumes "inert m" and "run_ok rn"
  shows "keeps (world_at rn n none A S) m"
proof -
  have "world_at rn n none A S w'" if w: "world_at rn n none A S w" and run: "m w = (r, w')" for w r w'
  proof -
    note at = world_atD [OF w]
    have k: "keeps (holds none (wd_iv w) (rn_now rn)) m"
      using assms(1) at(2) stock_ids_wd [OF w assms(2)] by (simp add: inert_def journal_with_rows)
    have h: "holds none (wd_iv w) (rn_now rn) w'" using keepsD [of "holds none (wd_iv w) (rn_now rn)", OF k at(4)] run by simp
    then have iv: "wd_iv w' = wd_iv w" "journal w' = journal w" by (simp_all add: holds_def journal_with_rows)
    moreover have "calm w'" if "rn_calm rn"
      using assms(1) at(9) [OF that] keepsD [of calm m w] run by (simp add: inert_def)
    ultimately show ?thesis using w h by (simp add: world_at_def)
  qed
  then show ?thesis by (auto simp: hoare_def split: prod.split sum.split)
qed

lemma inert_atp: "inert (atp t wh s)"
  unfolding inert_def using keeps_atp calm_atp by blast

lemma inert_read: "inert (read f)"
  unfolding inert_def by (intro conjI allI impI keeps_basic)

lemma unused_mono: "unused newId n m rows \<Longrightarrow> n \<le> k \<Longrightarrow> unused newId k m rows"
  by (simp add: unused_def)

lemma own_held_snoc: "own_held rn (rows @ [r]) \<subseteq> insert (rv_id r) (own_held rn rows)"
  by (auto simp: own_held_def)

lemma world_at_Suc: "world_at rn n e A S w \<Longrightarrow> world_at rn (Suc n) e A S w"
  by (auto simp: world_at_def unused_mono [where k = "Suc n"])

definition granted_as :: "grant_command \<Rightarrow> reservation_row \<Rightarrow> bool" where
  "granted_as c r = (owner_scope_of r = command_scope c \<and> rv_state r = Held \<and> rv_qty r = gc_qty c)"

text \<open>The hold a grant answers with, wherever it came from.\<close>

lemma hoare_tx_always:
  assumes "hoare (\<lambda>_. True) m (\<lambda>v _. Q v) (\<lambda>_ _. True)"
  shows "hoare (\<lambda>_. True) (in_tx m) (\<lambda>v _. Q v) (\<lambda>_ _. True)"
proof (rule hoareI)
  fix w v w' assume "in_tx m w = (Inr v, w')"
  then obtain b where "m w = (Inr v, b)" by (auto simp: in_tx_def split: prod.splits sum.splits list.splits fate.splits)
  then show "Q v" using hoareD(1) [OF assms] by blast
qed simp

lemma granted_always:
  assumes "grant i c w = (Inr h, w')"
  shows "granted_as c h"
proof -
  let ?T = "\<lambda>_ :: world. True"
  have always: "hoare ?T m (\<lambda>_. ?T) (\<lambda>_. ?T)" for m :: "'x op" by (auto simp: hoare_def split: prod.split sum.split)
  have hit: "hoare (\<lambda>_. owner_scope_of r = command_scope c \<and> rv_state r = Held) (idempotentHit r c) (\<lambda>h _. granted_as c h) (\<lambda>_. ?T)" for r
    unfolding idempotentHit_def by (intro hoare_if hoare_raise hoare_ret) (auto simp: granted_as_def)
  have found: "owner_scope_of r = sc \<and> rv_state r = Held" if "findOpenHold sc w0 = Some r" for sc w0 r
    using that by (auto simp: findOpenHold_def dest: find_SomeD)
  have journalled: "hoare ?T (in_tx (journal_hold i c)) (\<lambda>h _. granted_as c h) (\<lambda>_. ?T)"
  proof (rule hoare_tx_always)
    have "hoare ?T (insert_hold (hold_row i c now)) (\<lambda>h _. granted_as c h) (\<lambda>_. ?T)" for now
      by (auto simp: hoare_def insert_hold_def Let_def granted_as_def hold_row_def owner_scope_of_def command_scope_def)
    then have "hoare ?T (case counter of None \<Rightarrow> raise reservationStoreUnavailable
        | Some n \<Rightarrow> if n > lc then raise unavailable else bind (read wd_now) (\<lambda>now. insert_hold (hold_row i c now))) (\<lambda>h _. granted_as c h) (\<lambda>_. ?T)" for counter lc
      by (cases counter) (auto intro!: hoare_raise hoare_bind [OF always])
    then show "hoare ?T (journal_hold i c) (\<lambda>h _. granted_as c h) (\<lambda>_. ?T)"
      unfolding journal_hold_def by (intro hoare_bind [OF always])
  qed
  have settle: "hoare ?T (bind (in_tx (read (findOpenHold (command_scope c)))) (\<lambda>settled. case settled of Some r \<Rightarrow> idempotentHit r c | None \<Rightarrow> raise conflict))
      (\<lambda>h _. granted_as c h) (\<lambda>_. ?T)"
  proof (rule hoare_bind [OF hoare_tx_always [where Q = "\<lambda>v. \<forall>r. v = Some r \<longrightarrow> owner_scope_of r = command_scope c \<and> rv_state r = Held"]])
    show "hoare (\<lambda>_. \<forall>r. v = Some r \<longrightarrow> owner_scope_of r = command_scope c \<and> rv_state r = Held)
        (case v of Some r \<Rightarrow> idempotentHit r c | None \<Rightarrow> raise conflict) (\<lambda>h _. granted_as c h) (\<lambda>_. ?T)" for v
      using hit by (cases v) (simp_all add: hoare_raise)
  qed (rule hoare_read, use found in blast)
  have attempted: "hoare ?T (attempt (in_tx (journal_hold i c)) (\<lambda>err.
           bind (compensate k n) (\<lambda>_. if err = open_owner_scope_unique then
             bind (in_tx (read (findOpenHold (command_scope c)))) (\<lambda>settled. case settled of Some r \<Rightarrow> idempotentHit r c | None \<Rightarrow> raise conflict)
           else raise err))) (\<lambda>h _. granted_as c h) (\<lambda>_. ?T)" for k n
    by (intro hoare_attempt [OF journalled] hoare_bind [OF always] hoare_if settle hoare_raise) simp
  have "hoare ?T (grant i c) (\<lambda>h _. granted_as c h) (\<lambda>_. ?T)"
    unfolding grant_def
  proof (rule hoare_bind [OF always], rule hoare_bind [OF hoare_tx_always [where Q = "\<lambda>v. \<forall>r. fst v = Some r \<longrightarrow> owner_scope_of r = command_scope c \<and> rv_state r = Held"]])
    fix v :: "reservation_row option \<times> int"
    obtain existing ceiling where v: "v = (existing, ceiling)" by (cases v)
    show "hoare (\<lambda>_. \<forall>r. fst v = Some r \<longrightarrow> owner_scope_of r = command_scope c \<and> rv_state r = Held)
      (case v of (existing, ceiling) \<Rightarrow> case existing of Some r \<Rightarrow> idempotentHit r c
        | None \<Rightarrow> bind (runGrantScript (gc_tenant c) (gc_wh c) (gc_sku c) (gc_qty c) ceiling) (\<lambda>outcome.
         if outcome = StoreDown then raise reservationStoreUnavailable
         else if outcome \<noteq> Granted then raise unavailable
         else attempt (in_tx (journal_hold i c)) (\<lambda>err.
           bind (compensate (reservationCounterKey (gc_tenant c) (gc_wh c) (gc_sku c)) (gc_qty c)) (\<lambda>_.
           if err = open_owner_scope_unique then
             bind (in_tx (read (findOpenHold (command_scope c)))) (\<lambda>settled. case settled of Some r \<Rightarrow> idempotentHit r c | None \<Rightarrow> raise conflict)
           else raise err)))) (\<lambda>h _. granted_as c h) (\<lambda>_. ?T)"
    proof (cases existing)
      case (Some r)
      show ?thesis unfolding v Some prod.case option.case fst_conv using hit [of r] by simp
    next
      case None
      show ?thesis unfolding v None prod.case option.case fst_conv
        by (rule hoare_conseq [where P' = ?T], rule hoare_bind [OF always], rule hoare_if, rule hoare_raise, rule TrueI, rule hoare_if,
            rule hoare_raise, rule TrueI, rule attempted) simp_all
    qed
  qed (rule hoare_read, use found in auto)
  from hoareD(1) [OF this TrueI assms] show ?thesis .
qed

lemma grant_world:
  assumes "run_ok rn" and below: "n < rn_top rn"
  shows "hoare (world_at rn n none A S) (grant (rn_id rn n) c)
    (\<lambda>r w. world_at rn (Suc n) none (insert (rv_id r) A) S w \<and> r \<in> set (journal w) \<and> granted_as c r)
    (\<lambda>_. world_at rn (Suc n) none A S)"
proof (rule hoareI)
  fix w r w'
  assume w: "world_at rn n none A S w" and run: "grant (rn_id rn n) c w = (Inr r, w')"
  note at = world_atD [OF w]
  let ?iv = "wd_iv w"
  have new: "rn_id rn n \<notin> rv_id ` set (rows_of ?iv)" using at(6) below by (simp add: unused_def journal_with_rows)
  have ok: "journal_ok (rows_of ?iv)" "stock_ids_ok ?iv"
    using at(2) stock_ids_wd [OF w assms(1)] by (simp_all add: journal_with_rows)
  have calm: "calm w'" if "rn_calm rn" using keepsD [OF calm_grant at(9) [OF that]] run by (metis snd_conv)
  from hoareD(1) [OF hoare_grant [OF ok new] at(4) run]
  show "world_at rn (Suc n) none (insert (rv_id r) A) S w' \<and> r \<in> set (journal w') \<and> granted_as c r"
  proof
    assume r: "settled_hold ?iv c r \<and> holds none ?iv (rn_now rn) w'"
    then have same: "wd_iv w' = ?iv" "journal w' = journal w" by (simp_all add: holds_def journal_with_rows)
    then have "world_at rn n none A S w'" using w r calm by (auto simp: world_at_def)
    then have "world_at rn (Suc n) none (insert (rv_id r) A) S w'" by (intro world_at_Suc) (auto intro: world_at_mono)
    with r same show ?thesis by (auto simp: settled_hold_def granted_as_def journal_with_rows)
  next
    assume r: "new_hold ?iv (rn_now rn) (rn_id rn n) c r \<and> holds none (with_rows ?iv (rows_of ?iv @ [r])) (rn_now rn) w'"
    then have iv': "wd_iv w' = with_rows ?iv (rows_of ?iv @ [r])" by (simp add: holds_def)
    then have j: "journal w' = journal w @ [r]" by (simp add: journal_with_rows)
    have id: "rv_id r = rn_id rn n" and g: "granted_as c r"
      using r by (auto simp: new_hold_def granted_as_def hold_row_def owner_scope_of_def command_scope_def)
    have "unused (rn_id rn) (Suc n) (rn_top rn) (journal w')"
    proof -
      have "inj_on (rn_id rn) {rn_first rn..<rn_top rn}" using assms(1) by (simp add: run_ok_def new_ids_def)
      then have "rn_id rn k \<noteq> rn_id rn n" if "Suc n \<le> k" "k < rn_top rn" for k
        using that at(5) inj_onD [of "rn_id rn" _ k n] by fastforce
      then show ?thesis using at(6) by (auto simp: unused_def j id)
    qed
    moreover have "own_held rn (journal w') \<subseteq> insert (rv_id r) A" if "rn_calm rn"
      using at(10) [OF that] own_held_snoc unfolding j by blast
    moreover have "evolves (rows_of (rn_iv rn)) (journal w')" unfolding j by (rule evolves_trans [OF at(3) evolves_append])
    moreover have "wd_iv w' = with_rows (rn_iv rn) (journal w')" 
    proof -
      have "wd_iv w' = with_rows ?iv (journal w')" using iv' by (simp add: journal_def)
      also have "\<dots> = with_rows (rn_iv rn) (journal w')" by (subst at(1)) simp
      finally show ?thesis .
    qed
    moreover have "seen_row (rn_tenant rn) (journal w') h" if "h \<in> S" for h
      unfolding j by (rule seen_row_evolves [OF at(8) [OF that] evolves_append])
    moreover have "uuid_rows (journal w')" using at(5,7) assms below by (auto simp: uuid_rows_def j id run_ok_def new_ids_def)
    ultimately have "world_at rn (Suc n) none (insert (rv_id r) A) S w'"
      using r calm at(5) unfolding world_at_def new_hold_def iv' j journal_with_rows by auto
    with g show ?thesis by (simp add: j)
  qed
next
  fix w e w'
  assume w: "world_at rn n none A S w" and run: "grant (rn_id rn n) c w = (Inl e, w')"
  note at = world_atD [OF w]
  have new: "rn_id rn n \<notin> rv_id ` set (rows_of (wd_iv w))" using at(6) below by (simp add: unused_def journal_with_rows)
  have ok: "journal_ok (rows_of (wd_iv w))" "stock_ids_ok (wd_iv w)"
    using at(2) stock_ids_wd [OF w assms(1)] by (simp_all add: journal_with_rows)
  have h: "holds none (wd_iv w) (rn_now rn) w'" by (rule hoareD(2) [OF hoare_grant [OF ok new] at(4) run])
  then have same: "wd_iv w' = wd_iv w" "journal w' = journal w" by (simp_all add: holds_def journal_with_rows)
  have "calm w'" if "rn_calm rn" using keepsD [OF calm_grant at(9) [OF that]] run by (metis snd_conv)
  then have "world_at rn n none A S w'" using w h same by (auto simp: world_at_def)
  then show "world_at rn (Suc n) none A S w'" by (rule world_at_Suc)
qed

section \<open>Releases\<close>

text \<open>The released rows' units, per scope.\<close>

definition owed_to :: "uuid \<Rightarrow> restore list \<Rightarrow> stock_scope \<Rightarrow> int" where
  "owed_to t rs sc = sum_list (map (\<lambda>(wh, s, u). only (t, wh, s) u sc) rs)"

definition restores_ok :: "uuid \<Rightarrow> restore list \<Rightarrow> bool" where
  "restores_ok t rs = (\<forall>(wh, s, u) \<in> set rs. well_formed (t, wh, s) \<and> 0 \<le> u)"

lemma owed_simps [simp]:
  "owed_to t [] = none"
  "owed_to t ((wh, s, u) # rs) = (\<lambda>sc. only (t, wh, s) u sc + owed_to t rs sc)"
  "owed_to t (xs @ ys) = (\<lambda>sc. owed_to t xs sc + owed_to t ys sc)"
  by (auto simp: owed_to_def none_def)

lemma restores_ok_simps [simp]:
  "restores_ok t []"
  "restores_ok t ((wh, s, u) # rs) = (uuid_shape t \<and> uuid_shape wh \<and> uuid_shape s \<and> 0 \<le> u \<and> restores_ok t rs)"
  "restores_ok t (xs @ ys) = (restores_ok t xs \<and> restores_ok t ys)"
  unfolding restores_ok_def by (simp_all add: ball_Un)

lemma owed_nonneg: "restores_ok t rs \<Longrightarrow> 0 \<le> owed_to t rs sc"
  by (induction rs) (auto simp: only_def none_def)

lemma mirror_release_more:
  assumes "mirror (\<lambda>x. only sc q x + e x) rows st" and "well_formed sc" and "0 \<le> q" and "0 \<le> sum_of sc rows" and "\<And>x. 0 \<le> e x"
  shows "mirror e rows (snd (RESERVATION_RELEASE_SCRIPT (key_of sc) q st))"
proof -
  have less: "mirror e rows st" by (rule mirror_mono [OF assms(1)]) (use assms(3) in \<open>auto simp: only_def\<close>)
  show ?thesis
  proof (cases "st (key_of sc)")
    case None
    then show ?thesis using less by (simp add: RESERVATION_RELEASE_SCRIPT_def)
  next
    case (Some v)
    show ?thesis
    proof (cases v)
      case Corrupt
      then show ?thesis using Some less by (simp add: RESERVATION_RELEASE_SCRIPT_def)
    next
      case (Num n)
      have "sum_of sc rows + (q + e sc) \<le> n" using mirrorD [OF assms(1,2)] Some Num by simp
      then have "mirror e rows (st(key_of sc \<mapsto> Num (if n - q < 0 then 0 else n - q)))"
        by (intro mirror_set [OF less assms(2)]) (use assms(4) assms(5) [of sc] in auto)
      then show ?thesis using Some Num by (simp add: RESERVATION_RELEASE_SCRIPT_def Let_def)
    qed
  qed
qed

lemma hoare_restore_more:
  assumes "well_formed (t, wh, s)" and "journal_ok (rows_of iv)" and "0 \<le> u" and "\<And>x. 0 \<le> e x"
  shows "hoare (holds (\<lambda>x. only (t, wh, s) u x + e x) iv now) (restoreReservedUnits t wh s u) (\<lambda>_. holds e iv now) (\<lambda>_. holds e iv now)"
proof -
  let ?e = "\<lambda>x. only (t, wh, s) u x + e x"
  have less: "mirror ?e (rows_of iv) st \<Longrightarrow> mirror e (rows_of iv) st" for st
    by (rule mirror_mono [of ?e]) (use assms(3) in \<open>auto simp: only_def\<close>)
  then have weaken: "holds ?e iv now w \<Longrightarrow> holds e iv now w" for w by (auto simp: holds_def)
  have "mirror e (rows_of iv) st'" if "mirror ?e (rows_of iv) st" "RESERVATION_RELEASE_SCRIPT (reservationCounterKey t wh s) u st = (r, st')" for st r st'
    using mirror_release_more [OF that(1) assms(1,3) _ assms(4)] that(2) reserved_sum_nonneg [OF assms(2)] by simp
  then have undo: "hoare (holds ?e iv now) (releaseReservation (reservationCounterKey t wh s) u) (\<lambda>_. holds e iv now) (\<lambda>_. holds e iv now)"
    unfolding releaseReservation_def using less by (intro hoare_if hoare_raise weaken hoare_call) (auto split: sum.split)
  have "hoare (holds ?e iv now) (bind (releaseReservation (reservationCounterKey t wh s) u) (\<lambda>_. ret ())) (\<lambda>_. holds e iv now) (\<lambda>_. holds e iv now)"
    by (rule hoare_bind [OF undo]) (rule hoare_ret)
  then have "hoare (holds ?e iv now) (attempt (bind (releaseReservation (reservationCounterKey t wh s) u) (\<lambda>_. ret ())) (\<lambda>_. ret ()))
      (\<lambda>_. holds e iv now) (\<lambda>_. holds e iv now)"
    by (rule hoare_attempt) (rule hoare_ret)
  then show ?thesis
    unfolding restoreReservedUnits_def by (intro hoare_if hoare_ret weaken)
qed

text \<open>The release of one hold inside a transaction: the row is released, or was not held any more.\<close>

lemma release_outcome:
  assumes "world_at rn n e A S w" and "r \<in> set (journal w)" and "rv_id r = i" and "rv_tenant r = t" and "uuid_shape i"
  shows "rv_state r = Held \<and> (\<exists>r' w'. releaseInTx t i w = (Inr r', w') \<and>
      world_at rn n (\<lambda>x. only (scope_of r) (rv_qty r) x + e x) (A - {i}) S w' \<and>
      w' = set_journal (journal w') w \<and> evolves (journal w) (journal w') \<and> (\<forall>q \<in> set (journal w'). rv_id q = i \<longrightarrow> rv_state q \<noteq> Held)) \<or>
    rv_state r \<noteq> Held \<and> releaseInTx t i w = (Inl conflict, w)"
proof -
  note at = world_atD [OF assms(1)]
  let ?P = "\<lambda>r. rv_tenant r = t \<and> rv_state r = Held" and ?g = "rv_state_update (\<lambda>_. Released)"
  have dist: "distinct (map rv_id (journal w))" using at(2) by (simp add: journal_ok_def)
  have only_r: "q = r" if "q \<in> set (journal w)" "rv_id q = i" for q
    using dist that assms(2,3) by (metis inj_on_contraD distinct_map)
  have step: "set_state t i [Held] Released w = (Inr (map_option ?g (find (\<lambda>r. rv_id r = i \<and> ?P r) (journal w))),
      set_journal (update_where (\<lambda>r. rv_id r = i \<and> ?P r) ?g (journal w)) w)"
    by (simp add: set_state_def Let_def)
  show ?thesis
  proof (cases "rv_state r = Held")
    case True
    obtain r0 where found: "find (\<lambda>r. rv_id r = i \<and> ?P r) (journal w) = Some r0"
      using assms True by (cases "find (\<lambda>r. rv_id r = i \<and> ?P r) (journal w)") (auto simp: find_None_iff)
    then have r0: "r0 = r" using only_r by (auto dest: find_SomeD)
    obtain xs ys where rows: "journal w = xs @ r # ys" "update_where (\<lambda>r. rv_id r = i \<and> ?P r) ?g (journal w) = xs @ ?g r # ys"
      using update_one [OF dist found] unfolding r0 by blast
    define w' where "w' = set_journal (xs @ ?g r # ys) w"
    have j: "journal w' = xs @ ?g r # ys" by (simp add: w'_def set_journal_def journal_def)
    have run: "releaseInTx t i w = (Inr (?g r), w')"
      unfolding releaseInTx_def releaseFromStateInTx_def using assms(5) step found r0 rows(2)
      by (simp add: bind_def w'_def)
    have ev: "evolves (journal w) (journal w')"
      unfolding j rows(2) [symmetric]
      by (rule evolves_update) (use True only_r in \<open>auto simp: row_step_def owner_scope_of_def state_step_def\<close>)
    have ok: "row_ok r" using at(2) assms(2) by (simp add: journal_ok_def)
    have gone: "rv_state q \<noteq> Held" if "q \<in> set (journal w')" "rv_id q = i" for q
    proof -
      have "q \<notin> set xs \<union> set ys" using that(2) dist assms(3) unfolding rows(1) by (auto simp: image_iff)
      with that(1) show ?thesis by (auto simp: j)
    qed
    have "world_at rn n (\<lambda>x. only (scope_of r) (rv_qty r) x + e x) (A - {i}) S w'"
      unfolding world_at_def
    proof (intro conjI impI ballI)
      show "wd_iv w' = with_rows (rn_iv rn) (journal w')"
        unfolding j using at(1) by (simp add: w'_def set_journal_def journal_def) (metis inventory_db.surjective inventory_db.update_convs(6))
      show "journal_ok (journal w')"
        unfolding j by (rule journal_ok_replace [of xs r ys]) (use at(2) rows(1) ok in \<open>auto simp: owner_scope_of_def row_ok_def\<close>)
      show "evolves (rows_of (rn_iv rn)) (journal w')" by (rule evolves_trans [OF at(3) ev])
      have "mirror (\<lambda>x. only (scope_of r) (rv_qty r) x + e x) (journal w') (wd_store w)"
      proof (rule mirror_rows)
        show "mirror e (journal w) (wd_store w)" using at(4) by (simp add: holds_def journal_def)
        show "sum_of sc (journal w') + (only (scope_of r) (rv_qty r) sc + e sc) \<le> sum_of sc (journal w) + e sc" for sc
          using True unfolding rows(1) j by (auto simp: sum_of_replace only_def live_def scope_of_def)
      qed
      then show "holds (\<lambda>x. only (scope_of r) (rv_qty r) x + e x) (wd_iv w') (rn_now rn) w'"
        using at(4) by (simp add: holds_def w'_def set_journal_def journal_def)
      show "unused (rn_id rn) n (rn_top rn) (journal w')" using at(6) unfolding rows(1) j by (simp add: unused_def)
      show "uuid_rows (journal w')" using at(7) unfolding rows(1) j by (simp add: uuid_rows_def)
      show "seen_row (rn_tenant rn) (journal w') h" if "h \<in> S" for h by (rule seen_row_evolves [OF at(8) [OF that] ev])
      show "rn_first rn \<le> n" by (rule at(5))
      show "calm w'" if "rn_calm rn" using at(9) [OF that] by (simp add: w'_def set_journal_def)
      show "own_held rn (journal w') \<subseteq> A - {i}" if "rn_calm rn"
      proof -
        have "own_held rn (journal w') \<subseteq> own_held rn (journal w)"
          unfolding rows(1) j own_held_def by auto
        moreover have "i \<notin> own_held rn (journal w')" using gone by (auto simp: own_held_def)
        ultimately show ?thesis using at(10) [OF that] by blast
      qed
    qed
    moreover have "w' = set_journal (journal w') w" by (subst j) (rule w'_def)
    ultimately show ?thesis using True run ev gone by blast
  next
    case False
    have none: "find (\<lambda>r. rv_id r = i \<and> ?P r) (journal w) = None"
      using only_r False by (auto simp: find_None_iff)
    have same: "update_where (\<lambda>r. rv_id r = i \<and> ?P r) ?g (journal w) = journal w" by (rule update_none [OF none])
    have undo: "set_journal (journal w) w = w" by (simp add: set_journal_def journal_def)
    have "row_by_id t i w \<noteq> None" using assms(2-4) by (auto simp: row_by_id_def find_None_iff)
    then have "releaseInTx t i w = (Inl conflict, w)"
      unfolding releaseInTx_def releaseFromStateInTx_def using assms(5) step none same undo by (auto simp: bind_def)
    with False show ?thesis by blast
  qed
qed

end
