(* ===== verification/AllocationRelease.thy ===== *)
theory AllocationRelease
  imports AllocationWorld
begin

text \<open>
  The same over the site: what a transaction leaves, what giving holds back leaves, and that the release of the holds no line
  references never throws and leaves none of them held when all transactions commit.
\<close>

section \<open>The site during a run\<close>

text \<open>The inventory as above; the tables outside it are those of \<open>db\<close>.\<close>

definition outside :: "run \<Rightarrow> site \<Rightarrow> outbound_db" where
  "outside rn s = (si_db s)\<lparr>ob_iv := rn_iv rn\<rparr>"

definition site_at :: "run \<Rightarrow> outbound_db \<Rightarrow> (stock_scope \<Rightarrow> int) \<Rightarrow> uuid set \<Rightarrow> reservation_row set \<Rightarrow> site \<Rightarrow> bool" where
  "site_at rn db e A S s = (world_at rn (si_fresh s) e A S (iv_world s) \<and> outside rn s = db)"

lemma site_at_mono: "site_at rn db e A S s \<Longrightarrow> A \<subseteq> B \<Longrightarrow> T \<subseteq> S \<Longrightarrow> site_at rn db e B T s"
  unfolding site_at_def by (metis world_at_mono world_at_forget)

lemma iv_world_simps [simp]:
  "wd_iv (iv_world s) = ob_iv (si_db s)" "wd_store (iv_world s) = wd_store (si_world s)" "wd_txs (iv_world s) = wd_txs (si_world s)"
  "wd_now (iv_world s) = wd_now (si_world s)"
  by (simp_all add: iv_world_def)

lemma in_inventory_run:
  assumes "in_inventory m s = (r, s')"
  shows "m (iv_world s) = (r, iv_world s')" "si_fresh s' = si_fresh s" "outside rn s' = outside rn s"
    "si_goods s' = si_goods s" "ob_lines (si_db s') = ob_lines (si_db s)" "si_exhausted s' = si_exhausted s" "si_offsets s' = si_offsets s"
proof -
  obtain w where w: "m (iv_world s) = (r, w)" "s' = s\<lparr>si_db := (si_db s)\<lparr>ob_iv := wd_iv w\<rparr>, si_world := w\<rparr>"
    using assms by (auto simp: in_inventory_def split: prod.splits)
  then show "m (iv_world s) = (r, iv_world s')" "si_fresh s' = si_fresh s" "outside rn s' = outside rn s"
    "si_goods s' = si_goods s" "ob_lines (si_db s') = ob_lines (si_db s)" "si_exhausted s' = si_exhausted s" "si_offsets s' = si_offsets s"
    by (simp_all add: iv_world_def outside_def)
qed

lemma keeps_inventory:
  assumes "inert m" and "run_ok rn"
  shows "keeps (site_at rn db none A S) (in_inventory m)"
proof -
  have "site_at rn db none A S s'" if s: "site_at rn db none A S s" and run: "in_inventory m s = (r, s')" for s r s'
  proof -
    note step = in_inventory_run [OF run]
    have "world_at rn (si_fresh s) none A S (iv_world s)" using s by (simp add: site_at_def)
    from keepsD [OF inert_world [OF assms] this] have "world_at rn (si_fresh s) none A S (iv_world s')" unfolding step(1) snd_conv .
    then show ?thesis using s by (simp add: site_at_def step)
  qed
  then show ?thesis by (auto simp: hoare_def split: prod.split sum.split)
qed

text \<open>A transaction: its body's outcome, or the tables as they were.\<close>

lemma hoare_tenant_tx:
  assumes "\<And>s. P s \<Longrightarrow> ReplyLost \<notin> set (wd_txs (si_world s))"
    and "\<And>s v s'. P s \<Longrightarrow> body s = (Inr v, s') \<Longrightarrow> Q v s' \<and> E database_down (s'\<lparr>si_db := si_db s\<rparr>) \<and> wd_txs (si_world s') = wd_txs (si_world s)"
    and "\<And>s e s'. P s \<Longrightarrow> body s = (Inl e, s') \<Longrightarrow> E e (s'\<lparr>si_db := si_db s\<rparr>)"
    and "\<And>v s fs. Q v s \<Longrightarrow> set fs \<subseteq> set (wd_txs (si_world s)) \<Longrightarrow> Q v (s\<lparr>si_world := (si_world s)\<lparr>wd_txs := fs\<rparr>\<rparr>)"
    and "\<And>s fs. E database_down s \<Longrightarrow> set fs \<subseteq> set (wd_txs (si_world s)) \<Longrightarrow> E database_down (s\<lparr>si_world := (si_world s)\<lparr>wd_txs := fs\<rparr>\<rparr>)"
  shows "hoare P (withTenantTransaction body) Q E"
proof (rule hoareI)
  fix s v s'
  assume s: "P s" and run: "withTenantTransaction body s = (Inr v, s')"
  obtain b where b: "body s = (Inr v, b)" and out: "(wd_txs (si_world b) = [] \<and> s' = b) \<or>
      (\<exists>f fs. wd_txs (si_world b) = f # fs \<and> f = Delivered \<and> s' = b\<lparr>si_world := (si_world b)\<lparr>wd_txs := fs\<rparr>\<rparr>)"
    using run by (auto simp: withTenantTransaction_def Let_def split: prod.splits sum.splits list.splits fate.splits)
  from out show "Q v s'"
  proof (elim disjE exE conjE)
    fix f fs
    assume "wd_txs (si_world b) = f # fs" "s' = b\<lparr>si_world := (si_world b)\<lparr>wd_txs := fs\<rparr>\<rparr>"
    moreover from this have "set fs \<subseteq> set (wd_txs (si_world b))" by auto
    ultimately show ?thesis using assms(4) assms(2) [OF s b] by simp
  qed (use assms(2) [OF s b] in simp)
next
  fix s e s'
  assume s: "P s" and run: "withTenantTransaction body s = (Inl e, s')"
  obtain r b where b: "body s = (r, b)" by force
  show "E e s'"
  proof (cases r)
    case (Inl e')
    with run b have "e' = e" "s' = b\<lparr>si_db := si_db s\<rparr>" by (simp_all add: withTenantTransaction_def)
    with assms(3) [OF s] b Inl show ?thesis by simp
  next
    case (Inr v)
    note body = assms(2) [OF s b [unfolded Inr]]
    obtain f fs where txs: "wd_txs (si_world b) = f # fs" using run b Inr by (cases "wd_txs (si_world b)") (auto simp: withTenantTransaction_def)
    let ?u = "b\<lparr>si_db := si_db s\<rparr>"
    have "f \<in> set (wd_txs (si_world s))" using body txs by (metis list.set_intros(1))
    then have f: "f \<noteq> ReplyLost" using assms(1) [OF s] by metis
    have "withTenantTransaction body s = (case f of Delivered \<Rightarrow> (Inr v, b\<lparr>si_world := (si_world b)\<lparr>wd_txs := fs\<rparr>\<rparr>)
        | NotSent \<Rightarrow> (Inl database_down, ?u\<lparr>si_world := (si_world ?u)\<lparr>wd_txs := fs\<rparr>\<rparr>)
        | ReplyLost \<Rightarrow> (Inl database_down, b\<lparr>si_world := (si_world b)\<lparr>wd_txs := fs\<rparr>\<rparr>))"
      unfolding withTenantTransaction_def b Inr prod.case sum.case txs list.case Let_def by (simp split: fate.split)
    with run f have "e = database_down" and s': "s' = ?u\<lparr>si_world := (si_world ?u)\<lparr>wd_txs := fs\<rparr>\<rparr>"
      by (cases f; simp)+
    have "E database_down (b\<lparr>si_db := si_db s\<rparr>)" using body by blast
    moreover have "set fs \<subseteq> set (wd_txs (si_world (b\<lparr>si_db := si_db s\<rparr>)))" using txs by auto
    ultimately have "E database_down s'" unfolding s' by (rule assms(5))
    with \<open>e = database_down\<close> show ?thesis by (simp only:)
  qed
qed

lemma site_at_txs:
  assumes "site_at rn db e A S s" and "set fs \<subseteq> set (wd_txs (si_world s))"
  shows "site_at rn db e A S (s\<lparr>si_world := (si_world s)\<lparr>wd_txs := fs\<rparr>\<rparr>)"
proof -
  have "iv_world (s\<lparr>si_world := (si_world s)\<lparr>wd_txs := fs\<rparr>\<rparr>) = (iv_world s)\<lparr>wd_txs := fs\<rparr>" by (simp add: iv_world_def)
  moreover have "world_at rn n e A S (w\<lparr>wd_txs := fs\<rparr>)" if "world_at rn n e A S w" "set fs \<subseteq> set (wd_txs w)" for n w
    using that by (auto simp: world_at_def holds_def journal_def)
  ultimately show ?thesis using assms by (simp add: site_at_def outside_def)
qed

lemma site_at_lost: "site_at rn db e A S s \<Longrightarrow> ReplyLost \<notin> set (wd_txs (si_world s))"
  by (auto simp: site_at_def world_at_def holds_def)

lemma keeps_tx_reads: "keeps (site_at rn db e A S) (withTenantTransaction (read f))"
proof (rule hoare_tenant_tx)
  show "site_at rn db e A S s \<Longrightarrow> ReplyLost \<notin> set (wd_txs (si_world s))" for s by (rule site_at_lost)
  show "site_at rn db e A S s \<Longrightarrow> read f s = (Inr v, s') \<Longrightarrow>
      site_at rn db e A S s' \<and> site_at rn db e A S (s'\<lparr>si_db := si_db s\<rparr>) \<and> wd_txs (si_world s') = wd_txs (si_world s)" for s v s'
    by simp
  show "site_at rn db e A S s \<Longrightarrow> read f s = (Inl x, s') \<Longrightarrow> site_at rn db e A S (s'\<lparr>si_db := si_db s\<rparr>)" for s x s' by simp
qed (rule site_at_txs; assumption)+

lemma hoare_tx_reads:
  "hoare (site_at rn db e A S) (withTenantTransaction (read f)) (\<lambda>v s. site_at rn db e A S s \<and> (\<exists>s0. site_at rn db e A S s0 \<and> v = f s0 \<and>
     journal (iv_world s) = journal (iv_world s0))) (\<lambda>_. site_at rn db e A S)"
proof (rule hoare_tenant_tx)
  show "site_at rn db e A S s \<Longrightarrow> ReplyLost \<notin> set (wd_txs (si_world s))" for s by (rule site_at_lost)
  show "site_at rn db e A S s \<Longrightarrow> read f s = (Inr v, s') \<Longrightarrow>
      (site_at rn db e A S s' \<and> (\<exists>s0. site_at rn db e A S s0 \<and> v = f s0 \<and> journal (iv_world s') = journal (iv_world s0))) \<and>
      site_at rn db e A S (s'\<lparr>si_db := si_db s\<rparr>) \<and> wd_txs (si_world s') = wd_txs (si_world s)" for s v s'
    by auto
  show "site_at rn db e A S s \<Longrightarrow> read f s = (Inl x, s') \<Longrightarrow> site_at rn db e A S (s'\<lparr>si_db := si_db s\<rparr>)" for s x s' by simp
  show "site_at rn db e A S (s\<lparr>si_world := (si_world s)\<lparr>wd_txs := fs\<rparr>\<rparr>) \<and>
      (\<exists>s0. site_at rn db e A S s0 \<and> v = f s0 \<and> journal (iv_world (s\<lparr>si_world := (si_world s)\<lparr>wd_txs := fs\<rparr>\<rparr>)) = journal (iv_world s0))"
    if "site_at rn db e A S s \<and> (\<exists>s0. site_at rn db e A S s0 \<and> v = f s0 \<and> journal (iv_world s) = journal (iv_world s0))"
      and "set fs \<subseteq> set (wd_txs (si_world s))" for v s fs
    using that site_at_txs by (auto simp: journal_def)
qed (rule site_at_txs; assumption)+

section \<open>Giving holds back\<close>

lemma order_not_buffer: "ORDER_OWNER_TYPE \<noteq> BUFFER_OWNER_TYPE"
  by (simp add: ORDER_OWNER_TYPE_def BUFFER_OWNER_TYPE_def)

lemma seen_row_facts:
  assumes "world_at rn n e A S w" and "h \<in> S"
  obtains r where "r \<in> set (journal w)" "rv_id r = rv_id h" "rv_tenant r = rn_tenant rn" "uuid_shape (rv_id h)"
    "scope_of r = (rn_tenant rn, rv_wh h, rv_sku h)" "rv_qty r = rv_qty h" "rv_owner r = rv_owner h" "rv_owner_type r = ORDER_OWNER_TYPE"
    "row_ok r" "rv_expires r = rv_expires h"
proof -
  note at = world_atD [OF assms(1)]
  obtain r where r: "r \<in> set (journal w)" "row_step h r" "rv_owner_type h = ORDER_OWNER_TYPE" "rv_tenant h = rn_tenant rn"
    using at(8) [OF assms(2)] by (auto simp: seen_row_def)
  have "row_ok r" "uuid_shape (rv_id r)" using r(1) at(2,7) by (simp_all add: journal_ok_def uuid_rows_def)
  with r that show ?thesis using order_not_buffer by (auto simp: row_step_def owner_scope_of_def scope_of_def)
qed

lemma in_inventory_Inr: "m (iv_world s) = (r, w') \<Longrightarrow> in_inventory m s = (r, s\<lparr>si_db := (si_db s)\<lparr>ob_iv := wd_iv w'\<rparr>, si_world := w'\<rparr>)"
  by (simp add: in_inventory_def)

lemma journal_key: "journal_ok rows \<Longrightarrow> q \<in> set rows \<Longrightarrow> r \<in> set rows \<Longrightarrow> rv_id q = rv_id r \<Longrightarrow> q = r"
  by (auto simp: journal_ok_def distinct_map inj_on_def)

definition not_held :: "uuid \<Rightarrow> reservation_row list \<Rightarrow> bool" where
  "not_held i rows = (\<forall>q \<in> set rows. rv_id q = i \<longrightarrow> rv_state q \<noteq> Held)"

lemma not_held_evolves:
  assumes "evolves rows rows'" and "not_held i rows" and "journal_ok rows'" and "\<exists>r \<in> set rows. rv_id r = i"
  shows "not_held i rows'"
proof -
  obtain old new where o: "rows' = old @ new" "list_all2 row_step rows old" using assms(1) by (auto simp: evolves_def)
  obtain r where r: "r \<in> set rows" "rv_id r = i" using assms(4) by blast
  then obtain k where k: "k < length rows" "r = rows ! k" by (auto simp: in_set_conv_nth)
  with o(2) have step: "row_step r (old ! k)" and "old ! k \<in> set rows'" by (auto simp: list_all2_conv_all_nth o(1))
  moreover have "rv_state r \<noteq> Held" using assms(2) r by (simp add: not_held_def)
  ultimately have k': "rv_state (old ! k) \<noteq> Held" "rv_id (old ! k) = i" "old ! k \<in> set rows'"
    using r by (auto simp: row_step_def state_step_def)
  have "rv_state q \<noteq> Held" if "q \<in> set rows'" "rv_id q = i" for q
    using journal_key [OF assms(3) that(1) k'(3)] that(2) k'(1,2) by simp
  then show ?thesis by (simp add: not_held_def)
qed

lemma release_each_spec:
  assumes "site_at rn db e A S s" and "set hs \<subseteq> S"
  shows "\<exists>rs s'. release_each (rn_tenant rn) hs s = (Inr rs, s') \<and> restores_ok (rn_tenant rn) rs \<and>
    site_at rn db (\<lambda>x. owed_to (rn_tenant rn) rs x + e x) (A - rv_id ` set hs) S s' \<and>
    iv_world (s'\<lparr>si_db := si_db s\<rparr>) = iv_world s \<and> si_fresh s' = si_fresh s \<and> evolves (journal (iv_world s)) (journal (iv_world s')) \<and>
    (\<forall>h \<in> set hs. not_held (rv_id h) (journal (iv_world s')))"
  using assms
proof (induction hs arbitrary: s e A)
  case Nil
  then show ?case by (simp add: evolves_refl none_def)
next
  case (Cons h hs)
  let ?t = "rn_tenant rn"
  have w: "world_at rn (si_fresh s) e A S (iv_world s)" using Cons.prems(1) by (simp add: site_at_def)
  obtain r where r: "r \<in> set (journal (iv_world s))" "rv_id r = rv_id h" "rv_tenant r = ?t" "uuid_shape (rv_id h)"
    "scope_of r = (?t, rv_wh h, rv_sku h)" "rv_qty r = rv_qty h" "row_ok r"
    using seen_row_facts [OF w] Cons.prems(2) by (metis list.set_intros(1) subsetD)
  from release_outcome [OF w r(1-4)]
  consider (released) r' w' where "releaseInTx ?t (rv_id h) (iv_world s) = (Inr r', w')"
      "world_at rn (si_fresh s) (\<lambda>x. only (scope_of r) (rv_qty r) x + e x) (A - {rv_id h}) S w'"
      "w' = set_journal (journal w') (iv_world s)" "evolves (journal (iv_world s)) (journal w')" "not_held (rv_id h) (journal w')"
    | (ended) "releaseInTx ?t (rv_id h) (iv_world s) = (Inl conflict, iv_world s)" "rv_state r \<noteq> Held"
    unfolding not_held_def by blast
  then obtain rs0 e1 s1 where one: "attempt (bind (in_inventory (releaseInTx ?t (rv_id h))) (\<lambda>_. ret [(rv_wh h, rv_sku h, rv_qty h)]))
       (\<lambda>e. if isRaceLoss e then ret [] else raise e) s = (Inr rs0, s1)"
    and e1: "e1 = (\<lambda>x. owed_to ?t rs0 x + e x)" and ok: "restores_ok ?t rs0"
    and at1: "site_at rn db e1 (A - {rv_id h}) S s1" and rest1: "iv_world (s1\<lparr>si_db := si_db s\<rparr>) = iv_world s" "si_fresh s1 = si_fresh s"
      "evolves (journal (iv_world s)) (journal (iv_world s1))" "not_held (rv_id h) (journal (iv_world s1))"
  proof cases
    case released
    let ?s1 = "s\<lparr>si_db := (si_db s)\<lparr>ob_iv := wd_iv w'\<rparr>, si_world := w'\<rparr>"
    have iv1: "iv_world ?s1 = w'" by (simp add: iv_world_def)
    show thesis
    proof (rule that [of "[(rv_wh h, rv_sku h, rv_qty h)]" ?s1 "\<lambda>x. only (scope_of r) (rv_qty r) x + e x"])
      show "attempt (bind (in_inventory (releaseInTx ?t (rv_id h))) (\<lambda>_. ret [(rv_wh h, rv_sku h, rv_qty h)]))
          (\<lambda>e. if isRaceLoss e then ret [] else raise e) s = (Inr [(rv_wh h, rv_sku h, rv_qty h)], ?s1)"
        by (simp add: attempt_def bind_def in_inventory_Inr [where m = "releaseInTx ?t (rv_id h)" and s = s, OF released(1)])
      show "(\<lambda>x. only (scope_of r) (rv_qty r) x + e x) = (\<lambda>x. owed_to ?t [(rv_wh h, rv_sku h, rv_qty h)] x + e x)"
        by (simp add: r(5,6) none_def)
      show "restores_ok ?t [(rv_wh h, rv_sku h, rv_qty h)]" using r(5-7) by (auto simp: row_ok_def scope_of_def)
      show "site_at rn db (\<lambda>x. only (scope_of r) (rv_qty r) x + e x) (A - {rv_id h}) S ?s1"
        using released(2) Cons.prems(1) unfolding site_at_def iv1 by (simp add: outside_def)
      show "iv_world (?s1\<lparr>si_db := si_db s\<rparr>) = iv_world s" by (subst released(3)) (simp add: iv_world_def set_journal_def)
      show "evolves (journal (iv_world s)) (journal (iv_world ?s1))" "not_held (rv_id h) (journal (iv_world ?s1))"
        unfolding iv1 by (rule released)+
    qed simp
  next
    case ended
    let ?s1 = "s\<lparr>si_db := (si_db s)\<lparr>ob_iv := wd_iv (iv_world s)\<rparr>, si_world := iv_world s\<rparr>"
    have iv1: "iv_world ?s1 = iv_world s" by (simp add: iv_world_def)
    have gone: "not_held (rv_id h) (journal (iv_world s))"
    proof -
      have "rv_state q \<noteq> Held" if "q \<in> set (journal (iv_world s))" "rv_id q = rv_id h" for q
        using journal_key [OF world_atD(2) [OF w] that(1) r(1)] that(2) r(2) ended(2) by simp
      then show ?thesis by (simp add: not_held_def)
    qed
    have own: "own_held rn (journal (iv_world s)) \<subseteq> B - {rv_id h}"
      if "own_held rn (journal (iv_world s)) \<subseteq> B" for n B
      using that gone by (auto simp: own_held_def not_held_def)
    show thesis
    proof (rule that [of "[]" ?s1 e])
      show "attempt (bind (in_inventory (releaseInTx ?t (rv_id h))) (\<lambda>_. ret [(rv_wh h, rv_sku h, rv_qty h)]))
          (\<lambda>e. if isRaceLoss e then ret [] else raise e) s = (Inr [], ?s1)"
        by (simp add: attempt_def bind_def in_inventory_Inr [where m = "releaseInTx ?t (rv_id h)" and s = s, OF ended(1)] isRaceLoss_def conflict_def)
      show "site_at rn db e (A - {rv_id h}) S ?s1"
        using Cons.prems(1) own unfolding site_at_def iv1 world_at_def by (simp add: outside_def iv_world_def)
      show "evolves (journal (iv_world s)) (journal (iv_world ?s1))" "not_held (rv_id h) (journal (iv_world ?s1))"
        unfolding iv1 by (rule evolves_refl, rule gone)
    qed (simp_all add: iv_world_def none_def)
  qed
  from Cons.IH [OF at1] Cons.prems(2) obtain rs s' where more: "release_each ?t hs s1 = (Inr rs, s')" "restores_ok ?t rs"
    "site_at rn db (\<lambda>x. owed_to ?t rs x + e1 x) (A - {rv_id h} - rv_id ` set hs) S s'"
    "iv_world (s'\<lparr>si_db := si_db s1\<rparr>) = iv_world s1" "si_fresh s' = si_fresh s1" "evolves (journal (iv_world s1)) (journal (iv_world s'))"
    "\<forall>h \<in> set hs. not_held (rv_id h) (journal (iv_world s'))" by auto
  have "release_each ?t (h # hs) s = (Inr (rs0 @ rs), s')"
    by (subst release_each.simps, subst bind_def) (simp only: one prod.case sum.case bind_def more(1) proc_simps)
  moreover have "iv_world (s'\<lparr>si_db := si_db s\<rparr>) = iv_world s"
    using arg_cong [OF more(4), of "\<lambda>w. w\<lparr>wd_iv := ob_iv (si_db s)\<rparr>"] rest1(1) by (simp add: iv_world_def)
  moreover have "(\<lambda>x. owed_to ?t rs x + e1 x) = (\<lambda>x. owed_to ?t (rs0 @ rs) x + e x)" by (simp add: e1 fun_eq_iff)
  moreover have "A - {rv_id h} - rv_id ` set hs = A - rv_id ` set (h # hs)" by auto
  moreover have "not_held (rv_id h) (journal (iv_world s'))"
  proof (rule not_held_evolves [OF more(6) rest1(4)])
    show "journal_ok (journal (iv_world s'))" using more(3) by (simp add: site_at_def world_at_def)
    show "\<exists>q \<in> set (journal (iv_world s1)). rv_id q = rv_id h"
      using at1 Cons.prems(2) seen_row_facts by (metis list.set_intros(1) site_at_def subsetD)
  qed
  ultimately show ?case using more(2,3,5,7) ok rest1(2) evolves_trans [OF rest1(3) more(6)] by auto
qed

lemma hoare_site_after:
  assumes "hoare P m (\<lambda>_. Q) (\<lambda>_. Q)" and "P w"
  shows "Q (snd (m w))"
  using hoareD [OF assms] by (cases "m w"; cases "fst (m w)") auto

lemma world_restore:
  assumes "well_formed (rn_tenant rn, wh, sk)" and "0 \<le> u" and "\<And>x. 0 \<le> e x"
  shows "hoare (world_at rn n (\<lambda>x. only (rn_tenant rn, wh, sk) u x + e x) A S) (restoreReservedUnits (rn_tenant rn) wh sk u)
    (\<lambda>_. world_at rn n e A S) (\<lambda>_. world_at rn n e A S)"
proof -
  let ?e = "\<lambda>x. only (rn_tenant rn, wh, sk) u x + e x" and ?m = "restoreReservedUnits (rn_tenant rn) wh sk u"
  have "world_at rn n e A S w'" if w: "world_at rn n ?e A S w" and run: "?m w = (r, w')" for w r w'
  proof -
    note at = world_atD [OF w]
    have "hoare (holds ?e (wd_iv w) (rn_now rn)) ?m (\<lambda>_. holds e (wd_iv w) (rn_now rn)) (\<lambda>_. holds e (wd_iv w) (rn_now rn))"
      by (rule hoare_restore_more [OF assms(1) _ assms(2,3)]) (use at(2) in \<open>simp add: journal_def\<close>)
    from hoare_site_after [OF this at(4)] have h: "holds e (wd_iv w) (rn_now rn) w'" by (simp add: run)
    then have same: "wd_iv w' = wd_iv w" "journal w' = journal w" by (simp_all add: holds_def journal_def)
    have "calm w'" if "rn_calm rn" using keepsD [OF calm_restore at(9) [OF that]] run by (metis snd_conv)
    with w h same show ?thesis by (simp add: world_at_def)
  qed
  then show ?thesis by (auto simp: hoare_def split: prod.split sum.split)
qed

lemma site_restore:
  assumes "well_formed (rn_tenant rn, wh, sk)" and "0 \<le> u" and "\<And>x. 0 \<le> e x"
  shows "hoare (site_at rn db (\<lambda>x. only (rn_tenant rn, wh, sk) u x + e x) A S) (in_inventory (restoreReservedUnits (rn_tenant rn) wh sk u))
    (\<lambda>_. site_at rn db e A S) (\<lambda>_. site_at rn db e A S)"
proof -
  let ?e = "\<lambda>x. only (rn_tenant rn, wh, sk) u x + e x" and ?m = "restoreReservedUnits (rn_tenant rn) wh sk u"
  have "site_at rn db e A S s'" if s: "site_at rn db ?e A S s" and run: "in_inventory ?m s = (r, s')" for s r s'
  proof -
    note step = in_inventory_run [OF run]
    have "world_at rn (si_fresh s) ?e A S (iv_world s)" using s by (simp add: site_at_def)
    from hoare_site_after [OF world_restore [OF assms] this] have "world_at rn (si_fresh s) e A S (iv_world s')" unfolding step(1) snd_conv .
    then show ?thesis using s by (simp add: site_at_def step)
  qed
  then show ?thesis by (auto simp: hoare_def split: prod.split sum.split)
qed

lemma hoare_applyRestores:
  assumes "restores_ok (rn_tenant rn) rs"
  shows "hoare (site_at rn db (owed_to (rn_tenant rn) rs) A S) (applyRestores (rn_tenant rn) rs) (\<lambda>_. site_at rn db none A S) (\<lambda>_ _. False)"
  using assms unfolding applyRestores_def
proof (induction rs)
  case Nil
  show ?case unfolding for_each.simps owed_simps by (rule hoare_ret)
next
  case (Cons x rs)
  obtain wh sk u where x: "x = (wh, sk, u)" by (cases x)
  let ?t = "rn_tenant rn"
  have ok: "well_formed (?t, wh, sk)" "0 \<le> u" "restores_ok ?t rs" using Cons.prems by (simp_all add: x)
  have "hoare (site_at rn db (owed_to ?t (x # rs)) A S) (attempt (in_inventory (restoreReservedUnits ?t wh sk u)) (\<lambda>_. ret ()))
      (\<lambda>_. site_at rn db (owed_to ?t rs) A S) (\<lambda>_ _. False)"
    unfolding x owed_simps by (rule hoare_attempt [OF site_restore [OF ok(1,2) owed_nonneg [OF ok(3)]]]) (rule hoare_ret)
  from hoare_bind [OF this Cons.IH [OF ok(3)]] show ?case unfolding x for_each.simps split_conv .
qed

section \<open>What no line references\<close>

definition refs_of :: "order_row \<Rightarrow> outbound_db \<Rightarrow> uuid set" where
  "refs_of ord db = {i. \<exists>l \<in> set (lines_of_order db ord). ol_reservation l = Some i}"

lemma map_filter_set: "set (List.map_filter f xs) = {y. \<exists>x \<in> set xs. f x = Some y}"
  by (induction xs) (auto simp: List.map_filter_simps split: option.splits)

lemma unreferenced_set:
  "set (unreferenced seen hs) \<subseteq> set hs" "h \<in> set (unreferenced seen hs) \<Longrightarrow> rv_id h \<notin> set seen"
  "h \<in> set hs \<Longrightarrow> rv_id h \<in> set seen \<union> rv_id ` set (unreferenced seen hs)"
  by (induction seen hs rule: unreferenced.induct) (auto split: if_splits)

lemma unreferencedInTx_set:
  assumes "lines_of_order (si_db s) ord = lines_of_order db ord"
  shows "set (unreferencedInTx ord given s) \<subseteq> set given" "h \<in> set (unreferencedInTx ord given s) \<Longrightarrow> rv_id h \<notin> refs_of ord db"
    "h \<in> set given \<Longrightarrow> rv_id h \<in> refs_of ord db \<union> rv_id ` set (unreferencedInTx ord given s)"
proof -
  let ?seen = "List.map_filter ol_reservation (lines_of_order db ord)"
  have refs: "set ?seen = refs_of ord db" by (simp add: map_filter_set refs_of_def)
  show "set (unreferencedInTx ord given s) \<subseteq> set given" "h \<in> set (unreferencedInTx ord given s) \<Longrightarrow> rv_id h \<notin> refs_of ord db"
    "h \<in> set given \<Longrightarrow> rv_id h \<in> refs_of ord db \<union> rv_id ` set (unreferencedInTx ord given s)"
    unfolding unreferencedInTx_def assms refs [symmetric] by (rule unreferenced_set; assumption?)+
qed

lemma lines_outside: "lines_of_order (outside rn s) ord = lines_of_order (si_db s) ord"
  by (simp add: lines_of_order_def outside_def)

lemma release_unreferenced_spec:
  assumes "site_at rn db e A S s" and "set given \<subseteq> S" and "rn_tenant rn = or_tenant ord"
  shows "\<exists>rs s'. release_unreferenced ord given s = (Inr rs, s') \<and> restores_ok (rn_tenant rn) rs \<and>
    site_at rn db (\<lambda>x. owed_to (rn_tenant rn) rs x + e x) (A - (rv_id ` set given - refs_of ord db)) S s' \<and>
    iv_world (s'\<lparr>si_db := si_db s\<rparr>) = iv_world s \<and> si_fresh s' = si_fresh s \<and> evolves (journal (iv_world s)) (journal (iv_world s')) \<and>
    (\<forall>i \<in> rv_id ` set given - refs_of ord db. not_held i (journal (iv_world s')))"
proof -
  let ?hs = "unreferencedInTx ord given s"
  have lines: "lines_of_order (si_db s) ord = lines_of_order db ord"
    using assms(1) lines_outside [of rn s ord] by (simp add: site_at_def)
  note un = unreferencedInTx_set [OF lines]
  have sub: "set ?hs \<subseteq> S" using un(1) assms(2) by (rule order_trans)
  have ids: "rv_id ` set ?hs = rv_id ` set given - refs_of ord db" using un by blast
  obtain rs s' where r: "release_each (rn_tenant rn) ?hs s = (Inr rs, s')" "restores_ok (rn_tenant rn) rs"
    "site_at rn db (\<lambda>x. owed_to (rn_tenant rn) rs x + e x) (A - rv_id ` set ?hs) S s'" "iv_world (s'\<lparr>si_db := si_db s\<rparr>) = iv_world s"
    "si_fresh s' = si_fresh s" "evolves (journal (iv_world s)) (journal (iv_world s'))" "\<forall>h \<in> set ?hs. not_held (rv_id h) (journal (iv_world s'))"
    using release_each_spec [OF assms(1) sub] by blast
  have "release_unreferenced ord given s = (Inr rs, s')"
    using r(1) assms(3) by (simp add: release_unreferenced_def bind_def)
  moreover have "not_held i (journal (iv_world s'))" if "i \<in> rv_id ` set given - refs_of ord db" for i
    using that r(7) unfolding ids [symmetric] by blast
  ultimately show ?thesis using r(2-6) unfolding ids by blast
qed

text \<open>After it, when all transactions commit, every one of the given is ended or referenced.\<close>

lemma hoare_releaseUnreferencedUnderLock:
  assumes "set given \<subseteq> S" and "rn_tenant rn = or_tenant ord"
  shows "hoare (site_at rn db none A S) (releaseUnreferencedUnderLock ord given)
    (\<lambda>_. site_at rn db none (A - (rv_id ` set given - refs_of ord db)) S) (\<lambda>_ _. False)"
proof (cases "given = []")
  case True
  then show ?thesis by (simp add: releaseUnreferencedUnderLock_def hoare_ret)
next
  case False
  let ?t = "rn_tenant rn" and ?A = "A - (rv_id ` set given - refs_of ord db)"
  let ?Q = "\<lambda>rs s. restores_ok ?t rs \<and> site_at rn db (owed_to ?t rs) ?A S s"
  let ?E = "\<lambda>(_ :: failure) s. site_at rn db none A S s \<and> \<not> rn_calm rn"
  have tx: "hoare (site_at rn db none A S) (withTenantTransaction (release_unreferenced ord given)) ?Q ?E"
  proof (rule hoareI)
    fix s rs s'
    assume s: "site_at rn db none A S s" and run: "withTenantTransaction (release_unreferenced ord given) s = (Inr rs, s')"
    obtain rs0 b where b: "release_unreferenced ord given s = (Inr rs0, b)" "restores_ok ?t rs0"
      "site_at rn db (\<lambda>x. owed_to ?t rs0 x + none x) ?A S b"
      using release_unreferenced_spec [OF s assms] by blast
    have b3: "site_at rn db (owed_to ?t rs0) ?A S b" using b(3) by simp
    from run b(1) have "rs = rs0 \<and> (s' = b \<or> (\<exists>f fs. wd_txs (si_world b) = f # fs \<and> s' = b\<lparr>si_world := (si_world b)\<lparr>wd_txs := fs\<rparr>\<rparr>))"
      by (auto simp: withTenantTransaction_def Let_def split: list.splits fate.splits)
    then show "?Q rs s'"
    proof (elim conjE disjE exE)
      fix f fs assume "wd_txs (si_world b) = f # fs" "s' = b\<lparr>si_world := (si_world b)\<lparr>wd_txs := fs\<rparr>\<rparr>" "rs = rs0"
      moreover from this have "set fs \<subseteq> set (wd_txs (si_world b))" by auto
      ultimately show ?thesis using b(2) site_at_txs [OF b3] by simp
    qed (use b(2) b3 in simp)
  next
    fix s e s'
    assume s: "site_at rn db none A S s" and run: "withTenantTransaction (release_unreferenced ord given) s = (Inl e, s')"
    obtain rs0 b where b: "release_unreferenced ord given s = (Inr rs0, b)" "iv_world (b\<lparr>si_db := si_db s\<rparr>) = iv_world s" "si_fresh b = si_fresh s"
      using release_unreferenced_spec [OF s assms] by blast
    have txs: "wd_txs (si_world b) = wd_txs (si_world s)" using arg_cong [OF b(2), of wd_txs] by (simp add: iv_world_def)
    obtain f fs where f: "wd_txs (si_world b) = f # fs" using run b(1) by (cases "wd_txs (si_world b)") (auto simp: withTenantTransaction_def)
    then have "f \<noteq> ReplyLost" using site_at_lost [OF s] txs by (metis list.set_intros(1))
    moreover have "f \<noteq> Delivered" using run b(1) f by (auto simp: withTenantTransaction_def)
    ultimately have s': "s' = (b\<lparr>si_db := si_db s\<rparr>)\<lparr>si_world := (si_world (b\<lparr>si_db := si_db s\<rparr>))\<lparr>wd_txs := fs\<rparr>\<rparr>"
      using run b(1) f by (cases f) (auto simp: withTenantTransaction_def)
    have "site_at rn db none A S (b\<lparr>si_db := si_db s\<rparr>)"
      using s unfolding site_at_def b(2) by (simp add: outside_def b(3))
    then have "site_at rn db none A S s'" unfolding s' by (rule site_at_txs) (use f in auto)
    moreover have "\<not> rn_calm rn" using s f txs by (auto simp: site_at_def world_at_def)
    ultimately show "?E e s'" by blast
  qed
  have whole: "site_at rn db none A S s \<and> \<not> rn_calm rn \<Longrightarrow> site_at rn db none ?A S s" for s
    unfolding site_at_def world_at_def by blast
  have after: "hoare (?Q rs) (applyRestores ?t rs) (\<lambda>_. site_at rn db none ?A S) ?E" for rs
    by (rule hoare_fact, rule hoare_conseq [OF hoare_applyRestores]) auto
  show ?thesis
    unfolding releaseUnreferencedUnderLock_def using False assms(2) [symmetric]
    by (simp, intro hoare_attempt [OF hoare_bind [OF tx after]] hoare_ret whole)
qed

end
