(* ===== verification/AllocationIds.thy ===== *)
theory AllocationIds
  imports AllocationRelease
begin

text \<open>
  Two things every step keeps: the ids of the order lines, and that the count of drawn ids never falls. With
  the second, what holds of a site is carried through a run as long as its ids last.
\<close>

section \<open>The ids of the lines and the count of ids\<close>

definition lines_kept :: "uuid list \<times> nat \<Rightarrow> site \<Rightarrow> bool" where
  "lines_kept ids s = (map ol_id (ob_lines (si_db s)) = fst ids \<and> snd ids \<le> si_fresh s)"

named_theorems same_lines "procedures that keep the ids of the order lines"

lemma same_lines_basic [same_lines]: "keeps (lines_kept ids) (ret v)" "keeps (lines_kept ids) (raise e)" "keeps (lines_kept ids) (lift r)"
    "keeps (lines_kept ids) (read f)"
  by (rule keeps_basic)+

lemma same_lines_inventory [same_lines]: "keeps (lines_kept ids) (in_inventory m)"
  by (auto simp: hoare_def in_inventory_def lines_kept_def split: prod.split sum.split)

lemma same_lines_tx [same_lines]: "keeps (lines_kept ids) m \<Longrightarrow> keeps (lines_kept ids) (withTenantTransaction m)"
proof -
  assume m: "keeps (lines_kept ids) m"
  have "lines_kept ids (snd (withTenantTransaction m s))" if s: "lines_kept ids s" for s
  proof -
    obtain r b where run: "m s = (r, b)" by force
    have "lines_kept ids b" using keepsD [where P = "lines_kept ids", OF m s] by (simp add: run)
    then show ?thesis using s by (cases r) (simp_all add: withTenantTransaction_def run Let_def lines_kept_def split: list.split fate.split)
  qed
  then show ?thesis by (simp add: hoare_def split: prod.split sum.split) (metis prod.sel(2))
qed

lemma same_lines_state [same_lines]: "keeps (lines_kept ids) (fresh newId)" "keeps (lines_kept ids) (mark_exhausted ord sku)" "keeps (lines_kept ids) no_cache"
    "keeps (lines_kept ids) start_cache" "keeps (lines_kept ids) (set_window t n)"
  by (auto simp: hoare_def lines_kept_def fresh_def mark_exhausted_def no_cache_def start_cache_def set_window_def)

lemmas line_rules = keeps_bind keeps_attempt keeps_for_each hoare_if

lemma same_lines_option: "keeps P a \<Longrightarrow> (\<And>v. keeps P (f v)) \<Longrightarrow> keeps P (case x of None \<Rightarrow> a | Some v \<Rightarrow> f v)"
  by (cases x) simp_all

lemma same_lines_sum: "(\<And>v. keeps P (f v)) \<Longrightarrow> (\<And>v. keeps P (g v)) \<Longrightarrow> keeps P (case x of Inl v \<Rightarrow> f v | Inr v \<Rightarrow> g v)"
  by (cases x) simp_all

lemma same_lines_attempts [same_lines]: "keeps (lines_kept ids) (grant_attempts newId c n)"
  by (induction n) (unfold grant_attempts.simps, (intro line_rules same_lines | assumption)+)

lemma same_lines_release_each [same_lines]: "keeps (lines_kept ids) (release_each t hs)"
  by (induction hs) (unfold release_each.simps, (intro line_rules same_lines | assumption)+)

lemma same_lines_release [same_lines]: "keeps (lines_kept ids) (release_unreferenced ord hs)" "keeps (lines_kept ids) (applyRestores t rs)"
  unfolding release_unreferenced_def applyRestores_def split_beta by (intro line_rules same_lines)+

lemma same_lines_under_lock [same_lines]: "keeps (lines_kept ids) (releaseUnreferencedUnderLock ord hs)"
  unfolding releaseUnreferencedUnderLock_def by (intro line_rules same_lines)

lemma same_lines_components [same_lines]: "keeps (lines_kept ids) (grant_components newId (releaseUnreferencedUnderLock ord) hs cs)"
  by (induction cs arbitrary: hs) (unfold grant_components.simps or_release_def grantLineHold_def, (intro line_rules same_lines same_lines_option | assumption)+)

lemma same_lines_each: "(\<And>p acc. keeps P (f p acc)) \<Longrightarrow> keeps P (grant_each f ps acc)"
proof (induction ps arbitrary: acc)
  case (Cons p ps)
  show ?case unfolding grant_each.simps by (intro keeps_bind keeps_attempt keeps_basic same_lines_sum Cons)
qed (simp add: keeps_basic)

lemma same_lines_grantPhase [same_lines]: "keeps (lines_kept ids) (grantPhase newId plan)"
proof -
  have held: "keeps (lines_kept ids) (heldOfOwner ord i)" for ord i
    unfolding heldOfOwner_def by (intro line_rules same_lines)
  have plain: "keeps (lines_kept ids) (grant_plain newId ord e acc)" for ord e acc
    unfolding grant_plain_def Let_def split_beta grantLineHold_def by (intro line_rules same_lines same_lines_option same_lines_sum held)
  have kit: "keeps (lines_kept ids) (grant_kit newId ord k acc)" for ord k acc
    unfolding grant_kit_def Let_def split_beta grantKitBlock_def by (intro line_rules same_lines same_lines_option same_lines_sum)
  show ?thesis
    unfolding grantPhase_def Let_def split_beta by (intro line_rules same_lines same_lines_option same_lines_each plain kit)
qed

lemma store_key_run:
  assumes "store_key ord key result s = (r, s')"
  shows "\<exists>db1. s' = s\<lparr>si_db := db1\<rparr> \<and> ob_iv db1 = ob_iv (si_db s) \<and> ob_lines db1 = ob_lines (si_db s)"
proof (cases key)
  case None
  with assms show ?thesis by (simp add: store_key_def) (metis site.surjective site.update_convs(1))
next
  case (Some kh)
  obtain k h where kh: "kh = (k, h)" by (cases kh)
  show ?thesis
  proof (cases "writeIdempotencyKey (or_tenant ord) k h (AllocationAnswer result) (si_db s)")
    case (Inl e)
    with assms show ?thesis by (simp add: store_key_def Some kh bind_def) (metis site.surjective site.update_convs(1))
  next
    case (Inr x)
    obtain y db1 where x: "x = (y, db1)" by (cases x)
    have "s' = s\<lparr>si_db := db1\<rparr>" using assms by (simp add: store_key_def Some kh bind_def Inr x modify_db_def)
    with Inr x show ?thesis by (auto simp: writeIdempotencyKey_def split: if_splits)
  qed
qed

lemma write_lines_ids: "write_lines ord gs rows = (rows', al, sk) \<Longrightarrow> map ol_id rows' = map ol_id rows"
proof (induction gs arbitrary: rows rows' al sk)
  case (Cons g gs)
  have "map ol_id (update_where P (hold_line h) rows) = map ol_id rows" for P h
    by (induction rows) (simp_all add: hold_line_def)
  with Cons show ?case by (auto split: if_splits prod.splits)
qed simp

lemma same_lines_write_body [same_lines]: "keeps (lines_kept ids) (write_body plan g actor key)"
proof -
  have writes: "keeps (lines_kept ids) (write_grants plan locked actor key g)" for locked
  proof -
    have "lines_kept ids (snd (write_grants plan locked actor key g s))" if s: "lines_kept ids s" for s
    proof -
      obtain granted skipped where j: "judged_grants plan locked g s = (granted, skipped)" by force
      obtain rows allocated contended where w: "write_lines (ph_order plan) granted (ob_lines (si_db s)) = (rows, allocated, contended)"
        by (cases "write_lines (ph_order plan) granted (ob_lines (si_db s))")
      have rows: "map ol_id rows = fst ids" "snd ids \<le> si_fresh s" using write_lines_ids [OF w] s by (simp_all add: lines_kept_def)
      moreover have "ob_lines (si_db s2) = ob_lines (si_db s1) \<and> si_fresh s2 = si_fresh s1" if "store_key ord key x s1 = (r, s2)" for ord x s1 r s2
        using store_key_run [OF that] by auto
      ultimately show ?thesis unfolding lines_kept_def
        by (auto simp: write_grants_def bind_def j w modify_db_def Let_def announce_def split: prod.split sum.split)
    qed
    then show ?thesis by (simp add: hoare_def split: prod.split sum.split) (metis prod.sel(2))
  qed
  have "keeps (lines_kept ids) (replay_key ord key)" for ord
    unfolding replay_key_def split_beta by (intro line_rules same_lines same_lines_option)
  then show ?thesis
    unfolding write_body_def Let_def split_beta by (intro line_rules same_lines same_lines_option writes)
qed

lemma same_lines_writePhase [same_lines]: "keeps (lines_kept ids) (writePhase plan g actor key)"
  unfolding writePhase_def by (intro line_rules same_lines)

lemma same_lines_core [same_lines]: "keeps (lines_kept ids) (allocateOrderCore newId t i)"
  unfolding allocateOrderCore_def by (intro line_rules same_lines same_lines_sum)

lemma same_lines_verb [same_lines]: "keeps (lines_kept ids) (allocateOrder hash newId t actor i key)"
proof -
  have "keeps (lines_kept ids) (case w of Written result _ _ \<Rightarrow> ret (AllocationAnswer result) | Replayed response _ \<Rightarrow> ret response | Refused e _ \<Rightarrow> raise e)" for w
    by (cases w) (simp_all add: keeps_basic)
  then show ?thesis
    unfolding allocateOrder_def Let_def by (intro line_rules same_lines same_lines_sum)
qed

section \<open>As long as the ids last\<close>

text \<open>
  The ids of a run are those it has drawn when it ends, \<open>rn_top\<close>: what holds of the site before them holds as
  long as no more have been drawn, and no step takes an id back.
\<close>

definition live_at :: "run \<Rightarrow> outbound_db \<Rightarrow> (stock_scope \<Rightarrow> int) \<Rightarrow> uuid set \<Rightarrow> reservation_row set \<Rightarrow> site \<Rightarrow> bool" where
  "live_at rn db e A S s = (si_fresh s \<le> rn_top rn \<longrightarrow> site_at rn db e A S s)"

lemma live_at_mono: "live_at rn db e A S s \<Longrightarrow> A \<subseteq> B \<Longrightarrow> T \<subseteq> S \<Longrightarrow> live_at rn db e B T s"
  unfolding live_at_def using site_at_mono by blast

lemma keeps_fresh:
  assumes "\<And>ids. keeps (lines_kept ids) m"
  shows "keeps (\<lambda>s. n \<le> si_fresh s) m"
proof -
  have "n \<le> si_fresh s'" if "n \<le> si_fresh s" "m s = (r, s')" for s r s'
    using keepsD [where P = "lines_kept (map ol_id (ob_lines (si_db s)), n)" and m = m and w = s, OF assms] that by (simp add: lines_kept_def)
  then show ?thesis by (auto simp: hoare_def split: prod.split sum.split)
qed

lemma hoare_live:
  assumes "hoare P m Q E" and "\<And>ids. keeps (lines_kept ids) m"
  shows "hoare (\<lambda>s. si_fresh s \<le> k \<longrightarrow> P s) m (\<lambda>v s. si_fresh s \<le> k \<longrightarrow> Q v s) (\<lambda>e s. si_fresh s \<le> k \<longrightarrow> E e s)"
proof -
  have le: "si_fresh s \<le> si_fresh s'" if "m s = (r, s')" for s r s'
    using keepsD [where P = "\<lambda>s'. si_fresh s \<le> si_fresh s'" and m = m and w = s, OF keeps_fresh [OF assms(2)]] that by simp
  show ?thesis
  proof (rule hoareI; intro impI)
    fix s v s' assume "si_fresh s \<le> k \<longrightarrow> P s" "m s = (Inr v, s')" "si_fresh s' \<le> k"
    then show "Q v s'" using hoareD(1) [OF assms(1)] le order_trans by blast
  next
    fix s e s' assume "si_fresh s \<le> k \<longrightarrow> P s" "m s = (Inl e, s')" "si_fresh s' \<le> k"
    then show "E e s'" using hoareD(2) [OF assms(1)] le order_trans by blast
  qed
qed

lemma hoare_quiet:
  assumes "hoare P m Q E" and "hoare (\<lambda>_. True) m (\<lambda>_ _. True) (\<lambda>_ _. False)"
  shows "hoare P m Q (\<lambda>_ _. False)"
proof (rule hoareI)
  show "Q v s'" if "P s" "m s = (Inr v, s')" for s v s' using hoareD(1) [OF assms(1) that] .
  show False if "P s" "m s = (Inl e, s')" for s e s' using hoareD(2) [OF assms(2) TrueI that(2)] .
qed

lemma keeps_live_inventory: "inert m \<Longrightarrow> run_ok rn \<Longrightarrow> keeps (live_at rn db none A S) (in_inventory m)"
  unfolding live_at_def by (rule hoare_live [OF keeps_inventory]) (assumption | rule same_lines)+

lemma live_at_txs:
  "live_at rn db e A S s \<Longrightarrow> set fs \<subseteq> set (wd_txs (si_world s)) \<Longrightarrow> live_at rn db e A S (s\<lparr>si_world := (si_world s)\<lparr>wd_txs := fs\<rparr>\<rparr>)"
  using site_at_txs unfolding live_at_def by simp

lemma tx_pure_run:
  assumes "m s = (r0, s)" and "withTenantTransaction m s = (r, s')"
  shows "\<exists>fs. set fs \<subseteq> set (wd_txs (si_world s)) \<and> s' = s\<lparr>si_world := (si_world s)\<lparr>wd_txs := fs\<rparr>\<rparr> \<and> (\<forall>v. r = Inr v \<longrightarrow> r0 = Inr v)"
proof (cases "r0 \<in> range Inl \<or> wd_txs (si_world s) = []")
  case True
  then have "s' = s \<and> r = r0" using assms by (cases r0) (auto simp: withTenantTransaction_def)
  then show ?thesis by (intro exI [of _ "wd_txs (si_world s)"]) simp
next
  case False
  then obtain v x fs where "r0 = Inr v" "wd_txs (si_world s) = x # fs" by (cases r0; cases "wd_txs (si_world s)") auto
  then show ?thesis using assms by (cases x) (auto simp: withTenantTransaction_def Let_def)
qed

lemma hoare_live_reads:
  "hoare (live_at rn db e A S) (withTenantTransaction (read f)) (\<lambda>v s. live_at rn db e A S s \<and> (\<exists>s0. v = f s0 \<and> journal (iv_world s) = journal (iv_world s0)))
    (\<lambda>_. live_at rn db e A S)"
proof (rule hoareI)
  fix s v s'
  assume s: "live_at rn db e A S s" and run: "withTenantTransaction (read f) s = (Inr v, s')"
  have "read f s = (Inr (f s), s)" by simp
  from tx_pure_run [OF this run] live_at_txs [OF s]
  show "live_at rn db e A S s' \<and> (\<exists>s0. v = f s0 \<and> journal (iv_world s') = journal (iv_world s0))" by (auto simp: journal_def)
next
  fix s x s'
  assume s: "live_at rn db e A S s" and run: "withTenantTransaction (read f) s = (Inl x, s')"
  have "read f s = (Inr (f s), s)" by simp
  from tx_pure_run [OF this run] live_at_txs [OF s] show "live_at rn db e A S s'" by blast
qed

lemma hoare_live_release:
  assumes "set given \<subseteq> S" and "rn_tenant rn = or_tenant ord"
  shows "hoare (live_at rn db none A S) (releaseUnreferencedUnderLock ord given)
    (\<lambda>_. live_at rn db none (A - (rv_id ` set given - refs_of ord db)) S) (\<lambda>_ _. False)"
proof (rule hoare_quiet)
  show "hoare (live_at rn db none A S) (releaseUnreferencedUnderLock ord given)
    (\<lambda>_. live_at rn db none (A - (rv_id ` set given - refs_of ord db)) S) (\<lambda>_ s. si_fresh s \<le> rn_top rn \<longrightarrow> False)"
    unfolding live_at_def by (rule hoare_live [OF hoare_releaseUnreferencedUnderLock [OF assms]]) (rule same_lines)
  have always: "hoare (\<lambda>_. True) m (\<lambda>_ _. True) (\<lambda>_ _. True)" for m :: "'x act" by (auto simp: hoare_def split: prod.split sum.split)
  show "hoare (\<lambda>_. True) (releaseUnreferencedUnderLock ord given) (\<lambda>_ _. True) (\<lambda>_ _. False)"
    unfolding releaseUnreferencedUnderLock_def by (intro hoare_if hoare_ret hoare_attempt [OF always]) simp_all
qed

lemma hoare_live_restores:
  assumes "restores_ok (rn_tenant rn) rs"
  shows "hoare (live_at rn db (owed_to (rn_tenant rn) rs) A S) (applyRestores (rn_tenant rn) rs) (\<lambda>_. live_at rn db none A S) (\<lambda>_. live_at rn db none A S)"
  by (rule hoare_conseq [OF hoare_live [OF hoare_applyRestores [OF assms, where db = db and A = A and S = S], where k = "rn_top rn"]])
    (unfold live_at_def, (rule same_lines | assumption | blast)+)

end
