(* ===== verification/AllocationGrants.thy ===== *)
theory AllocationGrants
  imports AllocationIds
begin

text \<open>
  The grant phase: what a line's grant, a kit's grants and the whole phase leave held, block by block.
\<close>

section \<open>The grants of a line\<close>

definition line_hold :: "line_grant \<Rightarrow> reservation_row \<Rightarrow> bool" where
  "line_hold c h = (rv_tenant h = lg_tenant c \<and> rv_owner h = lg_owner c \<and> rv_owner_type h = ORDER_OWNER_TYPE \<and> rv_qty h \<le> lg_qty c \<and>
     (lg_whole c \<longrightarrow> rv_qty h = lg_qty c))"

definition one_more :: "run \<Rightarrow> outbound_db \<Rightarrow> uuid set \<Rightarrow> reservation_row set \<Rightarrow> reservation_row option \<Rightarrow> site \<Rightarrow> bool" where
  "one_more rn db A S r s = (case r of
     None \<Rightarrow> live_at rn db none A S s
   | Some h \<Rightarrow> live_at rn db none (insert (rv_id h) A) (insert h S) s)"

definition drawn :: "run \<Rightarrow> outbound_db \<Rightarrow> uuid set \<Rightarrow> reservation_row set \<Rightarrow> nat \<Rightarrow> site \<Rightarrow> bool" where
  "drawn rn db A S n s = (si_fresh s = Suc n \<and> (Suc n \<le> rn_top rn \<longrightarrow> world_at rn n none A S (iv_world s) \<and> outside rn s = db))"

lemma site_grant:
  assumes "run_ok rn" and "lg_tenant c = rn_tenant rn"
  shows "hoare (drawn rn db A S n) (in_inventory (grant (rn_id rn n) (line_command c q)))
    (\<lambda>h s. live_at rn db none (insert (rv_id h) A) (insert h S) s \<and> granted_as (line_command c q) h) (\<lambda>_. live_at rn db none A S)"
proof (rule hoareI)
  fix s h s'
  assume s: "drawn rn db A S n s" and run: "in_inventory (grant (rn_id rn n) (line_command c q)) s = (Inr h, s')"
  note step = in_inventory_run [OF run]
  have g: "world_at rn (Suc n) none (insert (rv_id h) A) S (iv_world s') \<and> h \<in> set (journal (iv_world s')) \<and> granted_as (line_command c q) h"
    if "Suc n \<le> rn_top rn"
    by (rule hoareD(1) [OF grant_world [OF assms(1)] _ step(1)]) (use s that in \<open>auto simp: drawn_def\<close>)
  have as: "granted_as (line_command c q) h" by (rule granted_always [OF step(1)])
  then have "world_at rn (Suc n) none (insert (rv_id h) A) (insert h S) (iv_world s')" if "Suc n \<le> rn_top rn"
    using g [OF that] by (intro world_at_see) (use assms(2) in \<open>auto simp: granted_as_def owner_scope_of_def command_scope_def line_command_def\<close>)
  with s show "live_at rn db none (insert (rv_id h) A) (insert h S) s' \<and> granted_as (line_command c q) h"
    using as by (auto simp: live_at_def site_at_def step drawn_def)
next
  fix s e s'
  assume s: "drawn rn db A S n s" and run: "in_inventory (grant (rn_id rn n) (line_command c q)) s = (Inl e, s')"
  note step = in_inventory_run [OF run]
  have "world_at rn (Suc n) none A S (iv_world s')" if "Suc n \<le> rn_top rn"
    by (rule hoareD(2) [OF grant_world [OF assms(1)] _ step(1)]) (use s that in \<open>auto simp: drawn_def\<close>)
  with s show "live_at rn db none A S s'" by (auto simp: live_at_def site_at_def step drawn_def)
qed

lemma hoare_grant_attempts:
  assumes "run_ok rn" and "lg_tenant c = rn_tenant rn"
  shows "hoare (live_at rn db none A S) (grant_attempts (rn_id rn) c left)
    (\<lambda>r s. one_more rn db A S r s \<and> (\<forall>h. r = Some h \<longrightarrow> line_hold c h)) (\<lambda>_. live_at rn db none A S)"
proof (induction left)
  case 0
  show ?case unfolding grant_attempts.simps by (rule hoare_ret) (unfold one_more_def option.case, blast)
next
  case (Suc left)
  let ?Q = "\<lambda>r s. one_more rn db A S r s \<and> (\<forall>h. r = Some h \<longrightarrow> line_hold c h)" and ?P = "live_at rn db none A S"
  have none: "hoare ?P (ret None) ?Q (\<lambda>_. ?P)" by (rule hoare_ret) (unfold one_more_def option.case, blast)
  have attempted: "hoare ?P (bind (fresh (rn_id rn)) (\<lambda>i. attempt (bind (in_inventory (grant i (line_command c (min (lg_qty c) (at_atp a))))) (\<lambda>r. ret (Some r)))
         (\<lambda>err. if err \<noteq> unavailable then raise err else grant_attempts (rn_id rn) c left))) ?Q (\<lambda>_. ?P)"
    if whole: "\<not> (lg_whole c \<and> at_atp a < lg_qty c)" for a
  proof (rule hoare_bind)
    let ?R = "\<lambda>i s. \<exists>n. i = rn_id rn n \<and> drawn rn db A S n s"
    show "hoare ?P (fresh (rn_id rn)) ?R (\<lambda>_. ?P)"
      by (auto simp: hoare_def fresh_def drawn_def live_at_def site_at_def iv_world_def outside_def)
    fix i
    have "hoare (\<lambda>s. i = rn_id rn n \<and> drawn rn db A S n s)
        (attempt (bind (in_inventory (grant i (line_command c (min (lg_qty c) (at_atp a))))) (\<lambda>r. ret (Some r)))
          (\<lambda>err. if err \<noteq> unavailable then raise err else grant_attempts (rn_id rn) c left)) ?Q (\<lambda>_. ?P)" for n
    proof (rule hoare_fact, rule hoare_attempt, rule hoare_bind)
      assume "i = rn_id rn n"
      then show "hoare (drawn rn db A S n)
          (in_inventory (grant i (line_command c (min (lg_qty c) (at_atp a)))))
          (\<lambda>h s. live_at rn db none (insert (rv_id h) A) (insert h S) s \<and> granted_as (line_command c (min (lg_qty c) (at_atp a))) h) (\<lambda>_. ?P)"
        using site_grant [OF assms] by blast
    next
      fix h
      show "hoare (\<lambda>s. live_at rn db none (insert (rv_id h) A) (insert h S) s \<and> granted_as (line_command c (min (lg_qty c) (at_atp a))) h)
          (ret (Some h)) ?Q (\<lambda>_. ?P)"
        by (rule hoare_ret) (use whole in \<open>auto simp: one_more_def line_hold_def granted_as_def owner_scope_of_def command_scope_def line_command_def min_def\<close>)
    next
      fix err
      show "hoare ?P (if err \<noteq> unavailable then raise err else grant_attempts (rn_id rn) c left) ?Q (\<lambda>_. ?P)"
        by (intro hoare_if Suc.IH hoare_raise)
    qed
    then show "hoare (?R i) (attempt (bind (in_inventory (grant i (line_command c (min (lg_qty c) (at_atp a))))) (\<lambda>r. ret (Some r)))
          (\<lambda>err. if err \<noteq> unavailable then raise err else grant_attempts (rn_id rn) c left)) ?Q (\<lambda>_. ?P)"
      by (rule hoare_ex)
  qed
  show ?case
    unfolding grant_attempts.simps
    by (intro hoare_bind [OF keeps_live_inventory [OF inert_atp assms(1)]] hoare_if none attempted)
qed

section \<open>The grants of a kit\<close>

lemma hoare_grant_components:
  fixes A :: "uuid set"
  assumes "run_ok rn" and "rn_tenant rn = or_tenant ord" and "refs_of ord db \<subseteq> A"
    and "\<forall>c \<in> set cs. lg_tenant c = rn_tenant rn"
  shows "hoare (live_at rn db none (A \<union> rv_id ` set hs) (S \<union> set hs)) (grant_components (rn_id rn) (releaseUnreferencedUnderLock ord) hs cs)
    (\<lambda>r s. case r of
       None \<Rightarrow> live_at rn db none A S s
     | Some hs' \<Rightarrow> live_at rn db none (A \<union> rv_id ` set hs') (S \<union> set hs') s \<and>
         (\<exists>more. hs' = hs @ more \<and> list_all2 (\<lambda>c h. line_hold c h \<and> lg_qty c \<le> rv_qty h) cs more))
    (\<lambda>_. live_at rn db none A S)"
  using assms(4)
proof (induction cs arbitrary: hs)
  case Nil
  show ?case unfolding grant_components.simps by (rule hoare_ret) (unfold option.case, blast intro: list.rel_intros(1) append_Nil2 [symmetric])
next
  case (Cons c cs)
  let ?P = "\<lambda>hs. live_at rn db none (A \<union> rv_id ` set hs) (S \<union> set hs)" and ?N = "live_at rn db none A S"
  let ?Q = "\<lambda>hs cs r s. case r of
       None \<Rightarrow> ?N s
     | Some hs' \<Rightarrow> ?P hs' s \<and> (\<exists>more. hs' = hs @ more \<and> list_all2 (\<lambda>c h. line_hold c h \<and> lg_qty c \<le> rv_qty h) cs more)"
  let ?release = "releaseUnreferencedUnderLock ord"
  have release: "hoare (?P hs) (?release hs) (\<lambda>_. ?N) (\<lambda>_ _. False)" for hs
    by (rule hoare_conseq [OF hoare_live_release [of hs "S \<union> set hs" rn ord db "A \<union> rv_id ` set hs", OF _ assms(2)]])
      (use assms(3) in \<open>auto elim!: live_at_mono\<close>)
  have guard: "hoare (?P hs) m R (\<lambda>_. ?P hs) \<Longrightarrow> hoare (?P hs) (or_release ?release hs m) R (\<lambda>_. ?N)" for hs R and m :: "'x act"
    unfolding or_release_def
    by (erule hoare_attempt, rule hoare_bind [OF hoare_conseq [OF release]], assumption, assumption, simp, rule hoare_raise)
  have guarded: "hoare (?P hs) (bind (or_release ?release hs (?release hs)) (\<lambda>_. ret None)) (?Q hs0 cs0) (\<lambda>_. ?N)" for hs hs0 cs0
  proof (rule hoare_bind)
    show "hoare (?P hs) (or_release ?release hs (?release hs)) (\<lambda>_. ?N) (\<lambda>_. ?N)"
      unfolding or_release_def by (rule hoare_attempt [OF release], rule hoareI) auto
  qed (rule hoare_ret, simp)
  have tenant: "lg_tenant c = rn_tenant rn" using Cons.prems by simp
  have line: "hoare (?P hs) (grantLineHold (rn_id rn) c)
      (\<lambda>r s. one_more rn db (A \<union> rv_id ` set hs) (S \<union> set hs) r s \<and> (\<forall>h. r = Some h \<longrightarrow> line_hold c h)) (\<lambda>_. ?P hs)"
    unfolding grantLineHold_def by (rule hoare_grant_attempts [OF assms(1) tenant])
  show ?case
    unfolding grant_components.simps
  proof (rule hoare_bind [OF guard [OF line]])
    fix r
    show "hoare (\<lambda>s. one_more rn db (A \<union> rv_id ` set hs) (S \<union> set hs) r s \<and> (\<forall>h. r = Some h \<longrightarrow> line_hold c h))
        (case r of
           None \<Rightarrow> bind (or_release ?release hs (?release hs)) (\<lambda>_. ret None)
         | Some h \<Rightarrow>
             if rv_qty h < lg_qty c then bind (or_release ?release (hs @ [h]) (?release (hs @ [h]))) (\<lambda>_. ret None)
             else grant_components (rn_id rn) ?release (hs @ [h]) cs) (?Q hs (c # cs)) (\<lambda>_. ?N)"
    proof (cases r)
      case None
      show ?thesis unfolding None option.case
        by (rule hoare_conseq [OF guarded [of hs hs "c # cs"]]) (unfold one_more_def option.case, blast+)
    next
      case (Some h)
      have pre: "one_more rn db (A \<union> rv_id ` set hs) (S \<union> set hs) (Some h) s \<Longrightarrow> ?P (hs @ [h]) s" for s
        unfolding one_more_def option.case by (erule live_at_mono) auto
      have rest: "hoare (?P (hs @ [h])) (grant_components (rn_id rn) ?release (hs @ [h]) cs) (?Q (hs @ [h]) cs) (\<lambda>_. ?N)"
        by (rule Cons.IH) (use Cons.prems in simp)
      show ?thesis
        unfolding Some option.case
      proof (rule hoare_if)
        show "hoare (\<lambda>s. one_more rn db (A \<union> rv_id ` set hs) (S \<union> set hs) (Some h) s \<and> (\<forall>h'. Some h = Some h' \<longrightarrow> line_hold c h'))
            (bind (or_release ?release (hs @ [h]) (?release (hs @ [h]))) (\<lambda>_. ret None)) (?Q hs (c # cs)) (\<lambda>_. ?N)"
          by (rule hoare_conseq [OF guarded [of "hs @ [h]" hs "c # cs"]]) (use pre in blast)+
        assume full: "\<not> rv_qty h < lg_qty c"
        have "hoare (\<lambda>s. line_hold c h \<and> ?P (hs @ [h]) s) (grant_components (rn_id rn) ?release (hs @ [h]) cs) (?Q hs (c # cs)) (\<lambda>_. ?N)"
        proof (rule hoare_fact, rule hoare_conseq [OF rest])
          assume "line_hold c h"
          then show "?Q (hs @ [h]) cs v s \<Longrightarrow> ?Q hs (c # cs) v s" for v s
            using full by (cases v) fastforce+
        qed
        then show "hoare (\<lambda>s. one_more rn db (A \<union> rv_id ` set hs) (S \<union> set hs) (Some h) s \<and> (\<forall>h'. Some h = Some h' \<longrightarrow> line_hold c h'))
            (grant_components (rn_id rn) ?release (hs @ [h]) cs) (?Q hs (c # cs)) (\<lambda>_. ?N)"
          by (rule hoare_conseq) (use pre in blast)+
      qed
    qed
  qed
qed

section \<open>What the grants of a plan hold\<close>

definition grants_at :: "run \<Rightarrow> outbound_db \<Rightarrow> order_row \<Rightarrow> reservation_row set \<Rightarrow> granted_hold list \<Rightarrow> site \<Rightarrow> bool" where
  "grants_at rn db ord S g s =
     (live_at rn db none (refs_of ord db \<union> rv_id ` set (own_holds g)) (S \<union> gh_hold ` set g) s \<and> (\<forall>x \<in> set g. rv_owner (gh_hold x) = ol_id (gh_line x)))"

lemma own_holds_simps [simp]:
  "own_holds [] = []" "own_holds (g @ g') = own_holds g @ own_holds g'"
  "own_holds (x # g) = (if gh_adopted x then own_holds g else gh_hold x # own_holds g)"
  by (simp_all add: own_holds_def)

lemma grants_at_more:
  assumes "live_at rn db none A S' s" and "A \<subseteq> refs_of ord db \<union> rv_id ` set (own_holds (g @ new))" and "S \<union> gh_hold ` set (g @ new) \<subseteq> S'"
    and "\<forall>x \<in> set g. rv_owner (gh_hold x) = ol_id (gh_line x)" and "\<forall>x \<in> set new. rv_owner (gh_hold x) = ol_id (gh_line x)"
  shows "grants_at rn db ord S (g @ new) s"
  unfolding grants_at_def using live_at_mono [OF assms(1-3)] assms(4,5) by auto

lemma live_at_exhausted [simp]: "live_at rn db e A S (s\<lparr>si_exhausted := x\<rparr>) = live_at rn db e A S s"
  by (simp add: live_at_def site_at_def iv_world_def outside_def)

lemma keeps_mark: "keeps (live_at rn db e A S) (mark_exhausted ord sku)"
  unfolding hoare_def mark_exhausted_def prod.case sum.case by (simp only: live_at_exhausted) blast

lemma live_at_see:
  assumes "live_at rn db e A S s" and "h \<in> set (journal (iv_world s))" and "rv_owner_type h = ORDER_OWNER_TYPE" and "rv_tenant h = rn_tenant rn"
  shows "live_at rn db e A (insert h S) s"
  using assms world_at_see unfolding live_at_def site_at_def by blast

lemma owned_facts:
  assumes "h \<in> set (ownedReservationsInTx t wh ty owners st w)"
  shows "h \<in> set (journal w)" "rv_tenant h = t" "rv_wh h = wh" "rv_owner_type h = ty" "rv_owner h \<in> set owners" "rv_state h = st"
  using assms by (auto simp: ownedReservationsInTx_def split: if_splits)

definition settled_on :: "run \<Rightarrow> outbound_db \<Rightarrow> uuid set \<Rightarrow> reservation_row set \<Rightarrow> uuid \<Rightarrow> reservation_row option \<Rightarrow> site \<Rightarrow> bool" where
  "settled_on rn db A S owner r s = (case r of
     None \<Rightarrow> live_at rn db none A S s
   | Some h \<Rightarrow> live_at rn db none A (insert h S) s \<and> rv_owner h = owner)"

lemma hoare_heldOfOwner:
  assumes "rn_tenant rn = or_tenant ord"
  shows "hoare (live_at rn db none A S) (heldOfOwner ord owner) (settled_on rn db A S owner) (\<lambda>_. live_at rn db none A S)"
  unfolding heldOfOwner_def
proof (rule hoare_bind [OF hoare_live_reads])
  fix held
  let ?f = "\<lambda>s. ownedReservationsInTx (or_tenant ord) (or_wh ord) ORDER_OWNER_TYPE [owner] Held (iv_world s)"
  have pick: "settled_on rn db A S owner (case held of [] \<Rightarrow> None | h # _ \<Rightarrow> Some h) s"
    if at: "live_at rn db none A S s" and v: "held = ?f s0" and same: "journal (iv_world s) = journal (iv_world s0)" for s s0
  proof (cases held)
    case Nil
    then show ?thesis unfolding settled_on_def Nil list.case option.case by (rule_tac at)
  next
    case (Cons h hs)
    then have "h \<in> set (?f s0)" using v by simp
    note h = owned_facts [OF this]
    have "live_at rn db none A (insert h S) s"
      by (rule live_at_see [OF at]) (use h assms same in simp_all)
    with h(5) show ?thesis unfolding settled_on_def Cons list.case option.case by simp
  qed
  show "hoare (\<lambda>s. live_at rn db none A S s \<and> (\<exists>s0. held = ?f s0 \<and> journal (iv_world s) = journal (iv_world s0)))
     (ret (case held of [] \<Rightarrow> None | h # _ \<Rightarrow> Some h)) (settled_on rn db A S owner) (\<lambda>_. live_at rn db none A S)"
    by (rule hoare_ret) (use pick in blast)
qed

definition plain_block :: "order_row \<Rightarrow> plain_plan \<Rightarrow> granted_hold list \<Rightarrow> bool" where
  "plain_block ord e b = (b = [] \<or> (\<exists>h ad. b = [\<lparr>gh_line = pn_line e, gh_hold = h, gh_adopted = ad\<rparr>] \<and>
     (\<not> ad \<longrightarrow> line_hold (line_request ord (pn_line e) (pn_whole e)) h)))"

lemma line_request_simps [simp]:
  "lg_tenant (line_request ord l b) = or_tenant ord" "lg_owner (line_request ord l b) = ol_id l" "lg_qty (line_request ord l b) = ol_qty l"
  "lg_whole (line_request ord l b) = b"
  by (simp_all add: line_request_def)

lemma hoare_grant_plain:
  assumes "run_ok rn" and "rn_tenant rn = or_tenant ord"
    and adopt: "\<And>h. pn_adopt e = Some h \<Longrightarrow> h \<in> S \<and> rv_owner h = ol_id (pn_line e)"
  shows "hoare (grants_at rn db ord S g) (grant_plain (rn_id rn) ord e (g, sk))
    (\<lambda>r s. grants_at rn db ord S (fst r) s \<and> (\<exists>b. fst r = g @ b \<and> plain_block ord e b)) (\<lambda>_. grants_at rn db ord S g)"
proof -
  let ?A = "refs_of ord db \<union> rv_id ` set (own_holds g)" and ?S = "S \<union> gh_hold ` set g"
  let ?C = "\<forall>x \<in> set g. rv_owner (gh_hold x) = ol_id (gh_line x)" and ?c = "line_request ord (pn_line e) (pn_whole e)"
  let ?P = "live_at rn db none ?A ?S"
  let ?Q = "\<lambda>r s. grants_at rn db ord S (fst r) s \<and> (\<exists>b. fst r = g @ b \<and> plain_block ord e b)" and ?E = "\<lambda>_. grants_at rn db ord S g"
  have goal: "hoare ?P (grant_plain (rn_id rn) ord e (g, sk)) ?Q ?E" if C: ?C
  proof -
    have same: "grants_at rn db ord S g s" if "?P s" for s unfolding grants_at_def using that C by blast
    have unit: "plain_block ord e []" by (simp add: plain_block_def)
    have none: "hoare ?P (ret (g, sk')) ?Q ?E" for sk'
      by (rule hoare_ret) (use same unit in \<open>simp only: fst_conv, metis append_Nil2\<close>)
    have add: "?Q (g @ [\<lparr>gh_line = pn_line e, gh_hold = h, gh_adopted = ad\<rparr>], sk') s"
      if "live_at rn db none (if ad then ?A else insert (rv_id h) ?A) (insert h ?S) s" "rv_owner h = ol_id (pn_line e)" "\<not> ad \<Longrightarrow> line_hold ?c h" for h ad sk' s
    proof -
      have "grants_at rn db ord S (g @ [\<lparr>gh_line = pn_line e, gh_hold = h, gh_adopted = ad\<rparr>]) s"
        by (rule grants_at_more [OF that(1)]) (use C that(2) in auto)
      then show ?thesis using that(3) by (simp add: plain_block_def)
    qed
    show ?thesis
    proof (cases "pn_adopt e")
      case (Some h)
      have "hoare ?P (ret (g @ [\<lparr>gh_line = pn_line e, gh_hold = h, gh_adopted = True\<rparr>], sk)) ?Q ?E"
      proof (rule hoare_ret)
        fix s assume "?P s"
        then have "live_at rn db none (if True then ?A else insert (rv_id h) ?A) (insert h ?S) s"
          using adopt [OF Some] by (simp only: if_True) (erule live_at_mono, auto)
        then show "?Q (g @ [\<lparr>gh_line = pn_line e, gh_hold = h, gh_adopted = True\<rparr>], sk) s"
          by (rule add) (use adopt [OF Some] in auto)
      qed
      then show ?thesis unfolding grant_plain_def Let_def split_conv Some option.case by (intro hoare_if none)
    next
      case None
      let ?R = "\<lambda>r s. (case r of Inl x \<Rightarrow> settled_on rn db ?A ?S (ol_id (pn_line e)) x s
        | Inr x \<Rightarrow> one_more rn db ?A ?S x s \<and> (\<forall>h. x = Some h \<longrightarrow> line_hold ?c h))"
      have tried: "hoare ?P (attempt (bind (grantLineHold (rn_id rn) ?c) (\<lambda>h. ret (Inr h)))
           (\<lambda>err. if \<not> isRaceLoss err then raise err else bind (heldOfOwner ord (ol_id (pn_line e))) (\<lambda>settled. ret (Inl settled)))) ?R (\<lambda>_. ?P)"
      proof (rule hoare_attempt [OF hoare_bind])
        show "hoare ?P (grantLineHold (rn_id rn) ?c) (\<lambda>x s. one_more rn db ?A ?S x s \<and> (\<forall>h. x = Some h \<longrightarrow> line_hold ?c h)) (\<lambda>_. ?P)"
          unfolding grantLineHold_def by (rule hoare_grant_attempts [OF assms(1)]) (simp add: assms(2))
        show "hoare ?P (if \<not> isRaceLoss err then raise err else bind (heldOfOwner ord (ol_id (pn_line e))) (\<lambda>settled. ret (Inl settled))) ?R (\<lambda>_. ?P)" for err
          by (intro hoare_if hoare_raise hoare_bind [OF hoare_heldOfOwner [OF assms(2)]] hoare_ret) (unfold sum.case, assumption+)
      qed (rule hoare_ret, unfold sum.case, assumption)
      have answer: "hoare (?R r) (case r of
           Inl None \<Rightarrow> ret (g, sk @ [(ol_id (pn_line e), ''contended'')])
         | Inl (Some h) \<Rightarrow> ret (g @ [\<lparr>gh_line = pn_line e, gh_hold = h, gh_adopted = True\<rparr>], sk)
         | Inr None \<Rightarrow>
             if pn_whole e then ret (g, sk @ [(ol_id (pn_line e), ''sku-inactive'')])
             else bind (mark_exhausted ord (ol_sku (pn_line e))) (\<lambda>_. ret (g, sk))
         | Inr (Some h) \<Rightarrow>
             bind (if rv_qty h < ol_qty (pn_line e) then mark_exhausted ord (ol_sku (pn_line e)) else ret ()) (\<lambda>_.
             ret (g @ [\<lparr>gh_line = pn_line e, gh_hold = h, gh_adopted = False\<rparr>], sk))) ?Q ?E" for r
      proof (cases r)
        case (Inl x)
        show ?thesis
        proof (cases x)
          case None
          show ?thesis unfolding Inl None sum.case option.case settled_on_def by (rule none)
        next
          case (Some h)
          show ?thesis unfolding Inl Some sum.case option.case settled_on_def
            by (rule hoare_ret, elim conjE, rule add) (simp_all only: if_True simp_thms)
        qed
      next
        case (Inr x)
        show ?thesis
        proof (cases x)
          case None
          have "hoare ?P (if pn_whole e then ret (g, sk @ [(ol_id (pn_line e), ''sku-inactive'')])
             else bind (mark_exhausted ord (ol_sku (pn_line e))) (\<lambda>_. ret (g, sk))) ?Q ?E"
            by (rule hoare_if, rule none, rule hoare_bind [OF _ none]) (auto simp: hoare_def mark_exhausted_def)
          then show ?thesis unfolding Inr None sum.case option.case one_more_def by (rule hoare_conseq) blast+
        next
          case (Some h)
          let ?I = "live_at rn db none (insert (rv_id h) ?A) (insert h ?S)"
          have own: "rv_owner h = ol_id (pn_line e)" if "line_hold ?c h" using that by (simp add: line_hold_def)
          have "hoare (\<lambda>s. line_hold ?c h \<and> ?I s) (bind (if rv_qty h < ol_qty (pn_line e) then mark_exhausted ord (ol_sku (pn_line e)) else ret ()) (\<lambda>_.
             ret (g @ [\<lparr>gh_line = pn_line e, gh_hold = h, gh_adopted = False\<rparr>], sk))) ?Q ?E"
          proof (rule hoare_fact, rule hoare_bind)
            show "hoare ?I (if rv_qty h < ol_qty (pn_line e) then mark_exhausted ord (ol_sku (pn_line e)) else ret ()) (\<lambda>_. ?I) ?E"
              by (intro hoare_if hoare_ret) (auto simp: hoare_def mark_exhausted_def)
            assume "line_hold ?c h"
            then show "hoare ?I (ret (g @ [\<lparr>gh_line = pn_line e, gh_hold = h, gh_adopted = False\<rparr>], sk)) ?Q ?E"
              by (intro hoare_ret add) (use own in \<open>simp_all only: if_False\<close>)
          qed
          then show ?thesis unfolding Inr Some sum.case option.case one_more_def by (rule hoare_conseq) blast+
        qed
      qed
      show ?thesis
        unfolding grant_plain_def Let_def split_conv None option.case
        by (rule hoare_bind [OF hoare_read [where Q = "\<lambda>_. ?P"]], assumption, rule hoare_if, rule none,
            rule hoare_bind [OF hoare_conseq [OF tried] answer]) (assumption | rule same)+
    qed
  qed
  show ?thesis
    by (rule hoare_conseq [where P' = "\<lambda>s. ?C \<and> ?P s", OF hoare_fact [OF goal]]) (unfold grants_at_def, blast+)
qed

section \<open>The grants of a kit\<close>

definition kit_ok :: "reservation_row set \<Rightarrow> kit_plan \<Rightarrow> bool" where
  "kit_ok S k = (distinct (map (ol_id \<circ> fst) (kt_children k)) \<and> (\<forall>(l, a) \<in> set (kt_children k). \<forall>h. a = Some h \<longrightarrow> h \<in> S \<and> rv_owner h = ol_id l))"

definition kit_block :: "kit_plan \<Rightarrow> granted_hold list \<Rightarrow> bool" where
  "kit_block k b = (b = [] \<or> map gh_line b = map fst (kt_children k) \<and>
     (\<forall>x \<in> set b. ol_qty (gh_line x) \<le> rv_qty (gh_hold x) \<and> (\<not> gh_adopted x \<longrightarrow> rv_qty (gh_hold x) = ol_qty (gh_line x))))"

definition kit_children :: "kit_plan \<Rightarrow> (order_line \<times> reservation_row option) list" where
  "kit_children k = map (\<lambda>c. if partial_orphan c then (fst c, None) else c) (kt_children k)"

lemma js_map_distinct: "distinct (map fst ps) \<Longrightarrow> (js_map ps x = Some y) = ((x, y) \<in> set ps)"
  unfolding js_map_def by (subst map_of_eq_Some_iff) (simp_all add: rev_map [symmetric])

lemma kit_holds:
  assumes "kit_ok S k" and "list_all2 (\<lambda>c h. line_hold c h \<and> lg_qty c \<le> rv_qty h) (map (\<lambda>l. line_request ord l False) (map fst (filter (\<lambda>c. snd c = None) (kit_children k)))) hs"
  defines "b \<equiv> map (kit_hold hs) (kit_children k)"
  shows "kit_block k b" "\<forall>x \<in> set b. rv_owner (gh_hold x) = ol_id (gh_line x)" "gh_hold ` set b \<subseteq> S \<union> set hs"
    "set hs \<subseteq> set (own_holds b)"
proof -
  let ?cs = "kit_children k" and ?m = "js_map (map (\<lambda>h. (rv_owner h, h)) hs)"
  let ?new = "map fst (filter (\<lambda>c. snd c = None) ?cs)"
  have lines: "map fst ?cs = map fst (kt_children k)" by (simp add: kit_children_def)
  have dist: "distinct (map (ol_id \<circ> fst) ?cs)" using assms(1) lines by (metis kit_ok_def map_map)
  have owners: "map rv_owner hs = map ol_id ?new"
    using assms(2) by (auto simp: list_eq_iff_nth_eq list_all2_conv_all_nth line_hold_def)
  have "distinct (map ol_id ?new)" using dist by (simp add: distinct_map_filter)
  then have keys: "distinct (map fst (map (\<lambda>h. (rv_owner h, h)) hs))" using owners by (simp add: comp_def)
  have got: "\<exists>h \<in> set hs. ?m (ol_id l) = Some h \<and> rv_owner h = ol_id l \<and> rv_qty h = ol_qty l" if "(l, None) \<in> set ?cs" for l
  proof -
    have "l \<in> set ?new" using that by force
    then obtain i where i: "i < length ?new" "?new ! i = l" by (metis in_set_conv_nth)
    then have "i < length hs" "rv_owner (hs ! i) = ol_id l" "rv_qty (hs ! i) = ol_qty l"
      using assms(2) by (fastforce simp: list_all2_conv_all_nth line_hold_def)+
    then show ?thesis using js_map_distinct [OF keys] by (metis (mono_tags, lifting) image_eqI list.set_map nth_mem)
  qed
  have adopted: "h \<in> S \<and> rv_owner h = ol_id l \<and> ol_qty l \<le> rv_qty h" if "(l, Some h) \<in> set ?cs" for l h
    using that assms(1) unfolding kit_children_def kit_ok_def partial_orphan_def by (fastforce split: if_splits)
  have each: "rv_owner (gh_hold x) = ol_id (gh_line x) \<and> gh_hold x \<in> S \<union> set hs \<and>
      ol_qty (gh_line x) \<le> rv_qty (gh_hold x) \<and> (\<not> gh_adopted x \<longrightarrow> rv_qty (gh_hold x) = ol_qty (gh_line x))" if "x \<in> set b" for x
  proof -
    have "x \<in> kit_hold hs ` set ?cs" using that by (simp add: b_def)
    then obtain c where c: "x = kit_hold hs c" "c \<in> set ?cs" by (rule imageE)
    obtain l a where "c = (l, a)" by (cases c)
    with c have la: "(l, a) \<in> set ?cs" "x = kit_hold hs (l, a)" by simp_all
    show ?thesis
    proof (cases a)
      case None
      with got [of l] la show ?thesis by (auto simp: kit_hold_def)
    next
      case (Some h)
      with adopted [of l h] la show ?thesis by (auto simp: kit_hold_def)
    qed
  qed
  have "map gh_line b = map fst ?cs" by (simp add: b_def kit_hold_def comp_def split_beta split: option.split)
  then show "kit_block k b" using each lines by (simp add: kit_block_def)
  show "\<forall>x \<in> set b. rv_owner (gh_hold x) = ol_id (gh_line x)" "gh_hold ` set b \<subseteq> S \<union> set hs" using each by blast+
  show "set hs \<subseteq> set (own_holds b)"
  proof
    fix h assume h: "h \<in> set hs"
    then have "rv_owner h \<in> set (map ol_id ?new)" using owners by (metis image_eqI list.set_map)
    then obtain l where l: "(l, None) \<in> set ?cs" "rv_owner h = ol_id l" by auto
    then have "?m (ol_id l) = Some h" using js_map_distinct [OF keys] h by (metis (mono_tags, lifting) image_eqI list.set_map)
    then have "kit_hold hs (l, None) = \<lparr>gh_line = l, gh_hold = h, gh_adopted = False\<rparr>" by (simp add: kit_hold_def)
    with l(1) show "h \<in> set (own_holds b)" unfolding own_holds_def b_def by force
  qed
qed

lemma hoare_grant_kit:
  assumes "run_ok rn" and "rn_tenant rn = or_tenant ord" and "kit_ok S k"
  shows "hoare (grants_at rn db ord S g) (grant_kit (rn_id rn) ord k (g, sk))
    (\<lambda>r s. grants_at rn db ord S (fst r) s \<and> (\<exists>b. fst r = g @ b \<and> kit_block k b)) (\<lambda>_. grants_at rn db ord S g)"
proof -
  let ?A = "refs_of ord db \<union> rv_id ` set (own_holds g)" and ?S = "S \<union> gh_hold ` set g"
  let ?C = "\<forall>x \<in> set g. rv_owner (gh_hold x) = ol_id (gh_line x)" and ?P = "live_at rn db none ?A ?S"
  let ?Q = "\<lambda>r s. grants_at rn db ord S (fst r) s \<and> (\<exists>b. fst r = g @ b \<and> kit_block k b)" and ?E = "\<lambda>_. grants_at rn db ord S g"
  let ?partials = "filter partial_orphan (kt_children k)" and ?children = "kit_children k"
  let ?new = "map fst (filter (\<lambda>c. snd c = None) (kit_children k))"
  let ?cs = "map (\<lambda>l. line_request ord l False) ?new"
  let ?got = "\<lambda>r s. case r of
       None \<Rightarrow> ?P s
     | Some hs \<Rightarrow> live_at rn db none (?A \<union> rv_id ` set hs) (?S \<union> set hs) s \<and> (\<exists>more. hs = [] @ more \<and> list_all2 (\<lambda>c h. line_hold c h \<and> lg_qty c \<le> rv_qty h) ?cs more)"
  have goal: "hoare ?P (grant_kit (rn_id rn) ord k (g, sk)) ?Q ?E" if C: ?C
  proof -
    have same: "grants_at rn db ord S g s" if "?P s" for s unfolding grants_at_def using that C by blast
    have unit: "kit_block k []" by (simp add: kit_block_def)
    have none: "hoare ?P (ret (g, sk')) ?Q ?E" for sk'
      by (rule hoare_ret) (use same unit in \<open>simp only: fst_conv, metis append_Nil2\<close>)
    have orphans: "set (List.map_filter snd ?partials) \<subseteq> ?S"
      using assms(3) unfolding kit_ok_def by (fastforce simp: map_filter_set)
    have released: "hoare ?P (if ?partials \<noteq> [] then releaseUnreferencedUnderLock ord (List.map_filter snd ?partials) else ret ()) (\<lambda>_. ?P) ?E"
      by (intro hoare_if hoare_ret, rule hoare_conseq [OF hoare_live_release [OF orphans assms(2)]]) (assumption | erule live_at_mono; blast | blast)+
    have block: "hoare ?P (grantKitBlock (rn_id rn) (releaseUnreferencedUnderLock ord) ?cs) ?got (\<lambda>_. ?P)"
    proof -
      have "refs_of ord db \<subseteq> ?A" "\<forall>c \<in> set ?cs. lg_tenant c = rn_tenant rn" using assms(2) by auto
      from hoare_grant_components [OF assms(1,2) this, where S = ?S and hs = "[]"]
      show ?thesis unfolding grantKitBlock_def list.set(1) image_empty Un_empty_right .
    qed
    let ?R = "\<lambda>r s. case r of Inl (_ :: unit) \<Rightarrow> ?P s | Inr x \<Rightarrow> ?got x s"
    have tried: "hoare ?P (attempt (bind (grantKitBlock (rn_id rn) (releaseUnreferencedUnderLock ord) ?cs) (\<lambda>r. ret (Inr r)))
       (\<lambda>err. if isRaceLoss err then ret (Inl ()) else raise err)) ?R (\<lambda>_. ?P)"
      by (rule hoare_attempt [OF hoare_bind [OF block]], rule hoare_ret, unfold sum.case, assumption)
        (rule hoare_if, rule hoare_ret, unfold sum.case, assumption, rule hoare_raise, assumption)
    have answer: "hoare (?R r) (case r of
       Inl _ \<Rightarrow> ret (g, sk @ map (\<lambda>c. (ol_id (fst c), ''contended'')) ?children)
     | Inr None \<Rightarrow> ret (g, sk)
     | Inr (Some grants) \<Rightarrow> ret (g @ map (kit_hold grants) ?children, sk)) ?Q ?E" for r
    proof (cases r)
      case (Inl u)
      show ?thesis unfolding Inl sum.case by (rule none)
    next
      case (Inr x)
      show ?thesis
      proof (cases x)
        case None
        show ?thesis unfolding Inr None sum.case option.case by (rule none)
      next
        case (Some hs)
        show ?thesis unfolding Inr Some sum.case option.case append_Nil
        proof (rule hoare_ret, elim conjE exE)
          fix s more
          assume at: "live_at rn db none (?A \<union> rv_id ` set hs) (?S \<union> set hs) s" and hs: "hs = more"
            and all: "list_all2 (\<lambda>c h. line_hold c h \<and> lg_qty c \<le> rv_qty h) ?cs more"
          note b = kit_holds [OF assms(3) all [folded hs]]
          have "grants_at rn db ord S (g @ map (kit_hold hs) ?children) s"
            by (rule grants_at_more [OF at]) (use b(2-4) C in auto)
          with b(1) show "?Q (g @ map (kit_hold hs) ?children, sk) s" by auto
        qed
      qed
    qed
    show ?thesis
      unfolding grant_kit_def Let_def split_conv kit_children_def [symmetric]
      by (rule hoare_bind [OF released], rule hoare_bind [OF hoare_read [where Q = "\<lambda>_. ?P"]], assumption, rule hoare_if, rule none,
          rule hoare_bind [OF hoare_conseq [OF tried] answer]) (assumption | rule same)+
  qed
  show ?thesis
    by (rule hoare_conseq [where P' = "\<lambda>s. ?C \<and> ?P s", OF hoare_fact [OF goal]]) (unfold grants_at_def, blast+)
qed

section \<open>One after the other\<close>

lemma hoare_grant_each:
  assumes "\<And>p passed acc. p \<in> set ps \<Longrightarrow> hoare (I passed acc) (f p acc) (I (passed @ [p])) (\<lambda>_. I passed acc)"
  shows "hoare (I passed acc) (grant_each f ps acc)
    (\<lambda>r s. (snd r = None \<longrightarrow> I (passed @ ps) (fst r) s) \<and> (\<exists>some. I some (fst r) s)) E"
  using assms
proof (induction ps arbitrary: passed acc)
  case Nil
  show ?case unfolding grant_each.simps append_Nil2 by (rule hoare_ret) (unfold fst_conv, blast)
next
  case (Cons p ps)
  let ?R = "\<lambda>r s. case r of Inl (e :: failure) \<Rightarrow> I passed acc s | Inr acc' \<Rightarrow> I (passed @ [p]) acc' s"
  have step: "hoare (I passed acc) (attempt (bind (f p acc) (\<lambda>acc'. ret (Inr acc'))) (\<lambda>e. ret (Inl e))) ?R E"
    by (rule hoare_attempt [OF hoare_bind [OF Cons.prems]]) (simp | rule hoare_ret, unfold sum.case, assumption)+
  show ?case unfolding grant_each.simps
  proof (rule hoare_bind [OF step])
    fix r
    show "hoare (?R r) (case r of Inl e \<Rightarrow> ret (acc, Some e) | Inr acc' \<Rightarrow> grant_each f ps acc')
        (\<lambda>r s. (snd r = None \<longrightarrow> I (passed @ p # ps) (fst r) s) \<and> (\<exists>some. I some (fst r) s)) E"
    proof (cases r)
      case (Inl e)
      show ?thesis unfolding Inl sum.case by (rule hoare_ret) (unfold fst_conv snd_conv, blast)
    next
      case (Inr acc')
      have "hoare (I (passed @ [p]) acc') (grant_each f ps acc') (\<lambda>r s. (snd r = None \<longrightarrow> I ((passed @ [p]) @ ps) (fst r) s) \<and> (\<exists>some. I some (fst r) s)) E"
        by (rule Cons.IH) (rule Cons.prems, simp)
      then show ?thesis unfolding Inr sum.case append_assoc append_Cons append_Nil .
    qed
  qed
qed

section \<open>The grant phase\<close>

definition plan_ok :: "run \<Rightarrow> reservation_row set \<Rightarrow> phase1 \<Rightarrow> bool" where
  "plan_ok rn S plan = (or_tenant (ph_order plan) = rn_tenant rn \<and>
     (\<forall>e \<in> set (ph_plain plan). \<forall>h. pn_adopt e = Some h \<longrightarrow> h \<in> S \<and> rv_owner h = ol_id (pn_line e)) \<and> (\<forall>k \<in> set (ph_kits plan). kit_ok S k))"

definition granted_blocks :: "phase1 \<Rightarrow> granted_hold list \<Rightarrow> bool" where
  "granted_blocks plan g = (\<exists>ps bs. g = concat ps @ concat bs \<and> list_all2 (plain_block (ph_order plan)) (ph_plain plan) ps \<and>
     list_all2 kit_block (ph_kits plan) bs)"

definition blocks :: "('p \<Rightarrow> granted_hold list \<Rightarrow> bool) \<Rightarrow> 'p list \<Rightarrow> granted_hold list \<Rightarrow> granted_hold list \<Rightarrow> bool" where
  "blocks B ps g0 g = (\<exists>bs. g = g0 @ concat bs \<and> list_all2 B ps bs)"

lemma blocks_Nil: "blocks B [] g g"
  by (simp add: blocks_def)

lemma blocks_more: "blocks B ps g0 g \<Longrightarrow> B p b \<Longrightarrow> blocks B (ps @ [p]) g0 (g @ b)"
  unfolding blocks_def by (elim exE conjE, rule_tac x = "bs @ [b]" in exI) (simp add: list_all2_appendI)

lemma hoare_blocks:
  assumes "\<And>p g sk. p \<in> set ps \<Longrightarrow> hoare (G g) (f p (g, sk)) (\<lambda>r s. G (fst r) s \<and> (\<exists>b. fst r = g @ b \<and> B p b)) (\<lambda>_. G g)"
  shows "hoare (G (fst acc)) (grant_each f ps acc)
    (\<lambda>r s. (snd r = None \<longrightarrow> G (fst (fst r)) s \<and> blocks B ps (fst acc) (fst (fst r))) \<and> G (fst (fst r)) s) E"
proof -
  let ?I = "\<lambda>passed acc' s. blocks B passed (fst acc) (fst acc') \<and> G (fst acc') s"
  have "hoare (?I [] acc) (grant_each f ps acc) (\<lambda>r s. (snd r = None \<longrightarrow> ?I ([] @ ps) (fst r) s) \<and> (\<exists>some. ?I some (fst r) s)) E"
  proof (rule hoare_grant_each)
    fix p passed and acc' :: grants
    assume p: "p \<in> set ps"
    obtain g sk where acc': "acc' = (g, sk)" by (cases acc')
    show "hoare (?I passed acc') (f p acc') (?I (passed @ [p])) (\<lambda>_. ?I passed acc')"
      unfolding acc' fst_conv
    proof (rule hoare_fact)
      assume b: "blocks B passed (fst acc) g"
      show "hoare (G g) (f p (g, sk)) (?I (passed @ [p])) (\<lambda>_ s. blocks B passed (fst acc) g \<and> G g s)"
        by (rule hoare_conseq [OF assms [OF p]]) (use b blocks_more in \<open>assumption | metis\<close>)+
    qed
  qed
  then show ?thesis by (rule hoare_conseq) (unfold append_Nil, use blocks_Nil [of B "fst acc"] in \<open>simp, blast?\<close>)+
qed

lemma hoare_grantPhase:
  fixes plan :: phase1
  defines "ord \<equiv> ph_order plan"
  assumes "run_ok rn" and ok: "plan_ok rn S plan"
  shows "hoare (live_at rn db none (refs_of ord db) S) (grantPhase (rn_id rn) plan)
    (\<lambda>r s. grants_at rn db ord S (fst r) s \<and> granted_blocks plan (fst r)) (\<lambda>_. live_at rn db none (refs_of ord db) S)"
proof -
  let ?G = "grants_at rn db ord S" and ?P = "live_at rn db none (refs_of ord db) S"
  have tenant: "rn_tenant rn = or_tenant ord" using ok by (simp add: plan_ok_def ord_def)
  have start: "?G [] s" if "?P s" for s using that unfolding grants_at_def by (simp only: own_holds_simps list.set image_empty Un_empty_right ball_empty)
  have plain: "hoare (?G []) (grant_each (grant_plain (rn_id rn) ord) (ph_plain plan) ([], ph_skipped plan))
      (\<lambda>r s. (snd r = None \<longrightarrow> ?G (fst (fst r)) s \<and> blocks (plain_block ord) (ph_plain plan) [] (fst (fst r))) \<and> ?G (fst (fst r)) s) (\<lambda>_. ?P)"
    by (rule hoare_blocks [where acc = "([], ph_skipped plan)", unfolded fst_conv], rule hoare_grant_plain [OF assms(2) tenant])
      (use ok in \<open>auto simp: plan_ok_def\<close>)
  have kits: "hoare (?G (fst acc)) (grant_each (grant_kit (rn_id rn) ord) (ph_kits plan) acc)
      (\<lambda>r s. (snd r = None \<longrightarrow> ?G (fst (fst r)) s \<and> blocks kit_block (ph_kits plan) (fst acc) (fst (fst r))) \<and> ?G (fst (fst r)) s) (\<lambda>_. ?P)" for acc
    by (rule hoare_blocks, rule hoare_grant_kit [OF assms(2) tenant]) (use ok in \<open>auto simp: plan_ok_def\<close>)
  let ?Z = "\<lambda>r s. (snd r = None \<longrightarrow> ?G (fst (fst r)) s \<and> granted_blocks plan (fst (fst r))) \<and> ?G (fst (fst r)) s"
  have both: "hoare (\<lambda>s. (err = None \<longrightarrow> ?G (fst acc) s \<and> blocks (plain_block ord) (ph_plain plan) [] (fst acc)) \<and> ?G (fst acc) s)
      (if err = None then grant_each (grant_kit (rn_id rn) ord) (ph_kits plan) acc else ret (acc, err)) ?Z (\<lambda>_. ?P)" for acc err
  proof (cases "err = None")
    case True
    have "hoare (\<lambda>s. blocks (plain_block ord) (ph_plain plan) [] (fst acc) \<and> ?G (fst acc) s) (grant_each (grant_kit (rn_id rn) ord) (ph_kits plan) acc) ?Z (\<lambda>_. ?P)"
    proof (rule hoare_fact, rule hoare_conseq [OF kits])
      assume "blocks (plain_block ord) (ph_plain plan) [] (fst acc)"
      then show "?Z r s" if "(snd r = None \<longrightarrow> ?G (fst (fst r)) s \<and> blocks kit_block (ph_kits plan) (fst acc) (fst (fst r))) \<and> ?G (fst (fst r)) s" for r s
        using that unfolding granted_blocks_def blocks_def ord_def [symmetric] by (metis append_Nil)
    qed
    then show ?thesis unfolding True by (simp only: simp_thms if_True) (rule hoare_conseq, blast+)
  next
    case False
    then show ?thesis by (simp only: if_False) (rule hoare_ret, auto)
  qed
  have last: "hoare (?Z (acc, err)) (case err of None \<Rightarrow> ret acc | Some e \<Rightarrow> bind (releaseUnreferencedUnderLock ord (own_holds (fst acc))) (\<lambda>_. raise e))
      (\<lambda>r s. ?G (fst r) s \<and> granted_blocks plan (fst r)) (\<lambda>_. ?P)" for acc err
  proof (cases err)
    case None
    show ?thesis unfolding None option.case by (rule hoare_ret) simp
  next
    case (Some e)
    let ?A = "refs_of ord db \<union> rv_id ` set (own_holds (fst acc))" and ?S = "S \<union> gh_hold ` set (fst acc)"
    have given: "set (own_holds (fst acc)) \<subseteq> ?S" by (auto simp: own_holds_def)
    have "hoare (?G (fst acc)) (releaseUnreferencedUnderLock ord (own_holds (fst acc))) (\<lambda>_. ?P) (\<lambda>_ _. False)"
      by (rule hoare_conseq [OF hoare_live_release [OF given tenant, where A = ?A and db = db]])
        (unfold grants_at_def, blast, erule live_at_mono, blast+)
    then show ?thesis unfolding Some option.case fst_conv snd_conv
      by (intro hoare_bind [where R = "\<lambda>_. ?P"] hoare_raise) (rule hoare_conseq, assumption, blast+)
  qed
  have first: "hoare ?P (grant_each (grant_plain (rn_id rn) ord) (ph_plain plan) ([], ph_skipped plan))
      (\<lambda>r s. (snd r = None \<longrightarrow> ?G (fst (fst r)) s \<and> blocks (plain_block ord) (ph_plain plan) [] (fst (fst r))) \<and> ?G (fst (fst r)) s) (\<lambda>_. ?P)"
    by (rule hoare_conseq [OF plain start]) assumption+
  show ?thesis
    unfolding grantPhase_def Let_def ord_def [symmetric]
  proof (rule hoare_bind [OF first])
    fix r1 :: "grants \<times> failure option"
    obtain acc err where r1: "r1 = (acc, err)" by (metis surj_pair)
    show "hoare (\<lambda>s. (snd r1 = None \<longrightarrow> ?G (fst (fst r1)) s \<and> blocks (plain_block ord) (ph_plain plan) [] (fst (fst r1))) \<and> ?G (fst (fst r1)) s)
        (case r1 of (acc, err) \<Rightarrow> bind (if err = None then grant_each (grant_kit (rn_id rn) ord) (ph_kits plan) acc else ret (acc, err))
          (\<lambda>((granted, skipped), err). case err of None \<Rightarrow> ret (granted, skipped)
            | Some e \<Rightarrow> bind (releaseUnreferencedUnderLock ord (own_holds granted)) (\<lambda>_. raise e)))
        (\<lambda>r s. ?G (fst r) s \<and> granted_blocks plan (fst r)) (\<lambda>_. ?P)"
      unfolding r1 split_conv fst_conv snd_conv
    proof (rule hoare_bind [OF both])
      fix r2 :: "grants \<times> failure option"
      obtain g sk err where r2: "r2 = ((g, sk), err)" by (metis surj_pair)
      show "hoare (?Z r2) ((\<lambda>((granted, skipped), err). case err of None \<Rightarrow> ret (granted, skipped)
            | Some e \<Rightarrow> bind (releaseUnreferencedUnderLock ord (own_holds granted)) (\<lambda>_. raise e)) r2)
          (\<lambda>r s. ?G (fst r) s \<and> granted_blocks plan (fst r)) (\<lambda>_. ?P)"
        unfolding r2 using last [of "(g, sk)" err] by (simp only: fst_conv snd_conv split_conv prod.case)
    qed
  qed
qed

end
