(* ===== verification/AllocationWrites.thy ===== *)
theory AllocationWrites
  imports AllocationGrants ReservationProperties
begin

text \<open>
  The write phase, the plan it starts from, and a run from its plan to its answer.
\<close>

section \<open>The write phase\<close>

text \<open>What a transaction's body leaves alone: all but the tables.\<close>

definition tables_only :: "site \<Rightarrow> site \<Rightarrow> bool" where
  "tables_only s s' = (iv_world (s'\<lparr>si_db := si_db s\<rparr>) = iv_world s \<and> si_fresh s' = si_fresh s)"

lemma tables_only_refl: "tables_only s s"
  by (simp add: tables_only_def)

lemma tables_only_trans: "tables_only s s' \<Longrightarrow> tables_only s' s'' \<Longrightarrow> tables_only s s''"
proof -
  assume a: "tables_only s s'" "tables_only s' s''"
  have "iv_world (s''\<lparr>si_db := si_db s\<rparr>) = (iv_world (s''\<lparr>si_db := si_db s'\<rparr>))\<lparr>wd_iv := ob_iv (si_db s)\<rparr>" by (simp add: iv_world_def)
  also have "\<dots> = (iv_world s')\<lparr>wd_iv := ob_iv (si_db s)\<rparr>" using a(2) by (simp add: tables_only_def)
  also have "\<dots> = iv_world (s'\<lparr>si_db := si_db s\<rparr>)" by (simp add: iv_world_def)
  finally show "tables_only s s''" using a by (simp add: tables_only_def)
qed

lemma tables_only_db: "tables_only s (s\<lparr>si_db := db\<rparr>)"
  by (simp add: tables_only_def)

lemma tables_only_txs: "tables_only s s' \<Longrightarrow> wd_txs (si_world s') = wd_txs (si_world s)"
  unfolding tables_only_def by (elim conjE, drule arg_cong [where f = wd_txs]) simp

lemma site_at_tables:
  assumes "site_at rn db e A S s" and "ob_iv db1 = ob_iv (si_db s)"
  shows "site_at rn (db1\<lparr>ob_iv := rn_iv rn\<rparr>) e A S (s\<lparr>si_db := db1\<rparr>)"
  using assms by (simp add: site_at_def outside_def iv_world_def)

lemma site_at_back:
  assumes "site_at rn db e A S s" and "tables_only s s'"
  shows "site_at rn db e A S (s'\<lparr>si_db := si_db s\<rparr>)"
  using assms by (simp add: site_at_def tables_only_def outside_def)

text \<open>The writes: other tables than the journal, and what is answered.\<close>

definition written_as :: "phase1 \<Rightarrow> order_row \<Rightarrow> grants \<Rightarrow> site \<Rightarrow> outbound_db \<Rightarrow> allocation_result \<times> int \<Rightarrow> bool" where
  "written_as plan locked g s db1 out = (\<exists>granted skipped allocated contended.
     judged_grants plan locked g s = (granted, skipped) \<and>
     write_lines (ph_order plan) granted (ob_lines (si_db s)) = (ob_lines db1, allocated, contended) \<and>
     out = (result_of plan granted allocated (skipped @ contended), sum_list (map (rv_qty \<circ> gh_hold) allocated)))"

lemma write_grants_run:
  assumes "write_grants plan locked actor key g s = (r, s')"
  shows "\<exists>db1. s' = s\<lparr>si_db := db1\<rparr> \<and> ob_iv db1 = ob_iv (si_db s) \<and> (\<forall>out. r = Inr out \<longrightarrow> written_as plan locked g s db1 out)"
proof -
  obtain granted skipped where j: "judged_grants plan locked g s = (granted, skipped)" by force
  obtain rows allocated contended where w: "write_lines (ph_order plan) granted (ob_lines (si_db s)) = (rows, allocated, contended)"
    by (cases "write_lines (ph_order plan) granted (ob_lines (si_db s))")
  let ?result = "result_of plan granted allocated (skipped @ contended)"
  let ?db = "(if allocated = [] then (\<lambda>db. db) else announce (or_tenant (ph_order plan)) actor ''order.allocated'' (or_id (ph_order plan)))
     (ob_lines_update (\<lambda>_. rows) (si_db s))"
  obtain r2 s2 where key: "store_key (ph_order plan) key ?result (s\<lparr>si_db := ?db\<rparr>) = (r2, s2)" by force
  have run: "write_grants plan locked actor key g s =
      (case r2 of Inl e \<Rightarrow> (Inl e, s2) | Inr _ \<Rightarrow> (Inr (?result, sum_list (map (rv_qty \<circ> gh_hold) allocated)), s2))"
    using key by (cases r2; cases "allocated = []") (simp_all add: write_grants_def bind_def j w modify_db_def Let_def)
  obtain db1 where db1: "s2 = s\<lparr>si_db := db1\<rparr>" "ob_iv db1 = ob_iv ?db" "ob_lines db1 = ob_lines ?db"
    using store_key_run [OF key] by auto
  have "ob_iv ?db = ob_iv (si_db s)" "ob_lines ?db = rows" by (simp_all add: announce_def)
  with db1 j w run assms show ?thesis
    by (cases r2) (auto simp: written_as_def)
qed

lemma replay_key_run: "replay_key ord key s = (r, s') \<Longrightarrow> s' = s"
  by (auto simp: replay_key_def bind_def split: option.splits)

lemma write_body_Inr:
  assumes "write_body plan g actor key s = (Inr w, s')"
  obtains (again) response rs where "w = Replayed response rs" "release_unreferenced (ph_order plan) (map gh_hold (fst g)) s = (Inr rs, s')"
  | (refused) e rs where "w = Refused e rs" "release_unreferenced (ph_order plan) (map gh_hold (fst g)) s = (Inr rs, s')"
  | (written) locked db1 result units rs where "w = Written result units rs" "readOrder (si_db s) (or_tenant (ph_order plan)) (or_id (ph_order plan)) = Some locked"
      "eligibilityRefusal (si_db s) locked = None" "written_as plan locked g s db1 (result, units)" "ob_iv db1 = ob_iv (si_db s)"
      "release_unreferenced (ph_order plan) (map gh_hold (fst g)) (s\<lparr>si_db := db1\<rparr>) = (Inr rs, s')"
proof -
  let ?give = "release_unreferenced (ph_order plan) (map gh_hold (fst g))"
  obtain r0 where key: "replay_key (ph_order plan) key s = (r0, s)" using replay_key_run by (metis surj_pair)
  show thesis
  proof (cases r0)
    case (Inl e)
    with assms key show ?thesis by (simp add: write_body_def Let_def bind_def)
  next
    case (Inr stored)
    show ?thesis
    proof (cases stored)
      case (Some response)
      have "(case ?give s of (Inl e, s1) \<Rightarrow> (Inl e, s1) | (Inr rs, s1) \<Rightarrow> (Inr (Replayed response rs), s1)) = (Inr w, s')"
        using assms key Inr Some by (simp add: write_body_def Let_def bind_def split: prod.splits sum.splits)
      then show ?thesis using again by (auto split: prod.splits sum.splits)
    next
      case None
      let ?locked = "readOrder (si_db s) (or_tenant (ph_order plan)) (or_id (ph_order plan))"
      let ?refusal = "case ?locked of None \<Rightarrow> Some not_found | Some l \<Rightarrow> eligibilityRefusal (si_db s) l"
      show ?thesis
      proof (cases ?refusal)
        case (Some e)
        have "(case ?give s of (Inl e, s1) \<Rightarrow> (Inl e, s1) | (Inr rs, s1) \<Rightarrow> (Inr (Refused e rs), s1)) = (Inr w, s')"
          using assms key Inr None Some by (simp add: write_body_def Let_def bind_def split: prod.splits sum.splits)
        then show ?thesis using refused by (auto split: prod.splits sum.splits)
      next
        case nil: None
        then obtain locked where locked: "?locked = Some locked" "eligibilityRefusal (si_db s) locked = None" by (auto split: option.splits)
        obtain r1 s1 where wg: "write_grants plan locked actor key g s = (r1, s1)" by force
        from write_grants_run [OF wg] obtain db1 where db1: "s1 = s\<lparr>si_db := db1\<rparr>" "ob_iv db1 = ob_iv (si_db s)"
          "\<And>out. r1 = Inr out \<Longrightarrow> written_as plan locked g s db1 out" by blast
        show ?thesis
        proof (cases r1)
          case (Inl e)
          with assms key Inr None nil locked wg show ?thesis by (simp add: write_body_def Let_def bind_def)
        next
          case out: (Inr out)
          obtain result units where ru: "out = (result, units)" by (cases out)
          have "(case ?give s1 of (Inl e, s1) \<Rightarrow> (Inl e, s1) | (Inr rs, s1) \<Rightarrow> (Inr (Written result units rs), s1)) = (Inr w, s')"
            using assms key Inr None nil locked wg out ru by (simp add: write_body_def Let_def bind_def split: prod.splits sum.splits)
          then show ?thesis using written [OF _ locked db1(3) [OF out [unfolded ru]] db1(2)] db1(1) by (auto split: prod.splits sum.splits)
        qed
      qed
    qed
  qed
qed

lemma write_body_Inl:
  assumes "write_body plan g actor key s = (Inl e, s')"
  shows "\<exists>s1. (s1 = s \<or> (\<exists>db1. s1 = s\<lparr>si_db := db1\<rparr> \<and> ob_iv db1 = ob_iv (si_db s))) \<and>
     (s' = s1 \<or> (\<exists>e'. release_unreferenced (ph_order plan) (map gh_hold (fst g)) s1 = (Inl e', s')))"
proof -
  let ?give = "release_unreferenced (ph_order plan) (map gh_hold (fst g))"
  obtain r0 where key: "replay_key (ph_order plan) key s = (r0, s)" using replay_key_run by (metis surj_pair)
  let ?locked = "readOrder (si_db s) (or_tenant (ph_order plan)) (or_id (ph_order plan))"
  let ?refusal = "case ?locked of None \<Rightarrow> Some not_found | Some l \<Rightarrow> eligibilityRefusal (si_db s) l"
  consider (failed) x where "r0 = Inl x" | (again) response where "r0 = Inr (Some response)"
    | (refused) x where "r0 = Inr None" "?refusal = Some x" | (writes) "r0 = Inr None" "?refusal = None"
    by (cases r0; cases "projr r0"; cases ?refusal) auto
  then show ?thesis
  proof cases
    case writes
    obtain r1 s1 where wg: "write_grants plan (the ?locked) actor key g s = (r1, s1)" by force
    from write_grants_run [OF wg] obtain db1 where db1: "s1 = s\<lparr>si_db := db1\<rparr>" "ob_iv db1 = ob_iv (si_db s)" by blast
    have "s' = s1 \<or> (\<exists>e'. ?give s1 = (Inl e', s'))"
      using assms key writes wg by (auto simp: write_body_def Let_def bind_def split: prod.splits sum.splits)
    with db1 show ?thesis by blast
  qed (use assms key in \<open>auto simp: write_body_def Let_def bind_def split: prod.splits sum.splits\<close>)
qed

definition written_at :: "run \<Rightarrow> order_row \<Rightarrow> outbound_db \<Rightarrow> reservation_row set \<Rightarrow> written \<Rightarrow> site \<Rightarrow> bool" where
  "written_at rn ord db S w s = (restores_ok (rn_tenant rn) (restores_of w) \<and>
     (\<exists>db'. site_at rn db' (owed_to (rn_tenant rn) (restores_of w)) (refs_of ord db \<union> refs_of ord db') S s))"

lemma write_body_spec:
  fixes plan :: phase1
  defines "ord \<equiv> ph_order plan"
  assumes s: "site_at rn db none (refs_of ord db \<union> rv_id ` set (own_holds (fst g))) (S \<union> gh_hold ` set (fst g)) s" and tenant: "rn_tenant rn = or_tenant ord" and run: "write_body plan g actor key s = (Inr w, s')"
  shows "written_at rn ord db S w s' \<and> tables_only s s'"
proof -
  let ?given = "map gh_hold (fst g)" and ?A = "refs_of ord db \<union> rv_id ` set (own_holds (fst g))" and ?S = "S \<union> gh_hold ` set (fst g)"
  have own: "rv_id ` set (own_holds (fst g)) \<subseteq> rv_id ` set ?given" by (auto simp: own_holds_def)
  have given_back: "written_at rn ord db S w b \<and> tables_only s1 b"
    if s1: "site_at rn db1 none ?A ?S s1" and run1: "release_unreferenced ord ?given s1 = (Inr rs, b)" and rs: "restores_of w = rs" for db1 s1 rs b
  proof -
    have "set ?given \<subseteq> ?S" by auto
    from release_unreferenced_spec [OF s1 this tenant] obtain rs' b' where r: "release_unreferenced ord ?given s1 = (Inr rs', b')" "restores_ok (rn_tenant rn) rs'"
      "site_at rn db1 (\<lambda>x. owed_to (rn_tenant rn) rs' x + none x) (?A - (rv_id ` set ?given - refs_of ord db1)) ?S b'"
      "iv_world (b'\<lparr>si_db := si_db s1\<rparr>) = iv_world s1" "si_fresh b' = si_fresh s1" by blast
    have same: "rs' = rs" "b' = b" using r(1) run1 by simp_all
    have "site_at rn db1 (owed_to (rn_tenant rn) rs) (?A - (rv_id ` set ?given - refs_of ord db1)) ?S b"
      using r(3) unfolding same by simp
    then have "site_at rn db1 (owed_to (rn_tenant rn) rs) (refs_of ord db \<union> refs_of ord db1) S b"
      by (rule site_at_mono) (use own in auto)
    with r(2,4,5) show ?thesis unfolding written_at_def tables_only_def same rs by blast
  qed
  from run show ?thesis
  proof (cases rule: write_body_Inr)
    case (again response rs)
    show ?thesis by (rule given_back [OF s again(2) [folded ord_def]]) (simp add: again(1) restores_of_def)
  next
    case (refused e rs)
    show ?thesis by (rule given_back [OF s refused(2) [folded ord_def]]) (simp add: refused(1) restores_of_def)
  next
    case (written locked db1 result units rs)
    from given_back [OF site_at_tables [OF s written(5)] written(6) [folded ord_def]] written(1)
    show ?thesis using tables_only_trans [OF tables_only_db] by (simp add: restores_of_def) blast
  qed
qed

lemma write_body_tables:
  assumes "site_at rn db none (refs_of (ph_order plan) db \<union> rv_id ` set (own_holds (fst g))) (S \<union> gh_hold ` set (fst g)) s" and "rn_tenant rn = or_tenant (ph_order plan)" and "write_body plan g actor key s = (r, s')"
  shows "tables_only s s'"
proof (cases r)
  case (Inr w)
  with write_body_spec [OF assms(1,2)] assms(3) show ?thesis by blast
next
  case (Inl e)
  let ?given = "map gh_hold (fst g)" and ?S = "S \<union> gh_hold ` set (fst g)"
  from write_body_Inl [OF assms(3) [unfolded Inl]] obtain s1 where s1: "s1 = s \<or> (\<exists>db1. s1 = s\<lparr>si_db := db1\<rparr> \<and> ob_iv db1 = ob_iv (si_db s))"
    "s' = s1 \<or> (\<exists>e'. release_unreferenced (ph_order plan) ?given s1 = (Inl e', s'))" by blast
  have at: "\<exists>A. site_at rn db none A ?S s" using assms(1) by blast
  have "\<exists>db1 A. site_at rn db1 none A ?S s1" using s1(1) at site_at_tables by metis
  then obtain db1 A where s1_at: "site_at rn db1 none A ?S s1" by blast
  have "set ?given \<subseteq> ?S" by auto
  from release_unreferenced_spec [OF s1_at this assms(2)] have "s' = s1" using s1(2) by auto
  with s1(1) tables_only_db tables_only_refl show ?thesis by blast
qed

lemma site_at_same:
  assumes "site_at rn db e A S s" and "tables_only s s'" and "outside rn s' = outside rn s" and "ob_iv (si_db s') = ob_iv (si_db s)"
  shows "site_at rn db e A S s'"
proof -
  have "iv_world s' = iv_world (s'\<lparr>si_db := si_db s\<rparr>)" using assms(4) by (simp add: iv_world_def)
  then have "iv_world s' = iv_world s" using assms(2) by (simp add: tables_only_def)
  then show ?thesis using assms by (simp add: site_at_def tables_only_def)
qed

lemma hoare_write_tx:
  fixes plan :: phase1
  defines "ord \<equiv> ph_order plan"
  assumes tenant: "rn_tenant rn = or_tenant ord"
  shows "hoare (site_at rn db none (refs_of ord db \<union> rv_id ` set (own_holds (fst g))) (S \<union> gh_hold ` set (fst g)))
    (withTenantTransaction (write_body plan g actor key)) (written_at rn ord db S)
    (\<lambda>_. site_at rn db none (refs_of ord db \<union> rv_id ` set (own_holds (fst g))) (S \<union> gh_hold ` set (fst g)))"
proof (rule hoare_tenant_tx)
  let ?P = "site_at rn db none (refs_of ord db \<union> rv_id ` set (own_holds (fst g))) (S \<union> gh_hold ` set (fst g))"
  have only: "tables_only s b" if "?P s" "write_body plan g actor key s = (r, b)" for s r b
    using write_body_tables tenant that unfolding ord_def by blast
  show "ReplyLost \<notin> set (wd_txs (si_world s))" if "?P s" for s using that by (rule site_at_lost)
  show "written_at rn ord db S v s' \<and> ?P (s'\<lparr>si_db := si_db s\<rparr>) \<and> wd_txs (si_world s') = wd_txs (si_world s)"
    if "?P s" "write_body plan g actor key s = (Inr v, s')" for s v s'
    using write_body_spec [OF that(1) [unfolded ord_def] tenant [unfolded ord_def] that(2), folded ord_def] site_at_back [OF that(1)] tables_only_txs by blast
  show "?P (s'\<lparr>si_db := si_db s\<rparr>)" if "?P s" "write_body plan g actor key s = (Inl e, s')" for s e s'
    using site_at_back [OF that(1)] only [OF that] by blast
  show "written_at rn ord db S v (s\<lparr>si_world := (si_world s)\<lparr>wd_txs := fs\<rparr>\<rparr>)"
    if "written_at rn ord db S v s" "set fs \<subseteq> set (wd_txs (si_world s))" for v s fs
    using that site_at_txs unfolding written_at_def by blast
  show "?P (s\<lparr>si_world := (si_world s)\<lparr>wd_txs := fs\<rparr>\<rparr>)" if "?P s" "set fs \<subseteq> set (wd_txs (si_world s))" for s fs
    using that by (rule site_at_txs)
qed

definition after_write :: "run \<Rightarrow> order_row \<Rightarrow> outbound_db \<Rightarrow> reservation_row set \<Rightarrow> written \<Rightarrow> site \<Rightarrow> bool" where
  "after_write rn ord db S w s = (si_fresh s \<le> rn_top rn \<longrightarrow> written_at rn ord db S w s)"

lemma hoare_writePhase:
  fixes plan :: phase1
  defines "ord \<equiv> ph_order plan"
  assumes tenant: "rn_tenant rn = or_tenant ord"
  shows "hoare (grants_at rn db ord S (fst g)) (writePhase plan g actor key) (after_write rn ord db S) (\<lambda>_. live_at rn db none (refs_of ord db) S)"
proof -
  let ?A = "refs_of ord db \<union> rv_id ` set (own_holds (fst g))" and ?S = "S \<union> gh_hold ` set (fst g)"
  have tx: "hoare (live_at rn db none ?A ?S) (withTenantTransaction (write_body plan g actor key)) (after_write rn ord db S) (\<lambda>_. live_at rn db none ?A ?S)"
    unfolding live_at_def after_write_def
    by (rule hoare_live [OF hoare_write_tx [OF tenant [unfolded ord_def]], folded ord_def]) (intro same_lines)
  have given: "set (own_holds (fst g)) \<subseteq> ?S" by (auto simp: own_holds_def)
  have release: "hoare (live_at rn db none ?A ?S) (releaseUnreferencedUnderLock ord (own_holds (fst g))) (\<lambda>_. live_at rn db none (refs_of ord db) S) (\<lambda>_ _. False)"
    by (rule hoare_conseq [OF hoare_live_release [OF given tenant, where A = ?A and db = db]]) (assumption | erule live_at_mono, blast+)+
  have "hoare (live_at rn db none ?A ?S) (writePhase plan g actor key) (after_write rn ord db S) (\<lambda>_. live_at rn db none (refs_of ord db) S)"
    unfolding writePhase_def ord_def [symmetric]
    by (rule hoare_attempt [OF tx], rule hoare_bind [where R = "\<lambda>_. live_at rn db none (refs_of ord db) S"], rule hoare_conseq [OF release])
      (blast | rule hoare_raise)+
  then show ?thesis by (rule hoare_conseq) (unfold grants_at_def, blast+)
qed

lemma hoare_after_write:
  assumes "rn_tenant rn = or_tenant ord"
  shows "hoare (after_write rn ord db S w) (applyRestores (rn_tenant rn) (restores_of w))
    (\<lambda>_ s. si_fresh s \<le> rn_top rn \<longrightarrow> (\<exists>db'. site_at rn db' none (refs_of ord db \<union> refs_of ord db') S s))
    (\<lambda>_ s. si_fresh s \<le> rn_top rn \<longrightarrow> (\<exists>db'. site_at rn db' none (refs_of ord db \<union> refs_of ord db') S s))"
  unfolding after_write_def written_at_def
  by (rule hoare_live, rule hoare_fact, rule hoare_ex, rule hoare_conseq [OF hoare_applyRestores]) (assumption | rule same_lines | blast)+

section \<open>The plan\<close>

definition order_rows :: "uuid \<Rightarrow> reservation_row list \<Rightarrow> reservation_row set" where
  "order_rows t rows = {h \<in> set rows. rv_owner_type h = ORDER_OWNER_TYPE \<and> rv_tenant h = t}"

lemma fateOf_Adopt:
  assumes "fateOf (js_map (map (\<lambda>h. (rv_owner h, h)) (ownedReservationsInTx t wh ty owners st w))) committed now l = Adopt h"
  shows "h \<in> set (ownedReservationsInTx t wh ty owners st w) \<and> rv_owner h = ol_id l"
proof -
  have "js_map (map (\<lambda>h. (rv_owner h, h)) (ownedReservationsInTx t wh ty owners st w)) (ol_id l) = Some h"
    using assms by (auto simp: fateOf_def split: if_splits option.splits)
  then show ?thesis unfolding js_map_def by (force dest: map_of_SomeD)
qed

lemma plans_ok:
  assumes fate: "\<And>l h. adopted_by (fate l) = Some h \<Longrightarrow> h \<in> S \<and> rv_owner h = ol_id l"
  shows "e \<in> set (plain_plans fate whole parents lines) \<Longrightarrow> pn_adopt e = Some h \<Longrightarrow> h \<in> S \<and> rv_owner h = ol_id (pn_line e)"
    and "k \<in> set (kit_plans fate parents lines) \<Longrightarrow> distinct (map ol_id lines) \<Longrightarrow> kit_ok S k"
proof -
  show "e \<in> set (plain_plans fate whole parents lines) \<Longrightarrow> pn_adopt e = Some h \<Longrightarrow> h \<in> S \<and> rv_owner h = ol_id (pn_line e)"
    by (auto simp: plain_plans_def dest!: fate)
  assume "k \<in> set (kit_plans fate parents lines)" "distinct (map ol_id lines)"
  then obtain l where k: "kt_children k = map (\<lambda>c. (c, adopted_by (fate c))) (children_of lines l)" and "distinct (map ol_id (children_of lines l))"
    unfolding children_of_def by (auto simp: kit_plans_def children_of_def distinct_map_filter)
  then show "kit_ok S k" by (auto simp: kit_ok_def comp_def dest!: fate)
qed

lemma plan_okI:
  assumes "rn_tenant rn = or_tenant ord" and "\<And>e h. e \<in> set ps \<Longrightarrow> pn_adopt e = Some h \<Longrightarrow> h \<in> S \<and> rv_owner h = ol_id (pn_line e)"
    and "\<And>k. k \<in> set ks \<Longrightarrow> kit_ok S k"
  shows "plan_ok rn S \<lparr>ph_order = ord, ph_plain = ps, ph_kits = ks, ph_skipped = sk\<rparr>"
  using assms by (auto simp: plan_ok_def)

lemma planInTx_ok:
  assumes "distinct (map ol_id (ob_lines (si_db s)))" and "rn_tenant rn = or_tenant ord"
  shows "plan_ok rn (order_rows (or_tenant ord) (journal (iv_world s))) (planInTx ord s)" "ph_order (planInTx ord s) = ord"
proof -
  let ?t = "or_tenant ord" and ?S = "order_rows (or_tenant ord) (journal (iv_world s))"
  let ?lines = "sort_key (\<lambda>l. (ol_created l, ol_id l)) (lines_of_order (si_db s) ord)"
  let ?parents = "List.map_filter ol_parent ?lines"
  let ?leaves = "map ol_id (filter (\<lambda>l. ol_id l \<notin> set ?parents) ?lines)"
  let ?held = "ownedReservationsInTx ?t (or_wh ord) ORDER_OWNER_TYPE ?leaves Held (iv_world s)"
  let ?committed = "ownedReservationsInTx ?t (or_wh ord) ORDER_OWNER_TYPE ?leaves Committed (iv_world s)"
  let ?fate = "fateOf (js_map (map (\<lambda>h. (rv_owner h, h)) ?held)) (map rv_owner ?committed) (wd_now (si_world s))"
  have adopt: "h \<in> ?S \<and> rv_owner h = ol_id l" if "adopted_by (?fate l) = Some h" for l h
  proof -
    have "?fate l = Adopt h" using that by (auto simp: adopted_by_def split: line_fate.splits)
    from fateOf_Adopt [OF this] show ?thesis by (auto simp: order_rows_def owned_facts)
  qed
  have dist: "distinct (map ol_id ?lines)"
    using assms(1) by (auto simp: lines_of_order_def distinct_map inj_on_def)
  have ok1: "h \<in> ?S \<and> rv_owner h = ol_id (pn_line e)" if "e \<in> set (plain_plans ?fate whole ?parents ?lines)" "pn_adopt e = Some h" for e h whole
    using plans_ok(1) [where fate = ?fate and S = ?S, OF adopt that] .
  have ok2: "kit_ok ?S k" if "k \<in> set (kit_plans ?fate ?parents ?lines)" for k
    using plans_ok(2) [where fate = ?fate and S = ?S, OF adopt that dist] .
  let ?rows = "goods_rows (si_goods s) ?t (map ol_sku ?lines)"
  have empty: "plan_ok rn ?S \<lparr>ph_order = ord, ph_plain = [], ph_kits = [], ph_skipped = sk\<rparr>" for sk
    by (rule plan_okI [OF assms(2)]) simp_all
  have full: "plan_ok rn ?S \<lparr>ph_order = ord, ph_plain = plain_plans ?fate (not_active ?rows) ?parents ?lines, ph_kits = kit_plans ?fate ?parents ?lines, ph_skipped = []\<rparr>"
    by (rule plan_okI [OF assms(2)]) (rule ok1 ok2; assumption)+
  show "plan_ok rn ?S (planInTx ord s)"
    unfolding planInTx_def Let_def by (rule if_split [THEN iffD2], intro conjI impI, rule empty, rule full)
  show "ph_order (planInTx ord s) = ord"
    unfolding planInTx_def Let_def by (rule if_split [THEN iffD2], intro conjI impI, rule phase1.select_convs, rule phase1.select_convs)
qed

section \<open>A run, from its plan to its answer\<close>

definition at_end :: "run \<Rightarrow> order_row \<Rightarrow> outbound_db \<Rightarrow> reservation_row set \<Rightarrow> site \<Rightarrow> bool" where
  "at_end rn ord db S s = (si_fresh s \<le> rn_top rn \<longrightarrow> (\<exists>db'. site_at rn db' none (refs_of ord db \<union> refs_of ord db') S s))"

lemma at_end_db: "live_at rn db none (refs_of ord db) S s \<Longrightarrow> at_end rn ord db S s"
  unfolding at_end_def live_at_def by (metis sup.idem)

lemma hoare_run_plan:
  fixes plan :: phase1
  defines "ord \<equiv> ph_order plan"
  assumes "run_ok rn" and "plan_ok rn S plan" and t: "t = or_tenant ord" and "\<And>w. keeps (at_end rn ord db S) (k w)"
  shows "hoare (live_at rn db none (refs_of ord db) S)
    (bind (grantPhase (rn_id rn) plan) (\<lambda>grants. bind (writePhase plan grants actor key) (\<lambda>w. bind (applyRestores t (restores_of w)) (\<lambda>_. k w))))
    (\<lambda>_. at_end rn ord db S) (\<lambda>_. at_end rn ord db S)"
proof -
  have tenant: "rn_tenant rn = or_tenant ord" using assms(3) by (simp add: plan_ok_def ord_def)
  have grants: "hoare (live_at rn db none (refs_of ord db) S) (grantPhase (rn_id rn) plan) (\<lambda>g. grants_at rn db ord S (fst g)) (\<lambda>_. at_end rn ord db S)"
    by (rule hoare_conseq [OF hoare_grantPhase [OF assms(2,3), where db = db]]) (unfold ord_def [symmetric], assumption, blast, erule at_end_db)
  have writes: "hoare (grants_at rn db ord S (fst g)) (writePhase plan g actor key) (after_write rn ord db S) (\<lambda>_. at_end rn ord db S)" for g
    by (rule hoare_conseq [OF hoare_writePhase [OF tenant [unfolded ord_def]], folded ord_def]) (assumption | erule at_end_db)+
  have restores: "hoare (after_write rn ord db S w) (applyRestores t (restores_of w)) (\<lambda>_. at_end rn ord db S) (\<lambda>_. at_end rn ord db S)" for w
    unfolding at_end_def t tenant [symmetric] by (rule hoare_after_write [OF tenant])
  show ?thesis
    by (rule hoare_bind [OF grants], rule hoare_bind [OF writes], rule hoare_bind [OF restores], rule assms(5))
qed

definition run_of :: "(nat \<Rightarrow> uuid) \<Rightarrow> nat \<Rightarrow> uuid \<Rightarrow> bool \<Rightarrow> site \<Rightarrow> run" where
  "run_of newId k t b s = \<lparr>rn_id = newId, rn_first = si_fresh s, rn_top = k, rn_calm = b, rn_iv = ob_iv (si_db s), rn_now = wd_now (si_world s),
     rn_tenant = t\<rparr>"

lemma run_of_simps [simp]:
  "rn_id (run_of newId k t b s) = newId" "rn_first (run_of newId k t b s) = si_fresh s" "rn_top (run_of newId k t b s) = k"
  "rn_calm (run_of newId k t b s) = b" "rn_iv (run_of newId k t b s) = ob_iv (si_db s)" "rn_now (run_of newId k t b s) = wd_now (si_world s)"
  "rn_tenant (run_of newId k t b s) = t"
  by (simp_all add: run_of_def)

text \<open>The reservations are in order, the ids to be drawn are new up to the \<open>k\<close>th, and the ids of lines are unique.\<close>

definition site_ok :: "(nat \<Rightarrow> uuid) \<Rightarrow> nat \<Rightarrow> site \<Rightarrow> bool" where
  "site_ok newId k s = (good (iv_world s) \<and> unused newId (si_fresh s) k (journal (iv_world s)) \<and> new_ids newId (si_fresh s) k \<and>
     uuid_rows (journal (iv_world s)) \<and> distinct (map ol_id (ob_lines (si_db s))))"

lemma run_of_ok: "site_ok newId k s \<Longrightarrow> run_ok (run_of newId k t b s)"
  by (simp add: run_ok_def site_ok_def good_def)

lemma site_at_start:
  assumes "site_ok newId k s" and "b \<Longrightarrow> wd_txs (si_world s) = []"
  shows "site_at (run_of newId k t b s) (si_db s) none {} (order_rows t (journal (iv_world s))) s"
proof -
  have "own_held (run_of newId k t b s) (journal (iv_world s)) = {}" by (auto simp: own_held_def journal_def)
  moreover have "seen_row t (journal (iv_world s)) h" if "h \<in> order_rows t (journal (iv_world s))" for h
    using that by (auto simp: order_rows_def intro: seen_row_refl)
  moreover have "evolves (rows_of (ob_iv (si_db s))) (journal (iv_world s))" by (simp add: journal_def evolves_refl)
  ultimately show ?thesis
    using assms by (auto simp: site_at_def world_at_def site_ok_def good_def outside_def journal_def)
qed

lemma site_at_end:
  assumes "site_at (run_of newId k t b s0) db e A S s" and "e = none" and "site_ok newId k s0" and "map ol_id (ob_lines (si_db s)) = map ol_id (ob_lines (si_db s0))"
  shows "site_ok newId k s \<and> evolves (journal (iv_world s0)) (journal (iv_world s))"
proof -
  have w: "world_at (run_of newId k t b s0) (si_fresh s) e A S (iv_world s)" using assms(1) by (simp add: site_at_def)
  note at = world_atD [OF w]
  have "stock_ids_ok (wd_iv (iv_world s))" by (rule stock_ids_wd [OF w run_of_ok [OF assms(3)]])
  moreover have "wd_now (iv_world s) = wd_now (si_world s0)" using at(4) by (simp add: holds_def)
  moreover have "new_ids newId (si_fresh s) k"
    using assms(3) at(5) by (auto simp: site_ok_def new_ids_def elim!: inj_on_subset)
  ultimately show ?thesis using at assms(2-4) by (simp add: site_ok_def good_def journal_def)
qed

end
