(* ===== verification/AllocationRuns.thy ===== *)
theory AllocationRuns
  imports AllocationWrites
begin

text \<open>
  The core, the verb and the sweep as runs: each ends with the books in order.
\<close>

section \<open>The core and the verb\<close>

text \<open>The end of a run that starts in order: what it drew and still holds is referenced by a line of its order.\<close>

definition run_end :: "run \<Rightarrow> uuid \<Rightarrow> outbound_db \<Rightarrow> site \<Rightarrow> bool" where
  "run_end rn i db s = (si_fresh s \<le> rn_top rn \<longrightarrow> (\<exists>A S. site_at rn (outside rn s) none A S s \<and>
     (\<forall>x \<in> A. \<exists>ord. readOrder db (rn_tenant rn) i = Some ord \<and> x \<in> refs_of ord db \<union> refs_of ord (si_db s))))"

lemma readOrder_facts: "readOrder db t i = Some ord \<Longrightarrow> or_tenant ord = t \<and> or_id ord = i"
  by (auto simp: readOrder_def dest: find_SomeD)

lemma refs_outside: "refs_of ord (outside rn s) = refs_of ord (si_db s)"
  by (simp add: refs_of_def lines_outside)

lemma run_end_plain: "live_at rn db e {} S s \<Longrightarrow> e = none \<Longrightarrow> run_end rn i db0 s"
  unfolding run_end_def live_at_def site_at_def by blast

lemma run_end_order:
  assumes "at_end rn ord db S s" and "readOrder db (rn_tenant rn) i = Some ord"
  shows "run_end rn i db s"
  unfolding run_end_def
proof (rule impI)
  assume "si_fresh s \<le> rn_top rn"
  then obtain db' where at: "site_at rn db' none (refs_of ord db \<union> refs_of ord db') S s" using assms(1) unfolding at_end_def by blast
  then have "db' = outside rn s" unfolding site_at_def by blast
  with at have "site_at rn (outside rn s) none (refs_of ord db \<union> refs_of ord (si_db s)) S s" by (simp only: refs_outside)
  with assms(2) show "\<exists>A S. site_at rn (outside rn s) none A S s \<and>
     (\<forall>x \<in> A. \<exists>ord. readOrder db (rn_tenant rn) i = Some ord \<and> x \<in> refs_of ord db \<union> refs_of ord (si_db s))" by blast
qed

lemma planned_end:
  fixes newId k t b s
  defines "rn \<equiv> run_of newId k t b s"
  assumes ok: "site_ok newId k s" and calm: "b \<Longrightarrow> wd_txs (si_world s) = []"
    and pure: "m s = (r0, s)" and plan: "\<And>p. r0 = Inr (Inr p) \<Longrightarrow> \<exists>ord. readOrder (si_db s) t i = Some ord \<and> p = planInTx ord s"
    and stop: "\<And>x P. keeps P (h x)" and go: "\<And>w P. keeps P (c w)"
    and run: "bind (withTenantTransaction m) (\<lambda>first. case first of
         Inl x \<Rightarrow> h x
       | Inr p \<Rightarrow> bind (grantPhase newId p) (\<lambda>grants. bind (writePhase p grants actor key) (\<lambda>w. bind (applyRestores t (restores_of w)) (\<lambda>_. c w)))) s = (r, s')"
  shows "run_end rn i (si_db s) s'"
proof -
  let ?S = "order_rows t (journal (iv_world s))"
  obtain r1 s1 where tx: "withTenantTransaction m s = (r1, s1)" by force
  from tx_pure_run [OF pure tx] obtain fs where fs: "set fs \<subseteq> set (wd_txs (si_world s))" "s1 = s\<lparr>si_world := (si_world s)\<lparr>wd_txs := fs\<rparr>\<rparr>"
    and r1: "\<And>v. r1 = Inr v \<Longrightarrow> r0 = Inr v" by blast
  have at1: "live_at rn (si_db s) none {} ?S s1"
    unfolding fs(2) rn_def live_at_def using site_at_txs [OF site_at_start [OF ok calm] fs(1)] by blast
  have end1: "run_end rn i (si_db s) s1" by (rule run_end_plain [OF at1 refl])
  show ?thesis
  proof (cases r1)
    case (Inl e)
    with run tx end1 show ?thesis by (simp add: bind_def)
  next
    case v: (Inr v)
    show ?thesis
    proof (cases v)
      case (Inl x)
      with run tx v have "h x s1 = (r, s')" by (simp add: bind_def)
      with keepsD [where P = "run_end rn i (si_db s)", OF stop end1, of x] show ?thesis by simp
    next
      case (Inr p)
      then obtain ord where ord: "readOrder (si_db s) t i = Some ord" "p = planInTx ord s" using plan r1 v by blast
      have tenant: "rn_tenant rn = or_tenant ord" "t = or_tenant ord" using readOrder_facts [OF ord(1)] by (simp_all add: rn_def)
      have dist: "distinct (map ol_id (ob_lines (si_db s)))" using ok by (simp add: site_ok_def)
      have p: "plan_ok rn ?S p" "ph_order p = ord" using planInTx_ok [OF dist tenant(1)] ord(2) tenant(2) by simp_all
      have start: "live_at rn (si_db s) none (refs_of (ph_order p) (si_db s)) ?S s1" by (rule live_at_mono [OF at1]) simp_all
      let ?body = "bind (grantPhase newId p) (\<lambda>grants. bind (writePhase p grants actor key) (\<lambda>w. bind (applyRestores t (restores_of w)) (\<lambda>_. c w)))"
      have body: "?body s1 = (r, s')" using run tx v Inr by (simp add: bind_def)
      have okr: "run_ok rn" unfolding rn_def by (rule run_of_ok [OF ok])
      have id: "rn_id rn = newId" by (simp add: rn_def)
      have "hoare (live_at rn (si_db s) none (refs_of (ph_order p) (si_db s)) ?S) ?body (\<lambda>_. at_end rn (ph_order p) (si_db s) ?S) (\<lambda>_. at_end rn (ph_order p) (si_db s) ?S)"
        unfolding id [symmetric] by (rule hoare_run_plan [OF okr p(1)]) (simp add: p(2) tenant, rule go)
      from hoare_site_after [OF this start] have "at_end rn ord (si_db s) ?S s'" by (simp only: body snd_conv p(2))
      then show ?thesis by (rule run_end_order) (simp add: ord rn_def)
    qed
  qed
qed

lemma core_end:
  assumes "site_ok newId k s" and "b \<Longrightarrow> wd_txs (si_world s) = []" and "allocateOrderCore newId t i s = (r, s')"
  shows "run_end (run_of newId k t b s) i (si_db s) s'"
proof -
  have pure: "read (plan_for_core t i) s = (Inr (plan_for_core t i s), s)" by simp
  have plan: "\<exists>ord. readOrder (si_db s) t i = Some ord \<and> p = planInTx ord s" if "Inr (plan_for_core t i s) = (Inr (Inr p) :: _ result)" for p
    using that by (auto simp: plan_for_core_def split: option.splits)
  show ?thesis
    by (rule planned_end [OF assms(1,2) pure plan keeps_basic(1) keeps_basic(1) assms(3) [unfolded allocateOrderCore_def]])
qed

lemma verb_end:
  assumes "site_ok newId k s" and "b \<Longrightarrow> wd_txs (si_world s) = []" and "allocateOrder hash newId t actor i key s = (r, s')"
  shows "run_end (run_of newId k t b s) i (si_db s) s'"
proof -
  let ?s = "s\<lparr>si_exhausted := None\<rparr>" and ?h = "hash (AllocatePayload t i)"
  have same: "iv_world ?s = iv_world s" "run_of newId k t b ?s = run_of newId k t b s" by (simp_all add: iv_world_def run_of_def)
  have ok: "site_ok newId k ?s" using assms(1) by (simp add: site_ok_def same)
  have pure: "bind (read (plan_for_verb ?h t actor i key)) lift ?s = (plan_for_verb ?h t actor i key ?s, ?s)" by (simp add: bind_def)
  have plan: "\<exists>ord. readOrder (si_db ?s) t i = Some ord \<and> p = planInTx ord ?s" if "plan_for_verb ?h t actor i key ?s = Inr (Inr p)" for p
    using that by (auto simp: plan_for_verb_def split: option.splits)
  have run: "bind (withTenantTransaction (bind (read (plan_for_verb ?h t actor i key)) lift)) (\<lambda>first. case first of
      Inl response \<Rightarrow> ret response
    | Inr plan \<Rightarrow> bind (grantPhase newId plan) (\<lambda>grants. bind (writePhase plan grants actor (Some (key, ?h))) (\<lambda>w.
          bind (applyRestores t (restores_of w)) (\<lambda>_. case w of
            Written result _ _ \<Rightarrow> ret (AllocationAnswer result)
          | Replayed response _ \<Rightarrow> ret response
          | Refused e _ \<Rightarrow> raise e)))) ?s = (r, s')"
    using assms(3) by (simp add: allocateOrder_def Let_def bind_def no_cache_def)
  have answer: "keeps P (case w of Written result _ _ \<Rightarrow> ret (AllocationAnswer result) | Replayed response _ \<Rightarrow> ret response | Refused e _ \<Rightarrow> raise e)" for w P
    by (cases w) (simp_all add: keeps_basic)
  have "run_end (run_of newId k t b ?s) i (si_db ?s) s'"
    by (rule planned_end [OF ok _ pure plan keeps_basic(1) answer run]) (use assms(2) in simp_all)
  then show ?thesis by (simp add: same)
qed

text \<open>What a run keeps, as long as it draws no id beyond the \<open>k\<close>th.\<close>

definition kept_from :: "(nat \<Rightarrow> uuid) \<Rightarrow> nat \<Rightarrow> site \<Rightarrow> site \<Rightarrow> bool" where
  "kept_from newId k s s' = (si_fresh s' \<le> k \<longrightarrow> site_ok newId k s' \<and> evolves (journal (iv_world s)) (journal (iv_world s')))"

lemma run_end_kept:
  assumes "run_end (run_of newId k t b s) i db s'" and "site_ok newId k s" and "map ol_id (ob_lines (si_db s')) = map ol_id (ob_lines (si_db s))"
  shows "kept_from newId k s s'"
proof -
  have "site_ok newId k s' \<and> evolves (journal (iv_world s)) (journal (iv_world s'))" if few: "si_fresh s' \<le> k"
  proof -
    obtain A S where "site_at (run_of newId k t b s) (outside (run_of newId k t b s) s') none A S s'"
      using assms(1) few unfolding run_end_def run_of_simps by blast
    from site_at_end [OF this refl assms(2,3)] show ?thesis .
  qed
  then show ?thesis by (simp add: kept_from_def)
qed

lemma core_kept:
  assumes "site_ok newId k s" and "allocateOrderCore newId t i s = (r, s')"
  shows "kept_from newId k s s'"
proof (rule run_end_kept [OF core_end [OF assms(1) _ assms(2), where b = False] assms(1)])
  show "map ol_id (ob_lines (si_db s')) = map ol_id (ob_lines (si_db s))"
    using keepsD [where w = s and m = "allocateOrderCore newId t i" and P = "lines_kept (map ol_id (ob_lines (si_db s)), 0)", OF same_lines_core]
    by (simp add: assms(2) lines_kept_def)
qed simp

lemma verb_kept:
  assumes "site_ok newId k s" and "allocateOrder hash newId t actor i key s = (r, s')"
  shows "kept_from newId k s s'"
proof (rule run_end_kept [OF verb_end [OF assms(1) _ assms(2), where b = False] assms(1)])
  show "map ol_id (ob_lines (si_db s')) = map ol_id (ob_lines (si_db s))"
    using keepsD [where w = s and m = "allocateOrder hash newId t actor i key" and P = "lines_kept (map ol_id (ob_lines (si_db s)), 0)", OF same_lines_verb]
    by (simp add: assms(2) lines_kept_def)
qed simp

section \<open>The sweep\<close>

lemma kept_step:
  assumes "kept_from newId k s s1" and "si_fresh s1 \<le> si_fresh s2" and "site_ok newId k s1 \<Longrightarrow> kept_from newId k s1 s2"
  shows "kept_from newId k s s2"
  using assms evolves_trans unfolding kept_from_def by (meson order_trans)

lemma keeps_kept_core: "keeps (kept_from newId k s) (allocateOrderCore newId t i)"
proof -
  have "kept_from newId k s s2" if s1: "kept_from newId k s s1" and run: "allocateOrderCore newId t i s1 = (r, s2)" for s1 r s2
  proof (rule kept_step [OF s1])
    show "si_fresh s1 \<le> si_fresh s2"
      using keepsD [where w = s1 and m = "allocateOrderCore newId t i" and P = "\<lambda>s2. si_fresh s1 \<le> si_fresh s2", OF keeps_fresh [OF same_lines_core]] run
      by simp
    show "site_ok newId k s1 \<Longrightarrow> kept_from newId k s1 s2" using core_kept [OF _ run] .
  qed
  then show ?thesis by (auto simp: hoare_def split: prod.split sum.split)
qed

lemma keeps_sweep_each: "keeps (kept_from newId k s) (sweep_each newId t batch rs rep)"
proof (induction rs arbitrary: rep)
  case Nil
  show ?case unfolding sweep_each.simps by (rule keeps_basic)
next
  case (Cons r rs)
  show ?case unfolding sweep_each.simps
    by (intro hoare_if keeps_basic keeps_bind keeps_attempt keeps_kept_core Cons)
qed

lemma kept_same:
  assumes "kept_from newId k s s1" and "si_db s2 = si_db s1" and "si_fresh s2 = si_fresh s1" and "set (wd_txs (si_world s2)) \<subseteq> set (wd_txs (si_world s1))"
    and "wd_store (si_world s2) = wd_store (si_world s1)" and "wd_now (si_world s2) = wd_now (si_world s1)"
  shows "kept_from newId k s s2"
  using assms by (auto simp: kept_from_def site_ok_def good_def holds_def journal_def)

lemma keeps_kept_state: "keeps (kept_from newId k s) (withTenantTransaction (read f))" "keeps (kept_from newId k s) start_cache" "keeps (kept_from newId k s) (set_window t n)"
proof -
  have "kept_from newId k s s2" if "kept_from newId k s s1" "withTenantTransaction (read f) s1 = (r, s2)" for s1 r s2
  proof -
    have "read f s1 = (Inr (f s1), s1)" by simp
    from tx_pure_run [OF this that(2)] show ?thesis by (elim exE conjE) (rule kept_same [OF that(1)]; simp)
  qed
  then show "keeps (kept_from newId k s) (withTenantTransaction (read f))" by (auto simp: hoare_def split: prod.split sum.split)
  show "keeps (kept_from newId k s) start_cache" "keeps (kept_from newId k s) (set_window t n)"
    by (auto simp: hoare_def start_cache_def set_window_def elim: kept_same)
qed

lemma sweep_kept:
  assumes "site_ok newId k s" and "sweepBackorders newId cap batch st t s = (r, s')"
  shows "kept_from newId k s s'"
proof -
  have sw: "keeps (kept_from newId k s) (sweepBackorders newId cap batch st t)"
    unfolding sweepBackorders_def by (intro keeps_bind keeps_basic keeps_kept_state keeps_sweep_each)
  have "kept_from newId k s s" using assms(1) by (simp add: kept_from_def evolves_refl)
  from keepsD [OF sw this] show ?thesis by (simp add: assms(2))
qed

end
