(* ===== verification/AllocationLines.thy ===== *)
theory AllocationLines
  imports AllocationRuns "HOL-Library.Sublist"
begin

text \<open>
  What is written to the lines: each line is granted once, the grants that are written are usable holds, and the
  steps after the write leave them alone.
\<close>

section \<open>The lines of a plan\<close>

definition leaf_lines :: "phase1 \<Rightarrow> order_line list" where
  "leaf_lines plan = map pn_line (ph_plain plan) @ concat (map (map fst \<circ> kt_children) (ph_kits plan))"

lemma distinct_concat_map:
  assumes "distinct xs" and "\<And>x. x \<in> set xs \<Longrightarrow> distinct (f x)" and "\<And>x y. x \<in> set xs \<Longrightarrow> y \<in> set xs \<Longrightarrow> x \<noteq> y \<Longrightarrow> set (f x) \<inter> set (f y) = {}"
  shows "distinct (concat (map f xs))"
  using assms
proof (induction xs)
  case (Cons x xs)
  have "distinct (concat (map f xs))" by (rule Cons.IH) (use Cons.prems in auto)
  moreover have "set (f x) \<inter> set (f y) = {}" if "y \<in> set xs" for y using Cons.prems(1,3) that by auto
  ultimately show ?case using Cons.prems(2) by auto
qed simp

lemma plans_distinct:
  assumes "distinct (map ol_id lines)"
  shows "distinct (map ol_id (map pn_line (plain_plans fate whole parents lines) @ concat (map (map fst \<circ> kt_children) (kit_plans fate parents lines))))"
    and "set (map pn_line (plain_plans fate whole parents lines) @ concat (map (map fst \<circ> kt_children) (kit_plans fate parents lines))) \<subseteq> set lines"
proof -
  let ?plain = "filter (\<lambda>l. ol_parent l = None \<and> ol_id l \<notin> set parents \<and> fate l \<noteq> Ineligible) lines"
  let ?kits = "filter (\<lambda>l. ol_parent l = None \<and> ol_id l \<in> set parents \<and> list_all (\<lambda>c. fate c \<noteq> Ineligible) (children_of lines l)) lines"
  have eq: "map pn_line (plain_plans fate whole parents lines) @ concat (map (map fst \<circ> kt_children) (kit_plans fate parents lines)) =
      ?plain @ concat (map (children_of lines) ?kits)"
    by (simp add: plain_plans_def kit_plans_def comp_def)
  have lines: "distinct lines" "inj_on ol_id (set lines)" using assms by (simp_all add: distinct_map)
  have disj: "set (children_of lines x) \<inter> set (children_of lines y) = {}" if "x \<in> set ?kits" "y \<in> set ?kits" "x \<noteq> y" for x y
    using that lines(2) by (auto simp: children_of_def dest: inj_onD)
  have kids: "distinct (concat (map (children_of lines) ?kits))"
    by (rule distinct_concat_map) (use lines(1) disj in \<open>auto simp: children_of_def\<close>)
  have sub: "set (?plain @ concat (map (children_of lines) ?kits)) \<subseteq> set lines" by (auto simp: children_of_def)
  have "distinct (?plain @ concat (map (children_of lines) ?kits))" using kids lines(1) by (auto simp: children_of_def)
  then show "distinct (map ol_id (map pn_line (plain_plans fate whole parents lines) @ concat (map (map fst \<circ> kt_children) (kit_plans fate parents lines))))"
    unfolding eq distinct_map using inj_on_subset [OF lines(2) sub] by blast
  show "set (map pn_line (plain_plans fate whole parents lines) @ concat (map (map fst \<circ> kt_children) (kit_plans fate parents lines))) \<subseteq> set lines"
    unfolding eq by (rule sub)
qed

lemma planInTx_lines:
  assumes "distinct (map ol_id (ob_lines (si_db s)))"
  shows "distinct (map ol_id (leaf_lines (planInTx ord s)))" "set (leaf_lines (planInTx ord s)) \<subseteq> set (lines_of_order (si_db s) ord)"
proof -
  let ?lines = "sort_key (\<lambda>l. (ol_created l, ol_id l)) (lines_of_order (si_db s) ord)"
  have dist: "distinct (map ol_id ?lines)"
    using assms by (auto simp: lines_of_order_def distinct_map inj_on_def)
  have empty: "leaf_lines \<lparr>ph_order = ord, ph_plain = [], ph_kits = [], ph_skipped = sk\<rparr> = []" for sk by (simp add: leaf_lines_def)
  have full: "leaf_lines \<lparr>ph_order = ord, ph_plain = plain_plans fate whole ps ?lines, ph_kits = kit_plans fate ps ?lines, ph_skipped = sk\<rparr> =
      map pn_line (plain_plans fate whole ps ?lines) @ concat (map (map fst \<circ> kt_children) (kit_plans fate ps ?lines))" for fate whole ps sk
    by (simp add: leaf_lines_def)
  show "distinct (map ol_id (leaf_lines (planInTx ord s)))"
    unfolding planInTx_def Let_def by (rule if_split [THEN iffD2], intro conjI impI) (unfold empty full, simp, rule plans_distinct [OF dist])
  have "set (leaf_lines (planInTx ord s)) \<subseteq> set ?lines"
    unfolding planInTx_def Let_def by (rule if_split [THEN iffD2], intro conjI impI) (unfold empty full, simp, rule plans_distinct [OF dist])
  then show "set (leaf_lines (planInTx ord s)) \<subseteq> set (lines_of_order (si_db s) ord)" by simp
qed

lemma subseq_concat: "list_all2 (\<lambda>x b. subseq (f b) (g x)) xs bs \<Longrightarrow> subseq (concat (map f bs)) (concat (map g xs))"
  by (induction rule: list_all2_induct) (auto intro: list_emb_append_mono)

lemma granted_lines:
  assumes "granted_blocks plan g"
  shows "subseq (map gh_line g) (leaf_lines plan)"
proof -
  obtain ps bs where g: "g = concat ps @ concat bs" "list_all2 (plain_block (ph_order plan)) (ph_plain plan) ps" "list_all2 kit_block (ph_kits plan) bs"
    using assms unfolding granted_blocks_def by blast
  have "list_all2 (\<lambda>e b. subseq (map gh_line b) [pn_line e]) (ph_plain plan) ps"
    by (rule list_all2_mono [OF g(2)]) (auto simp: plain_block_def)
  from subseq_concat [OF this] have plain: "subseq (map gh_line (concat ps)) (map pn_line (ph_plain plan))" by (simp add: map_concat concat_map_singleton)
  have "list_all2 (\<lambda>k b. subseq (map gh_line b) ((map fst \<circ> kt_children) k)) (ph_kits plan) bs"
    by (rule list_all2_mono [OF g(3)]) (auto simp: kit_block_def)
  from subseq_concat [OF this] have "subseq (map gh_line (concat bs)) (concat (map (map fst \<circ> kt_children) (ph_kits plan)))" by (simp add: map_concat comp_def)
  with plain show ?thesis unfolding g(1) leaf_lines_def map_append by (rule list_emb_append_mono)
qed

lemma subseq_distinct_map: "subseq xs ys \<Longrightarrow> distinct (map f ys) \<Longrightarrow> distinct (map f xs) \<and> set xs \<subseteq> set ys"
  by (induction rule: list_emb.induct) auto

section \<open>What is written\<close>

lemma update_where_other: "l \<in> set rows \<Longrightarrow> \<not> P l \<Longrightarrow> l \<in> set (update_where P f rows)"
  by (induction rows) auto

lemma update_where_hit: "l \<in> set rows \<Longrightarrow> P l \<Longrightarrow> f l \<in> set (update_where P f rows)"
  by (induction rows) auto

lemma write_lines_other:
  assumes "write_lines ord gs rows = (rows', al, sk)" and "l \<in> set rows" and "ol_id l \<notin> ol_id ` gh_line ` set gs"
  shows "l \<in> set rows'"
  using assms
proof (induction gs arbitrary: rows rows' al sk)
  case (Cons g gs)
  have "l \<in> set (update_where (unchanged_line ord (gh_line g)) (hold_line (gh_hold g)) rows)"
    by (rule update_where_other) (use Cons.prems in \<open>auto simp: unchanged_line_def\<close>)
  with Cons show ?case by (auto split: if_splits prod.splits)
qed simp

lemma write_lines_allocated:
  assumes "write_lines ord gs rows = (rows', al, sk)" and "distinct (map (ol_id \<circ> gh_line) gs)" and "g \<in> set al"
  shows "g \<in> set gs \<and> (\<exists>l. l\<lparr>ol_reserved := rv_qty (gh_hold g), ol_reservation := Some (rv_id (gh_hold g))\<rparr> \<in> set rows' \<and>
    ol_tenant l = or_tenant ord \<and> ol_id l = ol_id (gh_line g))"
  using assms
proof (induction gs arbitrary: rows rows' al sk)
  case (Cons x gs)
  let ?P = "unchanged_line ord (gh_line x)" and ?f = "hold_line (gh_hold x)"
  have dist: "distinct (map (ol_id \<circ> gh_line) gs)" "ol_id (gh_line x) \<notin> ol_id ` gh_line ` set gs" using Cons.prems(2) by (auto simp: comp_def)
  show ?case
  proof (cases "list_ex ?P rows")
    case True
    obtain al' where run: "write_lines ord gs (update_where ?P ?f rows) = (rows', al', sk)" and al: "al = x # al'"
      using Cons.prems(1) True by (auto split: prod.splits)
    show ?thesis
    proof (cases "g \<in> set al'")
      case True
      from Cons.IH [OF run dist(1) True] show ?thesis by auto
    next
      case False
      then have gx: "g = x" using Cons.prems(3) al by simp
      obtain l where l: "l \<in> set rows" "?P l" using \<open>list_ex ?P rows\<close> by (auto simp: list_ex_iff)
      have "?f l \<in> set rows'"
        by (rule write_lines_other [OF run update_where_hit [where P = ?P, OF l]]) (use dist(2) l(2) in \<open>auto simp: hold_line_def unchanged_line_def\<close>)
      then show ?thesis using l(2) gx by (auto simp: hold_line_def unchanged_line_def)
    qed
  next
    case False
    then obtain sk' where run: "write_lines ord gs rows = (rows', al, sk')" using Cons.prems(1) by (auto split: prod.splits)
    from Cons.IH [OF run dist(1) Cons.prems(3)] show ?thesis by auto
  qed
qed simp

text \<open>The grants that may be written: what phase 2 granted, and what another run put on a line it could not grant.\<close>

definition judged_ok :: "phase1 \<Rightarrow> granted_hold list \<Rightarrow> site \<Rightarrow> granted_hold list \<Rightarrow> bool" where
  "judged_ok plan g s new = (subseq new (g @ adopted_late plan g s) \<and> (\<forall>x \<in> set new. usable_hold (ph_order plan) (g @ adopted_late plan g s) s x))"

lemma subseq_filter_left: "subseq (filter P xs) xs"
  by (induction xs) auto

lemma judged_grants_ok:
  assumes "judged_grants plan locked (g, sk) s = (new, sk')"
  shows "judged_ok plan g s new"
proof -
  let ?all = "g @ adopted_late plan g s"
  obtain l0 sk0 where lic: "licensed locked (?all, filter (\<lambda>(i, _). i \<notin> set (map (ol_id \<circ> gh_line) (adopted_late plan g s))) sk) s = (l0, sk0)" by force
  then have l0: "l0 = [] \<or> l0 = ?all" by (auto simp: licensed_def split: if_splits)
  have new: "new = filter (usable_hold (ph_order plan) l0 s) l0"
    using assms lic by (simp add: judged_grants_def Let_def still_usable_def)
  from l0 show ?thesis
  proof
    assume "l0 = ?all"
    then have "subseq new ?all" unfolding new by (simp only: subseq_filter_left)
    moreover have "\<forall>x \<in> set new. usable_hold (ph_order plan) ?all s x" unfolding new \<open>l0 = ?all\<close> set_filter by blast
    ultimately show ?thesis by (simp only: judged_ok_def)
  qed (simp add: judged_ok_def new)
qed

lemma adopted_late_lines:
  "subseq (map gh_line (adopted_late plan g s)) (filter (\<lambda>l. ol_id l \<notin> ol_id ` gh_line ` set g) (map pn_line (ph_plain plan)))"
proof -
  have sub: "subseq (map gh_line (List.map_filter (\<lambda>l. case f (ol_id l) of None \<Rightarrow> None
      | Some h \<Rightarrow> if Q h l then None else Some \<lparr>gh_line = l, gh_hold = h, gh_adopted = True\<rparr>) ls)) ls" for f :: "uuid \<Rightarrow> reservation_row option" and Q ls
    by (induction ls) (auto simp: List.map_filter_simps split: option.split)
  have eq: "filter (\<lambda>l. \<not> list_ex (\<lambda>x. ol_id (gh_line x) = ol_id l) g) ls = filter (\<lambda>l. ol_id l \<notin> ol_id ` gh_line ` set g) ls" for ls
    by (rule filter_cong) (auto simp: list_ex_iff image_iff)
  show ?thesis unfolding adopted_late_def Let_def eq by (rule sub)
qed

lemma adopted_late_hold:
  assumes "x \<in> set (adopted_late plan g s)"
  shows "gh_hold x \<in> set (journal (iv_world s))" "rv_owner (gh_hold x) = ol_id (gh_line x)"
proof -
  let ?ord = "ph_order plan"
  obtain owners l where h: "js_map (map (\<lambda>h. (rv_owner h, h)) (ownedReservationsInTx (or_tenant ?ord) (or_wh ?ord) ORDER_OWNER_TYPE owners Held (iv_world s))) (ol_id l) =
      Some (gh_hold x)" "gh_line x = l"
    using assms by (auto simp: adopted_late_def Let_def map_filter_set split: option.splits if_splits)
  then have m: "gh_hold x \<in> set (ownedReservationsInTx (or_tenant ?ord) (or_wh ?ord) ORDER_OWNER_TYPE owners Held (iv_world s))" "rv_owner (gh_hold x) = ol_id l"
    unfolding js_map_def by (force dest: map_of_SomeD)+
  show "gh_hold x \<in> set (journal (iv_world s))" by (rule owned_facts(1) [OF m(1)])
  show "rv_owner (gh_hold x) = ol_id (gh_line x)" using m(2) h(2) by simp
qed

lemma judged_lines:
  assumes "judged_ok plan g s new" and "subseq (map gh_line g) (leaf_lines plan)" and "distinct (map ol_id (leaf_lines plan))"
  shows "distinct (map (ol_id \<circ> gh_line) new)" "gh_line ` set new \<subseteq> set (leaf_lines plan)"
proof -
  let ?late = "adopted_late plan g s"
  note g = subseq_distinct_map [OF assms(2,3)]
  have "distinct (map ol_id (filter (\<lambda>l. ol_id l \<notin> ol_id ` gh_line ` set g) (map pn_line (ph_plain plan))))"
    using assms(3) by (simp add: leaf_lines_def distinct_map_filter)
  note late = subseq_distinct_map [OF adopted_late_lines this]
  have late_id: "ol_id (gh_line y) \<noteq> ol_id (gh_line x)" if "x \<in> set ?late" "y \<in> set g" for x y
  proof -
    have "gh_line x \<in> set (map gh_line ?late)" using that(1) by simp
    then have "gh_line x \<in> set (filter (\<lambda>l. ol_id l \<notin> ol_id ` gh_line ` set g) (map pn_line (ph_plain plan)))"
      by (rule subsetD [OF conjunct2 [OF late [of s]]])
    then have "ol_id (gh_line x) \<notin> ol_id ` gh_line ` set g" unfolding set_filter by blast
    moreover have "ol_id (gh_line y) \<in> ol_id ` gh_line ` set g" using that(2) by blast
    ultimately show ?thesis by metis
  qed
  have apart: "set (map ol_id (map gh_line g)) \<inter> set (map ol_id (map gh_line ?late)) = {}" using late_id by auto
  have "distinct (map ol_id (map gh_line g @ map gh_line ?late))"
    unfolding map_append distinct_append using g late [of s] apart by blast
  then have "distinct (map ol_id (map gh_line (g @ ?late)))" unfolding map_append .
  moreover have "set (map gh_line (g @ ?late)) \<subseteq> set (leaf_lines plan)"
    using conjunct2 [OF g] conjunct2 [OF late [of s]] by (auto simp: leaf_lines_def)
  moreover have "subseq (map gh_line new) (map gh_line (g @ ?late))" using assms(1) unfolding judged_ok_def by (blast intro: subseq_map)
  ultimately have "distinct (map ol_id (map gh_line new)) \<and> set (map gh_line new) \<subseteq> set (leaf_lines plan)"
    using subseq_distinct_map [of "map gh_line new" "map gh_line (g @ ?late)" ol_id] by (blast intro: order_trans)
  then show "distinct (map (ol_id \<circ> gh_line) new)" "gh_line ` set new \<subseteq> set (leaf_lines plan)" by simp_all
qed

section \<open>What the last steps leave alone\<close>

definition framed :: "reservation_row \<Rightarrow> millis \<Rightarrow> world \<Rightarrow> bool" where
  "framed q n w = (q \<in> set (journal w) \<and> wd_now w = n)"

lemma framed_release: "rv_id q \<noteq> i \<Longrightarrow> keeps (framed q n) (releaseInTx t i)"
proof -
  assume i: "rv_id q \<noteq> i"
  have set: "keeps (framed q n) (set_state t i from to)" for "from" to
    using i by (auto simp: hoare_def set_state_def set_journal_def framed_def journal_def Let_def split: option.split intro!: update_where_other)
  show ?thesis
    unfolding releaseInTx_def releaseFromStateInTx_def by (intro keeps_bind keeps_attempt hoare_if keeps_basic calm_option set same_lines_option)
qed

lemma framed_restore: "keeps (framed q n) (restoreReservedUnits t wh sk u)"
proof -
  have call: "keeps (framed q n) (valkey_call f)" for f :: "store \<Rightarrow> 'x result \<times> store"
    by (auto simp: hoare_def valkey_call_def framed_def journal_def split: prod.split sum.split)
  show ?thesis
    unfolding restoreReservedUnits_def releaseReservation_def by (intro keeps_bind keeps_attempt hoare_if keeps_basic call)
qed

definition site_framed :: "reservation_row \<Rightarrow> order_line list \<Rightarrow> millis \<Rightarrow> site \<Rightarrow> bool" where
  "site_framed q L n s = (framed q n (iv_world s) \<and> ob_lines (si_db s) = L)"

lemma framed_inventory: "keeps (framed q n) m \<Longrightarrow> keeps (site_framed q L n) (in_inventory m)"
proof -
  assume m: "keeps (framed q n) m"
  have "site_framed q L n s'" if "site_framed q L n s" "in_inventory m s = (r, s')" for s r s'
    using in_inventory_run [OF that(2)] keepsD [where P = "framed q n", OF m, of "iv_world s"] that(1) by (simp add: site_framed_def)
  then show ?thesis by (auto simp: hoare_def split: prod.split sum.split)
qed

lemma framed_release_each: "rv_id q \<notin> rv_id ` set hs \<Longrightarrow> keeps (site_framed q L n) (release_each t hs)"
proof (induction hs)
  case (Cons h hs)
  have "keeps (site_framed q L n) (in_inventory (releaseInTx t (rv_id h)))"
    by (rule framed_inventory [OF framed_release]) (use Cons.prems in auto)
  moreover have "keeps (site_framed q L n) (release_each t hs)" by (rule Cons.IH) (use Cons.prems in auto)
  ultimately show ?case unfolding release_each.simps by (intro keeps_bind keeps_attempt hoare_if keeps_basic)
qed (simp only: release_each.simps keeps_basic)

lemma framed_restores: "keeps (site_framed q L n) (applyRestores t rs)"
  unfolding applyRestores_def split_beta by (intro keeps_for_each keeps_attempt keeps_basic framed_inventory framed_restore)

section \<open>The lines of an answer\<close>

definition on_line :: "uuid \<Rightarrow> uuid \<Rightarrow> site \<Rightarrow> uuid \<times> int \<times> int \<Rightarrow> bool" where
  "on_line t i s = (\<lambda>(l, n, q). \<exists>line \<in> set (ob_lines (si_db s)). ol_tenant line = t \<and> ol_order line = i \<and> ol_id line = l \<and> ol_reserved line = q \<and>
     (\<exists>r \<in> set (journal (iv_world s)). ol_reservation line = Some (rv_id r) \<and> rv_owner r = l \<and> rv_qty r = q \<and> rv_state r = Held \<and>
        \<not> lapsed (wd_now (si_world s)) r))"

lemma on_line_framed:
  assumes "on_line t i s x" and "\<And>q. \<exists>line \<in> set (ob_lines (si_db s)). ol_tenant line = t \<and> ol_order line = i \<and> ol_reservation line = Some (rv_id q) \<Longrightarrow>
      site_framed q (ob_lines (si_db s)) (wd_now (si_world s)) s \<Longrightarrow> site_framed q (ob_lines (si_db s)) (wd_now (si_world s)) s'"
  shows "on_line t i s' x"
proof -
  obtain l n q where x: "x = (l, n, q)" by (cases x)
  then obtain line r where l: "line \<in> set (ob_lines (si_db s))" "ol_tenant line = t" "ol_order line = i" "ol_id line = l" "ol_reserved line = q"
    "r \<in> set (journal (iv_world s))" "ol_reservation line = Some (rv_id r)" "rv_owner r = l" "rv_qty r = q" "rv_state r = Held" "\<not> lapsed (wd_now (si_world s)) r"
    using assms(1) by (auto simp: on_line_def)
  have "site_framed r (ob_lines (si_db s)) (wd_now (si_world s)) s" using l(6) by (simp add: site_framed_def framed_def)
  then have "site_framed r (ob_lines (si_db s)) (wd_now (si_world s)) s'" using assms(2) l by blast
  with l show ?thesis unfolding x on_line_def site_framed_def framed_def by auto
qed

lemma write_lines_orders: "write_lines ord gs rows = (rows', al, sk) \<Longrightarrow> map (\<lambda>l. (ol_id l, ol_order l)) rows' = map (\<lambda>l. (ol_id l, ol_order l)) rows"
proof (induction gs arbitrary: rows rows' al sk)
  case (Cons g gs)
  have "map (\<lambda>l. (ol_id l, ol_order l)) (update_where P (hold_line h) rows) = map (\<lambda>l. (ol_id l, ol_order l)) rows" for P h
    by (induction rows) (simp_all add: hold_line_def)
  with Cons show ?case by (auto split: if_splits prod.splits)
qed simp

lemma usable_row:
  assumes "usable_hold ord all s x"
  obtains r where "r \<in> set (journal (iv_world s))" "rv_id r = rv_id (gh_hold x)" "rv_state r = Held" "\<not> lapsed (wd_now (si_world s)) r"
proof -
  let ?rows = "reservationsByIdsInTx (or_tenant ord) (map (rv_id \<circ> gh_hold) all) (iv_world s)"
  obtain r where r: "js_map (map (\<lambda>r. (rv_id r, r)) ?rows) (rv_id (gh_hold x)) = Some r" "rv_state r = Held" "\<not> lapsed (wd_now (si_world s)) r"
    using assms by (auto simp: usable_hold_def split: option.splits)
  then have "r \<in> set ?rows" "rv_id r = rv_id (gh_hold x)" unfolding js_map_def by (force dest: map_of_SomeD)+
  then show thesis using that r by (auto simp: reservationsByIdsInTx_def split: if_splits)
qed

lemma subseq_set: "subseq xs ys \<Longrightarrow> set xs \<subseteq> set ys"
  by (induction rule: list_emb.induct) auto

lemma write_body_lines:
  fixes plan :: phase1
  defines "ord \<equiv> ph_order plan"
  assumes at: "site_at rn db none A (S \<union> gh_hold ` set (fst g)) s" and owners: "\<forall>x \<in> set (fst g). rv_owner (gh_hold x) = ol_id (gh_line x)"
    and blocks: "granted_blocks plan (fst g)" and lines: "distinct (map ol_id (leaf_lines plan))" "set (leaf_lines plan) \<subseteq> set (lines_of_order db ord)"
    and dist: "distinct (map ol_id (ob_lines db))" and run: "write_body plan g actor key s = (Inr (Written result units rs), s')"
    and x: "x \<in> set (al_allocated result)"
  shows "on_line (or_tenant ord) (or_id ord) s' x"
proof -
  have w: "world_at rn (si_fresh s) none A (S \<union> gh_hold ` set (fst g)) (iv_world s)" using at by (simp add: site_at_def)
  have same_lines: "ob_lines (si_db s) = ob_lines db" using at by (auto simp: site_at_def outside_def)
  obtain locked db1 where wr: "written_as plan locked g s db1 (result, units)" "ob_iv db1 = ob_iv (si_db s)"
    and rel: "release_unreferenced ord (map gh_hold (fst g)) (s\<lparr>si_db := db1\<rparr>) = (Inr rs, s')"
    using run unfolding ord_def by (cases rule: write_body_Inr) auto
  obtain new sk al cs where j: "judged_grants plan locked g s = (new, sk)" and wl: "write_lines ord new (ob_lines db) = (ob_lines db1, al, cs)"
    and result: "result = result_of plan new al (sk @ cs)"
    using wr(1) unfolding written_as_def same_lines ord_def by blast
  have jok: "judged_ok plan (fst g) s new" using judged_grants_ok [of plan locked "fst g" "snd g"] j by simp
  note jl = judged_lines [OF jok granted_lines [OF blocks] lines(1)]
  obtain y where y: "y \<in> set al" "x = (ol_id (gh_line y), ol_qty (gh_line y), rv_qty (gh_hold y))"
    using x by (auto simp: result result_of_def)
  from write_lines_allocated [OF wl jl(1) y(1)] obtain l where yn: "y \<in> set new"
    and l: "l\<lparr>ol_reserved := rv_qty (gh_hold y), ol_reservation := Some (rv_id (gh_hold y))\<rparr> \<in> set (ob_lines db1)" "ol_tenant l = or_tenant ord" "ol_id l = ol_id (gh_line y)"
    by blast
  let ?l = "l\<lparr>ol_reserved := rv_qty (gh_hold y), ol_reservation := Some (rv_id (gh_hold y))\<rparr>"
  have gl: "gh_line y \<in> set (lines_of_order db ord)" using jl(2) lines(2) yn by blast
  have order: "ol_order l = or_id ord"
  proof -
    let ?f = "\<lambda>l :: order_line. (ol_id l, ol_order l)"
    have "?f ?l \<in> ?f ` set (ob_lines db1)" by (rule imageI [OF l(1)])
    also have "?f ` set (ob_lines db1) = ?f ` set (ob_lines db)"
      unfolding set_map [symmetric] write_lines_orders [OF wl] ..
    finally obtain l0 where l0: "l0 \<in> set (ob_lines db)" "?f l0 = ?f ?l" by (rule imageE) simp
    then have l0: "l0 \<in> set (ob_lines db)" "ol_id l0 = ol_id l" "ol_order l0 = ol_order l" by simp_all
    have "l0 = gh_line y" using dist l0(1,2) gl l(3) by (auto simp: lines_of_order_def distinct_map dest: inj_onD)
    with gl l0(3) show ?thesis by (auto simp: lines_of_order_def)
  qed
  from jok yn have "usable_hold ord (fst g @ adopted_late plan (fst g) s) s y" unfolding judged_ok_def ord_def by blast
  then obtain r where r: "r \<in> set (journal (iv_world s))" "rv_id r = rv_id (gh_hold y)" "rv_state r = Held" "\<not> lapsed (wd_now (si_world s)) r"
    by (rule usable_row)
  have "rv_owner r = ol_id (gh_line y) \<and> rv_qty r = rv_qty (gh_hold y)"
  proof (cases "y \<in> set (fst g)")
    case True
    then have "gh_hold y \<in> S \<union> gh_hold ` set (fst g)" by blast
    from seen_row_facts [OF w this] obtain r' where r': "r' \<in> set (journal (iv_world s))" "rv_id r' = rv_id (gh_hold y)" "rv_qty r' = rv_qty (gh_hold y)"
      "rv_owner r' = rv_owner (gh_hold y)" by metis
    have "r' = r" using journal_key [OF world_atD(2) [OF w] r'(1) r(1)] r'(2) r(2) by simp
    with r' owners True show ?thesis by auto
  next
    case False
    then have "y \<in> set (adopted_late plan (fst g) s)" using subseq_set [OF conjunct1 [OF jok [unfolded judged_ok_def]]] yn by auto
    note late = adopted_late_hold [OF this]
    have "gh_hold y = r" using journal_key [OF world_atD(2) [OF w] late(1) r(1)] r(2) by simp
    with late(2) show ?thesis by simp
  qed
  with r l order have on1: "on_line (or_tenant ord) (or_id ord) (s\<lparr>si_db := db1\<rparr>) x"
    unfolding y(2) on_line_def split_conv by (intro bexI [of _ ?l] conjI bexI [of _ r]) (auto simp: wr(2) journal_def)
  show ?thesis
  proof (rule on_line_framed [OF on1])
    fix q :: reservation_row
    let ?s1 = "s\<lparr>si_db := db1\<rparr>" and ?given = "map gh_hold (fst g)"
    assume "\<exists>line \<in> set (ob_lines (si_db ?s1)). ol_tenant line = or_tenant ord \<and> ol_order line = or_id ord \<and> ol_reservation line = Some (rv_id q)"
    then have "rv_id q \<in> refs_of ord db1" by (auto simp: refs_of_def lines_of_order_def)
    then have not: "rv_id q \<notin> rv_id ` set (unreferencedInTx ord ?given ?s1)"
      using unreferencedInTx_set(2) [where db = db1 and s = ?s1 and ord = ord and given = ?given] by auto
    assume before: "site_framed q (ob_lines (si_db ?s1)) (wd_now (si_world ?s1)) ?s1"
    have "release_each (or_tenant ord) (unreferencedInTx ord ?given ?s1) ?s1 = (Inr rs, s')"
      using rel by (simp add: release_unreferenced_def bind_def)
    with keepsD [where P = "site_framed q (ob_lines (si_db ?s1)) (wd_now (si_world ?s1))", OF framed_release_each [OF not] before]
    show "site_framed q (ob_lines (si_db ?s1)) (wd_now (si_world ?s1)) s'" by (metis snd_conv)
  qed
qed

lemma write_body_units:
  assumes "write_body plan g actor key s = (Inr (Written result units rs), s')"
  shows "units = sum_list (map (snd \<circ> snd) (al_allocated result))"
  using assms by (cases rule: write_body_Inr) (auto simp: written_as_def result_of_def comp_def)

lemma tx_Inr:
  assumes "withTenantTransaction m s = (Inr v, s')"
  obtains b where "m s = (Inr v, b)" "si_db s' = si_db b" "si_fresh s' = si_fresh b" "journal (iv_world s') = journal (iv_world b)" "wd_now (si_world s') = wd_now (si_world b)"
proof -
  obtain r b where b: "m s = (r, b)" by force
  with assms obtain v' where r: "r = Inr v'" by (cases r) (auto simp: withTenantTransaction_def)
  show thesis
  proof (cases "wd_txs (si_world b)")
    case Nil
    with assms b r that show ?thesis by (simp add: withTenantTransaction_def)
  next
    case (Cons f fs)
    with assms b r that show ?thesis by (cases f) (auto simp: withTenantTransaction_def Let_def journal_def)
  qed
qed

lemma body_lines:
  fixes p :: phase1
  defines "ord \<equiv> ph_order p"
  assumes at: "live_at rn db none (refs_of ord db) S s1" and okr: "run_ok rn" and okp: "plan_ok rn S p" and t: "t = or_tenant ord"
    and lines: "distinct (map ol_id (leaf_lines p))" "set (leaf_lines p) \<subseteq> set (lines_of_order db ord)" and dist: "distinct (map ol_id (ob_lines db))"
    and pure: "\<And>w s r s''. c w s = (r, s'') \<Longrightarrow> s'' = s"
    and run: "bind (grantPhase (rn_id rn) p) (\<lambda>grants. bind (writePhase p grants actor key) (\<lambda>w. bind (applyRestores t (restores_of w)) (\<lambda>_. c w))) s1 = (Inr v, s')"
    and few: "si_fresh s' \<le> rn_top rn"
  shows "\<exists>w. c w s' = (Inr v, s') \<and> (\<forall>result units rs. w = Written result units rs \<longrightarrow>
     units = sum_list (map (snd \<circ> snd) (al_allocated result)) \<and> (\<forall>x \<in> set (al_allocated result). on_line t (or_id ord) s' x))"
proof -
  obtain g s2 where g: "grantPhase (rn_id rn) p s1 = (Inr g, s2)"
    and run2: "bind (writePhase p g actor key) (\<lambda>w. bind (applyRestores t (restores_of w)) (\<lambda>_. c w)) s2 = (Inr v, s')"
    using run unfolding bind_Inr by blast
  then obtain w s3 where w: "writePhase p g actor key s2 = (Inr w, s3)" and run3: "bind (applyRestores t (restores_of w)) (\<lambda>_. c w) s3 = (Inr v, s')"
    unfolding bind_Inr by blast
  then obtain u s4 where r4: "applyRestores t (restores_of w) s3 = (Inr u, s4)" "c w s4 = (Inr v, s')" unfolding bind_Inr by blast
  have s4: "s4 = s'" using pure [OF r4(2)] by simp
  have "withTenantTransaction (write_body p g actor key) s2 = (Inr w, s3)"
    using w by (auto simp: writePhase_def attempt_def bind_def split: prod.splits sum.splits)
  then obtain b where b: "write_body p g actor key s2 = (Inr w, b)" "si_db s3 = si_db b" "si_fresh s3 = si_fresh b" "journal (iv_world s3) = journal (iv_world b)"
      "wd_now (si_world s3) = wd_now (si_world b)"
    by (rule tx_Inr)
  have "si_fresh s2 \<le> si_fresh s3"
    using keepsD [where w = s2 and P = "\<lambda>s. si_fresh s2 \<le> si_fresh s" and m = "writePhase p g actor key", OF keeps_fresh [OF same_lines_writePhase]] w by simp
  also have "\<dots> \<le> si_fresh s'"
    using keepsD [where w = s3 and P = "\<lambda>s. si_fresh s3 \<le> si_fresh s" and m = "applyRestores t (restores_of w)", OF keeps_fresh [OF same_lines_release(2)]] r4(1) s4 by simp
  finally have few2: "si_fresh s2 \<le> rn_top rn" using few by simp
  from hoareD(1) [OF hoare_grantPhase [OF okr okp, where db = db] _ g, folded ord_def] at
  have ga: "grants_at rn db ord S (fst g) s2" "granted_blocks p (fst g)" by blast+
  then have site: "site_at rn db none (refs_of ord db \<union> rv_id ` set (own_holds (fst g))) (S \<union> gh_hold ` set (fst g)) s2"
    and owners: "\<forall>x \<in> set (fst g). rv_owner (gh_hold x) = ol_id (gh_line x)"
    using few2 unfolding grants_at_def live_at_def by blast+
  have "on_line t (or_id ord) s' x" if "w = Written result units rs" "x \<in> set (al_allocated result)" for result units rs x
  proof -
    have "on_line t (or_id ord) b x"
      using write_body_lines [OF site owners ga(2) lines(1) lines(2) [unfolded ord_def] dist b(1) [unfolded that(1)] that(2)] t by (simp add: ord_def)
    then have on3: "on_line t (or_id ord) s3 x" using b by (simp add: on_line_def)
    show ?thesis
    proof (rule on_line_framed [OF on3])
      fix q
      assume "site_framed q (ob_lines (si_db s3)) (wd_now (si_world s3)) s3"
      with keepsD [where P = "site_framed q (ob_lines (si_db s3)) (wd_now (si_world s3))" and m = "applyRestores t (restores_of w)", OF framed_restores]
      show "site_framed q (ob_lines (si_db s3)) (wd_now (si_world s3)) s'" using r4(1) s4 by (metis snd_conv)
    qed
  qed
  moreover have "units = sum_list (map (snd \<circ> snd) (al_allocated result))" if "w = Written result units rs" for result units rs
    by (rule write_body_units [OF b(1) [unfolded that]])
  ultimately show ?thesis using r4(2) s4 by blast
qed

end
