(* ===== verification/AllocationBounds.thy ===== *)
theory AllocationBounds
  imports AllocationLines
begin

text \<open>
  How many ids a run may draw, and the budget of a sweep.
\<close>

section \<open>How long it takes\<close>

text \<open>\<open>m\<close> draws at most \<open>k\<close> ids.\<close>

definition draws :: "nat \<Rightarrow> 'a act \<Rightarrow> bool" where
  "draws k m = (\<forall>s. si_fresh (snd (m s)) \<le> si_fresh s + k)"

lemma draws_bind:
  assumes "draws a m" and "\<And>v. draws b (f v)"
  shows "draws (a + b) (bind m f)"
  unfolding draws_def
proof
  fix s
  obtain r s1 where run: "m s = (r, s1)" by force
  have le: "si_fresh s1 \<le> si_fresh s + a" using assms(1) run unfolding draws_def by (metis snd_conv)
  show "si_fresh (snd (bind m f s)) \<le> si_fresh s + (a + b)"
  proof (cases r)
    case (Inr v)
    have "si_fresh (snd (f v s1)) \<le> si_fresh s1 + b" using assms(2) unfolding draws_def by blast
    with le Inr show ?thesis by (simp add: bind_def run)
  qed (use le in \<open>simp add: bind_def run\<close>)
qed

lemma draws_attempt:
  assumes "draws a m" and "\<And>v. draws b (f v)"
  shows "draws (a + b) (attempt m f)"
  unfolding draws_def
proof
  fix s
  obtain r s1 where run: "m s = (r, s1)" by force
  have le: "si_fresh s1 \<le> si_fresh s + a" using assms(1) run unfolding draws_def by (metis snd_conv)
  show "si_fresh (snd (attempt m f s)) \<le> si_fresh s + (a + b)"
  proof (cases r)
    case (Inl v)
    have "si_fresh (snd (f v s1)) \<le> si_fresh s1 + b" using assms(2) unfolding draws_def by blast
    with le Inl show ?thesis by (simp add: attempt_def run)
  qed (use le in \<open>simp add: attempt_def run\<close>)
qed

lemma draws_more: "draws a m \<Longrightarrow> a \<le> b \<Longrightarrow> draws b m"
  unfolding draws_def by (meson add_left_mono order_trans)

lemma draws_basic: "draws 0 (ret v)" "draws 0 (raise e)" "draws 0 (lift r)" "draws 0 (read f)" "draws 0 (mark_exhausted ord sku)" "draws 0 no_cache"
  "draws 1 (fresh newId)" "draws 0 (modify_db g)"
  by (simp_all add: draws_def mark_exhausted_def no_cache_def fresh_def modify_db_def)

lemma draws_inventory: "draws 0 (in_inventory m)"
  by (simp add: draws_def in_inventory_def split: prod.split)

lemma draws_tx: "draws k m \<Longrightarrow> draws k (withTenantTransaction m)"
  unfolding draws_def
proof
  fix s
  assume m: "\<forall>s. si_fresh (snd (m s)) \<le> si_fresh s + k"
  obtain r b where run: "m s = (r, b)" by force
  have "si_fresh b \<le> si_fresh s + k" using m [rule_format, of s] run by simp
  then show "si_fresh (snd (withTenantTransaction m s)) \<le> si_fresh s + k"
    by (cases r) (simp_all add: withTenantTransaction_def run Let_def split: list.split fate.split)
qed

lemma draws_if: "(b \<Longrightarrow> draws k m) \<Longrightarrow> (\<not> b \<Longrightarrow> draws k n) \<Longrightarrow> draws k (if b then m else n)"
  by simp

lemma draws_attempts: "draws n (grant_attempts newId c n)"
proof (induction n)
  case 0
  show ?case unfolding grant_attempts.simps by (rule draws_basic)
next
  case (Suc n)
  have "draws (0 + (1 + (0 + 0 + n))) (grant_attempts newId c (Suc n))"
    unfolding grant_attempts.simps
    by (intro draws_bind draws_inventory draws_if draws_attempt draws_basic draws_more [OF draws_basic(1)] draws_more [OF draws_basic(2)] Suc) simp_all
  then show ?case by simp
qed

lemmas draws_rules = draws_bind draws_attempt draws_if draws_tx draws_inventory draws_basic

lemma draws_zero_bind: "draws 0 m \<Longrightarrow> (\<And>v. draws 0 (f v)) \<Longrightarrow> draws 0 (bind m f)"
  using draws_bind [of 0 m 0 f] by simp

lemma draws_zero_attempt: "draws 0 m \<Longrightarrow> (\<And>v. draws 0 (f v)) \<Longrightarrow> draws 0 (attempt m f)"
  using draws_attempt [of 0 m 0 f] by simp

lemmas draws_none = draws_zero_bind draws_zero_attempt draws_if draws_tx draws_inventory draws_basic

lemma draws_release_each: "draws 0 (release_each t hs)"
  by (induction hs) (unfold release_each.simps, (intro draws_none | assumption)+)

lemma draws_for_each: "(\<And>x. draws 0 (f x)) \<Longrightarrow> draws 0 (for_each f xs)"
proof (induction xs)
  case (Cons x xs)
  then show ?case unfolding for_each.simps by (intro draws_zero_bind) blast+
qed (simp only: for_each.simps draws_basic)

lemma draws_restores: "draws 0 (applyRestores t rs)"
  unfolding applyRestores_def split_beta by (intro draws_for_each draws_none)

lemma draws_release: "draws 0 (release_unreferenced ord hs)"
  unfolding release_unreferenced_def by (intro draws_none draws_release_each)

lemma draws_under_lock: "draws 0 (releaseUnreferencedUnderLock ord hs)"
  unfolding releaseUnreferencedUnderLock_def by (intro draws_none draws_release draws_restores)

lemma draws_line: "draws 4 (grantLineHold newId c)"
  unfolding grantLineHold_def MAX_GRANT_ATTEMPTS_def by (rule draws_attempts)

lemma draws_add_zero: "draws k m \<Longrightarrow> (\<And>v. draws 0 (f v)) \<Longrightarrow> draws k (bind m f)" "draws k m \<Longrightarrow> (\<And>v. draws 0 (g v)) \<Longrightarrow> draws k (attempt m g)"
  "draws 0 m \<Longrightarrow> (\<And>v. draws k (f v)) \<Longrightarrow> draws k (bind m f)"
  using draws_bind [of k m 0 f] draws_attempt [of k m 0 g] draws_bind [of 0 m k f] by simp_all

lemma draws_up: "draws 0 m \<Longrightarrow> draws k m"
  by (rule draws_more) (assumption | rule le0)+

lemma draws_components: "draws (4 * length cs) (grant_components newId (releaseUnreferencedUnderLock ord) hs cs)"
proof (induction cs arbitrary: hs)
  case Nil
  show ?case by (simp only: list.size mult_0_right grant_components.simps draws_basic)
next
  case (Cons c cs)
  let ?release = "releaseUnreferencedUnderLock ord"
  have first: "draws 4 (or_release ?release hs (grantLineHold newId c))"
    unfolding or_release_def by (rule draws_add_zero(2) [OF draws_line]) (intro draws_none draws_under_lock)
  have stop: "draws (4 * length cs) (bind (or_release ?release hs (?release hs)) (\<lambda>_. ret None))" for hs
    unfolding or_release_def by (rule draws_up) (intro draws_none draws_under_lock)
  have rest: "draws (4 * length cs) (case r of None \<Rightarrow> bind (or_release ?release hs (?release hs)) (\<lambda>_. ret None)
     | Some h \<Rightarrow> if rv_qty h < lg_qty c then bind (or_release ?release (hs @ [h]) (?release (hs @ [h]))) (\<lambda>_. ret None)
         else grant_components newId ?release (hs @ [h]) cs)" for r
    by (cases r) (simp_all only: option.case stop, rule draws_if, rule stop, rule Cons.IH)
  show ?case
    unfolding grant_components.simps using draws_bind [OF first rest] by simp
qed

lemma draws_held: "draws 0 (heldOfOwner ord i)"
  unfolding heldOfOwner_def by (intro draws_none)

lemma draws_plain: "draws 4 (grant_plain newId ord e acc)"
proof -
  obtain g sk where acc: "acc = (g, sk)" by (cases acc)
  have tried: "draws 4 (attempt (bind (grantLineHold newId c) (\<lambda>h. ret (Inr h)))
      (\<lambda>err. if \<not> isRaceLoss err then raise err else bind (heldOfOwner ord i) (\<lambda>settled. ret (Inl settled))))" for c i
    by (rule draws_add_zero(2) [OF draws_add_zero(1) [OF draws_line]]) (intro draws_none draws_held)+
  have answer: "draws 0 (case r of
           Inl None \<Rightarrow> ret (g, sk @ x)
         | Inl (Some h) \<Rightarrow> ret (g @ f h, sk)
         | Inr None \<Rightarrow> if pn_whole e then ret (g, sk @ y) else bind (mark_exhausted ord sku) (\<lambda>_. ret (g, sk))
         | Inr (Some h) \<Rightarrow> bind (if rv_qty h < n then mark_exhausted ord sku else ret ()) (\<lambda>_. ret (g @ f' h, sk)))"
    for r :: "reservation_row option + reservation_row option" and x y sku n and f f' :: "reservation_row \<Rightarrow> granted_hold list"
    by (cases r; cases "projl r"; cases "projr r") (simp_all only: sum.case option.case sum.sel, (intro draws_none)+)
  show ?thesis
    unfolding acc grant_plain_def Let_def split_conv
  proof (cases "pn_adopt e")
    case None
    show "draws 4 (case pn_adopt e of
       Some h \<Rightarrow>
         if pn_whole e \<and> rv_qty h < ol_qty (pn_line e) then ret (g, sk @ [(ol_id (pn_line e), ''sku-inactive'')])
         else ret (g @ [\<lparr>gh_line = pn_line e, gh_hold = h, gh_adopted = True\<rparr>], sk)
     | None \<Rightarrow>
         bind (read (known_exhausted ord (ol_sku (pn_line e)))) (\<lambda>gone.
         if gone then ret (g, sk)
         else bind (attempt (bind (grantLineHold newId (line_request ord (pn_line e) (pn_whole e))) (\<lambda>h. ret (Inr h)))
           (\<lambda>err. if \<not> isRaceLoss err then raise err else bind (heldOfOwner ord (ol_id (pn_line e))) (\<lambda>settled. ret (Inl settled)))) (\<lambda>r.
         case r of
           Inl None \<Rightarrow> ret (g, sk @ [(ol_id (pn_line e), ''contended'')])
         | Inl (Some h) \<Rightarrow> ret (g @ [\<lparr>gh_line = pn_line e, gh_hold = h, gh_adopted = True\<rparr>], sk)
         | Inr None \<Rightarrow>
             if pn_whole e then ret (g, sk @ [(ol_id (pn_line e), ''sku-inactive'')])
             else bind (mark_exhausted ord (ol_sku (pn_line e))) (\<lambda>_. ret (g, sk))
         | Inr (Some h) \<Rightarrow>
             bind (if rv_qty h < ol_qty (pn_line e) then mark_exhausted ord (ol_sku (pn_line e)) else ret ()) (\<lambda>_.
             ret (g @ [\<lparr>gh_line = pn_line e, gh_hold = h, gh_adopted = False\<rparr>], sk)))))"
      unfolding None option.case
      by (rule draws_add_zero(3) [OF draws_basic(4)], rule draws_if, rule draws_up, rule draws_basic, rule draws_add_zero(1) [OF tried], rule answer)
  qed (simp add: draws_if draws_up draws_basic)
qed

lemma draws_kit: "draws (4 * length (kt_children k)) (grant_kit newId ord k acc)"
proof -
  obtain g sk where acc: "acc = (g, sk)" by (cases acc)
  let ?new = "map fst (filter (\<lambda>c. snd c = None) (kit_children k))"
  have few: "4 * length (map (\<lambda>l. line_request ord l False) ?new) \<le> 4 * length (kt_children k)"
    using length_filter_le [of "\<lambda>c. snd c = None" "kit_children k"] by (simp add: kit_children_def)
  have block: "draws (4 * length (kt_children k)) (grantKitBlock newId (releaseUnreferencedUnderLock ord) (map (\<lambda>l. line_request ord l False) ?new))"
    unfolding grantKitBlock_def by (rule draws_more [OF draws_components few])
  have tried: "draws (4 * length (kt_children k)) (attempt (bind (grantKitBlock newId (releaseUnreferencedUnderLock ord) (map (\<lambda>l. line_request ord l False) ?new)) (\<lambda>r. ret (Inr r)))
       (\<lambda>err. if isRaceLoss err then ret (Inl ()) else raise err))"
    by (rule draws_add_zero(2) [OF draws_add_zero(1) [OF block]]) (intro draws_none)+
  have answer: "draws 0 (case r of Inl _ \<Rightarrow> ret x | Inr None \<Rightarrow> ret y | Inr (Some hs) \<Rightarrow> ret (f hs))" for r :: "unit + reservation_row list option" and x y f
    by (cases r; cases "projr r") (simp_all only: sum.case option.case sum.sel draws_basic)
  show ?thesis
    unfolding acc grant_kit_def Let_def split_conv kit_children_def [symmetric]
    by (rule draws_add_zero(3), intro draws_none draws_under_lock, rule draws_add_zero(3) [OF draws_basic(4)], rule draws_if, rule draws_up, rule draws_basic,
        rule draws_add_zero(1) [OF tried], rule answer)
qed

lemma draws_each:
  assumes "\<And>p acc. draws (n p) (f p acc)"
  shows "draws (sum_list (map n ps)) (grant_each f ps acc)"
proof (induction ps arbitrary: acc)
  case Nil
  show ?case by (simp only: list.map sum_list.Nil grant_each.simps draws_basic)
next
  case (Cons p ps)
  have one: "draws (n p) (attempt (bind (f p acc) (\<lambda>acc'. ret (Inr acc'))) (\<lambda>e. ret (Inl e)))"
    by (intro draws_add_zero(1,2) assms draws_basic)
  have rest: "draws (sum_list (map n ps)) (case r of Inl e \<Rightarrow> ret (acc, Some e) | Inr acc' \<Rightarrow> grant_each f ps acc')" for r :: "failure + grants"
    by (cases r) (simp_all only: sum.case Cons draws_up [OF draws_basic(1)])
  show ?case unfolding grant_each.simps list.map sum_list.Cons by (rule draws_bind [OF one rest])
qed

lemma draws_grants: "draws (4 * length (leaf_lines plan)) (grantPhase newId plan)"
proof -
  let ?ord = "ph_order plan"
  have plain: "draws (4 * length (ph_plain plan)) (grant_each (grant_plain newId ?ord) (ph_plain plan) acc)" for acc
    using draws_each [of "\<lambda>_. 4" "grant_plain newId ?ord", OF draws_plain, of "ph_plain plan" acc] by (simp add: sum_list_triv mult.commute)
  have total: "sum_list (map (\<lambda>k. 4 * length (kt_children k)) ks) = 4 * length (concat (map (map fst \<circ> kt_children) ks))" for ks
    by (induction ks) simp_all
  have kits: "draws (4 * length (concat (map (map fst \<circ> kt_children) (ph_kits plan)))) (grant_each (grant_kit newId ?ord) (ph_kits plan) acc)" for acc
    unfolding total [symmetric] by (rule draws_each) (rule draws_kit)
  have last: "draws 0 (case err of None \<Rightarrow> ret x | Some e \<Rightarrow> bind (releaseUnreferencedUnderLock ?ord hs) (\<lambda>_. raise e))" for err :: "failure option" and x :: grants and hs
    by (cases err) (simp_all only: option.case, (intro draws_none draws_under_lock)+)
  have "draws (4 * length (ph_plain plan) + 4 * length (concat (map (map fst \<circ> kt_children) (ph_kits plan)))) (grantPhase newId plan)"
    unfolding grantPhase_def Let_def split_beta
    by (rule draws_bind [OF plain], rule draws_add_zero(1), rule draws_if, rule kits, rule draws_up, rule draws_basic, rule last)
  then show ?thesis by (simp add: leaf_lines_def)
qed

lemma draws_write_body: "draws 0 (write_body plan g actor key)"
proof -
  have writes: "draws 0 (write_grants plan locked actor key g)" for locked
    unfolding draws_def
  proof
    fix s
    obtain r s' where run: "write_grants plan locked actor key g s = (r, s')" by force
    from write_grants_run [OF run] show "si_fresh (snd (write_grants plan locked actor key g s)) \<le> si_fresh s + 0" using run by auto
  qed
  have key: "draws 0 (replay_key ord key)" for ord
    unfolding draws_def
  proof
    fix s
    obtain r s' where run: "replay_key ord key s = (r, s')" by force
    from replay_key_run [OF run] show "si_fresh (snd (replay_key ord key s)) \<le> si_fresh s + 0" using run by simp
  qed
  have refused: "draws 0 (case x of Some e \<Rightarrow> bind (release_unreferenced ord hs) (\<lambda>rs. ret (f e rs)) | None \<Rightarrow> m)" if "draws 0 m"
    for x :: "'x option" and ord hs and m :: "'y act" and f
    by (cases x) (simp_all only: option.case that, intro draws_none draws_release)
  show ?thesis
    unfolding write_body_def Let_def split_beta
    by (intro draws_zero_bind draws_basic key refused writes draws_release)
qed

lemma draws_writePhase: "draws 0 (writePhase plan g actor key)"
  unfolding writePhase_def by (intro draws_none draws_write_body draws_under_lock)

section \<open>The budget of a sweep\<close>

lemma sweep_each_budget:
  assumes "sweep_each newId t batch rs rep s = (Inr rep', s')" and "sw_allocated rep \<le> batch"
  shows "sw_allocated rep' \<le> batch \<and> sw_scanned rep' \<le> sw_scanned rep + length rs \<and> sw_allocated rep' + sw_scanned rep \<le> sw_allocated rep + sw_scanned rep'"
  using assms
proof (induction rs arbitrary: rep s)
  case (Cons r rs)
  show ?case
  proof (cases "batch \<le> sw_allocated rep")
    case True
    with Cons.prems show ?thesis by simp
  next
    case False
    then obtain x s1 where rest: "sweep_each newId t batch rs (count_outcome x (rep\<lparr>sw_scanned := sw_scanned rep + 1\<rparr>)) s1 = (Inr rep', s')"
      using Cons.prems(1) by (auto simp: bind_Inr)
    let ?rep = "count_outcome x (rep\<lparr>sw_scanned := sw_scanned rep + 1\<rparr>)"
    have counted: "sw_allocated rep \<le> sw_allocated ?rep" "sw_allocated ?rep \<le> sw_allocated rep + 1" "sw_scanned ?rep = sw_scanned rep + 1"
      by (auto simp: count_outcome_def split: option.split outcome.split)
    then have "sw_allocated ?rep \<le> batch" using False by simp
    from Cons.IH [OF rest this] counted show ?thesis by simp
  qed
qed simp

end
