(* ===== verification/AllocationProperties.thy ===== *)
theory AllocationProperties
  imports AllocationBounds
begin

text \<open>
  The properties of the allocation, and runs of it evaluated.
\<close>

section \<open>What an allocation leaves\<close>

text \<open>
  C14. An allocation keeps the books of the reservations: after the verb, the core or a sweep of the tick, whichever calls to
  the store fail and whichever transactions abort, the journal is well formed and has only evolved, and no
  reserved counter is below the units it holds. The ids drawn during the run are distinct, new and well formed.
\<close>

theorem allocation_keeps_the_books:
  assumes "good (iv_world s)" and "uuid_rows (journal (iv_world s))" and "distinct (map ol_id (ob_lines (si_db s)))"
    and "new_ids newId (si_fresh s) (si_fresh s')" and "unused newId (si_fresh s) (si_fresh s') (journal (iv_world s))"
    and "s' = snd (allocateOrder hash newId t actor i key s) \<or> s' = snd (allocateOrderCore newId t i s) \<or> s' = snd (sweepBackorders newId cap batch st t s)"
  shows "good (iv_world s') \<and> evolves (journal (iv_world s)) (journal (iv_world s'))"
proof -
  have ok: "site_ok newId (si_fresh s') s" using assms by (simp add: site_ok_def)
  have "kept_from newId (si_fresh s') s s'"
    using assms(6) verb_kept [OF ok] core_kept [OF ok] sweep_kept [OF ok] by (metis prod.collapse)
  then show ?thesis by (simp add: kept_from_def site_ok_def)
qed

text \<open>
  C15. No grant is left behind: when every transaction commits, whatever the store does, each hold that is in the journal and held
  at the end of an allocation and was not there at its start is the reservation of a line of the order, so that
  a run that fails half way, or whose lines cannot be written, leaves nothing reserved.
\<close>

theorem no_grant_left_behind:
  assumes "good (iv_world s)" and "uuid_rows (journal (iv_world s))" and "distinct (map ol_id (ob_lines (si_db s)))"
    and "new_ids newId (si_fresh s) (si_fresh s')" and "unused newId (si_fresh s) (si_fresh s') (journal (iv_world s))"
    and "wd_txs (si_world s) = []" and "\<forall>l \<in> set (ob_lines (si_db s)). \<forall>x. ol_reservation l = Some x \<longrightarrow> x \<in> rv_id ` set (journal (iv_world s))"
    and "s' = snd (allocateOrder hash newId t actor i key s) \<or> s' = snd (allocateOrderCore newId t i s)"
    and "q \<in> set (journal (iv_world s'))" and "rv_state q = Held" and "rv_id q \<notin> rv_id ` set (journal (iv_world s))"
  shows "\<exists>l \<in> set (ob_lines (si_db s')). ol_tenant l = t \<and> ol_order l = i \<and> ol_reservation l = Some (rv_id q)"
proof -
  let ?rn = "run_of newId (si_fresh s') t True s"
  have ok: "site_ok newId (si_fresh s') s" using assms(1-5) by (simp add: site_ok_def)
  have "run_end ?rn i (si_db s) s'"
    using assms(8) verb_end [where b = True, OF ok assms(6)] core_end [where b = True, OF ok assms(6)] by (metis prod.collapse)
  then obtain A S where at: "site_at ?rn (outside ?rn s') none A S s'"
    and A: "\<And>x. x \<in> A \<Longrightarrow> \<exists>ord. readOrder (si_db s) t i = Some ord \<and> x \<in> refs_of ord (si_db s) \<union> refs_of ord (si_db s')"
    unfolding run_end_def run_of_simps by blast
  have "own_held ?rn (journal (iv_world s')) \<subseteq> A" using at by (simp add: site_at_def world_at_def)
  moreover have "rv_id q \<in> own_held ?rn (journal (iv_world s'))" using assms(9-11) by (auto simp: own_held_def journal_def)
  ultimately obtain ord where ord: "readOrder (si_db s) t i = Some ord" "rv_id q \<in> refs_of ord (si_db s) \<union> refs_of ord (si_db s')" using A by blast
  have "rv_id q \<notin> refs_of ord (si_db s)" using assms(7,11) by (auto simp: refs_of_def lines_of_order_def)
  then show ?thesis using ord readOrder_facts [OF ord(1)] by (auto simp: refs_of_def lines_of_order_def)
qed

text \<open>
  C16. What the allocation answers is so: each line it reports as allocated is a line of the order that names a hold of
  the journal, of that line and of exactly the quantity reserved on it, which is held and has not lapsed, and
  the units it reports are the sum of those quantities.
\<close>

theorem allocated_lines_hold_their_units:
  assumes "good (iv_world s)" and "uuid_rows (journal (iv_world s))" and "distinct (map ol_id (ob_lines (si_db s)))"
    and "new_ids newId (si_fresh s) (si_fresh s')" and "unused newId (si_fresh s) (si_fresh s') (journal (iv_world s))"
    and run: "allocateOrderCore newId t i s = (Inr (Allocated result units), s')"
  shows "units = sum_list (map (\<lambda>(l, n, q). q) (al_allocated result)) \<and> (\<forall>(l, n, q) \<in> set (al_allocated result).
     \<exists>line \<in> set (ob_lines (si_db s')). ol_tenant line = t \<and> ol_order line = i \<and> ol_id line = l \<and> ol_reserved line = q \<and>
     (\<exists>r \<in> set (journal (iv_world s')). ol_reservation line = Some (rv_id r) \<and> rv_owner r = l \<and> rv_qty r = q \<and> rv_state r = Held \<and>
        \<not> lapsed (wd_now (si_world s')) r))"
proof -
  let ?rn = "run_of newId (si_fresh s') t False s" and ?S = "order_rows t (journal (iv_world s))"
  have ok: "site_ok newId (si_fresh s') s" using assms(1-5) by (simp add: site_ok_def)
  obtain first s1 where tx: "withTenantTransaction (read (plan_for_core t i)) s = (Inr first, s1)"
    and rest: "(case first of Inl reason \<Rightarrow> ret (NotEligible reason)
     | Inr plan \<Rightarrow>
         bind (grantPhase newId plan) (\<lambda>grants.
         bind (writePhase plan grants SYSTEM_ACTOR_ID None) (\<lambda>w.
         bind (applyRestores t (restores_of w)) (\<lambda>_.
         ret (case w of
           Written result units _ \<Rightarrow> Allocated result units
         | Replayed _ _ \<Rightarrow> NotEligible ''replayed''
         | Refused e _ \<Rightarrow> NotEligible (codeOf e)))))) s1 = (Inr (Allocated result units), s')"
    using run unfolding allocateOrderCore_def bind_Inr by blast
  have "read (plan_for_core t i) s = (Inr (plan_for_core t i s), s)" by simp
  from tx_pure_run [OF this tx] obtain fs where fs: "set fs \<subseteq> set (wd_txs (si_world s))" "s1 = s\<lparr>si_world := (si_world s)\<lparr>wd_txs := fs\<rparr>\<rparr>"
    "first = plan_for_core t i s" by auto
  obtain p where p: "first = Inr p" using rest by (cases first) auto
  then obtain ord where ord: "readOrder (si_db s) t i = Some ord" "p = planInTx ord s"
    using fs(3) by (auto simp: plan_for_core_def split: option.splits)
  have tenant: "rn_tenant ?rn = or_tenant ord" "t = or_tenant ord" "i = or_id ord" using readOrder_facts [OF ord(1)] by simp_all
  have po: "plan_ok ?rn ?S p" "ph_order p = ord" using planInTx_ok [OF assms(3) tenant(1)] ord(2) tenant(2) by simp_all
  have "site_at ?rn (si_db s) none {} ?S s" by (rule site_at_start [OF ok]) simp
  from site_at_txs [OF this fs(1)] have "live_at ?rn (si_db s) none {} ?S s1" unfolding fs(2) live_at_def by (rule impI)
  then have at: "live_at ?rn (si_db s) none (refs_of (ph_order p) (si_db s)) ?S s1" by (rule live_at_mono) simp_all
  have run2: "bind (grantPhase (rn_id ?rn) p) (\<lambda>grants. bind (writePhase p grants SYSTEM_ACTOR_ID None) (\<lambda>w. bind (applyRestores t (restores_of w)) (\<lambda>_.
      ret (case w of Written result units _ \<Rightarrow> Allocated result units | Replayed _ _ \<Rightarrow> NotEligible ''replayed'' | Refused e _ \<Rightarrow> NotEligible (codeOf e))))) s1 =
      (Inr (Allocated result units), s')"
    using rest unfolding p sum.case run_of_simps .
  have lines: "distinct (map ol_id (leaf_lines p))" "set (leaf_lines p) \<subseteq> set (lines_of_order (si_db s) (ph_order p))"
    unfolding po(2) unfolding ord(2) by (rule planInTx_lines [OF assms(3)])+
  have "\<exists>w. ret (case w of Written result units _ \<Rightarrow> Allocated result units | Replayed _ _ \<Rightarrow> NotEligible ''replayed'' | Refused e _ \<Rightarrow> NotEligible (codeOf e)) s' =
      (Inr (Allocated result units), s') \<and> (\<forall>result units rs. w = Written result units rs \<longrightarrow>
       units = sum_list (map (snd \<circ> snd) (al_allocated result)) \<and> (\<forall>x \<in> set (al_allocated result). on_line t (or_id (ph_order p)) s' x))"
  proof (rule body_lines [OF at run_of_ok [OF ok] po(1) _ lines assms(3) _ run2])
    show "t = or_tenant (ph_order p)" unfolding po(2) by (rule tenant(2))
  qed simp_all
  then obtain w where w: "(case w of Written result units _ \<Rightarrow> Allocated result units | Replayed _ _ \<Rightarrow> NotEligible ''replayed'' | Refused e _ \<Rightarrow> NotEligible (codeOf e)) =
      Allocated result units"
    and out: "\<And>result units rs. w = Written result units rs \<Longrightarrow>
       units = sum_list (map (snd \<circ> snd) (al_allocated result)) \<and> (\<forall>x \<in> set (al_allocated result). on_line t (or_id (ph_order p)) s' x)" by auto
  obtain rs where "w = Written result units rs" using w by (cases w) auto
  from out [OF this] have "units = sum_list (map (snd \<circ> snd) (al_allocated result))" "\<forall>x \<in> set (al_allocated result). on_line t i s' x"
    unfolding po(2) tenant(3) by blast+
  moreover have "(\<lambda>(l :: uuid, n :: int, q :: int). q) = snd \<circ> snd" by (auto simp: fun_eq_iff)
  ultimately show ?thesis unfolding on_line_def by (simp add: split_beta)
qed

text \<open>
  C17. A grant phase gives a kit whole or not at all: after the plain lines come, kit by kit, either nothing or one hold for
  each of its components, each of at least the component's quantity, and of exactly that quantity when it is
  fresh. A line of an inactive SKU that is granted afresh is granted in full, and no fresh hold, of a plain line
  or of a component, is larger than its line asks for.
\<close>

theorem kits_are_granted_whole:
  assumes "good (iv_world s)" and "uuid_rows (journal (iv_world s))" and "distinct (map ol_id (ob_lines (si_db s)))"
    and "readOrder (si_db s) t i = Some ord" and run: "grantPhase newId (planInTx ord s) s = (Inr (granted, skipped), s')"
  shows "\<exists>plain blocks. granted = plain @ concat blocks \<and>
     list_all2 (\<lambda>k b. b = [] \<or> map gh_line b = map fst (kt_children k) \<and> (\<forall>x \<in> set b. ol_qty (gh_line x) \<le> rv_qty (gh_hold x) \<and>
          (\<not> gh_adopted x \<longrightarrow> rv_qty (gh_hold x) = ol_qty (gh_line x))))
       (ph_kits (planInTx ord s)) blocks \<and>
     (\<forall>x \<in> set plain. \<exists>e \<in> set (ph_plain (planInTx ord s)). gh_line x = pn_line e \<and>
        (\<not> gh_adopted x \<longrightarrow> rv_qty (gh_hold x) \<le> ol_qty (gh_line x) \<and> (pn_whole e \<longrightarrow> rv_qty (gh_hold x) = ol_qty (gh_line x))))"
proof -
  let ?rn = "run_of newId (si_fresh s) t False s" and ?S = "order_rows t (journal (iv_world s))" and ?p = "planInTx ord s"
  have ok: "site_ok newId (si_fresh s) s" using assms(1-3) by (auto simp: site_ok_def new_ids_def unused_def)
  have tenant: "rn_tenant ?rn = or_tenant ord" "t = or_tenant ord" using readOrder_facts [OF assms(4)] by simp_all
  have po: "plan_ok ?rn ?S ?p" "ph_order ?p = ord" using planInTx_ok [OF assms(3) tenant(1)] tenant(2) by simp_all
  have "site_at ?rn (si_db s) none {} ?S s" by (rule site_at_start [OF ok]) simp
  then have "live_at ?rn (si_db s) none {} ?S s" unfolding live_at_def by blast
  then have at: "live_at ?rn (si_db s) none (refs_of (ph_order ?p) (si_db s)) ?S s" by (rule live_at_mono) simp_all
  have "grantPhase (rn_id ?rn) ?p s = (Inr (granted, skipped), s')" using run by simp
  from hoareD(1) [OF hoare_grantPhase [OF run_of_ok [OF ok] po(1), where db = "si_db s"] at this] have "granted_blocks ?p granted" by simp
  then obtain ps bs where g: "granted = concat ps @ concat bs" "list_all2 (plain_block ord) (ph_plain ?p) ps" "list_all2 kit_block (ph_kits ?p) bs"
    unfolding granted_blocks_def po(2) by blast
  have plain: "\<exists>e \<in> set (ph_plain ?p). gh_line x = pn_line e \<and>
        (\<not> gh_adopted x \<longrightarrow> rv_qty (gh_hold x) \<le> ol_qty (gh_line x) \<and> (pn_whole e \<longrightarrow> rv_qty (gh_hold x) = ol_qty (gh_line x)))"
    if x: "x \<in> set (concat ps)" for x
  proof -
    obtain b where "b \<in> set ps" "x \<in> set b" using x by auto
    then obtain e where "e \<in> set (ph_plain ?p)" "plain_block ord e b" using g(2) by (metis in_set_conv_nth list_all2_conv_all_nth)
    with \<open>x \<in> set b\<close> show ?thesis by (auto simp: plain_block_def line_hold_def)
  qed
  show ?thesis
    using g(1) g(3) plain unfolding kit_block_def by blast
qed

section \<open>How long it takes\<close>

text \<open>
  C25. An allocation ends: whatever the store answers, a run draws at most four ids for each line of its order, one per grant it
  attempts, so every probe that loses its race is retried a bounded number of times; and a sweep of a tick scans
  no more orders than its window holds and stops as soon as its batch is allocated.
\<close>

theorem allocation_ends:
  assumes "distinct (map ol_id (ob_lines (si_db s)))" and "readOrder (si_db s) t i = Some ord"
  shows "si_fresh (snd (allocateOrderCore newId t i s)) \<le> si_fresh s + MAX_GRANT_ATTEMPTS * length (lines_of_order (si_db s) ord) \<and>
    (\<forall>rep s'. sweepBackorders newId cap batch st t s = (Inr rep, s') \<longrightarrow>
       sw_scanned rep \<le> cap \<and> sw_allocated rep \<le> batch \<and> sw_allocated rep \<le> sw_scanned rep)"
proof
  obtain r1 s1 where tx: "withTenantTransaction (read (plan_for_core t i)) s = (r1, s1)" by force
  have pure: "read (plan_for_core t i) s = (Inr (plan_for_core t i s), s)" by simp
  from tx_pure_run [OF pure tx] have s1: "si_fresh s1 = si_fresh s" and r1: "\<And>v. r1 = Inr v \<Longrightarrow> v = plan_for_core t i s" by auto
  show "si_fresh (snd (allocateOrderCore newId t i s)) \<le> si_fresh s + MAX_GRANT_ATTEMPTS * length (lines_of_order (si_db s) ord)"
  proof (cases "r1 = Inr (Inr (planInTx ord s))")
    case True
    let ?p = "planInTx ord s"
    let ?rest = "bind (grantPhase newId ?p) (\<lambda>grants. bind (writePhase ?p grants SYSTEM_ACTOR_ID None) (\<lambda>w. bind (applyRestores t (restores_of w)) (\<lambda>_.
         ret (case w of Written result units _ \<Rightarrow> Allocated result units | Replayed _ _ \<Rightarrow> NotEligible ''replayed'' | Refused e _ \<Rightarrow> NotEligible (codeOf e)))))"
    have "draws (4 * length (leaf_lines ?p)) ?rest"
      by (rule draws_add_zero(1) [OF draws_grants]) (intro draws_none draws_writePhase draws_restores)
    from this [unfolded draws_def, rule_format, of s1] have "si_fresh (snd (?rest s1)) \<le> si_fresh s + 4 * length (leaf_lines ?p)" by (simp only: s1)
    moreover have "allocateOrderCore newId t i s = ?rest s1" using tx True by (simp add: allocateOrderCore_def bind_def)
    moreover have "length (leaf_lines ?p) \<le> length (lines_of_order (si_db s) ord)"
    proof -
      note pl = planInTx_lines [OF assms(1), of ord]
      have "length (leaf_lines ?p) = card (set (leaf_lines ?p))" using pl(1) by (simp add: distinct_map distinct_card)
      also have "\<dots> \<le> card (set (lines_of_order (si_db s) ord))" using pl(2) by (rule card_mono [OF finite_set])
      also have "\<dots> \<le> length (lines_of_order (si_db s) ord)" by (rule card_length)
      finally show ?thesis .
    qed
    ultimately show ?thesis by (simp add: MAX_GRANT_ATTEMPTS_def)
  next
    case False
    have "si_fresh (snd (allocateOrderCore newId t i s)) = si_fresh s"
    proof (cases r1)
      case (Inl e)
      then show ?thesis using tx s1 by (simp add: allocateOrderCore_def bind_def)
    next
      case (Inr v)
      then obtain x where "v = Inl x" using False r1 assms(2) by (auto simp: plan_for_core_def split: option.splits)
      then show ?thesis using tx s1 Inr by (simp add: allocateOrderCore_def bind_def)
    qed
    then show ?thesis by simp
  qed
next
  show "\<forall>rep s'. sweepBackorders newId cap batch st t s = (Inr rep, s') \<longrightarrow>
       sw_scanned rep \<le> cap \<and> sw_allocated rep \<le> batch \<and> sw_allocated rep \<le> sw_scanned rep"
  proof (intro allI impI)
    fix rep s'
    assume "sweepBackorders newId cap batch st t s = (Inr rep, s')"
    then obtain cs sa sb sc where cs: "withTenantTransaction (read (candidatesInTx st t cap (window_start t s))) s = (Inr cs, sa)"
      and run: "sweep_each newId t batch cs \<lparr>sw_scanned = 0, sw_allocated = 0, sw_units = 0, sw_short = 0\<rparr> sb = (Inr rep, sc)"
      by (auto simp: sweepBackorders_def bind_Inr set_window_def)
    have "read (candidatesInTx st t cap (window_start t s)) s = (Inr (candidatesInTx st t cap (window_start t s) s), s)" by simp
    from tx_pure_run [OF this cs] have "cs = candidatesInTx st t cap (window_start t s) s" by auto
    then have "length cs \<le> cap" by (simp add: candidatesInTx_def Let_def)
    with sweep_each_budget [OF run] show "sw_scanned rep \<le> cap \<and> sw_allocated rep \<le> batch \<and> sw_allocated rep \<le> sw_scanned rep" by simp
  qed
qed

text \<open>
  C27. Every waiting order gets its turn: while the tenant's candidates stay the same and the ticks allocate none of them, the
  window of the sweep moves on by what it scanned, so the \<open>i\<close>th candidate is in the window of one of the first
  \<open>i div cap + 1\<close> ticks.
\<close>

theorem every_candidate_gets_its_turn:
  assumes "0 < cap" and "0 < batch" and "i < length cs" and start: "window_start t (f 0) = 0"
    and same: "\<And>j. j \<le> i div cap \<Longrightarrow>
      sort_key (orderUrgencyOrderBy (ist_date (wd_now (si_world (f j))))) (filter (backorder_candidate (st j) (wd_now (si_world (f j))) t (si_db (f j))) (ob_orders (si_db (f j)))) = cs"
    and tick: "\<And>j. j < i div cap \<Longrightarrow> \<exists>rep s'. sweepBackorders newId cap batch (st j) t (f j) = (Inr rep, s') \<and> sw_allocated rep = 0 \<and>
      si_offsets (f (Suc j)) t = si_offsets s' t"
  shows "\<exists>j \<le> i div cap. cs ! i \<in> set (candidatesInTx (st j) t cap (window_start t (f j)) (f j))"
proof -
  have window: "candidatesInTx (st j) t cap k (f j) = take cap (drop k cs)" if "j \<le> i div cap" for j k
    using same [OF that] by (simp add: candidatesInTx_def Let_def)
  have moves: "window_start t (f j) = j * cap" if "j \<le> i div cap" for j
    using that
  proof (induction j)
    case 0
    show ?case using start by simp
  next
    case (Suc j)
    then have j: "j < i div cap" and at: "window_start t (f j) = j * cap" by simp_all
    obtain rep s' where run: "sweepBackorders newId cap batch (st j) t (f j) = (Inr rep, s')" and zero: "sw_allocated rep = 0"
      and off: "si_offsets (f (Suc j)) t = si_offsets s' t" using tick [OF j] by blast
    obtain xs sa where xs: "withTenantTransaction (read (candidatesInTx (st j) t cap (window_start t (f j)))) (f j) = (Inr xs, sa)"
      and s': "si_offsets s' t = Some (next_start cap batch (window_start t (f j)) (length xs) (sw_allocated rep))"
      using run by (auto simp: sweepBackorders_def bind_Inr set_window_def)
    have "read (candidatesInTx (st j) t cap (window_start t (f j))) (f j) = (Inr (candidatesInTx (st j) t cap (window_start t (f j)) (f j)), f j)" by simp
    from tx_pure_run [OF this xs] have xs_eq: "xs = take cap (drop (j * cap) cs)" using window [of j] j at by auto
    have "Suc j * cap \<le> i" using Suc.prems by (metis div_times_less_eq_dividend mult_le_mono1 order_trans)
    then have "length xs = cap" using assms(3) unfolding xs_eq by simp
    then have "next_start cap batch (window_start t (f j)) (length xs) (sw_allocated rep) = Suc j * cap"
      using assms(2) zero at by (simp add: next_start_def)
    with s' off show ?case by (simp add: window_start_def)
  qed
  let ?j = "i div cap"
  obtain d m where dm: "d = ?j * cap" "i = d + m" "m < cap"
    using assms(1) by (metis div_mult_mod_eq mod_less_divisor)
  then have "take cap (drop d cs) ! m = cs ! i" "m < length (take cap (drop d cs))" using assms(3) by simp_all
  then have "cs ! i \<in> set (candidatesInTx (st ?j) t cap (window_start t (f ?j)) (f ?j))"
    unfolding window [OF order_refl] moves [OF order_refl] dm(1) [symmetric] by (metis nth_mem)
  then show ?thesis by blast
qed

section \<open>Runs evaluated\<close>

text \<open>
  One order over the stock of the reservation service's sample run, 10 units of one SKU: a line of 4 units, a kit of
  two components, a SKU without stock, and an orphaned hold of an inactive SKU.
\<close>

definition backorder_ids :: "nat \<Rightarrow> uuid" where
  "backorder_ids n = sample_uuid (if n = 0 then CHR ''4'' else CHR ''5'')"

definition backorder_line :: "string \<Rightarrow> char \<Rightarrow> int \<Rightarrow> uuid option \<Rightarrow> order_line" where
  "backorder_line i sku n p = \<lparr>ol_id = i, ol_tenant = sample_uuid CHR ''1'', ol_order = ''o'', ol_sku = sample_uuid sku, ol_reserved = 0,
     ol_reservation = None, ol_created = 0, ol_qty = n, ol_parent = p\<rparr>"

definition backorder :: "string \<Rightarrow> order_row" where
  "backorder i = \<lparr>or_id = i, or_tenant = sample_uuid CHR ''1'', or_wh = sample_uuid CHR ''2'', or_client = ''c'', or_status = ''accepted'',
     or_priority = ''normal'', or_ship = None, or_created = 0, or_gstin = None\<rparr>"

definition backorder_db :: "inventory_db \<Rightarrow> order_row list \<Rightarrow> order_line list \<Rightarrow> outbound_db" where
  "backorder_db iv os ls = \<lparr>ob_iv = iv, ob_bins = [], ob_intakes = [], ob_skus = [], ob_users = [], ob_warehouses = [],
     ob_orders = os, ob_lines = ls, ob_partners = [], ob_links = [], ob_policies = [], ob_waves = [], ob_lists = [], ob_picks = [],
     ob_keys = [], ob_outbox = [], ob_audit = [], ob_devices = [], ob_serials = [], ob_recalls = [], ob_recall_lines = [], ob_drawn = []\<rparr>"

definition backorder_goods :: "string \<Rightarrow> goods_db" where
  "backorder_goods st = \<lparr>gs_goods = [\<lparr>gd_tenant = sample_uuid CHR ''1'', gd_sku = sample_uuid CHR ''3'', gd_code = ''S'', gd_status = st, gd_food = None,
       gd_schedules = []\<rparr>], gs_owners = [], gs_licences = [], gs_policies = []\<rparr>"

definition backorder_site :: "world \<Rightarrow> string \<Rightarrow> order_line list \<Rightarrow> site" where
  "backorder_site w st ls = \<lparr>si_db = backorder_db (wd_iv w) [backorder ''o''] ls, si_world = w, si_goods = backorder_goods st, si_exhausted = None,
     si_offsets = (\<lambda>_. None), si_fresh = 0\<rparr>"

lemma backorder_site_simps [simp]:
  "iv_world (backorder_site w st ls) = w" "si_fresh (backorder_site w st ls) = 0" "ob_lines (si_db (backorder_site w st ls)) = ls"
  "si_world (backorder_site w st ls) = w"
  by (simp_all add: backorder_site_def iv_world_def backorder_db_def)

definition plain_site :: site where
  "plain_site = backorder_site sample_ready ''active'' [backorder_line ''l'' CHR ''3'' 4000 None]"

definition plain_end :: site where
  "plain_end = snd (allocateOrderCore backorder_ids (sample_uuid CHR ''1'') ''o'' plain_site)"

definition plain_result :: allocation_result where
  "plain_result = \<lparr>al_order = ''o'', al_wh = sample_uuid CHR ''2'', al_allocated = [(''l'', 4000, 4000)], al_short = [], al_skipped = []\<rparr>"

definition plain_hold :: reservation_row where
  "plain_hold = \<lparr>rv_id = sample_uuid CHR ''4'', rv_tenant = sample_uuid CHR ''1'', rv_wh = sample_uuid CHR ''2'', rv_sku = sample_uuid CHR ''3'',
     rv_owner_type = ORDER_OWNER_TYPE, rv_owner = ''l'', rv_qty = 4000, rv_state = Held, rv_expires = Some (ORDER_RESERVATION_TTL_SECONDS * 1000)\<rparr>"

lemma plain_run_facts:
  "(case allocateOrderCore backorder_ids (sample_uuid CHR ''1'') ''o'' plain_site of
      (r, s) \<Rightarrow> r = Inr (Allocated plain_result 4000) \<and> si_fresh s = 1 \<and> journal (iv_world s) = [plain_hold])"
  by code_simp

lemma plain_run: "allocateOrderCore backorder_ids (sample_uuid CHR ''1'') ''o'' plain_site = (Inr (Allocated plain_result 4000), plain_end)"
  "si_fresh plain_end = 1" "journal (iv_world plain_end) = [plain_hold]"
  using plain_run_facts by (auto simp: plain_end_def split: prod.splits)

lemma plain_start: "good (iv_world plain_site)" "uuid_rows (journal (iv_world plain_site))" "distinct (map ol_id (ob_lines (si_db plain_site)))"
  "new_ids backorder_ids (si_fresh plain_site) (si_fresh plain_end)" "unused backorder_ids (si_fresh plain_site) (si_fresh plain_end) (journal (iv_world plain_site))"
proof -
  have j: "journal sample_ready = []" by code_simp
  show "good (iv_world plain_site)" using history_good [OF sample_ready_history] by (simp add: plain_site_def)
  show "uuid_rows (journal (iv_world plain_site))" "unused backorder_ids (si_fresh plain_site) (si_fresh plain_end) (journal (iv_world plain_site))"
    by (simp_all add: plain_site_def j uuid_rows_def unused_def)
  show "distinct (map ol_id (ob_lines (si_db plain_site)))" by (simp add: plain_site_def)
  have "uuid_shape (sample_uuid CHR ''4'')" by code_simp
  then show "new_ids backorder_ids (si_fresh plain_site) (si_fresh plain_end)"
    by (simp add: plain_site_def plain_run new_ids_def backorder_ids_def)
qed

theorem allocation_keeps_the_books_witness:
  "good (iv_world plain_end) \<and> evolves (journal (iv_world plain_site)) (journal (iv_world plain_end))"
  by (rule allocation_keeps_the_books [OF plain_start]) (rule disjI2, rule disjI1, rule plain_end_def)

theorem allocated_lines_hold_their_units_witness:
  "\<exists>line \<in> set (ob_lines (si_db plain_end)). ol_order line = ''o'' \<and> ol_id line = ''l'' \<and> ol_reserved line = 4000 \<and>
     (\<exists>r \<in> set (journal (iv_world plain_end)). ol_reservation line = Some (rv_id r) \<and> rv_owner r = ''l'' \<and> rv_qty r = 4000 \<and> rv_state r = Held)"
  using allocated_lines_hold_their_units [OF plain_start plain_run(1)] by (auto simp: plain_result_def)

theorem no_grant_left_behind_witness:
  "\<exists>l \<in> set (ob_lines (si_db plain_end)). ol_tenant l = sample_uuid CHR ''1'' \<and> ol_order l = ''o'' \<and> ol_reservation l = Some (rv_id plain_hold)"
proof (rule no_grant_left_behind [OF plain_start])
  have "wd_txs sample_ready = [] \<and> journal sample_ready = []" by code_simp
  then show "wd_txs (si_world plain_site) = []" "rv_id plain_hold \<notin> rv_id ` set (journal (iv_world plain_site))" by (simp_all add: plain_site_def)
  show "\<forall>l \<in> set (ob_lines (si_db plain_site)). \<forall>x. ol_reservation l = Some x \<longrightarrow> x \<in> rv_id ` set (journal (iv_world plain_site))"
    by (simp add: plain_site_def backorder_line_def)
  show "plain_end = snd (allocateOrder (\<lambda>_. ''h'') backorder_ids (sample_uuid CHR ''1'') ''u'' ''o'' ''k'' plain_site) \<or>
      plain_end = snd (allocateOrderCore backorder_ids (sample_uuid CHR ''1'') ''o'' plain_site)" by (rule disjI2, rule plain_end_def)
  show "plain_hold \<in> set (journal (iv_world plain_end))" "rv_state plain_hold = Held" by (simp_all add: plain_run plain_hold_def)
qed

text \<open>A kit of 4 and 3 units of the same SKU.\<close>

definition kit_site :: site where
  "kit_site = backorder_site sample_ready ''active'' [backorder_line ''k'' CHR ''7'' 1000 None, backorder_line ''a'' CHR ''3'' 4000 (Some ''k''),
     backorder_line ''b'' CHR ''3'' 3000 (Some ''k'')]"

definition kit_run :: "grants result \<times> site" where
  "kit_run = grantPhase backorder_ids (planInTx (backorder ''o'') kit_site) kit_site"

lemma kit_run_facts: "case kit_run of (Inr (g, sk), s) \<Rightarrow> map (\<lambda>x. (ol_id (gh_line x), rv_qty (gh_hold x))) g = [(''a'', 4000), (''b'', 3000)] | (Inl e, s) \<Rightarrow> False"
  by code_simp

theorem kits_are_granted_whole_witness:
  "\<exists>plain blocks. fst (projr (fst kit_run)) = plain @ concat blocks \<and>
     list_all2 (\<lambda>k b. b = [] \<or> map gh_line b = map fst (kt_children k) \<and> list_all (\<lambda>x. ol_qty (gh_line x) \<le> rv_qty (gh_hold x) \<and> (gh_adopted x \<or> rv_qty (gh_hold x) = ol_qty (gh_line x))) b)
       (ph_kits (planInTx (backorder ''o'') kit_site)) blocks"
proof -
  have "journal sample_ready = []" by code_simp
  then have uuids: "uuid_rows (journal (iv_world kit_site))" by (simp add: kit_site_def uuid_rows_def)
  have good: "good (iv_world kit_site)" using history_good [OF sample_ready_history] by (simp add: kit_site_def)
  have lines: "distinct (map ol_id (ob_lines (si_db kit_site)))" by (simp add: kit_site_def backorder_line_def)
  have order: "readOrder (si_db kit_site) (sample_uuid CHR ''1'') ''o'' = Some (backorder ''o'')"
    by (simp add: kit_site_def readOrder_def backorder_site_def backorder_db_def backorder_def)
  have run: "grantPhase backorder_ids (planInTx (backorder ''o'') kit_site) kit_site = (Inr (fst (projr (fst kit_run)), snd (projr (fst kit_run))), snd kit_run)"
    using kit_run_facts unfolding kit_run_def by (auto split: prod.splits sum.splits)
  show ?thesis using kits_are_granted_whole [OF good uuids lines order run] unfolding list_all_iff disj_imp by blast
qed

section \<open>The orphan of an inactive SKU\<close>

lemma orphan_plan:
  assumes "readOrder (si_db s) t i = Some ord" and "lines_of_order (si_db s) ord = [l]" and "ol_parent l = None"
    and "ownedReservationsInTx t (or_wh ord) ORDER_OWNER_TYPE [ol_id l] Held (iv_world s) = [h]"
    and "ownedReservationsInTx t (or_wh ord) ORDER_OWNER_TYPE [ol_id l] Committed (iv_world s) = []"
    and "ol_reservation l \<noteq> Some (rv_id h)" and "\<not> lapsed (wd_now (si_world s)) h"
    and "not_active (goods_rows (si_goods s) t [ol_sku l]) (ol_sku l)"
    and "licencesCoverInTx (si_goods s) (wd_now (si_world s)) ord (goods_rows (si_goods s) t [ol_sku l])"
  shows "planInTx ord s = \<lparr>ph_order = ord, ph_plain = [\<lparr>pn_line = l, pn_adopt = Some h, pn_whole = True\<rparr>], ph_kits = [], ph_skipped = []\<rparr>"
proof -
  have t: "or_tenant ord = t" using assms(1) by (auto simp: readOrder_def find_Some_iff)
  have own: "rv_owner h = ol_id l" using owned_facts(5) [of h t "or_wh ord" ORDER_OWNER_TYPE "[ol_id l]" Held "iv_world s"] assms(4) by simp
  have parents: "List.map_filter ol_parent [l] = []" by (simp add: List.map_filter_simps assms(3))
  have fate: "fateOf (js_map [(rv_owner h, h)]) [] (wd_now (si_world s)) l = Adopt h"
    using assms(6,7) own by (auto simp: fateOf_def js_map_def)
  show ?thesis
    using assms(2,3,8,9) fate
    by (simp add: planInTx_def t Let_def parents assms(4,5) plain_plans_def kit_plans_def children_of_def adopted_by_def)
qed

lemma filter_own_id:
  assumes "distinct (map rv_id rows)" and "h \<in> set rows" and "P h"
  shows "filter (\<lambda>r. P r \<and> rv_id r = rv_id h) rows = [h]"
  using assms(1,2)
proof (induction rows)
  case Nil
  then show ?case by simp
next
  case (Cons r rows)
  show ?case
  proof (cases "r = h")
    case True
    then have "filter (\<lambda>r. P r \<and> rv_id r = rv_id h) rows = []"
      using Cons.prems(1) by (auto simp: filter_empty_conv image_iff)
    then show ?thesis using True assms(3) by simp
  next
    case False
    then show ?thesis using Cons by (auto simp: image_iff)
  qed
qed

lemma orphan_taken:
  assumes "wd_txs (si_world s) = []" and "distinct (map rv_id (journal (iv_world s)))"
    and "readOrder (si_db s) t i = Some ord" and "eligibilityRefusal (si_db s) ord = None"
    and "lines_of_order (si_db s) ord = [l]" and "ol_parent l = None"
    and "ownedReservationsInTx t (or_wh ord) ORDER_OWNER_TYPE [ol_id l] Held (iv_world s) = [h]"
    and "ownedReservationsInTx t (or_wh ord) ORDER_OWNER_TYPE [ol_id l] Committed (iv_world s) = []"
    and "ol_reservation l \<noteq> Some (rv_id h)" and "\<not> lapsed (wd_now (si_world s)) h" and "rv_qty h < ol_qty l"
    and "not_active (goods_rows (si_goods s) t [ol_sku l]) (ol_sku l)"
    and "licencesCoverInTx (si_goods s) (wd_now (si_world s)) ord (goods_rows (si_goods s) t [ol_sku l])"
  shows "grantPhase newId (planInTx ord s) s = (Inr ([], [(ol_id l, ''sku-inactive'')]), s)"
    and "fst (allocateOrderCore newId t i s) = Inr (Allocated \<lparr>al_order = i, al_wh = or_wh ord,
       al_allocated = [(ol_id l, ol_qty l, rv_qty h)], al_short = [(ol_id l, ol_qty l - rv_qty h)], al_skipped = []\<rparr> (rv_qty h))"
proof -
  let ?p = "\<lparr>ph_order = ord, ph_plain = [\<lparr>pn_line = l, pn_adopt = Some h, pn_whole = True\<rparr>], ph_kits = [], ph_skipped = []\<rparr>"
  have plan: "planInTx ord s = ?p" by (rule orphan_plan [OF assms(3,5-10,12,13)])
  have t: "or_tenant ord = t" "or_id ord = i" using assms(3) by (auto simp: readOrder_def find_Some_iff)
  have "h \<in> set (ownedReservationsInTx t (or_wh ord) ORDER_OWNER_TYPE [ol_id l] Held (iv_world s))" using assms(7) by simp
  note own = owned_facts [OF this]
  show g: "grantPhase newId (planInTx ord s) s = (Inr ([], [(ol_id l, ''sku-inactive'')]), s)"
    unfolding plan using assms(11) by (simp add: grantPhase_def grant_plain_def bind_def attempt_def ret_def)
  have late: "adopted_late ?p [] s = [\<lparr>gh_line = l, gh_hold = h, gh_adopted = True\<rparr>]"
    using assms(9) own(5) by (simp add: adopted_late_def t assms(7) js_map_def List.map_filter_simps)
  have "reservationsByIdsInTx t [rv_id h] (iv_world s) = [h]"
  proof -
    have "filter (\<lambda>r. rv_tenant r = t \<and> rv_id r \<in> set [rv_id h]) (journal (iv_world s)) = [h]"
      using filter_own_id [OF assms(2) own(1), of "\<lambda>r. rv_tenant r = t"] own(2) by simp
    then show ?thesis by (simp add: reservationsByIdsInTx_def)
  qed
  then have usable: "usable_hold ord [\<lparr>gh_line = l, gh_hold = h, gh_adopted = True\<rparr>] s \<lparr>gh_line = l, gh_hold = h, gh_adopted = True\<rparr>"
    using own(6) assms(10) by (simp add: usable_hold_def t js_map_def)
  have judged: "judged_grants ?p ord ([], [(ol_id l, ''sku-inactive'')]) s = ([\<lparr>gh_line = l, gh_hold = h, gh_adopted = True\<rparr>], [])"
    using late usable assms(13) by (simp add: judged_grants_def licensed_def still_usable_def t)
  let ?rows = "update_where (unchanged_line ord l) (hold_line h) (ob_lines (si_db s))"
  have l: "l \<in> set (ob_lines (si_db s))" "ol_tenant l = t" "ol_order l = i"
    using arg_cong [OF assms(5), of set] by (auto simp: lines_of_order_def t)
  then have "list_ex (unchanged_line ord l) (ob_lines (si_db s))" by (auto simp: list_ex_iff unchanged_line_def t)
  then have rows: "write_lines ord [\<lparr>gh_line = l, gh_hold = h, gh_adopted = True\<rparr>] (ob_lines (si_db s)) =
      (?rows, [\<lparr>gh_line = l, gh_hold = h, gh_adopted = True\<rparr>], [])" by simp
  show "fst (allocateOrderCore newId t i s) = Inr (Allocated \<lparr>al_order = i, al_wh = or_wh ord,
       al_allocated = [(ol_id l, ol_qty l, rv_qty h)], al_short = [(ol_id l, ol_qty l - rv_qty h)], al_skipped = []\<rparr> (rv_qty h))"
    using g assms(1,4,11) judged rows
    by (simp add: allocateOrderCore_def plan_for_core_def assms(3) plan bind_def read_def ret_def withTenantTransaction_def writePhase_def
        write_body_def write_grants_def attempt_def replay_key_def store_key_def modify_db_def release_unreferenced_def
        unreferencedInTx_def applyRestores_def restores_of_def Let_def t result_of_def still_short_def js_map_def)
qed

definition orphan :: reservation_row where
  "orphan = \<lparr>rv_id = sample_uuid CHR ''4'', rv_tenant = sample_uuid CHR ''1'', rv_wh = sample_uuid CHR ''2'', rv_sku = sample_uuid CHR ''3'',
     rv_owner_type = ORDER_OWNER_TYPE, rv_owner = ''l'', rv_qty = 1500, rv_state = Held, rv_expires = Some 1000000\<rparr>"

definition orphan_site :: site where
  "orphan_site = backorder_site (sample_world\<lparr>wd_iv := sample_stock_db\<lparr>iv_reservations := [orphan]\<rparr>\<rparr>) ''inactive''
     [backorder_line ''l'' CHR ''3'' 4000 None]"

text \<open>
  C33. The sell-down rule is lost between the phases: when the only line of an eligible order is of an inactive SKU, and an
  orphaned hold of less than the line waits for it, the grant phase skips the line as \<open>sku-inactive\<close>, because an inactive
  SKU takes a hold only for the whole line; the write phase then finds the same hold again as one that appeared late,
  and, if every transaction commits, reports the line as allocated with that part of its quantity.
\<close>

theorem inactive_sku_takes_a_partial_orphan:
  assumes "wd_txs (si_world s) = []" and "distinct (map rv_id (journal (iv_world s)))"
    and "readOrder (si_db s) t i = Some ord" and "eligibilityRefusal (si_db s) ord = None"
    and "lines_of_order (si_db s) ord = [l]" and "ol_parent l = None"
    and "ownedReservationsInTx t (or_wh ord) ORDER_OWNER_TYPE [ol_id l] Held (iv_world s) = [h]"
    and "ownedReservationsInTx t (or_wh ord) ORDER_OWNER_TYPE [ol_id l] Committed (iv_world s) = []"
    and "ol_reservation l \<noteq> Some (rv_id h)" and "\<not> lapsed (wd_now (si_world s)) h" and "rv_qty h < ol_qty l"
    and "not_active (goods_rows (si_goods s) t [ol_sku l]) (ol_sku l)"
    and "licencesCoverInTx (si_goods s) (wd_now (si_world s)) ord (goods_rows (si_goods s) t [ol_sku l])"
  shows "grantPhase newId (planInTx ord s) s = (Inr ([], [(ol_id l, ''sku-inactive'')]), s) \<and>
    fst (allocateOrderCore newId t i s) = Inr (Allocated \<lparr>al_order = i, al_wh = or_wh ord,
       al_allocated = [(ol_id l, ol_qty l, rv_qty h)], al_short = [(ol_id l, ol_qty l - rv_qty h)], al_skipped = []\<rparr> (rv_qty h))"
  using orphan_taken [OF assms] by blast

theorem inactive_sku_takes_a_partial_orphan_witness:
  "fst (grantPhase backorder_ids (planInTx (backorder ''o'') orphan_site) orphan_site) = Inr ([], [(''l'', ''sku-inactive'')]) \<and>
   fst (allocateOrderCore backorder_ids (sample_uuid CHR ''1'') ''o'' orphan_site) =
     Inr (Allocated \<lparr>al_order = ''o'', al_wh = sample_uuid CHR ''2'', al_allocated = [(''l'', 4000, 1500)], al_short = [(''l'', 2500)], al_skipped = []\<rparr> 1500)"
proof -
  let ?l = "backorder_line ''l'' CHR ''3'' 4000 None"
  have order: "readOrder (si_db orphan_site) (sample_uuid CHR ''1'') ''o'' = Some (backorder ''o'')"
    "eligibilityRefusal (si_db orphan_site) (backorder ''o'') = None"
    "lines_of_order (si_db orphan_site) (backorder ''o'') = [?l]" by code_simp+
  have txs: "wd_txs (si_world orphan_site) = []" "distinct (map rv_id (journal (iv_world orphan_site)))" by code_simp+
  have holds: "ownedReservationsInTx (sample_uuid CHR ''1'') (or_wh (backorder ''o'')) ORDER_OWNER_TYPE [ol_id ?l] Held (iv_world orphan_site) = [orphan]"
    "ownedReservationsInTx (sample_uuid CHR ''1'') (or_wh (backorder ''o'')) ORDER_OWNER_TYPE [ol_id ?l] Committed (iv_world orphan_site) = []"
    "\<not> lapsed (wd_now (si_world orphan_site)) orphan" by code_simp+
  have goods: "not_active (goods_rows (si_goods orphan_site) (sample_uuid CHR ''1'') [ol_sku ?l]) (ol_sku ?l)"
    "licencesCoverInTx (si_goods orphan_site) (wd_now (si_world orphan_site)) (backorder ''o'')
       (goods_rows (si_goods orphan_site) (sample_uuid CHR ''1'') [ol_sku ?l])" by code_simp+
  have line: "ol_parent ?l = None" "ol_reservation ?l \<noteq> Some (rv_id orphan)" "rv_qty orphan < ol_qty ?l" by code_simp+
  show ?thesis
    using inactive_sku_takes_a_partial_orphan [OF txs order line(1) holds(1,2) line(2) holds(3) line(3) goods, of backorder_ids]
    by (simp add: backorder_def backorder_line_def orphan_def)
qed

section \<open>Two orders whose lines wait\<close>

text \<open>The first one's hold has lapsed and waits for the reaper, so the tick can do nothing for it.\<close>

definition waiting :: "nat \<Rightarrow> site" where
  "waiting j = (let ls = map (\<lambda>i. (backorder_line (''l'' @ i) CHR ''7'' 1000 None)\<lparr>ol_order := i\<rparr>) [''o'', ''p''];
      w = sample_world\<lparr>wd_iv := sample_stock_db\<lparr>iv_reservations := [orphan\<lparr>rv_owner := ''lo'', rv_expires := Some 0\<rparr>]\<rparr>\<rparr> in
     \<lparr>si_db = backorder_db (wd_iv w) [backorder ''o'', backorder ''p''] ls, si_world = w, si_goods = backorder_goods ''active'', si_exhausted = None,
      si_offsets = (\<lambda>_. Some j), si_fresh = 0\<rparr>)"

abbreviation no_stamps :: stamps where
  "no_stamps \<equiv> \<lparr>sp_line = \<lambda>_. 0, sp_pick = \<lambda>_. 0\<rparr>"

lemma first_candidate: "candidatesInTx no_stamps (sample_uuid CHR ''1'') 1 0 (waiting 0) = [backorder ''o'']"
  by code_simp

lemma first_answer: "fst (allocateOrderCore backorder_ids (sample_uuid CHR ''1'') ''o'' ((waiting 0)\<lparr>si_exhausted := Some []\<rparr>)) =
    Inr (Allocated \<lparr>al_order = ''o'', al_wh = sample_uuid CHR ''2'', al_allocated = [], al_short = [], al_skipped = []\<rparr> 0)"
  by code_simp

lemma first_tick:
  "\<exists>rep s'. sweepBackorders backorder_ids 1 1 no_stamps (sample_uuid CHR ''1'') (waiting 0) = (Inr rep, s') \<and> sw_allocated rep = 0 \<and>
     si_offsets s' (sample_uuid CHR ''1'') = Some 1"
proof -
  let ?t = "sample_uuid CHR ''1''" and ?s = "(waiting 0)\<lparr>si_exhausted := Some []\<rparr>"
  let ?answer = "Allocated \<lparr>al_order = ''o'', al_wh = sample_uuid CHR ''2'', al_allocated = [], al_short = [], al_skipped = []\<rparr> 0"
  let ?none = "\<lparr>sw_scanned = 0, sw_allocated = 0, sw_units = 0, sw_short = 0\<rparr>"
  obtain s1 where core: "allocateOrderCore backorder_ids ?t ''o'' ?s = (Inr ?answer, s1)"
    using first_answer by (cases "allocateOrderCore backorder_ids ?t ''o'' ?s") simp
  have start: "window_start ?t (waiting 0) = 0" "wd_txs (si_world (waiting 0)) = []"
    by (simp_all add: window_start_def waiting_def Let_def sample_world_def)
  have "or_id (backorder ''o'') = ''o''" by (simp add: backorder_def)
  then have each: "sweep_each backorder_ids ?t 1 [backorder ''o''] ?none ?s = (Inr (?none\<lparr>sw_scanned := 1\<rparr>), s1)"
    using core by (simp add: bind_def attempt_def count_outcome_def)
  have "sweepBackorders backorder_ids 1 1 no_stamps ?t (waiting 0) = (Inr (?none\<lparr>sw_scanned := 1\<rparr>), s1\<lparr>si_offsets := (si_offsets s1)(?t \<mapsto> 1)\<rparr>)"
    using start first_candidate each
    by (simp add: sweepBackorders_def bind_def withTenantTransaction_def start_cache_def set_window_def next_start_def)
  then show ?thesis by simp
qed

lemma waiting_candidates:
  "sort_key (orderUrgencyOrderBy (ist_date (wd_now (si_world (waiting j)))))
     (filter (backorder_candidate no_stamps (wd_now (si_world (waiting j))) (sample_uuid CHR ''1'') (si_db (waiting j))) (ob_orders (si_db (waiting j)))) =
   [backorder ''o'', backorder ''p'']"
proof -
  have "sort_key (orderUrgencyOrderBy (ist_date (wd_now (si_world (waiting 0)))))
     (filter (backorder_candidate no_stamps (wd_now (si_world (waiting 0))) (sample_uuid CHR ''1'') (si_db (waiting 0))) (ob_orders (si_db (waiting 0)))) =
     [backorder ''o'', backorder ''p'']" by code_simp
  then show ?thesis by (simp add: waiting_def Let_def)
qed

theorem every_candidate_gets_its_turn_witness:
  "\<exists>j \<le> (1 :: nat) div 1. [backorder ''o'', backorder ''p''] ! 1 \<in>
     set (candidatesInTx no_stamps (sample_uuid CHR ''1'') 1 (window_start (sample_uuid CHR ''1'') (waiting j)) (waiting j))"
proof (rule every_candidate_gets_its_turn [where st = "\<lambda>_. no_stamps" and batch = 1])
  show "window_start (sample_uuid CHR ''1'') (waiting 0) = 0" by (simp add: window_start_def waiting_def Let_def)
  show "\<exists>rep s'. sweepBackorders backorder_ids 1 1 no_stamps (sample_uuid CHR ''1'') (waiting j) = (Inr rep, s') \<and> sw_allocated rep = 0 \<and>
      si_offsets (waiting (Suc j)) (sample_uuid CHR ''1'') = si_offsets s' (sample_uuid CHR ''1'')" if "j < 1 div 1" for j
    using that first_tick by (auto simp: waiting_def Let_def split: prod.splits sum.splits)
qed (simp_all add: waiting_candidates)

theorem allocation_ends_witness:
  "si_fresh (snd (allocateOrderCore backorder_ids (sample_uuid CHR ''1'') ''o'' (waiting 0))) \<le> 4 \<and>
   (\<exists>rep s'. sweepBackorders backorder_ids 1 1 no_stamps (sample_uuid CHR ''1'') (waiting 0) = (Inr rep, s') \<and> sw_scanned rep \<le> 1 \<and> sw_allocated rep \<le> 1)"
proof -
  have lines: "distinct (map ol_id (ob_lines (si_db (waiting 0))))" "length (lines_of_order (si_db (waiting 0)) (backorder ''o'')) = 1"
    by (simp_all add: waiting_def Let_def backorder_db_def backorder_line_def lines_of_order_def backorder_def)
  have "readOrder (si_db (waiting 0)) (sample_uuid CHR ''1'') ''o'' = Some (backorder ''o'')"
    by (simp add: waiting_def Let_def readOrder_def backorder_db_def backorder_def)
  note ends = allocation_ends [OF lines(1) this, of backorder_ids 1 1 no_stamps]
  have "si_fresh (waiting 0) = 0" by (simp add: waiting_def Let_def)
  with conjunct1 [OF ends] lines(2) have "si_fresh (snd (allocateOrderCore backorder_ids (sample_uuid CHR ''1'') ''o'' (waiting 0))) \<le> 4"
    by (simp add: MAX_GRANT_ATTEMPTS_def)
  then show ?thesis using conjunct2 [OF ends] first_tick by blast
qed

end
