(* ===== verification/Spec2Isabelle.thy ===== *)
theory Spec2Isabelle
  imports LedgerProperties LedgerReplayProperties LedgerAuditProperties AvailabilityRefinement ReservationListing ReservationRaces
    PickHolds AllocationProperties Licence
begin

text \<open>
  A verification library of the warehouse management back end (a NestJS service over Postgres and Valkey).
  What is modelled is its inventory core under \<open>src/src/modules/inventory\<close> (the append-only ledger with its
  projections, replay and hash chain, and the reservation service that promises the stock) and, under
  \<open>src/src/modules/outbound\<close>, the allocation that asks for those promises order by order, the wave planner,
  which spreads promised stock over bins, and the picks, which draw it. Paths below are relative to \<open>src/src\<close>.

  Foundations. \<open>Prelude\<close> has the failures, the result type, sums and updates over tables as lists, and
  generic list lemmas. \<open>Effects\<close> has procedures over a world that fail without undoing what they did,
  with their triples. \<open>Json\<close> and \<open>Time\<close> (\<open>shared/primitives/time.ts\<close>) model the stable rendering of JSON
  values and the IST calendar. \<open>Instant\<close> reads the instants a device sends (\<open>assertUtcIso\<close>); \<open>Quantity\<close>
  (\<open>shared/primitives/quantity.ts\<close>) converts quantities to milli-units and back over doubles, with the
  rounding of each product and quotient; \<open>Uom\<close> (\<open>modules/catalog/uom.ts\<close>) is the vocabulary of units.

  The ledger (\<open>modules/inventory/ledger.service.ts\<close>, \<open>ledger-registry.ts\<close>, \<open>anchor-store.ts\<close>).
  \<open>LedgerRegistry\<close> is the registry of event types as the module load leaves it; \<open>LedgerEvent\<close> is an event
  and its canonical bytes; \<open>Ledger\<close> is \<open>appendMovement\<close> with its guards (grammar, stock freeze, serial
  custody, on-hand) over a record of the tables; \<open>LedgerReplay\<close> is the replay oracle, the bounded scan
  and the scoped repair; \<open>LedgerChain\<close> is verification, anchoring, break recording and export. SHA-256
  is a parameter \<open>sha\<close> of the definitions; its collision freedom on the hashed bytes is a hypothesis
  where it is used. \<open>LedgerInvariant\<close>, \<open>LedgerFold\<close>, \<open>LedgerScan\<close>, \<open>LedgerRebuild\<close>, \<open>LedgerHeal\<close> and
  \<open>LedgerAudit\<close> are the lemmas: the projections are the fold of the events along every history of
  appends, the replay computes that fold, a repair establishes it, or fails as a whole when the events of a
  scope sum below zero (the tables' non-negative check), the walk decides linkage. The
  properties are in \<open>LedgerProperties\<close>, \<open>LedgerReplayProperties\<close> and \<open>LedgerAuditProperties\<close>.

  Availability (\<open>modules/inventory/reservation.service.ts\<close>, \<open>shared/primitives/batch-allocation.ts\<close>).
  \<open>BatchAllocation\<close> has expiry, minimum shelf life, the consignee rule and the slot ranking;
  \<open>Availability\<close> has the hooks, the unpromisable term and the ceiling as the queries compute them;
  \<open>AvailabilityRefinement\<close> states per bin what may be promised and shows that the ceiling is its total.

  The reservation service (\<open>reservation.service.ts\<close>, \<open>shared/valkey\<close>). \<open>Valkey\<close> is the store, its two
  scripts and its keys; \<open>Reservation\<close> and \<open>ReservationBuffer\<close> are the operations over a world with the
  tables, the store, the clock, and the fates of the calls and transactions to come: each may be
  executed, not sent, or executed with its answer lost, so every failure point of every operation is
  covered. \<open>ReservationJournal\<close> says how rows may change, \<open>ReservationMirror\<close> that the counters never
  understate the journal, \<open>ReservationSteps\<close>, \<open>ReservationService\<close> and \<open>ReservationBufferService\<close> that every
  step and every operation keeps both. \<open>ReservationProperties\<close> has the runs of the service and what
  holds in all of them; \<open>ReservationTransitions\<close>, \<open>ReservationRepair\<close> and \<open>ReservationListing\<close> say what single
  operations do; \<open>ReservationRaces\<close> has the three situations in which the service breaks its promise.

  Waves (\<open>modules/outbound/wave.command.ts\<close>, \<open>replan.ts\<close>, \<open>order-urgency.ts\<close>, \<open>shared/primitives/storage-class.ts\<close>).
  \<open>StockPool\<close> has the storage classes, the planner's reads of bins, stock, batches and SKUs, the pool of
  drawable slots and the loop that draws from it; \<open>Outbound\<close> has the tables, the head and the end of a
  command (role check, idempotency replay and record, outbox and audit rows) and the urgency of orders;
  \<open>WavePlan\<close> is the choice of orders, the planning of their lines under the consignee rules of the
  partner links, and the re-plan of a short pick; \<open>Wave\<close> has the commands (policy, generate, release,
  cancel) and the cutoff sweep, each one transaction. \<open>PlanLemmas\<close> has the laws of the draw loop, of the
  pool and of a plan over a list of lines. \<open>WaveProperties\<close> shows that a generated wave accounts for every
  reserved unit and draws only legal stock that is there; \<open>WaveHistory\<close> that an order is on one wave at a
  time, whatever picking does meanwhile, and that a repeated request answers the same; \<open>WaveReplan\<close> that a
  re-plan leaves claimed units alone, and that a second wave is planned as if the first did not exist.

  Picks (\<open>recordPick\<close> of \<open>modules/outbound/pick.command.ts\<close>). \<open>Pick\<close> has the gates a pick passes, in the
  order of the code: device, role, quantity and unit, serials, the planned line and its state, the bin and
  its block, the batches; \<open>PickCommand\<close> has what it writes: the ledger draws, the line's flip, the hold that
  is settled, or released and granted again for what a short pick still owes, the slices of its re-plan, and
  the rows of the pick. A pick is one transaction over the tables of the planner and of the ledger, followed
  by the counter's correction in the store. \<open>PickLemmas\<close> has what each step does and leaves alone; \<open>PickDemo\<close>
  evaluates two picks in a row. \<open>PickProperties\<close> shows that a pick draws exactly what it answers with and only
  past its gates, that the books of picks and of draws agree, and that a pick is one of the floor steps over
  which \<open>WaveHistory\<close> is proved; \<open>PickHolds\<close> that the counter never falls below the journal, that the first
  short pick of an order line leaves a hold of what is owed, and that a second one may not.

  Allocation (\<open>modules/outbound/allocation.command.ts\<close>, \<open>reserve-line.ts\<close>, \<open>shared/primitives/licence.ts\<close>,
  \<open>modules/compliance/licence-enforcement.ts\<close>). \<open>Licence\<close> is the rule of what a party's licences cover and the
  gaps of a movement; \<open>Allocation\<close> is the capped grant loop of a line, the kit block of one grant per
  component that is undone when one fails, and the reads of an order's backordered lines; \<open>AllocationCommand\<close>
  is one allocation (plan, grants outside any transaction, the conditional writes of the second transaction
  with the adoption of holds found late, the release of what no line names) and the sweep over the backordered
  orders of a tenant. The ids a run draws are \<open>newId 0\<close>, \<open>newId 1\<close> and so on for a function \<open>newId\<close>; that they are
  distinct, new and shaped as ids is a hypothesis where it is used. \<open>AllocationCalm\<close>, \<open>AllocationWorld\<close> and
  \<open>AllocationRelease\<close> have what each step leaves alone and what a release ends; \<open>AllocationIds\<close> that the ids a run
  draws do not collide; \<open>AllocationGrants\<close>, \<open>AllocationWrites\<close> and \<open>AllocationRuns\<close> follow a grant from the
  loop through the write to the end of the run; \<open>AllocationLines\<close> what the order's lines then name;
  \<open>AllocationBounds\<close> counts attempts and candidates. \<open>AllocationProperties\<close> shows that the books and the counters
  stay right, that no grant of a run is left behind, that each line a run reports names a live hold of exactly
  the units reserved on it, that kits are granted whole or not at all, that a run ends within its caps, and the one path on
  which an order line takes part of the stock of a SKU that is being sold down.

  Conventions. A table is a list of records in primary-key or insertion order, a query a filter, a join a
  filter over a product. A transaction of the ledger is one step: the advisory lock per warehouse
  serialises appends. Quantities are milli-units as \<open>int\<close>; where the code depends on exact doubles the
  bound \<open>MAX_SAFE_INTEGER\<close> is a condition. There is no fuel: every loop is a recursion
  that is structural or whose termination is proved. Of the tables' CHECK constraints the two that a statement
  of the model could run into are written out, the non-negative quantities of stock and batch rows under a repair
  (the append refuses an overdraw before it); unique indexes are written out where a command answers their
  violation, or are hypotheses on the tables.

  Not modelled: HTTP controllers and DTO validation, logging and problem texts, sessions, and
  the other modules (order intake, packing and dispatch, inbound, movements, returns,
  billing, invoicing, catalog, channels and so on), whose commands call the operations modelled here; of
  the allocation, the SKU codes and the age of the oldest order in its answers; of
  the wave planner and the picks, the display fields of snapshots, the time stamps of rows and the locks: a
  command is one step, so the loser of a concurrent claim is seen only as the conflict it is answered. Text is
  ordered by code points. A key's time to live in Valkey is the
  environment's: a key may vanish between operations. Operations of the reservation service do not
  overlap in the runs, except in \<open>ReservationRaces\<close>, which interleaves two grants and a rebuild; nor does
  another command come between the transactions of one allocation.
\<close>

end
